(* ===== verification/Prelude.thy ===== *)
theory Prelude
  imports Main "HOL-Library.Word" "HOL-Library.Monad_Syntax"
begin

unbundle bit_operations_syntax

text \<open>
  Shared material of the development: the machine types of the C sources, memory copies
  as list splicing, the load/store and rotation helpers of
  \<^verbatim>\<open>include/sodium/private/common.h\<close>, and the generic lemmas on lists and words that
  the components use.

  Conventions. A C buffer is a list of bytes; \<^verbatim>\<open>memcpy(dst + i, src, n)\<close> with
  \<open>n\<close> the length of the list \<open>src\<close> is \<open>write_at dst i src\<close>. A result \<open>None\<close> of an
  \<open>option\<close>-valued operation is the end of the process, by a failed \<^verbatim>\<open>assert\<close> or by
  \<^verbatim>\<open>sodium_misuse()\<close>; an \<^verbatim>\<open>int\<close> return code is an \<^typ>\<open>int\<close>.
\<close>

named_theorems mem_simps \<open>lengths and reads of copied buffers\<close>
named_theorems word_bytes \<open>loads, stores and rotations at the bit level\<close>

type_synonym byte = "8 word"
type_synonym u32 = "32 word"
type_synonym u64 = "64 word"

section \<open>Buffers\<close>

definition write_at :: "'a list \<Rightarrow> nat \<Rightarrow> 'a list \<Rightarrow> 'a list" where
  "write_at dst i src = take i dst @ src @ drop (i + length src) dst"

lemma length_write_at [simp, mem_simps]:
  "i + length src \<le> length dst \<Longrightarrow> length (write_at dst i src) = length dst"
  by (simp add: write_at_def)

lemma write_at_Nil [simp]: "write_at dst i [] = dst"
  by (simp add: write_at_def)

lemma write_at_0_full [simp]: "length src = length dst \<Longrightarrow> write_at dst 0 src = src"
  by (simp add: write_at_def)

lemma take_write_at: "i \<le> length dst \<Longrightarrow> take (i + length src) (write_at dst i src) = take i dst @ src"
  by (simp add: write_at_def)

lemma take_write_at_before: "j \<le> i \<Longrightarrow> i \<le> length dst \<Longrightarrow> take j (write_at dst i src) = take j dst"
  by (simp add: write_at_def min_def)

lemma take_write_at_0: "n = length src \<Longrightarrow> take n (write_at dst 0 src) = src"
  by (simp add: write_at_def)

lemma write_at_fill:
  "i \<le> length dst \<Longrightarrow> i + length src = length dst \<Longrightarrow> write_at dst i src = take i dst @ src"
  by (simp add: write_at_def)

lemma map_nth_upt: "length v = n \<Longrightarrow> map (\<lambda>i. f (v ! i)) [0..<n] = map f v"
  by (auto intro: nth_equalityI)

definition xor_list :: "byte list \<Rightarrow> byte list \<Rightarrow> byte list" where
  "xor_list xs ys = map2 (XOR) xs ys"

lemma length_xor_list [simp]: "length (xor_list xs ys) = min (length xs) (length ys)"
  by (simp add: xor_list_def)

lemma xor_list_invol: "length xs \<le> length ks \<Longrightarrow> xor_list (xor_list xs ks) ks = xs"
  by (rule nth_equalityI) (auto simp: xor_list_def xor.assoc)


definition xor_buf :: "byte list \<Rightarrow> byte list \<Rightarrow> nat \<Rightarrow> byte list" where
  "xor_buf out src n = xor_list (take n out) (take n src) @ drop n out"

section \<open>Rotations, loads and stores (private/common.h)\<close>

definition rotl32 :: "u32 \<Rightarrow> nat \<Rightarrow> u32" where
  "rotl32 x b = push_bit b x OR drop_bit (32 - b) x"

definition rotl64 :: "u64 \<Rightarrow> nat \<Rightarrow> u64" where
  "rotl64 x b = push_bit b x OR drop_bit (64 - b) x"

definition rotr32 :: "u32 \<Rightarrow> nat \<Rightarrow> u32" where
  "rotr32 x b = drop_bit b x OR push_bit (32 - b) x"

definition rotr64 :: "u64 \<Rightarrow> nat \<Rightarrow> u64" where
  "rotr64 x b = drop_bit b x OR push_bit (64 - b) x"

definition load64_le :: "byte list \<Rightarrow> u64" where
  "load64_le src = ucast (src ! 0) OR push_bit 8 (ucast (src ! 1)) OR push_bit 16 (ucast (src ! 2))
     OR push_bit 24 (ucast (src ! 3)) OR push_bit 32 (ucast (src ! 4)) OR push_bit 40 (ucast (src ! 5))
     OR push_bit 48 (ucast (src ! 6)) OR push_bit 56 (ucast (src ! 7))"

definition store64_le :: "u64 \<Rightarrow> byte list" where
  "store64_le w = [ucast w, ucast (drop_bit 8 w), ucast (drop_bit 16 w), ucast (drop_bit 24 w),
     ucast (drop_bit 32 w), ucast (drop_bit 40 w), ucast (drop_bit 48 w), ucast (drop_bit 56 w)]"

definition load32_le :: "byte list \<Rightarrow> u32" where
  "load32_le src = ucast (src ! 0) OR push_bit 8 (ucast (src ! 1)) OR push_bit 16 (ucast (src ! 2))
     OR push_bit 24 (ucast (src ! 3))"

definition store32_le :: "u32 \<Rightarrow> byte list" where
  "store32_le w = [ucast w, ucast (drop_bit 8 w), ucast (drop_bit 16 w), ucast (drop_bit 24 w)]"

definition load64_be :: "byte list \<Rightarrow> u64" where
  "load64_be src = ucast (src ! 7) OR push_bit 8 (ucast (src ! 6)) OR push_bit 16 (ucast (src ! 5))
     OR push_bit 24 (ucast (src ! 4)) OR push_bit 32 (ucast (src ! 3)) OR push_bit 40 (ucast (src ! 2))
     OR push_bit 48 (ucast (src ! 1)) OR push_bit 56 (ucast (src ! 0))"

definition store64_be :: "u64 \<Rightarrow> byte list" where
  "store64_be w = [ucast (drop_bit 56 w), ucast (drop_bit 48 w), ucast (drop_bit 40 w),
     ucast (drop_bit 32 w), ucast (drop_bit 24 w), ucast (drop_bit 16 w), ucast (drop_bit 8 w), ucast w]"

definition load32_be :: "byte list \<Rightarrow> u32" where
  "load32_be src = ucast (src ! 3) OR push_bit 8 (ucast (src ! 2)) OR push_bit 16 (ucast (src ! 1))
     OR push_bit 24 (ucast (src ! 0))"

definition store32_be :: "u32 \<Rightarrow> byte list" where
  "store32_be w = [ucast (drop_bit 24 w), ucast (drop_bit 16 w), ucast (drop_bit 8 w), ucast w]"

lemma length_store [simp, mem_simps]:
  "length (store64_le w) = 8" "length (store32_le v) = 4"
  "length (store64_be w) = 8" "length (store32_be v) = 4"
  by (simp_all add: store64_le_def store32_le_def store64_be_def store32_be_def)

lemma not_bit_byte [simp]: "8 \<le> n \<Longrightarrow> \<not> bit (b :: byte) n"
  using bit_imp_le_length [of b n] by auto

lemma split_bit_index:
  fixes n k :: nat
  assumes "n < 8 * k"
  obtains q r where "n = 8 * q + r" "n div 8 = q" "n mod 8 = r" "r < 8" "q < k"
proof
  show "n = 8 * (n div 8) + n mod 8" by simp
  show "n div 8 < k" using assms by (simp add: less_mult_imp_div_less mult.commute)
qed simp_all

lemma bit_load32_le [word_bytes]:
  "bit (load32_le bs) n \<longleftrightarrow> n < 32 \<and> bit (bs ! (n div 8)) (n mod 8)"
proof (cases "n < 32")
  case True
  then obtain q r where n: "n = 8 * q + r" "n div 8 = q" "n mod 8 = r" "r < 8" and q: "q < 4"
    using split_bit_index [of n 4] by auto
  from q consider "q = 0" | "q = 1" | "q = 2" | "q = 3"
    by linarith
  then show ?thesis
    unfolding n(2,3) using True n(4) by cases (simp_all add: n(1) load32_le_def bit_simps)
qed (auto dest: bit_imp_le_length)

lemma bit_load64_le [word_bytes]:
  "bit (load64_le bs) n \<longleftrightarrow> n < 64 \<and> bit (bs ! (n div 8)) (n mod 8)"
proof (cases "n < 64")
  case True
  then obtain q r where n: "n = 8 * q + r" "n div 8 = q" "n mod 8 = r" "r < 8" and q: "q < 8"
    using split_bit_index [of n 8] by auto
  from q consider "q = 0" | "q = 1" | "q = 2" | "q = 3" | "q = 4" | "q = 5" | "q = 6" | "q = 7"
    by linarith
  then show ?thesis
    unfolding n(2,3) using True n(4) by cases (simp_all add: n(1) load64_le_def bit_simps)
qed (auto dest: bit_imp_le_length)

lemma nth_store32_le: "i < 4 \<Longrightarrow> store32_le w ! i = ucast (drop_bit (8 * i) w)"
  by (auto simp: store32_le_def less_Suc_eq numeral_eq_Suc)

lemma nth_store64_le: "i < 8 \<Longrightarrow> store64_le w ! i = ucast (drop_bit (8 * i) w)"
  by (auto simp: store64_le_def less_Suc_eq numeral_eq_Suc)

lemma load32_le_store [simp]: "load32_le (store32_le w) = w"
  by (rule bit_word_eqI) (simp add: bit_load32_le nth_store32_le bit_simps)

lemma load64_le_store [simp]: "load64_le (store64_le w) = w"
  by (rule bit_word_eqI) (simp add: bit_load64_le nth_store64_le bit_simps)

lemma store32_le_load [simp]: "length bs = 4 \<Longrightarrow> store32_le (load32_le bs) = bs"
  by (intro nth_equalityI bit_word_eqI)
    (auto simp: nth_store32_le bit_load32_le bit_simps)

lemma store64_le_load [simp]: "length bs = 8 \<Longrightarrow> store64_le (load64_le bs) = bs"
  by (intro nth_equalityI bit_word_eqI)
    (auto simp: nth_store64_le bit_load64_le bit_simps)

lemma load32_be_eq: "length bs = 4 \<Longrightarrow> load32_be bs = load32_le (rev bs)"
  by (simp add: load32_be_def load32_le_def rev_nth)

lemma load64_be_eq: "length bs = 8 \<Longrightarrow> load64_be bs = load64_le (rev bs)"
  by (simp add: load64_be_def load64_le_def rev_nth)

lemma store32_be_eq: "store32_be w = rev (store32_le w)"
  by (simp add: store32_be_def store32_le_def)

lemma store64_be_eq: "store64_be w = rev (store64_le w)"
  by (simp add: store64_be_def store64_le_def)


lemma load32_be_store [simp]: "load32_be (store32_be w) = w"
  by (simp add: load32_be_eq store32_be_eq)

lemma load64_be_store [simp]: "load64_be (store64_be w) = w"
  by (simp add: load64_be_eq store64_be_eq)

lemma store32_be_load [simp]: "length bs = 4 \<Longrightarrow> store32_be (load32_be bs) = bs"
  by (simp add: load32_be_eq store32_be_eq)

lemma store64_be_load [simp]: "length bs = 8 \<Longrightarrow> store64_be (load64_be bs) = bs"
  by (simp add: load64_be_eq store64_be_eq)

lemma load32_le_take: "load32_le (take 4 bs) = load32_le bs"
  by (simp add: load32_le_def)

lemma load64_le_take: "load64_le (take 8 bs) = load64_le bs"
  by (simp add: load64_le_def)

section \<open>Bit counters\<close>

lemma push_bit3: "push_bit 3 w = 8 * (w :: u64)"
  by (simp add: push_bit_eq_mult)

text \<open>The byte position read off a 64-bit counter of bits.\<close>

lemma unat_bits_to_bytes:
  assumes "k \<le> 61"
  shows "unat (drop_bit 3 (of_nat (8 * n) :: u64) AND mask k) = n mod 2 ^ k"
proof -
  have "unat (drop_bit 3 (of_nat (8 * n) :: u64) AND mask k) = (8 * n mod 2 ^ 64) div 8 mod 2 ^ k"
    by (simp only: take_bit_eq_mask [symmetric] unsigned_take_bit_eq unat_drop_bit_eq unsigned_of_nat)
      (simp add: drop_bit_eq_div take_bit_eq_mod)
  also have "8 * n mod 2 ^ 64 = 8 * (n mod 2 ^ 61)"
    using mult_mod_right [of 8 n "2 ^ 61"] by simp
  also have "8 * (n mod 2 ^ 61) div 8 mod 2 ^ k = n mod 2 ^ k"
    using mod_mod_cancel [OF le_imp_power_dvd [OF assms, of 2], of n] by simp
  finally show ?thesis .
qed

section \<open>Bytes as numbers\<close>

lemma byte_bounds: "unat (b :: byte) < 256" "uint b < 256" "0 \<le> uint b"
  using unsigned_less [of b, where 'a = nat] unsigned_less [of b, where 'a = int] by simp_all

lemma xor_zero_iff: "a XOR b = 0 \<longleftrightarrow> a = (b :: byte)"
  by (metis xor.assoc xor.left_neutral xor.right_neutral xor_self_eq)

lemma unat_ucast_byte: "unat (ucast (d :: byte) :: u64) = unat d"
  using unsigned_less [of d, where 'a = nat] by (simp add: unsigned_ucast_eq take_bit_nat_eq_self)

lemma ucast_byte_zero: "(ucast (d :: byte) :: u64) = 0 \<longleftrightarrow> d = 0"
  by (metis unat_ucast_byte unsigned_0 unsigned_eq_0_iff)

lemma unat_byte_pos: "(d :: byte) \<noteq> 0 \<Longrightarrow> 0 < unat d"
  by (simp add: unat_gt_0)

lemma unat_sum_small:
  "unat (a :: 'w :: len word) + unat b < 2 ^ LENGTH('w) \<Longrightarrow> unat (a + b) = unat a + unat b"
  by (simp add: unat_word_ariths)

lemma unat_carry_div: "unat (drop_bit 8 (c :: 'w :: len word)) = unat c div 256"
  by (simp only: unat_drop_bit_eq) (simp add: drop_bit_eq_div)

text \<open>The number a byte string denotes, least significant byte first.\<close>

primrec le_nat :: "byte list \<Rightarrow> nat" where
  "le_nat [] = 0"
| "le_nat (b # bs) = unat b + 256 * le_nat bs"

lemma le_nat_less: "le_nat bs < 256 ^ length bs"
proof (induction bs)
  case (Cons b bs)
  then show ?case using byte_bounds(1) [of b] by simp
qed simp

lemma le_nat_append: "le_nat (a @ b) = le_nat a + 256 ^ length a * le_nat b"
  by (induction a) (simp_all add: algebra_simps)

lemma le_nat_inject: "length a = length b \<Longrightarrow> le_nat a = le_nat b \<Longrightarrow> a = b"
proof (induction a b rule: list_induct2)
  case (Cons x a y b)
  have "unat x = (unat x + 256 * le_nat a) mod 256" "unat y = (unat y + 256 * le_nat b) mod 256"
    using byte_bounds(1) [of x] byte_bounds(1) [of y] by simp_all
  then have "unat x = unat y" using Cons.prems unfolding le_nat.simps by metis
  then show ?case using Cons by (simp add: word_unat_eq_iff)
qed simp

primrec le_bytes :: "nat \<Rightarrow> nat \<Rightarrow> byte list" where
  "le_bytes 0 x = []"
| "le_bytes (Suc n) x = of_nat x # le_bytes n (x div 256)"

lemma length_le_bytes [simp]: "length (le_bytes n x) = n"
  by (induction n arbitrary: x) simp_all

lemma le_nat_le_bytes: "le_nat (le_bytes n x) = x mod 256 ^ n"
proof (induction n arbitrary: x)
  case (Suc n)
  have "unat (of_nat x :: byte) = x mod 256"
    by (simp add: unsigned_of_nat take_bit_eq_mod)
  then show ?case using Suc by (simp add: mod_mult2_eq)
qed simp

lemma le_bytes_mod: "le_bytes n (x mod 256 ^ n) = le_bytes n x"
  by (rule le_nat_inject) (simp_all add: le_nat_le_bytes)

lemma ucast_drop_bit_byte: "(ucast (drop_bit n (w :: 'a :: len word)) :: byte) = of_nat (unat w div 2 ^ n)"
proof -
  have "unat (drop_bit n w) = unat w div 2 ^ n"
    by (simp only: unat_drop_bit_eq) (simp add: drop_bit_eq_div)
  then show ?thesis by (metis of_nat_unat)
qed

lemma nth_le_bytes: "i < n \<Longrightarrow> le_bytes n x ! i = of_nat (x div 256 ^ i)"
proof (induction n arbitrary: x i)
  case (Suc n)
  then show ?case by (cases i) (simp_all add: div_mult2_eq)
qed simp

lemma power_256: "2 ^ (8 * i) = (256 :: nat) ^ i"
  by (simp add: power_mult)

lemma store64_le_bytes: "store64_le w = le_bytes 8 (unat w)"
  by (rule nth_equalityI) (simp_all only: nth_store64_le nth_le_bytes ucast_drop_bit_byte power_256 length_store length_le_bytes)

lemma store32_le_bytes: "store32_le w = le_bytes 4 (unat w)"
  by (rule nth_equalityI) (simp_all only: nth_store32_le nth_le_bytes ucast_drop_bit_byte power_256 length_store length_le_bytes)

lemma le_nat_store [simp]: "le_nat (store64_le w) = unat w" "le_nat (store32_le v) = unat v"
  using unsigned_less [of w, where 'a = nat] unsigned_less [of v, where 'a = nat]
  by (simp_all add: store64_le_bytes store32_le_bytes le_nat_le_bytes)

end
