(* ===== verification/Streaming.thy ===== *)
theory Streaming
  imports Prelude
begin

text \<open>
  The interface of the incremental hash functions and authenticators of the library:
  \<^verbatim>\<open>init\<close>, \<^verbatim>\<open>update\<close>, \<^verbatim>\<open>final\<close> over a context that buffers a partial block.
  \<open>blocks_fold\<close> is the abstract iteration of a compression function over the full blocks
  of a message. The locale \<open>streaming\<close> states what a provider promises (a context
  represents the bytes it was fed), with the aborts of the C code as \<open>None\<close>;
  \<open>total_streaming\<close> is the variant of the operations that never abort.
\<close>

section \<open>Iterating over full blocks\<close>

function blocks_fold :: "nat \<Rightarrow> ('h \<Rightarrow> byte list \<Rightarrow> 'h) \<Rightarrow> 'h \<Rightarrow> byte list \<Rightarrow> 'h" where
  "blocks_fold B f h m =
     (if B = 0 \<or> length m < B then h else blocks_fold B f (f h (take B m)) (drop B m))"
  by pat_completeness auto
termination
  by (relation "measure (\<lambda>(B, f, h, m). length m)") auto

declare blocks_fold.simps [simp del]

definition tail_bytes :: "nat \<Rightarrow> byte list \<Rightarrow> byte list" where
  "tail_bytes B m = drop (length m div B * B) m"

lemma length_tail_bytes [simp]: "length (tail_bytes B m) = length m mod B"
  by (simp add: tail_bytes_def minus_div_mult_eq_mod)

lemma tail_bytes_short [simp]: "length m < B \<Longrightarrow> tail_bytes B m = m"
  by (simp add: tail_bytes_def)

lemma blocks_fold_short [simp]: "length m < B \<Longrightarrow> blocks_fold B f h m = h"
  by (simp add: blocks_fold.simps)

lemma blocks_fold_block:
  "length b = B \<Longrightarrow> 0 < B \<Longrightarrow> blocks_fold B f h (b @ m) = blocks_fold B f (f h b) m"
  by (simp add: blocks_fold.simps [of B f h "b @ m"])

lemma blocks_fold_one: "length b = B \<Longrightarrow> 0 < B \<Longrightarrow> blocks_fold B f h b = f h b"
  using blocks_fold_block [of b B f h "[]"] by simp

lemma tail_bytes_skip: "length c = j * B \<Longrightarrow> 0 < B \<Longrightarrow> tail_bytes B (c @ d) = tail_bytes B d"
  by (simp add: tail_bytes_def add_mult_distrib)

lemma tail_bytes_block: "length b = B \<Longrightarrow> 0 < B \<Longrightarrow> tail_bytes B (b @ m) = tail_bytes B m"
  using tail_bytes_skip [of b 1 B m] by simp

lemma blocks_fold_append:
  assumes "0 < B"
  shows "blocks_fold B f h (m @ n) = blocks_fold B f (blocks_fold B f h m) (tail_bytes B m @ n)"
  using assms
proof (induction B f h m rule: blocks_fold.induct)
  case (1 B f h m)
  show ?case
  proof (cases "B = 0 \<or> length m < B")
    case True
    then have "length m < B" using "1.prems" by simp
    then show ?thesis by simp
  next
    case False
    let ?b = "take B m" and ?r = "drop B m"
    have m: "m = ?b @ ?r" and lb: "length ?b = B" and B: "0 < B"
      using False by auto
    have "blocks_fold B f h (m @ n) = blocks_fold B f (f h ?b) (?r @ n)"
      using m lb B blocks_fold_block by (metis append.assoc)
    also have "\<dots> = blocks_fold B f (blocks_fold B f (f h ?b) ?r) (tail_bytes B ?r @ n)"
      using "1.IH" [OF False B] .
    also have "blocks_fold B f (f h ?b) ?r = blocks_fold B f h m"
      using m lb B blocks_fold_block by metis
    also have "tail_bytes B ?r = tail_bytes B m"
      using m lb B tail_bytes_block by metis
    finally show ?thesis .
  qed
qed

lemma tail_bytes_append:
  assumes "0 < B"
  shows "tail_bytes B (m @ n) = tail_bytes B (tail_bytes B m @ n)"
proof -
  let ?k = "length m div B * B"
  have "m = take ?k m @ tail_bytes B m" by (simp add: tail_bytes_def)
  then have "m @ n = take ?k m @ (tail_bytes B m @ n)"
    by (metis append.assoc)
  moreover have "length (take ?k m) = length m div B * B"
    by simp
  ultimately show ?thesis
    using tail_bytes_skip assms by metis
qed

lemma blocks_fold_aligned:
  assumes "0 < B" "length m mod B = 0"
  shows "blocks_fold B f h (m @ n) = blocks_fold B f (blocks_fold B f h m) n"
  using assms blocks_fold_append [of B f h m n] by (metis append_Nil length_0_conv length_tail_bytes)

lemma tail_bytes_aligned [simp]: "length m mod B = 0 \<Longrightarrow> tail_bytes B m = []"
  by (metis length_0_conv length_tail_bytes)

lemma blocks_fold_fill:
  assumes "0 < B" "length m mod B + length c = B"
  shows "blocks_fold B f h (m @ c) = f (blocks_fold B f h m) (tail_bytes B m @ c)"
    and "(length m + length c) mod B = 0"
proof -
  show "blocks_fold B f h (m @ c) = f (blocks_fold B f h m) (tail_bytes B m @ c)"
    using assms by (simp add: blocks_fold_append blocks_fold_one)
  show "(length m + length c) mod B = 0"
    using assms by (metis mod_add_left_eq mod_self)
qed

lemma blocks_fold_partial:
  assumes "0 < B" "length m mod B + length c < B"
  shows "blocks_fold B f h (m @ c) = blocks_fold B f h m"
    and "tail_bytes B (m @ c) = tail_bytes B m @ c"
    and "(length m + length c) mod B = length m mod B + length c"
proof -
  show "blocks_fold B f h (m @ c) = blocks_fold B f h m"
    using assms by (simp add: blocks_fold_append)
  show "tail_bytes B (m @ c) = tail_bytes B m @ c"
    using assms by (subst tail_bytes_append) simp_all
  show "(length m + length c) mod B = length m mod B + length c"
    using assms by (metis mod_add_left_eq mod_less)
qed

section \<open>Eager buffering\<close>

text \<open>
  The buffering discipline shared by the SHA-2 contexts: fill the buffer from position
  \<open>r\<close>, compress it when it is full, compress the full blocks of the rest directly, and
  keep the remainder at the front of the buffer. \<open>buffered\<close> is the invariant that ties
  chaining value and buffer to the message absorbed so far.
\<close>

definition eager_absorb ::
  "nat \<Rightarrow> ('h \<Rightarrow> byte list \<Rightarrow> 'h) \<Rightarrow> nat \<Rightarrow> 'h \<Rightarrow> byte list \<Rightarrow> byte list \<Rightarrow> 'h \<times> byte list" where
  "eager_absorb B f r h buf c =
    (if length c < B - r then (h, write_at buf r c)
     else let buf' = write_at buf r (take (B - r) c); rest = drop (B - r) c
          in (blocks_fold B f (f h buf') rest, write_at buf' 0 (tail_bytes B rest)))"

definition buffered ::
  "nat \<Rightarrow> ('h \<Rightarrow> byte list \<Rightarrow> 'h) \<Rightarrow> 'h \<Rightarrow> byte list \<Rightarrow> 'h \<Rightarrow> byte list \<Rightarrow> bool" where
  "buffered B f iv m h buf \<longleftrightarrow> 0 < B \<and> length buf = B \<and> h = blocks_fold B f iv m \<and>
     take (length m mod B) buf = tail_bytes B m"

lemma buffered_init: "0 < B \<Longrightarrow> length buf = B \<Longrightarrow> buffered B f iv [] iv buf"
  by (simp add: buffered_def)

lemma buffered_fill:
  assumes "buffered B f iv m h buf" "length m mod B + length c = B"
  shows "write_at buf (length m mod B) c = tail_bytes B m @ c"
  using assms by (simp add: buffered_def write_at_def)

lemma buffered_absorb:
  assumes inv: "buffered B f iv m h buf" and e: "eager_absorb B f (length m mod B) h buf c = (h', buf')"
  shows "buffered B f iv (m @ c) h' buf'"
proof (cases "length c < B - length m mod B")
  case True
  then have "length m mod B + length c < B" by simp
  note part = blocks_fold_partial(1) [OF _ this, where f = f and h = iv] blocks_fold_partial(2,3) [OF _ this]
  from True e have h': "h' = h" "buf' = write_at buf (length m mod B) c"
    by (simp_all add: eager_absorb_def)
  show ?thesis
    using inv part \<open>length m mod B + length c < B\<close>
    unfolding buffered_def h' by (simp add: take_write_at)
next
  case False
  let ?r = "length m mod B" and ?c = "take (B - length m mod B) c" and ?rest = "drop (B - length m mod B) c"
  have B: "0 < B" "length buf = B" using inv by (simp_all add: buffered_def)
  have fill: "?r + length ?c = B" using False B by simp
  note full = blocks_fold_fill(1) [OF B(1) fill, where f = f and h = iv] blocks_fold_fill(2) [OF B(1) fill]
  have h: "h = blocks_fold B f iv m" using inv by (simp add: buffered_def)
  have b: "write_at buf ?r ?c = tail_bytes B m @ ?c" by (rule buffered_fill [OF inv fill])
  have m: "m @ c = (m @ ?c) @ ?rest" by simp
  have al: "length (m @ ?c) mod B = 0" using full by simp
  have "blocks_fold B f iv (m @ c) = blocks_fold B f (f h (tail_bytes B m @ ?c)) ?rest"
    unfolding m blocks_fold_aligned [OF B(1) al] full(1) h ..
  moreover have "tail_bytes B (m @ c) = tail_bytes B ?rest"
    unfolding m by (subst tail_bytes_append [OF B(1)]) (simp only: tail_bytes_aligned [OF al] append_Nil)
  moreover have "length (m @ c) mod B = length ?rest mod B"
    using al by (metis calculation(2) length_tail_bytes)
  moreover have "length ?rest mod B < B" using B by simp
  ultimately show ?thesis
    using e False B fill unfolding eager_absorb_def b
    by (auto simp: buffered_def Let_def take_write_at_0)
qed

section \<open>Merkle-Damgard padding\<close>

text \<open>\<open>md_pad B L n enc\<close>: a one bit, zeros up to the last \<open>L\<close> bytes of a block, and the
  encoded length \<open>enc\<close> of a message of \<open>n\<close> bytes. \<open>eager_pad\<close> is how the SHA-2 code
  lays it out in the buffer, in one block or in two.\<close>

definition md_pad :: "nat \<Rightarrow> nat \<Rightarrow> nat \<Rightarrow> byte list \<Rightarrow> byte list" where
  "md_pad B L n enc = 0x80 # replicate ((2 * B - L - 1 - n mod B) mod B) 0 @ enc"

lemma md_pad_one:
  assumes "n mod B < B - L" "L < B"
  shows "md_pad B L n enc = 0x80 # replicate (B - L - 1 - n mod B) 0 @ enc"
proof -
  have "2 * B - L - 1 - n mod B = B + (B - L - 1 - n mod B)"
    using assms by simp
  then have "(2 * B - L - 1 - n mod B) mod B = (B - L - 1 - n mod B) mod B"
    by (simp only: mod_add_self1)
  then show ?thesis using assms by (simp add: md_pad_def)
qed

lemma md_pad_two:
  assumes "B - L \<le> n mod B" "L < B"
  shows "md_pad B L n enc = (0x80 # replicate (B - 1 - n mod B) 0) @ (replicate (B - L) 0 @ enc)"
proof -
  have "n mod B < B" using assms by simp
  then have "2 * B - L - 1 - n mod B = (B - 1 - n mod B) + (B - L)"
    using assms(2) by linarith
  moreover have "2 * B - L - 1 - n mod B < B"
    using assms by linarith
  ultimately show ?thesis by (simp add: md_pad_def replicate_add)
qed

definition eager_pad ::
  "nat \<Rightarrow> nat \<Rightarrow> ('h \<Rightarrow> byte list \<Rightarrow> 'h) \<Rightarrow> nat \<Rightarrow> 'h \<Rightarrow> byte list \<Rightarrow> byte list \<Rightarrow> 'h" where
  "eager_pad B L f r h buf enc =
    (let PAD = 0x80 # replicate (B - 1) 0 in
     if r < B - L then f h (write_at (write_at buf r (take (B - L - r) PAD)) (B - L) enc)
     else let b = write_at buf r (take (B - r) PAD)
          in f (f h b) (write_at (write_at b 0 (replicate (B - L) 0)) (B - L) enc))"

lemma take_PAD: "0 < k \<Longrightarrow> k \<le> B \<Longrightarrow> take k (0x80 # replicate (B - 1) 0) = (0x80 :: byte) # replicate (k - 1) 0"
  by (cases k) (simp_all add: min_def)

lemma write_at_end:
  "length dst = B \<Longrightarrow> length enc + k = B \<Longrightarrow> write_at dst k enc = take k dst @ enc"
  by (simp add: write_at_def)

lemma eager_pad_correct:
  assumes inv: "buffered B f iv m h buf" and L: "length enc = L" "L < B"
  shows "eager_pad B L f (length m mod B) h buf enc = blocks_fold B f iv (m @ md_pad B L (length m) enc)"
proof -
  let ?r = "length m mod B" and ?t = "tail_bytes B m"
  have B: "0 < B" "length buf = B" "take ?r buf = ?t" and h: "h = blocks_fold B f iv m"
    using inv by (simp_all add: buffered_def)
  have r: "?r < B" using B by simp
  have fold: "blocks_fold B f iv (m @ p) = blocks_fold B f h (?t @ p)" for p
    unfolding h by (rule blocks_fold_append) (rule B)
  show ?thesis
  proof (cases "?r < B - L")
    case True
    let ?p = "0x80 # replicate (B - L - 1 - ?r) 0 :: byte list"
    have P: "take (B - L - ?r) (0x80 # replicate (B - 1) 0) = ?p"
      using True by (subst take_PAD) (auto simp: algebra_simps)
    have p: "?r + length ?p = B - L" using True by simp
    then have "length (write_at buf ?r ?p) = B" using B by simp
    then have "write_at (write_at buf ?r ?p) (B - L) enc = take (?r + length ?p) (write_at buf ?r ?p) @ enc"
      unfolding p using L by (intro write_at_end) simp_all
    also have "take (?r + length ?p) (write_at buf ?r ?p) = ?t @ ?p"
      using B r by (subst take_write_at) simp_all
    finally have "eager_pad B L f ?r h buf enc = f h (?t @ ?p @ enc)"
      using True P by (simp add: eager_pad_def Let_def)
    moreover have "length (?t @ ?p @ enc) = B" using True L r by simp
    ultimately show ?thesis
      using True B L by (simp add: fold md_pad_one blocks_fold_one)
  next
    case False
    let ?p = "0x80 # replicate (B - 1 - ?r) 0 :: byte list"
    have P: "take (B - ?r) (0x80 # replicate (B - 1) 0) = ?p"
      using r by (subst take_PAD) (auto simp: algebra_simps)
    have lp: "length (?t @ ?p) = B"
      using r by (simp only: length_append length_tail_bytes length_Cons length_replicate)
    have b: "write_at buf ?r ?p = ?t @ ?p"
      using buffered_fill [OF inv, of ?p] r by simp
    have "length (write_at (?t @ ?p) 0 (replicate (B - L) 0)) = B"
      using r by simp
    from write_at_end [OF this, of enc "B - L"]
    have "write_at (write_at (?t @ ?p) 0 (replicate (B - L) 0)) (B - L) enc = replicate (B - L) 0 @ enc"
      using L by (simp add: take_write_at_0)
    then have "eager_pad B L f ?r h buf enc = f (f h (?t @ ?p)) (replicate (B - L) 0 @ enc)"
      using False P b by (simp add: eager_pad_def Let_def)
    also have "\<dots> = blocks_fold B f h ((?t @ ?p) @ (replicate (B - L) 0 @ enc))"
      using B L by (simp only: blocks_fold_block [OF lp]) (simp add: blocks_fold_one)
    also have "(?t @ ?p) @ (replicate (B - L) 0 @ enc) = ?t @ md_pad B L (length m) enc"
      using False L by (simp only: md_pad_two not_less append_assoc)
    finally show ?thesis by (simp only: fold)
  qed
qed

section \<open>Feeding a message in chunks\<close>

primrec feed :: "('s \<Rightarrow> byte list \<Rightarrow> 's option) \<Rightarrow> 's \<Rightarrow> byte list list \<Rightarrow> 's option" where
  "feed upd s [] = Some s"
| "feed upd s (c # cs) = Option.bind (upd s c) (\<lambda>s'. feed upd s' cs)"

lemma feed_total: "feed (\<lambda>s c. Some (f s c)) s cs = Some (foldl f s cs)"
  by (induction cs arbitrary: s) simp_all

locale streaming =
  fixes mem_ok :: "'s \<Rightarrow> bool"
    and init :: "'s \<Rightarrow> 's"
    and upd :: "'s \<Rightarrow> byte list \<Rightarrow> 's option"
    and fin :: "'s \<Rightarrow> ('s \<times> byte list) option"
    and rep :: "'s \<Rightarrow> byte list \<Rightarrow> bool"
    and fits :: "byte list \<Rightarrow> bool"
    and digest :: "byte list \<Rightarrow> byte list"
  assumes rep_init: "mem_ok s \<Longrightarrow> rep (init s) []"
    and rep_upd: "rep s m \<Longrightarrow> fits c \<Longrightarrow> \<exists>s'. upd s c = Some s' \<and> rep s' (m @ c)"
    and rep_fin: "rep s m \<Longrightarrow> \<exists>s'. fin s = Some (s', digest m) \<and> mem_ok s'"
begin

lemma rep_feed:
  "rep s m \<Longrightarrow> list_all fits cs \<Longrightarrow> \<exists>s'. feed upd s cs = Some s' \<and> rep s' (m @ concat cs)"
proof (induction cs arbitrary: s m)
  case Nil
  then show ?case by simp
next
  case (Cons c cs)
  then obtain s1 where "upd s c = Some s1" "rep s1 (m @ c)"
    using rep_upd [of s m c] by auto
  with Cons.IH [of s1 "m @ c"] Cons.prems show ?case by simp
qed

lemma digest_feed:
  assumes "mem_ok s" "list_all fits cs"
  shows "map_option snd (Option.bind (feed upd (init s) cs) fin) = Some (digest (concat cs))"
  using rep_feed [OF rep_init [OF assms(1)] assms(2)] rep_fin by fastforce

end

locale total_streaming =
  fixes mem_ok :: "'s \<Rightarrow> bool"
    and init :: "'s \<Rightarrow> 's"
    and upd :: "'s \<Rightarrow> byte list \<Rightarrow> 's"
    and fin :: "'s \<Rightarrow> 's \<times> byte list"
    and rep :: "'s \<Rightarrow> byte list \<Rightarrow> bool"
    and fits :: "byte list \<Rightarrow> bool"
    and digest :: "byte list \<Rightarrow> byte list"
  assumes t_init: "mem_ok s \<Longrightarrow> rep (init s) []"
    and t_upd: "rep s m \<Longrightarrow> fits c \<Longrightarrow> rep (upd s c) (m @ c)"
    and t_fin: "rep s m \<Longrightarrow> snd (fin s) = digest m"
    and t_mem: "rep s m \<Longrightarrow> mem_ok (fst (fin s))"

sublocale total_streaming \<subseteq> opt: streaming mem_ok init "\<lambda>s c. Some (upd s c)" "\<lambda>s. Some (fin s)" rep fits digest
proof unfold_locales
  fix s m
  assume "rep s m"
  then show "\<exists>s'. Some (fin s) = Some (s', digest m) \<and> mem_ok s'"
    by (metis prod.collapse t_fin t_mem)
qed (auto intro: t_init t_upd)

context total_streaming
begin

lemma rep_foldl: "rep s m \<Longrightarrow> list_all fits cs \<Longrightarrow> rep (foldl upd s cs) (m @ concat cs)"
  using opt.rep_feed [of s m cs] by (simp add: feed_total)

lemma digest_foldl:
  "mem_ok s \<Longrightarrow> list_all fits cs \<Longrightarrow> snd (fin (foldl upd (init s) cs)) = digest (concat cs)"
  using rep_foldl [OF t_init] t_fin by fastforce

lemma digest_one: "mem_ok s \<Longrightarrow> fits m \<Longrightarrow> snd (fin (upd (init s) m)) = digest m"
  using digest_foldl [of s "[m]"] by simp

end

end
