(* ===== verification/Blake2b.thy ===== *)
theory Blake2b
  imports Streaming
begin

unbundle bit_operations_syntax

text \<open>
  BLAKE2b: \<^verbatim>\<open>crypto_generichash/blake2b/ref/blake2b-ref.c\<close> and
  \<^verbatim>\<open>blake2b-compress-ref.c\<close>. The context keeps up to two blocks and compresses a block
  only when more input is known to follow it, so that the last block can be marked. Null
  pointers are \<open>None\<close>; \<^verbatim>\<open>uint8_t\<close> lengths are bytes. \<open>None\<close> as a result is
  \<^verbatim>\<open>sodium_misuse()\<close> or a failed assertion.
\<close>

section \<open>The code\<close>

record blake2b_param =
  digest_length :: byte
  key_length :: byte
  fanout :: byte
  depth :: byte
  leaf_length :: "byte list"
  node_offset :: "byte list"
  node_depth :: byte
  inner_length :: byte
  reserved :: "byte list"
  salt :: "byte list"
  personal :: "byte list"

record blake2b_state =
  b2_h :: "u64 list"
  b2_t :: "u64 list"
  b2_f :: "u64 list"
  b2_buf :: "byte list"
  b2_buflen :: nat
  b2_last_node :: byte

definition blake2b_IV :: "u64 list" where
  "blake2b_IV = [
    0x6a09e667f3bcc908, 0xbb67ae8584caa73b, 0x3c6ef372fe94f82b,
    0xa54ff53a5f1d36f1, 0x510e527fade682d1, 0x9b05688c2b3e6c1f,
    0x1f83d9abfb41bd6b, 0x5be0cd19137e2179]"

definition blake2b_sigma :: "nat list list" where
  "blake2b_sigma = [
    [0, 1, 2, 3, 4, 5, 6, 7, 8, 9, 10, 11, 12, 13, 14, 15],
    [14, 10, 4, 8, 9, 15, 13, 6, 1, 12, 0, 2, 11, 7, 5, 3],
    [11, 8, 12, 0, 5, 2, 15, 13, 10, 14, 3, 6, 7, 1, 9, 4],
    [7, 9, 3, 1, 13, 12, 11, 14, 2, 6, 5, 10, 4, 0, 15, 8],
    [9, 0, 5, 7, 2, 4, 10, 15, 14, 1, 11, 12, 6, 8, 3, 13],
    [2, 12, 6, 10, 0, 11, 8, 3, 4, 13, 7, 5, 15, 14, 1, 9],
    [12, 5, 1, 15, 14, 13, 4, 10, 0, 7, 6, 3, 9, 2, 8, 11],
    [13, 11, 7, 14, 12, 1, 3, 9, 5, 0, 15, 4, 8, 6, 2, 10],
    [6, 15, 14, 9, 11, 3, 0, 8, 12, 2, 13, 7, 1, 4, 10, 5],
    [10, 2, 8, 4, 7, 6, 1, 5, 15, 11, 9, 14, 3, 12, 13, 0],
    [0, 1, 2, 3, 4, 5, 6, 7, 8, 9, 10, 11, 12, 13, 14, 15],
    [14, 10, 4, 8, 9, 15, 13, 6, 1, 12, 0, 2, 11, 7, 5, 3]]"

text \<open>The macros \<^verbatim>\<open>G\<close> and \<^verbatim>\<open>ROUND\<close>; \<open>a\<close>, \<open>b\<close>, \<open>c\<close>, \<open>d\<close> are indices into \<open>v\<close>.\<close>

definition blake2b_G :: "u64 list \<Rightarrow> nat \<Rightarrow> nat \<Rightarrow> nat \<Rightarrow> nat \<Rightarrow> nat \<Rightarrow> nat \<Rightarrow> u64 list \<Rightarrow> u64 list" where
  "blake2b_G m r i a b c d v =
    (let v = v[a := v ! a + (v ! b + m ! (blake2b_sigma ! r ! (2 * i + 0)))];
         v = v[d := rotr64 (v ! d XOR v ! a) 32];
         v = v[c := v ! c + v ! d];
         v = v[b := rotr64 (v ! b XOR v ! c) 24];
         v = v[a := v ! a + (v ! b + m ! (blake2b_sigma ! r ! (2 * i + 1)))];
         v = v[d := rotr64 (v ! d XOR v ! a) 16];
         v = v[c := v ! c + v ! d]
     in v[b := rotr64 (v ! b XOR v ! c) 63])"

definition blake2b_ROUND :: "u64 list \<Rightarrow> u64 list \<Rightarrow> nat \<Rightarrow> u64 list" where
  "blake2b_ROUND m v r =
    (let v = blake2b_G m r 0 0 4 8 12 v;
         v = blake2b_G m r 1 1 5 9 13 v;
         v = blake2b_G m r 2 2 6 10 14 v;
         v = blake2b_G m r 3 3 7 11 15 v;
         v = blake2b_G m r 4 0 5 10 15 v;
         v = blake2b_G m r 5 1 6 11 12 v;
         v = blake2b_G m r 6 2 7 8 13 v
     in blake2b_G m r 7 3 4 9 14 v)"

definition blake2b_compress_ref :: "blake2b_state \<Rightarrow> byte list \<Rightarrow> blake2b_state" where
  "blake2b_compress_ref S block =
    (let m = map (\<lambda>i. load64_le (drop (i * 8) block)) [0..<16];
         v = map (\<lambda>i. b2_h S ! i) [0..<8] @
             [blake2b_IV ! 0, blake2b_IV ! 1, blake2b_IV ! 2, blake2b_IV ! 3,
              b2_t S ! 0 XOR blake2b_IV ! 4, b2_t S ! 1 XOR blake2b_IV ! 5,
              b2_f S ! 0 XOR blake2b_IV ! 6, b2_f S ! 1 XOR blake2b_IV ! 7];
         v = foldl (blake2b_ROUND m) v [0, 1, 2, 3, 4, 5, 6, 7, 8, 9, 10, 11]
     in S\<lparr>b2_h := map (\<lambda>i. b2_h S ! i XOR v ! i XOR v ! (i + 8)) [0..<8]\<rparr>)"

definition blake2b_set_lastnode :: "blake2b_state \<Rightarrow> blake2b_state" where
  "blake2b_set_lastnode S = S\<lparr>b2_f := (b2_f S)[1 := -1]\<rparr>"

definition blake2b_is_lastblock :: "blake2b_state \<Rightarrow> bool" where
  "blake2b_is_lastblock S \<longleftrightarrow> b2_f S ! 0 \<noteq> 0"

definition blake2b_set_lastblock :: "blake2b_state \<Rightarrow> blake2b_state" where
  "blake2b_set_lastblock S =
    (let S = (if b2_last_node S \<noteq> 0 then blake2b_set_lastnode S else S)
     in S\<lparr>b2_f := (b2_f S)[0 := -1]\<rparr>)"

definition blake2b_increment_counter :: "blake2b_state \<Rightarrow> u64 \<Rightarrow> blake2b_state" where
  "blake2b_increment_counter S inc =
    (let t0 = b2_t S ! 0 + inc
     in S\<lparr>b2_t := [t0, b2_t S ! 1 + (if t0 < inc then 1 else 0)]\<rparr>)"

text \<open>The build with a 128-bit integer type.\<close>

definition blake2b_increment_counter_ti :: "blake2b_state \<Rightarrow> u64 \<Rightarrow> blake2b_state" where
  "blake2b_increment_counter_ti S inc =
    (let t = (push_bit 64 (ucast (b2_t S ! 1)) OR ucast (b2_t S ! 0) :: 128 word) + ucast inc
     in S\<lparr>b2_t := [ucast t, ucast (drop_bit 64 t)]\<rparr>)"

definition blake2b_param_set_salt :: "blake2b_param \<Rightarrow> byte list \<Rightarrow> blake2b_param" where
  "blake2b_param_set_salt P s = P\<lparr>salt := take 16 s\<rparr>"

definition blake2b_param_set_personal :: "blake2b_param \<Rightarrow> byte list \<Rightarrow> blake2b_param" where
  "blake2b_param_set_personal P s = P\<lparr>personal := take 16 s\<rparr>"

definition blake2b_init0 :: "blake2b_state \<Rightarrow> blake2b_state" where
  "blake2b_init0 S = S\<lparr>b2_h := map (\<lambda>i. blake2b_IV ! i) [0..<8], b2_t := [0, 0], b2_f := [0, 0],
     b2_buf := replicate 256 0, b2_buflen := 0, b2_last_node := 0\<rparr>"

text \<open>The packed structure as bytes.\<close>

definition param_bytes :: "blake2b_param \<Rightarrow> byte list" where
  "param_bytes P = [digest_length P, key_length P, fanout P, depth P] @ leaf_length P @ node_offset P
     @ [node_depth P, inner_length P] @ reserved P @ salt P @ personal P"

definition blake2b_init_param :: "blake2b_state \<Rightarrow> blake2b_param \<Rightarrow> int \<times> blake2b_state" where
  "blake2b_init_param S P =
    (let S = blake2b_init0 S; p = param_bytes P
     in (0, S\<lparr>b2_h := map (\<lambda>i. b2_h S ! i XOR load64_le (drop (8 * i) p)) [0..<8]\<rparr>))"

definition plain_param :: "byte \<Rightarrow> byte \<Rightarrow> blake2b_param" where
  "plain_param outlen keylen = \<lparr>digest_length = outlen, key_length = keylen, fanout = 1, depth = 1,
     leaf_length = store32_le 0, node_offset = store64_le 0, node_depth = 0, inner_length = 0,
     reserved = replicate 14 0, salt = replicate 16 0, personal = replicate 16 0\<rparr>"

definition salt_personal_param ::
  "byte \<Rightarrow> byte \<Rightarrow> byte list option \<Rightarrow> byte list option \<Rightarrow> blake2b_param" where
  "salt_personal_param outlen keylen slt pers =
    (let P = plain_param outlen keylen;
         P = (case slt of Some s \<Rightarrow> blake2b_param_set_salt P s | None \<Rightarrow> P\<lparr>salt := replicate 16 0\<rparr>)
     in case pers of Some s \<Rightarrow> blake2b_param_set_personal P s | None \<Rightarrow> P\<lparr>personal := replicate 16 0\<rparr>)"

definition blake2b_init :: "blake2b_state \<Rightarrow> byte \<Rightarrow> (int \<times> blake2b_state) option" where
  "blake2b_init S outlen =
    (if outlen = 0 \<or> outlen > 64 then None
     else Some (blake2b_init_param S (plain_param outlen 0)))"

definition blake2b_init_salt_personal ::
  "blake2b_state \<Rightarrow> byte \<Rightarrow> byte list option \<Rightarrow> byte list option \<Rightarrow> (int \<times> blake2b_state) option" where
  "blake2b_init_salt_personal S outlen slt pers =
    (if outlen = 0 \<or> outlen > 64 then None
     else Some (blake2b_init_param S (salt_personal_param outlen 0 slt pers)))"

function blake2b_update :: "blake2b_state \<Rightarrow> byte list \<Rightarrow> blake2b_state" where
  "blake2b_update S inp =
    (if length inp > 0
     then let left = b2_buflen S; fill = 2 * 128 - left
          in if length inp > fill
             then let S = S\<lparr>b2_buf := write_at (b2_buf S) left (take fill inp), b2_buflen := b2_buflen S + fill\<rparr>;
                      S = blake2b_increment_counter S 128;
                      S = blake2b_compress_ref S (b2_buf S);
                      S = S\<lparr>b2_buf := write_at (b2_buf S) 0 (take 128 (drop 128 (b2_buf S))),
                            b2_buflen := b2_buflen S - 128\<rparr>
                  in blake2b_update S (drop fill inp)
             else S\<lparr>b2_buf := write_at (b2_buf S) left inp, b2_buflen := b2_buflen S + length inp\<rparr>
     else S)"
  by pat_completeness auto
termination
  by (relation "measures [\<lambda>(S, inp). length inp, \<lambda>(S, inp). b2_buflen S]")
    (auto simp: blake2b_increment_counter_def blake2b_compress_ref_def Let_def)

declare blake2b_update.simps [simp del]

definition key_block :: "byte list \<Rightarrow> nat \<Rightarrow> byte list" where
  "key_block key keylen = write_at (replicate 128 0) 0 (take keylen key)"

definition blake2b_init_key ::
  "blake2b_state \<Rightarrow> byte \<Rightarrow> byte list option \<Rightarrow> byte \<Rightarrow> (int \<times> blake2b_state) option" where
  "blake2b_init_key S outlen key keylen =
    (if outlen = 0 \<or> outlen > 64 then None
     else if key = None \<or> keylen = 0 \<or> keylen > 64 then None
     else let (r, S) = blake2b_init_param S (plain_param outlen keylen)
          in if r < 0 then None else Some (0, blake2b_update S (key_block (the key) (unat keylen))))"

definition blake2b_init_key_salt_personal ::
  "blake2b_state \<Rightarrow> byte \<Rightarrow> byte list option \<Rightarrow> byte \<Rightarrow> byte list option \<Rightarrow> byte list option
     \<Rightarrow> (int \<times> blake2b_state) option" where
  "blake2b_init_key_salt_personal S outlen key keylen slt pers =
    (if outlen = 0 \<or> outlen > 64 then None
     else if key = None \<or> keylen = 0 \<or> keylen > 64 then None
     else let (r, S) = blake2b_init_param S (salt_personal_param outlen keylen slt pers)
          in if r < 0 then None else Some (0, blake2b_update S (key_block (the key) (unat keylen))))"

text \<open>Result: return code, context, bytes written to \<^verbatim>\<open>out\<close> (none when the code is -1).\<close>

definition blake2b_final :: "blake2b_state \<Rightarrow> byte \<Rightarrow> (int \<times> blake2b_state \<times> byte list) option" where
  "blake2b_final S outlen =
    (if outlen = 0 \<or> outlen > 64 then None
     else if blake2b_is_lastblock S then Some (-1, S, [])
     else do {
       S \<leftarrow> (if b2_buflen S > 128
             then let S = blake2b_increment_counter S 128;
                      S = blake2b_compress_ref S (b2_buf S);
                      S = S\<lparr>b2_buflen := b2_buflen S - 128\<rparr>
                  in if b2_buflen S \<le> 128
                     then Some (S\<lparr>b2_buf := write_at (b2_buf S) 0 (take (b2_buflen S) (drop 128 (b2_buf S)))\<rparr>)
                     else None
             else Some S);
       let S = blake2b_increment_counter S (of_nat (b2_buflen S));
       let S = blake2b_set_lastblock S;
       let S = S\<lparr>b2_buf := write_at (b2_buf S) (b2_buflen S) (replicate (2 * 128 - b2_buflen S) 0)\<rparr>;
       let S = blake2b_compress_ref S (b2_buf S);
       let buffer = concat (map (\<lambda>i. store64_le (b2_h S ! i)) [0..<8]);
       Some (0, S\<lparr>b2_h := replicate 8 0, b2_buf := replicate 256 0\<rparr>, take (unat outlen) buffer)
     })"

text \<open>The input of a one-shot call: \<^verbatim>\<open>inlen\<close> bytes from a pointer that may be null.\<close>

definition input_bytes :: "byte list option \<Rightarrow> nat \<Rightarrow> byte list" where
  "input_bytes inp inlen = (case inp of None \<Rightarrow> [] | Some m \<Rightarrow> take inlen m)"

definition blake2b :: "blake2b_state \<Rightarrow> bool \<Rightarrow> byte list option \<Rightarrow> byte list option \<Rightarrow> byte \<Rightarrow> nat \<Rightarrow> byte
    \<Rightarrow> (int \<times> byte list) option" where
  "blake2b S out_null inp key outlen inlen keylen =
    (if inp = None \<and> inlen > 0 then None
     else if out_null then None
     else if outlen = 0 \<or> outlen > 64 then None
     else if key = None \<and> keylen > 0 then None
     else if keylen > 64 then None
     else do {
       (r, S) \<leftarrow> (if keylen > 0 then blake2b_init_key S outlen key keylen else blake2b_init S outlen);
       if r < 0 then None
       else do {
         (r, S, out) \<leftarrow> blake2b_final (blake2b_update S (input_bytes inp inlen)) outlen;
         Some (0, out)
       }
     })"

definition blake2b_salt_personal :: "blake2b_state \<Rightarrow> bool \<Rightarrow> byte list option \<Rightarrow> byte list option \<Rightarrow> byte \<Rightarrow> nat
    \<Rightarrow> byte \<Rightarrow> byte list option \<Rightarrow> byte list option \<Rightarrow> (int \<times> byte list) option" where
  "blake2b_salt_personal S out_null inp key outlen inlen keylen slt pers =
    (if inp = None \<and> inlen > 0 then None
     else if out_null then None
     else if outlen = 0 \<or> outlen > 64 then None
     else if key = None \<and> keylen > 0 then None
     else if keylen > 64 then None
     else do {
       (r, S) \<leftarrow> (if keylen > 0 then blake2b_init_key_salt_personal S outlen key keylen slt pers
                   else blake2b_init_salt_personal S outlen slt pers);
       if r < 0 then None
       else do {
         (r, S, out) \<leftarrow> blake2b_final (blake2b_update S (input_bytes inp inlen)) outlen;
         Some (0, out)
       }
     })"

section \<open>RFC 7693\<close>

definition rfc_G :: "u64 \<times> u64 \<times> u64 \<times> u64 \<Rightarrow> u64 \<Rightarrow> u64 \<Rightarrow> u64 \<times> u64 \<times> u64 \<times> u64" where
  "rfc_G = (\<lambda>(a, b, c, d) x y.
     let a1 = a + b + x; d1 = rotr64 (d XOR a1) 32; c1 = c + d1; b1 = rotr64 (b XOR c1) 24;
         a2 = a1 + b1 + y; d2 = rotr64 (d1 XOR a2) 16; c2 = c1 + d2; b2 = rotr64 (b1 XOR c2) 63
     in (a2, b2, c2, d2))"

definition rfc_mix :: "u64 list \<Rightarrow> nat \<times> nat \<times> nat \<times> nat \<Rightarrow> u64 \<Rightarrow> u64 \<Rightarrow> u64 list" where
  "rfc_mix v = (\<lambda>(a, b, c, d) x y.
     let (p, q, r, s) = rfc_G (v ! a, v ! b, v ! c, v ! d) x y in v[a := p, b := q, c := r, d := s])"

text \<open>Columns and then diagonals of the 4 by 4 matrix.\<close>

definition rfc_lane :: "nat \<Rightarrow> nat \<times> nat \<times> nat \<times> nat" where
  "rfc_lane i = (if i < 4 then (i, 4 + i, 8 + i, 12 + i)
     else let j = i - 4 in (j, 4 + (j + 1) mod 4, 8 + (j + 2) mod 4, 12 + (j + 3) mod 4))"

definition rfc_round :: "u64 list \<Rightarrow> u64 list \<Rightarrow> nat \<Rightarrow> u64 list" where
  "rfc_round m v r = foldl (\<lambda>v i. rfc_mix v (rfc_lane i) (m ! (blake2b_sigma ! (r mod 10) ! (2 * i)))
     (m ! (blake2b_sigma ! (r mod 10) ! (2 * i + 1)))) v [0..<8]"

definition blake2b_F :: "u64 list \<Rightarrow> byte list \<Rightarrow> nat \<Rightarrow> bool \<Rightarrow> u64 list" where
  "blake2b_F h blk t lst =
    (let m = map (\<lambda>i. load64_le (drop (8 * i) blk)) [0..<16];
         v = h @ blake2b_IV;
         v = v[12 := v ! 12 XOR of_nat t, 13 := v ! 13 XOR of_nat (t div 2 ^ 64)];
         v = (if lst then v[14 := NOT (v ! 14)] else v);
         v = foldl (rfc_round m) v [0..<12]
     in map (\<lambda>i. h ! i XOR v ! i XOR v ! (i + 8)) [0..<8])"

text \<open>The chaining value after the whole message, of which \<open>n\<close> bytes came before \<open>m\<close>: every
  block but the last is full, the last one is padded with zeros and flagged.\<close>

function blake2b_chain :: "u64 list \<Rightarrow> nat \<Rightarrow> byte list \<Rightarrow> u64 list" where
  "blake2b_chain h n m =
    (if length m > 128 then blake2b_chain (blake2b_F h (take 128 m) (n + 128) False) (n + 128) (drop 128 m)
     else blake2b_F h (m @ replicate (128 - length m) 0) (n + length m) True)"
  by pat_completeness auto
termination by (relation "measure (\<lambda>(h, n, m). length m)") auto

declare blake2b_chain.simps [simp del]

definition blake2b_h0 :: "blake2b_param \<Rightarrow> u64 list" where
  "blake2b_h0 P = map (\<lambda>i. blake2b_IV ! i XOR load64_le (drop (8 * i) (param_bytes P))) [0..<8]"

definition blake2b_spec :: "blake2b_param \<Rightarrow> nat \<Rightarrow> byte list \<Rightarrow> byte list" where
  "blake2b_spec P outlen m = take outlen (concat (map store64_le (blake2b_chain (blake2b_h0 P) 0 m)))"

subsection \<open>The compression function\<close>

lemma blake2b_G_mix:
  assumes "distinct [a, b, c, d]" "a < length v" "b < length v" "c < length v" "d < length v"
  shows "blake2b_G m r i a b c d v =
    rfc_mix v (a, b, c, d) (m ! (blake2b_sigma ! r ! (2 * i))) (m ! (blake2b_sigma ! r ! (2 * i + 1)))"
  using assms
  by (intro nth_equalityI) (auto simp: blake2b_G_def rfc_mix_def rfc_G_def Let_def nth_list_update add.assoc)

lemma length_blake2b_G [simp]: "length (blake2b_G m r i a b c d v) = length v"
  by (simp add: blake2b_G_def Let_def)

lemma sigma_mod:
  assumes "r < 12"
  shows "blake2b_sigma ! (r mod 10) = blake2b_sigma ! r"
proof -
  consider "r < 10" | "r = 10" | "r = 11" using assms by linarith
  then show ?thesis by cases (simp_all add: blake2b_sigma_def)
qed

lemma length_rfc_mix [simp]: "length (rfc_mix v q x y) = length v"
  by (simp add: rfc_mix_def case_prod_unfold Let_def)

lemma upt_8: "[0..<8] = [0, 1, 2, 3, 4, 5, 6, 7 :: nat]"
  by (simp add: upt_rec)

lemma upt_12: "[0..<12] = [0, 1, 2, 3, 4, 5, 6, 7, 8, 9, 10, 11 :: nat]"
  by (simp add: upt_rec)

lemma blake2b_ROUND_rfc:
  assumes "length v = 16" "r < 12"
  shows "blake2b_ROUND m v r = rfc_round m v r"
  unfolding rfc_round_def blake2b_ROUND_def Let_def sigma_mod [OF assms(2)] upt_8
  by (simp add: blake2b_G_mix assms(1) rfc_lane_def Let_def)

lemma length_rfc_round [simp]: "length (rfc_round m v r) = length v"
proof -
  have "length (foldl (\<lambda>v i. rfc_mix v (f i) (g i) (k i)) v is) = length v" for f g k "is"
    by (induction "is" arbitrary: v) simp_all
  then show ?thesis unfolding rfc_round_def .
qed

lemma foldl_ROUND_rfc:
  "length v = 16 \<Longrightarrow> (\<And>r. r \<in> set rs \<Longrightarrow> r < 12) \<Longrightarrow> foldl (blake2b_ROUND m) v rs = foldl (rfc_round m) v rs"
  by (induction rs arbitrary: v) (simp_all add: blake2b_ROUND_rfc)

text \<open>The counter words and the flag words of a context.\<close>

abbreviation counter_words :: "nat \<Rightarrow> u64 list" where
  "counter_words t \<equiv> [of_nat t, of_nat (t div 2 ^ 64)]"

abbreviation flag_words :: "bool \<Rightarrow> u64 list" where
  "flag_words lst \<equiv> [if lst then -1 else 0, 0]"

lemma length_IV [simp]: "length blake2b_IV = 8"
  by (simp add: blake2b_IV_def)

lemma IV_split: "blake2b_IV = map (\<lambda>i. blake2b_IV ! i) [0, 1, 2, 3, 4, 5, 6, 7]"
  by (simp add: blake2b_IV_def)

lemma blake2b_compress_F:
  assumes "length (b2_h S) = 8" "b2_t S = counter_words t" "b2_f S = flag_words lst"
  shows "blake2b_compress_ref S blk = S\<lparr>b2_h := blake2b_F (b2_h S) blk t lst\<rparr>"
proof -
  let ?v = "(b2_h S @ blake2b_IV)[12 := (b2_h S @ blake2b_IV) ! 12 XOR of_nat t,
      13 := (b2_h S @ blake2b_IV) ! 13 XOR of_nat (t div 2 ^ 64)]"
  let ?w = "if lst then ?v[14 := NOT (?v ! 14)] else ?v"
  have "?w = b2_h S @ [blake2b_IV ! 0, blake2b_IV ! 1, blake2b_IV ! 2, blake2b_IV ! 3,
      b2_t S ! 0 XOR blake2b_IV ! 4, b2_t S ! 1 XOR blake2b_IV ! 5,
      b2_f S ! 0 XOR blake2b_IV ! 6, b2_f S ! 1 XOR blake2b_IV ! 7]"
    using assms by (subst (1 2 3 4) IV_split) (simp add: nth_append list_update_append xor.commute)
  note w = this [symmetric]
  have l: "length ?w = 16" using assms(1) by simp
  have r: "foldl (blake2b_ROUND m) ?w [0, 1, 2, 3, 4, 5, 6, 7, 8, 9, 10, 11]
      = foldl (rfc_round m) ?w [0, 1, 2, 3, 4, 5, 6, 7, 8, 9, 10, 11]" for m
    by (rule foldl_ROUND_rfc [OF l]) auto
  show ?thesis
    unfolding blake2b_compress_ref_def blake2b_F_def Let_def map_nth [of "b2_h S", unfolded assms(1)] w upt_12
      mult.commute [of 8] r ..
qed


subsection \<open>Counters\<close>

lemma counter_carry:
  assumes "k < 2 ^ 64"
  shows "of_nat (n div 2 ^ 64) + (if (of_nat (n + k) :: u64) < of_nat k then 1 else 0 :: u64) = of_nat ((n + k) div 2 ^ 64)"
proof -
  let ?a = "n mod 2 ^ 64"
  have "(n + k) mod 2 ^ 64 = (?a + k) mod 2 ^ 64" by (simp add: mod_add_left_eq)
  then have "((of_nat (n + k) :: u64) < of_nat k) \<longleftrightarrow> (?a + k) mod 2 ^ 64 < k"
    using assms by (simp add: word_less_nat_alt unsigned_of_nat take_bit_eq_mod del: of_nat_add)
  also have "\<dots> \<longleftrightarrow> 2 ^ 64 \<le> ?a + k"
  proof (cases "2 ^ 64 \<le> ?a + k")
    case True
    have "?a < 2 ^ 64" by simp
    with True assms have "?a + k - 2 ^ 64 < 2 ^ 64" "?a + k - 2 ^ 64 < k" by linarith+
    with True show ?thesis by (simp add: le_mod_geq)
  qed simp
  finally have lt: "((of_nat (n + k) :: u64) < of_nat k) \<longleftrightarrow> 2 ^ 64 \<le> ?a + k" .
  have "?a < 2 ^ 64" by simp
  then have "(?a + k) div 2 ^ 64 = (if 2 ^ 64 \<le> ?a + k then 1 else 0)"
    using assms by (auto intro!: div_nat_eqI)
  then have "(n + k) div 2 ^ 64 = n div 2 ^ 64 + (if 2 ^ 64 \<le> ?a + k then 1 else 0)"
    using div_add1_eq [of n k "2 ^ 64"] assms by simp
  then show ?thesis by (simp only: lt) simp
qed

lemma blake2b_increment_counter_words:
  assumes "b2_t S = counter_words n" "k < 2 ^ 64"
  shows "blake2b_increment_counter S (of_nat k) = S\<lparr>b2_t := counter_words (n + k)\<rparr>"
  using counter_carry [OF assms(2), of n] assms(1)
  by (simp add: blake2b_increment_counter_def Let_def)


text \<open>Both builds of the counter agree.\<close>

lemma unat_words_128: "unat (push_bit 64 (ucast (b :: u64)) OR ucast (a :: u64) :: 128 word) = unat b * 2 ^ 64 + unat a"
proof -
  have "push_bit 64 (ucast b) AND (ucast a :: 128 word) = 0"
    by (rule bit_word_eqI) (auto simp: bit_simps dest: bit_imp_le_length)
  then have "push_bit 64 (ucast b) OR (ucast a :: 128 word) = of_nat (unat b * 2 ^ 64 + unat a)"
    by (simp add: disjunctive_add_eq_or [symmetric] push_bit_eq_mult)
  moreover have "unat b * 2 ^ 64 + unat a < 2 ^ 128"
    using unsigned_less [of a, where 'a = nat] unsigned_less [of b, where 'a = nat] by simp
  ultimately show ?thesis by (simp only: unsigned_of_nat) (simp add: take_bit_nat_eq_self)
qed

subsection \<open>What a context represents\<close>

definition blake2b_rep :: "blake2b_param \<Rightarrow> blake2b_state \<Rightarrow> byte list \<Rightarrow> bool" where
  "blake2b_rep P S m \<longleftrightarrow> length (b2_h S) = 8 \<and> length (b2_buf S) = 256 \<and> b2_buflen S \<le> 256
     \<and> b2_f S = flag_words False \<and> b2_last_node S = 0
     \<and> (\<exists>p. m = p @ take (b2_buflen S) (b2_buf S) \<and> (p \<noteq> [] \<longrightarrow> 0 < b2_buflen S)
          \<and> b2_t S = counter_words (length p)
          \<and> (\<forall>r. (p \<noteq> [] \<longrightarrow> r \<noteq> []) \<longrightarrow>
               blake2b_chain (blake2b_h0 P) 0 (p @ r) = blake2b_chain (b2_h S) (length p) r))"

lemma length_blake2b_F [simp]: "length (blake2b_F h b t l) = 8"
  by (simp add: blake2b_F_def Let_def)

lemma blake2b_chain_block:
  "length b = 128 \<Longrightarrow> r \<noteq> [] \<Longrightarrow>
   blake2b_chain h n (b @ r) = blake2b_chain (blake2b_F h b (n + 128) False) (n + 128) r"
  by (simp add: blake2b_chain.simps [of h n "b @ r"])

lemma blake2b_init_param_eq:
  "blake2b_init_param S P = (0, S\<lparr>b2_h := blake2b_h0 P, b2_t := [0, 0], b2_f := [0, 0],
     b2_buf := replicate 256 0, b2_buflen := 0, b2_last_node := 0\<rparr>)"
  by (simp add: blake2b_init_param_def blake2b_init0_def blake2b_h0_def Let_def cong: map_cong)

lemma blake2b_rep_init: "blake2b_rep P (snd (blake2b_init_param S P)) []"
  by (simp add: blake2b_rep_def blake2b_init_param_eq) (simp add: blake2b_h0_def)

lemma blake2b_F_take: "blake2b_F h (take 128 b) t l = blake2b_F h b t l"
proof -
  have "load64_le (drop (8 * i) (take 128 b)) = load64_le (drop (8 * i) b)" if "i < 16" for i
  proof -
    have "take 8 (drop (8 * i) (take 128 b)) = take 8 (drop (8 * i) b)"
      using that by (simp add: drop_take min_def)
    then show ?thesis by (metis load64_le_take)
  qed
  then have "map (\<lambda>i. load64_le (drop (8 * i) (take 128 b))) [0..<16] = map (\<lambda>i. load64_le (drop (8 * i) b)) [0..<16]"
    by simp
  then show ?thesis unfolding blake2b_F_def by (simp only:)
qed

text \<open>Compressing the first block of the buffer when more bytes follow it.\<close>

lemma blake2b_compress_next:
  assumes "length (b2_h S) = 8" "b2_t S = counter_words n" "b2_f S = flag_words False"
  shows "blake2b_compress_ref (blake2b_increment_counter S 128) blk
    = S\<lparr>b2_t := counter_words (n + 128), b2_h := blake2b_F (b2_h S) blk (n + 128) False\<rparr>"
  using blake2b_increment_counter_words [OF assms(2), of 128] assms
  by (simp add: blake2b_compress_F [where t = "n + 128" and lst = False])

lemma blake2b_rep_shift:
  assumes rep: "blake2b_rep P S m" and full: "128 < b2_buflen S"
    and S': "S' = (blake2b_compress_ref (blake2b_increment_counter S 128) (b2_buf S))
        \<lparr>b2_buflen := b2_buflen S - 128, b2_buf := buf\<rparr>"
    and buf: "length buf = 256" "take (b2_buflen S - 128) buf = drop 128 (take (b2_buflen S) (b2_buf S))"
  shows "blake2b_rep P S' m"
proof -
  let ?q = "take (b2_buflen S) (b2_buf S)"
  obtain p where p: "m = p @ ?q" "b2_t S = counter_words (length p)"
    and c: "\<And>r. r \<noteq> [] \<Longrightarrow> blake2b_chain (blake2b_h0 P) 0 (p @ r) = blake2b_chain (b2_h S) (length p) r"
    using rep unfolding blake2b_rep_def by blast
  have "take 128 (b2_buf S) = take 128 ?q" using full by (simp add: min_def)
  then have F: "blake2b_F (b2_h S) (b2_buf S) = blake2b_F (b2_h S) (take 128 ?q)"
    using blake2b_F_take [of "b2_h S" "b2_buf S"] by (intro ext) simp
  have S': "S' = S\<lparr>b2_t := counter_words (length p + 128), b2_h := blake2b_F (b2_h S) (take 128 ?q) (length p + 128) False,
      b2_buflen := b2_buflen S - 128, b2_buf := buf\<rparr>"
    using rep p(2) unfolding S' blake2b_rep_def F [symmetric] by (simp add: blake2b_compress_next)
  have l: "length (take 128 ?q) = 128" using rep full by (simp add: blake2b_rep_def)
  have "blake2b_chain (blake2b_h0 P) 0 ((p @ take 128 ?q) @ r) =
      blake2b_chain (blake2b_F (b2_h S) (take 128 ?q) (length p + 128) False) (length p + 128) r" if "r \<noteq> []" for r
    using c [of "take 128 ?q @ r"] l that by (simp add: blake2b_chain_block)
  moreover have "m = (p @ take 128 ?q) @ take (b2_buflen S - 128) buf"
    unfolding buf(2) p(1) append_assoc append_take_drop_id ..
  ultimately show ?thesis
    using rep full buf(1) l unfolding blake2b_rep_def S'
    by (intro conjI exI [of _ "p @ take 128 ?q"]) auto
qed

lemma blake2b_rep_append:
  assumes "blake2b_rep P S m" "b2_buflen S + length c \<le> 256"
  shows "blake2b_rep P (S\<lparr>b2_buf := write_at (b2_buf S) (b2_buflen S) c, b2_buflen := b2_buflen S + length c\<rparr>) (m @ c)"
proof -
  have "take (b2_buflen S + length c) (write_at (b2_buf S) (b2_buflen S) c) = take (b2_buflen S) (b2_buf S) @ c"
    using assms by (intro take_write_at) (simp add: blake2b_rep_def)
  then show ?thesis
    using assms unfolding blake2b_rep_def by auto
qed


lemma compress_fields [simp]:
  "b2_t (blake2b_compress_ref S b) = b2_t S" "b2_f (blake2b_compress_ref S b) = b2_f S"
  "b2_buf (blake2b_compress_ref S b) = b2_buf S" "b2_buflen (blake2b_compress_ref S b) = b2_buflen S"
  "b2_last_node (blake2b_compress_ref S b) = b2_last_node S"
  unfolding blake2b_compress_ref_def Let_def by simp_all

lemma increment_fields [simp]:
  "b2_h (blake2b_increment_counter S i) = b2_h S" "b2_f (blake2b_increment_counter S i) = b2_f S"
  "b2_buf (blake2b_increment_counter S i) = b2_buf S" "b2_buflen (blake2b_increment_counter S i) = b2_buflen S"
  "b2_last_node (blake2b_increment_counter S i) = b2_last_node S"
  unfolding blake2b_increment_counter_def Let_def by simp_all

lemma blake2b_update_Nil [simp]: "blake2b_update S [] = S"
  by (simp add: blake2b_update.simps)

text \<open>One iteration of the loop on more input than fits.\<close>

definition blake2b_fill :: "blake2b_state \<Rightarrow> byte list \<Rightarrow> blake2b_state" where
  "blake2b_fill S c = (let buf = write_at (b2_buf S) (b2_buflen S) c
     in (blake2b_compress_ref (blake2b_increment_counter (S\<lparr>b2_buf := buf, b2_buflen := 256\<rparr>) 128) buf)
          \<lparr>b2_buf := write_at buf 0 (take 128 (drop 128 buf)), b2_buflen := 128\<rparr>)"

lemma blake2b_update_step:
  assumes "256 - b2_buflen S < length inp" "b2_buflen S \<le> 256"
  shows "blake2b_update S inp =
    blake2b_update (blake2b_fill S (take (256 - b2_buflen S) inp)) (drop (256 - b2_buflen S) inp)"
proof -
  have "2 * 128 - b2_buflen S = 256 - b2_buflen S" "b2_buflen S + (256 - b2_buflen S) = 256" "0 < length inp"
    using assms by auto
  then show ?thesis
    using assms by (subst blake2b_update.simps) (simp only: Let_def blake2b_fill_def if_True, simp)
qed

lemma blake2b_rep_fill:
  assumes "blake2b_rep P S m" "b2_buflen S + length c = 256"
  shows "blake2b_rep P (blake2b_fill S c) (m @ c)"
proof -
  define S1 where "S1 = S\<lparr>b2_buf := write_at (b2_buf S) (b2_buflen S) c, b2_buflen := 256\<rparr>"
  have r1: "blake2b_rep P S1 (m @ c)"
    using blake2b_rep_append [OF assms(1), of c] assms(2) by (simp add: S1_def)
  then have l1: "length (b2_buf S1) = 256" "b2_buflen S1 = 256" by (simp_all add: blake2b_rep_def S1_def)
  show ?thesis
  proof (rule blake2b_rep_shift [OF r1])
    show "blake2b_fill S c = (blake2b_compress_ref (blake2b_increment_counter S1 128) (b2_buf S1))
        \<lparr>b2_buflen := b2_buflen S1 - 128, b2_buf := write_at (b2_buf S1) 0 (take 128 (drop 128 (b2_buf S1)))\<rparr>"
      unfolding blake2b_fill_def Let_def S1_def by simp
    show "length (write_at (b2_buf S1) 0 (take 128 (drop 128 (b2_buf S1)))) = 256"
      using l1(1) by simp
    show "take (b2_buflen S1 - 128) (write_at (b2_buf S1) 0 (take 128 (drop 128 (b2_buf S1))))
        = drop 128 (take (b2_buflen S1) (b2_buf S1))"
      using l1 by (simp add: take_write_at_0 drop_take)
  qed (simp add: l1)
qed

lemma blake2b_rep_update: "blake2b_rep P S m \<Longrightarrow> blake2b_rep P (blake2b_update S c) (m @ c)"
proof (induction "length c + (if 128 < b2_buflen S then 1 else 0)" arbitrary: S m c rule: less_induct)
  case less
  let ?fill = "256 - b2_buflen S"
  have le: "b2_buflen S \<le> 256" using less.prems by (simp add: blake2b_rep_def)
  consider "c = []" | "c \<noteq> []" "length c \<le> ?fill" | "length c > ?fill" by linarith
  then show ?case
  proof cases
    case 1
    then show ?thesis using less.prems by simp
  next
    case 2
    then show ?thesis
      using blake2b_rep_append [OF less.prems, of c] le by (simp add: blake2b_update.simps [of S c] Let_def)
  next
    case 3
    let ?S = "blake2b_fill S (take ?fill c)"
    have "blake2b_rep P ?S (m @ take ?fill c)"
      using 3 le by (intro blake2b_rep_fill [OF less.prems]) simp
    moreover have "b2_buflen ?S = 128" by (simp add: blake2b_fill_def Let_def)
    moreover have "length c + b2_buflen S - 256 < length c + (if 128 < b2_buflen S then 1 else 0)"
      using 3 le by auto
    ultimately show ?thesis
      using less.hyps [of "drop ?fill c" ?S "m @ take ?fill c"] 3 le
      by (simp add: blake2b_update_step)
  qed
qed

text \<open>The end of \<^verbatim>\<open>blake2b_final\<close>, once at most one block is left.\<close>

lemma blake2b_chain_last:
  "length r \<le> 128 \<Longrightarrow> blake2b_chain h n r = blake2b_F h (r @ replicate (128 - length r) 0) (n + length r) True"
  by (simp add: blake2b_chain.simps [of h n r])

lemma blake2b_last_block:
  assumes rep: "blake2b_rep P S m" and short: "b2_buflen S \<le> 128"
    and S': "S' = blake2b_set_lastblock (blake2b_increment_counter S (of_nat (b2_buflen S)))"
    and buf: "buf = write_at (b2_buf S) (b2_buflen S) (replicate (256 - b2_buflen S) 0)"
  shows "b2_h (blake2b_compress_ref (S'\<lparr>b2_buf := buf\<rparr>) buf) = blake2b_chain (blake2b_h0 P) 0 m"
    and "b2_f S' = flag_words True"
proof -
  let ?r = "take (b2_buflen S) (b2_buf S)"
  obtain p where p: "m = p @ ?r" "b2_t S = counter_words (length p)" "p \<noteq> [] \<Longrightarrow> 0 < b2_buflen S"
    and c: "\<And>r. (p \<noteq> [] \<longrightarrow> r \<noteq> []) \<Longrightarrow> blake2b_chain (blake2b_h0 P) 0 (p @ r) = blake2b_chain (b2_h S) (length p) r"
    using rep unfolding blake2b_rep_def by blast
  have len: "length (b2_h S) = 8" "length (b2_buf S) = 256" "length ?r = b2_buflen S" "b2_f S = [0, 0]" "b2_last_node S = 0"
    using rep by (simp_all add: blake2b_rep_def)
  have S'': "S' = S\<lparr>b2_t := counter_words (length p + b2_buflen S), b2_f := flag_words True\<rparr>"
    using short len unfolding S' by (subst blake2b_increment_counter_words [OF p(2)]) (simp_all add: blake2b_set_lastblock_def)
  then show "b2_f S' = flag_words True" by simp
  have "take 128 buf = ?r @ replicate (128 - b2_buflen S) 0"
    using short len unfolding buf write_at_def by (simp add: min_def)
  then have "blake2b_F h buf = blake2b_F h (?r @ replicate (128 - b2_buflen S) 0)" for h
    by (intro ext) (metis blake2b_F_take)
  then have "b2_h (blake2b_compress_ref (S'\<lparr>b2_buf := buf\<rparr>) buf) =
      blake2b_F (b2_h S) (?r @ replicate (128 - length ?r) 0) (length p + length ?r) True"
    using len by (subst blake2b_compress_F [where t = "length p + b2_buflen S" and lst = True]) (simp_all add: S'')
  also have "\<dots> = blake2b_chain (b2_h S) (length p) ?r"
    using len short by (subst blake2b_chain_last) simp_all
  also have "\<dots> = blake2b_chain (blake2b_h0 P) 0 m"
    using p(1,3) len by (subst c [symmetric]) auto
  finally show "b2_h (blake2b_compress_ref (S'\<lparr>b2_buf := buf\<rparr>) buf) = blake2b_chain (blake2b_h0 P) 0 m" .
qed

definition blake2b_drop_block :: "blake2b_state \<Rightarrow> blake2b_state" where
  "blake2b_drop_block S = (if b2_buflen S > 128
     then let S1 = blake2b_compress_ref (blake2b_increment_counter S 128) (b2_buf S)
          in S1\<lparr>b2_buflen := b2_buflen S - 128, b2_buf := write_at (b2_buf S) 0 (take (b2_buflen S - 128) (drop 128 (b2_buf S)))\<rparr>
     else S)"

lemma blake2b_rep_drop_block:
  assumes "blake2b_rep P S m"
  shows "blake2b_rep P (blake2b_drop_block S) m" "b2_buflen (blake2b_drop_block S) \<le> 128"
proof -
  have l: "length (b2_buf S) = 256" "b2_buflen S \<le> 256" using assms by (simp_all add: blake2b_rep_def)
  then show "b2_buflen (blake2b_drop_block S) \<le> 128" by (auto simp: blake2b_drop_block_def Let_def)
  show "blake2b_rep P (blake2b_drop_block S) m"
  proof (cases "128 < b2_buflen S")
    case True
    show ?thesis
    proof (rule blake2b_rep_shift [OF assms True])
      show "blake2b_drop_block S = (blake2b_compress_ref (blake2b_increment_counter S 128) (b2_buf S))
        \<lparr>b2_buflen := b2_buflen S - 128, b2_buf := write_at (b2_buf S) 0 (take (b2_buflen S - 128) (drop 128 (b2_buf S)))\<rparr>"
        using True by (simp add: blake2b_drop_block_def Let_def)
    qed (use l True in \<open>simp_all add: take_write_at_0 drop_take\<close>)
  qed (use assms in \<open>simp add: blake2b_drop_block_def\<close>)
qed

lemma length_blake2b_chain [simp]: "length (blake2b_chain h n m) = 8"
  by (induction h n m rule: blake2b_chain.induct) (simp add: blake2b_chain.simps)

lemma lastblock_fields [simp]:
  "b2_buf (blake2b_set_lastblock S) = b2_buf S" "b2_buflen (blake2b_set_lastblock S) = b2_buflen S"
  by (simp_all add: blake2b_set_lastblock_def blake2b_set_lastnode_def Let_def)

lemma blake2b_final_eq:
  assumes "blake2b_rep P S m" "outlen \<noteq> 0" "outlen \<le> 64"
  shows "blake2b_final S outlen =
    (let S1 = blake2b_drop_block S;
         S2 = blake2b_set_lastblock (blake2b_increment_counter S1 (of_nat (b2_buflen S1)));
         buf = write_at (b2_buf S1) (b2_buflen S1) (replicate (256 - b2_buflen S1) 0);
         S3 = blake2b_compress_ref (S2\<lparr>b2_buf := buf\<rparr>) buf
     in Some (0, S3\<lparr>b2_h := replicate 8 0, b2_buf := replicate 256 0\<rparr>,
          take (unat outlen) (concat (map (\<lambda>i. store64_le (b2_h S3 ! i)) [0..<8]))))"
proof -
  have "\<not> blake2b_is_lastblock S" "b2_buflen S \<le> 256"
    using assms(1) by (simp_all add: blake2b_rep_def blake2b_is_lastblock_def)
  moreover from this have "b2_buflen S - 128 \<le> 128" by linarith
  moreover have "\<not> outlen > 64" using assms(3) by simp
  ultimately show ?thesis
    using assms(2) unfolding blake2b_final_def blake2b_drop_block_def
    by (simp add: Let_def del: upt.simps upt_rec_numeral)
qed

lemma blake2b_rep_final:
  assumes rep: "blake2b_rep P S m" and out: "outlen \<noteq> 0" "outlen \<le> 64"
  shows "\<exists>S'. blake2b_final S outlen = Some (0, S', blake2b_spec P (unat outlen) m) \<and> b2_f S' = flag_words True"
proof -
  note drop = blake2b_rep_drop_block [OF rep]
  note last = blake2b_last_block [OF drop refl refl]
  have "map (\<lambda>i. store64_le (blake2b_chain (blake2b_h0 P) 0 m ! i)) [0..<8] = map store64_le (blake2b_chain (blake2b_h0 P) 0 m)"
    by (rule map_nth_upt) simp
  then show ?thesis
    unfolding blake2b_final_eq [OF assms] Let_def blake2b_spec_def last(1)
    by (intro exI conjI) (simp only:, simp add: last(2) del: upt.simps upt_rec_numeral)
qed

section \<open>A streaming hash\<close>

text \<open>\<^verbatim>\<open>blake2b_final\<close> as the last step of a stream: context and digest, when it returns 0.\<close>

definition blake2b_finish :: "byte \<Rightarrow> blake2b_state \<Rightarrow> (blake2b_state \<times> byte list) option" where
  "blake2b_finish outlen S = (case blake2b_final S outlen of
     Some (r, S', out) \<Rightarrow> if r = 0 then Some (S', out) else None | None \<Rightarrow> None)"

interpretation blake2b: streaming "\<lambda>_. outlen \<noteq> 0 \<and> outlen \<le> 64" "\<lambda>S. snd (blake2b_init_param S P)"
  "\<lambda>S c. Some (blake2b_update S c)" "blake2b_finish outlen"
  "\<lambda>S m. blake2b_rep P S m \<and> outlen \<noteq> 0 \<and> outlen \<le> 64" "\<lambda>_. True" "blake2b_spec P (unat outlen)" for P outlen
proof unfold_locales
  fix S m
  assume "blake2b_rep P S m \<and> outlen \<noteq> 0 \<and> outlen \<le> 64"
  then show "\<exists>S'. blake2b_finish outlen S = Some (S', blake2b_spec P (unat outlen) m) \<and> outlen \<noteq> 0 \<and> outlen \<le> 64"
    using blake2b_rep_final [of P S m outlen] by (auto simp: blake2b_finish_def)
qed (auto intro: blake2b_rep_init blake2b_rep_update)


lemma blake2b_feed_final:
  assumes "blake2b_rep P S k" "outlen \<noteq> 0" "outlen \<le> 64"
  shows "(blake2b_final (blake2b_update S m) outlen \<bind> (\<lambda>p. Some (0, snd (snd p))))
    = Some (0, blake2b_spec P (unat outlen) (k @ m))"
  using blake2b_rep_final [OF blake2b_rep_update [OF assms(1), of m] assms(2,3)] by auto

lemma blake2b_rep_init_key: "blake2b_rep P (blake2b_update (snd (blake2b_init_param S P)) k) k"
  using blake2b_rep_update [OF blake2b_rep_init] by simp

lemma blake2b_init_param_ret [simp]: "fst (blake2b_init_param S P) = 0"
  by (simp add: blake2b_init_param_eq)

text \<open>The bytes hashed by a keyed one-shot call: the padded key as a first block, then the input.\<close>

definition keyed_input :: "byte list option \<Rightarrow> byte \<Rightarrow> byte list \<Rightarrow> byte list" where
  "keyed_input key keylen m = (if keylen > 0 then key_block (the key) (unat keylen) @ m else m)"

definition blake2b_args_ok :: "byte list option \<Rightarrow> byte list option \<Rightarrow> byte \<Rightarrow> nat \<Rightarrow> byte \<Rightarrow> bool" where
  "blake2b_args_ok inp key outlen inlen keylen \<longleftrightarrow> (inp = None \<longrightarrow> inlen = 0) \<and> outlen \<noteq> 0 \<and> outlen \<le> 64
     \<and> (key = None \<longrightarrow> keylen = 0) \<and> keylen \<le> 64"

lemma blake2b_oneshot:
  "blake2b S False inp key outlen inlen keylen =
    (if blake2b_args_ok inp key outlen inlen keylen
     then Some (0, blake2b_spec (plain_param outlen keylen) (unat outlen) (keyed_input key keylen (input_bytes inp inlen)))
     else None)"
proof (cases "blake2b_args_ok inp key outlen inlen keylen")
  case True
  let ?m = "input_bytes inp inlen"
  have out: "outlen \<noteq> 0" "outlen \<le> 64" using True by (simp_all add: blake2b_args_ok_def)
  note u = blake2b_feed_final [OF blake2b_rep_init out, where P = "plain_param outlen 0" and m = ?m]
    blake2b_feed_final [OF blake2b_rep_init_key out, where P = "plain_param outlen keylen" and m = ?m
      and k = "key_block (the key) (unat keylen)"]
  show ?thesis
    using True u out by (cases "keylen = 0")
      (auto simp: blake2b_def blake2b_args_ok_def blake2b_init_key_def blake2b_init_def keyed_input_def
        case_prod_unfold Let_def not_less word_gt_0)
qed (auto simp: blake2b_def blake2b_args_ok_def word_gt_0)

lemma blake2b_salt_personal_oneshot:
  "blake2b_salt_personal S False inp key outlen inlen keylen slt pers =
    (if blake2b_args_ok inp key outlen inlen keylen
     then Some (0, blake2b_spec (salt_personal_param outlen keylen slt pers) (unat outlen)
                 (keyed_input key keylen (input_bytes inp inlen)))
     else None)"
proof (cases "blake2b_args_ok inp key outlen inlen keylen")
  case True
  let ?m = "input_bytes inp inlen"
  have out: "outlen \<noteq> 0" "outlen \<le> 64" using True by (simp_all add: blake2b_args_ok_def)
  note u = blake2b_feed_final [OF blake2b_rep_init out, where P = "salt_personal_param outlen 0 slt pers" and m = ?m]
    blake2b_feed_final [OF blake2b_rep_init_key out, where P = "salt_personal_param outlen keylen slt pers" and m = ?m
      and k = "key_block (the key) (unat keylen)"]
  show ?thesis
    using True u out by (cases "keylen = 0")
      (auto simp: blake2b_salt_personal_def blake2b_args_ok_def blake2b_init_key_salt_personal_def
        blake2b_init_salt_personal_def keyed_input_def case_prod_unfold Let_def not_less word_gt_0)
qed (auto simp: blake2b_salt_personal_def blake2b_args_ok_def word_gt_0)

lemma length_blake2b_spec: "outlen \<le> 64 \<Longrightarrow> length (blake2b_spec P outlen m) = outlen"
  by (simp add: blake2b_spec_def length_concat comp_def sum_list_triv)

lemma blake2b_increment_counter_ti_eq: "blake2b_increment_counter_ti S inc = blake2b_increment_counter S inc"
proof -
  define a b where "a = b2_t S ! 0" and "b = b2_t S ! 1"
  define n where "n = unat b * 2 ^ 64 + unat a"
  have w: "push_bit 64 (ucast b) OR ucast a = (of_nat n :: 128 word)"
    using unat_words_128 [of b a] n_def by (metis of_nat_unat ucast_id)
  have s: "(of_nat n :: 128 word) + ucast inc = of_nat (n + unat inc)" by simp
  have "unat (of_nat n :: u64) = unat a"
    using unsigned_less [of a, where 'a = nat] by (simp only: unsigned_of_nat) (simp add: n_def take_bit_eq_mod)
  then have a: "of_nat n = a" by (rule unsigned_word_eqI)
  have b: "of_nat (n div 2 ^ 64) = b"
    using unsigned_less [of a, where 'a = nat] by (simp add: n_def)
  note ab = a b
  have lo: "(ucast (of_nat k :: 128 word) :: u64) = of_nat k" for k
    by (rule bit_word_eqI) (auto simp: bit_simps)
  have hi: "(ucast (drop_bit 64 (of_nat k :: 128 word)) :: u64) = of_nat (k div 2 ^ 64)" for k
    unfolding drop_bit_eq_div [of 64 k, symmetric] by (rule bit_word_eqI) (auto simp: bit_simps)
  show ?thesis
    using counter_carry [of "unat inc" n] unsigned_less [of inc, where 'a = nat] ab
    unfolding blake2b_increment_counter_ti_def blake2b_increment_counter_def Let_def a_def [symmetric] b_def [symmetric]
      w s lo hi by simp
qed

section \<open>Properties\<close>

text \<open>C38: for every parameter block and every way to cut a message into chunks, a context
  initialised with the parameters, fed the chunks and finalised with a valid output length returns
  the RFC 7693 digest of the whole message: last block flagged and zero-padded, byte counter
  of 128 bits.\<close>

theorem blake2b_stream_digest:
  assumes "outlen \<noteq> 0" "outlen \<le> 64"
  shows "\<exists>S'. blake2b_final (foldl blake2b_update (snd (blake2b_init_param S P)) cs) outlen
    = Some (0, S', blake2b_spec P (unat outlen) (concat cs))"
proof -
  obtain S1 where "feed (\<lambda>S c. Some (blake2b_update S c)) (snd (blake2b_init_param S P)) cs = Some S1"
    "blake2b_rep P S1 (concat cs)"
    using blake2b.rep_feed [where P = P and outlen = outlen and m = "[]" and cs = cs and s = "snd (blake2b_init_param S P)"] assms blake2b_rep_init
    by (auto simp: list_all_iff)
  then show ?thesis
    using blake2b_rep_final [OF _ assms] by (fastforce simp: feed_total)
qed

theorem blake2b_stream_digest_witness:
  "\<exists>S'. blake2b_final (foldl blake2b_update (snd (blake2b_init_param
      \<lparr>b2_h = [], b2_t = [], b2_f = [], b2_buf = [], b2_buflen = 3, b2_last_node = 1\<rparr> (plain_param 32 0)))
      [replicate 200 1, [], replicate 100 2]) 32
    = Some (0, S', blake2b_spec (plain_param 32 0) (unat (32 :: byte)) (replicate 200 1 @ replicate 100 2))"
  using blake2b_stream_digest [of 32 "\<lparr>b2_h = [], b2_t = [], b2_f = [], b2_buf = [], b2_buflen = 3, b2_last_node = 1\<rparr>"
      "plain_param 32 0" "[replicate 200 1, [], replicate 100 2]"] by simp

text \<open>\<^verbatim>\<open>blake2b\<close> and \<^verbatim>\<open>blake2b_salt_personal\<close> with an output buffer either reject their arguments
  by \<^verbatim>\<open>sodium_misuse\<close> (null input with a length, output length 0 or above 64, null key with a
  length, key length above 64) or return 0 and the RFC 7693 digest of the padded key block
  followed by the input; a null output buffer is always rejected.\<close>

theorem blake2b_oneshot_correct:
  "blake2b S False inp key outlen inlen keylen =
     (if blake2b_args_ok inp key outlen inlen keylen
      then Some (0, blake2b_spec (plain_param outlen keylen) (unat outlen) (keyed_input key keylen (input_bytes inp inlen)))
      else None)
   \<and> blake2b_salt_personal S False inp key outlen inlen keylen slt pers =
     (if blake2b_args_ok inp key outlen inlen keylen
      then Some (0, blake2b_spec (salt_personal_param outlen keylen slt pers) (unat outlen)
                  (keyed_input key keylen (input_bytes inp inlen)))
      else None)
   \<and> blake2b S True inp key outlen inlen keylen = None
   \<and> blake2b_salt_personal S True inp key outlen inlen keylen slt pers = None"
  using blake2b_oneshot [of S] blake2b_salt_personal_oneshot [of S]
  by (simp add: blake2b_def blake2b_salt_personal_def)

text \<open>The compression function is the function F of RFC 7693 on the counter and the
  final-block flag held in the context, and changes nothing but the chaining value.\<close>

theorem blake2b_compress_rfc:
  assumes "length (b2_h S) = 8" "b2_t S = [of_nat t, of_nat (t div 2 ^ 64)]"
    "b2_f S = [if lst then -1 else 0, 0]"
  shows "blake2b_compress_ref S blk = S\<lparr>b2_h := blake2b_F (b2_h S) blk t lst\<rparr>"
  using assms by (rule blake2b_compress_F)

theorem blake2b_compress_rfc_witness:
  "blake2b_compress_ref \<lparr>b2_h = replicate 8 1, b2_t = [128, 0], b2_f = [-1, 0], b2_buf = [], b2_buflen = 0,
      b2_last_node = 0\<rparr> (replicate 128 7)
   = \<lparr>b2_h = blake2b_F (replicate 8 1) (replicate 128 7) 128 True, b2_t = [128, 0], b2_f = [-1, 0], b2_buf = [],
      b2_buflen = 0, b2_last_node = 0\<rparr>"
  using blake2b_compress_rfc [of "\<lparr>b2_h = replicate 8 1, b2_t = [128, 0], b2_f = [-1, 0], b2_buf = [], b2_buflen = 0,
      b2_last_node = 0\<rparr>" 128 True "replicate 128 7"] by simp

text \<open>A context that was finalised refuses to be finalised again: for every stream, the second
  \<^verbatim>\<open>blake2b_final\<close> returns -1, writes nothing and leaves the context unchanged; and the two
  builds of the counter increment agree.\<close>

theorem blake2b_final_twice:
  assumes "outlen \<noteq> 0" "outlen \<le> 64"
  shows "(case blake2b_final (foldl blake2b_update (snd (blake2b_init_param S P)) cs) outlen of
      Some (r, S', out) \<Rightarrow> r = 0 \<and> blake2b_final S' outlen = Some (-1, S', []) | None \<Rightarrow> False)
   \<and> blake2b_increment_counter_ti S inc = blake2b_increment_counter S inc"
proof -
  have "blake2b_rep P (foldl blake2b_update (snd (blake2b_init_param S P)) cs) (concat cs)"
    using blake2b.rep_feed [where P = P and outlen = outlen and m = "[]" and cs = cs and s = "snd (blake2b_init_param S P)"] assms blake2b_rep_init
    by (auto simp: list_all_iff feed_total)
  moreover have "blake2b_final S' outlen = Some (-1, S', [])" if "b2_f S' = flag_words True" for S'
    using assms that by (simp add: blake2b_final_def blake2b_is_lastblock_def not_less)
  ultimately show ?thesis
    using blake2b_rep_final [OF _ assms] by (fastforce simp: blake2b_increment_counter_ti_eq)
qed

theorem blake2b_final_twice_witness:
  "(case blake2b_final (foldl blake2b_update (snd (blake2b_init_param
      \<lparr>b2_h = [], b2_t = [], b2_f = [], b2_buf = [], b2_buflen = 3, b2_last_node = 1\<rparr> (plain_param 64 0))) [[1, 2]]) 64 of
      Some (r, S', out) \<Rightarrow> r = 0 \<and> blake2b_final S' 64 = Some (-1, S', []) | None \<Rightarrow> False)"
  using blake2b_final_twice [of 64 "\<lparr>b2_h = [], b2_t = [], b2_f = [], b2_buf = [], b2_buflen = 3, b2_last_node = 1\<rparr>"
      "plain_param 64 0" "[[1, 2]]"] by simp

end
