(* ===== verification/Generichash.thy ===== *)
theory Generichash
  imports Blake2b
begin

unbundle bit_operations_syntax

text \<open>
  The public face of BLAKE2b: \<^verbatim>\<open>generichash_blake2b.c\<close> (range checks and conversion of the
  \<^verbatim>\<open>size_t\<close> lengths to \<^verbatim>\<open>uint8_t\<close>), \<^verbatim>\<open>crypto_generichash.c\<close>, and the key
  derivation function \<^verbatim>\<open>crypto_kdf\<close> built on it. An operation returns \<open>None\<close> when the
  process ends, otherwise its return code with what it wrote.
\<close>

definition crypto_generichash_blake2b :: "blake2b_state \<Rightarrow> bool \<Rightarrow> nat \<Rightarrow> byte list option \<Rightarrow> nat
    \<Rightarrow> byte list option \<Rightarrow> nat \<Rightarrow> (int \<times> byte list) option" where
  "crypto_generichash_blake2b S out_null outlen inp inlen key keylen =
    (if outlen \<le> 0 \<or> outlen > 64 \<or> keylen > 64 \<or> int inlen > 18446744073709551615 then Some (-1, [])
     else if \<not> outlen \<le> 255 then None
     else if \<not> keylen \<le> 255 then None
     else blake2b S out_null inp key (of_nat outlen) inlen (of_nat keylen))"

definition crypto_generichash_blake2b_salt_personal :: "blake2b_state \<Rightarrow> bool \<Rightarrow> nat \<Rightarrow> byte list option \<Rightarrow> nat
    \<Rightarrow> byte list option \<Rightarrow> nat \<Rightarrow> byte list option \<Rightarrow> byte list option \<Rightarrow> (int \<times> byte list) option" where
  "crypto_generichash_blake2b_salt_personal S out_null outlen inp inlen key keylen slt pers =
    (if outlen \<le> 0 \<or> outlen > 64 \<or> keylen > 64 \<or> int inlen > 18446744073709551615 then Some (-1, [])
     else if \<not> outlen \<le> 255 then None
     else if \<not> keylen \<le> 255 then None
     else blake2b_salt_personal S out_null inp key (of_nat outlen) inlen (of_nat keylen) slt pers)"

definition crypto_generichash_blake2b_init ::
  "blake2b_state \<Rightarrow> byte list option \<Rightarrow> nat \<Rightarrow> nat \<Rightarrow> (int \<times> blake2b_state) option" where
  "crypto_generichash_blake2b_init S key keylen outlen =
    (if outlen \<le> 0 \<or> outlen > 64 \<or> keylen > 64 then Some (-1, S)
     else if \<not> outlen \<le> 255 then None
     else if \<not> keylen \<le> 255 then None
     else if key = None \<or> keylen \<le> 0
     then do { (r, S) \<leftarrow> blake2b_init S (of_nat outlen); Some (if r \<noteq> 0 then -1 else 0, S) }
     else do { (r, S) \<leftarrow> blake2b_init_key S (of_nat outlen) key (of_nat keylen); Some (if r \<noteq> 0 then -1 else 0, S) })"

definition crypto_generichash_blake2b_init_salt_personal :: "blake2b_state \<Rightarrow> byte list option \<Rightarrow> nat \<Rightarrow> nat
    \<Rightarrow> byte list option \<Rightarrow> byte list option \<Rightarrow> (int \<times> blake2b_state) option" where
  "crypto_generichash_blake2b_init_salt_personal S key keylen outlen slt pers =
    (if outlen \<le> 0 \<or> outlen > 64 \<or> keylen > 64 then Some (-1, S)
     else if \<not> outlen \<le> 255 then None
     else if \<not> keylen \<le> 255 then None
     else if key = None \<or> keylen \<le> 0
     then do { (r, S) \<leftarrow> blake2b_init_salt_personal S (of_nat outlen) slt pers;
               Some (if r \<noteq> 0 then -1 else 0, S) }
     else do { (r, S) \<leftarrow> blake2b_init_key_salt_personal S (of_nat outlen) key (of_nat keylen) slt pers;
               Some (if r \<noteq> 0 then -1 else 0, S) })"

definition crypto_generichash_blake2b_update :: "blake2b_state \<Rightarrow> byte list \<Rightarrow> blake2b_state" where
  "crypto_generichash_blake2b_update S inp = blake2b_update S inp"

definition crypto_generichash_blake2b_final ::
  "blake2b_state \<Rightarrow> nat \<Rightarrow> (int \<times> blake2b_state \<times> byte list) option" where
  "crypto_generichash_blake2b_final S outlen =
    (if \<not> outlen \<le> 255 then None else blake2b_final S (of_nat outlen))"

definition crypto_generichash :: "blake2b_state \<Rightarrow> bool \<Rightarrow> nat \<Rightarrow> byte list option \<Rightarrow> nat
    \<Rightarrow> byte list option \<Rightarrow> nat \<Rightarrow> (int \<times> byte list) option" where
  "crypto_generichash S out_null outlen inp inlen key keylen =
     crypto_generichash_blake2b S out_null outlen inp inlen key keylen"

definition crypto_generichash_init ::
  "blake2b_state \<Rightarrow> byte list option \<Rightarrow> nat \<Rightarrow> nat \<Rightarrow> (int \<times> blake2b_state) option" where
  "crypto_generichash_init S key keylen outlen = crypto_generichash_blake2b_init S key keylen outlen"

definition crypto_generichash_update :: "blake2b_state \<Rightarrow> byte list \<Rightarrow> blake2b_state" where
  "crypto_generichash_update S inp = crypto_generichash_blake2b_update S inp"

definition crypto_generichash_final :: "blake2b_state \<Rightarrow> nat \<Rightarrow> (int \<times> blake2b_state \<times> byte list) option" where
  "crypto_generichash_final S outlen = crypto_generichash_blake2b_final S outlen"

text \<open>Key derivation; \<open>ctx\<close> and \<open>key\<close> point to at least 8 and 32 bytes.\<close>

definition crypto_kdf_blake2b_derive_from_key ::
  "blake2b_state \<Rightarrow> nat \<Rightarrow> u64 \<Rightarrow> byte list \<Rightarrow> byte list \<Rightarrow> (int \<times> byte list) option" where
  "crypto_kdf_blake2b_derive_from_key S subkey_len subkey_id ctx key =
    (let ctx_padded = take 8 ctx @ replicate (16 - 8) 0;
         slt = store64_le subkey_id @ replicate (16 - 8) 0
     in if subkey_len < 16 \<or> subkey_len > 64 then Some (-1, [])
        else crypto_generichash_blake2b_salt_personal S False subkey_len None 0 (Some key) 32 (Some slt) (Some ctx_padded))"

definition crypto_kdf_derive_from_key ::
  "blake2b_state \<Rightarrow> nat \<Rightarrow> u64 \<Rightarrow> byte list \<Rightarrow> byte list \<Rightarrow> (int \<times> byte list) option" where
  "crypto_kdf_derive_from_key S subkey_len subkey_id ctx key =
     crypto_kdf_blake2b_derive_from_key S subkey_len subkey_id ctx key"

section \<open>Correctness\<close>

lemma unat_len [simp]: "n \<le> 64 \<Longrightarrow> unat (of_nat n :: byte) = n"
  by (simp add: unsigned_of_nat take_bit_nat_eq_self)

lemma len_facts:
  assumes "n \<le> 64"
  shows "(of_nat n :: byte) \<le> 64" "(of_nat n :: byte) = 0 \<longleftrightarrow> n = 0" "(of_nat n :: byte) > 0 \<longleftrightarrow> n > 0"
  using assms by (simp_all add: word_le_nat_alt word_less_nat_alt word_unat_eq_iff)

definition blake2b_mac :: "byte list option \<Rightarrow> nat \<Rightarrow> byte list \<Rightarrow> byte list" where
  "blake2b_mac key keylen m =
     (if keylen = 0 then m else take keylen (the key) @ replicate (128 - length (take keylen (the key))) 0 @ m)"

lemma key_block_eq: "keylen \<le> 128 \<Longrightarrow> key_block key keylen = take keylen key @ replicate (128 - length (take keylen key)) 0"
  by (simp add: key_block_def write_at_def)

lemma keyed_input_eq: "keylen \<le> 64 \<Longrightarrow> keyed_input key (of_nat keylen) m = blake2b_mac key keylen m"
  by (simp add: keyed_input_def blake2b_mac_def len_facts key_block_eq)

lemma generichash_blake2b_salt_personal_eq:
  assumes "inp = None \<Longrightarrow> inlen = 0" "key = None \<Longrightarrow> keylen = 0" "inlen < 2 ^ 64"
  shows "crypto_generichash_blake2b_salt_personal S False outlen inp inlen key keylen slt pers =
    (if outlen = 0 \<or> 64 < outlen \<or> 64 < keylen then Some (-1, [])
     else Some (0, blake2b_spec (salt_personal_param (of_nat outlen) (of_nat keylen) slt pers) outlen
            (blake2b_mac key keylen (input_bytes inp inlen))))"
  using assms
  by (auto simp: crypto_generichash_blake2b_salt_personal_def blake2b_salt_personal_oneshot blake2b_args_ok_def
      len_facts keyed_input_eq)

lemma generichash_blake2b_eq:
  assumes "inp = None \<Longrightarrow> inlen = 0" "key = None \<Longrightarrow> keylen = 0" "inlen < 2 ^ 64"
  shows "crypto_generichash_blake2b S False outlen inp inlen key keylen =
    (if outlen = 0 \<or> 64 < outlen \<or> 64 < keylen then Some (-1, [])
     else Some (0, blake2b_spec (plain_param (of_nat outlen) (of_nat keylen)) outlen
            (blake2b_mac key keylen (input_bytes inp inlen))))"
  using assms
  by (auto simp: crypto_generichash_blake2b_def blake2b_oneshot blake2b_args_ok_def len_facts keyed_input_eq)

section \<open>Properties\<close>

text \<open>\<^verbatim>\<open>crypto_generichash\<close> with an output buffer and matching pointers and lengths returns -1 exactly
  when the output length is not between 1 and 64 or the key is longer than 64 bytes, and
  otherwise 0 and the keyed BLAKE2b digest of the input.\<close>

theorem crypto_generichash_correct:
  assumes "inp = None \<longrightarrow> inlen = 0" "key = None \<longrightarrow> keylen = 0" "inlen < 2 ^ 64"
  shows "crypto_generichash S False outlen inp inlen key keylen =
    (if outlen = 0 \<or> 64 < outlen \<or> 64 < keylen then Some (-1, [])
     else Some (0, blake2b_spec (plain_param (of_nat outlen) (of_nat keylen)) outlen
            (blake2b_mac key keylen (input_bytes inp inlen))))"
  using assms unfolding crypto_generichash_def by (intro generichash_blake2b_eq) auto

theorem crypto_generichash_correct_witness:
  "crypto_generichash \<lparr>b2_h = [], b2_t = [], b2_f = [], b2_buf = [], b2_buflen = 0, b2_last_node = 0\<rparr>
     False 32 (Some [1, 2, 3]) 3 (Some [9]) 1
   = Some (0, blake2b_spec (plain_param 32 1) 32 ([9] @ replicate 127 0 @ [1, 2, 3]))"
  using crypto_generichash_correct [of "Some [1, 2, 3]" 3 "Some [9]" 1
      "\<lparr>b2_h = [], b2_t = [], b2_f = [], b2_buf = [], b2_buflen = 0, b2_last_node = 0\<rparr>" 32]
  by (simp add: blake2b_mac_def input_bytes_def)

text \<open>The streaming interface agrees with the one-shot function: initialising with a key,
  feeding the message in any chunks and finalising returns 0 and the same digest.\<close>

theorem crypto_generichash_stream:
  assumes "0 < outlen" "outlen \<le> 64" "keylen \<le> 64" "key = None \<longrightarrow> keylen = 0" "length (concat cs) < 2 ^ 64"
  shows "\<exists>S1 S2 d. crypto_generichash_init S key keylen outlen = Some (0, S1)
    \<and> crypto_generichash_final (foldl crypto_generichash_update S1 cs) outlen = Some (0, S2, d)
    \<and> crypto_generichash S' False outlen (Some (concat cs)) (length (concat cs)) key keylen = Some (0, d)"
proof -
  let ?P = "plain_param (of_nat outlen) (of_nat keylen)" and ?k = "blake2b_mac key keylen []"
  have u: "crypto_generichash_update = blake2b_update"
    by (intro ext) (simp add: crypto_generichash_update_def crypto_generichash_blake2b_update_def)
  have out: "(of_nat outlen :: byte) \<noteq> 0" "(of_nat outlen :: byte) \<le> 64"
    using assms(1,2) by (simp_all add: len_facts)
  obtain S1 where S1: "crypto_generichash_init S key keylen outlen = Some (0, S1)" "blake2b_rep ?P S1 ?k"
  proof (cases "keylen = 0")
    case True
    then show ?thesis
      using that [of "snd (blake2b_init_param S ?P)"] out assms blake2b_rep_init [of ?P S]
      by (auto simp: crypto_generichash_init_def crypto_generichash_blake2b_init_def blake2b_init_def
          case_prod_unfold not_less blake2b_mac_def)
  next
    case False
    then show ?thesis
      using that [of "blake2b_update (snd (blake2b_init_param S ?P)) (key_block (the key) keylen)"] out assms
        blake2b_rep_init_key [of ?P S "key_block (the key) keylen"] len_facts [OF assms(3)]
      by (auto simp: crypto_generichash_init_def crypto_generichash_blake2b_init_def blake2b_init_key_def
          case_prod_unfold Let_def not_less blake2b_mac_def key_block_eq)
  qed
  have "blake2b_rep ?P (foldl blake2b_update S1 cs) (?k @ concat cs)"
    using S1(2) by (induction cs rule: rev_induct) (auto intro: blake2b_rep_update simp: append_assoc [symmetric] simp del: append_assoc)
  from blake2b_rep_final [OF this out] obtain S2 where
    "crypto_generichash_final (foldl crypto_generichash_update S1 cs) outlen
      = Some (0, S2, blake2b_spec ?P outlen (?k @ concat cs))"
    using assms(2) by (auto simp: crypto_generichash_final_def crypto_generichash_blake2b_final_def u)
  moreover have "crypto_generichash S' False outlen (Some (concat cs)) (length (concat cs)) key keylen
      = Some (0, blake2b_spec ?P outlen (?k @ concat cs))"
    unfolding crypto_generichash_def using assms
    by (subst generichash_blake2b_eq) (auto simp: blake2b_mac_def input_bytes_def)
  ultimately show ?thesis using S1(1) by blast
qed

theorem crypto_generichash_stream_witness:
  "\<exists>S1 S2 d. crypto_generichash_init \<lparr>b2_h = [], b2_t = [], b2_f = [], b2_buf = [], b2_buflen = 0, b2_last_node = 0\<rparr>
      (Some [7, 7]) 2 20 = Some (0, S1)
    \<and> crypto_generichash_final (foldl crypto_generichash_update S1 [[1], [2, 3]]) 20 = Some (0, S2, d)
    \<and> crypto_generichash \<lparr>b2_h = [1], b2_t = [], b2_f = [], b2_buf = [], b2_buflen = 0, b2_last_node = 0\<rparr>
       False 20 (Some [1, 2, 3]) 3 (Some [7, 7]) 2 = Some (0, d)"
  using crypto_generichash_stream [of 20 2 "Some [7, 7]" "[[1], [2, 3]]"
      "\<lparr>b2_h = [], b2_t = [], b2_f = [], b2_buf = [], b2_buflen = 0, b2_last_node = 0\<rparr>"
      "\<lparr>b2_h = [1], b2_t = [], b2_f = [], b2_buf = [], b2_buflen = 0, b2_last_node = 0\<rparr>"] by (simp add: numeral_3_eq_3)

text \<open>Key derivation returns -1 exactly for subkey lengths outside 16 to 64; otherwise it returns 0
  and a subkey of the requested length, the BLAKE2b digest of the empty message keyed with the first 32
  bytes of the key, with the subkey number as salt and the context as personalisation. Different
  subkey numbers or contexts give different parameter blocks, hence different initial
  chaining values.\<close>

theorem crypto_kdf_derive_correct:
  assumes "length key = 32" "length ctx = 8" "length ctx' = 8"
  shows "crypto_kdf_derive_from_key S subkey_len i ctx key =
     (if subkey_len < 16 \<or> 64 < subkey_len then Some (-1, [])
      else Some (0, blake2b_spec (salt_personal_param (of_nat subkey_len) 32
             (Some (store64_le i @ replicate 8 0)) (Some (ctx @ replicate 8 0))) subkey_len
             (key @ replicate 96 0)))
   \<and> (16 \<le> subkey_len \<and> subkey_len \<le> 64 \<longrightarrow> (\<exists>d. crypto_kdf_derive_from_key S subkey_len i ctx key = Some (0, d)
        \<and> length d = subkey_len))
   \<and> (param_bytes (salt_personal_param l 32 (Some (store64_le i @ replicate 8 0)) (Some (ctx @ replicate 8 0)))
      = param_bytes (salt_personal_param l 32 (Some (store64_le j @ replicate 8 0)) (Some (ctx' @ replicate 8 0)))
      \<longrightarrow> i = j \<and> ctx = ctx')"
proof -
  have e: "crypto_kdf_derive_from_key S subkey_len i ctx key =
     (if subkey_len < 16 \<or> 64 < subkey_len then Some (-1, [])
      else Some (0, blake2b_spec (salt_personal_param (of_nat subkey_len) 32
             (Some (store64_le i @ replicate 8 0)) (Some (ctx @ replicate 8 0))) subkey_len
             (key @ replicate 96 0)))"
    using assms generichash_blake2b_salt_personal_eq [of None 0 "Some key" 32 S subkey_len
        "Some (store64_le i @ replicate 8 0)" "Some (ctx @ replicate 8 0)"]
    by (auto simp: crypto_kdf_derive_from_key_def crypto_kdf_blake2b_derive_from_key_def Let_def blake2b_mac_def
        input_bytes_def)
  have inj: "i = j" if "store64_le i = store64_le j"
    using that by (metis load64_le_store)
  show ?thesis
    unfolding e using assms(2,3)
    by (auto simp: length_blake2b_spec param_bytes_def salt_personal_param_def plain_param_def Let_def
        blake2b_param_set_salt_def blake2b_param_set_personal_def intro: inj)
qed

theorem crypto_kdf_derive_correct_witness:
  "crypto_kdf_derive_from_key \<lparr>b2_h = [], b2_t = [], b2_f = [], b2_buf = [], b2_buflen = 0, b2_last_node = 0\<rparr>
      15 1 (replicate 8 1) (replicate 32 2) = Some (-1, [])"
  using crypto_kdf_derive_correct [of "replicate 32 2" "replicate 8 1" "replicate 8 1"
      "\<lparr>b2_h = [], b2_t = [], b2_f = [], b2_buf = [], b2_buflen = 0, b2_last_node = 0\<rparr>" 15 1] by simp

end
