(* ===== verification/Ripemd160.thy ===== *)
theory Ripemd160
  imports Streaming
begin

unbundle bit_operations_syntax

text \<open>
  The RIPEMD-160 implementation of \<^verbatim>\<open>ripemd160.c\<close> and \<^verbatim>\<open>ripemd160.h\<close>, as built on a
  little-endian machine (\<^verbatim>\<open>PCT_BIG_ENDIAN\<close> undefined) with its assertions active: the
  release flags of the build do not define \<^verbatim>\<open>NDEBUG\<close>. The union \<^verbatim>\<open>buf\<close> is its 64 bytes;
  \<^verbatim>\<open>buf.w[k]\<close> is the little-endian word at byte \<open>4 * k\<close>. \<open>bufpos\<close> (\<^verbatim>\<open>uint8_t\<close>) is a
  natural number: the invariant keeps it at most 64, so it never wraps.

  Shown here: the tables of the source are the permutations and constants its comments
  name; the compression function is the 80-step reference function; feeding a message in
  any chunks and finishing gives the padded Merkle-Damgard digest, and no assertion fails
  unless a chunk is the null pointer.
\<close>

section \<open>State, tables and macros\<close>

record ripemd160_state =
  md_length :: u64
  md_buf :: "byte list"
  md_h :: "u32 list"
  md_bufpos :: nat

type_synonym rmd_line = "u32 \<times> u32 \<times> u32 \<times> u32 \<times> u32"

definition ROL :: "nat \<Rightarrow> u32 \<Rightarrow> u32" where
  "ROL s n = push_bit s n OR drop_bit (32 - s) n"

definition initial_h :: "u32 list" where
  "initial_h = [0x67452301, 0xEFCDAB89, 0x98BADCFE, 0x10325476, 0xC3D2E1F0]"

definition RL :: "nat list list" where
  "RL = [
    [0, 1, 2, 3, 4, 5, 6, 7, 8, 9, 10, 11, 12, 13, 14, 15],
    [7, 4, 13, 1, 10, 6, 15, 3, 12, 0, 9, 5, 2, 14, 11, 8],
    [3, 10, 14, 4, 9, 15, 8, 1, 2, 7, 0, 6, 13, 11, 5, 12],
    [1, 9, 11, 10, 0, 8, 12, 4, 13, 3, 7, 15, 14, 5, 6, 2],
    [4, 0, 5, 9, 7, 12, 2, 10, 14, 1, 3, 8, 11, 6, 15, 13]]"

definition RR :: "nat list list" where
  "RR = [
    [5, 14, 7, 0, 9, 2, 11, 4, 13, 6, 15, 8, 1, 10, 3, 12],
    [6, 11, 3, 7, 0, 13, 5, 10, 14, 15, 8, 12, 4, 9, 1, 2],
    [15, 5, 1, 3, 7, 14, 6, 9, 11, 8, 12, 2, 10, 0, 4, 13],
    [8, 6, 4, 1, 3, 11, 15, 0, 5, 12, 2, 13, 9, 7, 10, 14],
    [12, 15, 10, 4, 1, 5, 8, 7, 6, 2, 13, 14, 0, 3, 9, 11]]"

definition SL :: "nat list list" where
  "SL = [
    [11, 14, 15, 12, 5, 8, 7, 9, 11, 13, 14, 15, 6, 7, 9, 8],
    [7, 6, 8, 13, 11, 9, 7, 15, 7, 12, 15, 9, 11, 7, 13, 12],
    [11, 13, 6, 7, 14, 9, 13, 15, 14, 8, 13, 6, 5, 12, 7, 5],
    [11, 12, 14, 15, 14, 15, 9, 8, 9, 14, 5, 6, 8, 6, 5, 12],
    [9, 15, 5, 11, 6, 8, 13, 12, 5, 12, 13, 14, 11, 8, 5, 6]]"

definition SR :: "nat list list" where
  "SR = [
    [8, 9, 9, 11, 13, 15, 15, 5, 7, 7, 8, 11, 14, 14, 12, 6],
    [9, 13, 15, 7, 12, 8, 9, 11, 7, 7, 12, 7, 6, 15, 13, 11],
    [9, 7, 15, 11, 8, 6, 6, 14, 12, 13, 5, 14, 13, 13, 7, 5],
    [15, 5, 8, 11, 14, 14, 6, 14, 6, 9, 12, 9, 12, 5, 15, 8],
    [8, 5, 12, 9, 12, 5, 14, 6, 8, 13, 6, 5, 15, 13, 11, 11]]"

definition F1 :: "u32 \<Rightarrow> u32 \<Rightarrow> u32 \<Rightarrow> u32" where "F1 x y z = x XOR y XOR z"
definition F2 :: "u32 \<Rightarrow> u32 \<Rightarrow> u32 \<Rightarrow> u32" where "F2 x y z = (x AND y) OR (NOT x AND z)"
definition F3 :: "u32 \<Rightarrow> u32 \<Rightarrow> u32 \<Rightarrow> u32" where "F3 x y z = (x OR NOT y) XOR z"
definition F4 :: "u32 \<Rightarrow> u32 \<Rightarrow> u32 \<Rightarrow> u32" where "F4 x y z = (x AND z) OR (y AND NOT z)"
definition F5 :: "u32 \<Rightarrow> u32 \<Rightarrow> u32 \<Rightarrow> u32" where "F5 x y z = x XOR (y OR NOT z)"

definition KL :: "u32 list" where
  "KL = [0x00000000, 0x5A827999, 0x6ED9EBA1, 0x8F1BBCDC, 0xA953FD4E]"

definition KR :: "u32 list" where
  "KR = [0x50A28BE6, 0x5C4DD124, 0x6D703EF3, 0x7A6D76E9, 0x00000000]"

section \<open>Operations\<close>

definition ripemd160_init :: ripemd160_state where
  "ripemd160_init = \<lparr>md_length = 0, md_buf = replicate 64 0, md_h = initial_h, md_bufpos = 0\<rparr>"

definition byteswap32 :: "u32 \<Rightarrow> u32" where
  "byteswap32 v = load32_le (rev (store32_le v))"

text \<open>
  The loop of \<^verbatim>\<open>byteswap_digest\<close> swaps sixteen words from \<open>p\<close> on; \<open>None\<close> when that
  accesses words the array does not have.
\<close>

definition byteswap_digest :: "u32 list \<Rightarrow> u32 list option" where
  "byteswap_digest p =
     (if length p < 16 then None else Some (map byteswap32 (take 16 p) @ drop 16 p))"

text \<open>One of the ten sixteen-step loops of the compression function: \<open>F\<close> is its boolean
  function; \<open>K\<close>, \<open>R\<close> and \<open>S\<close> are the tables of its line.\<close>

definition rmd_step ::
  "(u32 \<Rightarrow> u32 \<Rightarrow> u32 \<Rightarrow> u32) \<Rightarrow> u32 list \<Rightarrow> nat list list \<Rightarrow> nat list list \<Rightarrow> byte list \<Rightarrow> nat
     \<Rightarrow> rmd_line \<Rightarrow> nat \<Rightarrow> rmd_line" where
  "rmd_step F K R S buf rnd = (\<lambda>(A, B, C, D, E) w.
     let T = ROL (S ! rnd ! w) (A + F B C D + load32_le (drop (4 * (R ! rnd ! w)) buf) + K ! rnd) + E
     in (E, T, B, ROL 10 C, D))"

definition rmd_loop ::
  "(u32 \<Rightarrow> u32 \<Rightarrow> u32 \<Rightarrow> u32) \<Rightarrow> u32 list \<Rightarrow> nat list list \<Rightarrow> nat list list \<Rightarrow> byte list \<Rightarrow> nat
     \<Rightarrow> rmd_line \<Rightarrow> rmd_line" where
  "rmd_loop F K R S buf rnd l = foldl (rmd_step F K R S buf rnd) l [0..<16]"

definition compress_lines :: "u32 list \<Rightarrow> byte list \<Rightarrow> u32 list" where
  "compress_lines h buf =
    (let l0 = (h ! 0, h ! 1, h ! 2, h ! 3, h ! 4); r0 = l0;
         l1 = rmd_loop F1 KL RL SL buf 0 l0;
         r1 = rmd_loop F5 KR RR SR buf 0 r0;
         l2 = rmd_loop F2 KL RL SL buf 1 l1;
         r2 = rmd_loop F4 KR RR SR buf 1 r1;
         l3 = rmd_loop F3 KL RL SL buf 2 l2;
         r3 = rmd_loop F3 KR RR SR buf 2 r2;
         l4 = rmd_loop F4 KL RL SL buf 3 l3;
         r4 = rmd_loop F2 KR RR SR buf 3 r3;
         l5 = rmd_loop F5 KL RL SL buf 4 l4;
         r5 = rmd_loop F1 KR RR SR buf 4 r4;
         (AL, BL, CL, DL, EL) = l5;
         (AR, BR, CR, DR, ER) = r5
     in [h ! 1 + CL + DR, h ! 2 + DL + ER, h ! 3 + EL + AR, h ! 4 + AL + BR, h ! 0 + BL + CR])"

definition ripemd160_compress :: "ripemd160_state \<Rightarrow> ripemd160_state option" where
  "ripemd160_compress self =
    (if md_bufpos self \<noteq> 64 then None
     else Some (self\<lparr>md_h := compress_lines (md_h self) (md_buf self),
                     md_buf := replicate 64 0, md_bufpos := 0\<rparr>))"

lemma ripemd160_compress_Some:
  "ripemd160_compress s = Some s' \<Longrightarrow> md_bufpos s = 64 \<and> md_bufpos s' = 0"
  by (auto simp: ripemd160_compress_def split: if_splits)

text \<open>The \<^verbatim>\<open>while (length > 0)\<close> loop of \<^verbatim>\<open>ripemd160_process\<close>.\<close>

function process_loop :: "ripemd160_state \<Rightarrow> byte list \<Rightarrow> ripemd160_state option" where
  "process_loop self p =
    (if length p > 0 then
       let bytes_needed = 64 - md_bufpos self in
       if length p \<ge> bytes_needed then
         (case ripemd160_compress
             (self\<lparr>md_buf := write_at (md_buf self) (md_bufpos self) (take bytes_needed p),
                   md_bufpos := md_bufpos self + bytes_needed,
                   md_length := md_length self + push_bit 3 (of_nat bytes_needed)\<rparr>) of
            None \<Rightarrow> None
          | Some self' \<Rightarrow> process_loop self' (drop bytes_needed p))
       else Some (self\<lparr>md_buf := write_at (md_buf self) (md_bufpos self) p,
                       md_bufpos := md_bufpos self + length p,
                       md_length := md_length self + push_bit 3 (of_nat (length p))\<rparr>)
     else Some self)"
  by pat_completeness auto
termination
  by (relation "measure (\<lambda>(s, p). 2 * length p + (if md_bufpos s = 0 then 0 else 1))")
    (auto dest!: ripemd160_compress_Some)

declare process_loop.simps [simp del]

text \<open>The pointer \<^verbatim>\<open>p\<close> with the bytes it points to; \<open>None\<close> is the null pointer, which the first assertion refuses. An
  unsigned length is never negative.\<close>

definition ripemd160_process :: "ripemd160_state \<Rightarrow> byte list option \<Rightarrow> ripemd160_state option" where
  "ripemd160_process self p =
     (case p of
        None \<Rightarrow> None
      | Some bytes \<Rightarrow> if md_bufpos self < 64 then process_loop self bytes else None)"

definition ripemd160_done :: "ripemd160_state \<Rightarrow> (ripemd160_state \<times> byte list) option" where
  "ripemd160_done self0 = do {
     let self1 = self0\<lparr>md_buf := (md_buf self0)[md_bufpos self0 := 0x80],
                       md_bufpos := md_bufpos self0 + 1\<rparr>;
     self2 \<leftarrow> (if md_bufpos self1 > 56 then ripemd160_compress (self1\<lparr>md_bufpos := 64\<rparr>)
               else Some self1);
     let self3 = self2\<lparr>md_buf :=
           write_at (write_at (md_buf self2) 56 (store32_le (ucast (md_length self2 AND 0xFFFFFFFF))))
             60 (store32_le (ucast (drop_bit 32 (md_length self2) AND 0xFFFFFFFF)))\<rparr>;
     self4 \<leftarrow> ripemd160_compress (self3\<lparr>md_bufpos := 64\<rparr>);
     Some (self4, concat (map store32_le (md_h self4)))
   }"

definition ripemd160 :: "byte list option \<Rightarrow> byte list option" where
  "ripemd160 inp = do {
     md \<leftarrow> ripemd160_process ripemd160_init inp;
     (md', out) \<leftarrow> ripemd160_done md;
     Some out
   }"


section \<open>The tables are what their comments say\<close>

definition rmd_rho :: "nat \<Rightarrow> nat" where
  "rmd_rho i = [7, 4, 13, 1, 10, 6, 15, 3, 12, 0, 9, 5, 2, 14, 11, 8] ! i"

definition rmd_pi :: "nat \<Rightarrow> nat" where
  "rmd_pi i = (9 * i + 5) mod 16"

text \<open>\<open>c = floor (2 ^ 30 * root k n)\<close> on natural numbers.\<close>

definition root_const :: "nat \<Rightarrow> nat \<Rightarrow> nat \<Rightarrow> bool" where
  "root_const k n c \<longleftrightarrow> c ^ k \<le> (2 ^ 30) ^ k * n \<and> (2 ^ 30) ^ k * n < (c + 1) ^ k"

lemma RL_rho: "RL = map (\<lambda>k. map (rmd_rho ^^ k) [0..<16]) [0..<5]"
  by code_simp

lemma RR_rho: "RR = map (\<lambda>k. map (\<lambda>i. (rmd_rho ^^ k) (rmd_pi i)) [0..<16]) [0..<5]"
  by code_simp

lemma RL_nth: "k < 5 \<Longrightarrow> w < 16 \<Longrightarrow> RL ! k ! w = (rmd_rho ^^ k) w"
  by (simp add: RL_rho)

lemma RR_nth: "k < 5 \<Longrightarrow> w < 16 \<Longrightarrow> RR ! k ! w = (rmd_rho ^^ k) (rmd_pi w)"
  by (simp add: RR_rho)

text \<open>The message-word tables are the powers of rho, composed with pi on the right line; the
  round constants are the scaled square and cube roots; every table row has sixteen
  entries and every shift lies strictly between 0 and 32.\<close>

theorem ripemd160_tables:
  "RL = map (\<lambda>k. map (rmd_rho ^^ k) [0..<16]) [0..<5] \<and>
   RR = map (\<lambda>k. map (\<lambda>i. (rmd_rho ^^ k) (rmd_pi i)) [0..<16]) [0..<5] \<and>
   list_all2 (root_const 2) [2, 3, 5, 7] (map unat (tl KL)) \<and> hd KL = 0 \<and>
   list_all2 (root_const 3) [2, 3, 5, 7] (map unat (butlast KR)) \<and> last KR = 0 \<and>
   list_all (\<lambda>row. length row = 16 \<and> list_all (\<lambda>s. 0 < s \<and> s < 32) row) (SL @ SR) \<and>
   length SL = 5 \<and> length SR = 5"
proof (intro conjI)
  show "list_all2 (root_const 2) [2, 3, 5, 7] (map unat (tl KL))"
    by (simp add: KL_def root_const_def)
  show "list_all2 (root_const 3) [2, 3, 5, 7] (map unat (butlast KR))"
    by (simp add: KR_def root_const_def)
qed (simp_all add: RL_rho [symmetric] RR_rho [symmetric] KL_def KR_def SL_def SR_def)

section \<open>The compression function is the 80-step reference function\<close>

definition rmd_f :: "nat \<Rightarrow> u32 \<Rightarrow> u32 \<Rightarrow> u32 \<Rightarrow> u32" where
  "rmd_f j = (if j < 16 then F1 else if j < 32 then F2 else if j < 48 then F3
              else if j < 64 then F4 else F5)"

definition ref_step ::
  "(nat \<Rightarrow> u32 \<Rightarrow> u32 \<Rightarrow> u32 \<Rightarrow> u32) \<Rightarrow> u32 list \<Rightarrow> nat list list \<Rightarrow> (nat \<Rightarrow> nat) \<Rightarrow> (nat \<Rightarrow> u32)
     \<Rightarrow> rmd_line \<Rightarrow> nat \<Rightarrow> rmd_line" where
  "ref_step f K S r X = (\<lambda>(A, B, C, D, E) j.
     (E, ROL (S ! (j div 16) ! (j mod 16)) (A + f j B C D + X (r j) + K ! (j div 16)) + E, B, ROL 10 C, D))"

definition ref_compress :: "u32 list \<Rightarrow> (nat \<Rightarrow> u32) \<Rightarrow> u32 list" where
  "ref_compress h X =
    (let l0 = (h ! 0, h ! 1, h ! 2, h ! 3, h ! 4);
         (A, B, C, D, E) = foldl (ref_step rmd_f KL SL (\<lambda>j. (rmd_rho ^^ (j div 16)) (j mod 16)) X) l0 [0..<80];
         (A', B', C', D', E') = foldl (ref_step (\<lambda>j. rmd_f (79 - j)) KR SR
             (\<lambda>j. (rmd_rho ^^ (j div 16)) (rmd_pi (j mod 16))) X) l0 [0..<80]
     in [h ! 1 + C + D', h ! 2 + D + E', h ! 3 + E + A', h ! 4 + A + B', h ! 0 + B + C'])"

lemma upt_80: "[0..<80] = [16 * 0..<16 * 0 + 16] @ [16 * 1..<16 * 1 + 16] @ [16 * 2..<16 * 2 + 16]
    @ [16 * 3..<16 * 3 + 16] @ [16 * 4..<16 * 4 + (16 :: nat)]"
  by (simp add: upt_add_eq_append [symmetric] upt_rec)

lemma foldl_upt_shift: "foldl g l [a..<a + n] = foldl (\<lambda>l w. g l (a + w)) l [0..<n :: nat]"
  by (induction n) simp_all

lemma foldl_ref_round:
  assumes "\<And>w B C D. w < 16 \<Longrightarrow> f (16 * k + w) B C D = F B C D"
    and "\<And>w. w < 16 \<Longrightarrow> r (16 * k + w) = R ! k ! w"
  shows "foldl (ref_step f K S r (\<lambda>i. load32_le (drop (4 * i) buf))) l [16 * k..<16 * k + 16]
           = rmd_loop F K R S buf k l"
  unfolding foldl_upt_shift rmd_loop_def
  by (rule foldl_cong) (auto simp: ref_step_def rmd_step_def Let_def assms)

lemma rmd_f_left: "k < 5 \<Longrightarrow> w < 16 \<Longrightarrow> rmd_f (16 * k + w) = [F1, F2, F3, F4, F5] ! k"
proof -
  assume w: "w < 16" and "k < 5"
  then consider "k = 0" | "k = 1" | "k = 2" | "k = 3" | "k = 4" by linarith
  then show ?thesis by cases (use w in \<open>simp_all add: rmd_f_def\<close>)
qed

lemma rmd_f_right: "k < 5 \<Longrightarrow> w < 16 \<Longrightarrow> rmd_f (79 - (16 * k + w)) = [F5, F4, F3, F2, F1] ! k"
proof -
  assume w: "w < 16" and k: "k < 5"
  have "79 - (16 * k + w) = 16 * (4 - k) + (15 - w)"
    using w k by (simp add: diff_mult_distrib2)
  moreover have "[F5, F4, F3, F2, F1] ! k = [F1, F2, F3, F4, F5] ! (4 - k)"
    using k by (auto simp: less_Suc_eq numeral_eq_Suc)
  ultimately show ?thesis using k rmd_f_left [of "4 - k" "15 - w"] by simp
qed

lemma compress_lines_ref: "compress_lines h buf = ref_compress h (\<lambda>i. load32_le (drop (4 * i) buf))"
proof -
  let ?X = "\<lambda>i. load32_le (drop (4 * i) buf)"
  let ?L = "ref_step rmd_f KL SL (\<lambda>j. (rmd_rho ^^ (j div 16)) (j mod 16)) ?X"
  let ?R = "ref_step (\<lambda>j. rmd_f (79 - j)) KR SR (\<lambda>j. (rmd_rho ^^ (j div 16)) (rmd_pi (j mod 16))) ?X"
  have L: "foldl ?L l [16 * k..<16 * k + 16] = rmd_loop ([F1, F2, F3, F4, F5] ! k) KL RL SL buf k l"
    if "k < 5" for k l
    by (rule foldl_ref_round) (use that in \<open>simp_all add: RL_nth rmd_f_left\<close>)
  have R: "foldl ?R l [16 * k..<16 * k + 16] = rmd_loop ([F5, F4, F3, F2, F1] ! k) KR RR SR buf k l"
    if "k < 5" for k l
    by (rule foldl_ref_round) (use that in \<open>simp_all add: RR_nth rmd_f_right\<close>)
  have five: "0 < (5 :: nat)" "1 < (5 :: nat)" "2 < (5 :: nat)" "3 < (5 :: nat)" "4 < (5 :: nat)"
    "[a, b, c, d, e] ! 0 = a" "[a, b, c, d, e] ! 1 = b" "[a, b, c, d, e] ! 2 = c"
    "[a, b, c, d, e] ! 3 = d" "[a, b, c, d, e] ! 4 = e" for a b c d e :: "u32 \<Rightarrow> u32 \<Rightarrow> u32 \<Rightarrow> u32"
    by simp_all
  have L5: "foldl ?L l [0..<80] = rmd_loop F5 KL RL SL buf 4 (rmd_loop F4 KL RL SL buf 3
      (rmd_loop F3 KL RL SL buf 2 (rmd_loop F2 KL RL SL buf 1 (rmd_loop F1 KL RL SL buf 0 l))))" for l
    by (simp only: upt_80 foldl_append L five)
  have R5: "foldl ?R l [0..<80] = rmd_loop F1 KR RR SR buf 4 (rmd_loop F2 KR RR SR buf 3
      (rmd_loop F3 KR RR SR buf 2 (rmd_loop F4 KR RR SR buf 1 (rmd_loop F5 KR RR SR buf 0 l))))" for l
    by (simp only: upt_80 foldl_append R five)
  show ?thesis
    unfolding compress_lines_def ref_compress_def Let_def L5 R5 ..
qed

section \<open>Streaming: a context represents the bytes it was fed\<close>

definition rmd_compress :: "u32 list \<Rightarrow> byte list \<Rightarrow> u32 list" where
  "rmd_compress h blk = ref_compress h (\<lambda>i. load32_le (drop (4 * i) blk))"

text \<open>The padding of the MD4 family: a one bit, zeros up to 56 bytes modulo 64, and the
  length in bits as a little-endian 64-bit number.\<close>

definition rmd_padding :: "nat \<Rightarrow> byte list" where
  "rmd_padding n = md_pad 64 8 n (store64_le (of_nat (8 * n)))"

definition rmd160_spec :: "byte list \<Rightarrow> byte list" where
  "rmd160_spec m =
     concat (map store32_le (blocks_fold 64 rmd_compress initial_h (m @ rmd_padding (length m))))"

definition rmd_rep :: "ripemd160_state \<Rightarrow> byte list \<Rightarrow> bool" where
  "rmd_rep s m \<longleftrightarrow>
     md_h s = blocks_fold 64 rmd_compress initial_h m \<and>
     md_length s = of_nat (8 * length m) \<and>
     md_bufpos s = length m mod 64 \<and>
     md_buf s = tail_bytes 64 m @ replicate (64 - length m mod 64) 0"

lemma compress_lines_rmd: "compress_lines = rmd_compress"
  by (simp add: fun_eq_iff rmd_compress_def compress_lines_ref)

lemma compress_full [simp]:
  "md_bufpos s = 64 \<Longrightarrow> ripemd160_compress s =
     Some (s\<lparr>md_h := rmd_compress (md_h s) (md_buf s), md_buf := replicate 64 0, md_bufpos := 0\<rparr>)"
  by (simp add: ripemd160_compress_def compress_lines_rmd)

lemma rmd_rep_init: "rmd_rep ripemd160_init []"
  by (simp add: rmd_rep_def ripemd160_init_def)

lemma rmd_rep_process:
  "rmd_rep s m \<Longrightarrow> \<exists>s'. process_loop s p = Some s' \<and> rmd_rep s' (m @ p)"
proof (induction s p arbitrary: m rule: process_loop.induct)
  case (1 s p)
  let ?r = "length m mod 64" and ?n = "64 - length m mod 64"
  note rep = "1.prems" [unfolded rmd_rep_def]
  have r: "?r < 64" by simp
  consider "p = []" | "p \<noteq> []" "length p < ?n" | "p \<noteq> []" "?n \<le> length p" by linarith
  then show ?case
  proof cases
    case 1
    with rep show ?thesis by (simp add: process_loop.simps rmd_rep_def)
  next
    case 2
    have "?r + length p < 64" using 2 by simp
    note part = blocks_fold_partial(1) [OF _ this, where f = rmd_compress and h = initial_h]
      blocks_fold_partial(2,3) [OF _ this]
    let ?s = "s\<lparr>md_buf := write_at (md_buf s) (md_bufpos s) p, md_bufpos := md_bufpos s + length p,
        md_length := md_length s + push_bit 3 (of_nat (length p))\<rparr>"
    have "process_loop s p = Some ?s"
      using 2 rep by (simp add: process_loop.simps [of s p] Let_def)
    moreover have "rmd_rep ?s (m @ p)"
      using 2 rep part by (simp add: rmd_rep_def write_at_def push_bit3 algebra_simps)
    ultimately show ?thesis by blast
  next
    case 3
    let ?c = "take ?n p"
    have "?r + length ?c = 64" using 3 r by simp
    note full = blocks_fold_fill(1) [OF _ this, where f = rmd_compress and h = initial_h]
      blocks_fold_fill(2) [OF _ this]
    let ?s1 = "s\<lparr>md_buf := write_at (md_buf s) (md_bufpos s) ?c, md_bufpos := md_bufpos s + ?n,
        md_length := md_length s + push_bit 3 (of_nat ?n)\<rparr>"
    let ?s2 = "?s1\<lparr>md_h := rmd_compress (md_h ?s1) (md_buf ?s1), md_buf := replicate 64 0, md_bufpos := 0\<rparr>"
    have c: "ripemd160_compress ?s1 = Some ?s2"
      using rep r by simp
    have "rmd_rep ?s2 (m @ ?c)"
      using 3 rep full by (simp add: rmd_rep_def write_at_def push_bit3 algebra_simps)
    moreover have step: "process_loop s p = process_loop ?s2 (drop ?n p)"
      using 3 rep c by (simp add: process_loop.simps [of s p] Let_def del: compress_full)
    ultimately obtain s' where "process_loop ?s2 (drop ?n p) = Some s'" "rmd_rep s' ((m @ ?c) @ drop ?n p)"
      using "1.IH" [of ?n ?s2 "m @ ?c"] 3 rep c by auto
    then show ?thesis
      using step by auto
  qed
qed

lemma ripemd160_process_rep:
  "rmd_rep s m \<Longrightarrow> \<exists>s'. ripemd160_process s (Some p) = Some s' \<and> rmd_rep s' (m @ p)"
  using rmd_rep_process [of s m p] by (simp add: ripemd160_process_def rmd_rep_def)


lemma store32_le_halves:
  "store32_le (ucast (w AND 0xFFFFFFFF)) @ store32_le (ucast (drop_bit 32 (w :: u64) AND 0xFFFFFFFF))
     = store64_le w"
proof -
  have m: "(0xFFFFFFFF :: u64) = mask 32" by (simp add: mask_eq_exp_minus_1)
  have "ucast (drop_bit j (ucast (w AND mask 32) :: u32)) = (ucast (drop_bit j w) :: byte)"
    "ucast (drop_bit j (ucast (drop_bit 32 w AND mask 32) :: u32)) = (ucast (drop_bit (32 + j) w) :: byte)"
    if "j < 25" for j
    by (rule bit_word_eqI; use that in \<open>auto simp: bit_simps ac_simps\<close>)+
  from this [of 0] this [of 8] this [of 16] this [of 24] show ?thesis
    unfolding m by (simp add: store32_le_def store64_le_def)
qed

lemma rmd_padding_split:
  "n mod 64 < 56 \<Longrightarrow> rmd_padding n = 0x80 # replicate (55 - n mod 64) 0 @ store64_le (of_nat (8 * n))"
  "56 \<le> n mod 64 \<Longrightarrow> rmd_padding n =
      (0x80 # replicate (63 - n mod 64) 0) @ (replicate 56 0 @ store64_le (of_nat (8 * n)))"
  unfolding rmd_padding_def by (simp_all add: md_pad_one md_pad_two)

lemma write_length_words:
  assumes "length P = 56" "length a = 4" "length b = 4"
  shows "write_at (write_at (P @ replicate 8 z) 56 a) 60 b = P @ a @ b"
  using assms by (simp add: write_at_def)

lemma rmd_rep_done:
  assumes "rmd_rep s m"
  shows "\<exists>s'. ripemd160_done s = Some (s', rmd160_spec m)"
proof -
  let ?r = "length m mod 64" and ?L = "of_nat (8 * length m) :: u64"
  let ?t = "tail_bytes 64 m" and ?h = "blocks_fold 64 rmd_compress initial_h m"
  have r: "?r < 64" by simp
  note rep = assms [unfolded rmd_rep_def]
  have buf: "(?t @ replicate (64 - ?r) 0)[?r := 0x80] = ?t @ 0x80 # replicate (63 - ?r) 0"
    using r by (simp add: list_update_append Suc_diff_Suc [symmetric])
  have spec: "rmd160_spec m = concat (map store32_le (blocks_fold 64 rmd_compress ?h (?t @ rmd_padding (length m))))"
    unfolding rmd160_spec_def by (subst blocks_fold_append) simp_all
  show ?thesis
  proof (cases "?r < 56")
    case True
    let ?P = "?t @ 0x80 # replicate (55 - ?r) 0"
    have "63 - ?r = (55 - ?r) + 8" using True by simp
    then have buf': "?t @ 0x80 # replicate (63 - ?r) 0 = ?P @ replicate 8 0"
      by (simp only: replicate_add) simp
    have "length ?P = 56" using True by simp
    note w = write_length_words [OF this]
    show ?thesis
      unfolding ripemd160_done_def spec rmd_padding_split(1) [OF True]
      using rep True w by (simp add: buf [unfolded buf'] Let_def store32_le_halves blocks_fold_one)
  next
    case False
    have "write_at (write_at (replicate 64 0) 56 a) 60 b = replicate 56 0 @ a @ b"
      if "length a = 4" "length b = 4" for a b :: "byte list"
      using write_length_words [of "replicate 56 0" a b 0] that by (simp add: replicate_add [symmetric])
    note w = this
    note blk = blocks_fold_block [of "?t @ 0x80 # replicate (63 - ?r) 0" 64 rmd_compress ?h, simplified]
    show ?thesis
      unfolding ripemd160_done_def spec rmd_padding_split(2) [OF False [unfolded not_less]]
      using rep False r by (simp add: buf Let_def w store32_le_halves blk blocks_fold_one)
  qed
qed


interpretation rmd: streaming "\<lambda>_. True" "\<lambda>_. ripemd160_init" "\<lambda>s p. ripemd160_process s (Some p)" ripemd160_done
  rmd_rep "\<lambda>_. True" rmd160_spec
  by unfold_locales (auto intro: rmd_rep_init ripemd160_process_rep dest: rmd_rep_done)

lemma ref_compress_length: "length (rmd_compress h b) = 5"
  by (simp add: rmd_compress_def ref_compress_def Let_def split: prod.split)

lemma length_blocks_fold_rmd:
  "length h = 5 \<Longrightarrow> length (blocks_fold 64 rmd_compress h m) = 5"
  by (induction "64 :: nat" rmd_compress h m rule: blocks_fold.induct)
    (simp add: blocks_fold.simps ref_compress_length)

lemma rmd160_spec_length: "length (rmd160_spec m) = 20"
  by (simp add: rmd160_spec_def length_concat o_def length_blocks_fold_rmd initial_h_def
      comp_def sum_list_triv)


lemma ripemd160_eq: "ripemd160 (Some m) = Some (rmd160_spec m)"
proof -
  obtain s where s: "ripemd160_process ripemd160_init (Some m) = Some s" "rmd_rep s m"
    using ripemd160_process_rep [OF rmd_rep_init, of m] by auto
  then obtain s' where "ripemd160_done s = Some (s', rmd160_spec m)"
    using rmd_rep_done by blast
  with s show ?thesis by (simp add: ripemd160_def)
qed

lemma ripemd160_null: "ripemd160 None = None"
  by (simp add: ripemd160_def ripemd160_process_def)

section \<open>Properties\<close>

text \<open>Feeding a message to \<^verbatim>\<open>ripemd160_process\<close> in any chunks and calling
  \<^verbatim>\<open>ripemd160_done\<close> never trips an assertion (no chunk is the null pointer) and returns the RIPEMD-160 digest of the
  whole message: the reference compression iterated over the padded message.\<close>

theorem ripemd160_stream_digest:
  "map_option snd (Option.bind (feed (\<lambda>s p. ripemd160_process s (Some p)) ripemd160_init cs) ripemd160_done)
     = Some (rmd160_spec (concat cs))"
  by (rule rmd.digest_feed) (simp_all add: list_all_iff)

text \<open>C20: the one-shot \<^verbatim>\<open>ripemd160\<close> returns for every input that is not the null pointer, with the 20-byte digest of the
  bytes; a null pointer fails the assertion of \<^verbatim>\<open>ripemd160_process\<close>, also for the length 0.\<close>

theorem ripemd160_correct:
  "ripemd160 (Some m) = Some (rmd160_spec m) \<and> length (rmd160_spec m) = 20 \<and> ripemd160 None = None"
  by (simp add: ripemd160_eq rmd160_spec_length ripemd160_null)

text \<open>C21: The unrolled two-line compression function with its table lookups equals the
  80-step reference function stated with the permutations rho and pi.\<close>

theorem ripemd160_compress_reference:
  "ripemd160_compress s =
     (if md_bufpos s = 64 then
        Some (s\<lparr>md_h := ref_compress (md_h s) (\<lambda>i. load32_le (drop (4 * i) (md_buf s))),
                md_buf := replicate 64 0, md_bufpos := 0\<rparr>)
      else None)"
  by (simp add: ripemd160_compress_def compress_lines_ref)

lemma rmd_rep_h_length: "rmd_rep s m \<Longrightarrow> length (md_h s) = 5"
  by (simp add: rmd_rep_def length_blocks_fold_rmd initial_h_def)

text \<open>On a big-endian build \<^verbatim>\<open>ripemd160_done\<close> calls \<^verbatim>\<open>byteswap_digest\<close> on the chaining
  value; the loop swaps sixteen words, and the chaining value of every state reached by
  \<^verbatim>\<open>ripemd160_process\<close> has only five, so the call runs past the array.\<close>

theorem byteswap_digest_overruns:
  "ripemd160_process ripemd160_init (Some m) = Some s \<Longrightarrow> byteswap_digest (md_h s) = None"
  using ripemd160_process_rep [OF rmd_rep_init, of m]
  by (auto simp: byteswap_digest_def dest: rmd_rep_h_length)

theorem byteswap_digest_overruns_witness:
  "ripemd160_process ripemd160_init (Some []) = Some ripemd160_init \<and> byteswap_digest (md_h ripemd160_init) = None"
proof -
  have h: "ripemd160_process ripemd160_init (Some []) = Some ripemd160_init"
    by (simp add: ripemd160_process_def ripemd160_init_def process_loop.simps)
  from h byteswap_digest_overruns [OF h] show ?thesis by simp
qed

end
