(* ===== verification/Limbs.thy ===== *)
theory Limbs
  imports Prelude
begin

unbundle bit_operations_syntax

text \<open>
  Arithmetic on numbers cut into limbs: 64-bit limbs with 128-bit products, masks and shifts read as
  operations on natural numbers. Shared by Poly1305 and the field of Curve25519.
\<close>

type_synonym u128 = "128 word"

named_theorems limb_nat \<open>limb operations as natural numbers\<close>

text \<open>The macros of \<^verbatim>\<open>ed25519-donna-portable.h\<close> for a native 128-bit type.\<close>

definition mul64x64_128 :: "u64 \<Rightarrow> u64 \<Rightarrow> u128" where
  "mul64x64_128 a b = ucast a * ucast b"

definition shr128 :: "u128 \<Rightarrow> nat \<Rightarrow> u64" where
  "shr128 inp shift = ucast (drop_bit shift inp)"

definition shl128 :: "u128 \<Rightarrow> nat \<Rightarrow> u64" where
  "shl128 inp shift = ucast (drop_bit 64 (push_bit shift inp))"

definition add128_64 :: "u128 \<Rightarrow> u64 \<Rightarrow> u128" where
  "add128_64 a b = a + ucast b"

definition lo128 :: "u128 \<Rightarrow> u64" where
  "lo128 a = ucast a"

lemma unat_shr [limb_nat]: "unat (drop_bit n (w :: 'w :: len word)) = unat w div 2 ^ n"
  by (simp only: unat_drop_bit_eq) (simp add: drop_bit_eq_div)

lemma unat_u128_of_u64 [limb_nat]: "unat (ucast (d :: u64) :: u128) = unat d"
  using unsigned_less [of d, where 'a = nat] by (simp add: unsigned_ucast_eq take_bit_nat_eq_self)

lemma unat_wide_mult [limb_nat]: "unat (ucast (x :: u64) * ucast (y :: u64) :: u128) = unat x * unat y"
proof -
  have "unat x * unat y < 2 ^ 64 * 2 ^ 64"
    using unsigned_less [of x, where 'a = nat] unsigned_less [of y, where 'a = nat] by (intro mult_strict_mono) simp_all
  then show ?thesis by (simp add: unat_word_ariths(2) unat_u128_of_u64)
qed

lemma unat_u64_of_u128 [limb_nat]: "unat (ucast (d :: u128) :: u64) = unat d mod 2 ^ 64"
  by (simp add: unsigned_ucast_eq take_bit_eq_mod)

lemma u64_bound: "unat (w :: u64) < 2 ^ 64"
  using unsigned_less [of w, where 'a = nat] by simp

lemma limb_mult_mono: "a < (x :: nat) \<Longrightarrow> b < y \<Longrightarrow> a * b < x * y"
  by (rule mult_strict_mono) simp_all

lemma unat_carry_out: "unat d div 2 ^ n < 2 ^ 64 \<Longrightarrow> unat (ucast (drop_bit n (d :: u128)) :: u64) = unat d div 2 ^ n"
  by (simp add: unat_u64_of_u128 unat_shr)

lemma mod_le_pred: "0 < k \<Longrightarrow> x mod k \<le> k - (1 :: nat)"
  using mod_less_divisor [of k x] by linarith

lemma unat_or_disjoint:
  fixes a b :: u64
  assumes "unat a < 2 ^ k" "k \<le> 64"
  shows "unat (a OR push_bit k b) = unat a + 2 ^ k * (unat b mod 2 ^ (64 - k))"
proof -
  have a: "take_bit k a = a" using assms(1) by (simp add: word_unat_eq_iff unsigned_take_bit_eq take_bit_nat_eq_self)
  have lt: "n < k" if "bit a n" for n using that a by (metis bit_take_bit_iff)
  then have "a AND push_bit k b = 0"
    by (intro bit_word_eqI) (auto simp: bit_and_iff bit_push_bit_iff dest!: lt)
  then have "a OR push_bit k b = a + push_bit k b" by (rule disjunctive_add_eq_or [symmetric])
  moreover have pb: "unat (push_bit k b) = 2 ^ k * (unat b mod 2 ^ (64 - k))"
    using mult_mod_right [of "2 ^ k" "unat b" "2 ^ (64 - k)"] assms(2)
    by (simp only: unsigned_push_bit_eq) (simp add: take_bit_eq_mod push_bit_eq_mult mult.commute flip: power_add)
  moreover have "unat a + 2 ^ k * (unat b mod 2 ^ (64 - k)) < 2 ^ 64"
  proof -
    have "unat b mod 2 ^ (64 - k) + 1 \<le> 2 ^ (64 - k)" using mod_less_divisor [of "2 ^ (64 - k)" "unat b"]
      by (simp add: Suc_le_eq)
    then have "2 ^ k * (unat b mod 2 ^ (64 - k) + 1) \<le> 2 ^ k * 2 ^ (64 - k)" by (rule mult_le_mono2)
    also have "\<dots> = (2 ^ 64 :: nat)" using assms(2) by (simp flip: power_add)
    finally show ?thesis using assms(1) by simp
  qed
  ultimately show ?thesis using unat_sum_small [of a "push_bit k b"] by simp
qed

lemma mod_split_low: "a < K \<Longrightarrow> (a + K * b) mod (K * L) = a + K * (b mod (L :: nat))"
  by (simp add: mod_mult2_eq)

lemma limb_split: "unat (w :: 'a :: len word) = 2 ^ k * unat (drop_bit k w) + unat (take_bit k w)"
  unfolding unat_shr unsigned_take_bit_eq by (simp add: take_bit_eq_mod)

lemma limb_low: "unat (take_bit k (w :: 'a :: len word)) \<le> 2 ^ k - 1"
  unfolding unsigned_take_bit_eq using mod_le_pred [of "2 ^ k" "unat w"] by (simp add: take_bit_eq_mod)

lemma unat_add_u64: "unat a + unat b < 2 ^ 64 \<Longrightarrow> unat (a + b :: u64) = unat a + unat b"
  by (subst unat_sum_small) simp_all

lemma unat_mult_u64: "unat a * unat b < 2 ^ 64 \<Longrightarrow> unat (a * b :: u64) = unat a * unat b"
  by (simp add: unat_word_ariths(2))

lemma unat_sub_u64: "unat b \<le> unat a \<Longrightarrow> unat (a - b :: u64) = unat a - unat b"
  by (simp add: unat_sub word_le_nat_alt)

lemma unat_mul64x64_128 [limb_nat]: "unat (mul64x64_128 a b) = unat a * unat b"
  unfolding mul64x64_128_def by (rule unat_wide_mult)

lemma unat_add_u128: "unat a + unat b < 2 ^ 128 \<Longrightarrow> unat (a + b :: u128) = unat a + unat b"
  by (subst unat_sum_small) simp_all

lemma mul64x64_128_of_nat: "mul64x64_128 a b = of_nat (unat a * unat b)"
  by (simp add: mul64x64_128_def)

lemma unat_of_nat_u128: "n < 2 ^ 128 \<Longrightarrow> unat (of_nat n :: u128) = n"
  by (simp add: unat_of_nat)

lemma unat_shr_less: "unat (drop_bit k (w :: u64)) < 2 ^ (64 - k)" if "k \<le> 64"
  using u64_bound [of w] less_mult_imp_div_less [of "unat w" "2 ^ (64 - k)" "2 ^ k"] that
  by (simp add: unat_shr power_add [symmetric])

lemma div_mod_of_sum: "s < k \<Longrightarrow> a = s + k * q \<Longrightarrow> a div k = q" "s < k \<Longrightarrow> a = s + k * q \<Longrightarrow> a mod k = (s :: nat)"
  by simp_all

lemma concat_chunks: "concat (map (\<lambda>i. take n (drop (n * i) xs)) [0..<k]) = take (n * k) xs"
  by (induction k) (simp_all add: take_add [symmetric] add.commute)

lemma unat_limb_join:
  fixes a b :: u64
  assumes "unat a < 2 ^ k" "k \<le> m" "m \<le> 64"
  shows "unat (take_bit m (a OR push_bit k b)) = unat a + 2 ^ k * (unat b mod 2 ^ (m - k))"
proof -
  have "unat (take_bit m (a OR push_bit k b)) = (unat a + 2 ^ k * (unat b mod 2 ^ (64 - k))) mod (2 ^ k * 2 ^ (m - k))"
    unfolding unsigned_take_bit_eq using unat_or_disjoint [OF assms(1), of b] assms(2,3)
    by (simp add: take_bit_eq_mod power_add [symmetric])
  also have "\<dots> = unat a + 2 ^ k * (unat b mod 2 ^ (64 - k) mod 2 ^ (m - k))" by (rule mod_split_low [OF assms(1)])
  also have "unat b mod 2 ^ (64 - k) mod 2 ^ (m - k) = unat b mod 2 ^ (m - k)"
    using assms(3) by (intro mod_mod_cancel le_imp_power_dvd) simp
  finally show ?thesis .
qed

lemma unat_load_word: "i + 8 \<le> length xs \<Longrightarrow> unat (load64_le (drop i xs)) = le_nat (take 8 (drop i xs))"
proof -
  assume "i + 8 \<le> length xs"
  then have "store64_le (load64_le (take 8 (drop i xs))) = take 8 (drop i xs)" by (intro store64_le_load) simp
  then show ?thesis by (metis le_nat_store(1) load64_le_take)
qed

lemma le_nat_zeros [simp]: "le_nat (replicate n 0) = 0"
  by (induction n) simp_all

lemma le_nat_split: "k \<le> length xs \<Longrightarrow> le_nat xs = le_nat (take k xs) + 256 ^ k * le_nat (drop k xs)"
  using le_nat_append [of "take k xs" "drop k xs"] by simp

text \<open>A buffer of 32 bytes as four words.\<close>

lemma le_nat_words:
  assumes "length inp = 32"
  shows "le_nat inp = unat (load64_le inp) + 2 ^ 64 * unat (load64_le (drop 8 inp))
    + 2 ^ 128 * unat (load64_le (drop 16 inp)) + 2 ^ 192 * unat (load64_le (drop 24 inp))"
  using assms le_nat_split [of 8 inp] le_nat_split [of 8 "drop 8 inp"] le_nat_split [of 8 "drop 16 inp"]
    unat_load_word [of 0 inp] unat_load_word [of 8 inp] unat_load_word [of 16 inp] unat_load_word [of 24 inp]
  by simp

end
