(* ===== verification/Modm.thy ===== *)
theory Modm
  imports Limbs
begin

unbundle bit_operations_syntax

text \<open>
  The scalars of ed25519-donna: numbers modulo the group order \<open>m\<close> on five limbs of 56 bits
  (\<^verbatim>\<open>modm-donna-64bit.h\<close>), with Barrett reduction, the conversions from and to bytes, the recodings
  into signed digits and the helpers of batch verification.
\<close>

section \<open>Model\<close>

type_synonym bignum256modm = "u64 list"

definition modm_m :: bignum256modm where
  "modm_m = [0x12631a5cf5d3ed, 0xf9dea2f79cd658, 0x000000000014de, 0x00000000000000, 0x00000010000000]"

definition modm_mu :: bignum256modm where
  "modm_mu = [0x9ce5a30a2c131b, 0x215d086329a7ed, 0xffffffffeb2106, 0xffffffffffffff, 0x00000fffffffff]"

definition lt_modm :: "u64 \<Rightarrow> u64 \<Rightarrow> u64" where
  "lt_modm a b = drop_bit 63 (a - b)"

text \<open>The subtraction with borrows of \<^verbatim>\<open>reduce256_modm\<close> and \<^verbatim>\<open>barrett_reduce256_modm\<close>: the difference
  and the last borrow, which is added back at bit \<open>sh\<close> of the last limb.\<close>

definition sub_borrow :: "nat \<Rightarrow> bignum256modm \<Rightarrow> bignum256modm \<Rightarrow> bignum256modm \<times> u64" where
  "sub_borrow sh r s =
    (let pb = 0;
         pb = pb + s ! 0; b = lt_modm (r ! 0) pb; t0 = r ! 0 - pb + push_bit 56 b; pb = b;
         pb = pb + s ! 1; b = lt_modm (r ! 1) pb; t1 = r ! 1 - pb + push_bit 56 b; pb = b;
         pb = pb + s ! 2; b = lt_modm (r ! 2) pb; t2 = r ! 2 - pb + push_bit 56 b; pb = b;
         pb = pb + s ! 3; b = lt_modm (r ! 3) pb; t3 = r ! 3 - pb + push_bit 56 b; pb = b;
         pb = pb + s ! 4; b = lt_modm (r ! 4) pb; t4 = r ! 4 - pb + push_bit sh b
     in ([t0, t1, t2, t3, t4], b))"

definition reduce256_modm :: "bignum256modm \<Rightarrow> bignum256modm" where
  "reduce256_modm r =
    (let (t, b) = sub_borrow 32 r modm_m; mask = b - 1
     in [r ! 0 XOR (mask AND (r ! 0 XOR t ! 0)), r ! 1 XOR (mask AND (r ! 1 XOR t ! 1)), r ! 2 XOR (mask AND (r ! 2 XOR t ! 2)),
         r ! 3 XOR (mask AND (r ! 3 XOR t ! 3)), r ! 4 XOR (mask AND (r ! 4 XOR t ! 4))])"

text \<open>The two halves of \<^verbatim>\<open>barrett_reduce256_modm\<close>: the quotient estimate \<^verbatim>\<open>q3\<close> and the low part \<^verbatim>\<open>r2\<close> of its product
  with the modulus.\<close>

definition barrett_q3 :: "bignum256modm \<Rightarrow> bignum256modm" where
  "barrett_q3 q1 =
    (let c = mul64x64_128 (modm_mu ! 0) (q1 ! 3) + mul64x64_128 (modm_mu ! 3) (q1 ! 0) + mul64x64_128 (modm_mu ! 1) (q1 ! 2)
           + mul64x64_128 (modm_mu ! 2) (q1 ! 1); f = shr128 c 56;
         c = add128_64 (mul64x64_128 (modm_mu ! 0) (q1 ! 4)) f + mul64x64_128 (modm_mu ! 4) (q1 ! 0) + mul64x64_128 (modm_mu ! 3) (q1 ! 1)
           + mul64x64_128 (modm_mu ! 1) (q1 ! 3) + mul64x64_128 (modm_mu ! 2) (q1 ! 2);
         f = lo128 c; q30 = drop_bit 40 f AND 0xffff; f = shr128 c 56;
         c = add128_64 (mul64x64_128 (modm_mu ! 4) (q1 ! 1)) f + mul64x64_128 (modm_mu ! 1) (q1 ! 4) + mul64x64_128 (modm_mu ! 2) (q1 ! 3)
           + mul64x64_128 (modm_mu ! 3) (q1 ! 2);
         f = lo128 c; q30 = q30 OR (push_bit 16 f AND 0xffffffffffffff); q31 = drop_bit 40 f AND 0xffff; f = shr128 c 56;
         c = add128_64 (mul64x64_128 (modm_mu ! 4) (q1 ! 2)) f + mul64x64_128 (modm_mu ! 2) (q1 ! 4) + mul64x64_128 (modm_mu ! 3) (q1 ! 3);
         f = lo128 c; q31 = q31 OR (push_bit 16 f AND 0xffffffffffffff); q32 = drop_bit 40 f AND 0xffff; f = shr128 c 56;
         c = add128_64 (mul64x64_128 (modm_mu ! 4) (q1 ! 3)) f + mul64x64_128 (modm_mu ! 3) (q1 ! 4);
         f = lo128 c; q32 = q32 OR (push_bit 16 f AND 0xffffffffffffff); q33 = drop_bit 40 f AND 0xffff; f = shr128 c 56;
         c = add128_64 (mul64x64_128 (modm_mu ! 4) (q1 ! 4)) f;
         f = lo128 c; q33 = q33 OR (push_bit 16 f AND 0xffffffffffffff); q34 = drop_bit 40 f AND 0xffff; f = shr128 c 56;
         q34 = q34 OR push_bit 16 f
     in [q30, q31, q32, q33, q34])"

definition barrett_r2 :: "bignum256modm \<Rightarrow> bignum256modm" where
  "barrett_r2 q3 =
    (let c = mul64x64_128 (modm_m ! 0) (q3 ! 0);
         r20 = lo128 c AND 0xffffffffffffff; f = shr128 c 56;
         c = add128_64 (mul64x64_128 (modm_m ! 0) (q3 ! 1)) f + mul64x64_128 (modm_m ! 1) (q3 ! 0);
         r21 = lo128 c AND 0xffffffffffffff; f = shr128 c 56;
         c = add128_64 (mul64x64_128 (modm_m ! 0) (q3 ! 2)) f + mul64x64_128 (modm_m ! 2) (q3 ! 0) + mul64x64_128 (modm_m ! 1) (q3 ! 1);
         r22 = lo128 c AND 0xffffffffffffff; f = shr128 c 56;
         c = add128_64 (mul64x64_128 (modm_m ! 0) (q3 ! 3)) f + mul64x64_128 (modm_m ! 3) (q3 ! 0) + mul64x64_128 (modm_m ! 1) (q3 ! 2)
           + mul64x64_128 (modm_m ! 2) (q3 ! 1);
         r23 = lo128 c AND 0xffffffffffffff; f = shr128 c 56;
         c = add128_64 (mul64x64_128 (modm_m ! 0) (q3 ! 4)) f + mul64x64_128 (modm_m ! 4) (q3 ! 0) + mul64x64_128 (modm_m ! 3) (q3 ! 1)
           + mul64x64_128 (modm_m ! 1) (q3 ! 3) + mul64x64_128 (modm_m ! 2) (q3 ! 2);
         r24 = lo128 c AND 0x0000ffffffffff
     in [r20, r21, r22, r23, r24])"

definition barrett_reduce256_modm :: "bignum256modm \<Rightarrow> bignum256modm \<Rightarrow> bignum256modm" where
  "barrett_reduce256_modm q1 r1 =
    (let q3 = barrett_q3 q1; r2 = barrett_r2 q3; (r, b) = sub_borrow 40 r1 r2
     in reduce256_modm (reduce256_modm r))"

definition add256_modm :: "bignum256modm \<Rightarrow> bignum256modm \<Rightarrow> bignum256modm" where
  "add256_modm x y =
    (let c = x ! 0 + y ! 0;       r0 = c AND 0xffffffffffffff; c = drop_bit 56 c;
         c = c + (x ! 1 + y ! 1); r1 = c AND 0xffffffffffffff; c = drop_bit 56 c;
         c = c + (x ! 2 + y ! 2); r2 = c AND 0xffffffffffffff; c = drop_bit 56 c;
         c = c + (x ! 3 + y ! 3); r3 = c AND 0xffffffffffffff; c = drop_bit 56 c;
         c = c + (x ! 4 + y ! 4); r4 = c
     in reduce256_modm [r0, r1, r2, r3, r4])"

definition mul256_modm :: "bignum256modm \<Rightarrow> bignum256modm \<Rightarrow> bignum256modm" where
  "mul256_modm x y =
    (let c = mul64x64_128 (x ! 0) (y ! 0);
         f = lo128 c; r10 = f AND 0xffffffffffffff; f = shr128 c 56;
         c = add128_64 (mul64x64_128 (x ! 0) (y ! 1)) f + mul64x64_128 (x ! 1) (y ! 0);
         f = lo128 c; r11 = f AND 0xffffffffffffff; f = shr128 c 56;
         c = add128_64 (mul64x64_128 (x ! 0) (y ! 2)) f + mul64x64_128 (x ! 2) (y ! 0) + mul64x64_128 (x ! 1) (y ! 1);
         f = lo128 c; r12 = f AND 0xffffffffffffff; f = shr128 c 56;
         c = add128_64 (mul64x64_128 (x ! 0) (y ! 3)) f + mul64x64_128 (x ! 3) (y ! 0) + mul64x64_128 (x ! 1) (y ! 2) + mul64x64_128 (x ! 2) (y ! 1);
         f = lo128 c; r13 = f AND 0xffffffffffffff; f = shr128 c 56;
         c = add128_64 (mul64x64_128 (x ! 0) (y ! 4)) f + mul64x64_128 (x ! 4) (y ! 0) + mul64x64_128 (x ! 3) (y ! 1) + mul64x64_128 (x ! 1) (y ! 3)
           + mul64x64_128 (x ! 2) (y ! 2);
         f = lo128 c; r14 = f AND 0x0000ffffffffff; q10 = drop_bit 24 f AND 0xffffffff; f = shr128 c 56;
         c = add128_64 (mul64x64_128 (x ! 4) (y ! 1)) f + mul64x64_128 (x ! 1) (y ! 4) + mul64x64_128 (x ! 2) (y ! 3) + mul64x64_128 (x ! 3) (y ! 2);
         f = lo128 c; q10 = q10 OR (push_bit 32 f AND 0xffffffffffffff); q11 = drop_bit 24 f AND 0xffffffff; f = shr128 c 56;
         c = add128_64 (mul64x64_128 (x ! 4) (y ! 2)) f + mul64x64_128 (x ! 2) (y ! 4) + mul64x64_128 (x ! 3) (y ! 3);
         f = lo128 c; q11 = q11 OR (push_bit 32 f AND 0xffffffffffffff); q12 = drop_bit 24 f AND 0xffffffff; f = shr128 c 56;
         c = add128_64 (mul64x64_128 (x ! 4) (y ! 3)) f + mul64x64_128 (x ! 3) (y ! 4);
         f = lo128 c; q12 = q12 OR (push_bit 32 f AND 0xffffffffffffff); q13 = drop_bit 24 f AND 0xffffffff; f = shr128 c 56;
         c = add128_64 (mul64x64_128 (x ! 4) (y ! 4)) f;
         f = lo128 c; q13 = q13 OR (push_bit 32 f AND 0xffffffffffffff); q14 = drop_bit 24 f AND 0xffffffff; f = shr128 c 56;
         q14 = q14 OR push_bit 32 f
     in barrett_reduce256_modm [q10, q11, q12, q13, q14] [r10, r11, r12, r13, r14])"

text \<open>The input is copied into 64 zeroed bytes; the unused half of the C array \<^verbatim>\<open>x\<close> is left out.\<close>

definition expand256_modm :: "byte list \<Rightarrow> nat \<Rightarrow> bignum256modm" where
  "expand256_modm inp len =
    (let work = write_at (replicate 64 0) 0 (take len inp);
         x0 = load64_le work; x1 = load64_le (drop 8 work); x2 = load64_le (drop 16 work); x3 = load64_le (drop 24 work);
         x4 = load64_le (drop 32 work); x5 = load64_le (drop 40 work); x6 = load64_le (drop 48 work); x7 = load64_le (drop 56 work);
         out = [x0 AND 0xffffffffffffff,
                (drop_bit 56 x0 OR push_bit 8 x1) AND 0xffffffffffffff,
                (drop_bit 48 x1 OR push_bit 16 x2) AND 0xffffffffffffff,
                (drop_bit 40 x2 OR push_bit 24 x3) AND 0xffffffffffffff,
                (drop_bit 32 x3 OR push_bit 32 x4) AND 0x0000ffffffffff]
     in if len < 32 then out
        else let q1 = [(drop_bit 56 x3 OR push_bit 8 x4) AND 0xffffffffffffff,
                       (drop_bit 48 x4 OR push_bit 16 x5) AND 0xffffffffffffff,
                       (drop_bit 40 x5 OR push_bit 24 x6) AND 0xffffffffffffff,
                       (drop_bit 32 x6 OR push_bit 32 x7) AND 0xffffffffffffff,
                       drop_bit 24 x7]
             in barrett_reduce256_modm q1 out)"

definition expand_raw256_modm :: "byte list \<Rightarrow> bignum256modm" where
  "expand_raw256_modm inp =
    (let x0 = load64_le inp; x1 = load64_le (drop 8 inp); x2 = load64_le (drop 16 inp); x3 = load64_le (drop 24 inp)
     in [x0 AND 0xffffffffffffff,
         (drop_bit 56 x0 OR push_bit 8 x1) AND 0xffffffffffffff,
         (drop_bit 48 x1 OR push_bit 16 x2) AND 0xffffffffffffff,
         (drop_bit 40 x2 OR push_bit 24 x3) AND 0xffffffffffffff,
         drop_bit 32 x3 AND 0x000000ffffffff])"

definition contract256_modm :: "bignum256modm \<Rightarrow> byte list" where
  "contract256_modm inp =
     store64_le (inp ! 0 OR push_bit 56 (inp ! 1)) @ store64_le (drop_bit 8 (inp ! 1) OR push_bit 48 (inp ! 2))
     @ store64_le (drop_bit 16 (inp ! 2) OR push_bit 40 (inp ! 3)) @ store64_le (drop_bit 24 (inp ! 3) OR push_bit 32 (inp ! 4))"


section \<open>Values\<close>

definition group_order :: nat where
  "group_order = 2 ^ 252 + 27742317777372353535851937790883648493"

definition mval :: "bignum256modm \<Rightarrow> nat" where
  "mval x = unat (x ! 0) + 2 ^ 56 * unat (x ! 1) + 2 ^ 112 * unat (x ! 2) + 2 ^ 168 * unat (x ! 3) + 2 ^ 224 * unat (x ! 4)"

text \<open>Carried limbs, the last one at most \<open>b\<close>.\<close>

definition carried :: "nat \<Rightarrow> bignum256modm \<Rightarrow> bool" where
  "carried b x \<longleftrightarrow> length x = 5 \<and> (\<forall>i < 4. unat (x ! i) \<le> 2 ^ 56 - 1) \<and> unat (x ! 4) \<le> b"

text \<open>A reduced scalar.\<close>

definition modm_ok :: "bignum256modm \<Rightarrow> bool" where
  "modm_ok x \<longleftrightarrow> carried (2 ^ 32 - 1) x \<and> mval x < group_order"

lemma mval_limbs [simp]: "mval [x0, x1, x2, x3, x4]
   = unat x0 + 2 ^ 56 * unat x1 + 2 ^ 112 * unat x2 + 2 ^ 168 * unat x3 + 2 ^ 224 * unat x4"
  by (simp add: mval_def)

lemma all_less_4: "(\<forall>i < (4 :: nat). P i) \<longleftrightarrow> P 0 \<and> P 1 \<and> P 2 \<and> P 3"
  by (simp add: numeral_eq_Suc less_Suc_eq) blast

lemma carried_limbs [simp]:
  "carried b [x0, x1, x2, x3, x4] \<longleftrightarrow> unat x0 \<le> 2 ^ 56 - 1 \<and> unat x1 \<le> 2 ^ 56 - 1 \<and> unat x2 \<le> 2 ^ 56 - 1 \<and> unat x3 \<le> 2 ^ 56 - 1 \<and> unat x4 \<le> b"
  unfolding carried_def all_less_4 by simp

lemma carriedE:
  assumes "carried b x"
  obtains x0 x1 x2 x3 x4 where "x = [x0, x1, x2, x3, x4]"
    "unat x0 \<le> 2 ^ 56 - 1" "unat x1 \<le> 2 ^ 56 - 1" "unat x2 \<le> 2 ^ 56 - 1" "unat x3 \<le> 2 ^ 56 - 1" "unat x4 \<le> b"
proof -
  have "length x = 5" using assms by (simp add: carried_def)
  then obtain x0 x1 x2 x3 x4 where "x = [x0, x1, x2, x3, x4]"
    by (auto simp: numeral_eq_Suc length_Suc_conv)
  then show thesis using assms that unfolding \<open>x = _\<close> carried_limbs by blast
qed

lemma carried_mono: "carried b x \<Longrightarrow> b \<le> c \<Longrightarrow> carried c x"
  by (auto simp: carried_def)

lemma carried_top: "carried b x \<Longrightarrow> mval x < 2 ^ 224 * n \<Longrightarrow> carried (n - 1) x"
proof -
  assume a: "carried b x" "mval x < 2 ^ 224 * n"
  then have "2 ^ 224 * unat (x ! 4) < 2 ^ 224 * n" by (simp add: mval_def)
  then show "carried (n - 1) x" using a by (simp add: carried_def)
qed

lemma modm_m_value: "carried (2 ^ 28) modm_m" "mval modm_m = group_order"
  by (simp_all add: modm_m_def group_order_def)

lemma and_mask_56: "w AND 0xffffffffffffff = take_bit 56 (w :: u64)"
  and and_mask_40: "w AND 0x0000ffffffffff = take_bit 40 (w :: u64)"
  and and_mask_32: "w AND 0xffffffff = take_bit 32 (w :: u64)"
  and and_mask_16: "w AND 0xffff = take_bit 16 (w :: u64)"
  by (simp_all add: take_bit_eq_mask mask_eq_exp_minus_1)

subsection \<open>Subtraction with borrow\<close>

lemma unat_lt_modm:
  assumes "unat a < 2 ^ 63" "unat b < 2 ^ 63"
  shows "lt_modm a b = (if unat a < unat b then 1 else 0)"
proof (cases "unat a < unat b")
  case True
  have "unat (a - b) + unat b = unat a + 2 ^ 64"
    using True assms u64_bound [of b] unat_sub_if' [of a b] by (simp add: word_le_nat_alt)
  then have "2 ^ 63 \<le> unat (a - b)" "unat (a - b) < 2 ^ 64" using assms u64_bound [of "a - b"] by simp_all
  then have "unat (a - b) div 2 ^ 63 = 1" by (intro div_nat_eqI) simp_all
  then show ?thesis using True by (simp add: lt_modm_def word_unat_eq_iff unat_shr)
next
  case False
  then have "unat (a - b) = unat a - unat b" by (simp add: unat_sub_u64)
  then have "unat (a - b) div 2 ^ 63 = 0" using assms by simp
  then show ?thesis using False by (simp add: lt_modm_def word_unat_eq_iff unat_shr)
qed

lemma unat_two_power: "k < 64 \<Longrightarrow> unat (2 ^ k :: u64) = 2 ^ k"
  using unat_of_nat [where 'a = 64, of "2 ^ k"] power_strict_increasing [of k 64 "2 :: nat"] by simp

lemma borrow_step:
  assumes "unat a < 2 ^ 63" "unat pb < 2 ^ 63" "unat pb \<le> unat a + 2 ^ k" "k < 64"
  defines "b \<equiv> lt_modm a pb"
  shows "unat (a - pb + push_bit k b) + unat pb = unat a + 2 ^ k * unat b"
    and "unat b = (if unat a < unat pb then 1 else 0)"
proof -
  show b: "unat b = (if unat a < unat pb then 1 else 0)" unfolding b_def by (simp add: unat_lt_modm [OF assms(1,2)])
  show "unat (a - pb + push_bit k b) + unat pb = unat a + 2 ^ k * unat b"
  proof (cases "unat a < unat pb")
    case True
    then have "b = 1" unfolding b_def by (simp add: unat_lt_modm [OF assms(1,2)])
    then have eq: "a - pb + push_bit k b = 2 ^ k - (pb - a)" by (simp add: push_bit_eq_mult)
    have d: "unat (pb - a) = unat pb - unat a" using True by (simp add: unat_sub_u64)
    have p: "unat (2 ^ k :: u64) = 2 ^ k" using assms(4) by (rule unat_two_power)
    have "unat (2 ^ k - (pb - a) :: u64) = unat (2 ^ k :: u64) - unat (pb - a)"
      using assms(3,4) by (intro unat_sub_u64) (simp add: d p)
    then show ?thesis unfolding eq p d using True assms(3) b by simp
  next
    case False
    then have "b = 0" unfolding b_def by (simp add: unat_lt_modm [OF assms(1,2)])
    then show ?thesis using False by (simp add: unat_sub_u64)
  qed
qed

lemma borrow_less:
  fixes t :: nat
  assumes "t + ls = lr + K * b" "t < K"
  shows "lr + K * r < ls + K * s \<longleftrightarrow> r < b + s"
proof (cases "r < b + s")
  case True
  then have "K * Suc r \<le> K * (b + s)" by (intro mult_le_mono2) simp
  then show ?thesis using assms True by (simp add: distrib_left)
next
  case False
  then have "K * (b + s) \<le> K * r" by (intro mult_le_mono2) simp
  then show ?thesis using assms False by (simp add: distrib_left)
qed

lemma borrow_limb:
  fixes a x bp :: u64
  assumes "unat a \<le> 2 ^ 56 - 1" "unat x \<le> 2 ^ 56 - 1" "unat bp \<le> 1"
  defines "b \<equiv> lt_modm a (bp + x)"
  shows "unat (a - (bp + x) + push_bit 56 b) + (unat bp + unat x) = unat a + 2 ^ 56 * unat b
      \<and> unat b \<le> 1 \<and> unat (a - (bp + x) + push_bit 56 b) \<le> 2 ^ 56 - 1"
proof -
  have u: "unat (bp + x) = unat bp + unat x" using assms by (subst unat_add_u64) simp_all
  have l: "unat a < 2 ^ 63" "unat (bp + x) < 2 ^ 63" "unat (bp + x) \<le> unat a + 2 ^ 56" using assms by (simp_all add: u)
  show ?thesis using borrow_step [OF l] assms(1-3) unfolding b_def by (simp add: u split: if_splits)
qed

lemma sub_borrowE:
  assumes "carried c r" "carried d s" "c < 2 ^ 62" "d < 2 ^ 62" "sh < 62"
  obtains t0 t1 t2 t3 t4 b where "sub_borrow sh r s = ([t0, t1, t2, t3, t4], b)"
    "unat t0 \<le> 2 ^ 56 - 1" "unat t1 \<le> 2 ^ 56 - 1" "unat t2 \<le> 2 ^ 56 - 1" "unat t3 \<le> 2 ^ 56 - 1"
    "b = (if mval r < mval s then 1 else 0)"
    "d < 2 ^ sh \<or> mval s \<le> mval r \<Longrightarrow> mval [t0, t1, t2, t3, t4] + mval s = mval r + 2 ^ (224 + sh) * unat b"
proof -
  obtain r0 r1 r2 r3 r4 where r: "r = [r0, r1, r2, r3, r4]"
      "unat r0 \<le> 2 ^ 56 - 1" "unat r1 \<le> 2 ^ 56 - 1" "unat r2 \<le> 2 ^ 56 - 1" "unat r3 \<le> 2 ^ 56 - 1" "unat r4 \<le> c"
    using assms(1) by (rule carriedE)
  obtain s0 s1 s2 s3 s4 where s: "s = [s0, s1, s2, s3, s4]"
      "unat s0 \<le> 2 ^ 56 - 1" "unat s1 \<le> 2 ^ 56 - 1" "unat s2 \<le> 2 ^ 56 - 1" "unat s3 \<le> 2 ^ 56 - 1" "unat s4 \<le> d"
    using assms(2) by (rule carriedE)
  define b0 where "b0 = lt_modm r0 s0"
  define b1 where "b1 = lt_modm r1 (b0 + s1)"
  define b2 where "b2 = lt_modm r2 (b1 + s2)"
  define b3 where "b3 = lt_modm r3 (b2 + s3)"
  define b4 where "b4 = lt_modm r4 (b3 + s4)"
  have st0: "unat (r0 - s0 + push_bit 56 b0) + unat s0 = unat r0 + 2 ^ 56 * unat b0 \<and> unat b0 \<le> 1 \<and> unat (r0 - s0 + push_bit 56 b0) \<le> 2 ^ 56 - 1"
    using borrow_limb [of r0 s0 0] r s unfolding b0_def by simp
  note st1 = borrow_limb [of r1 s1 b0, folded b1_def] and st2 = borrow_limb [of r2 s2 b1, folded b2_def] and st3 = borrow_limb [of r3 s3 b2, folded b3_def]
  have S1: "unat (r1 - (b0 + s1) + push_bit 56 b1) + (unat b0 + unat s1) = unat r1 + 2 ^ 56 * unat b1 \<and> unat b1 \<le> 1 \<and> unat (r1 - (b0 + s1) + push_bit 56 b1) \<le> 2 ^ 56 - 1"
    using st1 st0 r s by blast
  have S2: "unat (r2 - (b1 + s2) + push_bit 56 b2) + (unat b1 + unat s2) = unat r2 + 2 ^ 56 * unat b2 \<and> unat b2 \<le> 1 \<and> unat (r2 - (b1 + s2) + push_bit 56 b2) \<le> 2 ^ 56 - 1"
    using st2 S1 r s by blast
  have S3: "unat (r3 - (b2 + s3) + push_bit 56 b3) + (unat b2 + unat s3) = unat r3 + 2 ^ 56 * unat b3 \<and> unat b3 \<le> 1 \<and> unat (r3 - (b2 + s3) + push_bit 56 b3) \<le> 2 ^ 56 - 1"
    using st3 S2 r s by blast
  have u: "unat (b3 + s4) = unat b3 + unat s4" using S3 s assms(4) by (subst unat_add_u64) auto
  have l: "unat r4 < 2 ^ 63" "unat (b3 + s4) < 2 ^ 63" using S3 r s assms(3,4) by (simp_all add: u)
  have b4: "b4 = (if unat r4 < unat b3 + unat s4 then 1 else 0)" unfolding b4_def by (simp add: unat_lt_modm [OF l] u)
  define T where "T = [r0 - s0 + push_bit 56 b0, r1 - (b0 + s1) + push_bit 56 b1, r2 - (b1 + s2) + push_bit 56 b2, r3 - (b2 + s3) + push_bit 56 b3]"
  define lr where "lr = unat r0 + 2 ^ 56 * unat r1 + 2 ^ 112 * unat r2 + 2 ^ 168 * unat r3"
  define ls where "ls = unat s0 + 2 ^ 56 * unat s1 + 2 ^ 112 * unat s2 + 2 ^ 168 * unat s3"
  define lt where "lt = unat (T ! 0) + 2 ^ 56 * unat (T ! 1) + 2 ^ 112 * unat (T ! 2) + 2 ^ 168 * unat (T ! 3)"
  have low: "lt + ls = lr + 2 ^ 224 * unat b3"
    using st0 S1 S2 S3 unfolding lt_def ls_def lr_def T_def by simp
  have lt: "lt < 2 ^ 224" using st0 S1 S2 S3 unfolding lt_def T_def by simp
  have mr: "mval r = lr + 2 ^ 224 * unat r4" and ms: "mval s = ls + 2 ^ 224 * unat s4"
    unfolding r(1) s(1) lr_def ls_def by simp_all
  have less: "mval r < mval s \<longleftrightarrow> unat r4 < unat b3 + unat s4"
    unfolding mr ms by (rule borrow_less [OF low lt])
  show thesis
  proof (rule that)
    show "sub_borrow sh r s = ([T ! 0, T ! 1, T ! 2, T ! 3, r4 - (b3 + s4) + push_bit sh b4], b4)"
      by (simp add: sub_borrow_def Let_def r(1) s(1) T_def b0_def b1_def b2_def b3_def b4_def)
    show "unat (T ! 0) \<le> 2 ^ 56 - 1" "unat (T ! 1) \<le> 2 ^ 56 - 1" "unat (T ! 2) \<le> 2 ^ 56 - 1" "unat (T ! 3) \<le> 2 ^ 56 - 1"
      using st0 S1 S2 S3 by (simp_all add: T_def)
    show "b4 = (if mval r < mval s then 1 else 0)" using b4 less by simp
    assume "d < 2 ^ sh \<or> mval s \<le> mval r"
    then have "unat (b3 + s4) \<le> unat r4 + 2 ^ sh"
    proof
      assume "d < 2 ^ sh"
      then show ?thesis using S3 s(6) unfolding u by linarith
    next
      assume "mval s \<le> mval r"
      then show ?thesis using less unfolding u by linarith
    qed
    from borrow_step(1) [OF l this, folded b4_def] assms(5)
    have "unat (r4 - (b3 + s4) + push_bit sh b4) + (unat b3 + unat s4) = unat r4 + 2 ^ sh * unat b4" by (simp add: u)
    then have "2 ^ 224 * unat (r4 - (b3 + s4) + push_bit sh b4) + 2 ^ 224 * unat b3 + 2 ^ 224 * unat s4 = 2 ^ 224 * unat r4 + 2 ^ (224 + sh) * unat b4"
      unfolding power_add mult.assoc distrib_left [symmetric] by (simp only: add.assoc)
    then show "mval [T ! 0, T ! 1, T ! 2, T ! 3, r4 - (b3 + s4) + push_bit sh b4] + mval s = mval r + 2 ^ (224 + sh) * unat b4"
      using low unfolding mr ms mval_limbs lt_def by linarith
  qed
qed

subsection \<open>Conditional subtraction of the modulus\<close>

lemma reduce256_modm_correct:
  assumes "carried c r" "c < 2 ^ 62"
  shows "carried c (reduce256_modm r)"
    "mval (reduce256_modm r) = (if mval r < group_order then mval r else mval r - group_order)"
proof -
  obtain t0 t1 t2 t3 t4 b where sb: "sub_borrow 32 r modm_m = ([t0, t1, t2, t3, t4], b)"
    and t: "unat t0 \<le> 2 ^ 56 - 1" "unat t1 \<le> 2 ^ 56 - 1" "unat t2 \<le> 2 ^ 56 - 1" "unat t3 \<le> 2 ^ 56 - 1"
    and b: "b = (if mval r < mval modm_m then 1 else 0)"
    and v: "2 ^ 28 < 2 ^ 32 \<or> mval modm_m \<le> mval r \<Longrightarrow> mval [t0, t1, t2, t3, t4] + mval modm_m = mval r + 2 ^ (224 + 32) * unat b"
    using assms(2) by (rule sub_borrowE [OF assms(1) modm_m_value(1), where sh = 32]) simp_all
  obtain r0 r1 r2 r3 r4 where r: "r = [r0, r1, r2, r3, r4]" 
      "unat r0 \<le> 2 ^ 56 - 1" "unat r1 \<le> 2 ^ 56 - 1" "unat r2 \<le> 2 ^ 56 - 1" "unat r3 \<le> 2 ^ 56 - 1" "unat r4 \<le> c"
    using assms(1) by (rule carriedE)
  have x: "w XOR (w XOR y) = y" for w y :: u64 by (simp add: xor.assoc [symmetric])
  have eta: "[r ! 0, r ! 1, r ! 2, r ! 3, r ! 4] = r" by (simp add: r(1))
  have eq: "reduce256_modm r = (if mval r < group_order then r else [t0, t1, t2, t3, t4])"
    unfolding reduce256_modm_def sb b modm_m_value(2) using eta by (simp add: x)
  have v': "mval [t0, t1, t2, t3, t4] + group_order = mval r" if "\<not> mval r < group_order"
    using v that b by (simp only: modm_m_value) simp
  have "mval r < 2 ^ 224 * (c + 1)" using r by simp
  then have "unat t4 \<le> c" if "\<not> mval r < group_order" using v' [OF that] by simp
  then show "carried c (reduce256_modm r)" using assms(1) t unfolding eq by simp
  show "mval (reduce256_modm r) = (if mval r < group_order then mval r else mval r - group_order)"
  proof (cases "mval r < group_order")
    case False
    then show ?thesis using v' [OF False] unfolding eq by (simp del: mval_limbs)
  qed (simp add: eq)
qed

subsection \<open>Barrett reduction\<close>

lemma barrett_quotient:
  fixes x q1 q3 :: nat
  assumes "x < 2 ^ 512" "2 ^ 248 * q1 \<le> x" "x < 2 ^ 248 * (q1 + 1)"
    "2 ^ 264 * q3 \<le> mval modm_mu * q1" "mval modm_mu * q1 < 2 ^ 264 * (q3 + 1) + 2 ^ 227"
  shows "q3 * group_order \<le> x" "x < (q3 + 3) * group_order"
  using assms unfolding group_order_def modm_mu_def by simp_all

text \<open>One column of a product: the sum of its terms with the carry of the column before, its low limb
  and its carry.\<close>

lemma column_low:
  assumes "unat c = n" "k \<le> 64"
  shows "unat (take_bit k (lo128 c)) = n mod 2 ^ k"
proof -
  have "n mod 2 ^ 64 mod 2 ^ k = n mod 2 ^ k" using assms(2) by (intro mod_mod_cancel le_imp_power_dvd)
  then show ?thesis
    unfolding unsigned_take_bit_eq lo128_def by (simp add: take_bit_eq_mod unat_u64_of_u128 assms(1))
qed

lemma column_carry:
  assumes "unat c = n" "n < 2 ^ 120"
  shows "unat (shr128 c 56) = n div 2 ^ 56"
proof -
  have "n div 2 ^ 56 < 2 ^ 64" using assms(2) less_mult_imp_div_less [of n "2 ^ 64" "2 ^ 56"] by simp
  then show ?thesis unfolding shr128_def using unat_carry_out [of c 56] assms(1) by simp
qed

lemma add128_64_of_nat: "add128_64 c f = c + of_nat (unat f)"
  by (simp add: add128_64_def)

text \<open>The pieces of a column that go into two neighbouring limbs when the columns are cut at bit
  \<open>k\<close> instead of bit 0.\<close>

lemma column_pieces:
  assumes "unat c = n" "k \<le> 56"
  shows "unat (take_bit (56 - k) (drop_bit k (lo128 c))) = n mod 2 ^ 56 div 2 ^ k"
    "unat (take_bit 56 (push_bit (56 - k) (lo128 c))) = 2 ^ (56 - k) * (n mod 2 ^ k)"
proof -
  have l: "unat (lo128 c) = n mod 2 ^ 64" unfolding lo128_def by (simp add: unat_u64_of_u128 assms(1))
  have "n mod 2 ^ 64 div 2 ^ k mod 2 ^ (56 - k) = n mod 2 ^ 64 mod (2 ^ k * 2 ^ (56 - k)) div 2 ^ k"
    using mod_mult2_eq [of "n mod 2 ^ 64" "2 ^ k" "2 ^ (56 - k)"] by simp
  also have "\<dots> = n mod 2 ^ 56 div 2 ^ k" using assms(2) by (simp add: power_add [symmetric] mod_mod_cancel)
  finally show "unat (take_bit (56 - k) (drop_bit k (lo128 c))) = n mod 2 ^ 56 div 2 ^ k"
    unfolding unsigned_take_bit_eq unat_shr l by (simp add: take_bit_eq_mod)
  have "unat (push_bit (56 - k) (lo128 c)) = 2 ^ (56 - k) * (n mod 2 ^ 64) mod 2 ^ 64"
    by (simp only: unsigned_push_bit_eq l) (simp add: take_bit_eq_mod push_bit_eq_mult mult.commute)
  then have "unat (take_bit 56 (push_bit (56 - k) (lo128 c))) = 2 ^ (56 - k) * (n mod 2 ^ 64) mod 2 ^ 64 mod 2 ^ 56"
    unfolding unsigned_take_bit_eq by (simp add: take_bit_eq_mod)
  also have "\<dots> = 2 ^ (56 - k) * (n mod 2 ^ 64) mod (2 ^ (56 - k) * 2 ^ k)"
    using assms(2) by (simp add: mod_mod_cancel power_add [symmetric])
  also have "\<dots> = 2 ^ (56 - k) * (n mod 2 ^ 64 mod 2 ^ k)" by (rule mult_mod_right [symmetric])
  also have "n mod 2 ^ 64 mod 2 ^ k = n mod 2 ^ k" using assms(2) by (intro mod_mod_cancel le_imp_power_dvd) simp
  finally show "unat (take_bit 56 (push_bit (56 - k) (lo128 c))) = 2 ^ (56 - k) * (n mod 2 ^ k)" .
qed

lemma limb_or:
  assumes "unat a < 2 ^ k" "unat b = 2 ^ k * n" "k \<le> 64"
  shows "unat (a OR b :: u64) = unat a + unat b"
proof -
  have "2 ^ k * n < 2 ^ 64" using assms(2) u64_bound [of b] by simp
  also have "(2 :: nat) ^ 64 = 2 ^ k * 2 ^ (64 - k)" using assms(3) by (simp only: power_add [symmetric]) simp
  finally have n: "n < 2 ^ (64 - k)" by simp
  also have "\<dots> \<le> 2 ^ 64" by (rule power_increasing) simp_all
  finally have u: "unat (of_nat n :: u64) = n" by (simp add: unat_of_nat)
  have "unat (push_bit k (of_nat n) :: u64) = unat b"
    using unat_or_disjoint [of 0 k "of_nat n"] assms(2,3) n by (simp add: u)
  then have "b = push_bit k (of_nat n)" by (simp only: word_unat_eq_iff)
  then show ?thesis using unat_or_disjoint [OF assms(1,3), of "of_nat n"] assms(2) n by (simp add: u)
qed

lemma limb_low_less: "unat (take_bit k (w :: u64)) < 2 ^ k"
  unfolding unsigned_take_bit_eq by simp

lemma cut_columns:
  fixes K J B n0 n1 n2 n3 n4 :: nat
  assumes "B = K * J" "0 < K"
  defines "u1 \<equiv> n1 + n0 div B"
  defines "u2 \<equiv> n2 + u1 div B"
  defines "u3 \<equiv> n3 + u2 div B"
  defines "u4 \<equiv> n4 + u3 div B"
  shows "(n0 mod B div K + J * (u1 mod K)) + B * (u1 mod B div K + J * (u2 mod K)) + B ^ 2 * (u2 mod B div K + J * (u3 mod K))
      + B ^ 3 * (u3 mod B div K + J * (u4 mod K)) + B ^ 4 * (u4 mod B div K + J * (u4 div B))
    = (n0 + B * n1 + B ^ 2 * n2 + B ^ 3 * n3 + B ^ 4 * n4) div K"
proof -
  have h: "u mod B div K = u div K mod J" "u = B * (u div B) + K * (u div K mod J) + u mod K" for u
  proof -
    have "u mod B = K * (u div K mod J) + u mod K" unfolding assms(1) by (rule mod_mult2_eq)
    then show "u mod B div K = u div K mod J" "u = B * (u div B) + K * (u div K mod J) + u mod K"
      using assms(2) mult_div_mod_eq [of B u] by simp_all
  qed
  have lin: "n0 + B * n1 + B ^ 2 * n2 + B ^ 3 * n3 + B ^ 4 * n4
      = g0 + K * ((h0 + J * g1) + B * (h1 + J * g2) + B ^ 2 * (h2 + J * g3) + B ^ 3 * (h3 + J * g4) + B ^ 4 * (h4 + J * f4))"
    if e: "n0 = B * f0 + K * h0 + g0" "n1 + f0 = B * f1 + K * h1 + g1" "n2 + f1 = B * f2 + K * h2 + g2"
      "n3 + f2 = B * f3 + K * h3 + g3" "n4 + f3 = B * f4 + K * h4 + g4"
    for f0 f1 f2 f3 f4 g0 g1 g2 g3 g4 h0 h1 h2 h3 h4 :: nat
  proof -
    have s: "X + B ^ i * (B * f + y) = X + B ^ i * y + B ^ Suc i * f" for X i f y by (simp add: algebra_simps)
    have "n0 + B * n1 + B ^ 2 * n2 + B ^ 3 * n3 + B ^ 4 * n4
        = (K * h0 + g0) + B * (n1 + f0) + B ^ 2 * n2 + B ^ 3 * n3 + B ^ 4 * n4" unfolding e(1) by (simp add: algebra_simps)
    also have "\<dots> = (K * h0 + g0) + B * (K * h1 + g1) + B ^ 2 * (n2 + f1) + B ^ 3 * n3 + B ^ 4 * n4"
      unfolding e(2) by (simp add: algebra_simps power2_eq_square)
    also have "\<dots> = (K * h0 + g0) + B * (K * h1 + g1) + B ^ 2 * (K * h2 + g2) + B ^ 3 * (n3 + f2) + B ^ 4 * n4"
      unfolding e(3) by (simp add: algebra_simps power2_eq_square power3_eq_cube)
    also have "\<dots> = (K * h0 + g0) + B * (K * h1 + g1) + B ^ 2 * (K * h2 + g2) + B ^ 3 * (K * h3 + g3) + B ^ 4 * (n4 + f3)"
      unfolding e(4) by (simp add: algebra_simps power2_eq_square power3_eq_cube power4_eq_xxxx)
    also have "\<dots> = g0 + K * ((h0 + J * g1) + B * (h1 + J * g2) + B ^ 2 * (h2 + J * g3) + B ^ 3 * (h3 + J * g4) + B ^ 4 * (h4 + J * f4))"
      unfolding e(5) assms(1) by (simp add: algebra_simps power2_eq_square power3_eq_cube power4_eq_xxxx)
    finally show ?thesis .
  qed
  have e: "n1 + n0 div B = B * (u1 div B) + K * (u1 div K mod J) + u1 mod K" "n2 + u1 div B = B * (u2 div B) + K * (u2 div K mod J) + u2 mod K"
      "n3 + u2 div B = B * (u3 div B) + K * (u3 div K mod J) + u3 mod K" "n4 + u3 div B = B * (u4 div B) + K * (u4 div K mod J) + u4 mod K"
    by (subst u1_def [symmetric] u2_def [symmetric] u3_def [symmetric] u4_def [symmetric], rule h(2))+
  show ?thesis unfolding h(1) lin [OF h(2) [of n0] e] using assms(2) by simp
qed

text \<open>The words that hold the limbs of the columns cut at bit \<open>k\<close>.\<close>

lemma cut_limb:
  assumes "unat c = n" "unat d = n'" "k \<le> 56"
  shows "unat (take_bit (56 - k) (drop_bit k (lo128 c)) OR take_bit 56 (push_bit (56 - k) (lo128 d)))
    = n mod 2 ^ 56 div 2 ^ k + 2 ^ (56 - k) * (n' mod 2 ^ k)"
proof -
  note p = column_pieces(1) [OF assms(1,3)] column_pieces(2) [OF assms(2,3)]
  have "unat (take_bit (56 - k) (drop_bit k (lo128 c))) < 2 ^ (56 - k)"
    by (rule limb_low_less)
  from limb_or [OF this p(2)] show ?thesis unfolding p by simp
qed

lemma cut_limb_top:
  assumes "unat c = n" "n < 2 ^ (64 + k)" "k \<le> 56"
  shows "unat (take_bit (56 - k) (drop_bit k (lo128 c)) OR push_bit (56 - k) (shr128 c 56))
    = n mod 2 ^ 56 div 2 ^ k + 2 ^ (56 - k) * (n div 2 ^ 56)"
proof -
  have "(2 :: nat) ^ (64 + k) = 2 ^ (8 + k) * 2 ^ 56" by (simp add: power_add)
  then have "n < 2 ^ (8 + k) * 2 ^ 56" using assms(2) by (simp only:)
  then have f: "n div 2 ^ 56 < 2 ^ (8 + k)" by (rule less_mult_imp_div_less)
  also have "(2 :: nat) ^ (8 + k) \<le> 2 ^ 64" using assms(3) by (intro power_increasing) simp_all
  finally have "unat (shr128 c 56) = n div 2 ^ 56" unfolding shr128_def using unat_carry_out [of c 56] assms(1) by simp
  moreover have "64 - (56 - k) = 8 + k" using assms(3) by simp
  moreover have "unat (take_bit (56 - k) (drop_bit k (lo128 c))) < 2 ^ (56 - k)"
    by (rule limb_low_less)
  ultimately show ?thesis
    using unat_or_disjoint [of "take_bit (56 - k) (drop_bit k (lo128 c))" "56 - k" "shr128 c 56"] f column_pieces(1) [OF assms(1,3)]
    by simp
qed

lemma product_bound_56: "x \<le> 2 ^ 56 - 1 \<Longrightarrow> y \<le> 2 ^ 56 - 1 \<Longrightarrow> x * y \<le> (2 :: nat) ^ 112"
  using mult_le_mono [of x "2 ^ 56" y "2 ^ 56"] by simp

text \<open>The columns of a product of two numbers of five limbs.\<close>

lemma product_columns:
  fixes a0 a1 a2 a3 a4 q0 q1 q2 q3 q4 :: nat
  shows "(a0 + 2 ^ 56 * a1 + 2 ^ 112 * a2 + 2 ^ 168 * a3 + 2 ^ 224 * a4) * (q0 + 2 ^ 56 * q1 + 2 ^ 112 * q2 + 2 ^ 168 * q3 + 2 ^ 224 * q4)
    = (a0 * q0 + 2 ^ 56 * (a0 * q1 + a1 * q0) + 2 ^ 112 * (a0 * q2 + a2 * q0 + a1 * q1)) + 2 ^ 168 * (a0 * q3 + a3 * q0 + a1 * q2 + a2 * q1)
      + 2 ^ 224 * ((a0 * q4 + a4 * q0 + a3 * q1 + a1 * q3 + a2 * q2) + 2 ^ 56 * (a4 * q1 + a1 * q4 + a2 * q3 + a3 * q2)
        + 2 ^ 112 * (a4 * q2 + a2 * q4 + a3 * q3) + 2 ^ 168 * (a4 * q3 + a3 * q4) + 2 ^ 224 * (a4 * q4))"
  by (simp add: algebra_simps)

lemma modm_mu_carried: "carried (2 ^ 36) modm_mu"
  by (simp add: modm_mu_def)

text \<open>The word that collects a column: the products of some pairs of limbs, and the carry \<open>f\<close> of the column before.\<close>

fun column :: "(u64 \<times> u64) list \<Rightarrow> u64 \<Rightarrow> u128" where
  "column [] f = of_nat (unat f)"
| "column (p # ps) f = foldl (\<lambda>c (a, b). c + mul64x64_128 a b) (add128_64 (mul64x64_128 (fst p) (snd p)) f) ps"

definition ncolumn :: "(u64 \<times> u64) list \<Rightarrow> nat" where
  "ncolumn ps = (\<Sum>(a, b) \<leftarrow> ps. unat a * unat b)"

definition small_pairs :: "(u64 \<times> u64) list \<Rightarrow> bool" where
  "small_pairs ps \<longleftrightarrow> length ps \<le> 5 \<and> (\<forall>(a, b) \<in> set ps. unat a \<le> 2 ^ 56 - 1 \<and> unat b \<le> 2 ^ 56 - 1)"

lemma column_of_nat: "column ps f = of_nat (ncolumn ps + unat f)"
proof -
  have "foldl (\<lambda>c (a, b). c + mul64x64_128 a b) c ps = c + of_nat (ncolumn ps)" for c ps
    by (induction ps arbitrary: c) (auto simp: ncolumn_def mul64x64_128_of_nat)
  then show ?thesis
    by (cases ps) (auto simp: ncolumn_def add128_64_of_nat mul64x64_128_of_nat)
qed

lemma ncolumn_bound: "small_pairs ps \<Longrightarrow> ncolumn ps \<le> 5 * 2 ^ 112"
proof -
  assume s: "small_pairs ps"
  have "ncolumn ps \<le> (\<Sum>p \<leftarrow> ps. 2 ^ 112)"
    unfolding ncolumn_def by (rule sum_list_mono) (use s product_bound_56 in \<open>auto simp: small_pairs_def\<close>)
  also have "\<dots> = length ps * 2 ^ 112" by (simp add: sum_list_triv)
  also have "\<dots> \<le> 5 * 2 ^ 112" using s by (intro mult_le_mono1) (simp add: small_pairs_def)
  finally show ?thesis .
qed

lemma column_step:
  assumes "small_pairs ps" "unat f \<le> 2 ^ 59"
  shows "unat (column ps f) = ncolumn ps + unat f"
    "unat (shr128 (column ps f) 56) = unat (column ps f) div 2 ^ 56" "unat (shr128 (column ps f) 56) \<le> 2 ^ 59"
proof -
  have b: "ncolumn ps + unat f \<le> 6 * 2 ^ 112" using ncolumn_bound [OF assms(1)] assms(2) by simp
  then show u: "unat (column ps f) = ncolumn ps + unat f" unfolding column_of_nat by (intro unat_of_nat_u128) simp
  show s: "unat (shr128 (column ps f) 56) = unat (column ps f) div 2 ^ 56" using b u by (intro column_carry) simp_all
  show "unat (shr128 (column ps f) 56) \<le> 2 ^ 59" unfolding s u using div_le_mono [OF b, of "2 ^ 56"] by simp
qed

lemma small_pairs_simps [simp]: "small_pairs []"
  "small_pairs ((a, b) # ps) \<longleftrightarrow> length ps \<le> 4 \<and> unat a \<le> 2 ^ 56 - 1 \<and> unat b \<le> 2 ^ 56 - 1 \<and> small_pairs ps"
  by (auto simp: small_pairs_def)

definition cut_word :: "nat \<Rightarrow> u128 \<Rightarrow> u128 \<Rightarrow> u64" where
  "cut_word k c d = take_bit (56 - k) (drop_bit k (lo128 c)) OR take_bit 56 (push_bit (56 - k) (lo128 d))"

definition cut_words :: "nat \<Rightarrow> u128 \<Rightarrow> u128 \<Rightarrow> u128 \<Rightarrow> u128 \<Rightarrow> u128 \<Rightarrow> bignum256modm" where
  "cut_words k c0 c1 c2 c3 c4 = [cut_word k c0 c1, cut_word k c1 c2, cut_word k c2 c3, cut_word k c3 c4,
     take_bit (56 - k) (drop_bit k (lo128 c4)) OR push_bit (56 - k) (shr128 c4 56)]"

lemma cut_word_bound: "unat (cut_word k c d) \<le> 2 ^ 56 - 1" if "k \<le> 56"
proof -
  have "take_bit 56 (cut_word k c d) = cut_word k c d"
    by (cases "k = 0") (simp_all add: cut_word_def min_def)
  then show ?thesis by (metis limb_low)
qed

lemma cut_words_correct:
  assumes "unat c1 = n1 + unat c0 div 2 ^ 56" "unat c2 = n2 + unat c1 div 2 ^ 56"
    "unat c3 = n3 + unat c2 div 2 ^ 56" "unat c4 = n4 + unat c3 div 2 ^ 56" "unat c4 < 2 ^ (64 + k)" "k \<le> 56"
  shows "mval (cut_words k c0 c1 c2 c3 c4) = (unat c0 + 2 ^ 56 * n1 + 2 ^ 112 * n2 + 2 ^ 168 * n3 + 2 ^ 224 * n4) div 2 ^ k"
    "carried (2 ^ 64) (cut_words k c0 c1 c2 c3 c4)"
proof -
  have B: "(2 :: nat) ^ 56 = 2 ^ k * 2 ^ (56 - k)" using assms(6) by (simp only: power_add [symmetric]) simp
  note c = cut_columns [OF B, of "unat c0" n1 n2 n3 n4]
  have l: "unat (cut_word k x y) = unat x mod 2 ^ 56 div 2 ^ k + 2 ^ (56 - k) * (unat y mod 2 ^ k)" for x y
    unfolding cut_word_def using assms(6) by (intro cut_limb) simp_all
  have e: "((2 :: nat) ^ 56) ^ 2 = 2 ^ 112" "((2 :: nat) ^ 56) ^ 3 = 2 ^ 168" "((2 :: nat) ^ 56) ^ 4 = 2 ^ 224"
    by (simp_all only: power_mult [symmetric]) simp_all
  show "mval (cut_words k c0 c1 c2 c3 c4) = (unat c0 + 2 ^ 56 * n1 + 2 ^ 112 * n2 + 2 ^ 168 * n3 + 2 ^ 224 * n4) div 2 ^ k"
    unfolding cut_words_def mval_limbs l cut_limb_top [OF refl assms(5,6)]
    unfolding assms(4) unfolding assms(3) unfolding assms(2) unfolding assms(1)
    using c unfolding e by simp
  show "carried (2 ^ 64) (cut_words k c0 c1 c2 c3 c4)"
    unfolding cut_words_def carried_limbs using cut_word_bound [OF assms(6)] u64_bound by (simp add: less_imp_le)
qed

lemma barrett_q3_correct:
  assumes "carried (2 ^ 40 - 1) q"
  shows "carried (2 ^ 40) (barrett_q3 q)" "2 ^ 264 * mval (barrett_q3 q) \<le> mval modm_mu * mval q"
    "mval modm_mu * mval q < 2 ^ 264 * (mval (barrett_q3 q) + 1) + 2 ^ 227"
proof -
  obtain a0 a1 a2 a3 a4 where mu: "modm_mu = [a0, a1, a2, a3, a4]" and
      a: "unat a0 \<le> 2 ^ 56 - 1" "unat a1 \<le> 2 ^ 56 - 1" "unat a2 \<le> 2 ^ 56 - 1" "unat a3 \<le> 2 ^ 56 - 1" "unat a4 \<le> 2 ^ 36"
    using modm_mu_carried by (rule carriedE)
  obtain q0 q1 q2 q3 q4 where qq: "q = [q0, q1, q2, q3, q4]" and
      q: "unat q0 \<le> 2 ^ 56 - 1" "unat q1 \<le> 2 ^ 56 - 1" "unat q2 \<le> 2 ^ 56 - 1" "unat q3 \<le> 2 ^ 56 - 1" "unat q4 \<le> 2 ^ 40 - 1"
    using assms by (rule carriedE)
  define p3 p4 p5 p6 p7 p8 where p: "p3 = [(a0, q3), (a3, q0), (a1, q2), (a2, q1)]" "p4 = [(a0, q4), (a4, q0), (a3, q1), (a1, q3), (a2, q2)]"
    "p5 = [(a4, q1), (a1, q4), (a2, q3), (a3, q2)]" "p6 = [(a4, q2), (a2, q4), (a3, q3)]" "p7 = [(a4, q3), (a3, q4)]" "p8 = [(a4, q4)]"
  have sm: "small_pairs p3" "small_pairs p4" "small_pairs p5" "small_pairs p6" "small_pairs p7" "small_pairs p8"
    using a q unfolding p by simp_all
  define c3 where "c3 = column p3 0"
  define c4 where "c4 = column p4 (shr128 c3 56)"
  define c5 where "c5 = column p5 (shr128 c4 56)"
  define c6 where "c6 = column p6 (shr128 c5 56)"
  define c7 where "c7 = column p7 (shr128 c6 56)"
  define c8 where "c8 = column p8 (shr128 c7 56)"
  have z: "unat (0 :: u64) \<le> 2 ^ 59" by simp
  note s3 = column_step [OF sm(1) z, folded c3_def]
  note s4 = column_step [OF sm(2) s3(3), folded c4_def] 
  note s5 = column_step [OF sm(3) s4(3), folded c5_def]
  note s6 = column_step [OF sm(4) s5(3), folded c6_def]
  note s7 = column_step [OF sm(5) s6(3), folded c7_def]
  note s8 = column_step [OF sm(6) s7(3), folded c8_def]
  define L where "L = unat a0 * unat q0 + 2 ^ 56 * (unat a0 * unat q1 + unat a1 * unat q0)
    + 2 ^ 112 * (unat a0 * unat q2 + unat a2 * unat q0 + unat a1 * unat q1)"
  define V where "V = (ncolumn p4 + unat (shr128 c3 56)) + 2 ^ 56 * ncolumn p5 + 2 ^ 112 * ncolumn p6 + 2 ^ 168 * ncolumn p7 + 2 ^ 224 * ncolumn p8"
  have n8: "ncolumn p8 \<le> 2 ^ 36 * 2 ^ 40" unfolding p ncolumn_def using mult_le_mono [OF a(5), of "unat q4" "2 ^ 40"] q(5) by simp
  have c8: "unat c8 < 2 ^ (64 + 40)" using s8(1) n8 s7(3) by simp
  have eq: "barrett_q3 q = cut_words 40 c4 c5 c6 c7 c8"
    unfolding barrett_q3_def Let_def mu qq cut_words_def cut_word_def c8_def c7_def c6_def c5_def c4_def c3_def p
    by (simp add: add128_64_of_nat and_mask_56 and_mask_16)
  note cw = cut_words_correct [OF s5(1) [unfolded s4(2)] s6(1) [unfolded s5(2)] s7(1) [unfolded s6(2)] s8(1) [unfolded s7(2)] c8, simplified, folded eq]
  have v: "mval (barrett_q3 q) = V div 2 ^ 40" using cw(1) s4(1) by (simp add: V_def)
  have P: "mval modm_mu * mval q = L + 2 ^ 168 * ncolumn p3 + 2 ^ 224 * (V - unat (shr128 c3 56))"
    unfolding mu qq mval_limbs product_columns V_def L_def p ncolumn_def by simp
  have L: "L \<le> 2 ^ 226" unfolding L_def using product_bound_56 [OF a(1) q(1)] product_bound_56 [OF a(1) q(2)] product_bound_56 [OF a(2) q(1)]
      product_bound_56 [OF a(1) q(3)] product_bound_56 [OF a(3) q(1)] product_bound_56 [OF a(2) q(2)] by simp
  have n3: "ncolumn p3 = 2 ^ 56 * unat (shr128 c3 56) + ncolumn p3 mod 2 ^ 56" "ncolumn p3 mod 2 ^ 56 \<le> 2 ^ 56 - 1"
    using s3(1,2) mod_le_pred [of "2 ^ 56" "ncolumn p3"] by simp_all
  have "unat (shr128 c3 56) \<le> V" by (simp add: V_def)
  then have b: "2 ^ 224 * V \<le> mval modm_mu * mval q" "mval modm_mu * mval q < 2 ^ 224 * V + 2 ^ 227"
    unfolding P using L n3 by simp_all
  have V: "V = 2 ^ 40 * mval (barrett_q3 q) + V mod 2 ^ 40" "V mod 2 ^ 40 \<le> 2 ^ 40 - 1"
    unfolding v using mod_le_pred [of "2 ^ 40" V] by simp_all
  show lo: "2 ^ 264 * mval (barrett_q3 q) \<le> mval modm_mu * mval q"
    using b(1) V by (simp del: mval_limbs)
  show "mval modm_mu * mval q < 2 ^ 264 * (mval (barrett_q3 q) + 1) + 2 ^ 227" using b(2) V by simp
  have "mval modm_mu < 2 ^ 261" by (simp add: modm_mu_def)
  moreover have "mval q < 2 ^ 264" using q unfolding qq by simp
  ultimately have "mval modm_mu * mval q < 2 ^ 261 * 2 ^ 264" by (rule mult_strict_mono) simp_all
  then have "mval (barrett_q3 q) < 2 ^ 224 * 2 ^ 37" using lo by simp
  from carried_top [OF cw(2) this] show "carried (2 ^ 40) (barrett_q3 q)" by (rule carried_mono) simp
qed

text \<open>The low limbs of the columns, up to bit 264.\<close>

definition low_words :: "u128 \<Rightarrow> u128 \<Rightarrow> u128 \<Rightarrow> u128 \<Rightarrow> u128 \<Rightarrow> bignum256modm" where
  "low_words c0 c1 c2 c3 c4 = [take_bit 56 (lo128 c0), take_bit 56 (lo128 c1), take_bit 56 (lo128 c2), take_bit 56 (lo128 c3), take_bit 40 (lo128 c4)]"

lemma low_words_correct:
  assumes c: "unat c1 = n1 + unat c0 div 2 ^ 56" "unat c2 = n2 + unat c1 div 2 ^ 56"
    "unat c3 = n3 + unat c2 div 2 ^ 56" "unat c4 = n4 + unat c3 div 2 ^ 56"
  shows "mval (low_words c0 c1 c2 c3 c4) = (unat c0 + 2 ^ 56 * n1 + 2 ^ 112 * n2 + 2 ^ 168 * n3 + 2 ^ 224 * n4) mod 2 ^ 264"
    "carried (2 ^ 40 - 1) (low_words c0 c1 c2 c3 c4)"
    "(unat c0 + 2 ^ 56 * n1 + 2 ^ 112 * n2 + 2 ^ 168 * n3 + 2 ^ 224 * n4) div 2 ^ 224 = unat c4"
proof -
  note l = column_low [OF refl, of 56, simplified] column_low [OF refl, of 40, simplified]
  have d: "unat (c :: u128) = 2 ^ 56 * (unat c div 2 ^ 56) + unat (take_bit 56 (lo128 c))" for c
    by (simp add: l)
  have e: "n1 + unat c0 div 2 ^ 56 = 2 ^ 56 * (unat c1 div 2 ^ 56) + unat (take_bit 56 (lo128 c1))"
      "n2 + unat c1 div 2 ^ 56 = 2 ^ 56 * (unat c2 div 2 ^ 56) + unat (take_bit 56 (lo128 c2))"
      "n3 + unat c2 div 2 ^ 56 = 2 ^ 56 * (unat c3 div 2 ^ 56) + unat (take_bit 56 (lo128 c3))"
    by (subst c(1) [symmetric] c(2) [symmetric] c(3) [symmetric], rule d)+
  have d4: "n4 + unat c3 div 2 ^ 56 = 2 ^ 40 * (unat c4 div 2 ^ 40) + unat (take_bit 40 (lo128 c4))"
    by (subst c(4) [symmetric]) (simp add: l)
  show b: "carried (2 ^ 40 - 1) (low_words c0 c1 c2 c3 c4)" unfolding low_words_def carried_limbs by (intro conjI limb_low)
  then have lt: "mval (low_words c0 c1 c2 c3 c4) < 2 ^ 264" unfolding low_words_def carried_limbs by simp
  have "unat c0 + 2 ^ 56 * n1 + 2 ^ 112 * n2 + 2 ^ 168 * n3 + 2 ^ 224 * n4
      = mval (low_words c0 c1 c2 c3 c4) + 2 ^ 264 * (unat c4 div 2 ^ 40)"
  proof -
    have "C + 2 ^ 56 * n1 + 2 ^ 112 * n2 + 2 ^ 168 * n3 + 2 ^ 224 * n4
        = l0 + 2 ^ 56 * l1 + 2 ^ 112 * l2 + 2 ^ 168 * l3 + 2 ^ 224 * l4 + 2 ^ 264 * h"
      if "C = 2 ^ 56 * f0 + l0" "n1 + f0 = 2 ^ 56 * f1 + l1" "n2 + f1 = 2 ^ 56 * f2 + l2" "n3 + f2 = 2 ^ 56 * f3 + l3" "n4 + f3 = 2 ^ 40 * h + l4"
      for C f0 f1 f2 f3 h l0 l1 l2 l3 l4 :: nat using that by simp
    from this [OF d [of c0] e(1,2,3) d4] show ?thesis unfolding low_words_def mval_limbs .
  qed
  then show "mval (low_words c0 c1 c2 c3 c4) = (unat c0 + 2 ^ 56 * n1 + 2 ^ 112 * n2 + 2 ^ 168 * n3 + 2 ^ 224 * n4) mod 2 ^ 264"
    by (intro div_mod_of_sum(2) [OF lt, symmetric])
  define t where "t = mval [take_bit 56 (lo128 c0), take_bit 56 (lo128 c1), take_bit 56 (lo128 c2), take_bit 56 (lo128 c3), 0]"
  have "t < 2 ^ 224" using b unfolding low_words_def carried_limbs t_def by simp
  moreover have "unat c0 + 2 ^ 56 * n1 + 2 ^ 112 * n2 + 2 ^ 168 * n3 + 2 ^ 224 * n4 = t + 2 ^ 224 * unat c4"
  proof -
    have "C + 2 ^ 56 * n1 + 2 ^ 112 * n2 + 2 ^ 168 * n3 + 2 ^ 224 * n4
        = l0 + 2 ^ 56 * l1 + 2 ^ 112 * l2 + 2 ^ 168 * l3 + 2 ^ 224 * (n4 + f3)"
      if "C = 2 ^ 56 * f0 + l0" "n1 + f0 = 2 ^ 56 * f1 + l1" "n2 + f1 = 2 ^ 56 * f2 + l2" "n3 + f2 = 2 ^ 56 * f3 + l3"
      for C f0 f1 f2 f3 l0 l1 l2 l3 :: nat using that by simp
    from this [OF d [of c0] e] show ?thesis unfolding t_def mval_limbs c(4) [symmetric] by simp
  qed
  ultimately show "(unat c0 + 2 ^ 56 * n1 + 2 ^ 112 * n2 + 2 ^ 168 * n3 + 2 ^ 224 * n4) div 2 ^ 224 = unat c4"
    by (intro div_mod_of_sum(1))
qed

lemma barrett_r2_correct:
  assumes "carried (2 ^ 40) q"
  shows "carried (2 ^ 40 - 1) (barrett_r2 q)" "mval (barrett_r2 q) = group_order * mval q mod 2 ^ 264"
proof -
  obtain a0 a1 a2 a3 a4 where m: "modm_m = [a0, a1, a2, a3, a4]" and
      a: "unat a0 \<le> 2 ^ 56 - 1" "unat a1 \<le> 2 ^ 56 - 1" "unat a2 \<le> 2 ^ 56 - 1" "unat a3 \<le> 2 ^ 56 - 1" "unat a4 \<le> 2 ^ 28"
    using modm_m_value(1) by (rule carriedE)
  obtain q0 q1 q2 q3 q4 where qq: "q = [q0, q1, q2, q3, q4]" and
      q: "unat q0 \<le> 2 ^ 56 - 1" "unat q1 \<le> 2 ^ 56 - 1" "unat q2 \<le> 2 ^ 56 - 1" "unat q3 \<le> 2 ^ 56 - 1" "unat q4 \<le> 2 ^ 40"
    using assms by (rule carriedE)
  define p0 p1 p2 p3 p4 where p: "p0 = [(a0, q0)]" "p1 = [(a0, q1), (a1, q0)]" "p2 = [(a0, q2), (a2, q0), (a1, q1)]"
    "p3 = [(a0, q3), (a3, q0), (a1, q2), (a2, q1)]" "p4 = [(a0, q4), (a4, q0), (a3, q1), (a1, q3), (a2, q2)]"
  have sm: "small_pairs p0" "small_pairs p1" "small_pairs p2" "small_pairs p3" "small_pairs p4"
    using a q unfolding p by simp_all
  define c0 where "c0 = column p0 0"
  define c1 where "c1 = column p1 (shr128 c0 56)"
  define c2 where "c2 = column p2 (shr128 c1 56)"
  define c3 where "c3 = column p3 (shr128 c2 56)"
  define c4 where "c4 = column p4 (shr128 c3 56)"
  have z: "unat (0 :: u64) \<le> 2 ^ 59" by simp
  note s0 = column_step [OF sm(1) z, folded c0_def]
  note s1 = column_step [OF sm(2) s0(3), folded c1_def]
  note s2 = column_step [OF sm(3) s1(3), folded c2_def]
  note s3 = column_step [OF sm(4) s2(3), folded c3_def]
  note s4 = column_step [OF sm(5) s3(3), folded c4_def]
  have eq: "barrett_r2 q = low_words c0 c1 c2 c3 c4"
    unfolding barrett_r2_def Let_def m qq low_words_def c4_def c3_def c2_def c1_def c0_def p
    by (simp add: add128_64_of_nat and_mask_56 and_mask_40)
  note lw = low_words_correct [OF s1(1) [unfolded s0(2)] s2(1) [unfolded s1(2)] s3(1) [unfolded s2(2)] s4(1) [unfolded s3(2)], folded eq]
  show "carried (2 ^ 40 - 1) (barrett_r2 q)" by (rule lw)
  have "mval modm_m * mval q = (unat c0 + 2 ^ 56 * ncolumn p1 + 2 ^ 112 * ncolumn p2 + 2 ^ 168 * ncolumn p3 + 2 ^ 224 * ncolumn p4)
      + 2 ^ 264 * (2 ^ 16 * (unat a4 * unat q1 + unat a1 * unat q4 + unat a2 * unat q3 + unat a3 * unat q2
        + 2 ^ 56 * (unat a4 * unat q2 + unat a2 * unat q4 + unat a3 * unat q3) + 2 ^ 112 * (unat a4 * unat q3 + unat a3 * unat q4) + 2 ^ 168 * (unat a4 * unat q4)))"
    unfolding m qq mval_limbs product_columns s0(1) p ncolumn_def by simp
  then show "mval (barrett_r2 q) = group_order * mval q mod 2 ^ 264"
    unfolding lw(1) modm_m_value(2) [symmetric] by (simp only: mod_mult_self2)
qed

lemma sub_mod:
  fixes K :: nat
  assumes "y \<le> x" "x - y < K" "t + y mod K = x mod K + K * b" "b = (if x mod K < y mod K then 1 else 0)"
  shows "t = x - y"
proof -
  have "t < K" if "r < K" "t + s = r + K * b" "b = (if r < s then 1 else 0)" for r s
    using that by (auto split: if_splits)
  from this [OF _ assms(3,4)] have "t < K" using assms(2) by simp
  have "(t + y) mod K = (t + y mod K) mod K" by (simp add: mod_simps)
  also have "\<dots> = x mod K" unfolding assms(3) by simp
  finally have e: "(t + y) mod K = ((x - y) + y) mod K" using assms(1) by simp
  have "t mod K = (x - y) mod K"
    using e by (simp only: nat_mod_eq_iff) (auto simp: algebra_simps)
  then show ?thesis using \<open>t < K\<close> assms(2) by simp
qed

lemma barrett_reduce256_modm_correct:
  assumes "x < 2 ^ 512" "carried (2 ^ 40 - 1) q1" "mval q1 = x div 2 ^ 248" "carried (2 ^ 40 - 1) r1" "mval r1 = x mod 2 ^ 264"
  shows "modm_ok (barrett_reduce256_modm q1 r1)" "mval (barrett_reduce256_modm q1 r1) = x mod group_order"
proof -
  note q3 = barrett_q3_correct [OF assms(2)]
  note r2 = barrett_r2_correct [OF q3(1)]
  define Q where "Q = mval (barrett_q3 q1)"
  have "2 ^ 248 * (x div 2 ^ 248) \<le> x" "x < 2 ^ 248 * (x div 2 ^ 248 + 1)"
    using mult_div_mod_eq [of "2 ^ 248" x] mod_le_pred [of "2 ^ 248" x] by simp_all
  from barrett_quotient [OF assms(1) this, of Q] q3(2,3)
  have Q: "Q * group_order \<le> x" "x < (Q + 3) * group_order" unfolding assms(3) Q_def by simp_all
  obtain t0 t1 t2 t3 t4 b where sb: "sub_borrow 40 r1 (barrett_r2 (barrett_q3 q1)) = ([t0, t1, t2, t3, t4], b)"
    and t: "unat t0 \<le> 2 ^ 56 - 1" "unat t1 \<le> 2 ^ 56 - 1" "unat t2 \<le> 2 ^ 56 - 1" "unat t3 \<le> 2 ^ 56 - 1"
    and b: "b = (if mval r1 < mval (barrett_r2 (barrett_q3 q1)) then 1 else 0)"
    and v: "mval [t0, t1, t2, t3, t4] + mval (barrett_r2 (barrett_q3 q1)) = mval r1 + 2 ^ 264 * unat b"
    by (rule sub_borrowE [OF assms(4) r2(1), where sh = 40]) (simp_all del: mval_limbs)
  define T where "T = [t0, t1, t2, t3, t4]"
  have T: "mval T = x - Q * group_order"
  proof -
    have "mval T + (group_order * Q mod 2 ^ 264) = x mod 2 ^ 264 + 2 ^ 264 * unat b"
      using v unfolding r2(2) assms(5) Q_def T_def .
    then have "mval T + (Q * group_order) mod 2 ^ 264 = x mod 2 ^ 264 + 2 ^ 264 * unat b" by (simp add: mult.commute)
    moreover have "unat b = (if x mod 2 ^ 264 < (Q * group_order) mod 2 ^ 264 then 1 else 0)"
      unfolding b r2(2) assms(5) Q_def by (simp add: mult.commute)
    moreover have "x - Q * group_order < 2 ^ 264" using Q by (simp add: group_order_def)
    ultimately show ?thesis using Q(1) by (intro sub_mod)
  qed
  have lt: "mval T < 3 * group_order" using Q unfolding T by (simp add: algebra_simps)
  then have "mval T < 2 ^ 224 * 2 ^ 30" by (simp add: group_order_def)
  moreover have "carried (2 ^ 64) T" using t u64_bound [of t4] by (simp add: T_def)
  ultimately have c: "carried (2 ^ 30 - 1) T" by (rule carried_top [rotated])
  note R1 = reduce256_modm_correct [OF c]
  note R2 = reduce256_modm_correct [OF R1(1)]
  have eq: "barrett_reduce256_modm q1 r1 = reduce256_modm (reduce256_modm T)"
    by (simp add: barrett_reduce256_modm_def Let_def sb T_def)
  have r: "mval (barrett_reduce256_modm q1 r1) = mval T mod group_order"
    unfolding eq R2(2) [simplified] R1(2) [simplified] using lt by (auto simp: le_mod_geq not_less)
  also have "\<dots> = (x - Q * group_order + Q * group_order) mod group_order" unfolding T by simp
  finally show "mval (barrett_reduce256_modm q1 r1) = x mod group_order" using Q(1) by simp
  have "mval (barrett_reduce256_modm q1 r1) < group_order" unfolding r by (simp add: group_order_def)
  moreover have "carried (2 ^ 32 - 1) (barrett_reduce256_modm q1 r1)" unfolding eq using R2(1) by (rule carried_mono) simp_all
  ultimately show "modm_ok (barrett_reduce256_modm q1 r1)" by (simp add: modm_ok_def)
qed

subsection \<open>Multiplication and addition\<close>

lemma mul256_modm_correct:
  assumes "carried (2 ^ 32 - 1) x" "carried (2 ^ 32 - 1) y"
  shows "modm_ok (mul256_modm x y)" "mval (mul256_modm x y) = mval x * mval y mod group_order"
proof -
  obtain a0 a1 a2 a3 a4 where x: "x = [a0, a1, a2, a3, a4]" and
      a: "unat a0 \<le> 2 ^ 56 - 1" "unat a1 \<le> 2 ^ 56 - 1" "unat a2 \<le> 2 ^ 56 - 1" "unat a3 \<le> 2 ^ 56 - 1" "unat a4 \<le> 2 ^ 32 - 1"
    using assms(1) by (rule carriedE)
  obtain q0 q1 q2 q3 q4 where y: "y = [q0, q1, q2, q3, q4]" and
      q: "unat q0 \<le> 2 ^ 56 - 1" "unat q1 \<le> 2 ^ 56 - 1" "unat q2 \<le> 2 ^ 56 - 1" "unat q3 \<le> 2 ^ 56 - 1" "unat q4 \<le> 2 ^ 32 - 1"
    using assms(2) by (rule carriedE)
  define p0 p1 p2 p3 p4 where p: "p0 = [(a0, q0)]" "p1 = [(a0, q1), (a1, q0)]" "p2 = [(a0, q2), (a2, q0), (a1, q1)]"
    "p3 = [(a0, q3), (a3, q0), (a1, q2), (a2, q1)]" "p4 = [(a0, q4), (a4, q0), (a3, q1), (a1, q3), (a2, q2)]"
  define p5 p6 p7 p8 where p': "p5 = [(a4, q1), (a1, q4), (a2, q3), (a3, q2)]" "p6 = [(a4, q2), (a2, q4), (a3, q3)]"
    "p7 = [(a4, q3), (a3, q4)]" "p8 = [(a4, q4)]"
  have sm: "small_pairs p0" "small_pairs p1" "small_pairs p2" "small_pairs p3" "small_pairs p4"
     "small_pairs p5" "small_pairs p6" "small_pairs p7" "small_pairs p8"
    using a q unfolding p p' by simp_all
  define c0 where "c0 = column p0 0"
  define c1 where "c1 = column p1 (shr128 c0 56)"
  define c2 where "c2 = column p2 (shr128 c1 56)"
  define c3 where "c3 = column p3 (shr128 c2 56)"
  define c4 where "c4 = column p4 (shr128 c3 56)"
  define c5 where "c5 = column p5 (shr128 c4 56)"
  define c6 where "c6 = column p6 (shr128 c5 56)"
  define c7 where "c7 = column p7 (shr128 c6 56)"
  define c8 where "c8 = column p8 (shr128 c7 56)"
  have z: "unat (0 :: u64) \<le> 2 ^ 59" by simp
  note s0 = column_step [OF sm(1) z, folded c0_def]
  note s1 = column_step [OF sm(2) s0(3), folded c1_def]
  note s2 = column_step [OF sm(3) s1(3), folded c2_def]
  note s3 = column_step [OF sm(4) s2(3), folded c3_def]
  note s4 = column_step [OF sm(5) s3(3), folded c4_def]
  note s5 = column_step [OF sm(6) s4(3), folded c5_def]
  note s6 = column_step [OF sm(7) s5(3), folded c6_def]
  note s7 = column_step [OF sm(8) s6(3), folded c7_def]
  note s8 = column_step [OF sm(9) s7(3), folded c8_def]
  have eq: "mul256_modm x y = barrett_reduce256_modm (cut_words 24 c4 c5 c6 c7 c8) (low_words c0 c1 c2 c3 c4)"
    unfolding mul256_modm_def Let_def x y low_words_def cut_words_def cut_word_def
      c8_def c7_def c6_def c5_def c4_def c3_def c2_def c1_def c0_def p p'
    by (simp add: add128_64_of_nat and_mask_56 and_mask_40 and_mask_32)
  define X where "X = mval x * mval y"
  have "mval x < 2 ^ 256" "mval y < 2 ^ 256" using a q unfolding x y by simp_all
  then have "X < 2 ^ 256 * 2 ^ 256" unfolding X_def by (rule mult_strict_mono) simp_all
  then have X: "X < 2 ^ 512" by simp
  have cols: "X = (unat c0 + 2 ^ 56 * ncolumn p1 + 2 ^ 112 * ncolumn p2 + 2 ^ 168 * ncolumn p3 + 2 ^ 224 * ncolumn p4)
      + 2 ^ 280 * (ncolumn p5 + 2 ^ 56 * ncolumn p6 + 2 ^ 112 * ncolumn p7 + 2 ^ 168 * ncolumn p8)" (is "_ = ?lo + 2 ^ 280 * ?hi")
    unfolding X_def x y mval_limbs product_columns s0(1) p p' ncolumn_def by simp
  note lw = low_words_correct [OF s1(1) [unfolded s0(2)] s2(1) [unfolded s1(2)] s3(1) [unfolded s2(2)] s4(1) [unfolded s3(2)]]
  have lo: "mval (low_words c0 c1 c2 c3 c4) = X mod 2 ^ 264"
    unfolding lw(1) cols using mod_mult_self2 [of ?lo "2 ^ 264" "2 ^ 16 * ?hi"] by simp
  have "X div 2 ^ 224 = (?lo + 2 ^ 224 * (2 ^ 56 * ?hi)) div 2 ^ 224" unfolding cols by simp
  also have "\<dots> = unat c4 + 2 ^ 56 * ?hi" by (subst div_mult_self2) (simp, subst lw(3), rule add.commute)
  finally have "X div 2 ^ 248 = (unat c4 + 2 ^ 56 * ?hi) div 2 ^ 24"
    using div_mult2_eq [of X "2 ^ 224" "2 ^ 24"] by (simp only: power_add [symmetric]) simp
  moreover have "unat c8 < 2 ^ (64 + 24)"
  proof -
    have "ncolumn p8 \<le> 2 ^ 32 * 2 ^ 32" unfolding p' ncolumn_def using mult_le_mono [of "unat a4" "2 ^ 32" "unat q4" "2 ^ 32"] a(5) q(5) by simp
    then show ?thesis using s8(1) s7(3) by simp
  qed
  note cw = cut_words_correct [OF s5(1) [unfolded s4(2)] s6(1) [unfolded s5(2)] s7(1) [unfolded s6(2)] s8(1) [unfolded s7(2)] this]
  ultimately have hi: "mval (cut_words 24 c4 c5 c6 c7 c8) = X div 2 ^ 248" using cw(1) by (simp add: algebra_simps)
  have "X div 2 ^ 248 < 2 ^ 264" using X by (intro less_mult_imp_div_less) simp
  then have "carried (2 ^ 40 - 1) (cut_words 24 c4 c5 c6 c7 c8)" using cw(2) hi by (intro carried_top [of "2 ^ 64"]) simp_all
  note br = barrett_reduce256_modm_correct [OF X this hi lw(2) lo]
  show "modm_ok (mul256_modm x y)" "mval (mul256_modm x y) = mval x * mval y mod group_order"
    unfolding eq using br by (simp_all add: X_def)
qed

lemma add256_modm_correct:
  assumes "carried (2 ^ 32 - 1) x" "carried (2 ^ 32 - 1) y"
  shows "mval (add256_modm x y) = (if mval x + mval y < group_order then mval x + mval y else mval x + mval y - group_order)"
    and "carried (2 ^ 34) (add256_modm x y)"
proof -
  obtain x0 x1 x2 x3 x4 where x: "x = [x0, x1, x2, x3, x4]" and
      a: "unat x0 \<le> 2 ^ 56 - 1" "unat x1 \<le> 2 ^ 56 - 1" "unat x2 \<le> 2 ^ 56 - 1" "unat x3 \<le> 2 ^ 56 - 1" "unat x4 \<le> 2 ^ 32 - 1"
    using assms(1) by (rule carriedE)
  obtain y0 y1 y2 y3 y4 where y: "y = [y0, y1, y2, y3, y4]" and
      b: "unat y0 \<le> 2 ^ 56 - 1" "unat y1 \<le> 2 ^ 56 - 1" "unat y2 \<le> 2 ^ 56 - 1" "unat y3 \<le> 2 ^ 56 - 1" "unat y4 \<le> 2 ^ 32 - 1"
    using assms(2) by (rule carriedE)
  define c0 where "c0 = x0 + y0"
  define c1 where "c1 = drop_bit 56 c0 + (x1 + y1)"
  define c2 where "c2 = drop_bit 56 c1 + (x2 + y2)"
  define c3 where "c3 = drop_bit 56 c2 + (x3 + y3)"
  define c4 where "c4 = drop_bit 56 c3 + (x4 + y4)"
  have h: "unat (drop_bit 56 w) \<le> 2 ^ 8 - 1" for w :: u64 using unat_shr_less [of 56 w] by simp
  have s: "unat (d + (v + w)) = unat d + (unat v + unat w)" if "unat d \<le> 2 ^ 8 - 1" "unat v \<le> 2 ^ 56 - 1" "unat w \<le> 2 ^ 56 - 1" for d v w :: u64
  proof -
    have "unat (v + w) = unat v + unat w" using that by (intro unat_add_u64) simp
    then show ?thesis using that by (subst unat_add_u64) simp_all
  qed
  have c0: "unat c0 = unat x0 + unat y0" unfolding c0_def using a(1) b(1) by (intro unat_add_u64) simp
  have c1: "unat c1 = unat (drop_bit 56 c0) + (unat x1 + unat y1)" unfolding c1_def by (rule s [OF h a(2) b(2)])
  have c2: "unat c2 = unat (drop_bit 56 c1) + (unat x2 + unat y2)" unfolding c2_def by (rule s [OF h a(3) b(3)])
  have c3: "unat c3 = unat (drop_bit 56 c2) + (unat x3 + unat y3)" unfolding c3_def by (rule s [OF h a(4) b(4)])
  have c4: "unat c4 = unat (drop_bit 56 c3) + (unat x4 + unat y4)" unfolding c4_def using a(5) b(5) by (intro s [OF h]) simp_all
  define r where "r = [take_bit 56 c0, take_bit 56 c1, take_bit 56 c2, take_bit 56 c3, c4]"
  have eq: "add256_modm x y = reduce256_modm r"
    by (simp add: add256_modm_def Let_def x y r_def c0_def c1_def c2_def c3_def c4_def and_mask_56)
  have "carried (2 ^ 34) r" unfolding r_def carried_limbs using a(5) b(5) h [of c3] by (intro conjI limb_low) (simp add: c4)
  note red = reduce256_modm_correct [OF this]
  have "mval r = mval x + mval y"
    unfolding r_def x y using limb_split [of c0 56] limb_split [of c1 56] limb_split [of c2 56] limb_split [of c3 56] c0 c1 c2 c3 c4 by simp
  then show "mval (add256_modm x y) = (if mval x + mval y < group_order then mval x + mval y else mval x + mval y - group_order)"
    "carried (2 ^ 34) (add256_modm x y)" unfolding eq using red by simp_all
qed

lemma add256_modm_reduced:
  assumes "modm_ok x" "modm_ok y"
  shows "modm_ok (add256_modm x y)" "mval (add256_modm x y) = (mval x + mval y) mod group_order"
proof -
  note a = add256_modm_correct [of x y]
  have l: "mval x < group_order" "mval y < group_order" using assms by (simp_all add: modm_ok_def)
  show v: "mval (add256_modm x y) = (mval x + mval y) mod group_order"
    using a(1) assms l by (auto simp: modm_ok_def le_mod_geq)
  have lt: "mval (add256_modm x y) < group_order" unfolding v by (simp add: group_order_def)
  then have "mval (add256_modm x y) < 2 ^ 224 * 2 ^ 32" by (simp add: group_order_def)
  moreover have "carried (2 ^ 34) (add256_modm x y)" using a(2) assms by (simp add: modm_ok_def)
  ultimately have "carried (2 ^ 32 - 1) (add256_modm x y)" by (intro carried_top)
  then show "modm_ok (add256_modm x y)" using lt by (simp add: modm_ok_def)
qed

subsection \<open>Bytes\<close>

lemma le_nat_words_64:
  assumes "length inp = 64"
  shows "le_nat inp = unat (load64_le inp) + 2 ^ 64 * unat (load64_le (drop 8 inp))
    + 2 ^ 128 * unat (load64_le (drop 16 inp)) + 2 ^ 192 * unat (load64_le (drop 24 inp))
    + 2 ^ 256 * unat (load64_le (drop 32 inp)) + 2 ^ 320 * unat (load64_le (drop 40 inp))
    + 2 ^ 384 * unat (load64_le (drop 48 inp)) + 2 ^ 448 * unat (load64_le (drop 56 inp))"
proof -
  have "le_nat inp = le_nat (take 32 inp) + 256 ^ 32 * le_nat (drop 32 inp)" using assms by (intro le_nat_split) simp
  moreover have "load64_le (drop i (take 32 inp)) = load64_le (drop i inp)" if "i + 8 \<le> 32" for i
  proof -
    have "min 8 (32 - i) = 8" using that by simp
    then show ?thesis using load64_le_take [of "drop i inp"] load64_le_take [of "drop i (take 32 inp)"] by (simp add: drop_take)
  qed
  from this [of 0] this [of 8] this [of 16] this [of 24]
  have "le_nat (take 32 inp) = unat (load64_le inp) + 2 ^ 64 * unat (load64_le (drop 8 inp))
    + 2 ^ 128 * unat (load64_le (drop 16 inp)) + 2 ^ 192 * unat (load64_le (drop 24 inp))"
    using le_nat_words [of "take 32 inp"] assms by simp
  moreover have "le_nat (drop 32 inp) = unat (load64_le (drop 32 inp)) + 2 ^ 64 * unat (load64_le (drop 40 inp))
    + 2 ^ 128 * unat (load64_le (drop 48 inp)) + 2 ^ 192 * unat (load64_le (drop 56 inp))"
    using le_nat_words [of "drop 32 inp"] assms by simp
  ultimately show ?thesis by simp
qed

lemma expand_low_numbers:
  fixes x0 x1 x2 x3 x4 :: nat
  shows "x0 mod 2 ^ 56 + 2 ^ 56 * (x0 div 2 ^ 56 + 2 ^ 8 * (x1 mod 2 ^ 48)) + 2 ^ 112 * (x1 div 2 ^ 48 + 2 ^ 16 * (x2 mod 2 ^ 40))
      + 2 ^ 168 * (x2 div 2 ^ 40 + 2 ^ 24 * (x3 mod 2 ^ 32)) + 2 ^ 224 * (x3 div 2 ^ 32 + 2 ^ 32 * (x4 mod 2 ^ 8))
    + 2 ^ 264 * (x4 div 2 ^ 8) = x0 + 2 ^ 64 * x1 + 2 ^ 128 * x2 + 2 ^ 192 * x3 + 2 ^ 256 * x4"
proof -
  have lin: "m0 + 2 ^ 56 * (q0 + 2 ^ 8 * m1) + 2 ^ 112 * (q1 + 2 ^ 16 * m2) + 2 ^ 168 * (q2 + 2 ^ 24 * m3) + 2 ^ 224 * (q3 + 2 ^ 32 * m4) + 2 ^ 264 * q4
      = x0 + 2 ^ 64 * x1 + 2 ^ 128 * x2 + 2 ^ 192 * x3 + 2 ^ 256 * x4"
    if "2 ^ 56 * q0 + m0 = x0" "2 ^ 48 * q1 + m1 = x1" "2 ^ 40 * q2 + m2 = x2" "2 ^ 32 * q3 + m3 = x3" "2 ^ 8 * q4 + m4 = x4"
    for m0 m1 m2 m3 m4 q0 q1 q2 q3 q4 :: nat
    unfolding that [symmetric] by (simp add: algebra_simps)
  show ?thesis by (rule lin [OF mult_div_mod_eq mult_div_mod_eq mult_div_mod_eq mult_div_mod_eq mult_div_mod_eq])
qed

lemma expand_high_numbers:
  fixes x3 x4 x5 x6 x7 :: nat
  shows "2 ^ 192 * (x3 mod 2 ^ 56) + 2 ^ 248 * ((x3 div 2 ^ 56 + 2 ^ 8 * (x4 mod 2 ^ 48)) + 2 ^ 56 * (x4 div 2 ^ 48 + 2 ^ 16 * (x5 mod 2 ^ 40))
      + 2 ^ 112 * (x5 div 2 ^ 40 + 2 ^ 24 * (x6 mod 2 ^ 32)) + 2 ^ 168 * (x6 div 2 ^ 32 + 2 ^ 32 * (x7 mod 2 ^ 24)) + 2 ^ 224 * (x7 div 2 ^ 24))
    = 2 ^ 192 * x3 + 2 ^ 256 * x4 + 2 ^ 320 * x5 + 2 ^ 384 * x6 + 2 ^ 448 * x7"
proof -
  have lin: "2 ^ 192 * m3 + 2 ^ 248 * ((q3 + 2 ^ 8 * m4) + 2 ^ 56 * (q4 + 2 ^ 16 * m5) + 2 ^ 112 * (q5 + 2 ^ 24 * m6)
        + 2 ^ 168 * (q6 + 2 ^ 32 * m7) + 2 ^ 224 * q7) = 2 ^ 192 * x3 + 2 ^ 256 * x4 + 2 ^ 320 * x5 + 2 ^ 384 * x6 + 2 ^ 448 * x7"
    if "2 ^ 56 * q3 + m3 = x3" "2 ^ 48 * q4 + m4 = x4" "2 ^ 40 * q5 + m5 = x5" "2 ^ 32 * q6 + m6 = x6" "2 ^ 24 * q7 + m7 = x7"
    for m3 m4 m5 m6 m7 q3 q4 q5 q6 q7 :: nat
    unfolding that [symmetric] by (simp add: algebra_simps)
  show ?thesis by (rule lin [OF mult_div_mod_eq mult_div_mod_eq mult_div_mod_eq mult_div_mod_eq mult_div_mod_eq])
qed

text \<open>Words cut into limbs.\<close>

lemma join_limb:
  assumes "k \<le> 64" "64 - k \<le> m" "m \<le> 64"
  shows "unat (take_bit m (drop_bit k a OR push_bit (64 - k) (b :: u64))) = unat a div 2 ^ k + 2 ^ (64 - k) * (unat b mod 2 ^ (m - (64 - k)))"
  using unat_limb_join [OF unat_shr_less [OF assms(1), of a] assms(2,3)] by (simp add: unat_shr)

lemma out_words:
  fixes x0 x1 x2 x3 x4 :: u64
  defines "w \<equiv> [take_bit 56 x0, take_bit 56 (drop_bit 56 x0 OR push_bit 8 x1), take_bit 56 (drop_bit 48 x1 OR push_bit 16 x2),
     take_bit 56 (drop_bit 40 x2 OR push_bit 24 x3), take_bit 40 (drop_bit 32 x3 OR push_bit 32 x4)]"
  shows "carried (2 ^ 40 - 1) w" "mval w = (unat x0 + 2 ^ 64 * unat x1 + 2 ^ 128 * unat x2 + 2 ^ 192 * unat x3 + 2 ^ 256 * unat x4) mod 2 ^ 264"
proof -
  show c: "carried (2 ^ 40 - 1) w" unfolding w_def carried_limbs by (intro conjI limb_low)
  have l: "unat (take_bit 56 x0) = unat x0 mod 2 ^ 56" unfolding unsigned_take_bit_eq by (simp only: take_bit_eq_mod)
  have j: "unat (take_bit 56 (drop_bit 56 x0 OR push_bit 8 x1)) = unat x0 div 2 ^ 56 + 2 ^ 8 * (unat x1 mod 2 ^ 48)"
    "unat (take_bit 56 (drop_bit 48 x1 OR push_bit 16 x2)) = unat x1 div 2 ^ 48 + 2 ^ 16 * (unat x2 mod 2 ^ 40)"
    "unat (take_bit 56 (drop_bit 40 x2 OR push_bit 24 x3)) = unat x2 div 2 ^ 40 + 2 ^ 24 * (unat x3 mod 2 ^ 32)"
    "unat (take_bit 40 (drop_bit 32 x3 OR push_bit 32 x4)) = unat x3 div 2 ^ 32 + 2 ^ 32 * (unat x4 mod 2 ^ 8)"
    using join_limb [of 56 56 x0 x1] join_limb [of 48 56 x1 x2] join_limb [of 40 56 x2 x3] join_limb [of 32 40 x3 x4] by simp_all
  have "mval w < 2 ^ 264" using c unfolding w_def carried_limbs by simp
  then show "mval w = (unat x0 + 2 ^ 64 * unat x1 + 2 ^ 128 * unat x2 + 2 ^ 192 * unat x3 + 2 ^ 256 * unat x4) mod 2 ^ 264"
    by (rule div_mod_of_sum(2) [symmetric, where q = "unat x4 div 2 ^ 8"])
      (simp only: w_def mval_limbs l j expand_low_numbers)
qed

lemma q1_words:
  fixes x3 x4 x5 x6 x7 :: u64
  defines "w \<equiv> [take_bit 56 (drop_bit 56 x3 OR push_bit 8 x4), take_bit 56 (drop_bit 48 x4 OR push_bit 16 x5),
     take_bit 56 (drop_bit 40 x5 OR push_bit 24 x6), take_bit 56 (drop_bit 32 x6 OR push_bit 32 x7), drop_bit 24 x7]"
  assumes "s < 2 ^ 192"
  shows "carried (2 ^ 40 - 1) w"
    "mval w = (s + (2 ^ 192 * unat x3 + 2 ^ 256 * unat x4 + 2 ^ 320 * unat x5 + 2 ^ 384 * unat x6 + 2 ^ 448 * unat x7)) div 2 ^ 248"
proof -
  show c: "carried (2 ^ 40 - 1) w"
    unfolding w_def carried_limbs using unat_shr_less [of 24 x7] by (intro conjI limb_low) simp
  have j: "unat (take_bit 56 (drop_bit 56 x3 OR push_bit 8 x4)) = unat x3 div 2 ^ 56 + 2 ^ 8 * (unat x4 mod 2 ^ 48)"
    "unat (take_bit 56 (drop_bit 48 x4 OR push_bit 16 x5)) = unat x4 div 2 ^ 48 + 2 ^ 16 * (unat x5 mod 2 ^ 40)"
    "unat (take_bit 56 (drop_bit 40 x5 OR push_bit 24 x6)) = unat x5 div 2 ^ 40 + 2 ^ 24 * (unat x6 mod 2 ^ 32)"
    "unat (take_bit 56 (drop_bit 32 x6 OR push_bit 32 x7)) = unat x6 div 2 ^ 32 + 2 ^ 32 * (unat x7 mod 2 ^ 24)"
    using join_limb [of 56 56 x3 x4] join_limb [of 48 56 x4 x5] join_limb [of 40 56 x5 x6] join_limb [of 32 56 x6 x7] by simp_all
  have "unat x3 mod 2 ^ 56 \<le> 2 ^ 56 - 1" by (rule mod_le_pred) simp
  then have "s + 2 ^ 192 * (unat x3 mod 2 ^ 56) < 2 ^ 248" using assms(2) by simp
  then show "mval w = (s + (2 ^ 192 * unat x3 + 2 ^ 256 * unat x4 + 2 ^ 320 * unat x5 + 2 ^ 384 * unat x6 + 2 ^ 448 * unat x7)) div 2 ^ 248"
    by (rule div_mod_of_sum(1) [symmetric, where s = "s + 2 ^ 192 * (unat x3 mod 2 ^ 56)"])
      (simp only: w_def mval_limbs j unat_shr add.assoc [of s] expand_high_numbers)
qed

lemma expand256_modm_correct:
  assumes "length inp = len" "len \<le> 64"
  shows "32 \<le> len \<Longrightarrow> modm_ok (expand256_modm inp len)" "32 \<le> len \<Longrightarrow> mval (expand256_modm inp len) = le_nat inp mod group_order"
    "len < 32 \<Longrightarrow> carried (2 ^ 32 - 1) (expand256_modm inp len)" "len < 32 \<Longrightarrow> mval (expand256_modm inp len) = le_nat inp"
proof -
  define work where "work = write_at (replicate 64 0) 0 (take len inp)"
  have w: "work = inp @ replicate (64 - len) 0" using assms by (simp add: work_def write_at_def)
  then have lw: "length work = 64" "le_nat work = le_nat inp" using assms by (simp_all add: le_nat_append le_nat_zeros)
  define x0 x1 x2 x3 x4 x5 x6 x7 where x: "x0 = load64_le work" "x1 = load64_le (drop 8 work)" "x2 = load64_le (drop 16 work)"
    "x3 = load64_le (drop 24 work)" "x4 = load64_le (drop 32 work)" "x5 = load64_le (drop 40 work)" "x6 = load64_le (drop 48 work)" "x7 = load64_le (drop 56 work)"
  note N = le_nat_words_64 [OF lw(1), unfolded lw(2), folded x]
  note ow = out_words [of x0 x1 x2 x3 x4]
  have "unat x0 + 2 ^ 64 * unat x1 + 2 ^ 128 * unat x2 < 2 ^ 192" using u64_bound [of x0] u64_bound [of x1] u64_bound [of x2] by simp
  note qw = q1_words [OF this, of x3 x4 x5 x6 x7]
  define out where "out = [take_bit 56 x0, take_bit 56 (drop_bit 56 x0 OR push_bit 8 x1), take_bit 56 (drop_bit 48 x1 OR push_bit 16 x2),
     take_bit 56 (drop_bit 40 x2 OR push_bit 24 x3), take_bit 40 (drop_bit 32 x3 OR push_bit 32 x4)]"
  define q1 where "q1 = [take_bit 56 (drop_bit 56 x3 OR push_bit 8 x4), take_bit 56 (drop_bit 48 x4 OR push_bit 16 x5),
     take_bit 56 (drop_bit 40 x5 OR push_bit 24 x6), take_bit 56 (drop_bit 32 x6 OR push_bit 32 x7), drop_bit 24 x7]"
  have eq: "expand256_modm inp len = (if len < 32 then out else barrett_reduce256_modm q1 out)"
    unfolding expand256_modm_def Let_def work_def [symmetric] x [symmetric] out_def q1_def and_mask_56 and_mask_40 ..
  have lt: "le_nat inp < 2 ^ (8 * len)" using le_nat_less [of inp] assms(1) by (simp add: power_mult)
  have o: "mval out = le_nat inp mod 2 ^ 264"
  proof -
    have "le_nat inp = (unat x0 + 2 ^ 64 * unat x1 + 2 ^ 128 * unat x2 + 2 ^ 192 * unat x3 + 2 ^ 256 * unat x4)
        + 2 ^ 264 * (2 ^ 56 * unat x5 + 2 ^ 120 * unat x6 + 2 ^ 184 * unat x7)" unfolding N by simp
    then show ?thesis unfolding out_def ow(2) by (simp only: mod_mult_self2)
  qed
  have q: "mval q1 = le_nat inp div 2 ^ 248" unfolding q1_def qw(2) N by (simp only: add.assoc)
  have "(2 :: nat) ^ (8 * len) \<le> 2 ^ 512" using assms(2) by (intro power_increasing) simp_all
  then have "le_nat inp < 2 ^ 512" using lt by (rule less_le_trans [rotated])
  note br = barrett_reduce256_modm_correct [OF this qw(1) [folded q1_def] q ow(1) [folded out_def] o]
  show "32 \<le> len \<Longrightarrow> modm_ok (expand256_modm inp len)" "32 \<le> len \<Longrightarrow> mval (expand256_modm inp len) = le_nat inp mod group_order"
    unfolding eq using br by simp_all
  assume l: "len < 32"
  then have "(2 :: nat) ^ (8 * len) \<le> 2 ^ 248" by (intro power_increasing) simp_all
  then have "le_nat inp < 2 ^ 248" using lt by (rule less_le_trans [rotated])
  then have m: "mval out = le_nat inp" "mval out < 2 ^ 224 * 2 ^ 32" using o by simp_all
  show "mval (expand256_modm inp len) = le_nat inp" unfolding eq using l m(1) by simp
  show "carried (2 ^ 32 - 1) (expand256_modm inp len)" unfolding eq using l carried_top [OF ow(1) [folded out_def] m(2)] by simp
qed

lemma expand_raw256_modm_correct:
  assumes "length inp = 32"
  shows "carried (2 ^ 32 - 1) (expand_raw256_modm inp)" "mval (expand_raw256_modm inp) = le_nat inp"
proof -
  define x0 x1 x2 x3 where x: "x0 = load64_le inp" "x1 = load64_le (drop 8 inp)" "x2 = load64_le (drop 16 inp)" "x3 = load64_le (drop 24 inp)"
  have "take_bit 40 (drop_bit 32 x3) = drop_bit 32 x3" "take_bit 32 (drop_bit 32 x3) = drop_bit 32 x3"
    using unat_shr_less [of 32 x3] by (simp_all add: word_unat_eq_iff unsigned_take_bit_eq take_bit_nat_eq_self)
  then have eq: "expand_raw256_modm inp = [take_bit 56 x0, take_bit 56 (drop_bit 56 x0 OR push_bit 8 x1), take_bit 56 (drop_bit 48 x1 OR push_bit 16 x2),
     take_bit 56 (drop_bit 40 x2 OR push_bit 24 x3), take_bit 40 (drop_bit 32 x3 OR push_bit 32 0)]"
    by (simp add: expand_raw256_modm_def Let_def x and_mask_56 and_mask_32)
  have lt: "le_nat inp < 2 ^ 256" using le_nat_less [of inp] assms by simp
  then show v: "mval (expand_raw256_modm inp) = le_nat inp"
    unfolding eq out_words(2) using le_nat_words [OF assms, folded x] by simp
  show "carried (2 ^ 32 - 1) (expand_raw256_modm inp)"
    using lt unfolding v [symmetric] by (intro carried_top [OF out_words(1) [of x0 x1 x2 x3 0, folded eq]]) simp
qed

lemma contract256_modm_correct:
  assumes "carried (2 ^ 32 - 1) x"
  shows "contract256_modm x = le_bytes 32 (mval x)"
proof (rule le_nat_inject)
  obtain x0 x1 x2 x3 x4 where x: "x = [x0, x1, x2, x3, x4]" and
      a: "unat x0 \<le> 2 ^ 56 - 1" "unat x1 \<le> 2 ^ 56 - 1" "unat x2 \<le> 2 ^ 56 - 1" "unat x3 \<le> 2 ^ 56 - 1" "unat x4 \<le> 2 ^ 32 - 1"
    using assms by (rule carriedE)
  have j: "unat (x0 OR push_bit 56 x1) = unat x0 + 2 ^ 56 * (unat x1 mod 2 ^ 8)"
    "unat (drop_bit 8 x1 OR push_bit 48 x2) = unat x1 div 2 ^ 8 + 2 ^ 48 * (unat x2 mod 2 ^ 16)"
    "unat (drop_bit 16 x2 OR push_bit 40 x3) = unat x2 div 2 ^ 16 + 2 ^ 40 * (unat x3 mod 2 ^ 24)"
    "unat (drop_bit 24 x3 OR push_bit 32 x4) = unat x3 div 2 ^ 24 + 2 ^ 32 * (unat x4 mod 2 ^ 32)"
    using a unat_or_disjoint [of x0 56 x1] unat_or_disjoint [of "drop_bit 8 x1" 48 x2] unat_or_disjoint [of "drop_bit 16 x2" 40 x3]
      unat_or_disjoint [of "drop_bit 24 x3" 32 x4] less_mult_imp_div_less [of "unat x1" "2 ^ 48" "2 ^ 8"]
      less_mult_imp_div_less [of "unat x2" "2 ^ 40" "2 ^ 16"] less_mult_imp_div_less [of "unat x3" "2 ^ 32" "2 ^ 24"]
    by (simp_all add: unat_shr)
  have lin: "(y + 2 ^ 56 * m1) + 2 ^ 64 * ((q1 + 2 ^ 48 * m2) + 2 ^ 64 * ((q2 + 2 ^ 40 * m3) + 2 ^ 64 * (q3 + 2 ^ 32 * z)))
      = y + 2 ^ 56 * z1 + 2 ^ 112 * z2 + 2 ^ 168 * z3 + 2 ^ 224 * z"
    if "2 ^ 8 * q1 + m1 = z1" "2 ^ 16 * q2 + m2 = z2" "2 ^ 24 * q3 + m3 = z3" for y z m1 m2 m3 q1 q2 q3 z1 z2 z3 :: nat
    unfolding that [symmetric] by (simp add: algebra_simps)
  have "unat x4 mod 2 ^ 32 = unat x4" using a by simp
  then have "le_nat (contract256_modm x) = mval x"
    using lin [OF mult_div_mod_eq [of "2 ^ 8" "unat x1"] mult_div_mod_eq [of "2 ^ 16" "unat x2"] mult_div_mod_eq [of "2 ^ 24" "unat x3"],
      of "unat x0" "unat x4"] j
    unfolding contract256_modm_def le_nat_append x by simp
  moreover have "mval x < 2 ^ 256" using a unfolding x by simp
  ultimately show "le_nat (contract256_modm x) = le_nat (le_bytes 32 (mval x))"
    by (simp add: le_nat_le_bytes)
qed (simp add: contract256_modm_def)

section \<open>Properties\<close>

text \<open>C5: scalars are added and multiplied modulo the group order. The product of any two carried scalars below
  \<open>2 ^ 256\<close> is reduced exactly by the Barrett reduction (whose quotient estimate drops low partial products), and the sum of two
  reduced scalars is reduced; both results have carried limbs.\<close>

theorem modm_arithmetic_correct:
  assumes "carried (2 ^ 32 - 1) x" "carried (2 ^ 32 - 1) y" "modm_ok a" "modm_ok b"
  shows "modm_ok (mul256_modm x y) \<and> mval (mul256_modm x y) = mval x * mval y mod group_order
    \<and> modm_ok (add256_modm a b) \<and> mval (add256_modm a b) = (mval a + mval b) mod group_order"
  using mul256_modm_correct [OF assms(1,2)] add256_modm_reduced [OF assms(3,4)] by simp

theorem modm_arithmetic_correct_witness:
  "mval (mul256_modm [2 ^ 56 - 1, 2 ^ 56 - 1, 2 ^ 56 - 1, 2 ^ 56 - 1, 2 ^ 32 - 1] [2, 0, 0, 0, 5])
     = mval [2 ^ 56 - 1, 2 ^ 56 - 1, 2 ^ 56 - 1, 2 ^ 56 - 1, 2 ^ 32 - 1] * mval [2, 0, 0, 0, 5] mod group_order
   \<and> mval (add256_modm [1, 2, 3, 4, 5] [6, 7, 8, 9, 10]) = (mval [1, 2, 3, 4, 5] + mval [6, 7, 8, 9, 10]) mod group_order"
  using modm_arithmetic_correct [of "[2 ^ 56 - 1, 2 ^ 56 - 1, 2 ^ 56 - 1, 2 ^ 56 - 1, 2 ^ 32 - 1]" "[2, 0, 0, 0, 5]" "[1, 2, 3, 4, 5]" "[6, 7, 8, 9, 10]"]
  by (simp add: modm_ok_def group_order_def)

text \<open>Reading 32 to 64 bytes as a scalar and writing it back gives the number they encode reduced modulo the group
  order, as 32 little-endian bytes; shorter inputs are kept as they are; and the raw reading of 32 bytes followed by writing
  is the identity.\<close>

theorem modm_bytes_roundtrip:
  assumes "length inp = len" "len \<le> 64" "length raw = 32"
  shows "contract256_modm (expand256_modm inp len) = le_bytes 32 (if len < 32 then le_nat inp else le_nat inp mod group_order)
    \<and> contract256_modm (expand_raw256_modm raw) = raw"
proof -
  have c: "carried (2 ^ 32 - 1) (expand256_modm inp len)" 
    using expand256_modm_correct(1,3) [OF assms(1,2)] by (cases "len < 32") (simp_all add: modm_ok_def)
  have "le_bytes 32 (le_nat raw) = raw"
    using le_nat_less [of raw] assms(3) by (intro le_nat_inject) (simp_all add: le_nat_le_bytes)
  then show ?thesis
    using contract256_modm_correct [OF c] expand256_modm_correct(2,4) [OF assms(1,2)]
      contract256_modm_correct [OF expand_raw256_modm_correct(1) [OF assms(3)]] expand_raw256_modm_correct(2) [OF assms(3)]
    by simp
qed

theorem modm_bytes_roundtrip_witness:
  "contract256_modm (expand256_modm (replicate 64 255) 64) = le_bytes 32 (le_nat (replicate 64 255) mod group_order)"
  using modm_bytes_roundtrip [of "replicate 64 255" 64 "replicate 32 0"] by simp

end
