(* ===== verification/Modm_Batch.thy ===== *)
theory Modm_Batch
  imports Modm
begin

unbundle bit_operations_syntax

text \<open>
  The helpers of \<^verbatim>\<open>modm-donna-64bit.h\<close> for batch verification: comparison and subtraction of scalars
  on their lowest limbs (the \<^verbatim>\<open>switch\<close> statements fall through from the number of limbs in use), and tests
  for zero, one and 128-bit scalars.
\<close>

section \<open>Model\<close>

text \<open>The carry after the first limbs; \<open>n\<close> falls through \<open>n + 1\<close> cases.\<close>

primrec batch_carry :: "bignum256modm \<Rightarrow> bignum256modm \<Rightarrow> nat \<Rightarrow> u64" where
  "batch_carry a b 0 = 0"
| "batch_carry a b (Suc i) = drop_bit 63 ((a ! i - b ! i) - batch_carry a b i)"

definition sub256_modm_batch :: "bignum256modm \<Rightarrow> bignum256modm \<Rightarrow> bignum256modm \<Rightarrow> nat \<Rightarrow> bignum256modm" where
  "sub256_modm_batch out a b limbsize =
    (if limbsize \<le> 4
     then map (\<lambda>i. let t = (a ! i - b ! i) - batch_carry a b i in if i < limbsize then t AND 0xffffffffffffff else t) [0..<limbsize + 1]
       @ drop (limbsize + 1) out
     else out[0 := (a ! 0 - b ! 0) - 0])"

definition lt256_modm_batch :: "bignum256modm \<Rightarrow> bignum256modm \<Rightarrow> nat \<Rightarrow> int" where
  "lt256_modm_batch a b limbsize = (if limbsize \<le> 4 then uint (batch_carry a b (limbsize + 1)) else 0)"

definition lte256_modm_batch :: "bignum256modm \<Rightarrow> bignum256modm \<Rightarrow> nat \<Rightarrow> int" where
  "lte256_modm_batch a b limbsize = (if limbsize \<le> 4 \<and> batch_carry b a (limbsize + 1) \<noteq> 0 then 0 else 1)"

definition iszero256_modm_batch :: "bignum256modm \<Rightarrow> int" where
  "iszero256_modm_batch a = (if \<exists>i \<in> set [0..<5]. a ! i \<noteq> 0 then 0 else 1)"

definition isone256_modm_batch :: "bignum256modm \<Rightarrow> int" where
  "isone256_modm_batch a = (if \<exists>i \<in> set [0..<5]. a ! i \<noteq> (if i \<noteq> 0 then 0 else 1) then 0 else 1)"

definition isatmost128bits256_modm_batch :: "bignum256modm \<Rightarrow> int" where
  "isatmost128bits256_modm_batch a =
    (let mask = (a ! 4) OR (a ! 3) OR (a ! 2 AND 0xffffffffff0000) in if mask = 0 then 1 else 0)"


section \<open>Correctness\<close>

text \<open>Scalars that fit into the limbs \<open>0\<close> to \<open>n\<close>.\<close>

definition fits :: "nat \<Rightarrow> bignum256modm \<Rightarrow> bool" where
  "fits n x \<longleftrightarrow> n \<le> 4 \<and> carried (2 ^ 32 - 1) x \<and> mval x < 2 ^ (56 * (n + 1))"

definition low :: "nat \<Rightarrow> bignum256modm \<Rightarrow> nat" where
  "low n x = (\<Sum>i < n. 2 ^ (56 * i) * unat (x ! i))"

lemma low_Suc: "low (Suc n) x = low n x + 2 ^ (56 * n) * unat (x ! n)"
  by (simp add: low_def)

lemma carried_limb: "carried (2 ^ 32 - 1) x \<Longrightarrow> i < 5 \<Longrightarrow> unat (x ! i) \<le> 2 ^ 56 - 1"
proof -
  assume c: "carried (2 ^ 32 - 1) x" and i: "i < 5"
  have "unat (x ! 4) \<le> 2 ^ 56 - 1" using c unfolding carried_def by simp
  then show ?thesis using c i unfolding carried_def by (cases "i = 4") simp_all
qed

lemma mval_low: "mval x = low 5 x"
  by (simp add: mval_def low_def lessThan_nat_numeral)

lemma low_less: "carried (2 ^ 32 - 1) x \<Longrightarrow> n \<le> 5 \<Longrightarrow> low n x < 2 ^ (56 * n)"
proof (induction n)
  case (Suc n)
  have "unat (x ! n) \<le> 2 ^ 56 - 1" using Suc.prems by (intro carried_limb) simp_all
  then have "2 ^ (56 * n) * unat (x ! n) \<le> 2 ^ (56 * n) * (2 ^ 56 - 1)" by simp
  moreover have "low n x < 2 ^ (56 * n)" using Suc by simp
  ultimately have "low (Suc n) x < 2 ^ (56 * n) + 2 ^ (56 * n) * (2 ^ 56 - 1)" unfolding low_Suc by linarith
  then show ?case by (simp add: power_add algebra_simps)
qed (simp add: low_def)

lemma fits_zero:
  assumes "fits n x" "n < i" "i < 5"
  shows "x ! i = 0"
proof (rule ccontr)
  assume "x ! i \<noteq> 0"
  then have "1 \<le> unat (x ! i)" by (simp add: Suc_leI unat_gt_0)
  then have "2 ^ (56 * i) \<le> 2 ^ (56 * i) * unat (x ! i)" by simp
  also have "\<dots> \<le> low 5 x" using assms(3) unfolding low_def by (intro member_le_sum) simp_all
  finally have "2 ^ (56 * i) \<le> mval x" by (simp add: mval_low)
  moreover have "(2 :: nat) ^ (56 * (n + 1)) \<le> 2 ^ (56 * i)" using assms(2) by (intro power_increasing) simp_all
  ultimately show False using assms(1) unfolding fits_def by linarith
qed

lemma fits_low:
  assumes "fits n x"
  shows "mval x = low (n + 1) x"
proof -
  have "n \<le> 4" using assms by (simp add: fits_def)
  then have "low 5 x = low (n + 1) x + (\<Sum>i = n + 1..<5. 2 ^ (56 * i) * unat (x ! i))"
    unfolding low_def lessThan_atLeast0 by (intro sum.atLeastLessThan_concat [symmetric]) simp_all
  also have "(\<Sum>i = n + 1..<5. 2 ^ (56 * i) * unat (x ! i)) = 0" using fits_zero [OF assms] by simp
  finally show ?thesis by (simp add: mval_low)
qed

text \<open>One limb of a subtraction with borrow.\<close>

lemma limb_borrow:
  fixes a b c :: u64
  assumes "unat a \<le> 2 ^ 56 - 1" "unat b \<le> 2 ^ 56 - 1" "unat c \<le> 1"
  shows "unat (drop_bit 63 ((a - b) - c)) = (if unat a < unat b + unat c then 1 else 0)"
    "unat (((a - b) - c) AND 0xffffffffffffff) + unat b + unat c = unat a + 2 ^ 56 * (if unat a < unat b + unat c then 1 else 0)"
proof -
  define s where "s = b + c"
  have s: "unat s = unat b + unat c" using assms unfolding s_def by (subst unat_add_u64) simp_all
  have t: "(a - b) - c = a - s" by (simp add: s_def)
  have l: "unat a < 2 ^ 63" "unat s < 2 ^ 63" using assms by (simp_all add: s)
  show "unat (drop_bit 63 ((a - b) - c)) = (if unat a < unat b + unat c then 1 else 0)"
    using unat_lt_modm [OF l] by (simp add: t lt_modm_def s)
  have m: "unat (w AND 0xffffffffffffff) = unat w mod 2 ^ 56" for w :: u64
  proof -
    have "0xffffffffffffff = (mask 56 :: u64)" by (simp add: mask_numeral)
    then show ?thesis by (simp only: take_bit_eq_mask [symmetric] unsigned_take_bit_eq) (simp only: take_bit_eq_mod)
  qed
  show "unat (((a - b) - c) AND 0xffffffffffffff) + unat b + unat c = unat a + 2 ^ 56 * (if unat a < unat b + unat c then 1 else 0)"
  proof (cases "unat a < unat s")
    case True
    have "unat (a - s) = 2 ^ 64 + unat a - unat s"
      using True l by (simp add: unat_sub_if' word_le_nat_alt)
    also have "\<dots> = (2 ^ 56 + unat a - unat s) + 255 * 2 ^ 56" using assms True by (simp add: s)
    finally have "unat (a - s) mod 2 ^ 56 = (2 ^ 56 + unat a - unat s) mod 2 ^ 56" by (simp only: mod_mult_self1)
    also have "\<dots> = 2 ^ 56 + unat a - unat s" using True by (intro mod_less) simp
    finally show ?thesis unfolding t m using assms True by (simp add: s)
  next
    case False
    then have "unat (a - s) = unat a - unat s" by (intro unat_sub_u64) simp
    then show ?thesis unfolding t m using False assms by (simp add: s)
  qed
qed

lemma lex_less:
  fixes P :: nat
  assumes "x < P" "y < P"
  shows "x + P * u < y + P * v \<longleftrightarrow> u < v + (if x < y then 1 else 0)"
proof (cases u v rule: linorder_cases)
  case less
  then have "P * u + P \<le> P * v" by (metis Suc_leI mult_Suc_right mult_le_mono2 add.commute)
  then show ?thesis using assms less by simp
next
  case greater
  then have "P * v + P \<le> P * u" by (metis Suc_leI mult_Suc_right mult_le_mono2 add.commute)
  then show ?thesis using assms greater by simp
qed simp

lemma batch_carry_correct:
  assumes "carried (2 ^ 32 - 1) a" "carried (2 ^ 32 - 1) b" "n \<le> 5"
  shows "unat (batch_carry a b n) = (if low n a < low n b then 1 else 0)"
    "(\<Sum>i < n. 2 ^ (56 * i) * unat ((a ! i - b ! i - batch_carry a b i) AND 0xffffffffffffff)) + low n b
      = low n a + 2 ^ (56 * n) * unat (batch_carry a b n)"
proof -
  have "unat (batch_carry a b n) = (if low n a < low n b then 1 else 0) \<and>
    (\<Sum>i < n. 2 ^ (56 * i) * unat ((a ! i - b ! i - batch_carry a b i) AND 0xffffffffffffff)) + low n b
      = low n a + 2 ^ (56 * n) * unat (batch_carry a b n)"
    using assms(3)
  proof (induction n)
    case (Suc n)
    define c where "c = batch_carry a b n"
    define P :: nat where "P = 2 ^ (56 * n)"
    have IH: "unat c = (if low n a < low n b then 1 else 0)"
      "(\<Sum>i < n. 2 ^ (56 * i) * unat ((a ! i - b ! i - batch_carry a b i) AND 0xffffffffffffff)) + low n b = low n a + P * unat c"
      using Suc by (simp_all add: c_def P_def)
    have l: "unat (a ! n) \<le> 2 ^ 56 - 1" "unat (b ! n) \<le> 2 ^ 56 - 1" "unat c \<le> 1"
      using Suc.prems assms by (simp_all only: carried_limb IH(1)) simp_all
    note st = limb_borrow [OF l]
    have lt: "low n a < P" "low n b < P" using low_less [OF assms(1)] low_less [OF assms(2)] Suc.prems by (simp_all add: P_def)
    have cmp: "low (Suc n) a < low (Suc n) b \<longleftrightarrow> unat (a ! n) < unat (b ! n) + unat c"
    proof -
      have "x + P * u < y + P * v \<longleftrightarrow> u < v + (if x < y then 1 else 0)" if "x < P" "y < P" for x y u v
        using that by (rule lex_less)
      then show ?thesis using lt IH(1) unfolding low_Suc P_def [symmetric] by simp
    qed
    have "unat ((a ! n - b ! n - c) AND 0xffffffffffffff) + unat (b ! n) + unat c = unat (a ! n) + 2 ^ 56 * unat (batch_carry a b (Suc n))"
      using st by (simp add: c_def)
    then have "P * unat ((a ! n - b ! n - c) AND 0xffffffffffffff) + P * unat (b ! n) + P * unat c
      = P * unat (a ! n) + P * (2 ^ 56 * unat (batch_carry a b (Suc n)))"
      by (simp only: distrib_left [symmetric])
    moreover have "2 ^ (56 * Suc n) = P * 2 ^ 56" by (simp add: P_def power_add mult.commute)
    ultimately show ?case
      using IH st(1) cmp unfolding low_Suc by (simp add: c_def P_def [symmetric])
  qed (simp add: low_def)
  then show "unat (batch_carry a b n) = (if low n a < low n b then 1 else 0)"
    "(\<Sum>i < n. 2 ^ (56 * i) * unat ((a ! i - b ! i - batch_carry a b i) AND 0xffffffffffffff)) + low n b
      = low n a + 2 ^ (56 * n) * unat (batch_carry a b n)" by blast+
qed

lemma fits_carry:
  assumes "fits n a" "fits n b"
  shows "batch_carry a b (n + 1) = (if mval a < mval b then 1 else 0)"
proof -
  have "n + 1 \<le> 5" using assms by (simp add: fits_def)
  then have "unat (batch_carry a b (n + 1)) = (if mval a < mval b then 1 else 0)"
    using batch_carry_correct(1) [of a b "n + 1"] assms fits_low [OF assms(1)] fits_low [OF assms(2)] by (simp add: fits_def)
  then show ?thesis by (auto simp: word_unat_eq_iff)
qed

lemma lt256_modm_batch_correct: "fits n a \<Longrightarrow> fits n b \<Longrightarrow> lt256_modm_batch a b n = (if mval a < mval b then 1 else 0)"
  using fits_carry [of n a b] by (simp add: lt256_modm_batch_def fits_def)

lemma lte256_modm_batch_correct: "fits n a \<Longrightarrow> fits n b \<Longrightarrow> lte256_modm_batch a b n = (if mval a \<le> mval b then 1 else 0)"
  using fits_carry [of n b a] by (simp add: lte256_modm_batch_def fits_def)

lemma carried_intro:
  assumes "length x = 5" "\<And>i. i < 5 \<Longrightarrow> unat (x ! i) \<le> 2 ^ 56 - 1" "mval x < 2 ^ 256"
  shows "carried (2 ^ 32 - 1) x"
proof -
  have "2 ^ 224 * unat (x ! 4) \<le> mval x" by (simp add: mval_def)
  also have "\<dots> < 2 ^ 224 * 2 ^ 32" using assms(3) by simp
  finally have "unat (x ! 4) < 2 ^ 32" by (simp only: nat_mult_less_cancel_disj)
  then show ?thesis using assms(1,2) by (simp add: carried_def)
qed

text \<open>The top limb of the difference needs no mask: the borrow has gone.\<close>

lemma sub256_modm_batch_correct:
  assumes "fits n a" "fits n b" "mval b \<le> mval a"
  shows "fits n (sub256_modm_batch a a b n)" "mval (sub256_modm_batch a a b n) = mval a - mval b"
proof -
  have n: "n \<le> 4" and ca: "carried (2 ^ 32 - 1) a" and cb: "carried (2 ^ 32 - 1) b" using assms by (simp_all add: fits_def)
  define t where "t = (\<lambda>i. a ! i - b ! i - batch_carry a b i)"
  define x where "x = sub256_modm_batch a a b n"
  have la: "length a = 5" using ca by (simp add: carried_def)
  have x: "x = map (\<lambda>i. if i < n then t i AND 0xffffffffffffff else t i) [0..<n + 1] @ drop (n + 1) a"
    using n by (simp add: x_def sub256_modm_batch_def t_def Let_def)
  have top: "t n AND 0xffffffffffffff = t n"
  proof -
    have "unat (batch_carry a b (n + 1)) = 0" using fits_carry [OF assms(1,2)] assms(3) by simp
    then have "\<not> unat (a ! n) < unat (b ! n) + unat (batch_carry a b n)"
      using limb_borrow(1) [of "a ! n" "b ! n" "batch_carry a b n"] carried_limb [OF ca] carried_limb [OF cb] n
        batch_carry_correct(1) [OF ca cb, of n] by (auto split: if_splits)
    moreover define c where "c = batch_carry a b n"
    ultimately have nb: "\<not> unat (a ! n) < unat (b ! n) + unat c" by simp
    have l: "unat (a ! n) \<le> 2 ^ 56 - 1" "unat (b ! n) \<le> 2 ^ 56 - 1" "unat c \<le> 1"
      using n carried_limb [OF ca] carried_limb [OF cb] batch_carry_correct(1) [OF ca cb, of n] by (simp_all add: c_def)
    have "unat (b ! n + c) = unat (b ! n) + unat c" using l by (subst unat_add_u64) simp_all
    then have "unat (t n) = unat (a ! n) - (unat (b ! n) + unat c)"
      using unat_sub_u64 [of "b ! n + c" "a ! n"] nb by (simp add: t_def c_def diff_diff_eq)
    then have "unat (t n AND 0xffffffffffffff) = unat (t n)" using limb_borrow(2) [OF l] nb by (simp add: t_def c_def)
    then show ?thesis by (simp add: word_unat_eq_iff)
  qed
  have nth: "x ! i = (if i \<le> n then t i AND 0xffffffffffffff else 0)" if "i < 5" for i
  proof (cases "i \<le> n")
    case True
    then have "i < n \<or> i = n" by linarith
    then show ?thesis using top True by (auto simp: x nth_append simp del: upt_Suc)
  next
    case False
    then have "x ! i = a ! i" using that la by (simp add: x nth_append del: upt_Suc)
    then show ?thesis using fits_zero [OF assms(1), of i] False that by simp
  qed
  have lx: "length x = 5" using n la by (simp add: x del: upt_Suc)
  have bound: "unat (w AND 0xffffffffffffff) \<le> 2 ^ 56 - 1" for w :: u64
  proof -
    have "0xffffffffffffff = (mask 56 :: u64)" by (simp add: mask_numeral)
    then show ?thesis using limb_low [of 56 w] by (simp add: take_bit_eq_mask)
  qed
  have "low 5 x = (\<Sum>i < n + 1. 2 ^ (56 * i) * unat (x ! i)) + (\<Sum>i = n + 1..<5. 2 ^ (56 * i) * unat (x ! i))"
    unfolding low_def lessThan_atLeast0 using n by (intro sum.atLeastLessThan_concat [symmetric]) simp_all
  also have "(\<Sum>i = n + 1..<5. 2 ^ (56 * i) * unat (x ! i)) = 0" using nth by simp
  also have "(\<Sum>i < n + 1. 2 ^ (56 * i) * unat (x ! i)) = (\<Sum>i < n + 1. 2 ^ (56 * i) * unat (t i AND 0xffffffffffffff))"
    using nth n by (intro sum.cong) simp_all
  finally have "mval x = (\<Sum>i < n + 1. 2 ^ (56 * i) * unat (t i AND 0xffffffffffffff))" by (simp add: mval_low)
  then have "mval x + low (n + 1) b = low (n + 1) a"
    using batch_carry_correct(2) [OF ca cb, of "n + 1"] n fits_carry [OF assms(1,2)] assms(3) by (simp add: t_def del: sum.lessThan_Suc batch_carry.simps)
  then have v: "mval x = mval a - mval b" using fits_low [OF assms(1)] fits_low [OF assms(2)] by simp
  then show "mval (sub256_modm_batch a a b n) = mval a - mval b" by (simp add: x_def)
  have "mval a < 2 ^ 256" using ca by (rule carriedE) simp
  then have "carried (2 ^ 32 - 1) x" using nth bound by (intro carried_intro [OF lx]) (auto simp: v)
  then show "fits n (sub256_modm_batch a a b n)" using assms(1) v unfolding x_def [symmetric] fits_def by linarith
qed

lemma iszero256_modm_batch_correct: "carried (2 ^ 32 - 1) a \<Longrightarrow> iszero256_modm_batch a = (if mval a = 0 then 1 else 0)"
  by (erule carriedE) (simp add: iszero256_modm_batch_def upt_conv_Cons unsigned_eq_0_iff)

lemma isone256_modm_batch_correct: "carried (2 ^ 32 - 1) a \<Longrightarrow> isone256_modm_batch a = (if mval a = 1 then 1 else 0)"
  by (erule carriedE) (auto simp: isone256_modm_batch_def upt_conv_Cons word_unat_eq_iff add_is_1)

lemma isatmost128bits256_modm_batch_correct:
  assumes "carried (2 ^ 32 - 1) a"
  shows "isatmost128bits256_modm_batch a = (if mval a < 2 ^ 128 then 1 else 0)"
proof -
  obtain x0 x1 x2 x3 x4 where a: "a = [x0, x1, x2, x3, x4]" and
      l: "unat x0 \<le> 2 ^ 56 - 1" "unat x1 \<le> 2 ^ 56 - 1" "unat x2 \<le> 2 ^ 56 - 1" "unat x3 \<le> 2 ^ 56 - 1" "unat x4 \<le> 2 ^ 32 - 1"
    using assms by (rule carriedE)
  have "x2 AND 0xffffffffff0000 = 0 \<longleftrightarrow> unat x2 < 2 ^ 16"
  proof -
    have k: "0xffffffffff0000 = (push_bit 16 (mask 40) :: u64)" by (simp add: mask_numeral)
    have "x2 AND 0xffffffffff0000 = push_bit 16 (take_bit 40 (drop_bit 16 x2))"
      unfolding k by (rule bit_word_eqI) (auto simp: bit_simps)
    also have "take_bit 40 (drop_bit 16 x2) = drop_bit 16 x2"
      using l(3) by (simp add: word_unat_eq_iff unsigned_take_bit_eq unat_shr take_bit_nat_eq_self less_mult_imp_div_less)
    finally have "x2 AND 0xffffffffff0000 = push_bit 16 (drop_bit 16 x2)" .
    moreover have "drop_bit 16 (push_bit 16 (drop_bit 16 x2)) = drop_bit 16 x2"
      by (rule bit_word_eqI) (auto simp: bit_simps dest: bit_imp_le_length)
    ultimately have "x2 AND 0xffffffffff0000 = 0 \<longleftrightarrow> drop_bit 16 x2 = 0" by (metis drop_bit_of_0 push_bit_of_0)
    also have "\<dots> \<longleftrightarrow> unat x2 div 2 ^ 16 = 0" by (simp only: word_unat_eq_iff unat_shr) simp
    finally show ?thesis by (simp add: div_eq_0_iff)
  qed
  then have m: "isatmost128bits256_modm_batch a = (if x4 = 0 \<and> x3 = 0 \<and> unat x2 < 2 ^ 16 then 1 else 0)"
    by (simp add: a isatmost128bits256_modm_batch_def or_eq_0_iff)
  have "mval a < 2 ^ 128 \<longleftrightarrow> unat x4 = 0 \<and> unat x3 = 0 \<and> unat x2 < 2 ^ 16"
    using l unfolding a by simp linarith
  then show ?thesis unfolding m by (simp add: unsigned_eq_0_iff)
qed

end
