(* ===== verification/Fp25519.thy ===== *)
theory Fp25519
  imports Prelude
begin

text \<open>
  The integers modulo \<open>2 ^ 255 - 19\<close>, the numbers that the limb representations of the field of
  Curve25519 denote. The type is a commutative ring; what the code computes on limbs is stated in it.
\<close>

definition p25519 :: nat where
  "p25519 = 2 ^ 255 - 19"

lemma p25519_gt: "1 < p25519"
  by (simp add: p25519_def)

typedef fp = "{0..<int p25519}" morphisms rep_fp abs_fp
  by (rule exI [of _ 0]) (simp add: p25519_def)

setup_lifting type_definition_fp

instantiation fp :: comm_ring_1
begin

lift_definition zero_fp :: fp is 0
  using p25519_gt by simp

lift_definition one_fp :: fp is 1
  using p25519_gt by simp

lift_definition plus_fp :: "fp \<Rightarrow> fp \<Rightarrow> fp" is "\<lambda>a b. (a + b) mod int p25519"
  using p25519_gt by simp

lift_definition minus_fp :: "fp \<Rightarrow> fp \<Rightarrow> fp" is "\<lambda>a b. (a - b) mod int p25519"
  using p25519_gt by simp

lift_definition uminus_fp :: "fp \<Rightarrow> fp" is "\<lambda>a. (- a) mod int p25519"
  using p25519_gt by simp

lift_definition times_fp :: "fp \<Rightarrow> fp \<Rightarrow> fp" is "\<lambda>a b. (a * b) mod int p25519"
  using p25519_gt by simp

instance
  by standard (transfer; use p25519_gt in \<open>simp add: mod_simps algebra_simps\<close>)+

end

lemma rep_fp_of_nat: "rep_fp (of_nat n) = int (n mod p25519)"
  by (induction n) (simp_all add: zero_fp.rep_eq plus_fp.rep_eq one_fp.rep_eq zmod_int mod_simps add.commute)

lemma of_nat_fp_eq: "(of_nat a :: fp) = of_nat b \<longleftrightarrow> a mod p25519 = b mod p25519"
  by (simp only: rep_fp_inject [symmetric] rep_fp_of_nat of_nat_eq_iff)

lemma fp_two_255: "(2 ^ 255 :: fp) = 19"
proof -
  have "(of_nat (2 ^ 255) :: fp) = of_nat 19"
    unfolding of_nat_fp_eq by (simp add: p25519_def)
  then show ?thesis by simp
qed

text \<open>The representative of an element in \<open>0 ..< p\<close>.\<close>

definition fp_nat :: "fp \<Rightarrow> nat" where
  "fp_nat x = nat (rep_fp x)"

lemma fp_nat_of_nat: "fp_nat (of_nat n) = n mod p25519"
  by (simp add: fp_nat_def rep_fp_of_nat)

lemma fp_nat_less: "fp_nat x < p25519"
  using rep_fp [of x] by (simp add: fp_nat_def nat_less_iff)

lemma of_nat_fp_nat [simp]: "of_nat (fp_nat x) = (x :: fp)"
proof -
  have "rep_fp (of_nat (fp_nat x)) = rep_fp x"
    using rep_fp [of x] fp_nat_less [of x] by (simp only: rep_fp_of_nat) (simp add: fp_nat_def)
  then show ?thesis by (simp only: rep_fp_inject)
qed

lemma fp_nat_inject: "fp_nat x = fp_nat y \<longleftrightarrow> x = y"
  by (metis of_nat_fp_nat)

end
