(* ===== verification/Curve25519.thy ===== *)
theory Curve25519
  imports Fp25519 Limbs
begin

unbundle bit_operations_syntax

text \<open>
  The field arithmetic of ed25519-donna on five limbs of 51 bits
  (\<^verbatim>\<open>curve25519-donna-64bit.h\<close>, \<^verbatim>\<open>curve25519-donna-helpers.h\<close>), with native 128-bit
  products.
\<close>

section \<open>Model\<close>

type_synonym bignum25519 = "u64 list"

definition reduce_mask_51 :: u64 where
  "reduce_mask_51 = push_bit 51 1 - 1"

definition curve25519_copy :: "bignum25519 \<Rightarrow> bignum25519" where
  "curve25519_copy inp = [inp ! 0, inp ! 1, inp ! 2, inp ! 3, inp ! 4]"

definition curve25519_add :: "bignum25519 \<Rightarrow> bignum25519 \<Rightarrow> bignum25519" where
  "curve25519_add a b = [a ! 0 + b ! 0, a ! 1 + b ! 1, a ! 2 + b ! 2, a ! 3 + b ! 3, a ! 4 + b ! 4]"

definition curve25519_add_after_basic :: "bignum25519 \<Rightarrow> bignum25519 \<Rightarrow> bignum25519" where
  "curve25519_add_after_basic a b = [a ! 0 + b ! 0, a ! 1 + b ! 1, a ! 2 + b ! 2, a ! 3 + b ! 3, a ! 4 + b ! 4]"

text \<open>The carry chain of \<^verbatim>\<open>add_reduce\<close>, \<^verbatim>\<open>sub_reduce\<close> and \<^verbatim>\<open>neg\<close>: the sums or differences of the limbs
  are its arguments.\<close>

definition carry_reduce :: "u64 \<Rightarrow> u64 \<Rightarrow> u64 \<Rightarrow> u64 \<Rightarrow> u64 \<Rightarrow> bignum25519" where
  "carry_reduce s0 s1 s2 s3 s4 =
    (let out0 = s0;     c = drop_bit 51 out0; out0 = out0 AND reduce_mask_51;
         out1 = s1 + c; c = drop_bit 51 out1; out1 = out1 AND reduce_mask_51;
         out2 = s2 + c; c = drop_bit 51 out2; out2 = out2 AND reduce_mask_51;
         out3 = s3 + c; c = drop_bit 51 out3; out3 = out3 AND reduce_mask_51;
         out4 = s4 + c; c = drop_bit 51 out4; out4 = out4 AND reduce_mask_51;
         out0 = out0 + c * 19
     in [out0, out1, out2, out3, out4])"

definition curve25519_add_reduce :: "bignum25519 \<Rightarrow> bignum25519 \<Rightarrow> bignum25519" where
  "curve25519_add_reduce a b =
    carry_reduce (a ! 0 + b ! 0) (a ! 1 + b ! 1) (a ! 2 + b ! 2) (a ! 3 + b ! 3) (a ! 4 + b ! 4)"

definition twoP0 :: u64 where "twoP0 = 0x0fffffffffffda"
definition twoP1234 :: u64 where "twoP1234 = 0x0ffffffffffffe"
definition fourP0 :: u64 where "fourP0 = 0x1fffffffffffb4"
definition fourP1234 :: u64 where "fourP1234 = 0x1ffffffffffffc"

definition curve25519_sub :: "bignum25519 \<Rightarrow> bignum25519 \<Rightarrow> bignum25519" where
  "curve25519_sub a b = [a ! 0 + twoP0 - b ! 0, a ! 1 + twoP1234 - b ! 1, a ! 2 + twoP1234 - b ! 2,
     a ! 3 + twoP1234 - b ! 3, a ! 4 + twoP1234 - b ! 4]"

definition curve25519_sub_after_basic :: "bignum25519 \<Rightarrow> bignum25519 \<Rightarrow> bignum25519" where
  "curve25519_sub_after_basic a b = [a ! 0 + fourP0 - b ! 0, a ! 1 + fourP1234 - b ! 1, a ! 2 + fourP1234 - b ! 2,
     a ! 3 + fourP1234 - b ! 3, a ! 4 + fourP1234 - b ! 4]"

definition curve25519_sub_reduce :: "bignum25519 \<Rightarrow> bignum25519 \<Rightarrow> bignum25519" where
  "curve25519_sub_reduce a b =
    carry_reduce (a ! 0 + fourP0 - b ! 0) (a ! 1 + fourP1234 - b ! 1) (a ! 2 + fourP1234 - b ! 2)
      (a ! 3 + fourP1234 - b ! 3) (a ! 4 + fourP1234 - b ! 4)"

definition curve25519_neg :: "bignum25519 \<Rightarrow> bignum25519" where
  "curve25519_neg a =
    carry_reduce (twoP0 - a ! 0) (twoP1234 - a ! 1) (twoP1234 - a ! 2) (twoP1234 - a ! 3) (twoP1234 - a ! 4)"

text \<open>The carry chain at the end of \<^verbatim>\<open>mul\<close> and \<^verbatim>\<open>square\<close>.\<close>

definition mul_carry :: "u128 \<Rightarrow> u128 \<Rightarrow> u128 \<Rightarrow> u128 \<Rightarrow> u128 \<Rightarrow> bignum25519" where
  "mul_carry t0 t1 t2 t3 t4 =
    (let                      r0 = lo128 t0 AND reduce_mask_51; c = shr128 t0 51;
         t1 = add128_64 t1 c; r1 = lo128 t1 AND reduce_mask_51; c = shr128 t1 51;
         t2 = add128_64 t2 c; r2 = lo128 t2 AND reduce_mask_51; c = shr128 t2 51;
         t3 = add128_64 t3 c; r3 = lo128 t3 AND reduce_mask_51; c = shr128 t3 51;
         t4 = add128_64 t4 c; r4 = lo128 t4 AND reduce_mask_51; c = shr128 t4 51;
         r0 = r0 + c * 19; c = drop_bit 51 r0; r0 = r0 AND reduce_mask_51;
         r1 = r1 + c
     in [r0, r1, r2, r3, r4])"

definition curve25519_mul :: "bignum25519 \<Rightarrow> bignum25519 \<Rightarrow> bignum25519" where
  "curve25519_mul in2 inp =
    (let r0 = inp ! 0; r1 = inp ! 1; r2 = inp ! 2; r3 = inp ! 3; r4 = inp ! 4;
         s0 = in2 ! 0; s1 = in2 ! 1; s2 = in2 ! 2; s3 = in2 ! 3; s4 = in2 ! 4;
         t0 = mul64x64_128 r0 s0;
         t1 = mul64x64_128 r0 s1 + mul64x64_128 r1 s0;
         t2 = mul64x64_128 r0 s2 + mul64x64_128 r2 s0 + mul64x64_128 r1 s1;
         t3 = mul64x64_128 r0 s3 + mul64x64_128 r3 s0 + mul64x64_128 r1 s2 + mul64x64_128 r2 s1;
         t4 = mul64x64_128 r0 s4 + mul64x64_128 r4 s0 + mul64x64_128 r3 s1 + mul64x64_128 r1 s3 + mul64x64_128 r2 s2;
         r1 = r1 * 19; r2 = r2 * 19; r3 = r3 * 19; r4 = r4 * 19;
         t0 = t0 + (mul64x64_128 r4 s1 + mul64x64_128 r1 s4 + mul64x64_128 r2 s3 + mul64x64_128 r3 s2);
         t1 = t1 + (mul64x64_128 r4 s2 + mul64x64_128 r2 s4 + mul64x64_128 r3 s3);
         t2 = t2 + (mul64x64_128 r4 s3 + mul64x64_128 r3 s4);
         t3 = t3 + mul64x64_128 r4 s4
     in mul_carry t0 t1 t2 t3 t4)"

definition curve25519_mul_noinline :: "bignum25519 \<Rightarrow> bignum25519 \<Rightarrow> bignum25519" where
  "curve25519_mul_noinline in2 inp = curve25519_mul in2 inp"

text \<open>The products of a squaring.\<close>

definition square_products :: "u64 \<Rightarrow> u64 \<Rightarrow> u64 \<Rightarrow> u64 \<Rightarrow> u64 \<Rightarrow> u128 \<times> u128 \<times> u128 \<times> u128 \<times> u128" where
  "square_products r0 r1 r2 r3 r4 =
    (let d0 = r0 * 2; d1 = r1 * 2; d2 = r2 * 2 * 19; d419 = r4 * 19; d4 = d419 * 2
     in (mul64x64_128 r0 r0 + mul64x64_128 d4 r1 + mul64x64_128 d2 r3,
         mul64x64_128 d0 r1 + mul64x64_128 d4 r2 + mul64x64_128 r3 (r3 * 19),
         mul64x64_128 d0 r2 + mul64x64_128 r1 r1 + mul64x64_128 d4 r3,
         mul64x64_128 d0 r3 + mul64x64_128 d1 r2 + mul64x64_128 r4 d419,
         mul64x64_128 d0 r4 + mul64x64_128 d1 r3 + mul64x64_128 r2 r2))"

text \<open>The body of the loop of \<^verbatim>\<open>square_times\<close>, with its own carry chain.\<close>

definition square_step :: "bignum25519 \<Rightarrow> bignum25519" where
  "square_step r =
    (let (t0, t1, t2, t3, t4) = square_products (r ! 0) (r ! 1) (r ! 2) (r ! 3) (r ! 4);
         r0 = lo128 t0 AND reduce_mask_51;
         r1 = lo128 t1 AND reduce_mask_51; c = shl128 t0 13; r1 = r1 + c;
         r2 = lo128 t2 AND reduce_mask_51; c = shl128 t1 13; r2 = r2 + c;
         r3 = lo128 t3 AND reduce_mask_51; c = shl128 t2 13; r3 = r3 + c;
         r4 = lo128 t4 AND reduce_mask_51; c = shl128 t3 13; r4 = r4 + c;
                                           c = shl128 t4 13; r0 = r0 + c * 19
     in carry_reduce r0 r1 r2 r3 r4)"

text \<open>The do-while loop: the body runs at least once, and \<open>count = 0\<close> would wrap around.\<close>

function square_times_loop :: "bignum25519 \<Rightarrow> u64 \<Rightarrow> bignum25519" where
  "square_times_loop r count =
    (let r = square_step r; count = count - 1
     in if count \<noteq> 0 then square_times_loop r count else r)"
  by auto
termination
proof (relation "measure (\<lambda>(r, count). unat (count - 1))")
  fix r :: bignum25519 and count :: u64 and x xa
  assume "x = square_step r" "xa = count - 1" "xa \<noteq> 0"
  then show "((x, xa), r, count) \<in> measure (\<lambda>(r, count). unat (count - 1))"
    using unat_minus_one [of "count - 1"] by (simp add: unat_eq_0 unat_gt_0)
qed simp

declare square_times_loop.simps [simp del]

definition curve25519_square_times :: "bignum25519 \<Rightarrow> u64 \<Rightarrow> bignum25519" where
  "curve25519_square_times inp count =
    square_times_loop [inp ! 0, inp ! 1, inp ! 2, inp ! 3, inp ! 4] count"

definition curve25519_square :: "bignum25519 \<Rightarrow> bignum25519" where
  "curve25519_square inp =
    (let (t0, t1, t2, t3, t4) = square_products (inp ! 0) (inp ! 1) (inp ! 2) (inp ! 3) (inp ! 4)
     in mul_carry t0 t1 t2 t3 t4)"

definition curve25519_expand :: "byte list \<Rightarrow> bignum25519" where
  "curve25519_expand inp =
    (let x0 = load64_le inp; x1 = load64_le (drop 8 inp); x2 = load64_le (drop 16 inp); x3 = load64_le (drop 24 inp);
         out0 = x0 AND reduce_mask_51; x0 = drop_bit 51 x0 OR push_bit 13 x1;
         out1 = x0 AND reduce_mask_51; x1 = drop_bit 38 x1 OR push_bit 26 x2;
         out2 = x1 AND reduce_mask_51; x2 = drop_bit 25 x2 OR push_bit 39 x3;
         out3 = x2 AND reduce_mask_51; x3 = drop_bit 12 x3;
         out4 = x3 AND reduce_mask_51
     in [out0, out1, out2, out3, out4])"

definition contract_carry :: "u64 list \<Rightarrow> u64 list" where
  "contract_carry t =
    (let t0 = t ! 0; t1 = t ! 1; t2 = t ! 2; t3 = t ! 3; t4 = t ! 4;
         t1 = t1 + drop_bit 51 t0; t0 = t0 AND reduce_mask_51;
         t2 = t2 + drop_bit 51 t1; t1 = t1 AND reduce_mask_51;
         t3 = t3 + drop_bit 51 t2; t2 = t2 AND reduce_mask_51;
         t4 = t4 + drop_bit 51 t3; t3 = t3 AND reduce_mask_51
     in [t0, t1, t2, t3, t4])"

definition contract_carry_full :: "u64 list \<Rightarrow> u64 list" where
  "contract_carry_full t =
    (let t = contract_carry t; t = t[0 := t ! 0 + 19 * drop_bit 51 (t ! 4)]
     in t[4 := t ! 4 AND reduce_mask_51])"

definition contract_carry_final :: "u64 list \<Rightarrow> u64 list" where
  "contract_carry_final t = (let t = contract_carry t in t[4 := t ! 4 AND reduce_mask_51])"

definition write51 :: "u64 list \<Rightarrow> nat \<Rightarrow> byte list" where
  "write51 t n = store64_le (drop_bit (13 * n) (t ! n) OR push_bit (51 - 13 * n) (t ! (n + 1)))"

definition curve25519_contract :: "bignum25519 \<Rightarrow> byte list" where
  "curve25519_contract inp =
    (let t = [inp ! 0, inp ! 1, inp ! 2, inp ! 3, inp ! 4];
         t = contract_carry_full t;
         t = contract_carry_full t;
         t = t[0 := t ! 0 + 19];
         t = contract_carry_full t;
         t = t[0 := t ! 0 + (reduce_mask_51 + 1 - 19)];
         t = t[1 := t ! 1 + (reduce_mask_51 + 1 - 1)];
         t = t[2 := t ! 2 + (reduce_mask_51 + 1 - 1)];
         t = t[3 := t ! 3 + (reduce_mask_51 + 1 - 1)];
         t = t[4 := t ! 4 + (reduce_mask_51 + 1 - 1)];
         t = contract_carry_final t
     in write51 t 0 @ write51 t 1 @ write51 t 2 @ write51 t 3)"

text \<open>The 96 bytes are read and written as twelve 64-bit words.\<close>

definition curve25519_move_conditional_bytes :: "byte list \<Rightarrow> byte list \<Rightarrow> u64 \<Rightarrow> byte list" where
  "curve25519_move_conditional_bytes out inp flag =
    (let nb = flag - 1; b = NOT nb
     in concat (map (\<lambda>i. store64_le ((load64_le (drop (8 * i) out) AND nb) OR (load64_le (drop (8 * i) inp) AND b))) [0..<12]))"

definition curve25519_swap_conditional :: "bignum25519 \<Rightarrow> bignum25519 \<Rightarrow> u64 \<Rightarrow> bignum25519 \<times> bignum25519" where
  "curve25519_swap_conditional a b iswap =
    (let swap = - iswap;
         x = map (\<lambda>i. swap AND (a ! i XOR b ! i)) [0..<5]
     in (map (\<lambda>i. a ! i XOR x ! i) [0..<5], map (\<lambda>i. b ! i XOR x ! i) [0..<5]))"

subsection \<open>Powers\<close>

definition curve25519_pow_two5mtwo0_two250mtwo0 :: "bignum25519 \<Rightarrow> bignum25519" where
  "curve25519_pow_two5mtwo0_two250mtwo0 b =
    (let t0 = curve25519_square_times b 5;
         b = curve25519_mul_noinline t0 b;
         t0 = curve25519_square_times b 10;
         c = curve25519_mul_noinline t0 b;
         t0 = curve25519_square_times c 20;
         t0 = curve25519_mul_noinline t0 c;
         t0 = curve25519_square_times t0 10;
         b = curve25519_mul_noinline t0 b;
         t0 = curve25519_square_times b 50;
         c = curve25519_mul_noinline t0 b;
         t0 = curve25519_square_times c 100;
         t0 = curve25519_mul_noinline t0 c;
         t0 = curve25519_square_times t0 50
     in curve25519_mul_noinline t0 b)"

definition curve25519_recip :: "bignum25519 \<Rightarrow> bignum25519" where
  "curve25519_recip z =
    (let a = curve25519_square_times z 1;
         t0 = curve25519_square_times a 2;
         b = curve25519_mul_noinline t0 z;
         a = curve25519_mul_noinline b a;
         t0 = curve25519_square_times a 1;
         b = curve25519_mul_noinline t0 b;
         b = curve25519_pow_two5mtwo0_two250mtwo0 b;
         b = curve25519_square_times b 5
     in curve25519_mul_noinline b a)"

definition curve25519_pow_two252m3 :: "bignum25519 \<Rightarrow> bignum25519" where
  "curve25519_pow_two252m3 z =
    (let c = curve25519_square_times z 1;
         t0 = curve25519_square_times c 2;
         b = curve25519_mul_noinline t0 z;
         c = curve25519_mul_noinline b c;
         t0 = curve25519_square_times c 1;
         b = curve25519_mul_noinline t0 b;
         b = curve25519_pow_two5mtwo0_two250mtwo0 b;
         b = curve25519_square_times b 2
     in curve25519_mul_noinline b z)"


section \<open>Values and bounds\<close>

text \<open>The number that the limbs denote, and limbs of bounded size. \<open>tight\<close> is what every reducing
  operation returns; \<open>loose\<close> is what multiplication and squaring accept.\<close>

definition fe :: "bignum25519 \<Rightarrow> nat" where
  "fe x = unat (x ! 0) + 2 ^ 51 * unat (x ! 1) + 2 ^ 102 * unat (x ! 2) + 2 ^ 153 * unat (x ! 3) + 2 ^ 204 * unat (x ! 4)"

definition bounded :: "nat \<Rightarrow> bignum25519 \<Rightarrow> bool" where
  "bounded m x \<longleftrightarrow> length x = 5 \<and> (\<forall>i < 5. unat (x ! i) \<le> m)"

definition tight :: "bignum25519 \<Rightarrow> bool" where
  "tight x \<longleftrightarrow> bounded (2 ^ 51 + 2 ^ 18) x"

definition loose :: "bignum25519 \<Rightarrow> bool" where
  "loose x \<longleftrightarrow> bounded (2 ^ 54) x"

definition fval :: "bignum25519 \<Rightarrow> fp" where
  "fval x = of_nat (fe x)"

lemma all_less_5: "(\<forall>i < (5 :: nat). P i) \<longleftrightarrow> P 0 \<and> P 1 \<and> P 2 \<and> P 3 \<and> P 4"
  by (simp add: numeral_eq_Suc less_Suc_eq) blast

lemma bounded_limbs [simp]:
  "bounded m [x0, x1, x2, x3, x4] \<longleftrightarrow> unat x0 \<le> m \<and> unat x1 \<le> m \<and> unat x2 \<le> m \<and> unat x3 \<le> m \<and> unat x4 \<le> m"
  by (simp add: bounded_def all_less_5)

lemma fe_limbs [simp]: "fe [x0, x1, x2, x3, x4]
   = unat x0 + 2 ^ 51 * unat x1 + 2 ^ 102 * unat x2 + 2 ^ 153 * unat x3 + 2 ^ 204 * unat x4"
  by (simp add: fe_def)

lemma boundedE:
  assumes "bounded m x"
  obtains x0 x1 x2 x3 x4 where "x = [x0, x1, x2, x3, x4]"
    "unat x0 \<le> m" "unat x1 \<le> m" "unat x2 \<le> m" "unat x3 \<le> m" "unat x4 \<le> m"
proof -
  have "length x = 5" using assms by (simp add: bounded_def)
  then obtain x0 x1 x2 x3 x4 where "x = [x0, x1, x2, x3, x4]"
    by (auto simp: numeral_eq_Suc length_Suc_conv)
  then show thesis using assms that by simp
qed

lemma bounded_mono: "bounded m x \<Longrightarrow> m \<le> n \<Longrightarrow> bounded n x"
  by (auto simp: bounded_def)

lemma tight_bounded: "tight x \<Longrightarrow> 2 ^ 51 + 2 ^ 18 \<le> m \<Longrightarrow> bounded m x"
  unfolding tight_def by (rule bounded_mono)

lemma loose_bounded: "loose x \<Longrightarrow> 2 ^ 54 \<le> m \<Longrightarrow> bounded m x"
  unfolding loose_def by (rule bounded_mono)

lemma bounded_loose: "bounded m x \<Longrightarrow> m \<le> 2 ^ 54 \<Longrightarrow> loose x"
  unfolding loose_def by (rule bounded_mono)

lemma tight_loose [simp]: "tight x \<Longrightarrow> loose x"
  unfolding loose_def by (erule tight_bounded) simp

lemmas looseE = boundedE [of "2 ^ 54", folded loose_def]

text \<open>Two numbers that differ by a multiple of \<open>p\<close> are the same field element.\<close>

lemma fp_of_nat_p: "(of_nat (a + p25519 * k) :: fp) = of_nat a"
  by (simp only: of_nat_fp_eq) simp

lemma fp_of_nat_255: "a + 2 ^ 255 * k = b + 19 * k \<Longrightarrow> (of_nat a :: fp) = of_nat b"
proof -
  assume "a + 2 ^ 255 * k = b + 19 * k"
  then have "b = a + p25519 * k" by (simp add: p25519_def algebra_simps)
  then show ?thesis by (simp only: fp_of_nat_p)
qed

subsection \<open>Words as numbers\<close>

lemma and_reduce_mask: "w AND reduce_mask_51 = take_bit 51 w"
  by (simp add: reduce_mask_51_def take_bit_eq_mask mask_eq_exp_minus_1)

lemma limb_high_51: "unat (drop_bit 51 (w :: u64)) \<le> 2 ^ 13 - 1"
  using u64_bound [of w] less_mult_imp_div_less [of "unat w" "2 ^ 13" "2 ^ 51"] by (simp add: unat_shr)

subsection \<open>The carry chain\<close>

lemma carry_reduce_correct:
  assumes s: "unat s0 < 2 ^ 64 - 2 ^ 13" "unat s1 < 2 ^ 64 - 2 ^ 13" "unat s2 < 2 ^ 64 - 2 ^ 13"
    "unat s3 < 2 ^ 64 - 2 ^ 13" "unat s4 < 2 ^ 64 - 2 ^ 13"
  shows "tight (carry_reduce s0 s1 s2 s3 s4)"
    and "fval (carry_reduce s0 s1 s2 s3 s4) = of_nat (fe [s0, s1, s2, s3, s4])"
proof -
  define o1 where "o1 = s1 + drop_bit 51 s0"
  define o2 where "o2 = s2 + drop_bit 51 o1"
  define o3 where "o3 = s3 + drop_bit 51 o2"
  define o4 where "o4 = s4 + drop_bit 51 o3"
  define c where "c = unat (drop_bit 51 o4)"
  have o: "unat o1 = unat s1 + unat (drop_bit 51 s0)" "unat o2 = unat s2 + unat (drop_bit 51 o1)"
    "unat o3 = unat s3 + unat (drop_bit 51 o2)" "unat o4 = unat s4 + unat (drop_bit 51 o3)"
    using s limb_high_51 [of s0] limb_high_51 [of o1] limb_high_51 [of o2] limb_high_51 [of o3]
    unfolding o1_def o2_def o3_def o4_def by (subst unat_add_u64; simp)+
  have c: "c \<le> 2 ^ 13 - 1" unfolding c_def by (rule limb_high_51)
  have m: "unat (drop_bit 51 o4 * 19) = c * 19"
    using c by (subst unat_mult_u64) (simp_all add: c_def)
  have f: "unat (take_bit 51 s0 + drop_bit 51 o4 * 19) = unat (take_bit 51 s0) + c * 19"
    using c limb_low [of 51 s0] by (subst unat_add_u64) (simp_all add: m)
  have eq: "carry_reduce s0 s1 s2 s3 s4
      = [take_bit 51 s0 + drop_bit 51 o4 * 19, take_bit 51 o1, take_bit 51 o2, take_bit 51 o3, take_bit 51 o4]"
    by (simp add: carry_reduce_def Let_def and_reduce_mask o1_def o2_def o3_def o4_def)
  note low = limb_low [of 51 s0] limb_low [of 51 o1] limb_low [of 51 o2] limb_low [of 51 o3] limb_low [of 51 o4]
  show "tight (carry_reduce s0 s1 s2 s3 s4)"
    using low c unfolding eq by (simp add: f tight_def)
  have "fe (carry_reduce s0 s1 s2 s3 s4) + 2 ^ 255 * c = fe [s0, s1, s2, s3, s4] + 19 * c"
    using limb_split [of s0 51] limb_split [of o1 51] limb_split [of o2 51] limb_split [of o3 51]
      limb_split [of o4 51, folded c_def] o unfolding eq by (simp add: f)
  then show "fval (carry_reduce s0 s1 s2 s3 s4) = of_nat (fe [s0, s1, s2, s3, s4])"
    unfolding fval_def by (rule fp_of_nat_255)
qed


subsection \<open>Addition and subtraction\<close>

lemma fval_add_limbs:
  "fval [x0, x1, x2, x3, x4] = of_nat (unat x0) + 2 ^ 51 * of_nat (unat x1) + 2 ^ 102 * of_nat (unat x2)
     + 2 ^ 153 * of_nat (unat x3) + 2 ^ 204 * of_nat (unat x4)"
  by (simp add: fval_def)

lemma curve25519_add_correct:
  assumes "bounded m a" "bounded n b" "m + n < 2 ^ 64"
  shows "bounded (m + n) (curve25519_add a b)" "fval (curve25519_add a b) = fval a + fval b"
proof -
  obtain a0 a1 a2 a3 a4 where a: "a = [a0, a1, a2, a3, a4]"
      "unat a0 \<le> m" "unat a1 \<le> m" "unat a2 \<le> m" "unat a3 \<le> m" "unat a4 \<le> m"
    using assms(1) by (rule boundedE)
  obtain b0 b1 b2 b3 b4 where b: "b = [b0, b1, b2, b3, b4]"
      "unat b0 \<le> n" "unat b1 \<le> n" "unat b2 \<le> n" "unat b3 \<le> n" "unat b4 \<le> n"
    using assms(2) by (rule boundedE)
  have u: "unat (x + y) = unat x + unat y" if "unat x \<le> m" "unat y \<le> n" for x y :: u64
    using that assms(3) by (intro unat_add_u64) linarith
  show "bounded (m + n) (curve25519_add a b)" using a b by (simp add: curve25519_add_def u)
  have "fe (curve25519_add a b) = fe a + fe b" using a b by (simp add: curve25519_add_def u)
  then show "fval (curve25519_add a b) = fval a + fval b" by (simp add: fval_def)
qed

lemma add_after_basic_eq: "curve25519_add_after_basic = curve25519_add"
  by (intro ext) (simp add: curve25519_add_after_basic_def curve25519_add_def)

text \<open>A subtraction that adds a multiple of \<open>p\<close> first does not wrap around.\<close>

definition plus_multiple :: "u64 \<Rightarrow> u64 \<Rightarrow> bignum25519 \<Rightarrow> bignum25519 \<Rightarrow> bignum25519" where
  "plus_multiple q0 q a b = [a ! 0 + q0 - b ! 0, a ! 1 + q - b ! 1, a ! 2 + q - b ! 2, a ! 3 + q - b ! 3, a ! 4 + q - b ! 4]"

lemma plus_multiple_correct:
  assumes "bounded m a" "bounded n b" and q: "n \<le> unat q0" "unat q0 \<le> unat q" "m + unat q < 2 ^ 64"
    and p: "of_nat (fe [q0, q, q, q, q]) = (0 :: fp)"
  shows "bounded (m + unat q) (plus_multiple q0 q a b)" "fval (plus_multiple q0 q a b) = fval a - fval b"
proof -
  obtain a0 a1 a2 a3 a4 where a: "a = [a0, a1, a2, a3, a4]"
      "unat a0 \<le> m" "unat a1 \<le> m" "unat a2 \<le> m" "unat a3 \<le> m" "unat a4 \<le> m"
    using assms(1) by (rule boundedE)
  obtain b0 b1 b2 b3 b4 where b: "b = [b0, b1, b2, b3, b4]"
      "unat b0 \<le> n" "unat b1 \<le> n" "unat b2 \<le> n" "unat b3 \<le> n" "unat b4 \<le> n"
    using assms(2) by (rule boundedE)
  have u: "unat (x + r - y) + unat y = unat x + unat r" if "unat x \<le> m" "unat y \<le> n" "r = q0 \<or> r = q" for x y r :: u64
  proof -
    have *: "unat r \<le> unat q" "n \<le> unat r" using that q by auto
    then have "unat (x + r) = unat x + unat r" using that q by (intro unat_add_u64) linarith
    then show ?thesis using that * by (subst unat_sub_u64) simp_all
  qed
  have v: "unat (x + r - y) \<le> m + unat q" if "unat x \<le> m" "unat y \<le> n" "r = q0 \<or> r = q" for x y r :: u64
    using u [OF that] that q by auto
  show "bounded (m + unat q) (plus_multiple q0 q a b)" using a b by (simp add: plus_multiple_def v)
  have "fe (plus_multiple q0 q a b) + fe b = fe a + fe [q0, q, q, q, q]"
    using u [of a0 b0 q0] u [of a1 b1 q] u [of a2 b2 q] u [of a3 b3 q] u [of a4 b4 q] a b
    by (simp add: plus_multiple_def)
  then have "fval (plus_multiple q0 q a b) + fval b = fval a"
    unfolding fval_def using p by (metis add.right_neutral of_nat_add)
  then show "fval (plus_multiple q0 q a b) = fval a - fval b" by (simp add: eq_diff_eq)
qed

lemma multiples_of_p:
  "of_nat (fe [twoP0, twoP1234, twoP1234, twoP1234, twoP1234]) = (0 :: fp)"
  "of_nat (fe [fourP0, fourP1234, fourP1234, fourP1234, fourP1234]) = (0 :: fp)"
proof -
  have "fe [twoP0, twoP1234, twoP1234, twoP1234, twoP1234] = 0 + p25519 * 2"
    "fe [fourP0, fourP1234, fourP1234, fourP1234, fourP1234] = 0 + p25519 * 4"
    by (simp_all add: twoP0_def twoP1234_def fourP0_def fourP1234_def p25519_def)
  then show "of_nat (fe [twoP0, twoP1234, twoP1234, twoP1234, twoP1234]) = (0 :: fp)"
    "of_nat (fe [fourP0, fourP1234, fourP1234, fourP1234, fourP1234]) = (0 :: fp)"
    by (simp_all only: fp_of_nat_p semiring_1_class.of_nat_0)
qed

lemma curve25519_sub_correct:
  assumes "bounded m a" "bounded (2 ^ 52 - 38) b" "m < 2 ^ 63"
  shows "bounded (m + 2 ^ 52) (curve25519_sub a b)" "fval (curve25519_sub a b) = fval a - fval b"
proof -
  have eq: "curve25519_sub a b = plus_multiple twoP0 twoP1234 a b"
    by (simp add: curve25519_sub_def plus_multiple_def)
  note * = plus_multiple_correct [OF assms(1,2) _ _ _ multiples_of_p(1)]
  show "fval (curve25519_sub a b) = fval a - fval b"
    unfolding eq using assms(3) by (intro *(2)) (simp_all add: twoP0_def twoP1234_def)
  have "bounded (m + unat twoP1234) (curve25519_sub a b)"
    unfolding eq using assms(3) by (intro *(1)) (simp_all add: twoP0_def twoP1234_def)
  then show "bounded (m + 2 ^ 52) (curve25519_sub a b)" by (rule bounded_mono) (simp add: twoP1234_def)
qed

lemma curve25519_sub_after_basic_correct:
  assumes "bounded m a" "bounded (2 ^ 53 - 76) b" "m < 2 ^ 63"
  shows "bounded (m + 2 ^ 53) (curve25519_sub_after_basic a b)" "fval (curve25519_sub_after_basic a b) = fval a - fval b"
proof -
  have eq: "curve25519_sub_after_basic a b = plus_multiple fourP0 fourP1234 a b"
    by (simp add: curve25519_sub_after_basic_def plus_multiple_def)
  note * = plus_multiple_correct [OF assms(1,2) _ _ _ multiples_of_p(2)]
  show "fval (curve25519_sub_after_basic a b) = fval a - fval b"
    unfolding eq using assms(3) by (intro *(2)) (simp_all add: fourP0_def fourP1234_def)
  have "bounded (m + unat fourP1234) (curve25519_sub_after_basic a b)"
    unfolding eq using assms(3) by (intro *(1)) (simp_all add: fourP0_def fourP1234_def)
  then show "bounded (m + 2 ^ 53) (curve25519_sub_after_basic a b)" by (rule bounded_mono) (simp add: fourP1234_def)
qed

text \<open>The reducing operations run the carry chain over the sums and differences.\<close>

lemma carry_reduce_list:
  assumes "bounded m x" "m < 2 ^ 64 - 2 ^ 13"
  shows "tight (carry_reduce (x ! 0) (x ! 1) (x ! 2) (x ! 3) (x ! 4))"
    "fval (carry_reduce (x ! 0) (x ! 1) (x ! 2) (x ! 3) (x ! 4)) = fval x"
proof -
  obtain x0 x1 x2 x3 x4 where x: "x = [x0, x1, x2, x3, x4]"
      "unat x0 \<le> m" "unat x1 \<le> m" "unat x2 \<le> m" "unat x3 \<le> m" "unat x4 \<le> m"
    using assms(1) by (rule boundedE)
  then have "unat x0 < 2 ^ 64 - 2 ^ 13" "unat x1 < 2 ^ 64 - 2 ^ 13" "unat x2 < 2 ^ 64 - 2 ^ 13"
     "unat x3 < 2 ^ 64 - 2 ^ 13" "unat x4 < 2 ^ 64 - 2 ^ 13" using assms(2) by linarith+
  from carry_reduce_correct [OF this]
  show "tight (carry_reduce (x ! 0) (x ! 1) (x ! 2) (x ! 3) (x ! 4))"
    "fval (carry_reduce (x ! 0) (x ! 1) (x ! 2) (x ! 3) (x ! 4)) = fval x"
    by (simp_all add: x(1) fval_def del: fe_limbs bounded_limbs)
qed

lemma curve25519_add_reduce_correct:
  assumes "loose a" "loose b"
  shows "tight (curve25519_add_reduce a b)" "fval (curve25519_add_reduce a b) = fval a + fval b"
proof -
  have eq: "curve25519_add_reduce a b = carry_reduce (curve25519_add a b ! 0) (curve25519_add a b ! 1)
      (curve25519_add a b ! 2) (curve25519_add a b ! 3) (curve25519_add a b ! 4)"
    by (simp add: curve25519_add_reduce_def curve25519_add_def)
  note * = curve25519_add_correct [OF assms [unfolded loose_def]]
  show "tight (curve25519_add_reduce a b)" unfolding eq by (rule carry_reduce_list [OF *(1)]) simp_all
  show "fval (curve25519_add_reduce a b) = fval a + fval b"
    unfolding eq by (subst carry_reduce_list(2) [OF *(1)]) (simp_all add: *(2))
qed

lemma curve25519_sub_reduce_correct:
  assumes "loose a" "bounded (2 ^ 53 - 76) b"
  shows "tight (curve25519_sub_reduce a b)" "fval (curve25519_sub_reduce a b) = fval a - fval b"
proof -
  let ?d = "curve25519_sub_after_basic a b"
  have eq: "curve25519_sub_reduce a b = carry_reduce (?d ! 0) (?d ! 1) (?d ! 2) (?d ! 3) (?d ! 4)"
    by (simp add: curve25519_sub_reduce_def curve25519_sub_after_basic_def)
  note * = curve25519_sub_after_basic_correct [OF assms(1) [unfolded loose_def] assms(2)]
  show "tight (curve25519_sub_reduce a b)" unfolding eq by (rule carry_reduce_list [OF *(1)]) simp_all
  show "fval (curve25519_sub_reduce a b) = fval a - fval b"
    unfolding eq by (subst carry_reduce_list(2) [OF *(1)]) (simp_all add: *(2))
qed

lemma curve25519_neg_correct:
  assumes "tight a"
  shows "tight (curve25519_neg a)" "fval (curve25519_neg a) = - fval a"
proof -
  let ?d = "curve25519_sub [0, 0, 0, 0, 0] a"
  have eq: "curve25519_neg a = carry_reduce (?d ! 0) (?d ! 1) (?d ! 2) (?d ! 3) (?d ! 4)"
    by (simp add: curve25519_neg_def curve25519_sub_def)
  have "bounded 0 [0, 0, 0, 0, 0]" "bounded (2 ^ 52 - 38) a" by (simp, rule tight_bounded [OF assms], simp)
  note * = curve25519_sub_correct [OF this]
  show "tight (curve25519_neg a)" unfolding eq by (rule carry_reduce_list [OF *(1)]) simp_all
  show "fval (curve25519_neg a) = - fval a"
    unfolding eq by (subst carry_reduce_list(2) [OF *(1)]) (simp_all add: *(2), simp add: fval_def)
qed


subsection \<open>Multiplication and squaring\<close>

lemma unat_lo128_mask: "unat (lo128 t AND reduce_mask_51) = unat t mod 2 ^ 51"
  unfolding and_reduce_mask lo128_def unsigned_take_bit_eq
  by (simp add: unat_u64_of_u128 take_bit_eq_mod mod_mod_cancel)

lemma wide_split: "unat (t :: u128) = 2 ^ 51 * (unat t div 2 ^ 51) + unat (lo128 t AND reduce_mask_51)"
  unfolding unat_lo128_mask by simp

lemma wide_low: "unat (lo128 t AND reduce_mask_51) \<le> 2 ^ 51 - 1"
  unfolding unat_lo128_mask by (rule mod_le_pred) simp

lemma wide_carry:
  assumes "unat t < 2 ^ 115"
  shows "unat (shr128 t 51) = unat t div 2 ^ 51" "unat (shl128 t 13) = unat t div 2 ^ 51" "unat t div 2 ^ 51 < 2 ^ 64"
proof -
  show lt: "unat t div 2 ^ 51 < 2 ^ 64" using assms less_mult_imp_div_less [of "unat t" "2 ^ 64" "2 ^ 51"] by simp
  then show "unat (shr128 t 51) = unat t div 2 ^ 51" unfolding shr128_def by (rule unat_carry_out)
  have "unat (push_bit 13 t) = 2 ^ 13 * unat t"
    using assms by (simp add: push_bit_eq_mult unat_word_ariths(2))
  then have "unat (push_bit 13 t) div 2 ^ 64 = unat t div 2 ^ 51"
    using div_mult_mult1 [of "2 ^ 13" "unat t" "2 ^ 51"] by simp
  then show "unat (shl128 t 13) = unat t div 2 ^ 51"
    unfolding shl128_def using lt unat_carry_out [of "push_bit 13 t" 64] by simp
qed

lemma mul_carry_correct:
  assumes t: "unat t0 < 2 ^ 115" "unat t1 < 2 ^ 115 - 2 ^ 64" "unat t2 < 2 ^ 115 - 2 ^ 64"
    "unat t3 < 2 ^ 115 - 2 ^ 64" "unat t4 < 6 * 2 ^ 108 - 2 ^ 64"
  shows "tight (mul_carry t0 t1 t2 t3 t4)"
    "fval (mul_carry t0 t1 t2 t3 t4) = of_nat (unat t0 + 2 ^ 51 * unat t1 + 2 ^ 102 * unat t2 + 2 ^ 153 * unat t3 + 2 ^ 204 * unat t4)"
proof -
  define u1 where "u1 = add128_64 t1 (shr128 t0 51)"
  define u2 where "u2 = add128_64 t2 (shr128 u1 51)"
  define u3 where "u3 = add128_64 t3 (shr128 u2 51)"
  define u4 where "u4 = add128_64 t4 (shr128 u3 51)"
  define c where "c = unat u4 div 2 ^ 51"
  define r0 where "r0 = (lo128 t0 AND reduce_mask_51) + shr128 u4 51 * 19"
  have add: "unat (add128_64 a b) = unat a + unat b" if "unat a + unat b < 2 ^ 128" for a b
    unfolding add128_64_def using that by (subst unat_add_u128) (simp_all add: unat_u128_of_u64)
  note k0 = wide_carry [OF t(1)]
  have u1: "unat u1 = unat t1 + unat t0 div 2 ^ 51" "unat u1 < 2 ^ 115"
    using t k0 unfolding u1_def by (subst add; simp)+
  note k1 = wide_carry [OF u1(2)]
  have u2: "unat u2 = unat t2 + unat u1 div 2 ^ 51" "unat u2 < 2 ^ 115"
    using t k1 unfolding u2_def by (subst add; simp)+
  note k2 = wide_carry [OF u2(2)]
  have u3: "unat u3 = unat t3 + unat u2 div 2 ^ 51" "unat u3 < 2 ^ 115"
    using t k2 unfolding u3_def by (subst add; simp)+
  note k3 = wide_carry [OF u3(2)]
  have u4: "unat u4 = unat t4 + unat u3 div 2 ^ 51" "unat u4 < 6 * 2 ^ 108"
    using t k3 unfolding u4_def by (subst add; simp)+
  have c: "c < 6 * 2 ^ 57" using u4(2) less_mult_imp_div_less [of "unat u4" "6 * 2 ^ 57" "2 ^ 51"] by (simp add: c_def)
  have sc: "unat (shr128 u4 51) = c" unfolding c_def using u4(2) by (intro wide_carry) simp
  have "unat (shr128 u4 51 * 19) = c * 19" using c by (subst unat_mult_u64) (simp_all add: sc)
  then have r0: "unat r0 = unat (lo128 t0 AND reduce_mask_51) + c * 19"
    using c wide_low [of t0] unfolding r0_def by (subst unat_add_u64) simp_all
  have r1: "unat ((lo128 u1 AND reduce_mask_51) + drop_bit 51 r0) = unat (lo128 u1 AND reduce_mask_51) + unat (drop_bit 51 r0)"
    using wide_low [of u1] limb_high_51 [of r0] by (subst unat_add_u64) simp_all
  have eq: "mul_carry t0 t1 t2 t3 t4 = [take_bit 51 r0, (lo128 u1 AND reduce_mask_51) + drop_bit 51 r0,
      lo128 u2 AND reduce_mask_51, lo128 u3 AND reduce_mask_51, lo128 u4 AND reduce_mask_51]"
    unfolding mul_carry_def Let_def u1_def u2_def u3_def u4_def r0_def by (simp only: and_reduce_mask)
  show "tight (mul_carry t0 t1 t2 t3 t4)"
    using limb_low [of 51 r0] wide_low [of u1] wide_low [of u2] wide_low [of u3] wide_low [of u4] limb_high_51 [of r0]
    unfolding eq by (simp add: r1 tight_def)
  have "fe (mul_carry t0 t1 t2 t3 t4) + 2 ^ 255 * c
      = (unat t0 + 2 ^ 51 * unat t1 + 2 ^ 102 * unat t2 + 2 ^ 153 * unat t3 + 2 ^ 204 * unat t4) + 19 * c"
    using wide_split [of t0] wide_split [of u1] wide_split [of u2] wide_split [of u3] wide_split [of u4, folded c_def]
      limb_split [of r0 51] r0 u1(1) u2(1) u3(1) u4(1) unfolding eq by (simp add: r1)
  then show "fval (mul_carry t0 t1 t2 t3 t4)
      = of_nat (unat t0 + 2 ^ 51 * unat t1 + 2 ^ 102 * unat t2 + 2 ^ 153 * unat t3 + 2 ^ 204 * unat t4)"
    unfolding fval_def by (rule fp_of_nat_255)
qed

text \<open>Schoolbook multiplication with the folding of the high limbs, in any ring where the fifth power
  of the radix is 19.\<close>

lemma radix_product:
  fixes B :: "'a :: comm_ring_1"
  assumes "B ^ 5 = 19"
  shows "(r0 + B * r1 + B ^ 2 * r2 + B ^ 3 * r3 + B ^ 4 * r4) * (s0 + B * s1 + B ^ 2 * s2 + B ^ 3 * s3 + B ^ 4 * s4)
    = (r0 * s0 + (r4 * 19 * s1 + r1 * 19 * s4 + r2 * 19 * s3 + r3 * 19 * s2))
      + B * (r0 * s1 + r1 * s0 + (r4 * 19 * s2 + r2 * 19 * s4 + r3 * 19 * s3))
      + B ^ 2 * (r0 * s2 + r2 * s0 + r1 * s1 + (r4 * 19 * s3 + r3 * 19 * s4))
      + B ^ 3 * (r0 * s3 + r3 * s0 + r1 * s2 + r2 * s1 + r4 * 19 * s4)
      + B ^ 4 * (r0 * s4 + r4 * s0 + r3 * s1 + r1 * s3 + r2 * s2)"
  unfolding assms [symmetric] by (simp add: algebra_simps numeral_eq_Suc)


lemma limb_product_bound: "x \<le> 2 ^ 54 \<Longrightarrow> y \<le> 2 ^ 54 \<Longrightarrow> x * y \<le> (2 :: nat) ^ 108"
  using mult_le_mono [of x "2 ^ 54" y "2 ^ 54"] by simp

lemma unat_mult_small: "unat x \<le> 2 ^ 54 \<Longrightarrow> n \<le> 38 \<Longrightarrow> unat (x * of_nat n :: u64) = unat x * n"
  using mult_le_mono [of "unat x" "2 ^ 54" n 38] by (subst unat_mult_u64) (simp_all add: unat_of_nat)

lemma unat_mult_19: "unat x \<le> 2 ^ 54 \<Longrightarrow> unat (x * 19 :: u64) = unat x * 19"
  and unat_mult_2: "unat x \<le> 2 ^ 54 \<Longrightarrow> unat (x * 2 :: u64) = unat x * 2"
  and unat_mult_38: "unat x \<le> 2 ^ 54 \<Longrightarrow> unat (x * 38 :: u64) = unat x * 38"
  using unat_mult_small [of x 19] unat_mult_small [of x 2] unat_mult_small [of x 38] by simp_all

lemma fp_radix: "((2 ^ 51) ^ 5 :: fp) = 19"
  by (simp only: power_mult [symmetric] fp_two_255 [symmetric]) simp

lemma fval_radix: "fval [x0, x1, x2, x3, x4] = of_nat (unat x0) + 2 ^ 51 * of_nat (unat x1) + (2 ^ 51) ^ 2 * of_nat (unat x2)
     + (2 ^ 51) ^ 3 * of_nat (unat x3) + (2 ^ 51) ^ 4 * of_nat (unat x4)"
  by (simp only: power_mult [symmetric]) (simp add: fval_def)

lemma curve25519_mul_correct:
  assumes "loose a" "loose b"
  shows "tight (curve25519_mul a b)" "fval (curve25519_mul a b) = fval a * fval b"
proof -
  obtain s0 s1 s2 s3 s4 where a: "a = [s0, s1, s2, s3, s4]" and
      s: "unat s0 \<le> 2 ^ 54" "unat s1 \<le> 2 ^ 54" "unat s2 \<le> 2 ^ 54" "unat s3 \<le> 2 ^ 54" "unat s4 \<le> 2 ^ 54"
    using assms(1) by (rule looseE)
  obtain r0 r1 r2 r3 r4 where b: "b = [r0, r1, r2, r3, r4]" and
      r: "unat r0 \<le> 2 ^ 54" "unat r1 \<le> 2 ^ 54" "unat r2 \<le> 2 ^ 54" "unat r3 \<le> 2 ^ 54" "unat r4 \<le> 2 ^ 54"
    using assms(2) by (rule looseE)
  define n0 where "n0 = unat r0 * unat s0 + (unat r4 * 19 * unat s1 + unat r1 * 19 * unat s4 + unat r2 * 19 * unat s3 + unat r3 * 19 * unat s2)"
  define n1 where "n1 = unat r0 * unat s1 + unat r1 * unat s0 + (unat r4 * 19 * unat s2 + unat r2 * 19 * unat s4 + unat r3 * 19 * unat s3)"
  define n2 where "n2 = unat r0 * unat s2 + unat r2 * unat s0 + unat r1 * unat s1 + (unat r4 * 19 * unat s3 + unat r3 * 19 * unat s4)"
  define n3 where "n3 = unat r0 * unat s3 + unat r3 * unat s0 + unat r1 * unat s2 + unat r2 * unat s1 + unat r4 * 19 * unat s4"
  define n4 where "n4 = unat r0 * unat s4 + unat r4 * unat s0 + unat r3 * unat s1 + unat r1 * unat s3 + unat r2 * unat s2"
  note P = limb_product_bound [OF r(1) s(1)] limb_product_bound [OF r(1) s(2)] limb_product_bound [OF r(1) s(3)]
    limb_product_bound [OF r(1) s(4)] limb_product_bound [OF r(1) s(5)] limb_product_bound [OF r(2) s(1)] limb_product_bound [OF r(2) s(2)]
    limb_product_bound [OF r(2) s(3)] limb_product_bound [OF r(2) s(4)] limb_product_bound [OF r(2) s(5)] limb_product_bound [OF r(3) s(1)]
    limb_product_bound [OF r(3) s(2)] limb_product_bound [OF r(3) s(3)] limb_product_bound [OF r(3) s(4)] limb_product_bound [OF r(3) s(5)]
    limb_product_bound [OF r(4) s(1)] limb_product_bound [OF r(4) s(2)] limb_product_bound [OF r(4) s(3)] limb_product_bound [OF r(4) s(4)]
    limb_product_bound [OF r(4) s(5)] limb_product_bound [OF r(5) s(1)] limb_product_bound [OF r(5) s(2)] limb_product_bound [OF r(5) s(3)]
    limb_product_bound [OF r(5) s(4)] limb_product_bound [OF r(5) s(5)]
  have n: "n0 \<le> 77 * 2 ^ 108" "n1 \<le> 77 * 2 ^ 108" "n2 \<le> 77 * 2 ^ 108" "n3 \<le> 77 * 2 ^ 108" "n4 \<le> 5 * 2 ^ 108"
    unfolding n0_def n1_def n2_def n3_def n4_def using P by (simp_all add: mult.assoc)
  have eq: "curve25519_mul a b = mul_carry (of_nat n0) (of_nat n1) (of_nat n2) (of_nat n3) (of_nat n4)"
  proof -
    have "curve25519_mul a b = mul_carry
        (mul64x64_128 r0 s0 + (mul64x64_128 (r4 * 19) s1 + mul64x64_128 (r1 * 19) s4 + mul64x64_128 (r2 * 19) s3 + mul64x64_128 (r3 * 19) s2))
        (mul64x64_128 r0 s1 + mul64x64_128 r1 s0 + (mul64x64_128 (r4 * 19) s2 + mul64x64_128 (r2 * 19) s4 + mul64x64_128 (r3 * 19) s3))
        (mul64x64_128 r0 s2 + mul64x64_128 r2 s0 + mul64x64_128 r1 s1 + (mul64x64_128 (r4 * 19) s3 + mul64x64_128 (r3 * 19) s4))
        (mul64x64_128 r0 s3 + mul64x64_128 r3 s0 + mul64x64_128 r1 s2 + mul64x64_128 r2 s1 + mul64x64_128 (r4 * 19) s4)
        (mul64x64_128 r0 s4 + mul64x64_128 r4 s0 + mul64x64_128 r3 s1 + mul64x64_128 r1 s3 + mul64x64_128 r2 s2)"
      by (simp add: curve25519_mul_def Let_def a b)
    then show ?thesis
      unfolding mul64x64_128_of_nat unat_mult_19 [OF r(2)] unat_mult_19 [OF r(3)] unat_mult_19 [OF r(4)] unat_mult_19 [OF r(5)]
        n0_def n1_def n2_def n3_def n4_def of_nat_add .
  qed
  have u: "unat (of_nat n0 :: u128) = n0" "unat (of_nat n1 :: u128) = n1" "unat (of_nat n2 :: u128) = n2"
      "unat (of_nat n3 :: u128) = n3" "unat (of_nat n4 :: u128) = n4"
    using n by (subst unat_of_nat_u128; simp)+
  have t: "unat (of_nat n0 :: u128) < 2 ^ 115" "unat (of_nat n1 :: u128) < 2 ^ 115 - 2 ^ 64"
      "unat (of_nat n2 :: u128) < 2 ^ 115 - 2 ^ 64" "unat (of_nat n3 :: u128) < 2 ^ 115 - 2 ^ 64"
      "unat (of_nat n4 :: u128) < 6 * 2 ^ 108 - 2 ^ 64" unfolding u using n by simp_all
  show "tight (curve25519_mul a b)" unfolding eq by (rule mul_carry_correct [OF t])
  have "fval (curve25519_mul a b) = of_nat n0 + 2 ^ 51 * of_nat n1 + (2 ^ 51) ^ 2 * of_nat n2 + (2 ^ 51) ^ 3 * of_nat n3 + (2 ^ 51) ^ 4 * of_nat n4"
    unfolding eq mul_carry_correct(2) [OF t] u by (simp only: power_mult [symmetric]) simp
  also have "\<dots> = fval b * fval a"
    unfolding a b fval_radix radix_product [OF fp_radix] n0_def n1_def n2_def n3_def n4_def by simp
  finally show "fval (curve25519_mul a b) = fval a * fval b" by (simp add: mult.commute)
qed


lemma square_productsE:
  assumes r: "unat r0 \<le> 2 ^ 54" "unat r1 \<le> 2 ^ 54" "unat r2 \<le> 2 ^ 54" "unat r3 \<le> 2 ^ 54" "unat r4 \<le> 2 ^ 54"
  obtains t0 t1 t2 t3 t4 where "square_products r0 r1 r2 r3 r4 = (t0, t1, t2, t3, t4)"
    "unat t0 \<le> 77 * 2 ^ 108" "unat t1 \<le> 77 * 2 ^ 108" "unat t2 \<le> 77 * 2 ^ 108" "unat t3 \<le> 77 * 2 ^ 108" "unat t4 \<le> 5 * 2 ^ 108"
    "of_nat (unat t0 + 2 ^ 51 * unat t1 + 2 ^ 102 * unat t2 + 2 ^ 153 * unat t3 + 2 ^ 204 * unat t4)
      = fval [r0, r1, r2, r3, r4] * fval [r0, r1, r2, r3, r4]"
proof -
  define n0 where "n0 = unat r0 * unat r0 + unat r4 * 38 * unat r1 + unat r2 * 38 * unat r3"
  define n1 where "n1 = unat r0 * 2 * unat r1 + unat r4 * 38 * unat r2 + unat r3 * (unat r3 * 19)"
  define n2 where "n2 = unat r0 * 2 * unat r2 + unat r1 * unat r1 + unat r4 * 38 * unat r3"
  define n3 where "n3 = unat r0 * 2 * unat r3 + unat r1 * 2 * unat r2 + unat r4 * (unat r4 * 19)"
  define n4 where "n4 = unat r0 * 2 * unat r4 + unat r1 * 2 * unat r3 + unat r2 * unat r2"
  note P = limb_product_bound [OF r(1) r(1)] limb_product_bound [OF r(1) r(2)] limb_product_bound [OF r(1) r(3)]
    limb_product_bound [OF r(1) r(4)] limb_product_bound [OF r(1) r(5)] limb_product_bound [OF r(2) r(2)]
    limb_product_bound [OF r(2) r(3)] limb_product_bound [OF r(2) r(4)] limb_product_bound [OF r(5) r(2)] 
    limb_product_bound [OF r(3) r(3)] limb_product_bound [OF r(3) r(4)] limb_product_bound [OF r(5) r(3)]
    limb_product_bound [OF r(4) r(4)] limb_product_bound [OF r(5) r(4)] limb_product_bound [OF r(5) r(5)]
  have n: "n0 \<le> 77 * 2 ^ 108" "n1 \<le> 77 * 2 ^ 108" "n2 \<le> 77 * 2 ^ 108" "n3 \<le> 77 * 2 ^ 108" "n4 \<le> 5 * 2 ^ 108"
    unfolding n0_def n1_def n2_def n3_def n4_def using P by (simp_all add: mult.assoc)
  have "square_products r0 r1 r2 r3 r4 =
     (mul64x64_128 r0 r0 + mul64x64_128 (r4 * 38) r1 + mul64x64_128 (r2 * 38) r3,
      mul64x64_128 (r0 * 2) r1 + mul64x64_128 (r4 * 38) r2 + mul64x64_128 r3 (r3 * 19),
      mul64x64_128 (r0 * 2) r2 + mul64x64_128 r1 r1 + mul64x64_128 (r4 * 38) r3,
      mul64x64_128 (r0 * 2) r3 + mul64x64_128 (r1 * 2) r2 + mul64x64_128 r4 (r4 * 19),
      mul64x64_128 (r0 * 2) r4 + mul64x64_128 (r1 * 2) r3 + mul64x64_128 r2 r2)"
    by (simp add: square_products_def Let_def mult.assoc)
  also have "\<dots> = (of_nat n0, of_nat n1, of_nat n2, of_nat n3, of_nat n4)"
    unfolding mul64x64_128_of_nat unat_mult_2 [OF r(1)] unat_mult_2 [OF r(2)] unat_mult_38 [OF r(3)] unat_mult_38 [OF r(5)]
      unat_mult_19 [OF r(4)] unat_mult_19 [OF r(5)] n0_def n1_def n2_def n3_def n4_def of_nat_add ..
  finally have eq: "square_products r0 r1 r2 r3 r4 = (of_nat n0, of_nat n1, of_nat n2, of_nat n3, of_nat n4)" .
  have u: "unat (of_nat n0 :: u128) = n0" "unat (of_nat n1 :: u128) = n1" "unat (of_nat n2 :: u128) = n2"
      "unat (of_nat n3 :: u128) = n3" "unat (of_nat n4 :: u128) = n4"
    using n by (subst unat_of_nat_u128; simp)+
  have "of_nat (n0 + 2 ^ 51 * n1 + 2 ^ 102 * n2 + 2 ^ 153 * n3 + 2 ^ 204 * n4)
      = of_nat n0 + 2 ^ 51 * of_nat n1 + (2 ^ 51) ^ 2 * of_nat n2 + (2 ^ 51) ^ 3 * of_nat n3 + (2 ^ 51) ^ 4 * (of_nat n4 :: fp)"
    by (simp only: power_mult [symmetric]) simp
  also have "\<dots> = fval [r0, r1, r2, r3, r4] * fval [r0, r1, r2, r3, r4]"
    unfolding fval_radix radix_product [OF fp_radix] n0_def n1_def n2_def n3_def n4_def by (simp add: algebra_simps)
  finally show thesis using that [OF eq] n unfolding u by blast
qed

lemma curve25519_square_correct:
  assumes "loose a"
  shows "tight (curve25519_square a)" "fval (curve25519_square a) = fval a * fval a"
proof -
  obtain r0 r1 r2 r3 r4 where a: "a = [r0, r1, r2, r3, r4]" and
      r: "unat r0 \<le> 2 ^ 54" "unat r1 \<le> 2 ^ 54" "unat r2 \<le> 2 ^ 54" "unat r3 \<le> 2 ^ 54" "unat r4 \<le> 2 ^ 54"
    using assms by (rule looseE)
  obtain t0 t1 t2 t3 t4 where sp: "square_products r0 r1 r2 r3 r4 = (t0, t1, t2, t3, t4)"
    and t: "unat t0 \<le> 77 * 2 ^ 108" "unat t1 \<le> 77 * 2 ^ 108" "unat t2 \<le> 77 * 2 ^ 108" "unat t3 \<le> 77 * 2 ^ 108" "unat t4 \<le> 5 * 2 ^ 108"
    and v: "of_nat (unat t0 + 2 ^ 51 * unat t1 + 2 ^ 102 * unat t2 + 2 ^ 153 * unat t3 + 2 ^ 204 * unat t4) = fval a * fval a"
    unfolding a by (rule square_productsE [OF r])
  have eq: "curve25519_square a = mul_carry t0 t1 t2 t3 t4" using sp by (simp add: curve25519_square_def a)
  have b: "unat t0 < 2 ^ 115" "unat t1 < 2 ^ 115 - 2 ^ 64" "unat t2 < 2 ^ 115 - 2 ^ 64"
    "unat t3 < 2 ^ 115 - 2 ^ 64" "unat t4 < 6 * 2 ^ 108 - 2 ^ 64" using t by simp_all
  show "tight (curve25519_square a)" unfolding eq by (rule mul_carry_correct [OF b])
  show "fval (curve25519_square a) = fval a * fval a" unfolding eq mul_carry_correct(2) [OF b] by (rule v)
qed

lemma square_step_correct:
  assumes "loose a"
  shows "tight (square_step a)" "fval (square_step a) = fval a * fval a"
proof -
  obtain r0 r1 r2 r3 r4 where a: "a = [r0, r1, r2, r3, r4]" and
      r: "unat r0 \<le> 2 ^ 54" "unat r1 \<le> 2 ^ 54" "unat r2 \<le> 2 ^ 54" "unat r3 \<le> 2 ^ 54" "unat r4 \<le> 2 ^ 54"
    using assms by (rule looseE)
  obtain t0 t1 t2 t3 t4 where sp: "square_products r0 r1 r2 r3 r4 = (t0, t1, t2, t3, t4)"
    and t: "unat t0 \<le> 77 * 2 ^ 108" "unat t1 \<le> 77 * 2 ^ 108" "unat t2 \<le> 77 * 2 ^ 108" "unat t3 \<le> 77 * 2 ^ 108" "unat t4 \<le> 5 * 2 ^ 108"
    and v: "of_nat (unat t0 + 2 ^ 51 * unat t1 + 2 ^ 102 * unat t2 + 2 ^ 153 * unat t3 + 2 ^ 204 * unat t4) = fval a * fval a"
    unfolding a by (rule square_productsE [OF r])
  define m where "m x = (lo128 x AND reduce_mask_51)" for x
  define s0 where "s0 = m t0 + shl128 t4 13 * 19"
  have eq: "square_step a = carry_reduce s0 (m t1 + shl128 t0 13) (m t2 + shl128 t1 13) (m t3 + shl128 t2 13) (m t4 + shl128 t3 13)"
    using sp by (simp add: square_step_def Let_def a m_def s0_def)
  have m: "unat (m x) \<le> 2 ^ 51 - 1" "unat x = 2 ^ 51 * (unat x div 2 ^ 51) + unat (m x)" for x
    unfolding m_def by (rule wide_low, rule wide_split)
  have q: "unat x div 2 ^ 51 \<le> 77 * 2 ^ 57" if "unat x \<le> 77 * 2 ^ 108" for x :: u128
    using div_le_mono [OF that, of "2 ^ 51"] by simp
  have q4: "unat t4 div 2 ^ 51 \<le> 5 * 2 ^ 57" using div_le_mono [OF t(5), of "2 ^ 51"] by simp
  have c: "unat (shl128 t0 13) = unat t0 div 2 ^ 51" "unat (shl128 t1 13) = unat t1 div 2 ^ 51" "unat (shl128 t2 13) = unat t2 div 2 ^ 51"
      "unat (shl128 t3 13) = unat t3 div 2 ^ 51" "unat (shl128 t4 13) = unat t4 div 2 ^ 51"
    using t by (intro wide_carry(2); simp)+
  have w: "unat (m x + shl128 y 13) = unat (m x) + unat y div 2 ^ 51" if "unat y \<le> 77 * 2 ^ 108" for x y
    using m(1) [of x] q [OF that] wide_carry(2) [of y] that by (subst unat_add_u64) simp_all
  have "unat (shl128 t4 13 * 19) = unat t4 div 2 ^ 51 * 19" using q4 by (subst unat_mult_u64) (simp_all add: c)
  then have s0: "unat s0 = unat (m t0) + unat t4 div 2 ^ 51 * 19"
    using m(1) [of t0] q4 unfolding s0_def by (subst unat_add_u64) simp_all
  have s: "unat s0 < 2 ^ 64 - 2 ^ 13" "unat (m t1 + shl128 t0 13) < 2 ^ 64 - 2 ^ 13" "unat (m t2 + shl128 t1 13) < 2 ^ 64 - 2 ^ 13"
      "unat (m t3 + shl128 t2 13) < 2 ^ 64 - 2 ^ 13" "unat (m t4 + shl128 t3 13) < 2 ^ 64 - 2 ^ 13"
    using m(1) [of t0] m(1) [of t1] m(1) [of t2] m(1) [of t3] m(1) [of t4] q4 q [OF t(1)] q [OF t(2)] q [OF t(3)] q [OF t(4)]
    by (simp_all add: s0 w [OF t(1)] w [OF t(2)] w [OF t(3)] w [OF t(4)])
  show "tight (square_step a)" unfolding eq by (rule carry_reduce_correct [OF s])
  have "fe [s0, m t1 + shl128 t0 13, m t2 + shl128 t1 13, m t3 + shl128 t2 13, m t4 + shl128 t3 13] + 2 ^ 255 * (unat t4 div 2 ^ 51)
      = (unat t0 + 2 ^ 51 * unat t1 + 2 ^ 102 * unat t2 + 2 ^ 153 * unat t3 + 2 ^ 204 * unat t4) + 19 * (unat t4 div 2 ^ 51)"
    using m(2) [of t0] m(2) [of t1] m(2) [of t2] m(2) [of t3] m(2) [of t4]
    by (simp add: s0 w [OF t(1)] w [OF t(2)] w [OF t(3)] w [OF t(4)])
  then show "fval (square_step a) = fval a * fval a"
    unfolding eq carry_reduce_correct(2) [OF s] v [symmetric] by (rule fp_of_nat_255)
qed

lemma square_times_loop_correct:
  assumes "loose a" "count \<noteq> 0"
  shows "tight (square_times_loop a count) \<and> fval (square_times_loop a count) = fval a ^ (2 ^ unat count)"
  using assms
proof (induction a count rule: square_times_loop.induct)
  case (1 r count)
  note sq = square_step_correct [OF \<open>loose r\<close>]
  show ?case
  proof (cases "count = 1")
    case True
    then show ?thesis using sq by (subst (1 2) square_times_loop.simps) (simp add: power2_eq_square)
  next
    case False
    then have "count - 1 \<noteq> 0" by simp
    then have "unat count = Suc (unat (count - 1))"
      using \<open>count \<noteq> 0\<close> by (simp add: unat_minus_one unat_gt_0)
    then show ?thesis
      using 1(1) [OF refl refl \<open>count - 1 \<noteq> 0\<close> tight_loose [OF sq(1)] \<open>count - 1 \<noteq> 0\<close>] sq(2) \<open>count - 1 \<noteq> 0\<close>
      by (subst (1 2) square_times_loop.simps) (simp add: Let_def power2_eq_square [symmetric] power_mult [symmetric])
  qed
qed

lemma limbs_eta: "length x = 5 \<Longrightarrow> [x ! 0, x ! 1, x ! 2, x ! 3, x ! 4] = x"
  by (auto simp: numeral_eq_Suc length_Suc_conv)

lemma curve25519_square_times_correct:
  assumes "loose a" "count \<noteq> 0"
  shows "tight (curve25519_square_times a count)" "fval (curve25519_square_times a count) = fval a ^ (2 ^ unat count)"
proof -
  have "curve25519_square_times a count = square_times_loop a count"
    unfolding curve25519_square_times_def using assms(1) by (simp only: limbs_eta bounded_def loose_def)
  then show "tight (curve25519_square_times a count)" "fval (curve25519_square_times a count) = fval a ^ (2 ^ unat count)"
    using square_times_loop_correct [OF assms] by simp_all
qed

subsection \<open>Powers\<close>

lemma mul_noinline_eq: "curve25519_mul_noinline = curve25519_mul"
  by (intro ext) (simp add: curve25519_mul_noinline_def)

text \<open>One square-and-multiply step of the addition chains: from exponents \<open>m\<close> and \<open>n\<close> to
  \<open>m * 2 ^ k + n\<close>.\<close>

lemma chain_step:
  assumes "loose a \<and> fval a = x ^ m" "loose b \<and> fval b = x ^ n" "k \<noteq> 0"
  shows "loose (curve25519_mul_noinline (curve25519_square_times a k) b)
    \<and> fval (curve25519_mul_noinline (curve25519_square_times a k) b) = x ^ (m * 2 ^ unat k + n)"
proof -
  note sq = curve25519_square_times_correct [of a k] and mul = curve25519_mul_correct [of "curve25519_square_times a k" b]
  show ?thesis using assms sq mul by (simp add: mul_noinline_eq tight_loose power_mult power_add)
qed

lemma pow_two250:
  assumes "loose b" "fval b = x ^ 31"
  shows "loose (curve25519_pow_two5mtwo0_two250mtwo0 b) \<and> fval (curve25519_pow_two5mtwo0_two250mtwo0 b) = x ^ (2 ^ 250 - 1)"
proof -
  define b1 where "b1 = curve25519_mul_noinline (curve25519_square_times b 5) b"
  define c1 where "c1 = curve25519_mul_noinline (curve25519_square_times b1 10) b1"
  define t1 where "t1 = curve25519_mul_noinline (curve25519_square_times c1 20) c1"
  define b2 where "b2 = curve25519_mul_noinline (curve25519_square_times t1 10) b1"
  define c2 where "c2 = curve25519_mul_noinline (curve25519_square_times b2 50) b2"
  define t2 where "t2 = curve25519_mul_noinline (curve25519_square_times c2 100) c2"
  have eq: "curve25519_pow_two5mtwo0_two250mtwo0 b = curve25519_mul_noinline (curve25519_square_times t2 50) b2"
    by (simp only: curve25519_pow_two5mtwo0_two250mtwo0_def Let_def b1_def c1_def t1_def b2_def c2_def t2_def)
  have "loose b \<and> fval b = x ^ 31" using assms by simp
  from chain_step [OF this this, of 5] have b1: "loose b1 \<and> fval b1 = x ^ (2 ^ 10 - 1)" by (simp add: b1_def)
  from chain_step [OF this this, of 10] have c1: "loose c1 \<and> fval c1 = x ^ (2 ^ 20 - 1)" by (simp add: c1_def)
  from chain_step [OF this this, of 20] have t1: "loose t1 \<and> fval t1 = x ^ (2 ^ 40 - 1)" by (simp add: t1_def)
  from chain_step [OF this b1, of 10] have b2: "loose b2 \<and> fval b2 = x ^ (2 ^ 50 - 1)" by (simp add: b2_def)
  from chain_step [OF this this, of 50] have c2: "loose c2 \<and> fval c2 = x ^ (2 ^ 100 - 1)" by (simp add: c2_def)
  from chain_step [OF this this, of 100] have t2: "loose t2 \<and> fval t2 = x ^ (2 ^ 200 - 1)" by (simp add: t2_def)
  from chain_step [OF this b2, of 50] show ?thesis by (simp add: eq)
qed

text \<open>The first steps of both chains: exponents 2, 9, 11 and 31.\<close>

lemma pow_11_31:
  assumes "loose z"
  defines "a \<equiv> curve25519_square_times z 1"
  defines "b \<equiv> curve25519_mul_noinline (curve25519_square_times a 2) z"
  defines "c \<equiv> curve25519_mul_noinline b a"
  defines "d \<equiv> curve25519_mul_noinline (curve25519_square_times c 1) b"
  shows "loose c \<and> fval c = fval z ^ 11" "loose d \<and> fval d = fval z ^ 31"
proof -
  have z: "loose z \<and> fval z = fval z ^ 1" using assms(1) by simp
  have a: "loose a \<and> fval a = fval z ^ 2"
    using curve25519_square_times_correct [of z 1] assms(1) by (simp add: a_def tight_loose)
  from chain_step [OF this z, of 2] have b: "loose b \<and> fval b = fval z ^ 9" by (simp add: b_def)
  then show c: "loose c \<and> fval c = fval z ^ 11"
    using a curve25519_mul_correct [of b a] by (simp add: c_def mul_noinline_eq tight_loose power_add [symmetric])
  from chain_step [OF this b, of 1] show "loose d \<and> fval d = fval z ^ 31" by (simp add: d_def)
qed

lemma curve25519_recip_correct:
  assumes "loose z"
  shows "tight (curve25519_recip z)" "fval (curve25519_recip z) = fval z ^ (p25519 - 2)"
proof -
  note c = pow_11_31 [OF assms]
  from c(2) pow_two250 have d: "loose (curve25519_pow_two5mtwo0_two250mtwo0 d) \<and> fval (curve25519_pow_two5mtwo0_two250mtwo0 d) = fval z ^ (2 ^ 250 - 1)"
    if "d = curve25519_mul_noinline (curve25519_square_times (curve25519_mul_noinline (curve25519_mul_noinline
       (curve25519_square_times (curve25519_square_times z 1) 2) z) (curve25519_square_times z 1)) 1)
       (curve25519_mul_noinline (curve25519_square_times (curve25519_square_times z 1) 2) z)" for d
    using that by blast
  from chain_step [OF d [OF refl] c(1), of 5] have "fval (curve25519_recip z) = fval z ^ (p25519 - 2)"
    unfolding curve25519_recip_def Let_def by (simp add: p25519_def)
  then show "fval (curve25519_recip z) = fval z ^ (p25519 - 2)" .
  show "tight (curve25519_recip z)"
    unfolding curve25519_recip_def Let_def mul_noinline_eq
    using c(1) d [OF refl] curve25519_square_times_correct(1) [of _ 5]
    by (intro curve25519_mul_correct) (simp_all add: mul_noinline_eq tight_loose)
qed

lemma curve25519_pow_two252m3_correct:
  assumes "loose z"
  shows "tight (curve25519_pow_two252m3 z)" "fval (curve25519_pow_two252m3 z) = fval z ^ ((p25519 - 5) div 8)"
proof -
  note c = pow_11_31 [OF assms]
  have z: "loose z \<and> fval z = fval z ^ 1" using assms by simp
  from c(2) pow_two250 have d: "loose (curve25519_pow_two5mtwo0_two250mtwo0 d) \<and> fval (curve25519_pow_two5mtwo0_two250mtwo0 d) = fval z ^ (2 ^ 250 - 1)"
    if "d = curve25519_mul_noinline (curve25519_square_times (curve25519_mul_noinline (curve25519_mul_noinline
       (curve25519_square_times (curve25519_square_times z 1) 2) z) (curve25519_square_times z 1)) 1)
       (curve25519_mul_noinline (curve25519_square_times (curve25519_square_times z 1) 2) z)" for d
    using that by blast
  from chain_step [OF d [OF refl] z, of 2] show "fval (curve25519_pow_two252m3 z) = fval z ^ ((p25519 - 5) div 8)"
    unfolding curve25519_pow_two252m3_def Let_def by (simp add: p25519_def)
  show "tight (curve25519_pow_two252m3 z)"
    unfolding curve25519_pow_two252m3_def Let_def mul_noinline_eq
    using assms d [OF refl] curve25519_square_times_correct(1) [of _ 2]
    by (intro curve25519_mul_correct) (simp_all add: mul_noinline_eq tight_loose)
qed


subsection \<open>Conversions\<close>

lemma expand_numbers:
  fixes x0 x1 x2 x3 :: nat
  shows "x0 mod 2 ^ 51 + 2 ^ 51 * (x0 div 2 ^ 51 + 2 ^ 13 * (x1 mod 2 ^ 38)) + 2 ^ 102 * (x1 div 2 ^ 38 + 2 ^ 26 * (x2 mod 2 ^ 25))
      + 2 ^ 153 * (x2 div 2 ^ 25 + 2 ^ 39 * (x3 mod 2 ^ 12)) + 2 ^ 204 * (x3 div 2 ^ 12 mod 2 ^ 51)
    + 2 ^ 255 * (x3 div 2 ^ 12 div 2 ^ 51) = x0 + 2 ^ 64 * x1 + 2 ^ 128 * x2 + 2 ^ 192 * x3"
proof -
  have lin: "m0 + 2 ^ 51 * (q0 + 2 ^ 13 * m1) + 2 ^ 102 * (q1 + 2 ^ 26 * m2) + 2 ^ 153 * (q2 + 2 ^ 39 * m3) + 2 ^ 204 * m4 + 2 ^ 255 * q4
      = x0 + 2 ^ 64 * x1 + 2 ^ 128 * x2 + 2 ^ 192 * x3"
    if "2 ^ 51 * q0 + m0 = x0" "2 ^ 38 * q1 + m1 = x1" "2 ^ 25 * q2 + m2 = x2" "2 ^ 12 * q3 + m3 = x3" "2 ^ 51 * q4 + m4 = q3"
    for m0 m1 m2 m3 m4 q0 q1 q2 q3 q4 :: nat
    unfolding that [symmetric] by (simp add: algebra_simps)
  show ?thesis by (rule lin [OF mult_div_mod_eq mult_div_mod_eq mult_div_mod_eq mult_div_mod_eq mult_div_mod_eq])
qed

lemma limbs_less_255:
  assumes "unat x0 \<le> 2 ^ 51 - 1" "unat x1 \<le> 2 ^ 51 - 1" "unat x2 \<le> 2 ^ 51 - 1" "unat x3 \<le> 2 ^ 51 - 1" "unat x4 \<le> 2 ^ 51 - 1"
  shows "fe [x0, x1, x2, x3, x4] < 2 ^ 255"
  using assms by simp

lemma curve25519_expand_correct:
  assumes "length inp = 32"
  shows "bounded (2 ^ 51 - 1) (curve25519_expand inp)" "fe (curve25519_expand inp) = le_nat inp mod 2 ^ 255"
proof -
  define x0 x1 x2 x3 where x: "x0 = load64_le inp" "x1 = load64_le (drop 8 inp)" "x2 = load64_le (drop 16 inp)" "x3 = load64_le (drop 24 inp)"
  have eq: "curve25519_expand inp = [take_bit 51 x0, take_bit 51 (drop_bit 51 x0 OR push_bit 13 x1),
      take_bit 51 (drop_bit 38 x1 OR push_bit 26 x2), take_bit 51 (drop_bit 25 x2 OR push_bit 39 x3), take_bit 51 (drop_bit 12 x3)]"
    by (simp add: curve25519_expand_def Let_def x and_reduce_mask)
  show b: "bounded (2 ^ 51 - 1) (curve25519_expand inp)"
    unfolding eq bounded_limbs by (intro conjI limb_low)
  have l: "unat (take_bit 51 x0) = unat x0 mod 2 ^ 51"
      "unat (take_bit 51 (drop_bit 12 x3)) = unat x3 div 2 ^ 12 mod 2 ^ 51"
    unfolding unsigned_take_bit_eq unat_shr by (simp_all only: take_bit_eq_mod)
  have j: "unat (take_bit 51 (drop_bit 51 x0 OR push_bit 13 x1)) = unat x0 div 2 ^ 51 + 2 ^ 13 * (unat x1 mod 2 ^ 38)"
      "unat (take_bit 51 (drop_bit 38 x1 OR push_bit 26 x2)) = unat x1 div 2 ^ 38 + 2 ^ 26 * (unat x2 mod 2 ^ 25)"
      "unat (take_bit 51 (drop_bit 25 x2 OR push_bit 39 x3)) = unat x2 div 2 ^ 25 + 2 ^ 39 * (unat x3 mod 2 ^ 12)"
    using unat_limb_join [of "drop_bit 51 x0" 13 51 x1] unat_limb_join [of "drop_bit 38 x1" 26 51 x2]
      unat_limb_join [of "drop_bit 25 x2" 39 51 x3] unat_shr_less [of 51 x0] unat_shr_less [of 38 x1] unat_shr_less [of 25 x2]
    by (simp_all add: unat_shr)
  have "fe (curve25519_expand inp) + 2 ^ 255 * (unat x3 div 2 ^ 12 div 2 ^ 51) = le_nat inp"
    unfolding eq fe_limbs l j le_nat_words [OF assms] x [symmetric] by (rule expand_numbers)
  moreover have "fe (curve25519_expand inp) < 2 ^ 255"
    using b unfolding eq bounded_limbs by (intro limbs_less_255) simp_all
  ultimately show "fe (curve25519_expand inp) = le_nat inp mod 2 ^ 255"
    by (metis mod_less mod_mult_self2)
qed

text \<open>The carries of \<^verbatim>\<open>contract\<close> keep the number; the full carry folds what is above \<open>2 ^ 255\<close>.\<close>

lemma contract_carryE:
  assumes "bounded m t" "m < 2 ^ 63"
  obtains t0 t1 t2 t3 t4 where "contract_carry t = [t0, t1, t2, t3, t4]" "fe [t0, t1, t2, t3, t4] = fe t"
    "unat t0 \<le> 2 ^ 51 - 1" "unat t1 \<le> 2 ^ 51 - 1" "unat t2 \<le> 2 ^ 51 - 1" "unat t3 \<le> 2 ^ 51 - 1" "unat t4 \<le> m + 2 ^ 13"
proof -
  obtain x0 x1 x2 x3 x4 where t: "t = [x0, x1, x2, x3, x4]" and
      x: "unat x0 \<le> m" "unat x1 \<le> m" "unat x2 \<le> m" "unat x3 \<le> m" "unat x4 \<le> m"
    using assms(1) by (rule boundedE)
  define o1 where "o1 = x1 + drop_bit 51 x0"
  define o2 where "o2 = x2 + drop_bit 51 o1"
  define o3 where "o3 = x3 + drop_bit 51 o2"
  define o4 where "o4 = x4 + drop_bit 51 o3"
  have o: "unat o1 = unat x1 + unat (drop_bit 51 x0)" "unat o2 = unat x2 + unat (drop_bit 51 o1)"
    "unat o3 = unat x3 + unat (drop_bit 51 o2)" "unat o4 = unat x4 + unat (drop_bit 51 o3)"
    using x assms(2) limb_high_51 [of x0] limb_high_51 [of o1] limb_high_51 [of o2] limb_high_51 [of o3]
    unfolding o1_def o2_def o3_def o4_def by (subst unat_add_u64; simp)+
  have "contract_carry t = [take_bit 51 x0, take_bit 51 o1, take_bit 51 o2, take_bit 51 o3, o4]"
    by (simp add: contract_carry_def Let_def t and_reduce_mask o1_def o2_def o3_def o4_def)
  moreover have "fe [take_bit 51 x0, take_bit 51 o1, take_bit 51 o2, take_bit 51 o3, o4] = fe t"
    using limb_split [of x0 51] limb_split [of o1 51] limb_split [of o2 51] limb_split [of o3 51] o unfolding t by simp
  moreover have "unat o4 \<le> m + 2 ^ 13" using o(4) x(5) limb_high_51 [of o3] by simp
  ultimately show thesis by (rule that [OF _ _ limb_low limb_low limb_low limb_low])
qed

lemma fe_top:
  assumes "unat t0 \<le> 2 ^ 51 - 1" "unat t1 \<le> 2 ^ 51 - 1" "unat t2 \<le> 2 ^ 51 - 1" "unat t3 \<le> 2 ^ 51 - 1"
  shows "fe [t0, t1, t2, t3, t4] div 2 ^ 255 = unat (drop_bit 51 t4)"
    and "fe [t0, t1, t2, t3, t4] mod 2 ^ 255 = fe [t0, t1, t2, t3, take_bit 51 t4]"
proof -
  have "fe [t0, t1, t2, t3, take_bit 51 t4] < 2 ^ 255"
    using assms limb_low [of 51 t4] by (intro limbs_less_255)
  moreover have "fe [t0, t1, t2, t3, t4] = fe [t0, t1, t2, t3, take_bit 51 t4] + 2 ^ 255 * unat (drop_bit 51 t4)"
    using limb_split [of t4 51] by simp
  ultimately show "fe [t0, t1, t2, t3, t4] div 2 ^ 255 = unat (drop_bit 51 t4)"
    "fe [t0, t1, t2, t3, t4] mod 2 ^ 255 = fe [t0, t1, t2, t3, take_bit 51 t4]"
    by (rule div_mod_of_sum; assumption)+
qed

lemma contract_carry_finalE:
  assumes "bounded m t" "m < 2 ^ 63"
  shows "bounded (2 ^ 51 - 1) (contract_carry_final t)" "fe (contract_carry_final t) = fe t mod 2 ^ 255"
proof -
  obtain t0 t1 t2 t3 t4 where t: "contract_carry t = [t0, t1, t2, t3, t4]" "fe [t0, t1, t2, t3, t4] = fe t"
    "unat t0 \<le> 2 ^ 51 - 1" "unat t1 \<le> 2 ^ 51 - 1" "unat t2 \<le> 2 ^ 51 - 1" "unat t3 \<le> 2 ^ 51 - 1" "unat t4 \<le> m + 2 ^ 13"
    using contract_carryE [OF assms] by blast
  have eq: "contract_carry_final t = [t0, t1, t2, t3, take_bit 51 t4]"
    by (simp add: contract_carry_final_def Let_def t(1) and_reduce_mask)
  show "bounded (2 ^ 51 - 1) (contract_carry_final t)"
    unfolding eq bounded_limbs using t by (intro conjI limb_low) simp_all
  show "fe (contract_carry_final t) = fe t mod 2 ^ 255" unfolding eq t(2) [symmetric] by (rule fe_top(2) [OF t(3-6), symmetric])
qed

lemma contract_carry_full_correct:
  assumes "bounded m t" "m < 2 ^ 63"
  defines "c \<equiv> fe t div 2 ^ 255"
  shows "bounded (2 ^ 51 + 2 ^ 18) (contract_carry_full t)"
    "fe (contract_carry_full t) = fe t mod 2 ^ 255 + 19 * c"
    "c = 0 \<or> fe (contract_carry_full t) < 2 ^ 51 \<Longrightarrow> bounded (2 ^ 51 - 1) (contract_carry_full t)"
proof -
  obtain t0 t1 t2 t3 t4 where t: "contract_carry t = [t0, t1, t2, t3, t4]" "fe [t0, t1, t2, t3, t4] = fe t"
    "unat t0 \<le> 2 ^ 51 - 1" "unat t1 \<le> 2 ^ 51 - 1" "unat t2 \<le> 2 ^ 51 - 1" "unat t3 \<le> 2 ^ 51 - 1" "unat t4 \<le> m + 2 ^ 13"
    using contract_carryE [OF assms(1,2)] by blast
  have c: "c = unat (drop_bit 51 t4)" unfolding c_def t(2) [symmetric] by (rule fe_top(1) [OF t(3-6)])
  have eq: "contract_carry_full t = [t0 + 19 * drop_bit 51 t4, t1, t2, t3, take_bit 51 t4]"
    by (simp add: contract_carry_full_def Let_def t(1) and_reduce_mask)
  have "unat (19 * drop_bit 51 t4) = 19 * c" using limb_high_51 [of t4] by (subst unat_mult_u64) (simp_all add: c)
  then have u: "unat (t0 + 19 * drop_bit 51 t4) = unat t0 + 19 * c"
    using t(3) limb_high_51 [of t4] by (subst unat_add_u64) (simp_all add: c)
  show "bounded (2 ^ 51 + 2 ^ 18) (contract_carry_full t)"
    unfolding eq using t(3-6) limb_low [of 51 t4] limb_high_51 [of t4] by (simp add: u c)
  have "fe t mod 2 ^ 255 = fe [t0, t1, t2, t3, take_bit 51 t4]" unfolding t(2) [symmetric] by (rule fe_top(2) [OF t(3-6)])
  then show *: "fe (contract_carry_full t) = fe t mod 2 ^ 255 + 19 * c" unfolding eq by (simp add: u)
  assume "c = 0 \<or> fe (contract_carry_full t) < 2 ^ 51"
  then have "unat (t0 + 19 * drop_bit 51 t4) \<le> 2 ^ 51 - 1" using t(3) unfolding eq by (auto simp: u)
  then show "bounded (2 ^ 51 - 1) (contract_carry_full t)" unfolding eq using t(4-6) limb_low [of 51 t4] by simp
qed

text \<open>Below \<open>2 ^ 255\<close> with all limbs carried, 19 more and a carry give 19 more than the remainder.\<close>

lemma contract_plus_19:
  assumes "bounded (2 ^ 51 - 1) t"
  shows "bounded (2 ^ 51 - 1) (contract_carry_full (t[0 := t ! 0 + 19]))"
    "fe (contract_carry_full (t[0 := t ! 0 + 19])) = fe t mod p25519 + 19"
proof -
  obtain x0 x1 x2 x3 x4 where t: "t = [x0, x1, x2, x3, x4]" and
      x: "unat x0 \<le> 2 ^ 51 - 1" "unat x1 \<le> 2 ^ 51 - 1" "unat x2 \<le> 2 ^ 51 - 1" "unat x3 \<le> 2 ^ 51 - 1" "unat x4 \<le> 2 ^ 51 - 1"
    using assms by (rule boundedE)
  let ?t = "t[0 := t ! 0 + 19]"
  have u: "unat (x0 + 19) = unat x0 + 19" using x(1) by (subst unat_add_u64) simp_all
  have b: "bounded (2 ^ 52) ?t" using x unfolding t by (simp add: u)
  have f: "fe ?t = fe t + 19" unfolding t by (simp add: u)
  have lt: "fe t < 2 ^ 255" unfolding t by (rule limbs_less_255 [OF x])
  note F = contract_carry_full_correct [OF b]
  have v: "fe (contract_carry_full ?t) = fe t mod p25519 + 19 \<and> (fe ?t div 2 ^ 255 = 0 \<or> fe (contract_carry_full ?t) < 2 ^ 51)"
  proof (cases "fe t < p25519")
    case True
    then have "fe ?t < 2 ^ 255" unfolding f by (simp add: p25519_def)
    then show ?thesis using F(2) True unfolding f by simp
  next
    case False
    then have "fe t mod p25519 = fe t - p25519" using lt by (simp add: p25519_def le_mod_geq)
    moreover have "fe ?t = (fe t - p25519) + 2 ^ 255" using False unfolding f by (simp add: p25519_def)
    moreover have "fe t - p25519 < 19" using lt by (simp add: p25519_def)
    moreover have "fe ?t div 2 ^ 255 = 1" "fe ?t mod 2 ^ 255 = fe t - p25519"
      using calculation(2,3) by (intro div_mod_of_sum [of "fe t - p25519"]; simp)+
    ultimately show ?thesis using F(2) by simp
  qed
  then show "fe (contract_carry_full ?t) = fe t mod p25519 + 19" by simp
  show "bounded (2 ^ 51 - 1) (contract_carry_full ?t)" using v by (intro F(3)) (simp, blast)
qed

lemma contract_minus_19:
  assumes "bounded (2 ^ 51 - 1) t"
  defines "k \<equiv> reduce_mask_51 + 1"
  defines "s \<equiv> [t ! 0 + (k - 19), t ! 1 + (k - 1), t ! 2 + (k - 1), t ! 3 + (k - 1), t ! 4 + (k - 1)]"
  shows "bounded (2 ^ 52) s" "fe s + 19 = fe t + 2 ^ 255"
proof -
  obtain x0 x1 x2 x3 x4 where t: "t = [x0, x1, x2, x3, x4]" and
      x: "unat x0 \<le> 2 ^ 51 - 1" "unat x1 \<le> 2 ^ 51 - 1" "unat x2 \<le> 2 ^ 51 - 1" "unat x3 \<le> 2 ^ 51 - 1" "unat x4 \<le> 2 ^ 51 - 1"
    using assms(1) by (rule boundedE)
  have k: "k - 19 = 2251799813685229" "k - 1 = 2251799813685247" by (simp_all add: k_def reduce_mask_51_def)
  have u: "unat (x0 + 2251799813685229) = unat x0 + 2251799813685229" using x by (subst unat_add_u64) simp_all
  have v: "unat (y + 2251799813685247) = unat y + 2251799813685247" if "unat y \<le> 2 ^ 51 - 1" for y :: u64
    using that by (subst unat_add_u64) simp_all
  show "bounded (2 ^ 52) s" "fe s + 19 = fe t + 2 ^ 255"
    using x v [OF x(2)] v [OF x(3)] v [OF x(4)] v [OF x(5)] unfolding s_def k t by (simp_all add: u)
qed

lemma write51_correct:
  assumes "bounded (2 ^ 51 - 1) t"
  shows "write51 t 0 @ write51 t 1 @ write51 t 2 @ write51 t 3 = le_bytes 32 (fe t)"
proof (rule le_nat_inject)
  obtain x0 x1 x2 x3 x4 where t: "t = [x0, x1, x2, x3, x4]" and
      x: "unat x0 \<le> 2 ^ 51 - 1" "unat x1 \<le> 2 ^ 51 - 1" "unat x2 \<le> 2 ^ 51 - 1" "unat x3 \<le> 2 ^ 51 - 1" "unat x4 \<le> 2 ^ 51 - 1"
    using assms by (rule boundedE)
  have j: "unat (x0 OR push_bit 51 x1) = unat x0 + 2 ^ 51 * (unat x1 mod 2 ^ 13)"
    "unat (drop_bit 13 x1 OR push_bit 38 x2) = unat x1 div 2 ^ 13 + 2 ^ 38 * (unat x2 mod 2 ^ 26)"
    "unat (drop_bit 26 x2 OR push_bit 25 x3) = unat x2 div 2 ^ 26 + 2 ^ 25 * (unat x3 mod 2 ^ 39)"
    "unat (drop_bit 39 x3 OR push_bit 12 x4) = unat x3 div 2 ^ 39 + 2 ^ 12 * (unat x4 mod 2 ^ 52)"
    using x unat_or_disjoint [of x0 51 x1] unat_or_disjoint [of "drop_bit 13 x1" 38 x2] unat_or_disjoint [of "drop_bit 26 x2" 25 x3]
      unat_or_disjoint [of "drop_bit 39 x3" 12 x4] less_mult_imp_div_less [of "unat x1" "2 ^ 38" "2 ^ 13"]
      less_mult_imp_div_less [of "unat x2" "2 ^ 25" "2 ^ 26"] less_mult_imp_div_less [of "unat x3" "2 ^ 12" "2 ^ 39"]
    by (simp_all add: unat_shr)
  have lin: "(x + 2 ^ 51 * m1) + 2 ^ 64 * ((q1 + 2 ^ 38 * m2) + 2 ^ 64 * ((q2 + 2 ^ 25 * m3) + 2 ^ 64 * (q3 + 2 ^ 12 * y)))
      = x + 2 ^ 51 * z1 + 2 ^ 102 * z2 + 2 ^ 153 * z3 + 2 ^ 204 * y"
    if "2 ^ 13 * q1 + m1 = z1" "2 ^ 26 * q2 + m2 = z2" "2 ^ 39 * q3 + m3 = z3" for x y m1 m2 m3 q1 q2 q3 z1 z2 z3 :: nat
    unfolding that [symmetric] by (simp add: algebra_simps)
  have "unat x4 mod 2 ^ 52 = unat x4" using x by simp
  then have "le_nat (write51 t 0 @ write51 t 1 @ write51 t 2 @ write51 t 3) = fe t"
    using lin [OF mult_div_mod_eq [of "2 ^ 13" "unat x1"] mult_div_mod_eq [of "2 ^ 26" "unat x2"] mult_div_mod_eq [of "2 ^ 39" "unat x3"],
      of "unat x0" "unat x4"] j
    unfolding le_nat_append t by (simp add: write51_def)
  moreover have "fe t < 2 ^ 255" unfolding t by (rule limbs_less_255 [OF x])
  ultimately show "le_nat (write51 t 0 @ write51 t 1 @ write51 t 2 @ write51 t 3) = le_nat (le_bytes 32 (fe t))"
    by (simp add: le_nat_le_bytes)
qed (simp add: write51_def)

lemma curve25519_contract_correct:
  assumes "loose a"
  shows "curve25519_contract a = le_bytes 32 (fp_nat (fval a))"
proof -
  define t1 where "t1 = contract_carry_full a"
  define t2 where "t2 = contract_carry_full t1"
  define t3 where "t3 = contract_carry_full (t2[0 := t2 ! 0 + 19])"
  define k where "k = reduce_mask_51 + 1"
  define t4 where "t4 = [t3 ! 0 + (k - 19), t3 ! 1 + (k - 1), t3 ! 2 + (k - 1), t3 ! 3 + (k - 1), t3 ! 4 + (k - 1)]"
  have a: "bounded (2 ^ 54) a" using assms by (simp add: loose_def)
  note F1 = contract_carry_full_correct [OF a, folded t1_def]
  have "fe a < 9 * 2 ^ 255" using a by (rule boundedE) simp
  then have c1: "fe a div 2 ^ 255 < 9" by (simp add: less_mult_imp_div_less)
  have m: "fe a mod 2 ^ 255 \<le> 2 ^ 255 - 1" by (rule mod_le_pred) simp
  have v1: "fe t1 \<le> 2 ^ 255 + 151" using F1(2) m c1 by simp
  note F2 = contract_carry_full_correct [OF F1(1), folded t2_def]
  have d: "fe t1 div 2 ^ 255 = 0 \<or> fe t2 < 2 ^ 51"
  proof (cases "fe t1 < 2 ^ 255")
    case False
    then have "fe t1 = (fe t1 - 2 ^ 255) + 2 ^ 255" "fe t1 - 2 ^ 255 \<le> 151" using v1 by simp_all
    then have "fe t1 mod 2 ^ 255 \<le> 151" "fe t1 div 2 ^ 255 = 1" using v1 by (simp_all add: le_mod_geq le_div_geq)
    then show ?thesis using F2(2) by simp
  qed simp
  have b2: "bounded (2 ^ 51 - 1) t2" using F2(3) d by simp
  note F3 = contract_plus_19 [OF b2, folded t3_def]
  note F4 = contract_minus_19 [OF F3(1), folded k_def, folded t4_def]
  note F5 = contract_carry_finalE [OF F4(1)]
  have w: "(of_nat (fe x mod 2 ^ 255 + 19 * (fe x div 2 ^ 255)) :: fp) = of_nat (fe x)" for x
    using mod_mult_div_eq [of "fe x" "2 ^ 255"] by (intro fp_of_nat_255 [of _ "fe x div 2 ^ 255"]) simp
  have "fe t1 = fe a mod 2 ^ 255 + 19 * (fe a div 2 ^ 255)" "fe t2 = fe t1 mod 2 ^ 255 + 19 * (fe t1 div 2 ^ 255)"
    by (rule F1(2), simp, rule F2(2), simp_all)
  then have "fval a = of_nat (fe t2)" unfolding fval_def using w by metis
  then have r: "fp_nat (fval a) = fe t2 mod p25519" by (simp only: fp_nat_of_nat)
  have "fe t4 = 2 ^ 255 + fe t2 mod p25519" using F4(2) F3(2) by simp
  moreover have "fe t2 mod p25519 < 2 ^ 255" using mod_less_divisor [of p25519 "fe t2"] by (simp add: p25519_def)
  ultimately have "fe (contract_carry_final t4) = fp_nat (fval a)" unfolding r using F5(2) by simp
  moreover have "curve25519_contract a = (let t = contract_carry_final t4 in write51 t 0 @ write51 t 1 @ write51 t 2 @ write51 t 3)"
  proof -
    have A: "[a ! 0, a ! 1, a ! 2, a ! 3, a ! 4] = a" using a by (intro limbs_eta) (simp add: bounded_def)
    obtain y0 y1 y2 y3 y4 where T: "t3 = [y0, y1, y2, y3, y4]" using F3(1) by (rule boundedE)
    show ?thesis
      unfolding curve25519_contract_def Let_def A t1_def [symmetric] t2_def [symmetric] t3_def [symmetric] k_def [symmetric]
      by (simp add: T t4_def)
  qed
  ultimately show ?thesis using write51_correct [OF F5(1)] by (simp add: Let_def)
qed

lemma curve25519_expand_fval: "length inp = 32 \<Longrightarrow> tight (curve25519_expand inp) \<and> fval (curve25519_expand inp) = of_nat (le_nat inp mod 2 ^ 255)"
  using curve25519_expand_correct [of inp] by (simp add: tight_def fval_def) (erule bounded_mono, simp)

lemma curve25519_copy_correct: "length a = 5 \<Longrightarrow> curve25519_copy a = a"
  unfolding curve25519_copy_def by (rule limbs_eta)

lemma swap_masks: "- (0 :: u64) = 0" "- (1 :: u64) = mask 64"
  by (simp_all add: mask_eq_exp_minus_1)

lemma curve25519_swap_conditional_correct:
  assumes "length a = 5" "length b = 5"
  shows "curve25519_swap_conditional a b 0 = (a, b)" "curve25519_swap_conditional a b 1 = (b, a)"
proof -
  have x: "x XOR (x XOR y) = y" "y XOR (x XOR y) = x" for x y :: u64
    by (simp_all add: xor.assoc [symmetric]) (simp add: xor.commute [of y] xor.assoc)
  show "curve25519_swap_conditional a b 0 = (a, b)" "curve25519_swap_conditional a b 1 = (b, a)"
    unfolding curve25519_swap_conditional_def Let_def by (auto intro!: nth_equalityI simp: assms x)
qed

lemma curve25519_move_conditional_bytes_correct:
  assumes "length out = 96" "length inp = 96"
  shows "curve25519_move_conditional_bytes out inp 0 = out" "curve25519_move_conditional_bytes out inp 1 = inp"
proof -
  have words: "concat (map (\<lambda>i. store64_le (load64_le (drop (8 * i) x))) [0..<12]) = x" if "length x = 96" for x
  proof -
    have "store64_le (load64_le (drop (8 * i) x)) = take 8 (drop (8 * i) x)" if "i < 12" for i
      using that \<open>length x = 96\<close> store64_le_load [of "take 8 (drop (8 * i) x)"] by (simp add: load64_le_take)
    then have "concat (map (\<lambda>i. store64_le (load64_le (drop (8 * i) x))) [0..<12]) = concat (map (\<lambda>i. take 8 (drop (8 * i) x)) [0..<12])"
      by (intro arg_cong [where f = concat] map_cong) simp_all
    also have "\<dots> = take (8 * 12) x" by (rule concat_chunks)
    finally show ?thesis using that by simp
  qed
  show "curve25519_move_conditional_bytes out inp 0 = out" "curve25519_move_conditional_bytes out inp 1 = inp"
    using words [OF assms(1)] words [OF assms(2)] by (simp_all add: curve25519_move_conditional_bytes_def Let_def)
qed


section \<open>Properties\<close>

text \<open>C4: the field operations on five 64-bit limbs compute in the integers modulo \<open>2 ^ 255 - 19\<close> and keep the
  bounds that exclude overflow: multiplication, squaring, repeated squaring (the power \<open>2 ^ count\<close> for a nonzero count, where the comment of
  \<^verbatim>\<open>curve25519_square_times\<close> says \<^verbatim>\<open>in^(2 * count)\<close>), addition with and without reduction,
  and the subtractions give the product, powers, sum and difference; every reducing operation returns
  limbs below \<open>2 ^ 51 + 2 ^ 18\<close>, which all others accept.\<close>

theorem curve25519_field_correct:
  assumes "loose x" "loose y" "tight a" "tight b" "count \<noteq> 0"
  shows "tight (curve25519_mul x y) \<and> fval (curve25519_mul x y) = fval x * fval y
    \<and> tight (curve25519_square x) \<and> fval (curve25519_square x) = fval x ^ 2
    \<and> tight (curve25519_square_times x count) \<and> fval (curve25519_square_times x count) = fval x ^ 2 ^ unat count
    \<and> loose (curve25519_add a b) \<and> fval (curve25519_add a b) = fval a + fval b
    \<and> tight (curve25519_add_reduce x y) \<and> fval (curve25519_add_reduce x y) = fval x + fval y
    \<and> loose (curve25519_sub a b) \<and> fval (curve25519_sub a b) = fval a - fval b
    \<and> tight (curve25519_sub_reduce x a) \<and> fval (curve25519_sub_reduce x a) = fval x - fval a
    \<and> tight (curve25519_neg a) \<and> fval (curve25519_neg a) = - fval a"
proof -
  note bd = tight_bounded [OF assms(3)] tight_bounded [OF assms(4)]
  have "loose (curve25519_add a b)" "fval (curve25519_add a b) = fval a + fval b"
    using curve25519_add_correct [OF assms(3,4) [unfolded tight_def]] by (auto intro: bounded_loose)
  moreover have "loose (curve25519_sub a b)" "fval (curve25519_sub a b) = fval a - fval b"
    using curve25519_sub_correct [OF assms(3) [unfolded tight_def] bd(2)] by (auto intro: bounded_loose)
  ultimately show ?thesis
    using curve25519_mul_correct [OF assms(1,2)] curve25519_square_correct [OF assms(1)]
      curve25519_square_times_correct [OF assms(1,5)] curve25519_add_reduce_correct [OF assms(1,2)]
      curve25519_sub_reduce_correct [OF assms(1) bd(1)] curve25519_neg_correct [OF assms(3)]
    by (simp add: power2_eq_square)
qed

theorem curve25519_field_correct_witness:
  "fval (curve25519_mul [2 ^ 54, 5, 0, 0, 1] [3, 2 ^ 53, 0, 0, 7]) = fval [2 ^ 54, 5, 0, 0, 1] * fval [3, 2 ^ 53, 0, 0, 7]
   \<and> fval (curve25519_sub [1, 0, 0, 0, 0] [2 ^ 51, 0, 0, 0, 0]) = fval [1, 0, 0, 0, 0] - fval [2 ^ 51, 0, 0, 0, 0]"
  using curve25519_field_correct [of "[2 ^ 54, 5, 0, 0, 1]" "[3, 2 ^ 53, 0, 0, 7]" "[1, 0, 0, 0, 0]" "[2 ^ 51, 0, 0, 0, 0]" 1]
  by (simp add: loose_def tight_def)

text \<open>The two exponentiations by addition chains: \<^verbatim>\<open>curve25519_recip\<close> raises to the power \<open>p - 2\<close>
  and \<^verbatim>\<open>curve25519_pow_two252m3\<close> to the power \<open>(p - 5) / 8\<close>, with reduced limbs as results.\<close>

theorem curve25519_powers_correct:
  assumes "loose z"
  shows "tight (curve25519_recip z) \<and> fval (curve25519_recip z) = fval z ^ (p25519 - 2)
    \<and> tight (curve25519_pow_two252m3 z) \<and> fval (curve25519_pow_two252m3 z) = fval z ^ ((p25519 - 5) div 8)"
  using curve25519_recip_correct [OF assms] curve25519_pow_two252m3_correct [OF assms] by simp

theorem curve25519_powers_correct_witness:
  "fval (curve25519_recip [2, 0, 0, 0, 0]) = fval [2, 0, 0, 0, 0] ^ (p25519 - 2)"
  using curve25519_powers_correct [of "[2, 0, 0, 0, 0]"] by (simp add: loose_def)

text \<open>C6: \<^verbatim>\<open>curve25519_contract\<close> writes the unique representative below \<open>p\<close> of the element its
  limbs denote as 32 little-endian bytes, so that two elements are equal exactly when their encodings are; and
  contracting what \<^verbatim>\<open>curve25519_expand\<close> reads gives back the 255-bit number reduced modulo \<open>p\<close>.\<close>

theorem curve25519_contract_canonical:
  assumes "loose a" "loose b" "length inp = 32"
  shows "curve25519_contract a = le_bytes 32 (fp_nat (fval a))
    \<and> (curve25519_contract a = curve25519_contract b \<longleftrightarrow> fval a = fval b)
    \<and> curve25519_contract (curve25519_expand inp) = le_bytes 32 (le_nat inp mod 2 ^ 255 mod p25519)"
proof -
  have "fp_nat x < 256 ^ 32" for x using fp_nat_less [of x] by (simp add: p25519_def)
  then have "le_bytes 32 (fp_nat x) = le_bytes 32 (fp_nat y) \<longleftrightarrow> x = y" for x y
    by (metis fp_nat_inject le_nat_le_bytes mod_less)
  then show ?thesis
    using curve25519_contract_correct [OF assms(1)] curve25519_contract_correct [OF assms(2)]
      curve25519_contract_correct [of "curve25519_expand inp"] curve25519_expand_fval [OF assms(3)]
    by (simp add: fp_nat_of_nat del: of_nat_mod)
qed

theorem curve25519_contract_canonical_witness:
  "curve25519_contract (curve25519_expand (replicate 32 255)) = le_bytes 32 (le_nat (replicate 32 255) mod 2 ^ 255 mod p25519)"
  using curve25519_contract_canonical [of "[0, 0, 0, 0, 0]" "[0, 0, 0, 0, 0]" "replicate 32 255"] by (simp add: loose_def)

end
