(* ===== verification/Recode.thy ===== *)
theory Recode
  imports Modm
begin

unbundle bit_operations_syntax

text \<open>
  The recodings of scalars into signed digits (\<^verbatim>\<open>modm-donna-64bit.h\<close>): radix 16 for the fixed-base
  multiplication, sliding windows for the double-scalar multiplication. The digits are kept in an array of
  \<^verbatim>\<open>signed char\<close>, so every store goes through the conversion \<open>schar\<close>.
\<close>

section \<open>Model\<close>

definition schar :: "int \<Rightarrow> int" where
  "schar k = signed_take_bit 7 k"

definition window4_digits :: "bignum256modm \<Rightarrow> int list" where
  "window4_digits inp =
    concat (map (\<lambda>i. map (\<lambda>j. schar (uint (drop_bit (4 * j) (inp ! i) AND 15))) [0..<(if i = 4 then 8 else 14)]) [0..<5])"

text \<open>One iteration of the loop that makes the digits signed, on the array and \<^verbatim>\<open>carry\<close>.\<close>

definition window4_step :: "int list \<times> int \<Rightarrow> nat \<Rightarrow> int list \<times> int" where
  "window4_step = (\<lambda>(r, carry) i.
    let r = r[i := schar (r ! i + carry)];
        r = r[i + 1 := schar (r ! (i + 1) + drop_bit 4 (r ! i))];
        r = r[i := schar (r ! i AND 15)];
        carry = drop_bit 3 (r ! i);
        r = r[i := schar (r ! i - push_bit 4 carry)]
    in (r, carry))"

definition contract256_window4_modm :: "bignum256modm \<Rightarrow> int list" where
  "contract256_window4_modm inp =
    (let (r, carry) = foldl window4_step (window4_digits inp, 0) [0..<63]
     in r[63 := schar (r ! 63 + carry)])"

definition sliding_bits :: "bignum256modm \<Rightarrow> int list" where
  "sliding_bits s =
    concat (map (\<lambda>i. map (\<lambda>j. schar (uint (drop_bit j (s ! i) AND 1))) [0..<56]) [0..<4])
    @ map (\<lambda>j. schar (uint (drop_bit j (s ! 4) AND 1))) [0..<32]"

text \<open>The loop over \<^verbatim>\<open>k\<close>: ones become zero up to the first zero, which becomes one.\<close>

function ripple :: "int list \<Rightarrow> nat \<Rightarrow> int list" where
  "ripple r k = (if k < 256 then if r ! k = 0 then r[k := 1] else ripple (r[k := 0]) (k + 1) else r)"
  by auto
termination by (relation "measure (\<lambda>(r, k). 256 - k)") auto

declare ripple.simps [simp del]

text \<open>The loop over \<^verbatim>\<open>b\<close> for the digit at \<open>j\<close>.\<close>

function window_loop :: "int \<Rightarrow> nat \<Rightarrow> int list \<Rightarrow> nat \<Rightarrow> int list" where
  "window_loop m j r b =
    (if b < 256 - j \<and> b \<le> 6 then
       if r ! j + push_bit b (r ! (j + b)) \<le> m
       then window_loop m j (r[j := schar (r ! j + push_bit b (r ! (j + b))), j + b := 0]) (b + 1)
       else if r ! j - push_bit b (r ! (j + b)) \<ge> - m
       then window_loop m j (ripple (r[j := schar (r ! j - push_bit b (r ! (j + b)))]) (j + b)) (b + 1)
       else if r ! (j + b) \<noteq> 0 then r
       else window_loop m j r (b + 1)
     else r)"
  by auto
termination by (relation "measure (\<lambda>(m, j, r, b). 7 - b)") auto

declare window_loop.simps [simp del]

definition contract256_slidingwindow_modm :: "bignum256modm \<Rightarrow> nat \<Rightarrow> int list" where
  "contract256_slidingwindow_modm s windowsize =
    (let m = push_bit (windowsize - 1) 1 - 1
     in foldl (\<lambda>r j. if r ! j = 0 then r else window_loop m j r 1) (sliding_bits s) [0..<256])"


section \<open>Digits and their value\<close>

definition dval :: "int \<Rightarrow> int list \<Rightarrow> int" where
  "dval B r = (\<Sum>i < length r. r ! i * B ^ i)"

lemma dval_Nil [simp]: "dval B [] = 0"
  by (simp add: dval_def)

lemma dval_Cons [simp]: "dval B (d # r) = d + B * dval B r"
  unfolding dval_def by (simp add: sum.lessThan_Suc_shift sum_distrib_left algebra_simps del: sum.lessThan_Suc)

lemma dval_append: "dval B (r @ s) = dval B r + B ^ length r * dval B s"
  by (induction r) (simp_all add: algebra_simps)

lemma dval_update: "i < length r \<Longrightarrow> dval B (r[i := v]) = dval B r + (v - r ! i) * B ^ i"
proof (induction r arbitrary: i)
  case (Cons d r)
  show ?case
  proof (cases i)
    case (Suc k)
    then have "dval B (r[k := v]) = dval B r + (v - r ! k) * B ^ k" using Cons by simp
    then show ?thesis using Suc by (simp add: distrib_left mult.left_commute)
  qed simp
qed simp

lemma schar_id: "- 128 \<le> k \<Longrightarrow> k < 128 \<Longrightarrow> schar k = k"
  unfolding schar_def by (simp add: signed_take_bit_int_eq_self)

lemma uint_digit: "c < 7 \<Longrightarrow> schar (uint (drop_bit n w AND mask c :: u64)) = int (unat w div 2 ^ n mod 2 ^ c)"
proof -
  assume c: "c < 7"
  have "unat (drop_bit n w AND mask c) = unat w div 2 ^ n mod 2 ^ c"
    unfolding take_bit_eq_mask [symmetric] unsigned_take_bit_eq unat_shr by (simp only: take_bit_eq_mod)
  then have u: "uint (drop_bit n w AND mask c) = int (unat w div 2 ^ n mod 2 ^ c)" by (metis uint_nat)
  have "unat w div 2 ^ n mod 2 ^ c < 2 ^ c" by simp
  also have "(2 :: nat) ^ c \<le> 2 ^ 6" using c by (intro power_increasing) simp_all
  finally show ?thesis unfolding u by (intro schar_id) simp_all
qed

lemma dval_digits: "dval (int B) (map (\<lambda>j. int (w div B ^ j mod B)) [0..<n]) = int (w mod B ^ n)" if "0 < B"
proof (induction n)
  case (Suc n)
  have "w mod (B ^ n * B) = B ^ n * (w div B ^ n mod B) + w mod B ^ n" by (rule mod_mult2_eq)
  then show ?case using Suc by (simp add: dval_append algebra_simps)
qed simp

lemma limb_digits:
  assumes "c < 7" "unat (w :: u64) < 2 ^ (c * n)"
  shows "dval (2 ^ c) (map (\<lambda>j. schar (uint (drop_bit (c * j) w AND mask c))) [0..<n]) = int (unat w)"
  using dval_digits [of "2 ^ c" "unat w" n] assms by (simp add: uint_digit power_mult [symmetric])

lemma carried_less:
  assumes "carried (2 ^ 32 - 1) s"
  shows "length s = 5" "unat (s ! 0) < 2 ^ 56" "unat (s ! 1) < 2 ^ 56" "unat (s ! 2) < 2 ^ 56" "unat (s ! 3) < 2 ^ 56" "unat (s ! 4) < 2 ^ 32"
  using assms by (auto simp: carried_def all_less_4)

lemma upt_5: "[0..<5] = [0, 1, 2, 3, 4 :: nat]" and upt_4: "[0..<4] = [0, 1, 2, 3 :: nat]"
  by (simp_all add: upt_rec)

lemma window4_digits_value:
  assumes "carried (2 ^ 32 - 1) s"
  shows "dval 16 (window4_digits s) = int (mval s)" "length (window4_digits s) = 64" "\<forall>i < 64. 0 \<le> window4_digits s ! i \<and> window4_digits s ! i \<le> 15"
proof -
  define d where "d n w = map (\<lambda>j. schar (uint (drop_bit (4 * j) w AND 15))) [0..<n]" for n and w :: u64
  have m: "(15 :: u64) = mask 4" by (simp add: mask_eq_exp_minus_1)
  have eq: "window4_digits s = d 14 (s ! 0) @ d 14 (s ! 1) @ d 14 (s ! 2) @ d 14 (s ! 3) @ d 8 (s ! 4)"
    unfolding window4_digits_def upt_5 d_def by simp
  have v: "dval 16 (d n w) = int (unat w)" if "unat w < 2 ^ (4 * n)" for n w
    using limb_digits [of 4 w n] that unfolding d_def m by simp
  have l: "length (d n w) = n" for n w by (simp add: d_def)
  note c = carried_less [OF assms]
  show "dval 16 (window4_digits s) = int (mval s)"
    unfolding eq dval_append l mval_def using v [of "s ! 0" 14] v [of "s ! 1" 14] v [of "s ! 2" 14] v [of "s ! 3" 14] v [of "s ! 4" 8] c
    by simp
  show len: "length (window4_digits s) = 64" unfolding eq by (simp add: l)
  have "0 \<le> x \<and> x \<le> 15" if "x \<in> set (d n w)" for x n w
  proof -
    from that obtain j where "x = int (unat w div 2 ^ (4 * j) mod 2 ^ 4)" unfolding d_def m by (auto simp: uint_digit simp del: of_nat_mod)
    then show ?thesis using mod_le_pred [of "2 ^ 4" "unat w div 2 ^ (4 * j)"] by simp
  qed
  then have "0 \<le> x \<and> x \<le> 15" if "x \<in> set (window4_digits s)" for x using that unfolding eq by auto
  then show "\<forall>i < 64. 0 \<le> window4_digits s ! i \<and> window4_digits s ! i \<le> 15" using len by (auto simp: all_set_conv_all_nth)
qed

lemma sliding_bits_value:
  assumes "carried (2 ^ 32 - 1) s"
  shows "dval 2 (sliding_bits s) = int (mval s)" "length (sliding_bits s) = 256" "\<forall>i < 256. sliding_bits s ! i \<in> {0, 1}"
proof -
  define d where "d n w = map (\<lambda>j. schar (uint (drop_bit j w AND 1))) [0..<n]" for n and w :: u64
  have m: "(1 :: u64) = mask 1" by simp
  have eq: "sliding_bits s = d 56 (s ! 0) @ d 56 (s ! 1) @ d 56 (s ! 2) @ d 56 (s ! 3) @ d 32 (s ! 4)"
    unfolding sliding_bits_def upt_4 d_def by simp
  have v: "dval 2 (d n w) = int (unat w)" if "unat w < 2 ^ n" for n w
    using limb_digits [of 1 w n] that unfolding d_def by simp
  have l: "length (d n w) = n" for n w by (simp add: d_def)
  note c = carried_less [OF assms]
  show "dval 2 (sliding_bits s) = int (mval s)"
    unfolding eq dval_append l mval_def using v [of "s ! 0" 56] v [of "s ! 1" 56] v [of "s ! 2" 56] v [of "s ! 3" 56] v [of "s ! 4" 32] c
    by simp
  show len: "length (sliding_bits s) = 256" unfolding eq by (simp add: l)
  have "x \<in> {0, 1}" if "x \<in> set (d n w)" for x n w
  proof -
    from that obtain j where "x = schar (uint (drop_bit j w AND 1))" unfolding d_def by auto
    then have "x = int (unat w div 2 ^ j mod 2 ^ 1)" using uint_digit [of 1 j w] by simp
    then show ?thesis by auto
  qed
  then have "x \<in> {0, 1}" if "x \<in> set (sliding_bits s)" for x using that unfolding eq by auto
  then show "\<forall>i < 256. sliding_bits s ! i \<in> {0, 1}" using len by (metis nth_mem)
qed

section \<open>Radix 16\<close>

text \<open>Before iteration \<open>i\<close> the digits below \<open>i\<close> are signed and final, the digit at \<open>i\<close> is between 0 and 16
  including the carry, and the value is that of the scalar.\<close>

definition window4_inv :: "int \<Rightarrow> nat \<Rightarrow> int list \<times> int \<Rightarrow> bool" where
  "window4_inv N i = (\<lambda>(r, c). length r = 64 \<and> dval 16 r + c * 16 ^ i = N \<and> (c = 0 \<or> c = 1)
     \<and> (\<forall>j < i. - 8 \<le> r ! j \<and> r ! j < 8) \<and> 0 \<le> r ! i \<and> r ! i + c \<le> 16 \<and> (\<forall>j. i < j \<and> j < 64 \<longrightarrow> 0 \<le> r ! j \<and> r ! j \<le> 15))"

lemma nibble_values:
  fixes x :: int
  assumes "0 \<le> x" "x \<le> 16"
  shows "x = 16 * drop_bit 4 x + (x AND 15)" "0 \<le> x AND 15" "x AND 15 \<le> 15" "drop_bit 4 x = (if x = 16 then 1 else 0)"
    "drop_bit 3 (x AND 15) = (if 8 \<le> x \<and> x < 16 then 1 else 0)"
proof -
  have "x \<in> {0, 1, 2, 3, 4, 5, 6, 7, 8, 9, 10, 11, 12, 13, 14, 15, 16}"
    using assms unfolding insert_iff empty_iff by presburger
  then show "x = 16 * drop_bit 4 x + (x AND 15)" "0 \<le> x AND 15" "x AND 15 \<le> 15" "drop_bit 4 x = (if x = 16 then 1 else 0)"
    "drop_bit 3 (x AND 15) = (if 8 \<le> x \<and> x < 16 then 1 else 0)"
    by (elim insertE emptyE; simp)+
qed

lemma window4_step_inv:
  assumes "window4_inv N i s" "i < 63"
  shows "window4_inv N (i + 1) (window4_step s i)"
proof -
  obtain r c where s: "s = (r, c)" by (cases s)
  have l: "length r = 64" and v: "dval 16 r + c * 16 ^ i = N" and c: "c = 0 \<or> c = 1"
    and lo: "\<And>j. j < i \<Longrightarrow> - 8 \<le> r ! j \<and> r ! j < 8" and x: "0 \<le> r ! i" "r ! i + c \<le> 16"
    and hi: "\<And>j. i < j \<Longrightarrow> j < 64 \<Longrightarrow> 0 \<le> r ! j \<and> r ! j \<le> 15"
    using assms(1) unfolding s window4_inv_def by auto
  define x where "x = r ! i + c"
  have x01: "0 \<le> x" "x \<le> 16" using x c by (auto simp: x_def)
  define a where "a = x AND 15"
  define h where "h = drop_bit 4 x"
  define k where "k = drop_bit 3 a"
  note nv = nibble_values [OF x01, folded a_def h_def, folded k_def]
  define y where "y = r ! (i + 1) + h"
  define z where "z = a - push_bit 4 k"
  have k: "k = 0 \<or> k = 1" using nv(5) by simp
  have pk: "push_bit 4 k = 16 * k" by (simp add: push_bit_eq_mult)
  have y: "0 \<le> y" "y + k \<le> 16" using hi [of "i + 1"] assms(2) unfolding y_def nv(4,5) by (auto split: if_splits)
  have z: "- 8 \<le> z" "z < 8" "z = x - 16 * h - 16 * k" using nv(1) x01 unfolding z_def pk nv(4,5) by (auto split: if_splits)
  have st: "window4_step s i = (r[i + 1 := y, i := z], k)"
  proof -
    have sc: "schar x = x" "schar y = y" "schar a = a" "schar z = z"
      using x01 y k z(1,2) nv(2,3) by (auto intro!: schar_id)
    have sy: "schar (r ! Suc i + h) = y" using sc(2) by (simp add: y_def)
    show ?thesis using l assms(2)
      by (simp add: window4_step_def s Let_def x_def [symmetric] sc h_def [symmetric] sy a_def [symmetric] k_def [symmetric] z_def [symmetric] list_update_swap [of i "Suc i"])
  qed
  have "dval 16 (r[i + 1 := y, i := z]) = dval 16 r + (y - r ! (i + 1)) * 16 ^ (i + 1) + (z - r ! i) * 16 ^ i"
    using l assms(2) by (simp add: dval_update)
  also have "\<dots> + k * 16 ^ (i + 1) = N" unfolding v [symmetric] z(3) y_def x_def by (simp add: algebra_simps)
  finally show ?thesis
    unfolding st window4_inv_def using l k y z lo hi assms(2) by (auto simp: nth_list_update less_Suc_eq)
qed

lemma contract256_window4_correct:
  assumes "carried (2 ^ 32 - 1) s" "mval s < 2 ^ 255"
  defines "r \<equiv> contract256_window4_modm s"
  shows "length r = 64" "dval 16 r = int (mval s)" "\<forall>i < 64. - 8 \<le> r ! i \<and> r ! i \<le> 8"
proof -
  note d = window4_digits_value [OF assms(1)]
  have "window4_inv (int (mval s)) n (foldl window4_step (window4_digits s, 0) [0..<n])" if "n \<le> 63" for n
    using that
  proof (induction n)
    case 0
    have "window4_digits s ! 0 \<le> 15" using d(3) by (metis zero_less_numeral)
    then have "window4_digits s ! 0 \<le> 16" by simp
    then show ?case using d by (auto simp: window4_inv_def)
  next
    case (Suc n)
    then show ?case using window4_step_inv [of "int (mval s)" n] by simp
  qed
  from this [of 63] obtain q c where f: "foldl window4_step (window4_digits s, 0) [0..<63] = (q, c)" and inv: "window4_inv (int (mval s)) 63 (q, c)"
    by (cases "foldl window4_step (window4_digits s, 0) [0..<63]") auto
  then have q: "length q = 64" "dval 16 q + c * 16 ^ 63 = int (mval s)" "0 \<le> q ! 63" "q ! 63 + c \<le> 16" "c = 0 \<or> c = 1"
    "\<And>j. j < 63 \<Longrightarrow> - 8 \<le> q ! j \<and> q ! j < 8" by (auto simp: window4_inv_def)
  have r: "r = q[63 := q ! 63 + c]" unfolding r_def contract256_window4_modm_def f using q(3-5) schar_id [of "q ! 63 + c"] by auto
  show l: "length r = 64" by (simp add: r q)
  show v: "dval 16 r = int (mval s)" unfolding r using q(1,2) by (simp add: dval_update)
  have split: "dval 16 r = dval 16 (take 63 r) + 16 ^ 63 * r ! 63"
  proof -
    have "r = take 63 r @ [r ! 63]" using l take_Suc_conv_app_nth [of 63 r] by simp
    then have "dval 16 r = dval 16 (take 63 r @ [r ! 63])" by simp
    then show ?thesis using l by (simp add: dval_append)
  qed
  have low: "- 8 * 16 ^ n \<le> 15 * dval 16 (take n r)" if "n \<le> 63" for n
    using that
  proof (induction n)
    case (Suc n)
    have "r ! n = q ! n" using Suc.prems by (simp add: r)
    moreover have "take (Suc n) r = take n r @ [r ! n]" using Suc.prems l by (simp add: take_Suc_conv_app_nth)
    moreover have "- 8 * 16 ^ n \<le> r ! n * 16 ^ n" using q(6) [of n] Suc.prems \<open>r ! n = q ! n\<close> by (intro mult_right_mono) auto
    ultimately show ?case using Suc l by (simp add: dval_append algebra_simps)
  qed simp
  have "r ! 63 \<le> 8"
  proof (rule ccontr)
    assume "\<not> r ! 63 \<le> 8"
    then have "16 ^ 63 * 9 \<le> 16 ^ 63 * r ! 63" by (intro mult_left_mono) simp_all
    then have "int (mval s) \<ge> 16 ^ 63 * 8" using low [of 63] unfolding v [symmetric] split by simp
    then show False using assms(2) by simp
  qed
  moreover have "0 \<le> r ! 63" using q(3,5) by (auto simp: r q(1))
  moreover have "r ! i = q ! i" if "i < 64" "i \<noteq> 63" for i using that by (simp add: r)
  ultimately show "\<forall>i < 64. - 8 \<le> r ! i \<and> r ! i \<le> 8"
    proof -
    assume a: "r ! 63 \<le> 8" "0 \<le> r ! 63" and b: "\<And>i. i < 64 \<Longrightarrow> i \<noteq> 63 \<Longrightarrow> r ! i = q ! i"
    have "- 8 \<le> r ! i \<and> r ! i \<le> 8" if "i < 64" for i
    proof (cases "i = 63")
      case False
      then have "i < 63" "r ! i = q ! i" using that b by simp_all
      then show ?thesis using q(6) [of i] by simp
    qed (use a in simp)
    then show ?thesis by blast
  qed
qed

section \<open>Sliding windows\<close>

text \<open>The weight of the digits from position \<open>k\<close> on.\<close>

definition tail_value :: "int list \<Rightarrow> nat \<Rightarrow> int" where
  "tail_value r k = 2 ^ k * dval 2 (drop k r)"

definition bits_from :: "int list \<Rightarrow> nat \<Rightarrow> bool" where
  "bits_from r k \<longleftrightarrow> (\<forall>i. k \<le> i \<and> i < 256 \<longrightarrow> r ! i = 0 \<or> r ! i = 1)"

lemma tail_value_split: "k \<le> length r \<Longrightarrow> dval 2 r = dval 2 (take k r) + tail_value r k"
  unfolding tail_value_def using dval_append [of 2 "take k r" "drop k r"] by simp

lemma tail_value_Suc: "k < length r \<Longrightarrow> tail_value r k = 2 ^ k * r ! k + tail_value r (Suc k)"
  unfolding tail_value_def by (simp add: Cons_nth_drop_Suc [symmetric] algebra_simps)

lemma tail_value_end: "length r \<le> k \<Longrightarrow> tail_value r k = 0"
  by (simp add: tail_value_def)

lemma tail_value_zeros:
  assumes "j \<le> p" "p \<le> length r" "\<And>i. j \<le> i \<Longrightarrow> i < p \<Longrightarrow> r ! i = 0"
  shows "tail_value r j = tail_value r p"
  using assms by (induction p rule: dec_induct) (simp_all add: tail_value_Suc)

lemma tail_value_update: "i < k \<Longrightarrow> tail_value (r[i := v]) k = tail_value r k"
  by (simp add: tail_value_def)

lemma tail_bits_nonneg:
  assumes "bits_from r k" "length r = 256"
  shows "0 \<le> tail_value r k"
proof -
  have "0 \<le> dval 2 s" if "\<forall>i < length s. 0 \<le> s ! i" for s
    using that unfolding dval_def by (intro sum_nonneg) simp
  moreover have "0 \<le> drop k r ! i" if "i < length (drop k r)" for i
  proof -
    have "r ! (k + i) = 0 \<or> r ! (k + i) = 1" using assms that by (simp add: bits_from_def)
    then show ?thesis using that by auto
  qed
  ultimately show ?thesis by (simp add: tail_value_def)
qed

lemma bits_from_Suc: "bits_from r k \<Longrightarrow> bits_from r (Suc k)"
  by (simp add: bits_from_def)

lemma bits_from_update: "bits_from r k \<Longrightarrow> i < k \<or> v \<in> {0, 1} \<Longrightarrow> bits_from (r[i := v]) k"
  by (auto simp: bits_from_def nth_list_update split: if_splits) (metis nth_list_update list_update_beyond not_less nth_list_update_neq)+

text \<open>The ripple adds one at position \<open>k\<close> unless everything from there on is a one.\<close>

lemma ripple_correct:
  assumes "length r = 256" "k < 256" "bits_from r k" "tail_value r k < 2 ^ 256 - 2 ^ k"
  shows "length (ripple r k) = 256 \<and> (\<forall>i < k. ripple r k ! i = r ! i) \<and> bits_from (ripple r k) k
    \<and> dval 2 (ripple r k) = dval 2 r + 2 ^ k \<and> (r ! k = 1 \<longrightarrow> ripple r k ! k = 0)"
  using assms
proof (induction r k rule: ripple.induct)
  case (1 r k)
  show ?case
  proof (cases "r ! k = 0")
    case True
    then have "ripple r k = r[k := 1]" using "1.prems" by (simp add: ripple.simps)
    then show ?thesis using "1.prems" True by (simp add: dval_update bits_from_update)
  next
    case False
    then have one: "r ! k = 1" using "1.prems" by (auto simp: bits_from_def)
    let ?r = "r[k := 0]"
    have tv: "tail_value ?r (Suc k) = tail_value r k - 2 ^ k"
      using "1.prems" one by (simp add: tail_value_Suc [of k] tail_value_update)
    show ?thesis
    proof (cases "k = 255")
      case True
      then show ?thesis using "1.prems" one by (simp add: tail_value_Suc tail_value_end)
    next
      case False
      then have "length ?r = 256" "k + 1 < 256" "bits_from ?r (k + 1)" "tail_value ?r (k + 1) < 2 ^ 256 - 2 ^ (k + 1)"
        using "1.prems" by (simp_all add: tv bits_from_update bits_from_Suc)
      note IH = "1.IH" [OF \<open>k < 256\<close> \<open>r ! k \<noteq> 0\<close> this]
      have eq: "ripple r k = ripple ?r (k + 1)" using "1.prems" \<open>r ! k \<noteq> 0\<close> by (subst ripple.simps) simp
      have "ripple ?r (k + 1) ! k = 0" using IH "1.prems"(1,2) by simp
      moreover from this have "bits_from (ripple ?r (k + 1)) k"
        using IH unfolding bits_from_def by (metis Suc_eq_plus1 le_antisym not_less_eq_eq)
      ultimately show ?thesis using IH one "1.prems"(1,2) unfolding eq by (simp add: dval_update)
    qed
  qed
qed

text \<open>Before the digit at \<open>j\<close> is treated: finished digits below, bits above, and a tail that cannot overflow
  256 positions.\<close>

definition digit_ok :: "int \<Rightarrow> int \<Rightarrow> bool" where
  "digit_ok m d \<longleftrightarrow> d = 0 \<or> odd d \<and> \<bar>d\<bar> \<le> m"

definition slide_inv :: "int \<Rightarrow> int \<Rightarrow> nat \<Rightarrow> int list \<Rightarrow> bool" where
  "slide_inv N m j r \<longleftrightarrow> length r = 256 \<and> dval 2 r = N \<and> (\<forall>i < j. digit_ok m (r ! i)) \<and> bits_from r j \<and> tail_value r j \<le> 2 ^ 253"

text \<open>During the inner loop: the digit at \<open>j\<close> is odd and in range, the positions up to \<open>j + b\<close> are cleared.\<close>

definition window_inv :: "int \<Rightarrow> int \<Rightarrow> nat \<Rightarrow> nat \<Rightarrow> int list \<Rightarrow> bool" where
  "window_inv N m j b r \<longleftrightarrow> length r = 256 \<and> dval 2 r = N \<and> (\<forall>i < j. digit_ok m (r ! i)) \<and> bits_from r (j + b)
     \<and> odd (r ! j) \<and> \<bar>r ! j\<bar> \<le> m \<and> (\<forall>i. j < i \<and> i < j + b \<longrightarrow> r ! i = 0) \<and> tail_value r j \<le> 2 ^ 253 \<and> tail_value r (j + b) \<le> 2 ^ 253"

lemma window_tail:
  assumes "window_inv N m j b r" "0 < b" "j + b \<le> 256"
  shows "tail_value r j = 2 ^ j * r ! j + tail_value r (j + b)"
proof -
  have "tail_value r (Suc j) = tail_value r (j + b)"
    using assms by (intro tail_value_zeros) (auto simp: window_inv_def)
  then show ?thesis using assms by (simp add: window_inv_def tail_value_Suc)
qed

lemma window_done:
  assumes "window_inv N m j b r" "0 < b" "j + b \<le> 256"
  shows "slide_inv N m (j + 1) r"
proof -
  have "tail_value r (Suc j) = tail_value r (j + b)"
    using assms by (intro tail_value_zeros) (auto simp: window_inv_def)
  moreover have "bits_from r (Suc j)" using assms(1) unfolding window_inv_def bits_from_def by (metis Suc_le_lessD not_le)
  ultimately show ?thesis using assms(1) by (auto simp: slide_inv_def window_inv_def digit_ok_def less_Suc_eq)
qed

lemma window_keep:
  assumes w: "window_inv N m j b r" and b: "0 < b" "j + b < 256" "m \<le> 63" and c: "r ! j + push_bit b (r ! (j + b)) \<le> m"
  shows "window_inv N m j (b + 1) (r[j := schar (r ! j + push_bit b (r ! (j + b))), j + b := 0])"
proof -
  define x where "x = r ! (j + b)"
  have bit: "x = 0 \<or> x = 1" and l: "length r = 256" and jm: "\<bar>r ! j\<bar> \<le> m" "odd (r ! j)"
    using w b by (auto simp: window_inv_def bits_from_def x_def)
  define d where "d = r ! j + push_bit b x"
  have pb: "push_bit b x = 2 ^ b * x" by (simp add: push_bit_eq_mult)
  have d: "\<bar>d\<bar> \<le> m" "odd d" "schar d = d"
  proof -
    have "0 \<le> 2 ^ b * x" using bit by auto
    then show a: "\<bar>d\<bar> \<le> m" using c jm(1) unfolding d_def x_def [symmetric] pb by linarith
    show "odd d" using jm b(1) bit by (auto simp: d_def pb)
    show "schar d = d" using a b(3) by (intro schar_id) auto
  qed
  let ?r = "r[j := d, j + b := 0]"
  have tb: "tail_value r (j + b) = 2 ^ (j + b) * x + tail_value r (Suc (j + b))" using l b by (simp add: tail_value_Suc x_def)
  have t1: "tail_value ?r (Suc (j + b)) = tail_value r (Suc (j + b))" by (simp add: tail_value_update)
  have v: "dval 2 ?r = dval 2 r" using l b by (simp add: dval_update d_def pb x_def [symmetric]) (simp add: power_add algebra_simps)
  have "take j ?r = take j r" by simp
  then have t2: "tail_value ?r j = tail_value r j" using v tail_value_split [of j r] tail_value_split [of j ?r] l b by simp
  have "2 ^ (j + b) * x \<ge> 0" using bit by auto
  then have "tail_value ?r (Suc (j + b)) \<le> 2 ^ 253" using w tb unfolding t1 window_inv_def by linarith
  moreover have "bits_from ?r (Suc (j + b))"
    using w unfolding window_inv_def by (intro bits_from_update bits_from_Suc) auto
  moreover have "?r ! j = d" "?r ! i = 0" if "j < i" "i < Suc (j + b)" for i
    using w that l b by (auto simp: window_inv_def nth_list_update less_Suc_eq)
  moreover have "?r ! j = d" "\<forall>i < j. ?r ! i = r ! i" using l b by (simp_all add: nth_list_update)
  ultimately have "window_inv N m j (b + 1) ?r"
    using w d v t2 l unfolding window_inv_def by simp
  then show ?thesis using d(3) by (simp add: d_def x_def)
qed

lemma window_borrow:
  assumes w: "window_inv N m j b r" and b: "0 < b" "j + b < 256" "m \<le> 63"
    and c: "\<not> r ! j + push_bit b (r ! (j + b)) \<le> m" "- m \<le> r ! j - push_bit b (r ! (j + b))"
  shows "window_inv N m j (b + 1) (ripple (r[j := schar (r ! j - push_bit b (r ! (j + b)))]) (j + b))"
proof -
  define x where "x = r ! (j + b)"
  have l: "length r = 256" and jm: "\<bar>r ! j\<bar> \<le> m" "odd (r ! j)" and tails: "tail_value r j \<le> 2 ^ 253"
    using w by (auto simp: window_inv_def)
  have bits: "bits_from r (j + b)" using w by (simp add: window_inv_def)
  then have "x = 0 \<or> x = 1" using b by (simp add: bits_from_def x_def)
  then have x: "x = 1" using c jm by (auto simp: x_def [symmetric])
  have pb: "push_bit b x = 2 ^ b" by (simp add: push_bit_eq_mult x)
  have pos: "0 < r ! j" using c jm unfolding x_def [symmetric] pb by (cases "r ! j > 0") (auto simp: not_less)
  define d where "d = r ! j - 2 ^ b"
  have d: "\<bar>d\<bar> \<le> m" "odd d" "schar d = d"
  proof -
    have "(0 :: int) < 2 ^ b" by simp
    then show a: "\<bar>d\<bar> \<le> m" using c(2) jm pos unfolding x_def [symmetric] pb d_def by linarith
    show "odd d" using jm b(1) by (simp add: d_def)
    show "schar d = d" using a b(3) by (intro schar_id) auto
  qed
  define k where "k = j + b"
  let ?s = "r[j := d]"
  have ts: "tail_value ?s k = tail_value r k" using b by (simp add: tail_value_update k_def)
  have tk: "tail_value r k < 2 ^ 253"
  proof -
    have "0 < 2 ^ j * r ! j" using pos by simp
    then show ?thesis using window_tail [OF w b(1)] b(2) tails unfolding k_def by linarith
  qed
  have odd: "tail_value r k = 2 ^ k * (1 + 2 * dval 2 (drop (Suc k) r))"
    using l b x by (simp add: tail_value_def Cons_nth_drop_Suc [symmetric] k_def x_def)
  define e where "e = dval 2 (drop (Suc k) r)"
  have "0 \<le> tail_value r (Suc k)" using bits l unfolding k_def by (intro tail_bits_nonneg bits_from_Suc) simp_all
  then have e0: "0 \<le> e" unfolding tail_value_def e_def by (simp add: zero_le_mult_iff)
  have k253: "k < 253"
  proof (rule ccontr)
    assume "\<not> k < 253"
    then have "(2 :: int) ^ 253 \<le> 2 ^ k" by (intro power_increasing) simp_all
    moreover have "2 ^ k * 1 \<le> 2 ^ k * (1 + 2 * e)" using e0 by (intro mult_left_mono) simp_all
    ultimately show False using tk unfolding odd e_def [symmetric] by linarith
  qed
  have nx: "tail_value r k + 2 ^ k \<le> 2 ^ 253"
  proof -
    have "(2 :: int) ^ 253 = 2 ^ k * 2 ^ (253 - k)" using k253 by (simp flip: power_add)
    then have "2 ^ k * (1 + 2 * e) < 2 ^ k * 2 ^ (253 - k)" using tk unfolding odd e_def [symmetric] by simp
    then have "1 + 2 * e < 2 ^ (253 - k)" by simp
    then have "2 + 2 * e \<le> 2 ^ (253 - k)" by simp
    then have "2 ^ k * (2 + 2 * e) \<le> 2 ^ k * 2 ^ (253 - k)" by (intro mult_left_mono) simp_all
    then show ?thesis unfolding odd e_def [symmetric] \<open>2 ^ 253 = _\<close> by (simp add: algebra_simps)
  qed
  have "tail_value ?s k < 2 ^ 256 - 2 ^ k"
  proof -
    have "(2 :: int) ^ k \<le> 2 ^ 253" using k253 by (intro power_increasing) simp_all
    then show ?thesis using tk unfolding ts by simp
  qed
  note R = ripple_correct [of ?s k, OF _ _ _ this]
  have sk: "?s ! k = 1" using b x by (simp add: k_def x_def)
  have R': "length (ripple ?s k) = 256" "\<forall>i < k. ripple ?s k ! i = ?s ! i" "bits_from (ripple ?s k) k"
    "dval 2 (ripple ?s k) = dval 2 ?s + 2 ^ k" "ripple ?s k ! k = 0"
    using R sk l b bits by (auto simp: k_def bits_from_update)
  define q where "q = ripple ?s k"
  have vs: "dval 2 ?s = dval 2 r - 2 ^ k" using l b by (simp add: dval_update d_def k_def power_add algebra_simps)
  have v: "dval 2 q = dval 2 r" using R'(4) vs by (simp add: q_def)
  have "take k q = take k ?s" using R'(1,2) l b by (intro nth_equalityI) (simp_all add: q_def k_def)
  then have "tail_value q k = tail_value r k + 2 ^ k"
    using tail_value_split [of k q] tail_value_split [of k ?s] R'(1,4) l b ts by (simp add: q_def k_def)
  moreover have "tail_value q k = tail_value q (Suc k)" using R'(1,5) b by (simp add: tail_value_Suc q_def k_def)
  ultimately have t1: "tail_value q (Suc k) \<le> 2 ^ 253" using nx by simp
  have "take j q = take j r" using R'(1,2) l b by (intro nth_equalityI) (simp_all add: q_def k_def)
  then have t2: "tail_value q j = tail_value r j" using v tail_value_split [of j r] tail_value_split [of j q] l b R'(1) by (simp add: q_def)
  have n: "q ! j = d" "\<And>i. i < j \<Longrightarrow> q ! i = r ! i" "\<And>i. j < i \<Longrightarrow> i < k \<Longrightarrow> q ! i = r ! i" "q ! k = 0"
    using R'(2,5) l b by (simp_all add: q_def k_def)
  have "window_inv N m j (b + 1) q"
    using w d v t1 t2 n R'(1) bits_from_Suc [OF R'(3)] unfolding window_inv_def q_def [symmetric] k_def [symmetric]
    by (auto simp: less_Suc_eq k_def)
  then show ?thesis using d(3) by (simp add: d_def x_def [symmetric] pb k_def q_def)
qed

lemma window_loop_correct:
  assumes "window_inv N m j b r" "0 < b" "j + b \<le> 256" "m \<le> 63"
  shows "slide_inv N m (j + 1) (window_loop m j r b)"
  using assms
proof (induction m j r b rule: window_loop.induct)
  case (1 m j r b)
  show ?case
  proof (cases "b < 256 - j \<and> b \<le> 6")
    case False
    then have "window_loop m j r b = r" by (subst window_loop.simps) auto
    then show ?thesis using window_done "1.prems" by simp
  next
    case True
    then have lt: "j + b < 256" by linarith
    consider (keep) "r ! j + push_bit b (r ! (j + b)) \<le> m"
      | (borrow) "\<not> r ! j + push_bit b (r ! (j + b)) \<le> m" "- m \<le> r ! j - push_bit b (r ! (j + b))"
      | (stop) "\<not> r ! j + push_bit b (r ! (j + b)) \<le> m" "\<not> - m \<le> r ! j - push_bit b (r ! (j + b))" by blast
    then show ?thesis
    proof cases
      case keep
      have "window_inv N m j (b + 1) (r[j := schar (r ! j + push_bit b (r ! (j + b))), j + b := 0])"
        using "1.prems" lt keep by (intro window_keep)
      from "1.IH"(1) [OF True keep this] show ?thesis using True keep lt "1.prems"(4) by (subst window_loop.simps) simp
    next
      case borrow
      have "window_inv N m j (b + 1) (ripple (r[j := schar (r ! j - push_bit b (r ! (j + b)))]) (j + b))"
        using "1.prems" lt borrow by (intro window_borrow)
      from "1.IH"(2) [OF True borrow this] show ?thesis using True borrow lt "1.prems"(4) by (subst window_loop.simps) simp
    next
      case stop
      have "r ! (j + b) \<noteq> 0" using stop(1) "1.prems"(1) by (auto simp: window_inv_def)
      then have "window_loop m j r b = r" using True stop by (subst window_loop.simps) simp
      then show ?thesis using window_done "1.prems" by simp
    qed
  qed
qed

lemma slide_step:
  assumes "slide_inv N m j r" "j < 256" "1 \<le> m" "m \<le> 63"
  shows "slide_inv N m (j + 1) (if r ! j = 0 then r else window_loop m j r 1)"
proof (cases "r ! j = 0")
  case True
  have "tail_value r (Suc j) = tail_value r j" using True assms(1,2) by (simp add: tail_value_Suc slide_inv_def)
  then show ?thesis using True assms(1) bits_from_Suc [of r j] by (auto simp: slide_inv_def digit_ok_def less_Suc_eq)
next
  case False
  then have one: "r ! j = 1" using assms(1,2) by (auto simp: slide_inv_def bits_from_def)
  have "tail_value r (Suc j) \<le> tail_value r j" using one assms(1,2) by (simp add: tail_value_Suc slide_inv_def)
  then have "window_inv N m j 1 r"
    using one assms(1,3) bits_from_Suc [of r j] unfolding window_inv_def slide_inv_def by auto
  from window_loop_correct [OF this] show ?thesis using False assms by simp
qed

lemma contract256_slidingwindow_correct:
  assumes "carried (2 ^ 32 - 1) s" "mval s \<le> 2 ^ 253" "2 \<le> windowsize" "windowsize \<le> 7"
  defines "r \<equiv> contract256_slidingwindow_modm s windowsize"
  shows "length r = 256" "dval 2 r = int (mval s)" "\<forall>i < 256. digit_ok (2 ^ (windowsize - 1) - 1) (r ! i)"
proof -
  define m :: int where "m = 2 ^ (windowsize - 1) - 1"
  have "(2 :: int) ^ 1 \<le> 2 ^ (windowsize - 1)" "(2 :: int) ^ (windowsize - 1) \<le> 2 ^ 6"
    using assms(3,4) by (intro power_increasing; simp)+
  then have m: "1 \<le> m" "m \<le> 63" by (simp_all add: m_def)
  note d = sliding_bits_value [OF assms(1)]
  define f where "f = (\<lambda>(r :: int list) j. if r ! j = 0 then r else window_loop m j r 1)"
  have "slide_inv (int (mval s)) m n (foldl f (sliding_bits s) [0..<n])" if "n \<le> 256" for n
    using that
  proof (induction n)
    case 0
    have "int (mval s) \<le> int (2 ^ 253)" using assms(2) by (simp only: of_nat_le_iff)
    then have "tail_value (sliding_bits s) 0 \<le> 2 ^ 253" using d(1) by (simp add: tail_value_def)
    then show ?case using d by (auto simp: slide_inv_def bits_from_def)
  next
    case (Suc n)
    then show ?case using slide_step [of "int (mval s)" m n] m by (simp add: f_def)
  qed
  moreover have "r = foldl f (sliding_bits s) [0..<256]"
    unfolding r_def contract256_slidingwindow_modm_def f_def m_def Let_def by (simp only: push_bit_eq_mult mult_1)
  ultimately have "slide_inv (int (mval s)) m 256 r" by simp
  then show "length r = 256" "dval 2 r = int (mval s)" "\<forall>i < 256. digit_ok (2 ^ (windowsize - 1) - 1) (r ! i)"
    by (simp_all add: slide_inv_def m_def)
qed

section \<open>Properties\<close>

text \<open>C19: both recodings denote the scalar. For a scalar below the group order the 64 digits of
  \<^verbatim>\<open>contract256_window4_modm\<close> lie between -8 and 8 and their weighted sum in radix 16 is the scalar; the 256
  digits of \<^verbatim>\<open>contract256_slidingwindow_modm\<close>, for window sizes \<open>w\<close> from 2 to 7 (the code uses 5 and 7), are zero or odd and at most \<open>2 ^ (w - 1) - 1\<close> in absolute value (so that half of
  it indexes the table of odd multiples), and their weighted sum in radix 2 is the scalar.\<close>

theorem recodings_correct:
  assumes "modm_ok s" "2 \<le> w" "w \<le> 7"
  shows "length (contract256_window4_modm s) = 64 \<and> dval 16 (contract256_window4_modm s) = int (mval s)
    \<and> (\<forall>i < 64. - 8 \<le> contract256_window4_modm s ! i \<and> contract256_window4_modm s ! i \<le> 8)
    \<and> length (contract256_slidingwindow_modm s w) = 256 \<and> dval 2 (contract256_slidingwindow_modm s w) = int (mval s)
    \<and> (\<forall>i < 256. digit_ok (2 ^ (w - 1) - 1) (contract256_slidingwindow_modm s w ! i))"
proof -
  have s: "carried (2 ^ 32 - 1) s" "mval s < 2 ^ 255" "mval s \<le> 2 ^ 253"
    using assms(1) by (simp_all add: modm_ok_def group_order_def)
  show ?thesis
    using contract256_window4_correct [OF s(1,2)] contract256_slidingwindow_correct [OF s(1,3) assms(2,3)] by blast
qed

theorem recodings_correct_witness:
  "dval 16 (contract256_window4_modm [15, 0, 0, 0, 0]) = int (mval [15, 0, 0, 0, 0])
   \<and> dval 2 (contract256_slidingwindow_modm [31, 0, 0, 0, 0] 5) = int (mval [31, 0, 0, 0, 0])"
  using recodings_correct [of "[15, 0, 0, 0, 0]" 5] recodings_correct [of "[31, 0, 0, 0, 0]" 5]
  by (simp add: modm_ok_def group_order_def)

end
