(* ===== verification/Utils.thy ===== *)
theory Utils
  imports Prelude
begin

unbundle bit_operations_syntax

text \<open>
  The constant-time helpers of \<^verbatim>\<open>sodium/utils.c\<close> and \<^verbatim>\<open>crypto_verify/sodium/verify.c\<close>:
  comparison, zero test, little-endian increment, addition and subtraction, and padding to a
  block size. \<^verbatim>\<open>uint_fast16_t\<close> and \<^verbatim>\<open>size_t\<close> are 64-bit (x86-64 and aarch64 Linux);
  \<^verbatim>\<open>int\<close> arithmetic on promoted bytes stays far from its limits and is done on \<^typ>\<open>int\<close>,
  where \<open>drop_bit\<close> is the arithmetic shift. The inline-assembly shortcuts for some lengths
  are not modelled; the portable loops are.
\<close>

section \<open>Comparison\<close>

text \<open>The accumulator loop \<^verbatim>\<open>d |= x[i] ^ y[i]\<close> for \<open>i < n\<close>.\<close>

definition or_diff :: "byte list \<Rightarrow> byte list \<Rightarrow> nat \<Rightarrow> byte" where
  "or_diff x y n = foldl (\<lambda>d i. d OR (x ! i XOR y ! i)) 0 [0..<n]"

definition crypto_verify_n :: "byte list \<Rightarrow> byte list \<Rightarrow> nat \<Rightarrow> int" where
  "crypto_verify_n x y n =
     (let d = (ucast (or_diff x y n) :: u64) in sint ((1 AND drop_bit 8 (d - 1)) - 1))"

definition crypto_verify_16 :: "byte list \<Rightarrow> byte list \<Rightarrow> int" where
  "crypto_verify_16 x y = crypto_verify_n x y 16"

definition crypto_verify_32 :: "byte list \<Rightarrow> byte list \<Rightarrow> int" where
  "crypto_verify_32 x y = crypto_verify_n x y 32"

definition crypto_verify_64 :: "byte list \<Rightarrow> byte list \<Rightarrow> int" where
  "crypto_verify_64 x y = crypto_verify_n x y 64"

text \<open>The SSE2 build of \<^verbatim>\<open>crypto_verify_n\<close>: vectors of sixteen bytes, \<^verbatim>\<open>_mm_cmpeq_epi32\<close> compares
  the four 32-bit lanes with zero (all ones or all zeros per lane) and
  \<^verbatim>\<open>_mm_movemask_epi8\<close> gathers the top bit of each byte.\<close>

definition cmpeq_zero_epi32 :: "byte list \<Rightarrow> byte list" where
  "cmpeq_zero_epi32 z =
     concat (map (\<lambda>l. replicate 4 (if load32_le (drop (4 * l) z) = 0 then 0xFF else 0)) [0..<4])"

definition movemask_epi8 :: "byte list \<Rightarrow> u32" where
  "movemask_epi8 v = (\<Sum>i<16. if bit (v ! i) 7 then 2 ^ i else 0)"

definition crypto_verify_n_sse2 :: "byte list \<Rightarrow> byte list \<Rightarrow> nat \<Rightarrow> int" where
  "crypto_verify_n_sse2 x y n =
     (let z0 = xor_list (take 16 x) (take 16 y);
          z = foldl (\<lambda>z i. map2 (OR) z (xor_list (take 16 (drop (16 * i) x)) (take 16 (drop (16 * i) y))))
                z0 [1..<n div 16];
          m = movemask_epi8 (cmpeq_zero_epi32 z)
      in sint (drop_bit 16 (m + 1)) - 1)"

definition sodium_memcmp :: "byte list \<Rightarrow> byte list \<Rightarrow> nat \<Rightarrow> int" where
  "sodium_memcmp b1 b2 len = (1 AND drop_bit 8 (uint (or_diff b1 b2 len) - 1)) - 1"

definition sodium_is_zero :: "byte list \<Rightarrow> nat \<Rightarrow> int" where
  "sodium_is_zero n nlen =
     (let d = foldl (\<lambda>d i. d OR n ! i) 0 [0..<nlen] in 1 AND drop_bit 8 (uint d - 1))"

text \<open>One iteration of \<^verbatim>\<open>sodium_compare\<close>, on the most significant bytes first; \<open>gt\<close> and \<open>eq\<close>
  are \<^verbatim>\<open>unsigned char\<close>.\<close>

definition compare_step :: "byte list \<Rightarrow> byte list \<Rightarrow> byte \<times> byte \<Rightarrow> nat \<Rightarrow> byte \<times> byte" where
  "compare_step b1 b2 = (\<lambda>(gt, eq) i.
     let x1 = uint (b1 ! i); x2 = uint (b2 ! i) in
     (gt OR (word_of_int (drop_bit 8 (x2 - x1)) AND eq), eq AND word_of_int (drop_bit 8 ((x2 XOR x1) - 1))))"

definition sodium_compare :: "byte list \<Rightarrow> byte list \<Rightarrow> nat \<Rightarrow> int" where
  "sodium_compare b1 b2 len =
     (let (gt, eq) = foldl (compare_step b1 b2) (0, 1) (rev [0..<len]) in uint gt + uint gt + uint eq - 1)"

section \<open>Little-endian arithmetic\<close>

text \<open>The carry loop \<^verbatim>\<open>c += n[i]; n[i] = c; c >>= 8;\<close> for an unsigned type of \<open>'w\<close> bits.\<close>

primrec increment_loop :: "'w :: len word \<Rightarrow> byte list \<Rightarrow> byte list" where
  "increment_loop c [] = []"
| "increment_loop c (b # n) = (let c' = c + ucast b in ucast c' # increment_loop (drop_bit 8 c') n)"

definition sodium_increment :: "byte list \<Rightarrow> byte list" where
  "sodium_increment n = increment_loop (1 :: u64) n"

fun add_loop :: "u64 \<Rightarrow> byte list \<Rightarrow> byte list \<Rightarrow> byte list" where
  "add_loop c (x # a) (y # b) =
     (let c' = c + (ucast x + ucast y) in ucast c' # add_loop (drop_bit 8 c') a b)"
| "add_loop c a b = []"

definition sodium_add :: "byte list \<Rightarrow> byte list \<Rightarrow> byte list" where
  "sodium_add a b = add_loop 0 a b"

fun sub_loop :: "u64 \<Rightarrow> byte list \<Rightarrow> byte list \<Rightarrow> byte list" where
  "sub_loop c (x # a) (y # b) =
     (let c' = ucast x - ucast y - c in ucast c' # sub_loop (drop_bit 8 c' AND 1) a b)"
| "sub_loop c a b = []"

definition sodium_sub :: "byte list \<Rightarrow> byte list \<Rightarrow> byte list" where
  "sodium_sub a b = sub_loop 0 a b"

section \<open>Padding\<close>

text \<open>The masking loop of \<^verbatim>\<open>sodium_pad\<close>: \<open>i\<close> counts down from the tail.\<close>

definition pad_step :: "u64 \<Rightarrow> nat \<Rightarrow> byte list \<times> byte \<Rightarrow> nat \<Rightarrow> byte list \<times> byte" where
  "pad_step xpadlen tail = (\<lambda>(buf, mask) i.
     let barrier_mask = (ucast (drop_bit 56 ((of_nat i XOR xpadlen) - 1)) :: byte)
     in (buf[tail - i := (buf ! (tail - i) AND mask) OR (0x80 AND barrier_mask)], mask OR barrier_mask))"

abbreviation SIZE_MAX :: int where "SIZE_MAX \<equiv> 18446744073709551615"

text \<open>Result: return code, \<^verbatim>\<open>*padded_buflen_p\<close> and the buffer; \<open>None\<close> is
  \<^verbatim>\<open>sodium_misuse\<close>. On an error return the length is not written.\<close>

definition sodium_pad :: "byte list \<Rightarrow> nat \<Rightarrow> nat \<Rightarrow> nat \<Rightarrow> (int \<times> nat option \<times> byte list) option" where
  "sodium_pad buf unpadded_buflen blocksize max_buflen =
    (if blocksize \<le> 0 then Some (-1, None, buf)
     else let xpadlen = (if blocksize AND (blocksize - 1) = 0
                         then blocksize - 1 - (unpadded_buflen AND (blocksize - 1))
                         else blocksize - 1 - unpadded_buflen mod blocksize)
          in if SIZE_MAX - int unpadded_buflen \<le> int xpadlen then None
             else let xpadded_len = unpadded_buflen + xpadlen
                  in if xpadded_len \<ge> max_buflen then Some (-1, None, buf)
                     else Some (0, Some (xpadded_len + 1),
                            fst (foldl (pad_step (of_nat xpadlen) xpadded_len) (buf, 0) [0..<blocksize])))"

definition unpad_step :: "byte list \<Rightarrow> nat \<Rightarrow> byte \<times> u64 \<times> byte \<Rightarrow> nat \<Rightarrow> byte \<times> u64 \<times> byte" where
  "unpad_step buf tail = (\<lambda>(acc, pad_len, valid) i.
     let c = buf ! (tail - i);
         is_barrier = drop_bit 8 (ucast ((ucast acc :: u32) - 1) AND (pad_len - 1)
                        AND ucast ((ucast (c XOR 0x80) :: u32) - 1)) AND (1 :: u64)
     in (acc OR c, pad_len OR (of_nat i AND (1 + NOT is_barrier)), valid OR ucast is_barrier))"

text \<open>Result: return code and \<^verbatim>\<open>*unpadded_buflen_p\<close>, unwritten on the early return.\<close>

definition sodium_unpad :: "byte list \<Rightarrow> nat \<Rightarrow> nat \<Rightarrow> int \<times> u64 option" where
  "sodium_unpad buf padded_buflen blocksize =
    (if padded_buflen < blocksize \<or> blocksize \<le> 0 then (-1, None)
     else let (acc, pad_len, valid) =
              foldl (unpad_step buf (padded_buflen - 1)) (0, 0, 0) [0..<blocksize]
          in (sint ((ucast valid :: u32) - 1), Some (of_nat padded_buflen - 1 - pad_len)))"

section \<open>Constant-time comparison is equality\<close>

lemma or_diff_Suc: "or_diff x y (Suc n) = or_diff x y n OR (x ! n XOR y ! n)"
  by (simp add: or_diff_def)

lemma or_diff_zero_nth: "or_diff x y n = 0 \<longleftrightarrow> (\<forall>i < n. x ! i = y ! i)"
  by (induction n) (auto simp: or_diff_Suc less_Suc_eq or_eq_0_iff xor_zero_iff, simp_all add: or_diff_def)

lemma or_diff_zero:
  "n \<le> length x \<Longrightarrow> n \<le> length y \<Longrightarrow> or_diff x y n = 0 \<longleftrightarrow> take n x = take n y"
  by (auto simp: or_diff_zero_nth list_eq_iff_nth_eq)

lemma byte_mask: "sint ((1 AND drop_bit 8 ((ucast (d :: byte) :: u64) - 1)) - 1) = (if d = 0 then 0 else -1)"
proof (cases "d = 0")
  case False
  have "unat ((ucast d :: u64) - 1) = unat d - 1"
    using False by (subst unat_minus_one) (simp_all add: ucast_byte_zero unat_ucast_byte)
  then have "unat (drop_bit 8 ((ucast d :: u64) - 1)) = 0"
    using unsigned_less [of d, where 'a = nat] by (simp only: unat_drop_bit_eq) (simp add: drop_bit_eq_div)
  then have "drop_bit 8 ((ucast d :: u64) - 1) = 0"
    by (simp only: unsigned_eq_0_iff)
  with False show ?thesis by simp
qed (simp add: take_bit_eq_mask [symmetric])

lemma crypto_verify_n_eq:
  assumes "n \<le> length x" "n \<le> length y"
  shows "crypto_verify_n x y n = (if take n x = take n y then 0 else -1)"
  using assms by (simp add: crypto_verify_n_def Let_def byte_mask or_diff_zero)

lemma byte_int_mask: "drop_bit 8 (uint (d :: byte) - 1) = (if d = 0 then -1 else 0)"
proof (cases "d = 0")
  case False
  then have "0 \<le> uint d - 1" "uint d - 1 < 256"
    using byte_bounds [of d] unsigned_eq_0_iff [of d, where 'a = int] False by linarith+
  with False show ?thesis by (simp add: drop_bit_eq_div div_pos_pos_trivial)
qed simp

lemma sodium_memcmp_eq:
  assumes "len \<le> length b1" "len \<le> length b2"
  shows "sodium_memcmp b1 b2 len = (if take len b1 = take len b2 then 0 else -1)"
  using assms by (simp add: sodium_memcmp_def byte_int_mask or_diff_zero)

lemma or_all_zero: "foldl (\<lambda>d i. d OR n ! i) 0 [0..<k] = (0 :: byte) \<longleftrightarrow> (\<forall>i < k. n ! i = 0)"
  by (induction k) (auto simp: less_Suc_eq or_eq_0_iff)

lemma sodium_is_zero_eq:
  assumes "nlen \<le> length n"
  shows "sodium_is_zero n nlen = (if take nlen n = replicate nlen 0 then 1 else 0)"
  using assms by (auto simp: sodium_is_zero_def byte_int_mask or_all_zero list_eq_iff_nth_eq)

section \<open>Little-endian comparison\<close>

lemma div_256_borrow:
  fixes a b :: int
  assumes "0 \<le> a" "a < 256" "0 \<le> b" "b < 256"
  shows "(a - b) div 256 = (if a < b then -1 else 0)"
proof (cases "a < b")
  case True
  then show ?thesis
    using assms by (simp add: int_div_pos_eq [of "a - b" 256 "-1" "a - b + 256"])
qed (use assms in \<open>simp add: div_pos_pos_trivial\<close>)

lemma byte_borrow: "word_of_int (drop_bit 8 (uint (y :: byte) - uint (x :: byte))) = (if uint y < uint x then -1 else 0 :: byte)"
proof -
  have "drop_bit 8 (uint y - uint x) = (if uint y < uint x then -1 else 0)"
    using div_256_borrow [of "uint y" "uint x"] byte_bounds by (simp add: drop_bit_eq_div)
  then show ?thesis by simp
qed


lemma compare_step_eq:
  "compare_step b1 b2 (gt, eq) i =
     (gt OR (if b2 ! i < b1 ! i then eq else 0), if b1 ! i = b2 ! i then eq else 0)"
proof -
  have "drop_bit 8 ((uint (b2 ! i) XOR uint (b1 ! i)) - 1) = (if b1 ! i = b2 ! i then -1 else 0)"
    using byte_int_mask [of "b2 ! i XOR b1 ! i"]
    by (simp only: unsigned_xor_eq xor_zero_iff eq_commute [of "b2 ! i"])
  then show ?thesis
    by (simp add: compare_step_def Let_def byte_borrow word_less_def)
qed

definition cmp_flags :: "nat \<Rightarrow> nat \<Rightarrow> byte \<times> byte" where
  "cmp_flags a b = (if b < a then 1 else 0, if a = b then 1 else 0)"

lemma compare_fold:
  assumes "i \<le> len" "len \<le> length b1" "len \<le> length b2"
  shows "foldl (compare_step b1 b2) (0, 1) (rev [i..<len]) =
    cmp_flags (le_nat (drop i (take len b1))) (le_nat (drop i (take len b2)))"
  using assms(1)
proof (induction rule: inc_induct)
  case base
  then show ?case by (simp add: cmp_flags_def)
next
  case (step n)
  have d: "drop n (take len b) = b ! n # drop (Suc n) (take len b)" if "len \<le> length b" for b :: "byte list"
    using that step(2) by (simp add: Cons_nth_drop_Suc [symmetric])
  have "rev [n..<len] = rev [Suc n..<len] @ [n]"
    using step(2) by (simp add: upt_conv_Cons)
  then show ?case
    using step.IH byte_bounds(1) [of "b1 ! n"] byte_bounds(1) [of "b2 ! n"]
    by (auto simp: d assms compare_step_eq cmp_flags_def word_less_nat_alt word_unat_eq_iff)
qed


lemma sodium_compare_numeric:
  assumes "len \<le> length b1" "len \<le> length b2"
  shows "sodium_compare b1 b2 len = sgn (int (le_nat (take len b1)) - int (le_nat (take len b2)))"
  using assms by (auto simp: sodium_compare_def compare_fold [of 0] cmp_flags_def sgn_if)

section \<open>Arithmetic modulo a power of 256\<close>

lemma mod_256_Suc: "(r + 256 * (q mod 256 ^ k)) = (r + 256 * q) mod (256 ^ Suc k)" if "r < 256" for r q :: nat
  using that by (simp add: mod_mult2_eq [of _ 256 "256 ^ k"])

lemma carry_out:
  assumes "le_nat rest = (q + unat (drop_bit 8 (c :: 'w :: len word))) mod 256 ^ k"
    and "8 \<le> LENGTH('w)"
  shows "le_nat (ucast c # rest) = (unat c + 256 * q) mod 256 ^ Suc k"
proof -
  have b: "unat (ucast c :: byte) = unat c mod 256"
    by (simp add: unsigned_ucast_eq take_bit_eq_mod)
  have "le_nat (ucast c # rest) = (unat c mod 256 + 256 * (q + unat c div 256)) mod 256 ^ Suc k"
    using mod_256_Suc [of "unat c mod 256" "q + unat c div 256" k] by (simp add: b assms(1) unat_carry_div)
  also have "unat c mod 256 + 256 * (q + unat c div 256) = unat c + 256 * q"
    by (simp add: algebra_simps)
  finally show ?thesis .
qed

lemma increment_loop_nat:
  fixes c :: "'w :: len word"
  assumes "16 \<le> LENGTH('w)"
  shows "unat c \<le> 1 \<Longrightarrow> le_nat (increment_loop c n) = (le_nat n + unat c) mod 256 ^ length n"
proof (induction n arbitrary: c)
  case (Cons b n)
  let ?c = "c + ucast b"
  have w: "(2 :: nat) ^ 16 \<le> 2 ^ LENGTH('w)" using assms by (intro power_increasing) auto
  have "unat (ucast b :: 'w word) = unat b"
    using byte_bounds(1) [of b] w by (simp add: unsigned_ucast_eq take_bit_nat_eq_self)
  then have c: "unat ?c = unat c + unat b"
    using Cons.prems byte_bounds(1) [of b] w by (simp add: unat_sum_small)
  have "unat (drop_bit 8 ?c) \<le> 1"
    using Cons.prems byte_bounds(1) [of b] by (simp add: unat_carry_div c)
  from carry_out [OF Cons.IH [OF this]] assms show ?case
    by (simp add: Let_def c add_ac del: le_nat.simps(2)) (simp add: add_ac)
qed simp

lemma add_loop_nat:
  "length a = length b \<Longrightarrow> unat c \<le> 1 \<Longrightarrow>
   le_nat (add_loop c a b) = (le_nat a + le_nat b + unat c) mod 256 ^ length a"
proof (induction a b arbitrary: c rule: list_induct2)
  case (Cons x a y b)
  let ?c = "c + (ucast x + ucast y)"
  have "unat (ucast x + ucast y :: u64) = unat x + unat y"
    using byte_bounds(1) [of x] byte_bounds(1) [of y] by (simp add: unat_sum_small unat_ucast_byte)
  then have c: "unat ?c = unat c + (unat x + unat y)"
    using Cons.prems byte_bounds(1) [of x] byte_bounds(1) [of y] by (simp add: unat_sum_small)
  have "unat (drop_bit 8 ?c) \<le> 1"
    using Cons.prems byte_bounds(1) [of x] byte_bounds(1) [of y] by (simp add: unat_carry_div c)
  from carry_out [OF Cons.IH [OF this]] show ?case
    by (simp add: Let_def c add_ac del: le_nat.simps(2)) (simp add: algebra_simps)
qed simp

lemma length_arith_loops [simp]:
  "length (increment_loop d n) = length n"
  "length (add_loop c a b) = min (length a) (length b)"
  "length (sub_loop c a b) = min (length a) (length b)"
  by (induction n arbitrary: d, simp_all add: Let_def)
    (induction a b arbitrary: c rule: list_induct2', simp_all add: Let_def)+

lemma borrow_out:
  assumes c: "unat c \<le> 1" and d: "d = (ucast (x :: byte) - ucast (y :: byte) - c :: u64)"
  shows "uint (ucast d :: byte) = uint x - uint y - uint c + 256 * uint (drop_bit 8 d AND 1)"
    and "unat (drop_bit 8 d AND 1) \<le> 1"
proof -
  define v where "v = uint x - uint y - uint c"
  have "uint c \<le> 1" "0 \<le> uint c"
    using c by (simp_all only: unat_eq_nat_uint) simp_all
  then have v: "-256 \<le> v" "v < 256"
    using byte_bounds(2,3) [of x] byte_bounds(2,3) [of y] unfolding v_def by linarith+
  have dv: "d = word_of_int v"
    unfolding d v_def by simp
  have b: "drop_bit 8 d AND 1 = of_bool (v < 0)"
  proof -
    have "v div 256 = (if v < 0 then -1 else 0)"
      using v by (simp add: div_pos_pos_trivial int_div_pos_eq [of v 256 "-1" "v + 256"])
    then have "bit v 8 = (v < 0)"
      by (simp add: bit_iff_odd_drop_bit drop_bit_eq_div)
    then have "bit d 8 = (v < 0)"
      by (simp add: dv bit_simps)
    then show ?thesis
      by (simp add: and_one_eq mod_2_eq_odd bit_iff_odd_drop_bit)
  qed
  then show "unat (drop_bit 8 d AND 1) \<le> 1" by simp
  have "uint d = take_bit 64 v"
    by (simp only: dv unsigned_of_int) simp
  then have "uint (ucast d :: byte) = take_bit 8 v"
    by (simp add: unsigned_ucast_eq)
  then have "uint (ucast d :: byte) = v mod 256"
    by (simp add: take_bit_eq_mod)
  also have "\<dots> = v + 256 * of_bool (v < 0)"
    using v by (simp add: mod_pos_pos_trivial int_mod_pos_eq [of v 256 "-1" "v + 256"])
  finally show "uint (ucast d :: byte) = uint x - uint y - uint c + 256 * uint (drop_bit 8 d AND 1)"
    by (simp add: b v_def)
qed

lemma sub_loop_int:
  "length a = length b \<Longrightarrow> unat c \<le> 1 \<Longrightarrow>
   int (le_nat (sub_loop c a b)) = (int (le_nat a) - int (le_nat b) - uint c) mod 256 ^ length a"
proof (induction a b arbitrary: c rule: list_induct2)
  case Nil
  then show ?case by simp
next
  case (Cons x a y b)
  let ?k = "256 ^ length a :: int"
  define d where "d = ucast x - ucast y - c"
  note out = borrow_out [OF Cons.prems d_def]
  define q where "q = int (le_nat a) - int (le_nat b) - uint (drop_bit 8 d AND 1)"
  have "int (le_nat (sub_loop c (x # a) (y # b))) = uint (ucast d :: byte) + 256 * (q mod ?k)"
    by (simp add: Let_def Cons.IH [OF out(2)] q_def d_def [symmetric] del: diff_diff_eq)
  also have "\<dots> = (uint (ucast d :: byte) + 256 * q) mod (256 * ?k)"
    using byte_bounds [of "ucast d"] by (simp add: mod_mult2_eq zmod_zmult2_eq)
  also have "uint (ucast d :: byte) + 256 * q = int (le_nat (x # a)) - int (le_nat (y # b)) - uint c"
    by (simp add: out(1) q_def algebra_simps)
  finally show ?case by simp
qed

section \<open>Padding\<close>

lemma barrier_mask_eq:
  assumes "i < 2 ^ 56" "p < 2 ^ 56"
  shows "(ucast (drop_bit 56 ((of_nat i XOR (of_nat p :: u64)) - 1)) :: byte) = (if i = p then -1 else 0)"
proof (cases "i = p")
  case True
  have "(ucast (mask 8 :: u64) :: byte) = -1" by (simp add: mask_eq_exp_minus_1)
  with True show ?thesis by simp
next
  case False
  have "take_bit 56 (i XOR p) = i XOR p"
    using assms by (simp add: take_bit_xor take_bit_nat_eq_self)
  then have lt: "i XOR p < 2 ^ 56" by (simp only: take_bit_nat_eq_self_iff)
  have ne: "i XOR p \<noteq> 0"
    using False by (metis xor.assoc xor.right_neutral xor_self_eq xor_nat_def)
  have "of_nat i XOR of_nat p = (of_nat (i XOR p) :: u64)"
    by (simp only: of_nat_xor_eq)
  then have "(of_nat i XOR of_nat p) - 1 = (of_nat ((i XOR p) - 1) :: u64)"
    using ne by (cases "i XOR p") simp_all
  then have "unat (drop_bit 56 ((of_nat i XOR of_nat p) - 1 :: u64)) = ((i XOR p) - 1) mod 2 ^ 64 div 2 ^ 56"
    by (simp only: unat_drop_bit_eq unsigned_of_nat) (simp add: drop_bit_eq_div take_bit_eq_mod)
  also have "\<dots> = 0" using lt by simp
  finally have "drop_bit 56 ((of_nat i XOR of_nat p) - 1 :: u64) = 0"
    by (simp only: unsigned_eq_0_iff)
  with False show ?thesis by simp
qed

lemma pad_fold:
  assumes "n \<le> Suc tail" "tail < length buf" "p < 2 ^ 56" "n \<le> 2 ^ 56"
  shows "foldl (pad_step (of_nat p) tail) (buf, 0) [0..<n] =
    (map (\<lambda>j. if j \<le> tail \<and> tail < j + n
              then if tail < j + p then 0 else if j + p = tail then 0x80 else buf ! j
              else buf ! j) [0..<length buf],
     if p < n then -1 else 0)"
  using assms(1,4)
proof (induction n)
  case 0
  then show ?case by (auto intro!: nth_equalityI)
next
  case (Suc n)
  then have n: "n < 2 ^ 56" by simp
  show ?case
    using Suc assms(2,3)
    by (auto simp: pad_step_def barrier_mask_eq [OF n assms(3)] Let_def nth_list_update intro!: nth_equalityI)
qed


text \<open>The mask used for a block size that is a power of two is the remainder.\<close>

lemma and_pred_pow2:
  "(b :: nat) AND (b - 1) = 0 \<Longrightarrow> 0 < b \<Longrightarrow> n AND (b - 1) = n mod b"
proof (induction b arbitrary: n rule: less_induct)
  case (less b)
  show ?case
  proof (cases "even b")
    case True
    then obtain c where b: "b = 2 * c" by (elim evenE)
    have c: "0 < c" "(b - 1) div 2 = c - 1" "odd (b - 1)" using less.prems(2) by (auto simp: b)
    have "c AND (c - 1) = 0"
      using less.prems(1) and_rec [of b "b - 1"] c by (simp add: b)
    with less.IH [of c] c have "(n div 2) AND (c - 1) = n div 2 mod c" by (simp add: b)
    then have "n AND (b - 1) = n mod 2 + 2 * (n div 2 mod c)"
      using and_rec [of n "b - 1"] c by (simp add: mod_2_eq_odd)
    then show ?thesis by (simp add: b mod_mult2_eq)
  next
    case False
    then obtain c where b: "b = 2 * c + 1" by (elim oddE)
    have "b AND (b - 1) = 2 * c" using and_rec [of b "b - 1"] by (simp add: b)
    then show ?thesis using less.prems b by simp
  qed
qed

definition pad_bytes :: "nat \<Rightarrow> nat \<Rightarrow> nat" where
  "pad_bytes blocksize n = blocksize - 1 - n mod blocksize"

lemma xpadlen_eq:
  assumes "0 < blocksize"
  shows "(if blocksize AND (blocksize - 1) = 0
          then blocksize - 1 - (n AND (blocksize - 1))
          else blocksize - 1 - n mod blocksize) = pad_bytes blocksize n"
  using and_pred_pow2 [OF _ assms, of n] by (simp add: pad_bytes_def)

lemma pad_whole_blocks:
  assumes "0 < blocksize"
  shows "n + pad_bytes blocksize n + 1 = blocksize * Suc (n div blocksize)"
proof -
  have "n = blocksize * (n div blocksize) + n mod blocksize" "n mod blocksize < blocksize"
    using assms by simp_all
  then show ?thesis unfolding pad_bytes_def mult_Suc_right by linarith
qed

lemma sodium_pad_written:
  assumes "0 < blocksize" "blocksize \<le> 2 ^ 56" "n + pad_bytes blocksize n < max_buflen"
    "max_buflen \<le> length buf" "int max_buflen \<le> SIZE_MAX"
  shows "sodium_pad buf n blocksize max_buflen =
    Some (0, Some (n + pad_bytes blocksize n + 1), write_at buf n (0x80 # replicate (pad_bytes blocksize n) 0))"
proof -
  let ?p = "pad_bytes blocksize n"
  have le: "blocksize \<le> Suc (n + ?p)"
    using pad_whole_blocks [OF assms(1), of n] by simp
  have p: "?p < blocksize" using assms(1) by (simp add: pad_bytes_def)
  have "fst (foldl (pad_step (of_nat ?p) (n + ?p)) (buf, 0) [0..<blocksize])
      = write_at buf n (0x80 # replicate ?p 0)"
    using assms le p
    by (subst pad_fold) (auto simp: write_at_def nth_append nth_Cons' intro!: nth_equalityI)
  then show ?thesis
    using assms by (simp only: sodium_pad_def xpadlen_eq Let_def) simp
qed


lemma bit8_pred_byte: "bit ((ucast (d :: byte) :: u32) - 1) 8 \<longleftrightarrow> d = 0"
proof (cases "d = 0")
  case False
  have d: "(ucast d :: u32) = of_nat (unat d)" by simp
  have "(ucast d :: u32) - 1 = of_nat (unat d - 1)"
    unfolding d using unat_byte_pos [OF False] by (cases "unat d") simp_all
  moreover have "\<not> bit (unat d - 1) 8"
    using byte_bounds(1) [of d] by (simp add: bit_nat_def)
  ultimately show ?thesis using False by (simp add: bit_simps)
qed (simp add: bit_simps)

lemma unpad_barrier:
  "drop_bit 8 (ucast ((ucast acc :: u32) - 1) AND (pad_len - 1) AND ucast ((ucast (c XOR 0x80) :: u32) - 1)) AND (1 :: u64)
   = (if acc = 0 \<and> c = 0x80 \<and> bit (pad_len - 1) 8 then 1 else 0)" for acc c :: byte
proof -
  have one: "drop_bit 8 w AND 1 = (if bit w 8 then 1 else 0)" for w :: u64
    by (simp add: and_one_eq mod_2_eq_odd bit_iff_odd_drop_bit)
  have up: "bit (ucast (v :: u32) :: u64) 8 = bit v 8" for v
    by (simp add: bit_simps)
  show ?thesis
    unfolding one bit_and_iff up bit8_pred_byte xor_zero_iff by auto
qed

lemma unpad_step_eq:
  "unpad_step buf tail (acc, pad_len, valid) i =
    (let c = buf ! (tail - i) in
     if acc = 0 \<and> c = 0x80 \<and> bit (pad_len - 1) 8 then (c, pad_len OR of_nat i, valid OR 1)
     else (acc OR c, pad_len, valid))"
  unfolding unpad_step_def Let_def prod.case unpad_barrier by simp

lemma unpad_zeros:
  assumes "\<And>i. i < n \<Longrightarrow> buf ! (tail - i) = 0"
  shows "foldl (unpad_step buf tail) (0, 0, 0) [0..<n] = (0, 0, 0)"
  using assms by (induction n) (auto simp: unpad_step_eq Let_def)

lemma unpad_settled:
  assumes "acc \<noteq> 0"
  shows "\<exists>acc'. acc' \<noteq> 0 \<and> foldl (unpad_step buf tail) (acc, pad_len, valid) is = (acc', pad_len, valid)"
  using assms by (induction "is" arbitrary: acc) (auto simp: unpad_step_eq Let_def or_eq_0_iff)

text \<open>The scan stops at the first non-zero byte from the end: \<open>k\<close> zeros before it.\<close>

lemma sodium_unpad_found:
  assumes "blocksize \<le> len" "k < blocksize" "buf ! (len - 1 - k) \<noteq> 0"
    and "\<And>i. i < k \<Longrightarrow> buf ! (len - 1 - i) = 0"
  shows "sodium_unpad buf len blocksize =
    (if buf ! (len - 1 - k) = 0x80 then (0, Some (of_nat len - 1 - of_nat k)) else (-1, Some (of_nat len - 1)))"
proof -
  have "[0..<blocksize] = [0..<k] @ k # [Suc k..<blocksize]"
    using assms(2) upt_add_eq_append [of 0 k "blocksize - k"] by (simp add: upt_conv_Cons)
  then have "foldl (unpad_step buf (len - 1)) (0, 0, 0) [0..<blocksize] =
    foldl (unpad_step buf (len - 1)) (unpad_step buf (len - 1) (0, 0, 0) k) [Suc k..<blocksize]"
    using unpad_zeros [of k buf "len - 1"] assms(4) by simp
  moreover have "unpad_step buf (len - 1) (0, 0, 0) k =
    (buf ! (len - 1 - k), if buf ! (len - 1 - k) = 0x80 then of_nat k else 0, of_bool (buf ! (len - 1 - k) = 0x80))"
    by (simp add: unpad_step_eq Let_def)
  ultimately obtain acc where "foldl (unpad_step buf (len - 1)) (0, 0, 0) [0..<blocksize] =
    (acc, if buf ! (len - 1 - k) = 0x80 then of_nat k else 0, of_bool (buf ! (len - 1 - k) = 0x80))"
    using unpad_settled [OF assms(3)] by metis
  then show ?thesis
    using assms(1,2) by (simp add: sodium_unpad_def)
qed

lemma sodium_unpad_none:
  assumes "0 < blocksize" "blocksize \<le> len" "\<And>i. i < blocksize \<Longrightarrow> buf ! (len - 1 - i) = 0"
  shows "sodium_unpad buf len blocksize = (-1, Some (of_nat len - 1))"
  using assms unpad_zeros [of blocksize buf "len - 1"] by (simp add: sodium_unpad_def)

section \<open>The vector build of the comparison\<close>

lemma load32_le_zero:
  assumes "4 \<le> length bs"
  shows "load32_le bs = 0 \<longleftrightarrow> take 4 bs = [0, 0, 0, 0]"
proof
  assume "load32_le bs = 0"
  then have "store32_le (load32_le (take 4 bs)) = [0, 0, 0, 0]"
    by (simp add: load32_le_take store32_le_def)
  then show "take 4 bs = [0, 0, 0, 0]" using assms by simp
next
  assume "take 4 bs = [0, 0, 0, 0]"
  then have "load32_le (take 4 bs) = 0" by (simp add: load32_le_def)
  then show "load32_le bs = 0" by (simp add: load32_le_take)
qed

lemma sum_16:
  "(\<Sum>i<16. f i) = f 0 + f 1 + f 2 + f 3 + f 4 + f 5 + f 6 + f 7 + f 8 + f 9 + f 10 + f 11 + f 12 + f 13
    + f 14 + (f (15 :: nat) :: u32)"
proof -
  have "{..<16 :: nat} = set [0, 1, 2, 3, 4, 5, 6, 7, 8, 9, 10, 11, 12, 13, 14, 15]"
    by (auto; presburger)
  then show ?thesis by (simp add: add_ac)
qed

lemma movemask_lanes:
  "sint (drop_bit 16 (movemask_epi8 (replicate 4 (if a then 0xFF else 0) @ replicate 4 (if b then 0xFF else 0)
      @ replicate 4 (if c then 0xFF else 0) @ replicate 4 (if d then 0xFF else 0)) + 1)) =
   (if a \<and> b \<and> c \<and> d then 1 else 0)"
  unfolding movemask_epi8_def sum_16
  by (cases a; cases b; cases c; cases d) (simp_all add: nth_append)

lemma movemask_cmpeq:
  "sint (drop_bit 16 (movemask_epi8 (cmpeq_zero_epi32 z) + 1)) =
   (if load32_le (drop (4 * 0) z) = 0 \<and> load32_le (drop (4 * 1) z) = 0 \<and> load32_le (drop (4 * 2) z) = 0
       \<and> load32_le (drop (4 * 3) z) = 0 then 1 else 0)"
proof -
  have u: "[0..<4] = [0, 1, 2, 3 :: nat]" by (simp add: upt_rec)
  show ?thesis
    unfolding cmpeq_zero_epi32_def u list.map concat.simps append_Nil2 by (rule movemask_lanes)
qed

lemma or_vector_fold:
  assumes "\<And>i. i \<in> set is \<Longrightarrow> length (f i) = 16" "length z = 16"
  shows "length (foldl (\<lambda>z i. map2 (OR) z (f i)) z is) = 16"
    and "j < 16 \<Longrightarrow> foldl (\<lambda>z i. map2 (OR) z (f i)) z is ! j = (0 :: byte) \<longleftrightarrow>
      z ! j = 0 \<and> (\<forall>i \<in> set is. f i ! j = 0)"
  using assms by (induction "is" arbitrary: z) (auto simp: or_eq_0_iff)

lemma crypto_verify_n_sse2_eq:
  assumes "n = 16 * k" "0 < k" "n \<le> length x" "n \<le> length y"
  shows "crypto_verify_n_sse2 x y n = (if take n x = take n y then 0 else -1)"
proof -
  let ?f = "\<lambda>i. xor_list (take 16 (drop (16 * i) x)) (take 16 (drop (16 * i) y))"
  define z where "z = foldl (\<lambda>z i. map2 (OR) z (?f i)) (?f 0) [1..<k]"
  have f: "length (?f i) = 16" "j < 16 \<Longrightarrow> ?f i ! j = x ! (16 * i + j) XOR y ! (16 * i + j)" if "i < k" for i j
    using that assms by (auto simp: xor_list_def)
  have k: "i < k" if "i \<in> set [1..<k]" for i using that by simp
  have lz: "length z = 16"
    unfolding z_def by (rule or_vector_fold(1)) (rule f(1), erule k, rule f(1) [OF assms(2)])
  have zj: "z ! j = 0 \<longleftrightarrow> (\<forall>i < k. x ! (16 * i + j) = y ! (16 * i + j))" if "j < 16" for j
  proof -
    have "z ! j = 0 \<longleftrightarrow> ?f 0 ! j = 0 \<and> (\<forall>i \<in> set [1..<k]. ?f i ! j = 0)"
      unfolding z_def by (rule or_vector_fold(2)) (rule f(1), erule k, rule f(1) [OF assms(2)], rule that)
    also have "\<dots> \<longleftrightarrow> (\<forall>i < k. ?f i ! j = 0)"
      using assms(2) by (auto simp: Suc_le_eq)
    finally show ?thesis using f(2) that xor_zero_iff by (metis (no_types, lifting))
  qed
  have "(\<forall>j < 16. z ! j = 0) \<longleftrightarrow> (\<forall>i < n. x ! i = y ! i)"
  proof -
    have "x ! i = y ! i" if "\<forall>j < 16. z ! j = 0" "i < n" for i
    proof -
      have "i div 16 < k" using that(2) assms(1) by (simp add: less_mult_imp_div_less)
      moreover have "i = 16 * (i div 16) + i mod 16" by simp
      ultimately show ?thesis using zj [of "i mod 16"] that(1) by (metis mod_less_divisor zero_less_numeral)
    qed
    moreover have "16 * i + j < n" if "i < k" "j < 16" for i j
      using that assms(1) by simp
    ultimately show ?thesis using zj by blast
  qed
  also have "\<dots> \<longleftrightarrow> take n x = take n y"
    using assms(3,4) by (auto simp: list_eq_iff_nth_eq)
  finally have eq: "(\<forall>j < 16. z ! j = 0) \<longleftrightarrow> take n x = take n y" .
  obtain a0 a1 a2 a3 a4 a5 a6 a7 a8 a9 a10 a11 a12 a13 a14 a15 where
    z: "z = [a0, a1, a2, a3, a4, a5, a6, a7, a8, a9, a10, a11, a12, a13, a14, a15]"
    using lz by (auto simp: length_Suc_conv numeral_eq_Suc)
  have "crypto_verify_n_sse2 x y n = sint (drop_bit 16 (movemask_epi8 (cmpeq_zero_epi32 z) + 1)) - 1"
    using assms(1) by (simp add: crypto_verify_n_sse2_def Let_def z_def)
  also have "\<dots> = (if z = replicate 16 0 then 0 else -1)"
    unfolding movemask_cmpeq by (simp add: z load32_le_zero numeral_eq_Suc)
  also have "z = replicate 16 0 \<longleftrightarrow> take n x = take n y"
    using eq lz by (metis length_replicate nth_equalityI nth_replicate)
  finally show ?thesis .
qed

section \<open>Properties\<close>

text \<open>\<^verbatim>\<open>crypto_verify_16\<close>, \<^verbatim>\<open>crypto_verify_32\<close> and \<^verbatim>\<open>crypto_verify_64\<close> return 0 when the two
  buffers agree on that many bytes and -1 otherwise, and the SSE2 build computes the same.\<close>

theorem crypto_verify_correct:
  assumes "64 \<le> length x" "64 \<le> length y"
  shows "crypto_verify_16 x y = (if take 16 x = take 16 y then 0 else -1)
       \<and> crypto_verify_32 x y = (if take 32 x = take 32 y then 0 else -1)
       \<and> crypto_verify_64 x y = (if take 64 x = take 64 y then 0 else -1)
       \<and> (\<forall>n \<in> {16, 32, 64}. crypto_verify_n_sse2 x y n = crypto_verify_n x y n)"
  using assms crypto_verify_n_sse2_eq [of 16 1 x y] crypto_verify_n_sse2_eq [of 32 2 x y]
    crypto_verify_n_sse2_eq [of 64 4 x y]
  by (simp add: crypto_verify_16_def crypto_verify_32_def crypto_verify_64_def crypto_verify_n_eq)

theorem crypto_verify_correct_witness:
  "crypto_verify_16 (replicate 64 1) (replicate 64 1) = 0 \<and> crypto_verify_64 (replicate 64 1) (replicate 64 2) = -1"
  using crypto_verify_correct [of "replicate 64 1" "replicate 64 1"]
    crypto_verify_correct [of "replicate 64 1" "replicate 64 2"] by simp

text \<open>C34: \<^verbatim>\<open>sodium_memcmp\<close> is 0 exactly on equal prefixes and -1 otherwise, \<^verbatim>\<open>sodium_is_zero\<close> is 1
  exactly on zeros, and \<^verbatim>\<open>sodium_compare\<close> returns the sign of the difference of the two
  little-endian numbers.\<close>

theorem sodium_comparisons_correct:
  assumes "len \<le> length b1" "len \<le> length b2"
  shows "sodium_memcmp b1 b2 len = (if take len b1 = take len b2 then 0 else -1)
       \<and> sodium_is_zero b1 len = (if le_nat (take len b1) = 0 then 1 else 0)
       \<and> sodium_compare b1 b2 len = sgn (int (le_nat (take len b1)) - int (le_nat (take len b2)))"
proof -
  have "le_nat xs = 0 \<longleftrightarrow> xs = replicate (length xs) 0" for xs
    by (induction xs) (auto simp: unsigned_eq_0_iff)
  then show ?thesis
    using assms sodium_memcmp_eq sodium_is_zero_eq sodium_compare_numeric by simp
qed

theorem sodium_comparisons_correct_witness:
  "sodium_compare [0, 2] [255, 1] 2 = 1 \<and> sodium_memcmp [0, 2] [255, 1] 2 = -1"
  using sodium_comparisons_correct [of 2 "[0, 2]" "[255, 1]"] by simp

text \<open>C35: \<^verbatim>\<open>sodium_increment\<close>, \<^verbatim>\<open>sodium_add\<close> and \<^verbatim>\<open>sodium_sub\<close> keep the length of the buffer and compute
  increment, sum and difference of little-endian numbers modulo 256 to that length.\<close>

theorem sodium_arithmetic_correct:
  assumes "length a = length b"
  shows "length (sodium_increment a) = length a \<and> le_nat (sodium_increment a) = (le_nat a + 1) mod 256 ^ length a
       \<and> length (sodium_add a b) = length a \<and> le_nat (sodium_add a b) = (le_nat a + le_nat b) mod 256 ^ length a
       \<and> length (sodium_sub a b) = length a
       \<and> int (le_nat (sodium_sub a b)) = (int (le_nat a) - int (le_nat b)) mod 256 ^ length a"
  using assms increment_loop_nat [where c = "1 :: u64" and n = a] add_loop_nat [OF assms, of 0] sub_loop_int [OF assms, of 0]
  by (simp add: sodium_increment_def sodium_add_def sodium_sub_def)

theorem sodium_arithmetic_correct_witness:
  "le_nat (sodium_increment [255, 255]) = 0 \<and> le_nat (sodium_add [255, 1] [2, 3]) = 1281"
  using sodium_arithmetic_correct [of "[255, 255]" "[255, 255]"] sodium_arithmetic_correct [of "[255, 1]" "[2, 3]"]
  by simp

text \<open>C36: for block sizes from 1 to \<open>2 ^ 56\<close> and a buffer with room for the padding, \<^verbatim>\<open>sodium_pad\<close> succeeds; the first \<open>n\<close> bytes are untouched, the padded length is
  the next multiple of the block size above \<open>n\<close>, and \<^verbatim>\<open>sodium_unpad\<close> of the padded buffer
  succeeds with the original length \<open>n\<close>.\<close>

theorem sodium_pad_unpad:
  assumes "0 < blocksize" "blocksize \<le> 2 ^ 56" "blocksize * Suc (n div blocksize) \<le> max_buflen"
    "max_buflen \<le> length buf" "int max_buflen \<le> SIZE_MAX"
  shows "\<exists>padded buf'. sodium_pad buf n blocksize max_buflen = Some (0, Some padded, buf')
     \<and> padded = blocksize * Suc (n div blocksize) \<and> take n buf' = take n buf
     \<and> drop padded buf' = drop padded buf
     \<and> sodium_unpad buf' padded blocksize = (0, Some (of_nat n))"
proof -
  let ?p = "pad_bytes blocksize n" and ?padded = "blocksize * Suc (n div blocksize)"
  let ?buf = "write_at buf n (0x80 # replicate ?p 0)"
  note whole = pad_whole_blocks [OF assms(1), of n]
  have pad: "sodium_pad buf n blocksize max_buflen = Some (0, Some ?padded, ?buf)"
    using sodium_pad_written [OF assms(1,2) _ assms(4,5), of n] whole assms(3) by simp
  have len: "?padded - 1 = n + ?p" "n + ?p < length buf" "?p < blocksize" "blocksize \<le> ?padded"
    using whole assms(1,3,4) by (simp_all add: pad_bytes_def)
  have at: "?buf ! (?padded - 1 - ?p) = 0x80" "\<And>i. i < ?p \<Longrightarrow> ?buf ! (?padded - 1 - i) = 0"
    unfolding len(1) using len(2) by (auto simp: write_at_def nth_append nth_Cons')
  have "sodium_unpad ?buf ?padded blocksize = (0, Some (of_nat ?padded - 1 - of_nat ?p))"
    using sodium_unpad_found [OF len(4,3) _ at(2)] at(1) by simp
  also have "of_nat ?padded - 1 - of_nat ?p = (of_nat n :: u64)"
    unfolding whole [symmetric] by simp
  finally show ?thesis
    using pad len(2) whole [symmetric] by (intro exI conjI) (auto simp: write_at_def)
qed

theorem sodium_pad_unpad_witness:
  "\<exists>padded buf'. sodium_pad (replicate 16 7) 5 8 16 = Some (0, Some padded, buf') \<and> padded = 8
     \<and> sodium_unpad buf' padded 8 = (0, Some 5)"
  using sodium_pad_unpad [of 8 5 16 "replicate 16 7"] by auto

text \<open>The failing branches of the padding functions: \<^verbatim>\<open>sodium_pad\<close> returns -1 and leaves the buffer alone
  when the block size is 0 or the padded text would not fit, \<^verbatim>\<open>sodium_unpad\<close> returns -1 for
  a buffer shorter than a block, and otherwise accepts exactly a last block that ends in
  0x80 followed by zeros.\<close>

theorem sodium_padding_errors:
  "sodium_pad buf n 0 max_buflen = Some (-1, None, buf)
   \<and> (0 < blocksize \<and> int n + int blocksize < SIZE_MAX \<and> max_buflen < blocksize * Suc (n div blocksize)
       \<longrightarrow> sodium_pad buf n blocksize max_buflen = Some (-1, None, buf))
   \<and> (len < blocksize \<longrightarrow> sodium_unpad buf len blocksize = (-1, None))
   \<and> (0 < blocksize \<and> blocksize \<le> len \<longrightarrow>
       (fst (sodium_unpad buf len blocksize) = 0 \<longleftrightarrow>
        (\<exists>k < blocksize. buf ! (len - 1 - k) = 0x80 \<and> (\<forall>i < k. buf ! (len - 1 - i) = 0))))"
proof (intro conjI impI)
  show "sodium_pad buf n 0 max_buflen = Some (-1, None, buf)"
    by (simp add: sodium_pad_def)
next
  assume a: "0 < blocksize \<and> int n + int blocksize < SIZE_MAX \<and> max_buflen < blocksize * Suc (n div blocksize)"
  have "pad_bytes blocksize n < blocksize" using a by (simp add: pad_bytes_def)
  then show "sodium_pad buf n blocksize max_buflen = Some (-1, None, buf)"
    using a pad_whole_blocks [of blocksize n] by (simp only: sodium_pad_def xpadlen_eq Let_def) simp
next
  assume "len < blocksize"
  then show "sodium_unpad buf len blocksize = (-1, None)" by (simp add: sodium_unpad_def)
next
  assume b: "0 < blocksize \<and> blocksize \<le> len"
  show "fst (sodium_unpad buf len blocksize) = 0 \<longleftrightarrow>
        (\<exists>k < blocksize. buf ! (len - 1 - k) = 0x80 \<and> (\<forall>i < k. buf ! (len - 1 - i) = 0))"
  proof (cases "\<forall>i < blocksize. buf ! (len - 1 - i) = 0")
    case True
    then show ?thesis using b sodium_unpad_none [of blocksize len buf] by auto
  next
    case False
    then obtain k where k: "k < blocksize" "buf ! (len - 1 - k) \<noteq> 0" "\<And>i. i < k \<Longrightarrow> buf ! (len - 1 - i) = 0"
      using exists_least_iff [of "\<lambda>k. k < blocksize \<and> buf ! (len - 1 - k) \<noteq> 0"] by (meson order.strict_trans)
    have "k' = k" if "buf ! (len - 1 - k') = 0x80" "\<forall>i < k'. buf ! (len - 1 - i) = 0" for k'
    proof (rule linorder_cases [of k' k])
      assume "k' < k"
      then show ?thesis using k(3) [of k'] that(1) by simp
    next
      assume "k < k'"
      then show ?thesis using k(2) that(2) by blast
    qed
    then have "(\<exists>k < blocksize. buf ! (len - 1 - k) = 0x80 \<and> (\<forall>i < k. buf ! (len - 1 - i) = 0))
      \<longleftrightarrow> buf ! (len - 1 - k) = 0x80"
      using k by blast
    moreover have "sodium_unpad buf len blocksize = (if buf ! (len - 1 - k) = 0x80
        then (0, Some (of_nat len - 1 - of_nat k)) else (-1, Some (of_nat len - 1)))"
      using b k by (intro sodium_unpad_found) auto
    ultimately show ?thesis by simp
  qed
qed

theorem sodium_padding_errors_witness:
  "sodium_pad [1, 2, 3] 3 2 3 = Some (-1, None, [1, 2, 3]) \<and> sodium_unpad [1] 1 2 = (-1, None)
   \<and> fst (sodium_unpad [1, 128, 0] 3 3) = 0"
  using sodium_padding_errors [of "[1, 2, 3]" 3 3 2 0] sodium_padding_errors [of "[1]" 0 0 2 1]
    sodium_padding_errors [of "[1, 128, 0]" 0 0 3 3] by (auto intro!: exI [of _ 1])

end
