(* ===== verification/Edwards.thy ===== *)
theory Edwards
  imports Curve25519 Recode Utils
begin

unbundle bit_operations_syntax

text \<open>
  Points of the twisted Edwards curve (\<^verbatim>\<open>ed25519-donna.h\<close>,
  \<^verbatim>\<open>ed25519-donna-impl-base.h\<close>): extended, completed and Niels coordinates, addition and doubling,
  packing and unpacking. The limb code is related to formulas over the field, these to the addition law of the curve.
\<close>

section \<open>Model\<close>

record ge25519 =
  ge_x :: bignum25519
  ge_y :: bignum25519
  ge_z :: bignum25519
  ge_t :: bignum25519

record ge25519_p1p1 =
  p1_x :: bignum25519
  p1_y :: bignum25519
  p1_z :: bignum25519
  p1_t :: bignum25519

record ge25519_niels =
  n_ysubx :: bignum25519
  n_xaddy :: bignum25519
  n_t2d :: bignum25519

record ge25519_pniels =
  pn_ysubx :: bignum25519
  pn_xaddy :: bignum25519
  pn_z :: bignum25519
  pn_t2d :: bignum25519

definition ge25519_basepoint :: ge25519 where
  "ge25519_basepoint = \<lparr>
    ge_x = [0x00062d608f25d51a,0x000412a4b4f6592a,0x00075b7171a4b31d,0x0001ff60527118fe,0x000216936d3cd6e5],
    ge_y = [0x0006666666666658,0x0004cccccccccccc,0x0001999999999999,0x0003333333333333,0x0006666666666666],
    ge_z = [0x0000000000000001,0x0000000000000000,0x0000000000000000,0x0000000000000000,0x0000000000000000],
    ge_t = [0x00068ab3a5b7dda3,0x00000eea2a5eadbb,0x0002af8df483c27e,0x000332b375274732,0x00067875f0fd78b7]\<rparr>"

definition ge25519_ecd :: bignum25519 where
  "ge25519_ecd = [0x00034dca135978a3,0x0001a8283b156ebd,0x0005e7a26001c029,0x000739c663a03cbb,0x00052036cee2b6ff]"

definition ge25519_ec2d :: bignum25519 where
  "ge25519_ec2d = [0x00069b9426b2f159,0x00035050762add7a,0x0003cf44c0038052,0x0006738cc7407977,0x0002406d9dc56dff]"

definition ge25519_sqrtneg1 :: bignum25519 where
  "ge25519_sqrtneg1 = [0x00061b274a0ea0b0,0x0000d5a5fc8f189d,0x0007ef5e9cbd0c60,0x00078595a6804c9e,0x0002b8324804fc1d]"


subsection \<open>Conversions\<close>

text \<open>The partial conversion leaves the field \<^verbatim>\<open>t\<close> of its destination as it was.\<close>

definition ge25519_p1p1_to_partial :: "ge25519 \<Rightarrow> ge25519_p1p1 \<Rightarrow> ge25519" where
  "ge25519_p1p1_to_partial r p = r\<lparr>
    ge_x := curve25519_mul (p1_x p) (p1_t p),
    ge_y := curve25519_mul (p1_y p) (p1_z p),
    ge_z := curve25519_mul (p1_z p) (p1_t p)\<rparr>"

definition ge25519_p1p1_to_full :: "ge25519_p1p1 \<Rightarrow> ge25519" where
  "ge25519_p1p1_to_full p = \<lparr>
    ge_x = curve25519_mul (p1_x p) (p1_t p),
    ge_y = curve25519_mul (p1_y p) (p1_z p),
    ge_z = curve25519_mul (p1_z p) (p1_t p),
    ge_t = curve25519_mul (p1_x p) (p1_y p)\<rparr>"

definition ge25519_full_to_pniels :: "ge25519 \<Rightarrow> ge25519_pniels" where
  "ge25519_full_to_pniels r = \<lparr>
    pn_ysubx = curve25519_sub (ge_y r) (ge_x r),
    pn_xaddy = curve25519_add (ge_y r) (ge_x r),
    pn_z = curve25519_copy (ge_z r),
    pn_t2d = curve25519_mul (ge_t r) ge25519_ec2d\<rparr>"


subsection \<open>Adding and doubling\<close>

definition ge25519_add_p1p1 :: "ge25519 \<Rightarrow> ge25519 \<Rightarrow> ge25519_p1p1" where
  "ge25519_add_p1p1 p q =
    (let a = curve25519_sub (ge_y p) (ge_x p);
         b = curve25519_add (ge_y p) (ge_x p);
         t = curve25519_sub (ge_y q) (ge_x q);
         u = curve25519_add (ge_y q) (ge_x q);
         a = curve25519_mul a t;
         b = curve25519_mul b u;
         c = curve25519_mul (ge_t p) (ge_t q);
         c = curve25519_mul c ge25519_ec2d;
         d = curve25519_mul (ge_z p) (ge_z q);
         d = curve25519_add d d
     in \<lparr>p1_x = curve25519_sub b a,
         p1_y = curve25519_add b a,
         p1_z = curve25519_add_after_basic d c,
         p1_t = curve25519_sub_after_basic d c\<rparr>)"

definition ge25519_double_p1p1 :: "ge25519 \<Rightarrow> ge25519_p1p1" where
  "ge25519_double_p1p1 p =
    (let a = curve25519_square (ge_x p);
         b = curve25519_square (ge_y p);
         c = curve25519_square (ge_z p);
         c = curve25519_add_reduce c c;
         x = curve25519_add (ge_x p) (ge_y p);
         x = curve25519_square x;
         y = curve25519_add b a;
         z = curve25519_sub b a;
         x = curve25519_sub_after_basic x y;
         t = curve25519_sub_after_basic c z
     in \<lparr>p1_x = x, p1_y = y, p1_z = z, p1_t = t\<rparr>)"

text \<open>The fields of the operands are also accessed as an array of field elements, in the order of the declaration,
  at positions that depend on the sign.\<close>

definition ge25519_nielsadd2_p1p1 :: "ge25519 \<Rightarrow> ge25519_niels \<Rightarrow> byte \<Rightarrow> ge25519_p1p1" where
  "ge25519_nielsadd2_p1p1 p q signbit =
    (let qb = [n_ysubx q, n_xaddy q, n_t2d q];
         a = curve25519_sub (ge_y p) (ge_x p);
         b = curve25519_add (ge_y p) (ge_x p);
         a = curve25519_mul a (qb ! unat signbit);
         x = curve25519_mul b (qb ! unat (signbit XOR 1));
         y = curve25519_add x a;
         x = curve25519_sub x a;
         c = curve25519_mul (ge_t p) (n_t2d q);
         t = curve25519_add_reduce (ge_z p) (ge_z p);
         z = curve25519_copy t;
         rb = [x, y, z, t];
         rb = rb[2 + unat signbit := curve25519_add (rb ! (2 + unat signbit)) c];
         rb = rb[2 + unat (signbit XOR 1) := curve25519_sub (rb ! (2 + unat (signbit XOR 1))) c]
     in \<lparr>p1_x = rb ! 0, p1_y = rb ! 1, p1_z = rb ! 2, p1_t = rb ! 3\<rparr>)"

definition ge25519_pnielsadd_p1p1 :: "ge25519 \<Rightarrow> ge25519_pniels \<Rightarrow> byte \<Rightarrow> ge25519_p1p1" where
  "ge25519_pnielsadd_p1p1 p q signbit =
    (let qb = [pn_ysubx q, pn_xaddy q, pn_z q, pn_t2d q];
         a = curve25519_sub (ge_y p) (ge_x p);
         b = curve25519_add (ge_y p) (ge_x p);
         a = curve25519_mul a (qb ! unat signbit);
         x = curve25519_mul b (qb ! unat (signbit XOR 1));
         y = curve25519_add x a;
         x = curve25519_sub x a;
         c = curve25519_mul (ge_t p) (pn_t2d q);
         t = curve25519_mul (ge_z p) (pn_z q);
         t = curve25519_add_reduce t t;
         z = curve25519_copy t;
         rb = [x, y, z, t];
         rb = rb[2 + unat signbit := curve25519_add (rb ! (2 + unat signbit)) c];
         rb = rb[2 + unat (signbit XOR 1) := curve25519_sub (rb ! (2 + unat (signbit XOR 1))) c]
     in \<lparr>p1_x = rb ! 0, p1_y = rb ! 1, p1_z = rb ! 2, p1_t = rb ! 3\<rparr>)"

definition ge25519_double_partial :: "ge25519 \<Rightarrow> ge25519 \<Rightarrow> ge25519" where
  "ge25519_double_partial r p = ge25519_p1p1_to_partial r (ge25519_double_p1p1 p)"

definition ge25519_double :: "ge25519 \<Rightarrow> ge25519" where
  "ge25519_double p = ge25519_p1p1_to_full (ge25519_double_p1p1 p)"

definition ge25519_add :: "ge25519 \<Rightarrow> ge25519 \<Rightarrow> ge25519" where
  "ge25519_add p q = ge25519_p1p1_to_full (ge25519_add_p1p1 p q)"

definition ge25519_nielsadd2 :: "ge25519 \<Rightarrow> ge25519_niels \<Rightarrow> ge25519" where
  "ge25519_nielsadd2 r q =
    (let a = curve25519_sub (ge_y r) (ge_x r);
         b = curve25519_add (ge_y r) (ge_x r);
         a = curve25519_mul a (n_ysubx q);
         e = curve25519_mul b (n_xaddy q);
         h = curve25519_add e a;
         e = curve25519_sub e a;
         c = curve25519_mul (ge_t r) (n_t2d q);
         f = curve25519_add (ge_z r) (ge_z r);
         g = curve25519_add_after_basic f c;
         f = curve25519_sub_after_basic f c
     in \<lparr>ge_x = curve25519_mul e f,
         ge_y = curve25519_mul h g,
         ge_z = curve25519_mul g f,
         ge_t = curve25519_mul e h\<rparr>)"

definition ge25519_pnielsadd :: "ge25519 \<Rightarrow> ge25519_pniels \<Rightarrow> ge25519_pniels" where
  "ge25519_pnielsadd p q =
    (let a = curve25519_sub (ge_y p) (ge_x p);
         b = curve25519_add (ge_y p) (ge_x p);
         a = curve25519_mul a (pn_ysubx q);
         x = curve25519_mul b (pn_xaddy q);
         y = curve25519_add x a;
         x = curve25519_sub x a;
         c = curve25519_mul (ge_t p) (pn_t2d q);
         t = curve25519_mul (ge_z p) (pn_z q);
         t = curve25519_add t t;
         z = curve25519_add_after_basic t c;
         t = curve25519_sub_after_basic t c;
         xaddy = curve25519_mul x t;
         ysubx = curve25519_mul y z;
         rz = curve25519_mul z t;
         t2d = curve25519_mul x y;
         y = curve25519_copy ysubx;
         ysubx = curve25519_sub ysubx xaddy;
         xaddy = curve25519_add xaddy y;
         t2d = curve25519_mul t2d ge25519_ec2d
     in \<lparr>pn_ysubx = ysubx, pn_xaddy = xaddy, pn_z = rz, pn_t2d = t2d\<rparr>)"


subsection \<open>Pack and unpack\<close>

text \<open>\<^verbatim>\<open>ed25519_verify\<close> returns 1 for equal buffers.\<close>

definition ed25519_verify :: "byte list \<Rightarrow> byte list \<Rightarrow> nat \<Rightarrow> u64" where
  "ed25519_verify x y len =
    (let differentbits = foldl (\<lambda>d i. d OR ucast (x ! i XOR y ! i)) 0 [0..<len]
     in 1 AND drop_bit 8 (differentbits - 1))"

definition ge25519_pack :: "ge25519 \<Rightarrow> byte list" where
  "ge25519_pack p =
    (let zi = curve25519_recip (ge_z p);
         tx = curve25519_mul (ge_x p) zi;
         ty = curve25519_mul (ge_y p) zi;
         r = curve25519_contract ty;
         parity = curve25519_contract tx
     in r[31 := (r ! 31) XOR push_bit 7 (parity ! 0 AND 1)])"

text \<open>The return codes 0 and 1 are \<open>None\<close> and \<open>Some\<close> the point; the destination is not used after a failure.\<close>

definition ge25519_unpack_negative_vartime :: "byte list \<Rightarrow> ge25519 option" where
  "ge25519_unpack_negative_vartime p =
    (let zero = replicate 32 0;
         one = [1, 0, 0, 0, 0];
         parity = drop_bit 7 (p ! 31);
         ry = curve25519_expand p;
         rz = curve25519_copy one;
         num = curve25519_square ry;
         den = curve25519_mul num ge25519_ecd;
         num = curve25519_sub_reduce num rz;
         den = curve25519_add den rz;
         t = curve25519_square den;
         d3 = curve25519_mul t den;
         rx = curve25519_square d3;
         rx = curve25519_mul rx den;
         rx = curve25519_mul rx num;
         rx = curve25519_pow_two252m3 rx;
         rx = curve25519_mul rx d3;
         rx = curve25519_mul rx num;
         t = curve25519_square rx;
         t = curve25519_mul t den;
         root = curve25519_sub_reduce t num;
         check = curve25519_contract root
     in do {
       rx \<leftarrow> (if ed25519_verify check zero 32 = 0 then
               let t = curve25519_add_reduce t num;
                   check = curve25519_contract t
               in if ed25519_verify check zero 32 = 0 then None
                  else Some (curve25519_mul rx ge25519_sqrtneg1)
             else Some rx);
       let check = curve25519_contract rx;
       let rx = (if check ! 0 AND 1 = parity then curve25519_neg (curve25519_copy rx) else rx);
       Some \<lparr>ge_x = rx, ge_y = ry, ge_z = rz, ge_t = curve25519_mul rx ry\<rparr>
     })"


section \<open>Bounds of the limbs\<close>

text \<open>Between \<open>tight\<close> and \<open>loose\<close>: what one unreduced addition or subtraction returns, and what the
  subtraction of four times the modulus accepts.\<close>

definition mid :: "bignum25519 \<Rightarrow> bool" where
  "mid x \<longleftrightarrow> bounded (2 ^ 53 - 76) x"

named_theorems limb_rules \<open>bounds and values of the field operations\<close>

lemma tight_mid [limb_rules]: "tight x \<Longrightarrow> mid x"
  unfolding mid_def by (erule tight_bounded) simp

lemma mid_loose [limb_rules]: "mid x \<Longrightarrow> loose x"
  unfolding mid_def by (erule bounded_loose) simp

lemma add_rules [limb_rules]:
  "tight a \<Longrightarrow> tight b \<Longrightarrow> mid (curve25519_add a b)"
  "mid a \<Longrightarrow> mid b \<Longrightarrow> loose (curve25519_add a b)"
  "loose a \<Longrightarrow> loose b \<Longrightarrow> fval (curve25519_add a b) = fval a + fval b"
  unfolding tight_def mid_def loose_def
  by (erule (1) curve25519_add_correct(1) [THEN bounded_mono]; simp)+ (erule (1) curve25519_add_correct(2), simp)

lemma sub_rules [limb_rules]:
  "tight a \<Longrightarrow> tight b \<Longrightarrow> mid (curve25519_sub a b)"
  "mid a \<Longrightarrow> tight b \<Longrightarrow> loose (curve25519_sub a b)"
  "loose a \<Longrightarrow> tight b \<Longrightarrow> fval (curve25519_sub a b) = fval a - fval b"
proof -
  have b: "bounded (2 ^ 52 - 38) b" if "tight b" using that by (rule tight_bounded) simp
  show "mid (curve25519_sub a b)" if "tight a" "tight b"
    using curve25519_sub_correct(1) [OF that(1) [unfolded tight_def] b [OF that(2)]] unfolding mid_def
    by (auto elim: bounded_mono)
  show "loose (curve25519_sub a b)" if "mid a" "tight b"
    using curve25519_sub_correct(1) [OF that(1) [unfolded mid_def] b [OF that(2)]] by (auto intro: bounded_loose)
  show "fval (curve25519_sub a b) = fval a - fval b" if "loose a" "tight b"
    using curve25519_sub_correct(2) [OF that(1) [unfolded loose_def] b [OF that(2)]] by simp
qed

lemma sub_after_basic_rules [limb_rules]:
  "mid a \<Longrightarrow> mid b \<Longrightarrow> loose (curve25519_sub_after_basic a b)"
  "loose a \<Longrightarrow> mid b \<Longrightarrow> fval (curve25519_sub_after_basic a b) = fval a - fval b"
proof -
  show "loose (curve25519_sub_after_basic a b)" if "mid a" "mid b"
    using curve25519_sub_after_basic_correct(1) [OF that [unfolded mid_def]] by (auto intro: bounded_loose)
  show "fval (curve25519_sub_after_basic a b) = fval a - fval b" if "loose a" "mid b"
    using curve25519_sub_after_basic_correct(2) [OF that(1) [unfolded loose_def] that(2) [unfolded mid_def]] by simp
qed

lemma sub_reduce_rules [limb_rules]:
  "loose a \<Longrightarrow> mid b \<Longrightarrow> tight (curve25519_sub_reduce a b)"
  "loose a \<Longrightarrow> mid b \<Longrightarrow> fval (curve25519_sub_reduce a b) = fval a - fval b"
  unfolding mid_def by (rule curve25519_sub_reduce_correct; assumption)+

lemma copy_rule [limb_rules]: "loose a \<Longrightarrow> curve25519_copy a = a"
  by (rule curve25519_copy_correct) (simp add: loose_def bounded_def)

lemmas field_rules [limb_rules] = tight_loose curve25519_mul_correct curve25519_square_correct curve25519_add_reduce_correct
  curve25519_neg_correct add_after_basic_eq

lemma ec_constants [limb_rules]:
  "tight ge25519_ecd" "tight ge25519_ec2d" "tight ge25519_sqrtneg1"
  by (simp_all add: ge25519_ecd_def ge25519_ec2d_def ge25519_sqrtneg1_def tight_def)

lemma fval_ec2d [limb_rules]: "fval ge25519_ec2d = 2 * fval ge25519_ecd"
proof -
  have "fe ge25519_ec2d + p25519 * 1 = 2 * fe ge25519_ecd"
    by (simp add: ge25519_ecd_def ge25519_ec2d_def p25519_def)
  then have "(of_nat (fe ge25519_ec2d) :: fp) = of_nat (2 * fe ge25519_ecd)" by (metis fp_of_nat_p)
  then show ?thesis by (simp add: fval_def)
qed


section \<open>Formulas over the field\<close>

text \<open>Points in extended coordinates \<open>(X, Y, Z, T)\<close> and in completed ones. The limb code is related to them by
  the values of its fields and by the bounds of their limbs.\<close>

type_synonym fp4 = "fp \<times> fp \<times> fp \<times> fp"

definition ed_d :: fp where "ed_d = fval ge25519_ecd"

fun ed_completed_add :: "fp4 \<Rightarrow> fp4 \<Rightarrow> fp4" where
  "ed_completed_add (X1, Y1, Z1, T1) (X2, Y2, Z2, T2) =
    (2 * (X1 * Y2 + X2 * Y1), 2 * (Y1 * Y2 + X1 * X2), 2 * (Z1 * Z2 + ed_d * T1 * T2), 2 * (Z1 * Z2 - ed_d * T1 * T2))"

fun ed_completed_double :: "fp4 \<Rightarrow> fp4" where
  "ed_completed_double (X, Y, Z, T) = (2 * X * Y, Y ^ 2 + X ^ 2, Y ^ 2 - X ^ 2, 2 * Z ^ 2 - (Y ^ 2 - X ^ 2))"

fun ed_extend :: "fp4 \<Rightarrow> fp4" where
  "ed_extend (E, H, G, F) = (E * F, H * G, G * F, E * H)"

definition ed_add :: "fp4 \<Rightarrow> fp4 \<Rightarrow> fp4" where
  "ed_add P Q = ed_extend (ed_completed_add P Q)"

definition ed_double :: "fp4 \<Rightarrow> fp4" where
  "ed_double P = ed_extend (ed_completed_double P)"

fun ed_neg :: "fp4 \<Rightarrow> fp4" where
  "ed_neg (X, Y, Z, T) = (- X, Y, Z, - T)"

definition ed_signed :: "byte \<Rightarrow> fp4 \<Rightarrow> fp4" where
  "ed_signed s P = (if s = 0 then P else ed_neg P)"

text \<open>Limb representations of points. For the partial results of doublings the coordinate \<open>T\<close> is not kept.\<close>

definition ge_rep :: "ge25519 \<Rightarrow> fp4 \<Rightarrow> bool" where
  "ge_rep p P \<longleftrightarrow> tight (ge_x p) \<and> tight (ge_y p) \<and> tight (ge_z p) \<and> tight (ge_t p)
    \<and> P = (fval (ge_x p), fval (ge_y p), fval (ge_z p), fval (ge_t p))"

definition partial_rep :: "ge25519 \<Rightarrow> fp4 \<Rightarrow> bool" where
  "partial_rep p P \<longleftrightarrow> tight (ge_x p) \<and> tight (ge_y p) \<and> tight (ge_z p)
    \<and> (\<exists>T. P = (fval (ge_x p), fval (ge_y p), fval (ge_z p), T))"

definition p1_rep :: "ge25519_p1p1 \<Rightarrow> fp4 \<Rightarrow> bool" where
  "p1_rep p P \<longleftrightarrow> loose (p1_x p) \<and> loose (p1_y p) \<and> loose (p1_z p) \<and> loose (p1_t p)
    \<and> P = (fval (p1_x p), fval (p1_y p), fval (p1_z p), fval (p1_t p))"

definition niels_rep :: "ge25519_niels \<Rightarrow> fp4 \<Rightarrow> bool" where
  "niels_rep q Q \<longleftrightarrow> tight (n_ysubx q) \<and> tight (n_xaddy q) \<and> tight (n_t2d q)
    \<and> (\<exists>X Y T. Q = (X, Y, 1, T) \<and> fval (n_ysubx q) = Y - X \<and> fval (n_xaddy q) = Y + X \<and> fval (n_t2d q) = 2 * ed_d * T)"

definition pniels_rep :: "ge25519_pniels \<Rightarrow> fp4 \<Rightarrow> bool" where
  "pniels_rep q Q \<longleftrightarrow> loose (pn_ysubx q) \<and> loose (pn_xaddy q) \<and> tight (pn_z q) \<and> tight (pn_t2d q)
    \<and> (\<exists>X Y Z T. Q = (X, Y, Z, T) \<and> fval (pn_ysubx q) = Y - X \<and> fval (pn_xaddy q) = Y + X
         \<and> fval (pn_z q) = Z \<and> fval (pn_t2d q) = 2 * ed_d * T)"

lemmas rep_defs = ge_rep_def partial_rep_def p1_rep_def niels_rep_def pniels_rep_def

lemma ge_rep_partial: "ge_rep p P \<Longrightarrow> partial_rep p P"
  by (auto simp: rep_defs)

lemma add_p1p1_rep: "ge_rep p P \<Longrightarrow> ge_rep q Q \<Longrightarrow> p1_rep (ge25519_add_p1p1 p q) (ed_completed_add P Q)"
  by (simp add: rep_defs ge25519_add_p1p1_def Let_def limb_rules ed_d_def [symmetric]) (simp add: algebra_simps)

lemma double_p1p1_rep: "partial_rep p P \<Longrightarrow> p1_rep (ge25519_double_p1p1 p) (ed_completed_double P)"
  by (auto simp: rep_defs ge25519_double_p1p1_def Let_def limb_rules) (simp_all add: algebra_simps power2_eq_square)

lemma sign_cases: "signbit \<le> 1 \<Longrightarrow> (signbit :: byte) = 0 \<or> signbit = 1"
  by (auto simp: word_le_nat_alt word_unat_eq_iff le_Suc_eq)

lemma nielsadd2_p1p1_rep:
  assumes "ge_rep p P" "niels_rep q Q" "signbit \<le> 1"
  shows "p1_rep (ge25519_nielsadd2_p1p1 p q signbit) (ed_completed_add P (ed_signed signbit Q))"
  using sign_cases [OF assms(3)] assms(1,2)
  by (elim disjE; simp add: rep_defs ge25519_nielsadd2_p1p1_def Let_def limb_rules ed_signed_def)
    (clarsimp; simp add: limb_rules algebra_simps)+

lemma pnielsadd_p1p1_rep:
  assumes "ge_rep p P" "pniels_rep q Q" "signbit \<le> 1"
  shows "p1_rep (ge25519_pnielsadd_p1p1 p q signbit) (ed_completed_add P (ed_signed signbit Q))"
  using sign_cases [OF assms(3)] assms(1,2)
  by (elim disjE; simp add: rep_defs ge25519_pnielsadd_p1p1_def Let_def limb_rules ed_signed_def)
    (clarsimp; simp add: limb_rules algebra_simps)+

lemma p1p1_to_full_rep: "p1_rep p P \<Longrightarrow> ge_rep (ge25519_p1p1_to_full p) (ed_extend P)"
  by (simp add: rep_defs ge25519_p1p1_to_full_def limb_rules)

lemma p1p1_to_partial_rep: "p1_rep p P \<Longrightarrow> partial_rep (ge25519_p1p1_to_partial r p) (ed_extend P)"
  by (simp add: rep_defs ge25519_p1p1_to_partial_def limb_rules)

lemma full_to_pniels_rep: "ge_rep p P \<Longrightarrow> pniels_rep (ge25519_full_to_pniels p) P"
  by (simp add: rep_defs ge25519_full_to_pniels_def limb_rules ed_d_def)

lemma double_partial_rep: "partial_rep p P \<Longrightarrow> partial_rep (ge25519_double_partial r p) (ed_double P)"
  unfolding ge25519_double_partial_def ed_double_def by (intro p1p1_to_partial_rep double_p1p1_rep)

lemma double_rep: "partial_rep p P \<Longrightarrow> ge_rep (ge25519_double p) (ed_double P)"
  unfolding ge25519_double_def ed_double_def by (intro p1p1_to_full_rep double_p1p1_rep)

lemma add_rep: "ge_rep p P \<Longrightarrow> ge_rep q Q \<Longrightarrow> ge_rep (ge25519_add p q) (ed_add P Q)"
  unfolding ge25519_add_def ed_add_def by (intro p1p1_to_full_rep add_p1p1_rep)

lemma nielsadd2_rep: "ge_rep p P \<Longrightarrow> niels_rep q Q \<Longrightarrow> ge_rep (ge25519_nielsadd2 p q) (ed_add P Q)"
  by (auto simp: rep_defs ge25519_nielsadd2_def ed_add_def Let_def limb_rules) (simp_all add: algebra_simps)

lemma pnielsadd_rep: "ge_rep p P \<Longrightarrow> pniels_rep q Q \<Longrightarrow> pniels_rep (ge25519_pnielsadd p q) (ed_add P Q)"
  by (auto simp: rep_defs ge25519_pnielsadd_def ed_add_def Let_def limb_rules ed_d_def [symmetric]) (simp_all add: algebra_simps)


section \<open>The curve\<close>

fun ext_ok :: "fp4 \<Rightarrow> bool" where
  "ext_ok (X, Y, Z, T) \<longleftrightarrow> Y ^ 2 - X ^ 2 = Z ^ 2 + ed_d * T ^ 2 \<and> X * Y = Z * T"

text \<open>\<open>represents P x y\<close>: the extended coordinates \<open>P\<close> stand for the affine point \<open>(x, y)\<close>.\<close>

fun represents :: "fp4 \<Rightarrow> fp \<Rightarrow> fp \<Rightarrow> bool" where
  "represents (X, Y, Z, T) x y \<longleftrightarrow> Z dvd 1 \<and> X = x * Z \<and> Y = y * Z \<and> T = x * y * Z"

definition on_curve :: "fp \<Rightarrow> fp \<Rightarrow> bool" where
  "on_curve x y \<longleftrightarrow> y ^ 2 - x ^ 2 = 1 + ed_d * x ^ 2 * y ^ 2"

text \<open>\<open>(x3, y3)\<close> is the sum of two affine points: the equations of the addition law, with invertible denominators.\<close>

definition affine_sum :: "fp \<Rightarrow> fp \<Rightarrow> fp \<Rightarrow> fp \<Rightarrow> fp \<Rightarrow> fp \<Rightarrow> bool" where
  "affine_sum x1 y1 x2 y2 x3 y3 \<longleftrightarrow>
    1 + ed_d * x1 * x2 * y1 * y2 dvd 1 \<and> 1 - ed_d * x1 * x2 * y1 * y2 dvd 1
    \<and> x3 * (1 + ed_d * x1 * x2 * y1 * y2) = x1 * y2 + x2 * y1 \<and> y3 * (1 - ed_d * x1 * x2 * y1 * y2) = y1 * y2 + x1 * x2"

lemma edwards_closure:
  fixes X1 :: "'a :: comm_ring_1"
  assumes c1: "Y1 ^ 2 - X1 ^ 2 = Z1 ^ 2 + d * T1 ^ 2" and t1: "X1 * Y1 = Z1 * T1"
    and c2: "Y2 ^ 2 - X2 ^ 2 = Z2 ^ 2 + d * T2 ^ 2" and t2: "X2 * Y2 = Z2 * T2"
  shows "((Y1 * Y2 + X1 * X2) * (Z1 * Z2 + d * T1 * T2)) ^ 2 - ((X1 * Y2 + X2 * Y1) * (Z1 * Z2 - d * T1 * T2)) ^ 2
    = ((Z1 * Z2 + d * T1 * T2) * (Z1 * Z2 - d * T1 * T2)) ^ 2 + d * ((X1 * Y2 + X2 * Y1) * (Y1 * Y2 + X1 * X2)) ^ 2"
proof -
  define P Q N1 N2 u where "P = (Y1 * Y2) ^ 2 + (X1 * X2) ^ 2" and "Q = (X1 * Y2) ^ 2 + (X2 * Y1) ^ 2"
    and "N1 = Y1 ^ 2 - X1 ^ 2" and "N2 = Y2 ^ 2 - X2 ^ 2" and "u = (Z1 * Z2) ^ 2 + (d * T1 * T2) ^ 2"
  define w where "w = (Z1 * T1) * (Z2 * T2)"
  have w: "(X1 * Y1) * (X2 * Y2) = w" by (simp only: w_def t1 t2)
  have H: "(Y1 * Y2 + X1 * X2) ^ 2 = P + 2 * w" and E: "(X1 * Y2 + X2 * Y1) ^ 2 = Q + 2 * w"
    unfolding P_def Q_def w [symmetric] by (simp_all add: power2_eq_square algebra_simps)
  have G: "(Z1 * Z2 + d * T1 * T2) ^ 2 = u + 2 * d * w" and F: "(Z1 * Z2 - d * T1 * T2) ^ 2 = u - 2 * d * w"
    unfolding u_def w_def by (simp_all add: power2_eq_square algebra_simps)
  have PQ: "P - Q = N1 * N2" unfolding P_def Q_def N1_def N2_def by (simp add: power2_eq_square algebra_simps)
  have "P * Q - 4 * ((X1 * Y1) * (X2 * Y2)) ^ 2 = (X1 * Y1) ^ 2 * N2 ^ 2 + (X2 * Y2) ^ 2 * N1 ^ 2"
    unfolding P_def Q_def N1_def N2_def by (simp add: power2_eq_square algebra_simps)
  then have PQw: "P * Q - 4 * w ^ 2 = (Z1 * T1) ^ 2 * N2 ^ 2 + (Z2 * T2) ^ 2 * N1 ^ 2" unfolding w by (simp only: t1 t2)
  have f1: "N1 * Z2 ^ 2 - d * N2 * T1 ^ 2 = (Z1 * Z2) ^ 2 - (d * T1 * T2) ^ 2"
    and f2: "N2 * Z1 ^ 2 - d * N1 * T2 ^ 2 = (Z1 * Z2) ^ 2 - (d * T1 * T2) ^ 2"
    unfolding N1_def N2_def c1 c2 by (simp_all add: power2_eq_square algebra_simps)
  have "u * (N1 * N2) - d * ((Z1 * T1) ^ 2 * N2 ^ 2 + (Z2 * T2) ^ 2 * N1 ^ 2)
      = (N1 * Z2 ^ 2 - d * N2 * T1 ^ 2) * (N2 * Z1 ^ 2 - d * N1 * T2 ^ 2)"
    unfolding u_def by (simp add: power2_eq_square algebra_simps)
  also have "\<dots> = u ^ 2 - 4 * d ^ 2 * w ^ 2" unfolding f1 f2 u_def w_def by (simp add: power2_eq_square algebra_simps)
  finally have k: "u * (P - Q) - d * (P * Q - 4 * w ^ 2) = u ^ 2 - 4 * d ^ 2 * w ^ 2" by (simp only: PQ PQw)
  have "(P + 2 * w) * (u + 2 * d * w) - (Q + 2 * w) * (u - 2 * d * w) - d * ((Q + 2 * w) * (P + 2 * w))
      = u * (P - Q) - d * (P * Q - 4 * w ^ 2)"
    by (simp add: power2_eq_square algebra_simps)
  also have "\<dots> = (u + 2 * d * w) * (u - 2 * d * w)" unfolding k by (simp add: power2_eq_square algebra_simps)
  finally show ?thesis by (simp only: power_mult_distrib H E G F) (simp add: algebra_simps)
qed

lemma edwards_double_closure:
  fixes X :: "'a :: comm_ring_1"
  assumes c: "Y ^ 2 - X ^ 2 = Z ^ 2 + d * T ^ 2" and t: "X * Y = Z * T"
  shows "((Y ^ 2 + X ^ 2) * (Y ^ 2 - X ^ 2)) ^ 2 - (2 * X * Y * (2 * Z ^ 2 - (Y ^ 2 - X ^ 2))) ^ 2
    = ((Y ^ 2 - X ^ 2) * (2 * Z ^ 2 - (Y ^ 2 - X ^ 2))) ^ 2 + d * (2 * X * Y * (Y ^ 2 + X ^ 2)) ^ 2"
proof -
  define n where "n = Z ^ 2 + d * T ^ 2"
  define x where "x = 2 * (Z * T)"
  define e where "e = Z ^ 2 - d * T ^ 2"
  have n: "Y ^ 2 - X ^ 2 = n" using c by (simp add: n_def)
  have e: "2 * Z ^ 2 - (Y ^ 2 - X ^ 2) = e" unfolding c e_def by simp
  have x: "2 * X * Y = x" unfolding x_def t [symmetric] by (simp add: mult.assoc)
  have m: "(Y ^ 2 + X ^ 2) ^ 2 = n ^ 2 + x ^ 2"
    unfolding n [symmetric] x [symmetric] by (simp add: power2_eq_square algebra_simps)
  have z: "n ^ 2 = e ^ 2 + d * x ^ 2"
    unfolding n_def e_def x_def by (simp add: power2_eq_square algebra_simps)
  have "(n ^ 2 + x ^ 2) * n ^ 2 - x ^ 2 * e ^ 2 - n ^ 2 * e ^ 2 - d * (x ^ 2 * (n ^ 2 + x ^ 2)) = (n ^ 2 + x ^ 2) * (n ^ 2 - (e ^ 2 + d * x ^ 2))"
    by (simp add: algebra_simps)
  then have "(n ^ 2 + x ^ 2) * n ^ 2 - x ^ 2 * e ^ 2 = n ^ 2 * e ^ 2 + d * (x ^ 2 * (n ^ 2 + x ^ 2))"
    by (simp add: z algebra_simps)
  then show ?thesis unfolding e unfolding n x power_mult_distrib m .
qed

lemma ext_ok_represents: "on_curve x y \<Longrightarrow> represents P x y \<Longrightarrow> ext_ok P"
proof (cases P)
  case (fields X Y Z T)
  assume a: "on_curve x y" "represents P x y"
  have "Y ^ 2 - X ^ 2 = (y ^ 2 - x ^ 2) * Z ^ 2" using a(2) fields by (simp add: power2_eq_square algebra_simps)
  also have "\<dots> = Z ^ 2 + ed_d * T ^ 2"
    using a fields unfolding on_curve_def by (simp only: fields represents.simps) (simp add: power2_eq_square algebra_simps)
  finally show "ext_ok P" using a(2) fields by (simp add: algebra_simps)
qed

lemma ext_ok_extend:
  "(H * G) ^ 2 - (E * F) ^ 2 = (G * F) ^ 2 + ed_d * (E * H) ^ 2 \<Longrightarrow> ext_ok (ed_extend (E, H, G, F))"
  by (simp add: mult.commute mult.left_commute)

lemma ext_ok_extend2:
  assumes "(H * G) ^ 2 - (E * F) ^ 2 = (G * F) ^ 2 + ed_d * (E * H) ^ 2"
  shows "ext_ok (ed_extend (2 * E, 2 * H, 2 * G, 2 * F))"
proof (rule ext_ok_extend)
  have 16: "(2 * a * (2 * b)) ^ 2 = 16 * (a * b) ^ 2" for a b :: fp by (simp add: power2_eq_square)
  have "16 * (H * G) ^ 2 - 16 * (E * F) ^ 2 = 16 * ((H * G) ^ 2 - (E * F) ^ 2)" by (simp only: right_diff_distrib)
  also have "\<dots> = 16 * (G * F) ^ 2 + ed_d * (16 * (E * H) ^ 2)"
    unfolding assms by (simp only: distrib_left mult.left_commute)
  finally show "(2 * H * (2 * G)) ^ 2 - (2 * E * (2 * F)) ^ 2 = (2 * G * (2 * F)) ^ 2 + ed_d * (2 * E * (2 * H)) ^ 2"
    by (simp only: 16)
qed

lemma ext_ok_add: "ext_ok P \<Longrightarrow> ext_ok Q \<Longrightarrow> ext_ok (ed_add P Q)"
  unfolding ed_add_def
  by (cases P; cases Q; simp only: ed_completed_add.simps ext_ok.simps)
    (elim conjE, rule ext_ok_extend2, rule edwards_closure)

lemma ext_ok_double: "ext_ok P \<Longrightarrow> ext_ok (ed_double P)"
  unfolding ed_double_def
  by (cases P; simp only: ed_completed_double.simps) (rule ext_ok_extend, rule edwards_double_closure; simp)

lemma ext_ok_neg [simp]: "ext_ok (ed_neg P) = ext_ok P" 
  by (cases P) simp

lemma ext_ok_signed [simp]: "ext_ok (ed_signed s P) = ext_ok P"
  by (simp add: ed_signed_def)

lemma represents_signed: "represents P x y \<Longrightarrow> represents (ed_signed s P) (if s = 0 then x else - x) y"
  by (cases P) (simp add: ed_signed_def)

lemma unit_mult: "a dvd 1 \<Longrightarrow> b dvd 1 \<Longrightarrow> a * b dvd (1 :: fp)"
  using mult_dvd_mono [of a 1 b 1] by simp

lemma unit_two: "2 dvd (1 :: fp)"
proof (rule dvdI)
  have "(of_nat (2 * ((p25519 + 1) div 2)) :: fp) = of_nat (1 + p25519 * 1)" by (simp add: p25519_def)
  then show "(1 :: fp) = 2 * of_nat ((p25519 + 1) div 2)" unfolding fp_of_nat_p by simp
qed

lemma represents_unique: "represents P x y \<Longrightarrow> represents P x' y' \<Longrightarrow> x = x' \<and> y = y'"
proof (cases P)
  case (fields X Y Z T)
  have c: "a = b" if "a * Z = b * Z" "Z dvd 1" for a b
  proof -
    from that(2) obtain u where "1 = Z * u" by (auto elim: dvdE)
    then show ?thesis using that(1) by (metis mult.assoc mult.right_neutral)
  qed
  assume "represents P x y" "represents P x' y'"
  then have "x * Z = x' * Z" "y * Z = y' * Z" "Z dvd 1" unfolding fields by simp_all
  then show ?thesis using c by blast
qed

lemma represents_extend:
  assumes "E = k * e" "H = k * h" "G = k * g" "F = k * f" "x * g = e" "y * f = h" "k dvd 1" "g dvd 1" "f dvd 1"
  shows "represents (ed_extend (E, H, G, F)) x y"
  unfolding ed_extend.simps represents.simps assms(1-4) assms(5,6) [symmetric]
  by (intro conjI unit_mult assms(7-9)) (simp_all add: mult_ac)

lemma represents_add:
  assumes "represents P x1 y1" "represents Q x2 y2" "affine_sum x1 y1 x2 y2 x3 y3"
  shows "represents (ed_add P Q) x3 y3"
proof (cases P; cases Q)
  fix X1 Y1 Z1 T1 X2 Y2 Z2 T2
  assume P: "P = (X1, Y1, Z1, T1)" and Q: "Q = (X2, Y2, Z2, T2)"
  define k where "k = 2 * Z1 * Z2"
  have "2 * (X1 * Y2 + X2 * Y1) = k * (x1 * y2 + x2 * y1)" "2 * (Y1 * Y2 + X1 * X2) = k * (y1 * y2 + x1 * x2)"
    "2 * (Z1 * Z2 + ed_d * T1 * T2) = k * (1 + ed_d * x1 * x2 * y1 * y2)"
    "2 * (Z1 * Z2 - ed_d * T1 * T2) = k * (1 - ed_d * x1 * x2 * y1 * y2)"
    using assms(1,2) unfolding P Q k_def by (simp_all add: algebra_simps)
  then show ?thesis
    unfolding P Q ed_add_def ed_completed_add.simps
    by (rule represents_extend) (use assms in \<open>simp_all add: affine_sum_def P Q k_def unit_mult unit_two\<close>)
qed

text \<open>On the curve, doubling is addition of the point to itself, with all coordinates divided by two.\<close>

lemma completed_double_add:
  assumes "ext_ok P"
  shows "ed_completed_add P P = (case ed_completed_double P of (E, H, G, F) \<Rightarrow> (2 * E, 2 * H, 2 * G, 2 * F))"
proof (cases P)
  case (fields X Y Z T)
  then have "Y ^ 2 - X ^ 2 = Z ^ 2 + ed_d * T ^ 2" using assms by simp
  then show ?thesis
    unfolding fields ed_completed_double.simps prod.case ed_completed_add.simps by (simp add: power2_eq_square mult.assoc)
qed

lemma represents_double:
  assumes "represents P x y" "on_curve x y" "affine_sum x y x y x3 y3"
  shows "represents (ed_double P) x3 y3"
proof (cases P)
  case (fields X Y Z T)
  have c: "y * y - x * x = 1 + ed_d * x * x * y * y" using assms(2) by (simp add: on_curve_def power2_eq_square mult.assoc)
  then have c': "ed_d * x * x * y * y = y * y - x * x - 1" by simp
  have "2 * X * Y = Z ^ 2 * (x * y + x * y)" "Y ^ 2 + X ^ 2 = Z ^ 2 * (y * y + x * x)"
    "Y ^ 2 - X ^ 2 = Z ^ 2 * (1 + ed_d * x * x * y * y)"
    "2 * Z ^ 2 - (Y ^ 2 - X ^ 2) = Z ^ 2 * (1 - ed_d * x * x * y * y)"
    using assms(1) unfolding fields c' by (simp_all add: power2_eq_square algebra_simps)
  then show ?thesis
    unfolding fields ed_double_def ed_completed_double.simps
    by (rule represents_extend) (use assms in \<open>simp_all add: affine_sum_def fields power2_eq_square unit_mult\<close>)
qed


section \<open>Encodings of points\<close>

lemma sqrtneg1_square: "fval ge25519_sqrtneg1 * fval ge25519_sqrtneg1 = - 1"
proof -
  have "fe ge25519_sqrtneg1 = 19681161376707505956807079304988542015446066515923890162744021073123829784752" by (simp add: ge25519_sqrtneg1_def)
  moreover have "(19681161376707505956807079304988542015446066515923890162744021073123829784752 :: nat) * 19681161376707505956807079304988542015446066515923890162744021073123829784752 + 1 = 0 + p25519 * 6690407189080634018507799843845558368979872843924222843531373839242004886245"
    by (simp add: p25519_def)
  ultimately have "(of_nat (fe ge25519_sqrtneg1 * fe ge25519_sqrtneg1 + 1) :: fp) = 0" by (metis fp_of_nat_p semiring_1_class.of_nat_0)
  then show ?thesis unfolding fval_def by (simp add: eq_neg_iff_add_eq_0 add.commute)
qed

lemma verify_fold:
  "foldl (\<lambda>d i. d OR ucast (x ! i XOR y ! i)) 0 [0..<n] = (ucast (or_diff x y n) :: u64)"
  by (induction n) (simp_all add: or_diff_def unsigned_or_eq)

lemma ed25519_verify_correct:
  assumes "len \<le> length x" "len \<le> length y"
  shows "ed25519_verify x y len = (if take len x = take len y then 1 else 0)"
proof -
  have "1 AND drop_bit 8 (ucast d - 1 :: u64) = (if d = 0 then 1 else 0)" for d :: byte
  proof (cases "d = 0")
    case False
    then have "unat (ucast d - 1 :: u64) = unat d - 1"
      by (subst unat_sub_u64) (simp_all add: word_le_nat_alt unat_ucast_byte unat_byte_pos Suc_leI)
    then have "drop_bit 8 (ucast d - 1 :: u64) = 0"
      using byte_bounds(1) [of d] by (simp add: word_unat_eq_iff unat_carry_div)
    then show ?thesis using False by simp
  qed (simp add: mask_numeral)
  then show ?thesis unfolding ed25519_verify_def verify_fold Let_def using or_diff_zero [OF assms] by auto
qed

lemma contract_zero:
  assumes "loose a"
  shows "ed25519_verify (curve25519_contract a) (replicate 32 0) 32 = (if fval a = 0 then 1 else 0)"
proof -
  have "fp_nat (fval a) < 256 ^ 32" using fp_nat_less [of "fval a"] by (simp add: p25519_def)
  then have "le_bytes 32 (fp_nat (fval a)) = replicate 32 0 \<longleftrightarrow> fp_nat (fval a) = 0"
    by (metis le_nat_le_bytes le_nat_zeros length_le_bytes length_replicate le_nat_inject mod_less)
  also have "\<dots> \<longleftrightarrow> fval a = 0"
    using fp_nat_inject [of "fval a" 0] fp_nat_of_nat [of 0] by simp
  finally show ?thesis by (simp add: ed25519_verify_correct curve25519_contract_correct [OF assms])
qed

text \<open>The parity of the representative of an element.\<close>

definition odd_bit :: "fp \<Rightarrow> nat" where
  "odd_bit x = fp_nat x mod 2"

lemma contract_parity:
  assumes "loose a"
  shows "curve25519_contract a ! 0 AND 1 = of_nat (odd_bit (fval a))"
proof -
  have "(of_nat n :: byte) AND 1 = of_nat (n mod 2)" for n
    using take_bit_of_nat [of 1 n, where 'a = byte] by (simp add: and_one_eq take_bit_eq_mod)
  then show ?thesis by (simp add: curve25519_contract_correct [OF assms] odd_bit_def nth_le_bytes)
qed

lemma fp_nat_neg: "x \<noteq> 0 \<Longrightarrow> fp_nat (- x) = p25519 - fp_nat x"
proof -
  assume "x \<noteq> 0"
  have "0 < fp_nat x" using \<open>x \<noteq> 0\<close> by (metis gr0I of_nat_fp_nat semiring_1_class.of_nat_0)
  have "(of_nat (p25519 - fp_nat x) :: fp) + of_nat (fp_nat x) = of_nat (0 + p25519 * 1)"
    using fp_nat_less [of x] by (simp flip: of_nat_add)
  then have "(of_nat (p25519 - fp_nat x) :: fp) + x = 0" unfolding fp_of_nat_p by simp
  then have "- x = of_nat (p25519 - fp_nat x)" by (simp add: eq_neg_iff_add_eq_0 neg_eq_iff_add_eq_0 add.commute)
  then show ?thesis using \<open>0 < fp_nat x\<close> p25519_gt by (simp add: fp_nat_of_nat del: of_nat_diff)
qed

lemma odd_bit_neg: "x \<noteq> 0 \<Longrightarrow> odd_bit (- x) = 1 - odd_bit x"
proof -
  assume "x \<noteq> 0"
  have "odd p25519" by (simp add: p25519_def)
  moreover have "p25519 = fp_nat (- x) + fp_nat x" using fp_nat_neg [OF \<open>x \<noteq> 0\<close>] fp_nat_less [of x] by simp
  ultimately have "odd (fp_nat (- x) + fp_nat x)" by simp
  then show ?thesis unfolding odd_bit_def by presburger
qed

lemma odd_bit_less: "odd_bit x < 2" by (simp add: odd_bit_def)

lemmas power_rules [limb_rules] = curve25519_pow_two252m3_correct curve25519_recip_correct contract_zero contract_parity

lemma one_limbs [limb_rules]: "tight [1, 0, 0, 0, 0]" "fval [1, 0, 0, 0, 0] = 1"
  by (simp_all add: tight_def fval_def)

text \<open>The coordinate and the sign that an encoding holds.\<close>

definition enc_y :: "byte list \<Rightarrow> fp" where
  "enc_y p = of_nat (le_nat p mod 2 ^ 255)"

definition enc_sign :: "byte list \<Rightarrow> nat" where
  "enc_sign p = le_nat p div 2 ^ 255"

lemma le_nat_32: "length p = 32 \<Longrightarrow> le_nat p = le_nat (take 31 p) + 256 ^ 31 * unat (p ! 31)"
proof -
  assume p: "length p = 32"
  then have "drop 31 p = [p ! 31]" by (simp add: Cons_nth_drop_Suc [symmetric])
  then show ?thesis using le_nat_split [of 31 p] p by simp
qed

lemma enc_sign_byte: "length p = 32 \<Longrightarrow> enc_sign p = unat (p ! 31) div 2 ^ 7"
proof -
  assume p: "length p = 32"
  note le_nat_32 [OF p]
  moreover have "le_nat (take 31 p) < 256 ^ 31" using le_nat_less [of "take 31 p"] p by simp
  ultimately have "le_nat p div 256 ^ 31 = unat (p ! 31)" by simp
  moreover have "enc_sign p = le_nat p div 256 ^ 31 div 2 ^ 7" by (simp add: enc_sign_def div_mult2_eq [symmetric])
  ultimately show ?thesis by simp
qed

lemma sign_bit_byte: "length p = 32 \<Longrightarrow> drop_bit 7 (p ! 31) = of_nat (enc_sign p)"
  by (simp only: enc_sign_byte unat_shr [symmetric] of_nat_unat ucast_id)

lemma enc_sign_less: "length p = 32 \<Longrightarrow> enc_sign p < 2"
  using byte_bounds(1) [of "p ! 31"] by (simp add: enc_sign_byte less_mult_imp_div_less)

lemma byte_of_small: "a < 256 \<Longrightarrow> b < 256 \<Longrightarrow> (of_nat a :: byte) = of_nat b \<longleftrightarrow> a = b"
  by (auto simp: word_unat_eq_iff unsigned_of_nat take_bit_nat_eq_self)

text \<open>The root that decompression tries first, and the one it chooses.\<close>

definition root_candidate :: "fp \<Rightarrow> fp" where
  "root_candidate y = (let u = y ^ 2 - 1; v = ed_d * y ^ 2 + 1 in u * v ^ 3 * (u * v ^ 7) ^ ((p25519 - 5) div 8))"

definition encoded_root :: "fp \<Rightarrow> fp option" where
  "encoded_root y = (let u = y ^ 2 - 1; v = ed_d * y ^ 2 + 1; c = root_candidate y
     in if v * c ^ 2 = u then Some c else if v * c ^ 2 = - u then Some (c * fval ge25519_sqrtneg1) else None)"

lemma encoded_root_on_curve: "encoded_root y = Some x \<Longrightarrow> on_curve x y"
proof -
  define u v c where "u = y ^ 2 - 1" and "v = ed_d * y ^ 2 + 1" and "c = root_candidate y"
  assume "encoded_root y = Some x"
  then consider "v * c ^ 2 = u" "x = c" | "v * c ^ 2 = - u" "x = c * fval ge25519_sqrtneg1"
    unfolding encoded_root_def Let_def u_def [symmetric] v_def [symmetric] c_def [symmetric] by (auto split: if_splits)
  then have "v * x ^ 2 = u"
  proof cases
    case 2
    have "v * (c * fval ge25519_sqrtneg1) ^ 2 = v * c ^ 2 * (fval ge25519_sqrtneg1 * fval ge25519_sqrtneg1)"
      by (simp only: power_mult_distrib mult.assoc power2_eq_square [of "fval ge25519_sqrtneg1"])
    then show ?thesis unfolding sqrtneg1_square 2 by simp
  qed simp
  then show ?thesis by (simp add: on_curve_def u_def v_def algebra_simps)
qed

lemma unpack_correct:
  assumes "length p = 32"
  shows "case ge25519_unpack_negative_vartime p of
      None \<Rightarrow> encoded_root (enc_y p) = None
    | Some r \<Rightarrow> \<exists>c. encoded_root (enc_y p) = Some c
        \<and> ge_rep r (let x = (if odd_bit c = enc_sign p then - c else c) in (x, enc_y p, 1, x * enc_y p))"
proof -
  define ry where "ry = curve25519_expand p"
  define num where "num = curve25519_sub_reduce (curve25519_square ry) [1, 0, 0, 0, 0]"
  define den where "den = curve25519_add (curve25519_mul (curve25519_square ry) ge25519_ecd) [1, 0, 0, 0, 0]"
  define d3 where "d3 = curve25519_mul (curve25519_square den) den"
  define rx where "rx = curve25519_mul (curve25519_mul (curve25519_pow_two252m3
      (curve25519_mul (curve25519_mul (curve25519_square d3) den) num)) d3) num"
  define t where "t = curve25519_mul (curve25519_square rx) den"
  have y: "tight ry" "fval ry = enc_y p"
    using curve25519_expand_fval [OF assms] by (simp_all add: ry_def enc_y_def)
  have num: "tight num" "fval num = enc_y p ^ 2 - 1" and den: "mid den" "fval den = ed_d * enc_y p ^ 2 + 1"
    unfolding num_def den_def by (simp_all add: y limb_rules ed_d_def power2_eq_square)
  have d3: "tight d3" "fval d3 = fval den ^ 3" unfolding d3_def by (simp_all add: den(1) limb_rules power3_eq_cube)
  have "fval den ^ 3 * fval den ^ 3 * fval den * fval num = fval num * fval den ^ 7" by (simp add: numeral_eq_Suc mult_ac)
  then have rx: "tight rx" "fval rx = root_candidate (enc_y p)"
    unfolding rx_def root_candidate_def Let_def num(2) [symmetric] den(2) [symmetric]
    by (simp_all add: num(1) den(1) d3 limb_rules mult_ac)
  have t: "tight t" "fval t = fval den * fval rx ^ 2"
    unfolding t_def by (simp_all add: rx(1) den(1) limb_rules power2_eq_square mult_ac)
  have par: "(of_nat (odd_bit z) :: byte) = of_nat (enc_sign p) \<longleftrightarrow> odd_bit z = enc_sign p" for z
    using odd_bit_less [of z] enc_sign_less [OF assms] by (intro byte_of_small) simp_all
  have eq: "fval t - fval num = 0 \<longleftrightarrow> fval den * fval rx ^ 2 = fval num"
      "fval t + fval num = 0 \<longleftrightarrow> fval den * fval rx ^ 2 = - fval num"
    unfolding t(2) by (simp_all add: eq_neg_iff_add_eq_0)
  have "ge25519_unpack_negative_vartime p =
    (case (if fval t - fval num = 0 then Some rx else if fval t + fval num = 0 then Some (curve25519_mul rx ge25519_sqrtneg1) else None) of
      None \<Rightarrow> None | Some c \<Rightarrow> let x = (if odd_bit (fval c) = enc_sign p then curve25519_neg c else c)
         in Some \<lparr>ge_x = x, ge_y = ry, ge_z = [1, 0, 0, 0, 0], ge_t = curve25519_mul x ry\<rparr>)"
    unfolding ge25519_unpack_negative_vartime_def Let_def
    by (simp add: ry_def [symmetric] limb_rules num_def [symmetric] den_def [symmetric] d3_def [symmetric] rx_def [symmetric] t_def [symmetric]
      t(1) num(1) rx(1) sign_bit_byte assms par)
  then show ?thesis
    unfolding eq encoded_root_def Let_def num(2) [symmetric] den(2) [symmetric] rx(2) [symmetric]
    by (auto simp: ge_rep_def y rx(1) limb_rules)
qed

lemma byte_top_xor:
  assumes "n < 2 ^ 7"
  shows "(of_nat n XOR push_bit 7 (of_nat b) :: byte) = of_nat (n + 2 ^ 7 * b)"
proof -
  have "take_bit 7 n AND push_bit 7 b = 0" by (rule bit_eqI) (simp add: bit_simps)
  then have "n AND push_bit 7 b = 0" using assms by (simp add: take_bit_nat_eq_self)
  then have "n XOR push_bit 7 b = n + 2 ^ 7 * b"
    by (metis disjunctive_add_eq_xor push_bit_eq_mult mult.commute)
  then show ?thesis by (metis of_nat_xor_eq push_bit_of_nat)
qed

lemma byte_flip_top: "unat (b XOR 0x80 :: byte) = unat b mod 2 ^ 7 + 2 ^ 7 * (1 - unat b div 2 ^ 7)"
proof -
  define m s where "m = unat b mod 2 ^ 7" and "s = unat b div 2 ^ 7"
  have m: "m < 2 ^ 7" and s: "s < 2" using byte_bounds(1) [of b] by (simp_all add: m_def s_def less_mult_imp_div_less)
  have top: "0x80 = (push_bit 7 (of_nat 1) :: byte)" by simp
  have "unat b = m + 2 ^ 7 * s" by (simp add: m_def s_def)
  then have b: "b = of_nat m XOR push_bit 7 (of_nat s)" unfolding byte_top_xor [OF m] by (metis of_nat_unat ucast_id)
  have "b XOR 0x80 = of_nat (m + 2 ^ 7 * (1 - s))"
  proof (cases "s = 0")
    case True
    then show ?thesis unfolding b top using byte_top_xor [OF m, of 1] by simp
  next
    case False
    then have "s = 1" using s by simp
    then show ?thesis unfolding b top by (simp only: xor.assoc xor_self_eq) simp
  qed
  moreover have "m + 2 ^ 7 * (1 - s) < 2 ^ 8" using m by (cases s) auto
  ultimately show ?thesis unfolding m_def [symmetric] s_def [symmetric] by (simp only: unsigned_of_nat) (simp add: take_bit_nat_eq_self)
qed

lemma flip_sign_bytes:
  assumes "length p = 32"
  shows "le_bytes 32 (le_nat p mod 2 ^ 255 + 2 ^ 255 * (1 - enc_sign p)) = p[31 := p ! 31 XOR 0x80]"
proof (rule le_nat_inject)
  define a b where "a = le_nat (take 31 p)" and "b = unat (p ! 31)"
  have a: "a < 256 ^ 31" using le_nat_less [of "take 31 p"] assms by (simp add: a_def)
  have "le_nat p mod (256 ^ 31 * 2 ^ 7) = a + 256 ^ 31 * (b mod 2 ^ 7)"
    unfolding le_nat_32 [OF assms] a_def [symmetric] b_def [symmetric] mod_mult2_eq using a by simp
  then have "le_nat p mod 2 ^ 255 + 2 ^ 255 * (1 - enc_sign p) = a + 256 ^ 31 * unat (p ! 31 XOR 0x80)"
    unfolding byte_flip_top enc_sign_byte [OF assms] b_def [symmetric] by (simp add: algebra_simps)
  moreover have "le_nat (p[31 := p ! 31 XOR 0x80]) = a + 256 ^ 31 * unat (p ! 31 XOR 0x80)"
    using le_nat_32 [of "p[31 := p ! 31 XOR 0x80]"] assms by (simp add: a_def)
  moreover have "le_nat (p[31 := p ! 31 XOR 0x80]) < 256 ^ 32" using le_nat_less [of "p[31 := p ! 31 XOR 0x80]"] assms by simp
  ultimately show "le_nat (le_bytes 32 (le_nat p mod 2 ^ 255 + 2 ^ 255 * (1 - enc_sign p))) = le_nat (p[31 := p ! 31 XOR 0x80])"
    unfolding le_nat_le_bytes by (metis mod_less)
qed (simp add: assms)

lemma pack_correct:
  assumes "partial_rep p (X, Y, Z, T)"
  shows "ge25519_pack p = le_bytes 32 (fp_nat (Y * Z ^ (p25519 - 2)) + 2 ^ 255 * odd_bit (X * Z ^ (p25519 - 2)))"
proof -
  define y where "y = fp_nat (Y * Z ^ (p25519 - 2))"
  define b where "b = odd_bit (X * Z ^ (p25519 - 2))"
  define zi where "zi = curve25519_recip (ge_z p)"
  note p = assms [unfolded partial_rep_def]
  have zi: "tight zi" "fval zi = Z ^ (p25519 - 2)" using p by (auto simp: zi_def limb_rules)
  have c: "curve25519_contract (curve25519_mul (ge_y p) zi) = le_bytes 32 y"
    using p by (auto simp: zi limb_rules curve25519_contract_correct y_def simp del: le_bytes.simps)
  have par: "curve25519_contract (curve25519_mul (ge_x p) zi) ! 0 AND 1 = of_nat b"
    using p by (auto simp: zi limb_rules b_def)
  have "ge25519_pack p = (le_bytes 32 y)[31 := le_bytes 32 y ! 31 XOR push_bit 7 (of_nat b)]"
    unfolding ge25519_pack_def Let_def zi_def [symmetric] c par ..
  also have "\<dots> = le_bytes 32 (y + 2 ^ 255 * b)"
  proof (rule nth_equalityI)
    fix i assume "i < length ((le_bytes 32 y)[31 := le_bytes 32 y ! 31 XOR push_bit 7 (of_nat b)])"
    then have i: "i < 32" by simp
    have y: "y < 2 ^ 255" using fp_nat_less [of "Y * Z ^ (p25519 - 2)"] by (simp add: y_def p25519_def)
    have b: "b < 2" by (simp add: b_def odd_bit_less)
    show "(le_bytes 32 y)[31 := le_bytes 32 y ! 31 XOR push_bit 7 (of_nat b)] ! i = le_bytes 32 (y + 2 ^ 255 * b) ! i"
    proof (cases "i = 31")
      case True
      have "y div 256 ^ 31 < 2 ^ 7" using y by (simp add: less_mult_imp_div_less)
      moreover have "(y + 2 ^ 255 * b) div 256 ^ 31 = y div 256 ^ 31 + 2 ^ 7 * b" by simp
      ultimately show ?thesis using True by (simp add: nth_le_bytes byte_top_xor)
    next
      case False
      then have "(2 :: nat) ^ 255 * b = 256 ^ i * (256 * (2 ^ (247 - 8 * i) * b))"
        using i by (simp add: power_256 [symmetric] power_add [symmetric])
      then have "(y + 2 ^ 255 * b) div 256 ^ i = (y + 256 ^ i * (256 * (2 ^ (247 - 8 * i) * b))) div 256 ^ i" by (simp only:)
      then have "(y + 2 ^ 255 * b) div 256 ^ i = y div 256 ^ i + 256 * (2 ^ (247 - 8 * i) * b)" by (simp only: div_mult_self2) simp
      moreover have "(of_nat (n + 256 * m) :: byte) = of_nat n" for n m
        by (simp only: word_unat_eq_iff unsigned_of_nat) (simp add: take_bit_eq_mod)
      ultimately show ?thesis using i by (simp only: nth_le_bytes nth_list_update_neq [OF not_sym [OF False]])
    qed
  qed simp
  finally show ?thesis by (simp add: y_def b_def)
qed

lemma pack_affine:
  assumes "ge_rep p (X, Y, Z, T)" "represents (X, Y, Z, T) x y" "Z ^ (p25519 - 1) = 1"
  shows "ge25519_pack p = le_bytes 32 (fp_nat y + 2 ^ 255 * odd_bit x)"
proof -
  have "p25519 - 1 = Suc (p25519 - 2)" using p25519_gt by simp
  then have "Z * Z ^ (p25519 - 2) = 1" using assms(3) by simp
  then have "Y * Z ^ (p25519 - 2) = y" "X * Z ^ (p25519 - 2) = x" using assms(2) by (simp_all add: mult.assoc)
  then show ?thesis using pack_correct [OF ge_rep_partial [OF assms(1)]] by simp
qed


section \<open>Properties\<close>

text \<open>C16: on points given by extended coordinates with reduced limbs, the additions and doublings of
  \<^verbatim>\<open>ed25519-donna-impl-base.h\<close> follow the affine addition law of the curve: when the operands stand for
  \<open>(x1, y1)\<close> and \<open>(x2, y2)\<close>, the sum computed by \<^verbatim>\<open>ge25519_add\<close>, by \<^verbatim>\<open>ge25519_nielsadd2\<close> with the second
  operand in Niels form and by \<^verbatim>\<open>ge25519_pnielsadd\<close> with it in projective Niels form stands for
  \<open>(x3, y3)\<close>, the completed additions with a sign bit for the sum or the difference, and
  \<^verbatim>\<open>ge25519_double\<close> for the sum of a point of the curve with itself.\<close>

theorem ge25519_addition_law:
  assumes "ge_rep p P" "represents P x1 y1" "represents Q x2 y2" "affine_sum x1 y1 x2 y2 x3 y3"
    "ge_rep q Q" "niels_rep n Q'" "represents Q' x2 y2" "pniels_rep m Q"
    "signbit \<le> 1" "affine_sum x1 y1 (if signbit = 0 then x2 else - x2) y2 x4 y4"
    "on_curve x1 y1" "affine_sum x1 y1 x1 y1 x5 y5"
  shows "(\<exists>R. ge_rep (ge25519_add p q) R \<and> represents R x3 y3)
    \<and> (\<exists>R. ge_rep (ge25519_nielsadd2 p n) R \<and> represents R x3 y3)
    \<and> (\<exists>R. pniels_rep (ge25519_pnielsadd p m) R \<and> represents R x3 y3)
    \<and> (\<exists>R. ge_rep (ge25519_p1p1_to_full (ge25519_nielsadd2_p1p1 p n signbit)) R \<and> represents R x4 y4)
    \<and> (\<exists>R. ge_rep (ge25519_p1p1_to_full (ge25519_pnielsadd_p1p1 p m signbit)) R \<and> represents R x4 y4)
    \<and> (\<exists>R. ge_rep (ge25519_double p) R \<and> represents R x5 y5)"
proof -
  note sum = represents_add [OF assms(2)]
  have "ge_rep (ge25519_p1p1_to_full (ge25519_nielsadd2_p1p1 p n signbit)) (ed_add P (ed_signed signbit Q'))"
    "ge_rep (ge25519_p1p1_to_full (ge25519_pnielsadd_p1p1 p m signbit)) (ed_add P (ed_signed signbit Q))"
    unfolding ed_add_def using assms by (blast intro: p1p1_to_full_rep nielsadd2_p1p1_rep pnielsadd_p1p1_rep)+
  moreover have "represents (ed_add P (ed_signed signbit Q')) x4 y4" "represents (ed_add P (ed_signed signbit Q)) x4 y4"
    by (rule sum [OF represents_signed [OF assms(7)] assms(10)], rule sum [OF represents_signed [OF assms(3)] assms(10)])
  moreover have "represents (ed_add P Q) x3 y3" "represents (ed_add P Q') x3 y3" "represents (ed_double P) x5 y5"
    using sum assms represents_double by blast+
  moreover note add_rep [OF assms(1,5)] nielsadd2_rep [OF assms(1,6)] pnielsadd_rep [OF assms(1,8)]
    double_rep [OF ge_rep_partial [OF assms(1)]]
  ultimately show ?thesis by blast
qed

text \<open>The neutral element \<open>(0, 1)\<close> as operands of every form.\<close>

definition neutral_limbs :: ge25519 where
  "neutral_limbs = \<lparr>ge_x = [0, 0, 0, 0, 0], ge_y = [1, 0, 0, 0, 0], ge_z = [1, 0, 0, 0, 0], ge_t = [0, 0, 0, 0, 0]\<rparr>"

lemma zero_limbs [limb_rules]: "tight [0, 0, 0, 0, 0]" "fval [0, 0, 0, 0, 0] = 0"
  by (simp_all add: tight_def fval_def)

lemma neutral_rep: "ge_rep neutral_limbs (0, 1, 1, 0)"
  by (simp add: ge_rep_def neutral_limbs_def limb_rules)

theorem ge25519_addition_law_witness:
  "\<exists>R. ge_rep (ge25519_add neutral_limbs neutral_limbs) R \<and> represents R 0 1"
proof -
  have "niels_rep \<lparr>n_ysubx = [1, 0, 0, 0, 0], n_xaddy = [1, 0, 0, 0, 0], n_t2d = [0, 0, 0, 0, 0]\<rparr> (0, 1, 1, 0)"
    by (simp add: niels_rep_def limb_rules)
  moreover have "affine_sum 0 1 0 1 0 1" by (simp add: affine_sum_def)
  ultimately show ?thesis
    using ge25519_addition_law [OF neutral_rep, of 0 1 "(0, 1, 1, 0)" 0 1 0 1 neutral_limbs _ "(0, 1, 1, 0)"
        "ge25519_full_to_pniels neutral_limbs" 0 0 1 0 1] neutral_rep full_to_pniels_rep [OF neutral_rep]
    by (simp add: on_curve_def)
qed

text \<open>C17: points stay on the curve: when the operands satisfy the equations \<open>Y\<^sup>2 - X\<^sup>2 = Z\<^sup>2 + d T\<^sup>2\<close> and
  \<open>X Y = Z T\<close> of extended coordinates, so do the results of the additions, of the doublings and of the conversion to
  projective Niels form, for all values of the coordinates, and their limbs are reduced again.\<close>

theorem ge25519_stays_on_curve:
  assumes "ge_rep p P" "ext_ok P" "ge_rep q Q" "ext_ok Q" "niels_rep n N" "ext_ok N" "pniels_rep m M" "ext_ok M" "signbit \<le> 1"
  shows "(\<exists>R. ge_rep (ge25519_add p q) R \<and> ext_ok R) \<and> (\<exists>R. ge_rep (ge25519_double p) R \<and> ext_ok R)
    \<and> (\<exists>R. partial_rep (ge25519_double_partial r p) R \<and> ext_ok R)
    \<and> (\<exists>R. ge_rep (ge25519_nielsadd2 p n) R \<and> ext_ok R) \<and> (\<exists>R. pniels_rep (ge25519_pnielsadd p m) R \<and> ext_ok R)
    \<and> (\<exists>R. ge_rep (ge25519_p1p1_to_full (ge25519_nielsadd2_p1p1 p n signbit)) R \<and> ext_ok R)
    \<and> (\<exists>R. ge_rep (ge25519_p1p1_to_full (ge25519_pnielsadd_p1p1 p m signbit)) R \<and> ext_ok R)
    \<and> (\<exists>R. pniels_rep (ge25519_full_to_pniels p) R \<and> ext_ok R)"
proof -
  have "ge_rep (ge25519_p1p1_to_full (ge25519_nielsadd2_p1p1 p n signbit)) (ed_add P (ed_signed signbit N))"
    "ge_rep (ge25519_p1p1_to_full (ge25519_pnielsadd_p1p1 p m signbit)) (ed_add P (ed_signed signbit M))"
    unfolding ed_add_def using assms by (blast intro: p1p1_to_full_rep nielsadd2_p1p1_rep pnielsadd_p1p1_rep)+
  moreover note add_rep [OF assms(1,3)] nielsadd2_rep [OF assms(1,5)] pnielsadd_rep [OF assms(1,7)]
    double_rep [OF ge_rep_partial [OF assms(1)]] double_partial_rep [OF ge_rep_partial [OF assms(1)]] full_to_pniels_rep [OF assms(1)]
  moreover have "ext_ok (ed_add P (ed_signed signbit N))" "ext_ok (ed_add P (ed_signed signbit M))"
    using assms by (simp_all add: ext_ok_add)
  ultimately show ?thesis using assms ext_ok_add ext_ok_double by blast
qed

theorem ge25519_stays_on_curve_witness: "\<exists>R. ge_rep (ge25519_double neutral_limbs) R \<and> ext_ok R"
proof -
  have "niels_rep \<lparr>n_ysubx = [1, 0, 0, 0, 0], n_xaddy = [1, 0, 0, 0, 0], n_t2d = [0, 0, 0, 0, 0]\<rparr> (0, 1, 1, 0)"
    by (simp add: niels_rep_def limb_rules)
  moreover have "ext_ok (0, 1, 1, 0)" by simp
  ultimately show ?thesis
    using ge25519_stays_on_curve [OF neutral_rep _ neutral_rep _ _ _ full_to_pniels_rep [OF neutral_rep], of _ "(0, 1, 1, 0)" 0] by simp
qed

lemma unpack_sign:
  assumes "length p = 32" "ge25519_unpack_negative_vartime p = Some r"
  shows "on_curve (fval (ge_x r)) (enc_y p)" "ge_rep r (fval (ge_x r), enc_y p, 1, fval (ge_x r) * enc_y p)"
    "fval (ge_x r) \<noteq> 0 \<Longrightarrow> odd_bit (fval (ge_x r)) = 1 - enc_sign p"
proof -
  define x where "x = fval (ge_x r)"
  obtain c where c: "encoded_root (enc_y p) = Some c"
    and r: "ge_rep r (let x = (if odd_bit c = enc_sign p then - c else c) in (x, enc_y p, 1, x * enc_y p))"
    using unpack_correct [OF assms(1)] assms(2) by auto
  have x: "x = (if odd_bit c = enc_sign p then - c else c)" using r by (simp add: x_def ge_rep_def Let_def)
  have "ge_rep r (x, enc_y p, 1, x * enc_y p)" using r unfolding x Let_def .
  moreover have "on_curve x (enc_y p)" using encoded_root_on_curve [OF c] by (simp add: x on_curve_def)
  moreover have "odd_bit x = 1 - enc_sign p" if "x \<noteq> 0"
  proof -
    have "c \<noteq> 0" using that unfolding x by (auto split: if_splits)
    then show ?thesis
      using odd_bit_neg [of c] odd_bit_less [of c] enc_sign_less [OF assms(1)] unfolding x by auto
  qed
  ultimately show "on_curve (fval (ge_x r)) (enc_y p)" "ge_rep r (fval (ge_x r), enc_y p, 1, fval (ge_x r) * enc_y p)"
    "fval (ge_x r) \<noteq> 0 \<Longrightarrow> odd_bit (fval (ge_x r)) = 1 - enc_sign p"
    unfolding x_def by blast+
qed

lemma pack_unpack:
  assumes "length p = 32" "ge25519_unpack_negative_vartime p = Some r"
    "le_nat p mod 2 ^ 255 < p25519" "fval (ge_x r) \<noteq> 0"
  shows "ge25519_pack r = p[31 := p ! 31 XOR 0x80]"
proof -
  note r = unpack_sign [OF assms(1,2)]
  have "fp_nat (enc_y p) = le_nat p mod 2 ^ 255" using assms(3) unfolding enc_y_def fp_nat_of_nat by simp
  then have "ge25519_pack r = le_bytes 32 (le_nat p mod 2 ^ 255 + 2 ^ 255 * (1 - enc_sign p))"
    using pack_affine [OF r(2), of "fval (ge_x r)" "enc_y p"] r(3) assms(4) by simp
  also have "\<dots> = p[31 := p ! 31 XOR 0x80]" by (rule flip_sign_bytes [OF assms(1)])
  finally show ?thesis .
qed

lemma pack_unpack_zero:
  assumes "length p = 32" "ge25519_unpack_negative_vartime p = Some r"
    "le_nat p mod 2 ^ 255 < p25519" "fval (ge_x r) = 0"
  shows "ge25519_pack r = le_bytes 32 (le_nat p mod 2 ^ 255)"
proof -
  have "fp_nat (enc_y p) = le_nat p mod 2 ^ 255" using assms(3) unfolding enc_y_def fp_nat_of_nat by simp
  then show ?thesis
    using pack_affine [OF unpack_sign(2) [OF assms(1,2)], of "fval (ge_x r)" "enc_y p"] assms(4) fp_nat_of_nat [of 0]
    by (simp add: odd_bit_def del: le_bytes.simps)
qed

text \<open>C18: the encoding of points. \<^verbatim>\<open>ge25519_unpack_negative_vartime\<close> accepts 32 bytes exactly when one of the two
  candidates is a square root, and then returns a point of the curve with the encoded coordinate \<open>y\<close> and, unless \<open>x\<close> is
  zero, the sign opposite to the encoded one; when \<open>y\<close> was encoded canonically (below \<open>p\<close>) and \<open>x\<close> is not zero, \<^verbatim>\<open>ge25519_pack\<close> of
  it gives the bytes back with the sign bit inverted, and when \<open>y\<close> was encoded canonically and \<open>x\<close> is zero, the bytes with the sign bit cleared.\<close>

theorem ge25519_encoding:
  assumes "length p = 32"
  shows "(ge25519_unpack_negative_vartime p = None \<longleftrightarrow> encoded_root (enc_y p) = None)
    \<and> (\<forall>r. ge25519_unpack_negative_vartime p = Some r \<longrightarrow>
        on_curve (fval (ge_x r)) (enc_y p) \<and> ge_rep r (fval (ge_x r), enc_y p, 1, fval (ge_x r) * enc_y p)
        \<and> (fval (ge_x r) \<noteq> 0 \<longrightarrow> odd_bit (fval (ge_x r)) = 1 - enc_sign p)
        \<and> (fval (ge_x r) \<noteq> 0 \<and> le_nat p mod 2 ^ 255 < p25519 \<longrightarrow> ge25519_pack r = p[31 := p ! 31 XOR 0x80])
        \<and> (fval (ge_x r) = 0 \<and> le_nat p mod 2 ^ 255 < p25519 \<longrightarrow> ge25519_pack r = le_bytes 32 (le_nat p mod 2 ^ 255)))"
  using unpack_correct [OF assms] unpack_sign [OF assms] pack_unpack [OF assms] pack_unpack_zero [OF assms]
  by (auto split: option.splits simp del: le_bytes.simps)

lemma encoded_root_zero: "encoded_root 0 = Some (fval ge25519_sqrtneg1)"
proof -
  have "odd ((p25519 - 5) div 8)" by (simp add: p25519_def)
  then have "root_candidate 0 = 1" by (simp add: root_candidate_def)
  moreover have "(1 :: fp) \<noteq> - 1"
  proof
    assume "(1 :: fp) = - 1"
    then have "(of_nat 2 :: fp) = of_nat 0" by (simp add: eq_neg_iff_add_eq_0)
    then show False unfolding of_nat_fp_eq by (simp add: p25519_def)
  qed
  ultimately show ?thesis by (simp add: encoded_root_def)
qed

theorem ge25519_encoding_witness:
  "\<exists>r. ge25519_unpack_negative_vartime (replicate 32 0) = Some r \<and> on_curve (fval (ge_x r)) 0
     \<and> ge25519_pack r = (replicate 32 0)[31 := 0x80]"
proof -
  note * = ge25519_encoding [of "replicate 32 0"]
  have y: "enc_y (replicate 32 0) = 0" by (simp add: enc_y_def)
  then obtain r where r: "ge25519_unpack_negative_vartime (replicate 32 0) = Some r"
    using * encoded_root_zero by auto
  then have c: "on_curve (fval (ge_x r)) 0" using * y by simp
  then have "fval (ge_x r) \<noteq> 0" by (auto simp: on_curve_def)
  then have "ge25519_pack r = (replicate 32 0)[31 := replicate 32 0 ! 31 XOR 0x80]"
    using * r p25519_gt by simp
  then show ?thesis using r c by simp
qed

end
