(* ===== verification/Batch_Heap.thy ===== *)
theory Batch_Heap
  imports Modm_Batch Edwards "HOL-Library.Multiset"
begin

unbundle bit_operations_syntax

text \<open>
  The binary heap of \<^verbatim>\<open>ed25519-donna-batchverify.h\<close>: an array of indices ordered by the scalars they point to.
  The loops take the comparison of scalars as an argument; what they need of it is the interface \<open>batch_order\<close>, which the
  two comparisons on the lowest limbs provide.
\<close>

section \<open>Model\<close>

definition max_batch_size :: nat where "max_batch_size = 64"
definition heap_batch_size :: nat where "heap_batch_size = max_batch_size * 2 + 1"

record batch_heap =
  bh_r :: "byte list list"
  bh_points :: "ge25519 list"
  bh_scalars :: "bignum256modm list"
  bh_heap :: "nat list"
  bh_size :: nat

definition heap_swap :: "nat list \<Rightarrow> nat \<Rightarrow> nat \<Rightarrow> nat list" where
  "heap_swap heap a b = (let temp = heap ! a; heap = heap[a := heap ! b] in heap[b := temp])"

text \<open>Both functions that change the heap end with a loop that sifts a node up.\<close>

function sift_up :: "('a \<Rightarrow> 'a \<Rightarrow> int) \<Rightarrow> 'a list \<Rightarrow> nat list \<Rightarrow> nat \<Rightarrow> nat list" where
  "sift_up cmp scalars pheap node =
    (let parent = (node - 1) div 2
     in if node \<noteq> 0 \<and> cmp (scalars ! (pheap ! parent)) (scalars ! (pheap ! node)) \<noteq> 0
        then sift_up cmp scalars (heap_swap pheap parent node) parent else pheap)"
  by auto
termination by (relation "measure (\<lambda>(_, _, _, node). node)") (auto intro: le_less_trans [OF div_le_dividend])

declare sift_up.simps [simp del]

definition heap_insert_next :: "batch_heap \<Rightarrow> batch_heap" where
  "heap_insert_next heap =
    (let node = bh_size heap;
         pheap = (bh_heap heap)[node := node];
         pheap = sift_up (\<lambda>a b. lt256_modm_batch a b 4) (bh_scalars heap) pheap node
     in heap\<lparr>bh_heap := pheap, bh_size := bh_size heap + 1\<rparr>)"

text \<open>The loop that sifts the root to the bottom returns the heap and the last value of \<^verbatim>\<open>node\<close>.\<close>

function sift_down :: "('a \<Rightarrow> 'a \<Rightarrow> int) \<Rightarrow> 'a list \<Rightarrow> nat \<Rightarrow> nat list \<Rightarrow> nat \<Rightarrow> nat \<Rightarrow> nat list \<times> nat" where
  "sift_down cmp scalars heap_size pheap parent node =
    (let childl = parent * 2 + 1; childr = childl + 1
     in if childr < heap_size
        then let node = (if cmp (scalars ! (pheap ! childl)) (scalars ! (pheap ! childr)) \<noteq> 0 then childr else childl)
             in sift_down cmp scalars heap_size (heap_swap pheap parent node) node node
        else (pheap, node))"
  by auto
termination by (relation "measure (\<lambda>(_, _, n, _, parent, _). n - parent)") (auto simp: Let_def)

declare sift_down.simps [simp del]

definition heap_updated_root :: "batch_heap \<Rightarrow> nat \<Rightarrow> batch_heap" where
  "heap_updated_root heap limbsize =
    (let (pheap, node) = sift_down (\<lambda>a b. lt256_modm_batch a b limbsize) (bh_scalars heap) (bh_size heap) (bh_heap heap) 0 1;
         pheap = sift_up (\<lambda>a b. lte256_modm_batch a b limbsize) (bh_scalars heap) pheap node
     in heap\<lparr>bh_heap := pheap\<rparr>)"

lemma size_insert_next [simp]: "bh_size (heap_insert_next heap) = bh_size heap + 1"
  by (simp add: heap_insert_next_def Let_def)

function heap_extend :: "batch_heap \<Rightarrow> nat \<Rightarrow> batch_heap" where
  "heap_extend heap new_count =
    (if bh_size heap < new_count then heap_extend (heap_insert_next heap) new_count else heap)"
  by auto
termination by (relation "measure (\<lambda>(heap, new_count). new_count - bh_size heap)") auto

declare heap_extend.simps [simp del]

definition heap_build :: "batch_heap \<Rightarrow> nat \<Rightarrow> batch_heap" where
  "heap_build heap cnt = heap_extend (heap\<lparr>bh_heap := (bh_heap heap)[0 := 0], bh_size := 0\<rparr>) cnt"

definition heap_get_top2 :: "batch_heap \<Rightarrow> nat \<Rightarrow> nat \<times> nat" where
  "heap_get_top2 heap limbsize =
    (let h0 = bh_heap heap ! 0; h1 = bh_heap heap ! 1; h2 = bh_heap heap ! 2;
         h1 = (if lt256_modm_batch (bh_scalars heap ! h1) (bh_scalars heap ! h2) limbsize \<noteq> 0 then h2 else h1)
     in (h0, h1))"


section \<open>Heaps\<close>

definition up :: "nat \<Rightarrow> nat" where "up i = (i - 1) div 2"

lemma up_less: "0 < i \<Longrightarrow> up i < i"
  by (auto simp: up_def intro: le_less_trans [OF div_le_dividend])

lemma up_child: "0 < i \<and> up i = k \<longleftrightarrow> i = 2 * k + 1 \<or> i = 2 * k + 2"
  by (auto simp: up_def)

definition heap_ordered :: "(nat \<Rightarrow> nat) \<Rightarrow> nat \<Rightarrow> bool" where
  "heap_ordered v n \<longleftrightarrow> (\<forall>i < n. 0 < i \<longrightarrow> v i \<le> v (up i))"

text \<open>Ordered but for the node \<open>k\<close> and its parent, or but for the node \<open>k\<close> and its parent and children.\<close>

definition up_hole :: "(nat \<Rightarrow> nat) \<Rightarrow> nat \<Rightarrow> nat \<Rightarrow> bool" where
  "up_hole v n k \<longleftrightarrow> (\<forall>i < n. 0 < i \<and> i \<noteq> k \<longrightarrow> v i \<le> v (up i)) \<and> (0 < k \<longrightarrow> (\<forall>i < n. 0 < i \<and> up i = k \<longrightarrow> v i \<le> v (up k)))"

definition down_hole :: "(nat \<Rightarrow> nat) \<Rightarrow> nat \<Rightarrow> nat \<Rightarrow> bool" where
  "down_hole v n k \<longleftrightarrow> (\<forall>i < n. 0 < i \<and> i \<noteq> k \<and> up i \<noteq> k \<longrightarrow> v i \<le> v (up i)) \<and> (0 < k \<longrightarrow> (\<forall>i < n. 0 < i \<and> up i = k \<longrightarrow> v i \<le> v (up k)))"

lemma heap_root:
  assumes "heap_ordered v n" "i < n"
  shows "v i \<le> v 0"
  using assms(2)
proof (induction i rule: less_induct)
  case (less i)
  show ?case
  proof (cases "i = 0")
    case False
    then have "up i < i" "v i \<le> v (up i)" using assms(1) less.prems by (auto simp: heap_ordered_def up_less)
    then show ?thesis using less.IH [of "up i"] less.prems by simp
  qed simp
qed

lemma heap_second:
  assumes "heap_ordered v n" "i < n" "0 < i"
  shows "v i \<le> max (v 1) (v 2)"
  using assms(2,3)
proof (induction i rule: less_induct)
  case (less i)
  show ?case
  proof (cases "i \<le> 2")
    case True
    then have "i = 1 \<or> i = 2" using less.prems by auto
    then show ?thesis by auto
  next
    case False
    then have "0 < up i" by (simp add: up_def)
    moreover have "up i < i" "v i \<le> v (up i)" using assms(1) less.prems by (simp_all add: up_less heap_ordered_def)
    ultimately show ?thesis using less.IH [of "up i"] less.prems by simp
  qed
qed

lemma up_hole_step:
  assumes "up_hole v n k" "0 < k" "k < n" "v (up k) \<le> v k"
  shows "up_hole (v(k := v (up k), up k := v k)) n (up k)"
proof -
  let ?v = "v(k := v (up k), up k := v k)"
  have k: "up k < k" using assms(2) by (rule up_less)
  have edge: "v i \<le> v (up i)" if "i < n" "0 < i" "i \<noteq> k" for i using assms(1) that by (auto simp: up_hole_def)
  have "?v i \<le> ?v (up i)" if i: "i < n" "0 < i" "i \<noteq> up k" for i
  proof -
    have "up i < i" using i(2) by (rule up_less)
    consider "i = k" | "i \<noteq> k" "up i = k" | "i \<noteq> k" "up i = up k" "up i \<noteq> k" | "i \<noteq> k" "up i \<noteq> k" "up i \<noteq> up k" by blast
    then show ?thesis
    proof cases
      case 2
      then have "v i \<le> v (up k)" using assms(1,2) i by (auto simp: up_hole_def)
      then show ?thesis using 2 i k by simp
    next
      case 3
      then have "v i \<le> v (up k)" using edge [OF i(1,2)] by simp
      then show ?thesis using 3 i k assms(4) by simp
    next
      case 4
      then show ?thesis using edge [OF i(1,2)] i by simp
    qed (use k assms(4) in simp)
  qed
  moreover have "?v i \<le> ?v (up (up k))" if "0 < up k" "i < n" "0 < i" "up i = up k" for i
  proof -
    have u: "up (up k) < up k" using that(1) by (rule up_less)
    have g: "v (up k) \<le> v (up (up k))" using edge [of "up k"] that(1) k assms(3) by simp
    show ?thesis
    proof (cases "i = k")
      case True
      then show ?thesis using u g k by simp
    next
      case False
      then have "i \<noteq> up k" "v i \<le> v (up k)" using edge [OF that(2,3)] that up_less [OF that(3)] by auto
      then show ?thesis using False u g k by simp
    qed
  qed
  ultimately show ?thesis by (auto simp: up_hole_def)
qed

lemma down_hole_step:
  assumes "down_hole v n k" "k < n" "c < n" "0 < c" "up c = k" "\<forall>i < n. 0 < i \<and> up i = k \<longrightarrow> v i \<le> v c"
  shows "down_hole (v(k := v c, c := v k)) n c"
proof -
  let ?v = "v(k := v c, c := v k)"
  have k: "k < c" using up_less [OF assms(4)] assms(5) by simp
  have edge: "v i \<le> v (up i)" if "i < n" "0 < i" "i \<noteq> k" "up i \<noteq> k" for i using assms(1) that by (auto simp: down_hole_def)
  have "?v i \<le> ?v (up i)" if i: "i < n" "0 < i" "i \<noteq> c" "up i \<noteq> c" for i
  proof -
    have u: "up i < i" using i(2) by (rule up_less)
    consider "i = k" | "i \<noteq> k" "up i = k" | "i \<noteq> k" "up i \<noteq> k" by blast
    then show ?thesis
    proof cases
      case 1
      then have "v c \<le> v (up k)" using assms(1,3,4,5) i by (auto simp: down_hole_def)
      then show ?thesis using 1 i u k by simp
    next
      case 2
      then have "v i \<le> v c" using assms(6) i by blast
      then show ?thesis using 2 i k by simp
    next
      case 3
      then show ?thesis using edge [OF i(1,2)] i by simp
    qed
  qed
  moreover have "?v i \<le> ?v (up c)" if "i < n" "0 < i" "up i = c" for i
  proof -
    have u: "up i < i" using that(2) by (rule up_less)
    then have "v i \<le> v c" using edge [of i] that k by simp
    then show ?thesis using that u k assms(5) by simp
  qed
  ultimately show ?thesis by (auto simp: down_hole_def)
qed

text \<open>A hole at a leaf.\<close>

lemma down_leaf:
  assumes "down_hole v n k" "odd n" "n \<le> 2 * k + 2"
  shows "up_hole v n k"
proof -
  have "n \<le> 2 * k + 1" using assms(2,3) by presburger
  then have "\<not> (0 < i \<and> up i = k)" if "i < n" for i using that unfolding up_child by auto
  then show ?thesis using assms(1) by (auto simp: down_hole_def up_hole_def)
qed

lemma up_hole_done:
  assumes "up_hole v n k" "k = 0 \<or> v k \<le> v (up k)"
  shows "heap_ordered v n"
  using assms by (auto simp: up_hole_def heap_ordered_def)

lemma new_leaf:
  assumes "heap_ordered v n" "\<And>i. i < n \<Longrightarrow> w i = v i"
  shows "up_hole w (Suc n) n"
proof -
  have "w i \<le> w (up i)" if "i < n" "0 < i" for i
    using assms(1) assms(2) [of i] assms(2) [of "up i"] up_less [OF that(2)] that by (simp add: heap_ordered_def)
  moreover have "\<not> (0 < i \<and> up i = n)" if "i < Suc n" for i using that up_less [of i] by auto
  ultimately show ?thesis by (auto simp: up_hole_def less_Suc_eq)
qed

lemma lowered_root:
  assumes "heap_ordered v n" "\<And>i. 0 < i \<Longrightarrow> i < n \<Longrightarrow> w i = v i"
  shows "down_hole w n 0"
proof -
  have "w i \<le> w (up i)" if "i < n" "0 < i" "up i \<noteq> 0" for i
    using assms(1) assms(2) [of i] assms(2) [of "up i"] up_less [OF that(2)] that by (simp add: heap_ordered_def)
  then show ?thesis by (auto simp: down_hole_def)
qed


section \<open>The interface to the comparisons\<close>

abbreviation node_key :: "('a \<Rightarrow> nat) \<Rightarrow> 'a list \<Rightarrow> nat list \<Rightarrow> nat \<Rightarrow> nat" where
  "node_key key scalars pheap i \<equiv> key (scalars ! (pheap ! i))"

lemma swap_key:
  assumes "a < length pheap" "b < length pheap"
  shows "node_key key scalars (heap_swap pheap a b) = (node_key key scalars pheap)(b := node_key key scalars pheap a, a := node_key key scalars pheap b)"
  using assms by (auto simp: heap_swap_def fun_eq_iff nth_list_update)

lemma swap_mset:
  assumes "a < n" "b < n" "n \<le> length pheap"
  shows "mset (take n (heap_swap pheap a b)) = mset (take n pheap)" "drop n (heap_swap pheap a b) = drop n pheap"
    "length (heap_swap pheap a b) = length pheap"
proof -
  have "take n (heap_swap pheap a b) = (take n pheap)[a := take n pheap ! b, b := take n pheap ! a]"
    using assms by (simp add: heap_swap_def take_update_swap)
  then show "mset (take n (heap_swap pheap a b)) = mset (take n pheap)"
    by (simp only:) (rule mset_swap; use assms in simp)
  show "drop n (heap_swap pheap a b) = drop n pheap" "length (heap_swap pheap a b) = length pheap"
    using assms by (simp_all add: heap_swap_def)
qed

lemma mset_ball:
  assumes "mset (take n p) = mset (take n q)" "n \<le> length p" "n \<le> length q" "\<forall>i < n. P (q ! i)"
  shows "\<forall>i < n. P (p ! i)"
proof -
  have "set (take n p) = set (take n q)" using assms(1) by (rule mset_eq_setD)
  moreover have "(\<forall>x \<in> set (take n r). P x) \<longleftrightarrow> (\<forall>i < n. P (r ! i))" if "n \<le> length r" for r
    using that by (auto simp: set_conv_nth)
  ultimately show ?thesis using assms by blast
qed

locale batch_order =
  fixes cmp :: "'a \<Rightarrow> 'a \<Rightarrow> int" and key :: "'a \<Rightarrow> nat" and ok :: "'a \<Rightarrow> bool"
  assumes cmp_true: "ok a \<Longrightarrow> ok b \<Longrightarrow> cmp a b \<noteq> 0 \<Longrightarrow> key a \<le> key b"
    and cmp_false: "ok a \<Longrightarrow> ok b \<Longrightarrow> cmp a b = 0 \<Longrightarrow> key b \<le> key a"
begin

lemma sift_up_correct:
  assumes "up_hole (node_key key scalars pheap) n k" "k < n" "n \<le> length pheap" "\<forall>i < n. ok (scalars ! (pheap ! i))"
  shows "heap_ordered (node_key key scalars (sift_up cmp scalars pheap k)) n
    \<and> mset (take n (sift_up cmp scalars pheap k)) = mset (take n pheap)
    \<and> drop n (sift_up cmp scalars pheap k) = drop n pheap \<and> length (sift_up cmp scalars pheap k) = length pheap"
  using assms
proof (induction k arbitrary: pheap rule: less_induct)
  case (less k)
  let ?v = "node_key key scalars pheap"
  have l: "k < length pheap" using less.prems by simp
  show ?case
  proof (cases "k \<noteq> 0 \<and> cmp (scalars ! (pheap ! up k)) (scalars ! (pheap ! k)) \<noteq> 0")
    case True
    define q where "q = heap_swap pheap (up k) k"
    have k: "0 < k" "up k < k" using True up_less by auto
    then have u: "up k < n" "up k < length pheap" using less.prems l by auto
    have q: "mset (take n q) = mset (take n pheap)" "drop n q = drop n pheap" "length q = length pheap"
      unfolding q_def using swap_mset [OF u(1) less.prems(2,3)] by auto
    have ok: "ok (scalars ! (pheap ! up k))" "ok (scalars ! (pheap ! k))" using less.prems u by auto
    have "?v (up k) \<le> ?v k" using cmp_true [OF ok] True by simp
    then have "up_hole (?v(k := ?v (up k), up k := ?v k)) n (up k)" using up_hole_step less.prems k by blast
    then have "up_hole (node_key key scalars q) n (up k)" unfolding q_def swap_key [OF u(2) l] .
    moreover have "\<forall>i < n. ok (scalars ! (q ! i))" using mset_ball [OF q(1)] q(3) less.prems by simp
    ultimately have "heap_ordered (node_key key scalars (sift_up cmp scalars q (up k))) n
        \<and> mset (take n (sift_up cmp scalars q (up k))) = mset (take n q)
        \<and> drop n (sift_up cmp scalars q (up k)) = drop n q \<and> length (sift_up cmp scalars q (up k)) = length q"
      using less.IH [OF k(2), of q] u less.prems q(3) by simp
    moreover have "sift_up cmp scalars pheap k = sift_up cmp scalars q (up k)"
      using True by (subst sift_up.simps) (simp add: q_def up_def Let_def)
    ultimately show ?thesis using q by simp
  next
    case False
    then have "k = 0 \<or> ?v k \<le> ?v (up k)" using cmp_false less.prems up_less [of k] by (metis gr0I less_trans)
    then have "heap_ordered ?v n" using up_hole_done less.prems by blast
    moreover have "sift_up cmp scalars pheap k = pheap" using False by (subst sift_up.simps) (auto simp: up_def Let_def)
    ultimately show ?thesis by simp
  qed
qed

lemma sift_down_correct:
  assumes "down_hole (node_key key scalars pheap) n k" "k < n" "n \<le> length pheap" "\<forall>i < n. ok (scalars ! (pheap ! i))"
    "odd n" "node = k \<or> 2 * k + 2 < n"
  shows "case sift_down cmp scalars n pheap k node of (q, j) \<Rightarrow> up_hole (node_key key scalars q) n j \<and> j < n
    \<and> mset (take n q) = mset (take n pheap) \<and> drop n q = drop n pheap \<and> length q = length pheap"
  using assms
proof (induction "n - k" arbitrary: pheap k node rule: less_induct)
  case less
  let ?v = "node_key key scalars pheap"
  show ?case
  proof (cases "2 * k + 2 < n")
    case True
    define c where "c = (if cmp (scalars ! (pheap ! (2 * k + 1))) (scalars ! (pheap ! (2 * k + 2))) \<noteq> 0 then 2 * k + 2 else 2 * k + 1)"
    define q where "q = heap_swap pheap k c"
    have c: "c < n" "0 < c" "k < c" using True by (auto simp: c_def)
    have upc: "up c = k" by (simp add: c_def up_def)
    have ok: "ok (scalars ! (pheap ! (2 * k + 1)))" "ok (scalars ! (pheap ! (2 * k + 2)))" using less.prems True by auto
    have "?v (2 * k + 1) \<le> ?v c" "?v (2 * k + 2) \<le> ?v c"
      using cmp_true [OF ok] cmp_false [OF ok] by (auto simp: c_def)
    then have "\<forall>i < n. 0 < i \<and> up i = k \<longrightarrow> ?v i \<le> ?v c" unfolding up_child by auto
    then have "down_hole (?v(k := ?v c, c := ?v k)) n c" using down_hole_step less.prems c upc by blast
    moreover have l: "k < length pheap" "c < length pheap" using less.prems c by auto
    ultimately have h: "down_hole (node_key key scalars q) n c" unfolding q_def swap_key [OF l] by (subst fun_upd_twist) (use c(3) in simp_all)
    have q: "mset (take n q) = mset (take n pheap)" "drop n q = drop n pheap" "length q = length pheap"
      unfolding q_def using swap_mset [OF less.prems(2) c(1) less.prems(3)] by auto
    have "\<forall>i < n. ok (scalars ! (q ! i))" using mset_ball [OF q(1)] q(3) less.prems by simp
    moreover have "sift_down cmp scalars n pheap k node = sift_down cmp scalars n q c c"
      using True by (subst sift_down.simps) (simp add: q_def c_def Let_def mult.commute)
    ultimately show ?thesis using less.hyps [of c q c] h c q less.prems by auto
  next
    case False
    then have "sift_down cmp scalars n pheap k node = (pheap, k)"
      using less.prems by (subst sift_down.simps) (auto simp: Let_def mult.commute)
    then show ?thesis using down_leaf [of ?v n k] less.prems False by simp
  qed
qed

end

interpretation lt_batch: batch_order "\<lambda>a b. lt256_modm_batch a b n" mval "fits n" for n
  by unfold_locales (simp_all add: lt256_modm_batch_correct split: if_splits)

interpretation lte_batch: batch_order "\<lambda>a b. lte256_modm_batch a b n" mval "fits n" for n
  by unfold_locales (simp_all add: lte256_modm_batch_correct split: if_splits)


section \<open>The invariant of the heap\<close>

text \<open>The first \<^verbatim>\<open>size\<close> entries are a permutation of the first indices, ordered by their scalars, which fit into the
  limbs in use.\<close>

definition heap_inv :: "nat \<Rightarrow> batch_heap \<Rightarrow> bool" where
  "heap_inv n h \<longleftrightarrow> bh_size h \<le> length (bh_heap h) \<and> mset (take (bh_size h) (bh_heap h)) = mset [0..<bh_size h]
    \<and> (\<forall>i < bh_size h. fits n (bh_scalars h ! i))
    \<and> heap_ordered (node_key mval (bh_scalars h) (bh_heap h)) (bh_size h)"

lemma perm_ball:
  assumes "mset (take n p) = mset [0..<n]" "n \<le> length p" "\<forall>i < n. P i"
  shows "\<forall>i < n. P (p ! i)"
  using mset_ball [of n p "[0..<n]" P] assms by simp

lemma perm_nth:
  assumes "mset (take n p) = mset [0..<n]" "n \<le> length p"
  shows "i < n \<Longrightarrow> p ! i < n" "i < n \<Longrightarrow> j < n \<Longrightarrow> p ! i = p ! j \<Longrightarrow> i = j" "k < n \<Longrightarrow> \<exists>i < n. p ! i = k"
proof -
  show "i < n \<Longrightarrow> p ! i < n" using perm_ball [OF assms, of "\<lambda>i. i < n"] by blast
  have "distinct (take n p)" using assms(1) by (metis distinct_upt mset_eq_imp_distinct_iff)
  then show "i < n \<Longrightarrow> j < n \<Longrightarrow> p ! i = p ! j \<Longrightarrow> i = j" using assms(2) by (simp add: distinct_conv_nth) (metis nth_take)
  have "set (take n p) = {0..<n}" using assms(1) by (metis mset_eq_setD set_upt)
  then have "k \<in> set (take n p)" if "k < n" using that by simp
  then show "k < n \<Longrightarrow> \<exists>i < n. p ! i = k" using assms(2) by (auto simp: in_set_conv_nth)
qed

lemma heap_invD:
  assumes "heap_inv n h"
  shows "bh_size h \<le> length (bh_heap h)" "mset (take (bh_size h) (bh_heap h)) = mset [0..<bh_size h]"
    "i < bh_size h \<Longrightarrow> fits n (bh_scalars h ! i)" "heap_ordered (node_key mval (bh_scalars h) (bh_heap h)) (bh_size h)"
    "\<forall>i < bh_size h. fits n (bh_scalars h ! (bh_heap h ! i))"
  using assms perm_ball [of "bh_size h" "bh_heap h" "\<lambda>i. fits n (bh_scalars h ! i)"] by (simp_all add: heap_inv_def)

lemma insert_next_inv:
  assumes "heap_inv 4 h" "bh_size h < length (bh_heap h)" "fits 4 (bh_scalars h ! bh_size h)"
  shows "heap_inv 4 (heap_insert_next h)" "length (bh_heap (heap_insert_next h)) = length (bh_heap h)"
    "bh_scalars (heap_insert_next h) = bh_scalars h" "bh_points (heap_insert_next h) = bh_points h"
proof -
  note h = heap_invD [OF assms(1)]
  define n where "n = bh_size h"
  define p where "p = (bh_heap h)[n := n]"
  define q where "q = sift_up (\<lambda>a b. lt256_modm_batch a b 4) (bh_scalars h) p n"
  have eq: "heap_insert_next h = h\<lparr>bh_heap := q, bh_size := Suc n\<rparr>" by (simp add: heap_insert_next_def Let_def n_def p_def q_def)
  have p: "take (Suc n) p = take n (bh_heap h) @ [n]" "Suc n \<le> length p"
    using assms(2) by (simp_all add: p_def n_def take_Suc_conv_app_nth)
  have m: "mset (take (Suc n) p) = mset [0..<Suc n]" unfolding p(1) using h(2) by (simp add: n_def)
  have "\<forall>i < Suc n. fits 4 (bh_scalars h ! i)" using h(3) assms(3) by (auto simp: n_def less_Suc_eq)
  then have fits: "\<forall>i < Suc n. fits 4 (bh_scalars h ! (p ! i))" using perm_ball [OF m p(2), of "\<lambda>i. fits 4 (bh_scalars h ! i)"] by simp
  have "up_hole (node_key mval (bh_scalars h) p) (Suc n) n"
    by (rule new_leaf [OF h(4) [folded n_def]]) (simp add: p_def)
  from lt_batch.sift_up_correct [OF this _ p(2) fits]
  have q: "heap_ordered (node_key mval (bh_scalars h) q) (Suc n)" "mset (take (Suc n) q) = mset (take (Suc n) p)" "length q = length p"
    by (auto simp: q_def)
  show "heap_inv 4 (heap_insert_next h)"
    using q m p \<open>\<forall>i < Suc n. fits 4 (bh_scalars h ! i)\<close> by (simp add: heap_inv_def eq)
  show "length (bh_heap (heap_insert_next h)) = length (bh_heap h)" using q(3) by (simp add: eq p_def)
  show "bh_scalars (heap_insert_next h) = bh_scalars h" "bh_points (heap_insert_next h) = bh_points h" by (simp_all add: eq)
qed

lemma heap_extend_inv:
  assumes "heap_inv 4 h" "bh_size h \<le> cnt" "cnt \<le> length (bh_heap h)" "\<forall>i < cnt. fits 4 (bh_scalars h ! i)"
  shows "heap_inv 4 (heap_extend h cnt) \<and> bh_size (heap_extend h cnt) = cnt \<and> length (bh_heap (heap_extend h cnt)) = length (bh_heap h)
    \<and> bh_scalars (heap_extend h cnt) = bh_scalars h \<and> bh_points (heap_extend h cnt) = bh_points h"
  using assms
proof (induction h cnt rule: heap_extend.induct)
  case (1 h cnt)
  show ?case
  proof (cases "bh_size h < cnt")
    case True
    then have "bh_size h < length (bh_heap h)" "fits 4 (bh_scalars h ! bh_size h)" using "1.prems" by auto
    note i = insert_next_inv [OF "1.prems"(1) this]
    show ?thesis using "1.IH" [OF True] True i "1.prems" by (simp add: heap_extend.simps [of h cnt])
  next
    case False
    then show ?thesis using "1.prems" by (simp add: heap_extend.simps [of h cnt])
  qed
qed

lemma heap_build_inv:
  assumes "cnt \<le> length (bh_heap h)" "\<forall>i < cnt. fits 4 (bh_scalars h ! i)"
  shows "heap_inv 4 (heap_build h cnt) \<and> bh_size (heap_build h cnt) = cnt \<and> length (bh_heap (heap_build h cnt)) = length (bh_heap h)
    \<and> bh_scalars (heap_build h cnt) = bh_scalars h \<and> bh_points (heap_build h cnt) = bh_points h"
proof -
  let ?h = "h\<lparr>bh_heap := (bh_heap h)[0 := 0], bh_size := 0\<rparr>"
  have "heap_inv 4 ?h" by (simp add: heap_inv_def heap_ordered_def)
  from heap_extend_inv [OF this, of cnt] show ?thesis using assms by (simp add: heap_build_def)
qed

lemma heap_get_top2_correct:
  assumes "heap_inv n h" "3 \<le> bh_size h" "heap_get_top2 h n = (a, b)"
  shows "a < bh_size h" "b < bh_size h" "a \<noteq> b" "a = bh_heap h ! 0"
    "i < bh_size h \<Longrightarrow> mval (bh_scalars h ! i) \<le> mval (bh_scalars h ! a)"
    "i < bh_size h \<Longrightarrow> i \<noteq> a \<Longrightarrow> mval (bh_scalars h ! i) \<le> mval (bh_scalars h ! b)"
proof -
  note h = heap_invD [OF assms(1)]
  note nth = perm_nth [OF h(2,1)]
  let ?v = "node_key mval (bh_scalars h) (bh_heap h)"
  have f: "fits n (bh_scalars h ! (bh_heap h ! 1))" "fits n (bh_scalars h ! (bh_heap h ! 2))" using h(5) assms(2) by auto
  define j :: nat where "j = (if ?v 1 < ?v 2 then 2 else 1)"
  have a: "a = bh_heap h ! 0" and b: "b = bh_heap h ! j"
    using assms(3) lt256_modm_batch_correct [OF f] by (auto simp: heap_get_top2_def Let_def j_def split: if_splits)
  have j: "0 < j" "j < bh_size h" "?v j = max (?v 1) (?v 2)" using assms(2) by (auto simp: j_def)
  show "a = bh_heap h ! 0" by (rule a)
  show "a < bh_size h" "b < bh_size h" using nth(1) [of 0] nth(1) [of j] j assms(2) a b by auto
  show "a \<noteq> b" using nth(2) [of 0 j] j assms(2) a b by auto
  show "mval (bh_scalars h ! i) \<le> mval (bh_scalars h ! a)" if "i < bh_size h" for i
    using nth(3) [OF that] heap_root [OF h(4)] a by auto
  show "mval (bh_scalars h ! i) \<le> mval (bh_scalars h ! b)" if i: "i < bh_size h" and ia: "i \<noteq> a" for i
  proof -
    obtain k where k: "k < bh_size h" "bh_heap h ! k = i" using nth(3) [OF i] by blast
    then have "0 < k" using ia a by (cases k) auto
    then show ?thesis using heap_second [OF h(4) k(1)] k(2) j(3) b by simp
  qed
qed

lemma heap_updated_root_inv:
  fixes ps :: "ge25519 list"
  assumes "heap_inv n h" "odd (bh_size h)" "3 \<le> bh_size h" "fits n x" "a = bh_heap h ! 0" "bh_size h \<le> length (bh_scalars h)"
  defines "g \<equiv> h\<lparr>bh_scalars := (bh_scalars h)[a := x], bh_points := ps\<rparr>"
  shows "heap_inv n (heap_updated_root g n)" "bh_size (heap_updated_root g n) = bh_size h"
    "length (bh_heap (heap_updated_root g n)) = length (bh_heap h)"
    "bh_scalars (heap_updated_root g n) = (bh_scalars h)[a := x]" "bh_points (heap_updated_root g n) = ps"
proof -
  note h = heap_invD [OF assms(1)]
  note nth = perm_nth [OF h(2,1)]
  define s where "s = (bh_scalars h)[a := x]"
  obtain q j where qj: "sift_down (\<lambda>a b. lt256_modm_batch a b n) s (bh_size h) (bh_heap h) 0 1 = (q, j)" by fastforce
  define r where "r = sift_up (\<lambda>a b. lte256_modm_batch a b n) s q j"
  have eq: "heap_updated_root g n = g\<lparr>bh_heap := r\<rparr>" by (simp add: heap_updated_root_def g_def s_def [symmetric] qj [unfolded One_nat_def] r_def)
  have fs: "\<forall>i < bh_size h. fits n (s ! i)" using h(3) assms(4,6) nth(1) [of 0] assms(3,5) by (auto simp: s_def nth_list_update)
  have fp: "\<forall>i < bh_size h. fits n (s ! (bh_heap h ! i))" using perm_ball [OF h(2,1), of "\<lambda>i. fits n (s ! i)"] fs by simp
  have "down_hole (node_key mval s (bh_heap h)) (bh_size h) 0"
  proof (rule lowered_root [OF h(4)])
    fix i assume "0 < i" "i < bh_size h"
    then have "bh_heap h ! i \<noteq> a" using nth(2) [of 0 i] assms(3,5) by auto
    then show "node_key mval s (bh_heap h) i = node_key mval (bh_scalars h) (bh_heap h) i" by (simp add: s_def)
  qed
  from lt_batch.sift_down_correct [OF this _ h(1) fp assms(2), of 1] assms(3)
  have q: "up_hole (node_key mval s q) (bh_size h) j" "j < bh_size h" "mset (take (bh_size h) q) = mset (take (bh_size h) (bh_heap h))"
    "length q = length (bh_heap h)" using qj by auto
  have "\<forall>i < bh_size h. fits n (s ! (q ! i))" using mset_ball [OF q(3), of "\<lambda>i. fits n (s ! i)"] q(4) h(1) fp by simp
  from lte_batch.sift_up_correct [OF q(1,2) _ this] q(4) h(1)
  have r: "heap_ordered (node_key mval s r) (bh_size h)" "mset (take (bh_size h) r) = mset (take (bh_size h) q)" "length r = length q"
    by (auto simp: r_def)
  have "heap_inv n (h\<lparr>bh_scalars := s, bh_points := ps, bh_heap := r\<rparr>)" using r q h(1,2) fs by (simp add: heap_inv_def)
  then show "heap_inv n (heap_updated_root g n)" by (simp only: eq) (simp add: g_def s_def)
  show "length (bh_heap (heap_updated_root g n)) = length (bh_heap h)" using r q by (simp add: eq)
  show "bh_size (heap_updated_root g n) = bh_size h"
    "bh_scalars (heap_updated_root g n) = (bh_scalars h)[a := x]" "bh_points (heap_updated_root g n) = ps" by (simp_all only: eq) (simp_all add: g_def)
qed

lemma heap_inv_limbs:
  assumes "heap_inv n h" "m \<le> 4" "\<And>i. i < bh_size h \<Longrightarrow> mval (bh_scalars h ! i) < 2 ^ (56 * (m + 1))"
  shows "heap_inv m h"
  using assms by (auto simp: heap_inv_def fits_def)


section \<open>Property\<close>

text \<open>C13: the heap. Building it from an odd number of scalars gives a heap (the indices permuted, every scalar at most its parent's); the two
  indices read from it are different and point to the largest scalar and the largest of the others; and after the largest scalar
  was replaced, sifting down and up again restores the heap.\<close>

theorem batch_heap_operations:
  fixes h :: batch_heap
  assumes "3 \<le> cnt" "odd cnt" "cnt \<le> length (bh_heap h)" "cnt \<le> length (bh_scalars h)" "\<forall>i < cnt. fits 4 (bh_scalars h ! i)" "fits 4 x"
  defines "g \<equiv> heap_build h cnt"
  shows "heap_inv 4 g \<and> bh_size g = cnt \<and> (case heap_get_top2 g 4 of (a, b) \<Rightarrow> a < cnt \<and> b < cnt \<and> a \<noteq> b
    \<and> (\<forall>i < cnt. mval (bh_scalars h ! i) \<le> mval (bh_scalars h ! a) \<and> (i \<noteq> a \<longrightarrow> mval (bh_scalars h ! i) \<le> mval (bh_scalars h ! b)))
    \<and> heap_inv 4 (heap_updated_root (g\<lparr>bh_scalars := (bh_scalars g)[a := x]\<rparr>) 4))"
proof -
  have g: "heap_inv 4 g" "bh_size g = cnt" "bh_scalars g = bh_scalars h" using heap_build_inv [OF assms(3,5)] by (simp_all add: g_def)
  obtain a b where top: "heap_get_top2 g 4 = (a, b)" by fastforce
  have s: "3 \<le> bh_size g" "odd (bh_size g)" "bh_size g \<le> length (bh_scalars g)" using assms g by simp_all
  note t = heap_get_top2_correct [OF g(1) s(1) top]
  have "g\<lparr>bh_scalars := (bh_scalars g)[a := x]\<rparr> = g\<lparr>bh_scalars := (bh_scalars g)[a := x], bh_points := bh_points g\<rparr>" by simp
  then have "heap_inv 4 (heap_updated_root (g\<lparr>bh_scalars := (bh_scalars g)[a := x]\<rparr>) 4)"
    using heap_updated_root_inv(1) [OF g(1) s(2,1) assms(6) t(4) s(3), of "bh_points g"] by (simp only:)
  then show ?thesis using g t top by simp
qed

theorem batch_heap_operations_witness:
  "\<exists>h. heap_inv 4 (heap_build h 3) \<and> bh_scalars h = [[5, 0, 0, 0, 0], [9, 0, 0, 0, 0], [7, 0, 0, 0, 0]]"
proof -
  define h where "h = \<lparr>bh_r = [], bh_points = [], bh_scalars = [[5, 0, 0, 0, 0], [9, 0, 0, 0, 0], [7, 0, 0, 0, 0 :: u64]], bh_heap = [0, 0, 0], bh_size = 0\<rparr>"
  have three: "i < 3 \<longleftrightarrow> i = 0 \<or> i = 1 \<or> i = 2" for i :: nat by auto
  have "\<forall>i < 3. fits 4 (bh_scalars h ! i)" unfolding three by (auto simp: h_def fits_def carried_def all_less_4)
  moreover have "fits 4 [0, 0, 0, 0, 0]" by (simp add: fits_def carried_def all_less_4)
  ultimately have "heap_inv 4 (heap_build h 3)" using batch_heap_operations [of 3 h "[0, 0, 0, 0, 0]"] by (simp add: h_def)
  then show ?thesis by (intro exI [of _ h]) (simp add: h_def)
qed

end
