(* ===== verification/Scalarmult.thy ===== *)
theory Scalarmult
  imports Edwards
begin

unbundle bit_operations_syntax

text \<open>
  Scalar multiplications of \<^verbatim>\<open>ed25519-donna-impl-base.h\<close>: the double multiplication used by verification
  (variable time, sliding windows) and the multiplication of the base point by a table of packed multiples (radix 16).
  The loops over limbs are related to the evaluation of signed digits over points of the curve.
\<close>

section \<open>Model\<close>

text \<open>The odd multiples of the base point in Niels form.\<close>

definition ge25519_niels_sliding_multiples :: "ge25519_niels list" where
  "ge25519_niels_sliding_multiples = [
    \<lparr>n_ysubx = [0x00003905d740913e,0x0000ba2817d673a2,0x00023e2827f4e67c,0x000133d2e0c21a34,0x00044fd2f9298f81],
     n_xaddy = [0x000493c6f58c3b85,0x0000df7181c325f7,0x0000f50b0b3e4cb7,0x0005329385a44c32,0x00007cf9d3a33d4b],
     n_t2d = [0x00011205877aaa68,0x000479955893d579,0x00050d66309b67a0,0x0002d42d0dbee5ee,0x0006f117b689f0c6]\<rparr>,
    \<lparr>n_ysubx = [0x00011fe8a4fcd265,0x0007bcb8374faacc,0x00052f5af4ef4d4f,0x0005314098f98d10,0x0002ab91587555bd],
     n_xaddy = [0x0005b0a84cee9730,0x00061d10c97155e4,0x0004059cc8096a10,0x00047a608da8014f,0x0007a164e1b9a80f],
     n_t2d = [0x0006933f0dd0d889,0x00044386bb4c4295,0x0003cb6d3162508c,0x00026368b872a2c6,0x0005a2826af12b9b]\<rparr>,
    \<lparr>n_ysubx = [0x000182c3a447d6ba,0x00022964e536eff2,0x000192821f540053,0x0002f9f19e788e5c,0x000154a7e73eb1b5],
     n_xaddy = [0x0002bc4408a5bb33,0x000078ebdda05442,0x0002ffb112354123,0x000375ee8df5862d,0x0002945ccf146e20],
     n_t2d = [0x0003dbf1812a8285,0x0000fa17ba3f9797,0x0006f69cb49c3820,0x00034d5a0db3858d,0x00043aabe696b3bb]\<rparr>,
    \<lparr>n_ysubx = [0x00072c9aaa3221b1,0x000267774474f74d,0x000064b0e9b28085,0x0003f04ef53b27c9,0x0001d6edd5d2e531],
     n_xaddy = [0x00025cd0944ea3bf,0x00075673b81a4d63,0x000150b925d1c0d4,0x00013f38d9294114,0x000461bea69283c9],
     n_t2d = [0x00036dc801b8b3a2,0x0000e0a7d4935e30,0x0001deb7cecc0d7d,0x000053a94e20dd2c,0x0007a9fbb1c6a0f9]\<rparr>,
    \<lparr>n_ysubx = [0x0006217e039d8064,0x0006dea408337e6d,0x00057ac112628206,0x000647cb65e30473,0x00049c05a51fadc9],
     n_xaddy = [0x0006678aa6a8632f,0x0005ea3788d8b365,0x00021bd6d6994279,0x0007ace75919e4e3,0x00034b9ed338add7],
     n_t2d = [0x0004e8bf9045af1b,0x000514e33a45e0d6,0x0007533c5b8bfe0f,0x000583557b7e14c9,0x00073c172021b008]\<rparr>,
    \<lparr>n_ysubx = [0x00075b0249864348,0x00052ee11070262b,0x000237ae54fb5acd,0x0003bfd1d03aaab5,0x00018ab598029d5c],
     n_xaddy = [0x000700848a802ade,0x0001e04605c4e5f7,0x0005c0d01b9767fb,0x0007d7889f42388b,0x0004275aae2546d8],
     n_t2d = [0x00032cc5fd6089e9,0x000426505c949b05,0x00046a18880c7ad2,0x0004a4221888ccda,0x0003dc65522b53df]\<rparr>,
    \<lparr>n_ysubx = [0x0007013b327fbf93,0x0001336eeded6a0d,0x0002b565a2bbf3af,0x000253ce89591955,0x0000267882d17602],
     n_xaddy = [0x0000c222a2007f6d,0x000356b79bdb77ee,0x00041ee81efe12ce,0x000120a9bd07097d,0x000234fd7eec346f],
     n_t2d = [0x0000a119732ea378,0x00063bf1ba8e2a6c,0x00069f94cc90df9a,0x000431d1779bfc48,0x000497ba6fdaa097]\<rparr>,
    \<lparr>n_ysubx = [0x0003cd86468ccf0b,0x00048553221ac081,0x0006c9464b4e0a6e,0x00075fba84180403,0x00043b5cd4218d05],
     n_xaddy = [0x0006cc0313cfeaa0,0x0001a313848da499,0x0007cb534219230a,0x00039596dedefd60,0x00061e22917f12de],
     n_t2d = [0x0002762f9bd0b516,0x0001c6e7fbddcbb3,0x00075909c3ace2bd,0x00042101972d3ec9,0x000511d61210ae4d]\<rparr>,
    \<lparr>n_ysubx = [0x000386484420de87,0x0002d6b25db68102,0x000650b4962873c0,0x0004081cfd271394,0x00071a7fe6fe2482],
     n_xaddy = [0x000676ef950e9d81,0x0001b81ae089f258,0x00063c4922951883,0x0002f1d54d9b3237,0x0006d325924ddb85],
     n_t2d = [0x000182b8a5c8c854,0x00073fcbe5406d8e,0x0005de3430cff451,0x000554b967ac8c41,0x0004746c4b6559ee]\<rparr>,
    \<lparr>n_ysubx = [0x000546c864741147,0x0003a1df99092690,0x0001ca8cc9f4d6bb,0x00036b7fc9cd3b03,0x000219663497db5e],
     n_xaddy = [0x00077b3c6dc69a2b,0x0004edf13ec2fa6e,0x0004e85ad77beac8,0x0007dba2b28e7bda,0x0005c9a51de34fe9],
     n_t2d = [0x0000f1cf79f10e67,0x00043ccb0a2b7ea2,0x00005089dfff776a,0x0001dd84e1d38b88,0x0004804503c60822]\<rparr>,
    \<lparr>n_ysubx = [0x000021d23a36d175,0x0004fd3373c6476d,0x00020e291eeed02a,0x00062f2ecf2e7210,0x000771e098858de4],
     n_xaddy = [0x00049ed02ca37fc7,0x000474c2b5957884,0x0005b8388e816683,0x0004b6c454b76be4,0x000553398a516506],
     n_t2d = [0x0002f5d278451edf,0x000730b133997342,0x0006965420eb6975,0x000308a3bfa516cf,0x0005a5ed1d68ff5a]\<rparr>,
    \<lparr>n_ysubx = [0x0005e0c558527359,0x0003395b73afd75c,0x000072afa4e4b970,0x00062214329e0f6d,0x000019b60135fefd],
     n_xaddy = [0x0005122afe150e83,0x0004afc966bb0232,0x0001c478833c8268,0x00017839c3fc148f,0x00044acb897d8bf9],
     n_t2d = [0x000068145e134b83,0x0001e4860982c3cc,0x000068fb5f13d799,0x0007c9283744547e,0x000150c49fde6ad2]\<rparr>,
    \<lparr>n_ysubx = [0x0001863c9cdca868,0x0003770e295a1709,0x0000d85a3720fd13,0x0005e0ff1f71ab06,0x00078a6d7791e05f],
     n_xaddy = [0x0003f29509471138,0x000729eeb4ca31cf,0x00069c22b575bfbc,0x0004910857bce212,0x0006b2b5a075bb99],
     n_t2d = [0x0007704b47a0b976,0x0002ae82e91aab17,0x00050bd6429806cd,0x00068055158fd8ea,0x000725c7ffc4ad55]\<rparr>,
    \<lparr>n_ysubx = [0x00002bf71cd098c0,0x00049dabcc6cd230,0x00040a6533f905b2,0x000573efac2eb8a4,0x0004cd54625f855f],
     n_xaddy = [0x00026715d1cf99b2,0x0002205441a69c88,0x000448427dcd4b54,0x0001d191e88abdc5,0x000794cc9277cb1f],
     n_t2d = [0x0006c426c2ac5053,0x0005a65ece4b095e,0x0000c44086f26bb6,0x0007429568197885,0x0007008357b6fcc8]\<rparr>,
    \<lparr>n_ysubx = [0x00039fbb82584a34,0x00047a568f257a03,0x00014d88091ead91,0x0002145b18b1ce24,0x00013a92a3669d6d],
     n_xaddy = [0x0000672738773f01,0x000752bf799f6171,0x0006b4a6dae33323,0x0007b54696ead1dc,0x00006ef7e9851ad0],
     n_t2d = [0x0003771cc0577de5,0x0003ca06bb8b9952,0x00000b81c5d50390,0x00043512340780ec,0x0003c296ddf8a2af]\<rparr>,
    \<lparr>n_ysubx = [0x00034d2ebb1f2541,0x0000e815b723ff9d,0x000286b416e25443,0x0000bdfe38d1bee8,0x0000a892c7007477],
     n_xaddy = [0x000515f9d914a713,0x00073191ff2255d5,0x00054f5cc2a4bdef,0x0003dd57fc118bcf,0x0007a99d393490c7],
     n_t2d = [0x0002ed2436bda3e8,0x00002afd00f291ea,0x0000be7381dea321,0x0003e952d4b2b193,0x000286762d28302f]\<rparr>,
    \<lparr>n_ysubx = [0x00058e2bce2ef5bd,0x00068ce8f78c6f8a,0x0006ee26e39261b2,0x00033d0aa50bcf9d,0x0007686f2a3d6f17],
     n_xaddy = [0x000036093ce35b25,0x0003b64d7552e9cf,0x00071ee0fe0b8460,0x00069d0660c969e5,0x00032f1da046a9d9],
     n_t2d = [0x000512a66d597c6a,0x0000609a70a57551,0x000026c08a3c464c,0x0004531fc8ee39e1,0x000561305f8a9ad2]\<rparr>,
    \<lparr>n_ysubx = [0x0002cc28e7b0c0d5,0x00077b60eb8a6ce4,0x0004042985c277a6,0x000636657b46d3eb,0x000030a1aef2c57c],
     n_xaddy = [0x0004978dec92aed1,0x000069adae7ca201,0x00011ee923290f55,0x00069641898d916c,0x00000aaec53e35d4],
     n_t2d = [0x0001f773003ad2aa,0x000005642cc10f76,0x00003b48f82cfca6,0x0002403c10ee4329,0x00020be9c1c24065]\<rparr>,
    \<lparr>n_ysubx = [0x0000e44ae2025e60,0x0005f97b9727041c,0x0005683472c0ecec,0x000188882eb1ce7c,0x00069764c545067e],
     n_xaddy = [0x000387d8249673a6,0x0005bea8dc927c2a,0x0005bd8ed5650ef0,0x0000ef0e3fcd40e1,0x000750ab3361f0ac],
     n_t2d = [0x00023283a2f81037,0x000477aff97e23d1,0x0000b8958dbcbb68,0x0000205b97e8add6,0x00054f96b3fb7075]\<rparr>,
    \<lparr>n_ysubx = [0x0005afc616b11ecd,0x00039f4aec8f22ef,0x0003b39e1625d92e,0x0005f85bd4508873,0x00078e6839fbe85d],
     n_xaddy = [0x0005f20429669279,0x00008fafae4941f5,0x00015d83c4eb7688,0x0001cf379eca4146,0x0003d7fe9c52bb75],
     n_t2d = [0x00032df737b8856b,0x0000608342f14e06,0x0003967889d74175,0x0001211907fba550,0x00070f268f350088]\<rparr>,
    \<lparr>n_ysubx = [0x0004112070dcf355,0x0007dcff9c22e464,0x00054ada60e03325,0x00025cd98eef769a,0x000404e56c039b8c],
     n_xaddy = [0x00064583b1805f47,0x00022c1baf832cd0,0x000132c01bd4d717,0x0004ecf4c3a75b8f,0x0007c0d345cfad88],
     n_t2d = [0x00071f4b8c78338a,0x00062cfc16bc2b23,0x00017cf51280d9aa,0x0003bbae5e20a95a,0x00020d754762aaec]\<rparr>,
    \<lparr>n_ysubx = [0x0004feb135b9f543,0x00063bd192ad93ae,0x00044e2ea612cdf7,0x000670f4991583ab,0x00038b8ada8790b4],
     n_xaddy = [0x0007c36fc73bb758,0x0004a6c797734bd1,0x0000ef248ab3950e,0x00063154c9a53ec8,0x0002b8f1e46f3cee],
     n_t2d = [0x00004a9cdf51f95d,0x0005d963fbd596b8,0x00022d9b68ace54a,0x0004a98e8836c599,0x000049aeb32ceba1]\<rparr>,
    \<lparr>n_ysubx = [0x00067d3c63dcfe7e,0x000112f0adc81aee,0x00053df04c827165,0x0002fe5b33b430f0,0x00051c665e0c8d62],
     n_xaddy = [0x00007d0b75fc7931,0x00016f4ce4ba754a,0x0005ace4c03fbe49,0x00027e0ec12a159c,0x000795ee17530f67],
     n_t2d = [0x00025b0a52ecbd81,0x0005dc0695fce4a9,0x0003b928c575047d,0x00023bf3512686e5,0x0006cd19bf49dc54]\<rparr>,
    \<lparr>n_ysubx = [0x0007619052179ca3,0x0000c16593f0afd0,0x000265c4795c7428,0x00031c40515d5442,0x0007520f3db40b2e],
     n_xaddy = [0x0006612165afc386,0x0001171aa36203ff,0x0002642ea820a8aa,0x0001f3bb7b313f10,0x0005e01b3a7429e4],
     n_t2d = [0x00050be3d39357a1,0x0003ab33d294a7b6,0x0004c479ba59edb3,0x0004c30d184d326f,0x00071092c9ccef3c]\<rparr>,
    \<lparr>n_ysubx = [0x0000523f0364918c,0x000687f56d638a7b,0x00020796928ad013,0x0005d38405a54f33,0x0000ea15b03d0257],
     n_xaddy = [0x0003d8ac74051dcf,0x00010ab6f543d0ad,0x0005d0f3ac0fda90,0x0005ef1d2573e5e4,0x0004173a5bb7137a],
     n_t2d = [0x00056e31f0f9218a,0x0005635f88e102f8,0x0002cbc5d969a5b8,0x000533fbc98b347a,0x0005fc565614a4e3]\<rparr>,
    \<lparr>n_ysubx = [0x0006570dc46d7ae5,0x00018a9f1b91e26d,0x000436b6183f42ab,0x000550acaa4f8198,0x00062711c414c454],
     n_xaddy = [0x0002e1e67790988e,0x0001e38b9ae44912,0x000648fbb4075654,0x00028df1d840cd72,0x0003214c7409d466],
     n_t2d = [0x0001827406651770,0x0004d144f286c265,0x00017488f0ee9281,0x00019e6cdb5c760c,0x0005bea94073ecb8]\<rparr>,
    \<lparr>n_ysubx = [0x0005bf0912c89be4,0x00062fadcaf38c83,0x00025ec196b3ce2c,0x00077655ff4f017b,0x0003aacd5c148f61],
     n_xaddy = [0x0000ce63f343d2f8,0x0001e0a87d1e368e,0x000045edbc019eea,0x0006979aed28d0d1,0x0004ad0785944f1b],
     n_t2d = [0x00063b34c3318301,0x0000e0e62d04d0b1,0x000676a233726701,0x00029e9a042d9769,0x0003aff0cb1d9028]\<rparr>,
    \<lparr>n_ysubx = [0x0005c7eb3a20405e,0x0005fdb5aad930f8,0x0004a757e63b8c47,0x00028e9492972456,0x000110e7e86f4cd2],
     n_xaddy = [0x0006430bf4c53505,0x000264c3e4507244,0x00074c9f19a39270,0x00073f84f799bc47,0x0002ccf9f732bd99],
     n_t2d = [0x0000d89ed603f5e4,0x00051e1604018af8,0x0000b8eedc4a2218,0x00051ba98b9384d0,0x00005c557e0b9693]\<rparr>,
    \<lparr>n_ysubx = [0x0001ce311fc97e6f,0x0006023f3fb5db1f,0x0007b49775e8fc98,0x0003ad70adbf5045,0x0006e154c178fe98],
     n_xaddy = [0x0006bbb089c20eb0,0x0006df41fb0b9eee,0x00051087ed87e16f,0x000102db5c9fa731,0x000289fef0841861],
     n_t2d = [0x00016336fed69abf,0x0004f066b929f9ec,0x0004e9ff9e6c5b93,0x00018c89bc4bb2ba,0x0006afbf642a95ca]\<rparr>,
    \<lparr>n_ysubx = [0x0000de0c62f5d2c1,0x00049601cf734fb5,0x0006b5c38263f0f6,0x0004623ef5b56d06,0x0000db4b851b9503],
     n_xaddy = [0x00055070f913a8cc,0x000765619eac2bbc,0x0003ab5225f47459,0x00076ced14ab5b48,0x00012c093cedb801],
     n_t2d = [0x00047f9308b8190f,0x000414235c621f82,0x00031f5ff41a5a76,0x0006736773aab96d,0x00033aa8799c6635]\<rparr>,
    \<lparr>n_ysubx = [0x0007f51ebd085cf2,0x00012cfa67e3f5e1,0x0001800cf1e3d46a,0x00054337615ff0a8,0x000233c6f29e8e21],
     n_xaddy = [0x0000f588fc156cb1,0x000363414da4f069,0x0007296ad9b68aea,0x0004d3711316ae43,0x000212cd0c1c8d58],
     n_t2d = [0x0004d5107f18c781,0x00064a4fd3a51a5e,0x0004f4cd0448bb37,0x000671d38543151e,0x0001db7778911914]\<rparr>,
    \<lparr>n_ysubx = [0x000352397c6bc26f,0x00018a7aa0227bbe,0x0005e68cc1ea5f8b,0x0006fe3e3a7a1d5f,0x00031ad97ad26e2a],
     n_xaddy = [0x00014769dd701ab6,0x00028339f1b4b667,0x0004ab214b8ae37b,0x00025f0aefa0b0fe,0x0007ae2ca8a017d2],
     n_t2d = [0x000017ed0920b962,0x000187e33b53b6fd,0x00055829907a1463,0x000641f248e0a792,0x0001ed1fc53a6622]\<rparr>]"


subsection \<open>Double scalar multiplication\<close>

definition S1_SWINDOWSIZE :: nat where "S1_SWINDOWSIZE = 5"
definition S1_TABLE_SIZE :: nat where "S1_TABLE_SIZE = 2 ^ (S1_SWINDOWSIZE - 2)"
definition S2_SWINDOWSIZE :: nat where "S2_SWINDOWSIZE = 7"
definition S2_TABLE_SIZE :: nat where "S2_TABLE_SIZE = 2 ^ (S2_SWINDOWSIZE - 2)"

text \<open>The table \<^verbatim>\<open>pre1\<close>, filled from its first entry.\<close>

definition pre1_table :: "ge25519 \<Rightarrow> ge25519_pniels list" where
  "pre1_table p1 =
    (let d1 = ge25519_double p1
     in foldl (\<lambda>pre1 i. pre1 @ [ge25519_pnielsadd d1 (pre1 ! i)]) [ge25519_full_to_pniels p1] [0..<S1_TABLE_SIZE - 1])"

definition ge25519_set_neutral :: ge25519 where
  "ge25519_set_neutral = \<lparr>ge_x = [0, 0, 0, 0, 0], ge_y = [0, 0, 0, 0, 0][0 := 1], ge_z = [0, 0, 0, 0, 0][0 := 1], ge_t = [0, 0, 0, 0, 0]\<rparr>"

text \<open>The loop that skips the leading zero digits; \<^verbatim>\<open>i\<close> ends at -1 when there is no other.\<close>

function skip_zeros :: "int list \<Rightarrow> int list \<Rightarrow> int \<Rightarrow> int" where
  "skip_zeros slide1 slide2 i =
    (if 0 \<le> i \<and> (slide1 ! nat i OR slide2 ! nat i) = 0 then skip_zeros slide1 slide2 (i - 1) else i)"
  by auto
termination by (relation "measure (\<lambda>(_, _, i). nat (i + 1))") auto

declare skip_zeros.simps [simp del]

text \<open>Table index and sign bit of a nonzero digit.\<close>

definition digit_index :: "int \<Rightarrow> nat" where
  "digit_index d = nat (\<bar>d\<bar> div 2)"

definition digit_sign :: "int \<Rightarrow> byte" where
  "digit_sign d = drop_bit 7 (word_of_int d)"

definition dsm_step :: "ge25519_pniels list \<Rightarrow> int list \<Rightarrow> int list \<Rightarrow> ge25519 \<Rightarrow> nat \<Rightarrow> ge25519" where
  "dsm_step pre1 slide1 slide2 r i =
    (let t = ge25519_double_p1p1 r;
         (r, t) = (if slide1 ! i \<noteq> 0 then
           let r = ge25519_p1p1_to_full t
           in (r, ge25519_pnielsadd_p1p1 r (pre1 ! digit_index (slide1 ! i)) (digit_sign (slide1 ! i)))
         else (r, t));
         (r, t) = (if slide2 ! i \<noteq> 0 then
           let r = ge25519_p1p1_to_full t
           in (r, ge25519_nielsadd2_p1p1 r (ge25519_niels_sliding_multiples ! digit_index (slide2 ! i)) (digit_sign (slide2 ! i)))
         else (r, t))
     in ge25519_p1p1_to_partial r t)"

definition ge25519_double_scalarmult_vartime :: "ge25519 \<Rightarrow> bignum256modm \<Rightarrow> bignum256modm \<Rightarrow> ge25519" where
  "ge25519_double_scalarmult_vartime p1 s1 s2 =
    (let slide1 = contract256_slidingwindow_modm s1 S1_SWINDOWSIZE;
         slide2 = contract256_slidingwindow_modm s2 S2_SWINDOWSIZE;
         pre1 = pre1_table p1;
         i = skip_zeros slide1 slide2 255
     in foldl (dsm_step pre1 slide1 slide2) ge25519_set_neutral (rev [0..<nat (i + 1)]))"


subsection \<open>Multiplication of the base point\<close>

definition ge25519_windowb_equal :: "u32 \<Rightarrow> u32 \<Rightarrow> u32" where
  "ge25519_windowb_equal b c = drop_bit 31 ((b XOR c) - 1)"

definition ge25519_scalarmult_base_choose_niels :: "byte list list \<Rightarrow> u32 \<Rightarrow> int \<Rightarrow> ge25519_niels" where
  "ge25519_scalarmult_base_choose_niels table pos b =
    (let sign = (ucast (drop_bit 7 (word_of_int b :: byte)) :: u32);
         mask = NOT (sign - 1);
         u = (word_of_int b + mask) XOR mask;
         packed = (replicate 96 0)[0 := 1, 32 := 1];
         packed = foldl (\<lambda>packed i. curve25519_move_conditional_bytes packed (table ! unat (pos * 8 + of_nat i))
                    (ucast (ge25519_windowb_equal u (of_nat i + 1)))) packed [0..<8];
         ysubx = curve25519_expand packed;
         xaddy = curve25519_expand (drop 32 packed);
         t2d = curve25519_expand (drop 64 packed);
         (ysubx, xaddy) = curve25519_swap_conditional ysubx xaddy (ucast sign);
         neg = curve25519_neg t2d;
         (t2d, neg) = curve25519_swap_conditional t2d neg (ucast sign)
     in \<lparr>n_ysubx = ysubx, n_xaddy = xaddy, n_t2d = t2d\<rparr>)"

definition base_add :: "byte list list \<Rightarrow> int list \<Rightarrow> ge25519 \<Rightarrow> nat \<Rightarrow> ge25519" where
  "base_add basepoint_table b r i =
    ge25519_nielsadd2 r (ge25519_scalarmult_base_choose_niels basepoint_table (of_nat i div 2) (b ! i))"

definition ge25519_scalarmult_base_niels :: "byte list list \<Rightarrow> bignum256modm \<Rightarrow> ge25519" where
  "ge25519_scalarmult_base_niels basepoint_table s =
    (let b = contract256_window4_modm s;
         t = ge25519_scalarmult_base_choose_niels basepoint_table 0 (b ! 1);
         r = \<lparr>ge_x = curve25519_sub_reduce (n_xaddy t) (n_ysubx t),
              ge_y = curve25519_add_reduce (n_xaddy t) (n_ysubx t),
              ge_z = [0, 0, 0, 0, 0][0 := 2],
              ge_t = curve25519_copy (n_t2d t)\<rparr>;
         r = foldl (base_add basepoint_table b) r (map (\<lambda>k. 2 * k + 3) [0..<31]);
         r = ge25519_double_partial r r;
         r = ge25519_double_partial r r;
         r = ge25519_double_partial r r;
         r = ge25519_double r;
         t = ge25519_scalarmult_base_choose_niels basepoint_table 0 (b ! 0);
         t = t\<lparr>n_t2d := curve25519_mul (n_t2d t) ge25519_ecd\<rparr>;
         r = ge25519_nielsadd2 r t
     in foldl (base_add basepoint_table b) r (map (\<lambda>k. 2 * k + 2) [0..<31]))"


section \<open>Evaluation of signed digits over points\<close>

definition ed_neutral :: fp4 where
  "ed_neutral = (0, 1, 1, 0)"

primrec ed_odd_multiple :: "fp4 \<Rightarrow> nat \<Rightarrow> fp4" where
  "ed_odd_multiple P 0 = P"
| "ed_odd_multiple P (Suc k) = ed_add (ed_double P) (ed_odd_multiple P k)"

definition ed_digit_add :: "(nat \<Rightarrow> fp4) \<Rightarrow> int \<Rightarrow> fp4 \<Rightarrow> fp4" where
  "ed_digit_add T d A = (if d = 0 then A else ed_add A (ed_signed (digit_sign d) (T (digit_index d))))"

definition ed_double_scalarmult :: "(nat \<Rightarrow> fp4) \<Rightarrow> (nat \<Rightarrow> fp4) \<Rightarrow> int list \<Rightarrow> int list \<Rightarrow> fp4" where
  "ed_double_scalarmult T1 T2 ds1 ds2 =
    foldr (\<lambda>(d1, d2) A. ed_digit_add T2 d2 (ed_digit_add T1 d1 (ed_double A))) (zip ds1 ds2) ed_neutral"

lemma double_neutral: "ed_double ed_neutral = ed_neutral"
  by (simp add: ed_double_def ed_neutral_def)

lemma set_neutral_rep: "ge_rep ge25519_set_neutral ed_neutral"
  by (simp add: ge_rep_def ge25519_set_neutral_def ed_neutral_def limb_rules)

text \<open>Digits that index a table of odd multiples.\<close>

lemma sign_of_schar:
  assumes "- 128 \<le> d" "d < 128"
  shows "drop_bit 7 (word_of_int d :: byte) = (if d < 0 then 1 else 0)"
proof -
  have "uint (word_of_int d :: byte) = d mod 256" by (simp add: uint_word_of_int)
  also have "\<dots> = (if d < 0 then d + 256 else d)" 
  proof (cases "d < 0")
    case True
    then have "(d + 256) mod 256 = d + 256" using assms by (intro mod_pos_pos_trivial) simp_all
    then show ?thesis using True by simp
  qed (use assms in \<open>simp add: mod_pos_pos_trivial\<close>)
  finally have "uint (drop_bit 7 (word_of_int d :: byte)) = (if d < 0 then d + 256 else d) div 2 ^ 7"
    using assms by (simp only: unsigned_drop_bit_eq) (simp add: drop_bit_eq_div take_bit_int_eq_self)
  also have "\<dots> = (if d < 0 then 1 else 0)" using assms by (simp add: div_pos_geq)
  finally show ?thesis by (auto simp: word_uint_eq_iff)
qed

lemma digit_okD:
  assumes "digit_ok m d" "d \<noteq> 0" "m \<le> 127"
  shows "int (digit_index d) \<le> m div 2" "digit_sign d = (if d < 0 then 1 else 0)" "digit_sign d \<le> 1"
    "d = (if d < 0 then - 1 else 1) * (2 * int (digit_index d) + 1)"
proof -
  have d: "odd d" "\<bar>d\<bar> \<le> m" using assms by (auto simp: digit_ok_def)
  show "int (digit_index d) \<le> m div 2" using d(2) by (simp add: digit_index_def zdiv_mono1)
  show "digit_sign d = (if d < 0 then 1 else 0)" unfolding digit_sign_def using d(2) assms(3) by (intro sign_of_schar) linarith+
  then show "digit_sign d \<le> 1" by simp
  have "\<bar>d\<bar> = 2 * (\<bar>d\<bar> div 2) + 1" using d(1) by presburger
  then show "d = (if d < 0 then - 1 else 1) * (2 * int (digit_index d) + 1)" by (simp add: digit_index_def)
qed

lemma pre1_rep:
  assumes "ge_rep p P" "k < S1_TABLE_SIZE"
  shows "pniels_rep (pre1_table p ! k) (ed_odd_multiple P k)"
proof -
  let ?f = "\<lambda>pre1 i. pre1 @ [ge25519_pnielsadd (ge25519_double p) (pre1 ! i)]"
  have "length (foldl ?f [ge25519_full_to_pniels p] [0..<n]) = Suc n
      \<and> (\<forall>k \<le> n. pniels_rep (foldl ?f [ge25519_full_to_pniels p] [0..<n] ! k) (ed_odd_multiple P k))" for n
  proof (induction n)
    case 0
    then show ?case using full_to_pniels_rep [OF assms(1)] by simp
  next
    case (Suc n)
    then have "pniels_rep (ge25519_pnielsadd (ge25519_double p) (foldl ?f [ge25519_full_to_pniels p] [0..<n] ! n)) (ed_odd_multiple P (Suc n))"
      using pnielsadd_rep [OF double_rep [OF ge_rep_partial [OF assms(1)]]] by simp
    then show ?case using Suc by (auto simp: nth_append le_Suc_eq)
  qed
  then show ?thesis using assms(2) by (simp add: pre1_table_def Let_def)
qed

definition sliding_points :: "(nat \<Rightarrow> fp4) \<Rightarrow> bool" where
  "sliding_points B \<longleftrightarrow> (\<forall>k < S2_TABLE_SIZE. niels_rep (ge25519_niels_sliding_multiples ! k) (B k))"

lemma dsm_step_rep:
  assumes "ge_rep p P" "sliding_points B" "partial_rep r A" "digit_ok 15 (sl1 ! i)" "digit_ok 63 (sl2 ! i)"
  shows "partial_rep (dsm_step (pre1_table p) sl1 sl2 r i)
    (ed_digit_add B (sl2 ! i) (ed_digit_add (ed_odd_multiple P) (sl1 ! i) (ed_double A)))"
proof -
  define t where "t = ge25519_double_p1p1 r"
  define r1 t1 where "r1 = (if sl1 ! i \<noteq> 0 then ge25519_p1p1_to_full t else r)"
    and "t1 = (if sl1 ! i \<noteq> 0 then ge25519_pnielsadd_p1p1 r1 (pre1_table p ! digit_index (sl1 ! i)) (digit_sign (sl1 ! i)) else t)"
  define r2 t2 where "r2 = (if sl2 ! i \<noteq> 0 then ge25519_p1p1_to_full t1 else r1)"
    and "t2 = (if sl2 ! i \<noteq> 0 then ge25519_nielsadd2_p1p1 r2 (ge25519_niels_sliding_multiples ! digit_index (sl2 ! i)) (digit_sign (sl2 ! i)) else t1)"
  have step: "dsm_step (pre1_table p) sl1 sl2 r i = ge25519_p1p1_to_partial r2 t2"
    unfolding dsm_step_def Let_def t2_def r2_def t1_def r1_def t_def by simp
  obtain C1 where C1: "p1_rep t1 C1" "ed_extend C1 = ed_digit_add (ed_odd_multiple P) (sl1 ! i) (ed_double A)"
  proof (cases "sl1 ! i = 0")
    case True
    then show thesis using that double_p1p1_rep [OF assms(3)] by (simp add: t1_def t_def ed_digit_add_def ed_double_def)
  next
    case False
    then have "ge_rep r1 (ed_double A)"
      using double_rep [OF assms(3)] by (simp add: r1_def t_def ge25519_double_def)
    moreover have "pniels_rep (pre1_table p ! digit_index (sl1 ! i)) (ed_odd_multiple P (digit_index (sl1 ! i)))"
      using pre1_rep [OF assms(1)] digit_okD(1) [OF assms(4) False] by (simp add: S1_TABLE_SIZE_def S1_SWINDOWSIZE_def)
    ultimately have "p1_rep t1 (ed_completed_add (ed_double A) (ed_signed (digit_sign (sl1 ! i)) (ed_odd_multiple P (digit_index (sl1 ! i)))))"
      using pnielsadd_p1p1_rep digit_okD(3) [OF assms(4) False] False by (simp add: t1_def)
    then show thesis by (rule that) (simp add: False ed_digit_add_def ed_add_def)
  qed
  obtain C2 where "p1_rep t2 C2" "ed_extend C2 = ed_digit_add B (sl2 ! i) (ed_extend C1)"
  proof (cases "sl2 ! i = 0")
    case True
    then show thesis using that C1 by (simp add: t2_def ed_digit_add_def)
  next
    case False
    then have "ge_rep r2 (ed_extend C1)" using p1p1_to_full_rep [OF C1(1)] by (simp add: r2_def)
    moreover have "niels_rep (ge25519_niels_sliding_multiples ! digit_index (sl2 ! i)) (B (digit_index (sl2 ! i)))"
      using assms(2) digit_okD(1) [OF assms(5) False] by (simp add: sliding_points_def S2_TABLE_SIZE_def S2_SWINDOWSIZE_def)
    ultimately have "p1_rep t2 (ed_completed_add (ed_extend C1) (ed_signed (digit_sign (sl2 ! i)) (B (digit_index (sl2 ! i)))))"
      using nielsadd2_p1p1_rep digit_okD(3) [OF assms(5) False] False by (simp add: t2_def)
    then show thesis by (rule that) (simp add: False ed_digit_add_def ed_add_def)
  qed
  then show ?thesis unfolding step using p1p1_to_partial_rep C1(2) by metis
qed

lemma skip_zeros_bounds: "- 1 \<le> i \<Longrightarrow> - 1 \<le> skip_zeros sl1 sl2 i \<and> skip_zeros sl1 sl2 i \<le> i"
proof (induction sl1 sl2 i rule: skip_zeros.induct)
  case (1 sl1 sl2 i)
  then show ?case unfolding skip_zeros.simps [of sl1 sl2 i] by auto
qed

lemma skip_zeros_zero:
  "- 1 \<le> i \<Longrightarrow> skip_zeros sl1 sl2 i < int k \<Longrightarrow> int k \<le> i \<Longrightarrow> sl1 ! k = 0 \<and> sl2 ! k = 0"
proof (induction sl1 sl2 i rule: skip_zeros.induct)
  case (1 sl1 sl2 i)
  then have z: "0 \<le> i" "(sl1 ! nat i OR sl2 ! nat i) = 0"
    by (auto simp: skip_zeros.simps [of sl1 sl2 i] split: if_splits)
  show ?case
  proof (cases "int k = i")
    case True
    then have "nat i = k" by simp
    then show ?thesis using z by (simp add: or_eq_0_iff)
  next
    case False
    then show ?thesis using 1 z by (simp add: skip_zeros.simps [of sl1 sl2 i])
  qed
qed

lemma foldl_rev_upt: "foldl f a (rev [0..<n]) = foldr (\<lambda>i r. f r i) [0..<n] a"
  by (simp add: foldl_conv_foldr)

lemma ed_double_scalarmult_upt:
  assumes "length ds1 = n" "length ds2 = n"
  shows "ed_double_scalarmult T1 T2 ds1 ds2 =
    foldr (\<lambda>i A. ed_digit_add T2 (ds2 ! i) (ed_digit_add T1 (ds1 ! i) (ed_double A))) [0..<n] ed_neutral"
proof -
  have "zip ds1 ds2 = map (\<lambda>i. (ds1 ! i, ds2 ! i)) [0..<n]" using assms by (intro nth_equalityI) simp_all
  then show ?thesis by (simp add: ed_double_scalarmult_def foldr_map comp_def)
qed

lemma foldr_zeros:
  assumes "\<forall>i \<in> set is. ds1 ! i = 0 \<and> ds2 ! i = 0"
  shows "foldr (\<lambda>i A. ed_digit_add T2 (ds2 ! i) (ed_digit_add T1 (ds1 ! i) (ed_double A))) is ed_neutral = ed_neutral"
  using assms by (induction "is") (simp_all add: ed_digit_add_def double_neutral)

lemma double_scalarmult_rep:
  assumes "ge_rep p P" "sliding_points B" "modm_ok s1" "modm_ok s2"
  shows "partial_rep (ge25519_double_scalarmult_vartime p s1 s2)
    (ed_double_scalarmult (ed_odd_multiple P) B (contract256_slidingwindow_modm s1 5) (contract256_slidingwindow_modm s2 7))"
proof -
  define sl1 sl2 where sl: "sl1 = contract256_slidingwindow_modm s1 5" "sl2 = contract256_slidingwindow_modm s2 7"
  let ?g = "\<lambda>i A. ed_digit_add B (sl2 ! i) (ed_digit_add (ed_odd_multiple P) (sl1 ! i) (ed_double A))"
  have s: "carried (2 ^ 32 - 1) s \<and> mval s \<le> 2 ^ 253" if "modm_ok s" for s
    using that by (simp add: modm_ok_def group_order_def)
  have len: "length sl1 = 256" "length sl2 = 256"
    and ok: "i < 256 \<Longrightarrow> digit_ok 15 (sl1 ! i)" "i < 256 \<Longrightarrow> digit_ok 63 (sl2 ! i)" for i
    unfolding sl using contract256_slidingwindow_correct [of s1 5] contract256_slidingwindow_correct [of s2 7] s assms(3,4) by simp_all
  define n where "n = nat (skip_zeros sl1 sl2 255 + 1)"
  have n: "n \<le> 256" using skip_zeros_bounds [of 255 sl1 sl2] unfolding n_def by linarith
  have "k \<le> 256 \<Longrightarrow> partial_rep (foldr (\<lambda>i r. dsm_step (pre1_table p) sl1 sl2 r i) [256 - k..<n] ge25519_set_neutral)
      (foldr ?g [256 - k..<n] ed_neutral)" for k
  proof (induction k)
    case 0
    then show ?case using n ge_rep_partial [OF set_neutral_rep] by simp
  next
    case (Suc k)
    then have eq: "Suc (256 - Suc k) = 256 - k" by simp
    have "[256 - Suc k..<n] = (if 256 - Suc k < n then (256 - Suc k) # [256 - k..<n] else [])" using upt_rec [of "256 - Suc k" n] eq by simp
    then show ?case
      using Suc ok [of "256 - Suc k"] dsm_step_rep [OF assms(1,2)] ge_rep_partial [OF set_neutral_rep] by simp
  qed
  from this [of 256] have "partial_rep (ge25519_double_scalarmult_vartime p s1 s2) (foldr ?g [0..<n] ed_neutral)"
    by (simp add: ge25519_double_scalarmult_vartime_def Let_def foldl_rev_upt sl n_def S1_SWINDOWSIZE_def S2_SWINDOWSIZE_def)
  moreover have "foldr ?g [n..<256] ed_neutral = ed_neutral"
    by (rule foldr_zeros) (use skip_zeros_zero [of 255 sl1 sl2] in \<open>auto simp: n_def\<close>)
  then have "foldr ?g [0..<n] ed_neutral = foldr ?g ([0..<n] @ [n..<256]) ed_neutral" by simp
  moreover have "[0..<n] @ [n..<256] = [0..<256]" using n by (metis le0 upt_add_eq_append le_add_diff_inverse)
  ultimately show ?thesis using ed_double_scalarmult_upt [OF len] unfolding sl by simp
qed


subsection \<open>Discrete logarithms\<close>

text \<open>
  A discrete logarithm: a map from a set of points, closed under the formulas, into a commutative ring that turns addition of
  points into addition. The group of points is cyclic, so that such maps determine points; with them the
  evaluation of digits is a statement about numbers.
\<close>

fun ed_scale :: "fp \<Rightarrow> fp4 \<Rightarrow> fp4" where
  "ed_scale c (X, Y, Z, T) = (c * X, c * Y, c * Z, c * T)"

definition discrete_log :: "fp4 set \<Rightarrow> (fp4 \<Rightarrow> 'a :: comm_ring_1) \<Rightarrow> bool" where
  "discrete_log S l \<longleftrightarrow> ed_neutral \<in> S \<and> l ed_neutral = 0
    \<and> (\<forall>P \<in> S. ed_double P \<in> S \<and> l (ed_double P) = 2 * l P \<and> ed_neg P \<in> S \<and> l (ed_neg P) = - l P
        \<and> ed_scale 2 P \<in> S \<and> l (ed_scale 2 P) = l P
        \<and> (\<forall>Q \<in> S. ed_add P Q \<in> S \<and> l (ed_add P Q) = l P + l Q))"

lemma discrete_logD:
  assumes "discrete_log S l" "P \<in> S"
  shows "ed_double P \<in> S" "l (ed_double P) = 2 * l P" "ed_scale 2 P \<in> S" "l (ed_scale 2 P) = l P"
    "ed_signed s P \<in> S" "l (ed_signed s P) = (if s = 0 then l P else - l P)"
    "Q \<in> S \<Longrightarrow> ed_add P Q \<in> S" "Q \<in> S \<Longrightarrow> l (ed_add P Q) = l P + l Q"
  using assms by (simp_all add: discrete_log_def ed_signed_def)

lemma odd_multiple_log:
  assumes "discrete_log S l" "P \<in> S"
  shows "ed_odd_multiple P k \<in> S \<and> l (ed_odd_multiple P k) = of_int (2 * int k + 1) * l P"
  using assms(2) by (induction k) (simp_all add: discrete_logD [OF assms(1)] algebra_simps)

lemma digit_add_log:
  assumes "discrete_log S l" "A \<in> S" "digit_ok m d" "m \<le> 127"
    and T: "\<And>k. int k \<le> m div 2 \<Longrightarrow> T k \<in> S \<and> l (T k) = of_int (2 * int k + 1) * g"
  shows "ed_digit_add T d A \<in> S \<and> l (ed_digit_add T d A) = l A + of_int d * g"
proof (cases "d = 0")
  case False
  note d = digit_okD [OF assms(3) False assms(4)]
  have *: "T (digit_index d) \<in> S" "l (T (digit_index d)) = of_int (2 * int (digit_index d) + 1) * g" using T [OF d(1)] by auto
  have "of_int d * g = (if d < 0 then - 1 else 1) * (of_int (2 * int (digit_index d) + 1) * g)"
    by (subst d(4)) (simp only: of_int_mult mult.assoc if_distrib [of of_int] of_int_minus of_int_1)
  then show ?thesis
    using * False by (simp add: ed_digit_add_def d(2) discrete_logD [OF assms(1)] assms(2))
qed (simp add: ed_digit_add_def assms(2))

lemma double_scalarmult_log:
  assumes "discrete_log S l" "P \<in> S" "length ds1 = length ds2"
    and B: "\<And>k. k < 32 \<Longrightarrow> B k \<in> S \<and> l (B k) = of_int (2 * int k + 1) * g"
    and ok: "\<And>i. i < length ds1 \<Longrightarrow> digit_ok 15 (ds1 ! i) \<and> digit_ok 63 (ds2 ! i)"
  shows "ed_double_scalarmult (ed_odd_multiple P) B ds1 ds2 \<in> S
    \<and> l (ed_double_scalarmult (ed_odd_multiple P) B ds1 ds2) = of_int (dval 2 ds1) * l P + of_int (dval 2 ds2) * g"
  using assms(3) ok
proof (induction ds1 ds2 rule: list_induct2)
  case Nil
  then show ?case using assms(1) by (simp add: ed_double_scalarmult_def discrete_log_def)
next
  case (Cons d1 ds1 d2 ds2)
  define A where "A = ed_double_scalarmult (ed_odd_multiple P) B ds1 ds2"
  have A: "A \<in> S" "l A = of_int (dval 2 ds1) * l P + of_int (dval 2 ds2) * g" using Cons unfolding A_def by fastforce+
  define A1 where "A1 = ed_digit_add (ed_odd_multiple P) d1 (ed_double A)"
  have "digit_ok 15 d1" "digit_ok 63 d2" using Cons.prems [of 0] by auto
  then have A1: "A1 \<in> S" "l A1 = 2 * l A + of_int d1 * l P"
    unfolding A1_def using digit_add_log [OF assms(1) discrete_logD(1) [OF assms(1) A(1)], of 15 d1 "ed_odd_multiple P" "l P"]
      odd_multiple_log [OF assms(1,2)] discrete_logD(2) [OF assms(1) A(1)] by auto
  have "ed_digit_add B d2 A1 \<in> S \<and> l (ed_digit_add B d2 A1) = l A1 + of_int d2 * g"
    using digit_add_log [OF assms(1) A1(1) \<open>digit_ok 63 d2\<close>] B by simp
  moreover have "ed_double_scalarmult (ed_odd_multiple P) B (d1 # ds1) (d2 # ds2) = ed_digit_add B d2 A1"
    by (simp add: ed_double_scalarmult_def A1_def A_def)
  ultimately show ?case by (simp add: A1(2) A(2) algebra_simps)
qed

text \<open>The table of odd multiples of the base point stands for points.\<close>

lemma unit_ed_d: "ed_d dvd 1"
proof (rule dvdI)
  have "(37095705934669439343138083508754565189542113879843219016388785533085940283555 :: nat) * 29203323570479832313932222820853031755424015489030106335172286495629888845891 = 1 + p25519 * 18711432026504983545383150839179377069140755243431541592214386876915719962696"
    by (simp add: p25519_def)
  moreover have "fe ge25519_ecd = 37095705934669439343138083508754565189542113879843219016388785533085940283555" by (simp add: ge25519_ecd_def)
  ultimately have "(of_nat (fe ge25519_ecd * 29203323570479832313932222820853031755424015489030106335172286495629888845891) :: fp) = of_nat 1" by (metis fp_of_nat_p)
  then show "1 = ed_d * of_nat 29203323570479832313932222820853031755424015489030106335172286495629888845891" by (simp add: ed_d_def fval_def)
qed

lemma niels_rep_exists:
  assumes "tight (n_ysubx q)" "tight (n_xaddy q)" "tight (n_t2d q)"
  shows "\<exists>Q. niels_rep q Q"
proof -
  obtain h where h: "1 = 2 * (h :: fp)" using unit_two by (auto elim: dvdE)
  obtain e where e: "1 = ed_d * e" using unit_ed_d by (auto elim: dvdE)
  define a b c where "a = fval (n_ysubx q)" and "b = fval (n_xaddy q)" and "c = fval (n_t2d q)"
  have "a = h * (a + b) - h * (b - a)" "b = h * (a + b) + h * (b - a)"
    using arg_cong [OF h, of "(*) a"] arg_cong [OF h, of "(*) b"] by (simp_all add: algebra_simps)
  moreover have "2 * ed_d * (h * e * c) = (2 * h) * (ed_d * e) * c" by (simp add: mult_ac)
  then have "c = 2 * ed_d * (h * e * c)" by (simp add: h [symmetric] e [symmetric])
  ultimately have "niels_rep q (h * (b - a), h * (a + b), 1, h * e * c)"
    using assms by (simp add: niels_rep_def a_def b_def c_def)
  then show ?thesis ..
qed

lemma unat_numeral_le: "(numeral n :: nat) \<le> m \<Longrightarrow> unat (numeral n :: u64) \<le> m"
  by (simp only: unsigned_numeral of_nat_id) (rule le_trans [OF take_bit_nat_less_eq_self])

lemma tight_numerals:
  assumes "(numeral a :: nat) \<le> 2251799813947392" "(numeral b :: nat) \<le> 2251799813947392" "(numeral c :: nat) \<le> 2251799813947392"
    "(numeral d :: nat) \<le> 2251799813947392" "(numeral e :: nat) \<le> 2251799813947392"
  shows "tight [numeral a, numeral b, numeral c, numeral d, numeral e]"
proof -
  have "(2 :: nat) ^ 51 + 2 ^ 18 = 2251799813947392" by simp
  then show ?thesis unfolding tight_def bounded_limbs using assms [THEN unat_numeral_le] by (simp only: HOL.simp_thms)
qed

lemma sliding_multiples_tight:
  "\<forall>q \<in> set ge25519_niels_sliding_multiples. tight (n_ysubx q) \<and> tight (n_xaddy q) \<and> tight (n_t2d q)"
  unfolding ge25519_niels_sliding_multiples_def
  by (simp only: list.set ball_simps ge25519_niels.simps HOL.simp_thms tight_numerals numeral_le_iff le_num_simps less_num_simps)

lemma sliding_points_exist: "\<exists>B. sliding_points B"
proof -
  have "length ge25519_niels_sliding_multiples = 32" by (simp add: ge25519_niels_sliding_multiples_def)
  then have "\<exists>Q. niels_rep (ge25519_niels_sliding_multiples ! k) Q" if "k < 32" for k
    using that sliding_multiples_tight niels_rep_exists by simp
  then have "\<forall>k. \<exists>Q. k < 32 \<longrightarrow> niels_rep (ge25519_niels_sliding_multiples ! k) Q" by blast
  moreover have "S2_TABLE_SIZE = 32" by (simp add: S2_TABLE_SIZE_def S2_SWINDOWSIZE_def)
  ultimately show ?thesis unfolding sliding_points_def by (simp only: choice_iff)
qed


subsection \<open>Choice from the table of packed multiples\<close>

definition niels_form :: "fp \<Rightarrow> ge25519_niels \<Rightarrow> fp4 \<Rightarrow> bool" where
  "niels_form c q Q \<longleftrightarrow> tight (n_ysubx q) \<and> tight (n_xaddy q) \<and> tight (n_t2d q)
    \<and> (\<exists>X Y T. Q = (X, Y, 1, T) \<and> fval (n_ysubx q) = Y - X \<and> fval (n_xaddy q) = Y + X \<and> fval (n_t2d q) = 2 * c * T)"

lemma niels_form_rep: "niels_form ed_d q Q \<longleftrightarrow> niels_rep q Q"
  by (simp add: niels_form_def niels_rep_def)

text \<open>A row of 96 bytes: the coordinates of a point in Niels form, the third with the factor \<open>c\<close>.\<close>

definition packed_form :: "fp \<Rightarrow> byte list \<Rightarrow> fp4 \<Rightarrow> bool" where
  "packed_form c row Q \<longleftrightarrow> length row = 96
    \<and> (\<exists>X Y T. Q = (X, Y, 1, T) \<and> enc_y (take 32 row) = Y - X \<and> enc_y (take 32 (drop 32 row)) = Y + X
         \<and> enc_y (take 32 (drop 64 row)) = 2 * c * T)"

definition ed_window :: "(nat \<Rightarrow> fp4) \<Rightarrow> int \<Rightarrow> fp4" where
  "ed_window T b = (if b = 0 then ed_neutral else ed_signed (digit_sign b) (T (nat \<bar>b\<bar> - 1)))"

lemma expand_take: "32 \<le> length xs \<Longrightarrow> tight (curve25519_expand xs) \<and> fval (curve25519_expand xs) = enc_y (take 32 xs)"
proof -
  assume l: "32 \<le> length xs"
  have "load64_le (drop n (take 32 xs)) = load64_le (drop n xs)" if "n \<le> 24" for n
    using that load64_le_take [of "drop n (take 32 xs)"] load64_le_take [of "drop n xs"]
    by (simp add: drop_take min_def split: if_splits)
  from this [of 0] this [of 8] this [of 16] this [of 24] have "curve25519_expand (take 32 xs) = curve25519_expand xs"
    by (simp add: curve25519_expand_def)
  then show ?thesis using curve25519_expand_fval [of "take 32 xs"] l by (simp add: enc_y_def)
qed

lemma windowb_equal:
  assumes "u < 2 ^ 31" "v < 2 ^ 31"
  shows "ge25519_windowb_equal (of_nat u) (of_nat v) = (if u = v then 1 else 0)"
proof -
  have x: "u XOR v < 2 ^ 31" using assms by (metis take_bit_xor take_bit_nat_eq_self_iff)
  have eq: "of_nat u XOR of_nat v = (of_nat (u XOR v) :: u32)" by (simp add: of_nat_xor_eq)
  show ?thesis
  proof (cases "u = v")
    case True
    then show ?thesis by (simp add: ge25519_windowb_equal_def mask_numeral)
  next
    case False
    then have "u XOR v \<noteq> 0" by (metis xor.assoc xor_self_eq xor.left_neutral xor.right_neutral)
    then obtain m where m: "u XOR v = Suc m" by (cases "u XOR v") auto
    have "(of_nat u XOR of_nat v) - 1 = (of_nat ((u XOR v) - 1) :: u32)" unfolding eq m by simp
    moreover have "unat (drop_bit 31 (of_nat ((u XOR v) - 1) :: u32)) = 0"
      using x by (simp only: unat_drop_bit_eq unsigned_of_nat) (simp add: drop_bit_eq_div take_bit_nat_eq_self)
    ultimately have "ge25519_windowb_equal (of_nat u) (of_nat v) = 0" unfolding ge25519_windowb_equal_def by (simp only: unsigned_eq_0_iff)
    then show ?thesis using False by simp
  qed
qed

lemma choose_fold:
  assumes "u \<le> 8" "n \<le> 8" "pos < 32" "length packed = 96" "\<forall>k < 8. length (table ! (8 * pos + k)) = 96"
  shows "foldl (\<lambda>packed i. curve25519_move_conditional_bytes packed (table ! unat ((of_nat pos :: u32) * 8 + of_nat i))
      (ucast (ge25519_windowb_equal (of_nat u) (of_nat i + 1)))) packed [0..<n]
    = (if 0 < u \<and> u \<le> n then table ! (8 * pos + (u - 1)) else packed)"
  using assms(2)
proof (induction n)
  case (Suc n)
  have "(of_nat pos :: u32) * 8 + of_nat n = of_nat (8 * pos + n)" by simp
  then have row: "unat ((of_nat pos :: u32) * 8 + of_nat n) = 8 * pos + n"
    using assms(3) Suc.prems by (simp only: unsigned_of_nat) (simp add: take_bit_nat_eq_self)
  have "(of_nat n :: u32) + 1 = of_nat (n + 1)" by simp
  then have flag: "(ucast (ge25519_windowb_equal (of_nat u) (of_nat n + 1)) :: u64) = (if u = n + 1 then 1 else 0)"
    using assms(1) Suc.prems windowb_equal [of u "n + 1"] by (simp add: add.commute)
  have "length (table ! (8 * pos + (u - 1))) = 96" if "0 < u"
    by (rule assms(5) [rule_format]) (use that assms(1) in simp)
  then have "length (if 0 < u \<and> u \<le> n then table ! (8 * pos + (u - 1)) else packed) = 96"
    using assms(4) by (cases "0 < u \<and> u \<le> n") (simp_all only: if_True if_False simp_thms)
  then show ?case
    using Suc assms(5) by (auto simp: row flag curve25519_move_conditional_bytes_correct le_Suc_eq)
qed auto

lemma digit_abs:
  assumes "- 8 \<le> b" "b \<le> 8"
  shows "(let sign = (ucast (drop_bit 7 (word_of_int b :: byte)) :: u32); mask = NOT (sign - 1)
    in (word_of_int b + mask) XOR mask) = of_nat (nat \<bar>b\<bar>)"
proof (cases "b < 0")
  case True
  have "x XOR - 1 = NOT x" for x :: u32 by (rule bit_word_eqI) (simp add: bit_simps)
  then have "(word_of_int b - 1) XOR - 1 = (- word_of_int b :: u32)" by (simp only: minus_eq_not_minus_1 [symmetric])
  moreover have "of_nat (nat \<bar>b\<bar>) = (- word_of_int b :: u32)" using True by simp
  moreover have "ucast (1 :: byte) - 1 = (0 :: u32)" "NOT (0 :: u32) = - 1" by simp_all
  ultimately show ?thesis using True assms by (simp only: sign_of_schar Let_def if_True) simp
next
  case False
  then have "nat \<bar>b\<bar> = nat b" by simp
  then show ?thesis using False assms sign_of_schar [of b] by (simp add: Let_def)
qed

lemma niels_form_neg:
  "niels_form c q Q \<Longrightarrow>
   niels_form c \<lparr>n_ysubx = n_xaddy q, n_xaddy = n_ysubx q, n_t2d = curve25519_neg (n_t2d q)\<rparr> (ed_neg Q)"
  by (auto simp: niels_form_def limb_rules)

lemma packed_niels:
  assumes "packed_form c row Q"
  shows "niels_form c \<lparr>n_ysubx = curve25519_expand row, n_xaddy = curve25519_expand (drop 32 row),
    n_t2d = curve25519_expand (drop 64 row)\<rparr> Q"
proof -
  have "length row = 96" using assms by (simp add: packed_form_def)
  then show ?thesis
    using assms expand_take [of row] expand_take [of "drop 32 row"] expand_take [of "drop 64 row"]
    by (simp add: niels_form_def packed_form_def)
qed

lemma packed_neutral: "packed_form c ((replicate 96 0)[0 := 1, 32 := 1]) ed_neutral"
proof -
  define z :: "byte list" where "z = replicate 31 0"
  have "(replicate 96 0)[0 := 1, 32 := 1] = 1 # z @ 1 # z @ 0 # (z :: byte list)"
    by (rule nth_equalityI) (auto simp: z_def nth_Cons nth_append nth_list_update split: nat.splits)
  then have t: "take 32 ((replicate 96 0)[0 := 1, 32 := 1]) = 1 # z" "take 32 (drop 32 ((replicate 96 0)[0 := 1, 32 := 1])) = 1 # z"
    "take 32 (drop 64 ((replicate 96 0)[0 := 1, 32 := 1])) = 0 # z"
    by (simp_all add: z_def)
  have z: "le_nat z = 0" by (simp add: z_def)
  show ?thesis unfolding packed_form_def ed_neutral_def enc_y_def t le_nat.simps z by simp
qed

lemma choose_niels_form:
  assumes "- 8 \<le> b" "b \<le> 8" "pos < 32" "\<forall>k < 8. packed_form c (table ! (8 * pos + k)) (T k)"
  shows "niels_form c (ge25519_scalarmult_base_choose_niels table (of_nat pos) b) (ed_window T b)"
proof -
  define u where "u = nat \<bar>b\<bar>"
  define row where "row = (if 0 < u then table ! (8 * pos + (u - 1)) else (replicate 96 0)[0 := 1, 32 := 1])"
  define q where "q = \<lparr>n_ysubx = curve25519_expand row, n_xaddy = curve25519_expand (drop 32 row), n_t2d = curve25519_expand (drop 64 row)\<rparr>"
  have u: "u \<le> 8" using assms(1,2) by (simp add: u_def)
  have rows: "\<forall>k < 8. length (table ! (8 * pos + k)) = 96" using assms(4) by (simp add: packed_form_def)
  have "packed_form c row (if 0 < u then T (u - 1) else ed_neutral)"
  proof (cases "0 < u")
    case True
    then have "u - 1 < 8" using u by simp
    then have "packed_form c (table ! (8 * pos + (u - 1))) (T (u - 1))" using assms(4) by blast
    then show ?thesis unfolding row_def using True by (simp only: if_True)
  qed (simp only: row_def if_False packed_neutral)
  then have q: "niels_form c q (if 0 < u then T (u - 1) else ed_neutral)" unfolding q_def by (rule packed_niels)
  have l: "length (n_ysubx q) = 5" "length (n_xaddy q) = 5" "length (n_t2d q) = 5" "length (curve25519_neg (n_t2d q)) = 5"
    using q curve25519_neg_correct(1) by (auto simp: niels_form_def tight_def bounded_def)
  have choose: "ge25519_scalarmult_base_choose_niels table (of_nat pos) b =
    (if b < 0 then \<lparr>n_ysubx = n_xaddy q, n_xaddy = n_ysubx q, n_t2d = curve25519_neg (n_t2d q)\<rparr> else q)"
  proof -
    have fold: "foldl (\<lambda>packed i. curve25519_move_conditional_bytes packed (table ! unat ((of_nat pos :: u32) * 8 + of_nat i))
        (ucast (ge25519_windowb_equal (of_nat u) (of_nat i + 1)))) ((replicate 96 0)[0 := 1, 32 := 1]) [0..<8] = row"
      using choose_fold [OF u _ assms(3) _ rows, of 8 "(replicate 96 0)[0 := 1, 32 := 1]"] u by (simp add: row_def)
    have "ge25519_scalarmult_base_choose_niels table (of_nat pos) b =
      (let sign = (ucast (drop_bit 7 (word_of_int b :: byte)) :: u64);
           (ysubx, xaddy) = curve25519_swap_conditional (n_ysubx q) (n_xaddy q) sign;
           (t2d, neg) = curve25519_swap_conditional (n_t2d q) (curve25519_neg (n_t2d q)) sign
       in \<lparr>n_ysubx = ysubx, n_xaddy = xaddy, n_t2d = t2d\<rparr>)"
      unfolding ge25519_scalarmult_base_choose_niels_def Let_def digit_abs [OF assms(1,2), unfolded Let_def, folded u_def] fold
      using sign_of_schar [of b] assms(1,2) by (simp add: q_def)
    then show ?thesis
      using sign_of_schar [of b] assms(1,2) curve25519_swap_conditional_correct [OF l(1,2)] curve25519_swap_conditional_correct [OF l(3,4)]
      by (cases "b < 0") (simp_all add: Let_def)
  qed
  have "digit_sign b = (if b < 0 then 1 else 0)" using sign_of_schar [of b] assms(1,2) by (simp add: digit_sign_def)
  then have "ed_window T b = (if b < 0 then ed_neg (if 0 < u then T (u - 1) else ed_neutral) else if 0 < u then T (u - 1) else ed_neutral)"
    by (auto simp: ed_window_def u_def ed_signed_def)
  then show ?thesis
    unfolding choose using q niels_form_neg [OF q] by (cases "b < 0") (simp_all only: if_True if_False)
qed


subsection \<open>Evaluation of the radix-16 digits\<close>

definition ed_base_mult :: "(nat \<Rightarrow> nat \<Rightarrow> fp4) \<Rightarrow> int list \<Rightarrow> fp4" where
  "ed_base_mult T b =
    (let r = ed_scale 2 (ed_window (T 0) (b ! 1));
         r = foldl (\<lambda>r k. ed_add r (ed_window (T (k + 1)) (b ! (2 * k + 3)))) r [0..<31];
         r = ed_double (ed_double (ed_double (ed_double r)));
         r = ed_add r (ed_window (T 0) (b ! 0))
     in foldl (\<lambda>r k. ed_add r (ed_window (T (k + 1)) (b ! (2 * k + 2)))) r [0..<31])"

text \<open>A table of packed multiples: the first eight rows hold \<open>2 x y\<close>, the others \<open>2 d x y\<close>.\<close>

definition base_points :: "byte list list \<Rightarrow> (nat \<Rightarrow> nat \<Rightarrow> fp4) \<Rightarrow> bool" where
  "base_points table T \<longleftrightarrow> (\<forall>pos < 32. \<forall>k < 8. packed_form (if pos = 0 then 1 else ed_d) (table ! (8 * pos + k)) (T pos k))"

lemma base_fold_rep:
  assumes "base_points table T" "\<forall>i < 64. - 8 \<le> b ! i \<and> b ! i \<le> 8" "e \<le> 1" "ge_rep r R" "n \<le> 31"
  shows "ge_rep (foldl (base_add table b) r (map (\<lambda>k. 2 * k + (2 + e)) [0..<n]))
    (foldl (\<lambda>r k. ed_add r (ed_window (T (k + 1)) (b ! (2 * k + (2 + e))))) R [0..<n])"
  using assms(5)
proof (induction n)
  case (Suc n)
  have half: "(of_nat m :: u32) div 2 = of_nat (m div 2)" if "m < 2 ^ 32" for m
    using that by (simp add: word_unat_eq_iff unat_div unsigned_of_nat take_bit_nat_eq_self)
  have "(of_nat (2 * n + (2 + e)) :: u32) div 2 = of_nat ((2 * n + (2 + e)) div 2)"
    by (rule half) (use Suc.prems assms(3) in simp)
  also have "(2 * n + (2 + e)) div 2 = n + 1" using assms(3) by simp
  finally have pos: "(of_nat (2 * n + (2 + e)) :: u32) div 2 = of_nat (n + 1)" .
  have "niels_form ed_d (ge25519_scalarmult_base_choose_niels table (of_nat (n + 1)) (b ! (2 * n + (2 + e))))
      (ed_window (T (n + 1)) (b ! (2 * n + (2 + e))))"
    using assms(1) [unfolded base_points_def, rule_format, of "n + 1"] assms(2,3) Suc.prems by (intro choose_niels_form) auto
  then have "niels_rep (ge25519_scalarmult_base_choose_niels table (of_nat (2 * n + (2 + e)) div 2) (b ! (2 * n + (2 + e))))
      (ed_window (T (n + 1)) (b ! (2 * n + (2 + e))))"
    unfolding pos niels_form_rep .
  then show ?case using Suc nielsadd2_rep by (simp add: base_add_def del: of_nat_add of_nat_mult of_nat_Suc)
qed (simp add: assms(4))

lemma base_start_rep:
  assumes "niels_form 1 t Q"
  shows "ge_rep \<lparr>ge_x = curve25519_sub_reduce (n_xaddy t) (n_ysubx t), ge_y = curve25519_add_reduce (n_xaddy t) (n_ysubx t),
      ge_z = [0, 0, 0, 0, 0][0 := 2], ge_t = curve25519_copy (n_t2d t)\<rparr> (ed_scale 2 Q)"
proof -
  have "tight [2, 0, 0, 0, 0]" "fval [2, 0, 0, 0, 0] = 2" by (simp_all add: tight_def fval_def)
  then show ?thesis using assms by (auto simp: niels_form_def ge_rep_def limb_rules)
qed

lemma niels_form_ecd: "niels_form 1 t Q \<Longrightarrow> niels_rep (t\<lparr>n_t2d := curve25519_mul (n_t2d t) ge25519_ecd\<rparr>) Q"
  by (auto simp: niels_form_def niels_rep_def limb_rules ed_d_def)

lemma base_mult_rep:
  assumes "base_points table T" "carried (2 ^ 32 - 1) s" "mval s < 2 ^ 255"
  shows "ge_rep (ge25519_scalarmult_base_niels table s) (ed_base_mult T (contract256_window4_modm s))"
proof -
  define b where "b = contract256_window4_modm s"
  have b: "\<forall>i < 64. - 8 \<le> b ! i \<and> b ! i \<le> 8" using contract256_window4_correct(3) [OF assms(2,3)] by (simp add: b_def)
  have c: "niels_form 1 (ge25519_scalarmult_base_choose_niels table 0 (b ! i)) (ed_window (T 0) (b ! i))" if "i < 64" for i
    using choose_niels_form [of "b ! i" 0 1 table "T 0"] assms(1) [unfolded base_points_def, rule_format, of 0] b that by simp
  note f = base_fold_rep [OF assms(1) b]
  note r1 = f [OF _ base_start_rep [OF c [of 1]], of 1 31]
  note r2 = double_rep [OF double_partial_rep [OF double_partial_rep [OF double_partial_rep [OF ge_rep_partial [OF r1]]]]]
  note r3 = nielsadd2_rep [OF r2 niels_form_ecd [OF c [of 0]]]
  note r4 = f [OF _ r3, of 0 31]
  show ?thesis
    unfolding ge25519_scalarmult_base_niels_def ed_base_mult_def Let_def b_def [symmetric]
    using r4 by (simp add: numeral_3_eq_3)
qed

lemma window_log:
  assumes "discrete_log S l" "- 8 \<le> b" "b \<le> 8" "\<forall>k < 8. T k \<in> S \<and> l (T k) = of_nat (k + 1) * g"
  shows "ed_window T b \<in> S \<and> l (ed_window T b) = of_int b * g"
proof (cases "b = 0")
  case True
  then show ?thesis using assms(1) by (simp add: ed_window_def discrete_log_def)
next
  case False
  then have k: "nat \<bar>b\<bar> - 1 < 8" "int (nat \<bar>b\<bar> - 1 + 1) = \<bar>b\<bar>" using assms(2,3) by auto
  have s: "digit_sign b = (if b < 0 then 1 else 0)" using sign_of_schar [of b] assms(2,3) by (simp add: digit_sign_def)
  have T: "T (nat \<bar>b\<bar> - 1) \<in> S" "l (T (nat \<bar>b\<bar> - 1)) = of_int \<bar>b\<bar> * g"
    using assms(4) k(1) by (blast, metis k of_int_of_nat_eq)
  then show ?thesis
    using False discrete_logD(5,6) [OF assms(1) T(1), of "digit_sign b"] by (auto simp: ed_window_def s)
qed

lemma window_fold_log:
  assumes "discrete_log S l" "r \<in> S" "\<And>k. k < n \<Longrightarrow> W k \<in> S \<and> l (W k) = of_int (v k) * g"
  shows "foldl (\<lambda>r k. ed_add r (W k)) r [0..<n] \<in> S \<and> l (foldl (\<lambda>r k. ed_add r (W k)) r [0..<n]) = l r + of_int (\<Sum>k < n. v k) * g"
  using assms(3) by (induction n) (simp_all add: assms(2) discrete_logD [OF assms(1)] algebra_simps)

lemma dval_pairs: "length b = 2 * n \<Longrightarrow> dval 16 b = (\<Sum>k < n. 256 ^ k * (b ! (2 * k) + 16 * b ! (2 * k + 1)))"
proof (induction n arbitrary: b)
  case (Suc n)
  then obtain x y c where b: "b = x # y # c" and c: "length c = 2 * n" by (auto simp: length_Suc_conv)
  have "dval 16 b = x + 16 * y + 256 * (\<Sum>k < n. 256 ^ k * (c ! (2 * k) + 16 * c ! (2 * k + 1)))"
    using Suc.IH [OF c] by (simp add: b)
  then show ?case by (simp add: b sum.lessThan_Suc_shift sum_distrib_left mult_ac del: sum.lessThan_Suc)
qed simp

lemma base_mult_log:
  assumes "discrete_log S l" "length b = 64" "\<forall>i < 64. - 8 \<le> b ! i \<and> b ! i \<le> 8"
    "\<forall>pos < 32. \<forall>k < 8. T pos k \<in> S \<and> l (T pos k) = of_nat (k + 1) * (256 ^ pos * g)"
  shows "l (ed_base_mult T b) = of_int (dval 16 b) * g"
proof -
  have w: "ed_window (T pos) (b ! i) \<in> S \<and> l (ed_window (T pos) (b ! i)) = of_int (256 ^ pos * b ! i) * g" if "pos < 32" "i < 64" for pos i
    using window_log [OF assms(1), of "b ! i" "T pos" "256 ^ pos * g"] assms(3,4) that by (simp add: mult_ac)
  define r0 where "r0 = ed_scale 2 (ed_window (T 0) (b ! 1))"
  have r0: "r0 \<in> S" "l r0 = of_int (b ! 1) * g" using w [of 0 1] discrete_logD(3,4) [OF assms(1)] by (simp_all add: r0_def)
  define r1 where "r1 = foldl (\<lambda>r k. ed_add r (ed_window (T (k + 1)) (b ! (2 * k + 3)))) r0 [0..<31]"
  have r1: "r1 \<in> S" "l r1 = l r0 + of_int (\<Sum>k < 31. 256 ^ (k + 1) * b ! (2 * k + 3)) * g"
    unfolding r1_def using window_fold_log [OF assms(1) r0(1), of 31 "\<lambda>k. ed_window (T (k + 1)) (b ! (2 * k + 3))" "\<lambda>k. 256 ^ (k + 1) * b ! (2 * k + 3)" g] w by auto
  define r2 where "r2 = ed_double (ed_double (ed_double (ed_double r1)))"
  have r2: "r2 \<in> S" "l r2 = 16 * l r1" using r1(1) by (simp_all add: r2_def discrete_logD [OF assms(1)])
  define r3 where "r3 = ed_add r2 (ed_window (T 0) (b ! 0))"
  have r3: "r3 \<in> S" "l r3 = 16 * l r1 + of_int (b ! 0) * g" using r2 w [of 0 0] discrete_logD(7,8) [OF assms(1) r2(1)] by (simp_all add: r3_def)
  have l: "l (ed_base_mult T b) = l r3 + of_int (\<Sum>k < 31. 256 ^ (k + 1) * b ! (2 * k + 2)) * g"
    unfolding ed_base_mult_def Let_def r0_def [symmetric] r1_def [symmetric] r2_def [symmetric] r3_def [symmetric]
    using window_fold_log [OF assms(1) r3(1), of 31 "\<lambda>k. ed_window (T (k + 1)) (b ! (2 * k + 2))" "\<lambda>k. 256 ^ (k + 1) * b ! (2 * k + 2)" g] w by auto
  have "dval 16 b = b ! 0 + 16 * b ! 1 + (\<Sum>k < 31. 256 ^ (k + 1) * (b ! (2 * k + 2) + 16 * b ! (2 * k + 3)))"
    using dval_pairs [of b "Suc 31"] assms(2) unfolding sum.lessThan_Suc_shift by (simp add: numeral_3_eq_3)
  also have "\<dots> = b ! 0 + 16 * (b ! 1 + (\<Sum>k < 31. 256 ^ (k + 1) * b ! (2 * k + 3))) + (\<Sum>k < 31. 256 ^ (k + 1) * b ! (2 * k + 2))"
    by (simp add: sum.distrib sum_distrib_left algebra_simps del: sum.lessThan_Suc)
  finally show ?thesis unfolding l r3(2) r1(2) r0(2) by (simp only: of_int_add of_int_mult of_int_numeral) (simp add: algebra_simps del: of_int_sum)
qed


subsection \<open>An instance: the points of order four\<close>

text \<open>The points \<open>(0, 1)\<close>, \<open>(i, 0)\<close>, \<open>(0, -1)\<close>, \<open>(-i, 0)\<close> with all their coordinates, and their logarithms modulo 4.\<close>

definition im :: fp where "im = fval ge25519_sqrtneg1"

lemma im_square: "im * im = - 1"
  by (simp add: im_def sqrtneg1_square)

lemma im_im [simp]: "im * (im * x) = - x" "(im * x) ^ 2 = - (x ^ 2)"
  by (simp_all add: im_square power_mult_distrib power2_eq_square [of im] flip: mult.assoc)

definition quarter :: "fp \<Rightarrow> 2 word \<Rightarrow> fp4" where
  "quarter z k = (if k = 0 then (0, z, z, 0) else if k = 1 then (im * z, 0, z, 0) else if k = 2 then (0, - z, z, 0) else (- im * z, 0, z, 0))"

definition quarters :: "fp4 set" where
  "quarters = {quarter z k |z k. z dvd 1}"

definition quarter_log :: "fp4 \<Rightarrow> 2 word" where
  "quarter_log = (\<lambda>(X, Y, Z, T). if X = 0 then (if Y = Z then 0 else 2) else if X = im * Z then 1 else 3)"

lemma quarter_cases: "(k :: 2 word) = 0 \<or> k = 1 \<or> k = 2 \<or> k = 3"
proof -
  have "unat k < 4" using unsigned_less [of k, where 'a = nat] by simp
  then have "unat k = 0 \<or> unat k = 1 \<or> unat k = 2 \<or> unat k = 3" by linarith
  then show ?thesis by (auto simp: word_unat_eq_iff)
qed

lemma unit_neq: "z dvd 1 \<Longrightarrow> z \<noteq> 0" "z dvd 1 \<Longrightarrow> - z \<noteq> (z :: fp)" "z dvd 1 \<Longrightarrow> im * z \<noteq> 0" "z dvd 1 \<Longrightarrow> - (im * z) \<noteq> im * z"
proof -
  have z: "a \<noteq> 0" if "a dvd 1" for a :: fp using that by (auto elim: dvdE)
  have i: "im dvd 1" by (rule dvdI [of _ _ "- im"]) (simp add: im_square)
  have n: "- a \<noteq> a" if "a dvd 1" for a :: fp
  proof
    assume "- a = a"
    then have "2 * a = 0" by (metis add.left_inverse mult_2)
    then show False using z [OF unit_mult [OF unit_two that]] by simp
  qed
  show "z dvd 1 \<Longrightarrow> z \<noteq> 0" "z dvd 1 \<Longrightarrow> - z \<noteq> z" "z dvd 1 \<Longrightarrow> im * z \<noteq> 0" "z dvd 1 \<Longrightarrow> - (im * z) \<noteq> im * z"
    using z n unit_mult [OF i] by blast+
qed

lemma log_quarter: "z dvd 1 \<Longrightarrow> quarter_log (quarter z k) = k"
  using quarter_cases [of k] by (auto simp: quarter_def quarter_log_def unit_neq)

lemma quarter_add: "ed_add (quarter z j) (quarter w k) = quarter (4 * z * z * w * w) (j + k)"
  using quarter_cases [of j] quarter_cases [of k]
  by (elim disjE; simp add: quarter_def ed_add_def)
    (simp_all add: mult_ac im_square)

lemma quarter_double: "ed_double (quarter z k) = quarter (z ^ 4) (2 * k)"
  using quarter_cases [of k]
  by (elim disjE; simp add: quarter_def ed_double_def power2_eq_square power4_eq_xxxx mult_ac)

lemma quarter_neg: "ed_neg (quarter z k) = quarter z (- k)"
  using quarter_cases [of k] by (elim disjE; simp add: quarter_def)

lemma quarter_scale: "ed_scale 2 (quarter z k) = quarter (2 * z) k"
  by (simp add: quarter_def)

lemma quarter_discrete_log: "discrete_log quarters quarter_log"
proof -
  have q: "quarter z k \<in> quarters" "quarter_log (quarter z k) = k" if "z dvd 1" for z k
    using that log_quarter by (auto simp: quarters_def)
  have n: "ed_neutral = quarter 1 0" by (simp add: ed_neutral_def quarter_def)
  have u: "4 dvd (1 :: fp)" "z dvd 1 \<Longrightarrow> z ^ 4 dvd 1" for z :: fp
    using unit_mult [OF unit_two unit_two] unit_mult by (simp_all add: power4_eq_xxxx)
  show ?thesis
    unfolding discrete_log_def
  proof (intro conjI ballI)
    show "ed_neutral \<in> quarters" "quarter_log ed_neutral = 0" unfolding n by (simp_all add: q)
  next
    fix P assume "P \<in> quarters"
    then obtain z k where P: "P = quarter z k" "z dvd 1" by (auto simp: quarters_def)
    show "ed_double P \<in> quarters" "quarter_log (ed_double P) = 2 * quarter_log P" "ed_neg P \<in> quarters"
      "quarter_log (ed_neg P) = - quarter_log P" "ed_scale 2 P \<in> quarters" "quarter_log (ed_scale 2 P) = quarter_log P"
      unfolding P(1) quarter_double quarter_neg quarter_scale using P(2) by (simp_all add: q u unit_mult unit_two)
    fix Q assume "Q \<in> quarters"
    then obtain w j where Q: "Q = quarter w j" "w dvd 1" by (auto simp: quarters_def)
    show "ed_add P Q \<in> quarters" "quarter_log (ed_add P Q) = quarter_log P + quarter_log Q"
      unfolding P(1) Q(1) quarter_add using P(2) Q(2) by (simp_all add: q u unit_mult)
  qed
qed


section \<open>Properties\<close>

text \<open>C14: the double scalar multiplication of signature verification. For a point with reduced limbs and reduced scalars
  the loop over sliding windows computes, with the skipped leading zeros, the partial additions in completed and Niels coordinates
  and the table of odd multiples, the evaluation of the two signed-digit expansions over the points of the curve; and for every
  discrete logarithm for which the table of the base point holds its odd multiples, the result has the logarithm
  \<open>s1 log P + s2 log B\<close>. The limbs of the result stay within their bounds.\<close>

theorem double_scalarmult_correct:
  assumes "ge_rep p P" "modm_ok s1" "modm_ok s2" "sliding_points B"
  shows "partial_rep (ge25519_double_scalarmult_vartime p s1 s2)
      (ed_double_scalarmult (ed_odd_multiple P) B (contract256_slidingwindow_modm s1 5) (contract256_slidingwindow_modm s2 7))
    \<and> (discrete_log S l \<and> P \<in> S \<and> (\<forall>k < 32. B k \<in> S \<and> l (B k) = of_int (2 * int k + 1) * g) \<longrightarrow>
       l (ed_double_scalarmult (ed_odd_multiple P) B (contract256_slidingwindow_modm s1 5) (contract256_slidingwindow_modm s2 7))
         = of_nat (mval s1) * l P + of_nat (mval s2) * (g :: 'a :: comm_ring_1))"
proof -
  have s: "carried (2 ^ 32 - 1) s \<and> mval s \<le> 2 ^ 253" if "modm_ok s" for s
    using that by (simp add: modm_ok_def group_order_def)
  have *: "length (contract256_slidingwindow_modm s1 5) = 256" "length (contract256_slidingwindow_modm s2 7) = 256"
      "dval 2 (contract256_slidingwindow_modm s1 5) = int (mval s1)" "dval 2 (contract256_slidingwindow_modm s2 7) = int (mval s2)"
      "i < 256 \<Longrightarrow> digit_ok 15 (contract256_slidingwindow_modm s1 5 ! i) \<and> digit_ok 63 (contract256_slidingwindow_modm s2 7 ! i)" for i
    using contract256_slidingwindow_correct [of s1 5] contract256_slidingwindow_correct [of s2 7] s assms(2,3) by simp_all
  have "l (ed_double_scalarmult (ed_odd_multiple P) B (contract256_slidingwindow_modm s1 5) (contract256_slidingwindow_modm s2 7))
         = of_nat (mval s1) * l P + of_nat (mval s2) * g"
    if "discrete_log S l" "P \<in> S" "\<forall>k < 32. B k \<in> S \<and> l (B k) = of_int (2 * int k + 1) * g"
    using double_scalarmult_log [OF that(1,2), of "contract256_slidingwindow_modm s1 5" "contract256_slidingwindow_modm s2 7" B g] * that(3) by simp
  then show ?thesis using double_scalarmult_rep [OF assms(1,4,2,3)] by blast
qed

theorem double_scalarmult_correct_witness:
  "\<exists>B. sliding_points B \<and> partial_rep (ge25519_double_scalarmult_vartime ge25519_set_neutral [3, 0, 0, 0, 0] [5, 0, 0, 0, 0])
     (ed_double_scalarmult (ed_odd_multiple ed_neutral) B (contract256_slidingwindow_modm [3, 0, 0, 0, 0] 5) (contract256_slidingwindow_modm [5, 0, 0, 0, 0] 7))"
proof -
  obtain B where "sliding_points B" using sliding_points_exist ..
  moreover have "modm_ok [3, 0, 0, 0, 0]" "modm_ok [5, 0, 0, 0, 0]" by (simp_all add: modm_ok_def group_order_def)
  ultimately show ?thesis using double_scalarmult_correct [OF set_neutral_rep, of "[3, 0, 0, 0, 0]" "[5, 0, 0, 0, 0]" B] by blast
qed

text \<open>C15: the multiplication of the base point. For every table of 32 times 8 packed points (the first eight rows without the factor
  \<open>d\<close>) and every scalar below \<open>2 ^ 255\<close> the result has reduced limbs and is the evaluation of the radix-16 digits, the ones at odd
  positions first and multiplied by 16; for every discrete logarithm for which row \<open>8 i + j\<close> holds \<open>(j + 1) 256 ^ i\<close> times the
  base point its logarithm is that of the base point times the scalar. The row is selected by the absolute value of the digit
  and negated by its sign.\<close>

theorem scalarmult_base_correct:
  assumes "base_points table T" "carried (2 ^ 32 - 1) s" "mval s < 2 ^ 255"
    "discrete_log S l" "\<forall>pos < 32. \<forall>k < 8. T pos k \<in> S \<and> l (T pos k) = of_nat (k + 1) * (256 ^ pos * g)"
  shows "ge_rep (ge25519_scalarmult_base_niels table s) (ed_base_mult T (contract256_window4_modm s))
    \<and> l (ed_base_mult T (contract256_window4_modm s)) = of_nat (mval s) * g"
  using base_mult_rep [OF assms(1-3)] base_mult_log [OF assms(4) _ _ assms(5), of "contract256_window4_modm s"]
    contract256_window4_correct [OF assms(2,3)] by simp

text \<open>The table for the point \<open>(i, 0)\<close> of order four.\<close>

fun packed_row :: "fp4 \<Rightarrow> byte list" where
  "packed_row (X, Y, Z, T) = le_bytes 32 (fp_nat (Y - X)) @ le_bytes 32 (fp_nat (Y + X)) @ replicate 32 0"

definition quarter_table :: "byte list list" where
  "quarter_table = map (\<lambda>n. packed_row (quarter 1 (of_nat (n mod 8 + 1) * 256 ^ (n div 8)))) [0..<256]"

lemma enc_y_le_bytes: "enc_y (le_bytes 32 (fp_nat x)) = x"
proof -
  have "fp_nat x < 2 ^ 255" using fp_nat_less [of x] by (simp add: p25519_def)
  then show ?thesis unfolding enc_y_def le_nat_le_bytes by simp
qed

lemma quarter_base_points: "base_points quarter_table (\<lambda>pos k. quarter 1 (of_nat (k + 1) * 256 ^ pos))"
proof -
  have "packed_form c (packed_row (quarter 1 j)) (quarter 1 j)" for c j
    using enc_y_le_bytes by (auto simp: packed_form_def quarter_def enc_y_def [of "replicate 32 0"] simp del: le_bytes.simps)
  then show ?thesis by (simp add: base_points_def quarter_table_def)
qed

theorem scalarmult_base_correct_witness:
  "ge_rep (ge25519_scalarmult_base_niels quarter_table [7, 0, 0, 0, 0])
     (ed_base_mult (\<lambda>pos k. quarter 1 (of_nat (k + 1) * 256 ^ pos)) (contract256_window4_modm [7, 0, 0, 0, 0]))
   \<and> quarter_log (ed_base_mult (\<lambda>pos k. quarter 1 (of_nat (k + 1) * 256 ^ pos)) (contract256_window4_modm [7, 0, 0, 0, 0])) = 3"
proof -
  have "quarter 1 j \<in> quarters \<and> quarter_log (quarter 1 j) = j" for j using log_quarter [of 1 j] by (auto simp: quarters_def)
  then show ?thesis
    using scalarmult_base_correct [OF quarter_base_points _ _ quarter_discrete_log, of "[7, 0, 0, 0, 0]" 1] by simp
qed

end
