(* ===== verification/Sha2.thy ===== *)
theory Sha2
  imports Streaming
begin

unbundle bit_operations_syntax

text \<open>
  The macros that \<^verbatim>\<open>hash_sha256_cp.c\<close> and \<^verbatim>\<open>hash_sha512_cp.c\<close> share textually, over words
  of any width: the boolean functions, one round on the eight working registers held in a
  rotating array, and one step of the message schedule. The two files instantiate them with
  their rotation amounts, constants and round counts. The second part states the round
  function the way FIPS 180-4 does and shows that the rotating-array code computes it.

  \<open>W\<close> is the initialised prefix of the schedule array: each \<^verbatim>\<open>MSCH\<close> writes the next cell,
  so the assignment is an append (\<open>length_schedule\<close> shows that the index is the length).
\<close>

definition Ch :: "'a::len word \<Rightarrow> 'a word \<Rightarrow> 'a word \<Rightarrow> 'a word" where
  "Ch x y z = (x AND (y XOR z)) XOR z"

definition Maj :: "'a::len word \<Rightarrow> 'a word \<Rightarrow> 'a word \<Rightarrow> 'a word" where
  "Maj x y z = (x AND (y OR z)) OR (y AND z)"

text \<open>\<^verbatim>\<open>RND\<close> on the registers named by their array positions.\<close>

definition RND ::
  "('a::len word \<Rightarrow> 'a word) \<Rightarrow> ('a word \<Rightarrow> 'a word) \<Rightarrow> 'a word list
    \<Rightarrow> nat \<Rightarrow> nat \<Rightarrow> nat \<Rightarrow> nat \<Rightarrow> nat \<Rightarrow> nat \<Rightarrow> nat \<Rightarrow> nat \<Rightarrow> 'a word \<Rightarrow> 'a word list" where
  "RND S0 S1 S a b c d e f g h k =
    (let X1 = S[h := S ! h + (S1 (S ! e) + Ch (S ! e) (S ! f) (S ! g) + k)];
         X2 = X1[d := X1 ! d + X1 ! h]
     in X2[h := X2 ! h + (S0 (X2 ! a) + Maj (X2 ! a) (X2 ! b) (X2 ! c))])"

definition RNDr ::
  "nat \<Rightarrow> ('a::len word \<Rightarrow> 'a word) \<Rightarrow> ('a word \<Rightarrow> 'a word) \<Rightarrow> 'a word list
    \<Rightarrow> 'a word list \<Rightarrow> 'a word list \<Rightarrow> nat \<Rightarrow> nat \<Rightarrow> 'a word list" where
  "RNDr N S0 S1 Krnd S W i ii =
     RND S0 S1 S ((N - i) mod 8) ((N + 1 - i) mod 8) ((N + 2 - i) mod 8) ((N + 3 - i) mod 8)
       ((N + 4 - i) mod 8) ((N + 5 - i) mod 8) ((N + 6 - i) mod 8) ((N + 7 - i) mod 8)
       (W ! (i + ii) + Krnd ! (i + ii))"

definition MSCH ::
  "('a::len word \<Rightarrow> 'a word) \<Rightarrow> ('a word \<Rightarrow> 'a word) \<Rightarrow> 'a word list \<Rightarrow> nat \<Rightarrow> nat \<Rightarrow> 'a word list" where
  "MSCH s0 s1 W ii i = W @ [s1 (W ! (i + ii + 14)) + W ! (i + ii + 9) + s0 (W ! (i + ii + 1)) + W ! (i + ii)]"

text \<open>The body of the outer loop at \<^verbatim>\<open>i\<close>: sixteen rounds, then sixteen schedule steps unless
  it is the last pass.\<close>

definition sha2_pass ::
  "nat \<Rightarrow> ('a::len word \<Rightarrow> 'a word) \<Rightarrow> ('a word \<Rightarrow> 'a word) \<Rightarrow> ('a word \<Rightarrow> 'a word) \<Rightarrow> ('a word \<Rightarrow> 'a word)
    \<Rightarrow> 'a word list \<Rightarrow> 'a word list \<times> 'a word list \<Rightarrow> nat \<Rightarrow> 'a word list \<times> 'a word list" where
  "sha2_pass N S0 S1 s0 s1 Krnd = (\<lambda>(S, W) i.
    (let S' = foldl (\<lambda>S j. RNDr N S0 S1 Krnd S W j i) S [0..<16]
     in if i = N - 16 then (S', W) else (S', foldl (\<lambda>W j. MSCH s0 s1 W j i) W [0..<16])))"

section \<open>The FIPS 180-4 round function\<close>

definition fips_Ch :: "'a::len word \<Rightarrow> 'a word \<Rightarrow> 'a word \<Rightarrow> 'a word" where
  "fips_Ch x y z = (x AND y) XOR (NOT x AND z)"

definition fips_Maj :: "'a::len word \<Rightarrow> 'a word \<Rightarrow> 'a word \<Rightarrow> 'a word" where
  "fips_Maj x y z = (x AND y) XOR (x AND z) XOR (y AND z)"

fun fips_W :: "('a::len word \<Rightarrow> 'a word) \<Rightarrow> ('a word \<Rightarrow> 'a word) \<Rightarrow> 'a word list \<Rightarrow> nat \<Rightarrow> 'a word" where
  "fips_W s0 s1 M t =
     (if t < 16 then M ! t
      else s1 (fips_W s0 s1 M (t - 2)) + fips_W s0 s1 M (t - 7)
         + s0 (fips_W s0 s1 M (t - 15)) + fips_W s0 s1 M (t - 16))"

declare fips_W.simps [simp del]

fun fips_round ::
  "('a::len word \<Rightarrow> 'a word) \<Rightarrow> ('a word \<Rightarrow> 'a word) \<Rightarrow> 'a word list \<Rightarrow> 'a word \<Rightarrow> 'a word list" where
  "fips_round S0 S1 [a, b, c, d, e, f, g, h] kw =
     (let T1 = h + S1 e + fips_Ch e f g + kw; T2 = S0 a + fips_Maj a b c
      in [T1 + T2, a, b, c, d + T1, e, f, g])"
| "fips_round S0 S1 v kw = v"

definition fips_compress ::
  "nat \<Rightarrow> ('a::len word \<Rightarrow> 'a word) \<Rightarrow> ('a word \<Rightarrow> 'a word) \<Rightarrow> ('a word \<Rightarrow> 'a word) \<Rightarrow> ('a word \<Rightarrow> 'a word)
    \<Rightarrow> 'a word list \<Rightarrow> 'a word list \<Rightarrow> 'a word list \<Rightarrow> 'a word list" where
  "fips_compress N S0 S1 s0 s1 K H M =
     map2 (+) H (foldl (\<lambda>v t. fips_round S0 S1 v (fips_W s0 s1 M t + K ! t)) H [0..<N])"

section \<open>Equivalence\<close>

lemma Ch_fips: "Ch x y z = fips_Ch x y z"
  by (rule bit_word_eqI) (auto simp: Ch_def fips_Ch_def bit_simps)

lemma Maj_fips: "Maj x y z = fips_Maj x y z"
  by (rule bit_word_eqI) (auto simp: Maj_def fips_Maj_def bit_simps)

text \<open>The registers \<open>a, ..., h\<close> before round \<open>i\<close> of a pass, read off the rotating array.\<close>

definition regs :: "nat \<Rightarrow> nat \<Rightarrow> 'a list \<Rightarrow> 'a list" where
  "regs N i S = [S ! ((N - i) mod 8), S ! ((N + 1 - i) mod 8), S ! ((N + 2 - i) mod 8), S ! ((N + 3 - i) mod 8),
     S ! ((N + 4 - i) mod 8), S ! ((N + 5 - i) mod 8), S ! ((N + 6 - i) mod 8), S ! ((N + 7 - i) mod 8)]"

lemma length_8_obtain:
  assumes "length S = 8"
  obtains a b c d e f g h where "S = [a, b, c, d, e, f, g, h]"
proof
  show "S = [S ! 0, S ! 1, S ! 2, S ! 3, S ! 4, S ! 5, S ! 6, S ! 7]"
    using assms by (intro nth_equalityI) (auto simp: less_Suc_eq numeral_eq_Suc)
qed

lemma length_RNDr [simp]: "length (RNDr N S0 S1 K S W i ii) = length S"
  by (simp add: RNDr_def RND_def Let_def)

lemma regs_RNDr:
  assumes "N \<in> {64, 80}" "length S = 8" "j < 16"
  shows "regs N (Suc j) (RNDr N S0 S1 K S W j ii) = fips_round S0 S1 (regs N j S) (W ! (j + ii) + K ! (j + ii))"
proof -
  obtain a b c d e f g h where S: "S = [a, b, c, d, e, f, g, h]"
    using length_8_obtain [OF assms(2)] by blast
  define kw where "kw = W ! (j + ii) + K ! (j + ii)"
  have "N = 64 \<or> N = 80" using assms by simp
  moreover have "j = 0 \<or> j = 1 \<or> j = 2 \<or> j = 3 \<or> j = 4 \<or> j = 5 \<or> j = 6 \<or> j = 7 \<or> j = 8 \<or> j = 9 \<or>
      j = 10 \<or> j = 11 \<or> j = 12 \<or> j = 13 \<or> j = 14 \<or> j = 15"
    using assms(3) by presburger
  ultimately show ?thesis
    unfolding RNDr_def RND_def S Let_def kw_def [symmetric]
    by (elim disjE; simp add: regs_def Let_def Ch_fips Maj_fips algebra_simps)
qed


lemma regs_id: "N \<in> {64, 80} \<Longrightarrow> i \<in> {0, 16} \<Longrightarrow> length S = 8 \<Longrightarrow> regs N i S = S"
  by (elim length_8_obtain; elim insertE; simp add: regs_def)

lemma length_fips_round [simp]: "length (fips_round S0 S1 v kw) = length v"
  by (cases "(S0, S1, v, kw)" rule: fips_round.cases) (auto simp: Let_def)

lemma length_foldl_RNDr [simp]:
  "length (foldl (\<lambda>S j. RNDr N S0 S1 K S W j ii) S js) = length S"
  by (induction js arbitrary: S) simp_all

lemma rounds_fips:
  assumes "N \<in> {64, 80}" "length S = 8"
  shows "foldl (\<lambda>S j. RNDr N S0 S1 K S W j ii) S [0..<16]
           = foldl (\<lambda>v t. fips_round S0 S1 v (W ! t + K ! t)) S [ii..<ii + 16]"
proof -
  have "regs N n (foldl (\<lambda>S j. RNDr N S0 S1 K S W j ii) S [0..<n])
      = foldl (\<lambda>v t. fips_round S0 S1 v (W ! t + K ! t)) S [ii..<ii + n]" if "n \<le> 16" for n
    using that
  proof (induction n)
    case 0
    show ?case using assms by (simp add: regs_id)
  next
    case (Suc n)
    then show ?case using assms by (simp add: regs_RNDr add.commute [of ii n])
  qed
  from this [of 16] show ?thesis using assms by (simp add: regs_id del: upt.simps)
qed

lemma MSCH_fips:
  assumes "W = map (fips_W s0 s1 M) [0..<i + ii + 16]"
  shows "MSCH s0 s1 W ii i = map (fips_W s0 s1 M) [0..<i + ii + 17]"
proof -
  have "fips_W s0 s1 M (i + ii + 16) = s1 (W ! (i + ii + 14)) + W ! (i + ii + 9) + s0 (W ! (i + ii + 1)) + W ! (i + ii)"
    unfolding assms by (simp add: fips_W.simps [of s0 s1 M "i + ii + 16"] add.commute)
  moreover have "i + ii + 17 = Suc (i + ii + 16)" by simp
  then have "[0..<i + ii + 17] = [0..<i + ii + 16] @ [i + ii + 16]"
    by (simp only: upt_Suc_append [OF zero_le])
  ultimately show ?thesis
    unfolding MSCH_def by (simp add: assms)
qed

lemma schedule_fips:
  assumes "W = map (fips_W s0 s1 M) [0..<i + 16]"
  shows "foldl (\<lambda>W j. MSCH s0 s1 W j i) W [0..<n] = map (fips_W s0 s1 M) [0..<i + n + 16]"
proof (induction n)
  case 0
  then show ?case using assms by simp
next
  case (Suc n)
  have "foldl (\<lambda>W j. MSCH s0 s1 W j i) W [0..<Suc n] = MSCH s0 s1 (map (fips_W s0 s1 M) [0..<i + n + 16]) n i"
    using Suc.IH by simp
  then show ?case using MSCH_fips [OF refl, of s0 s1 M i n] by (simp add: add.commute add.left_commute)
qed

lemma length_schedule: "length (foldl (\<lambda>W j. MSCH s0 s1 W j i) W [0..<n]) = length W + n"
  by (induction n) (simp_all add: MSCH_def)

lemma foldl_fips_cong:
  assumes "\<And>t. t \<in> set ts \<Longrightarrow> W ! t = f t"
  shows "foldl (\<lambda>v t. fips_round S0 S1 v (W ! t + K ! t)) S ts = foldl (\<lambda>v t. fips_round S0 S1 v (f t + K ! t)) S ts"
  using assms by (intro foldl_cong) simp_all

lemma length_foldl_fips [simp]: "length (foldl (\<lambda>v t. fips_round S0 S1 v (g t)) v ts) = length v"
  by (induction ts arbitrary: v) simp_all

lemma pass_rounds:
  assumes "N \<in> {64, 80}" "length H = 8" "W = map (fips_W s0 s1 M) [0..<16 * k + 16]"
  shows "foldl (\<lambda>S j. RNDr N S0 S1 K S W j (16 * k)) (foldl (\<lambda>v t. fips_round S0 S1 v (fips_W s0 s1 M t + K ! t)) H [0..<16 * k]) [0..<16]
      = foldl (\<lambda>v t. fips_round S0 S1 v (fips_W s0 s1 M t + K ! t)) H [0..<16 * k + 16]"
proof -
  have W: "W ! t = fips_W s0 s1 M t" if "t \<in> set [16 * k..<16 * k + 16]" for t
    using that assms(3) by simp
  have "[0..<16 * k + 16] = [0..<16 * k] @ [16 * k..<16 * k + 16]"
    by (rule upt_add_eq_append) simp
  then show ?thesis
    using assms(1,2) by (simp add: rounds_fips del: upt.simps) (rule foldl_fips_cong, rule W)
qed

lemma sha2_pass_eq:
  "sha2_pass N S0 S1 s0 s1 K (S, W) i = (foldl (\<lambda>S j. RNDr N S0 S1 K S W j i) S [0..<16],
     if i = N - 16 then W else foldl (\<lambda>W j. MSCH s0 s1 W j i) W [0..<16])"
  by (simp add: sha2_pass_def Let_def)

lemma passes_fips:
  assumes "N \<in> {64, 80}" "length H = 8" "length M = 16" "16 * k < N"
  shows "foldl (sha2_pass N S0 S1 s0 s1 K) (H, M) (map ((*) 16) [0..<k])
      = (foldl (\<lambda>v t. fips_round S0 S1 v (fips_W s0 s1 M t + K ! t)) H [0..<16 * k], map (fips_W s0 s1 M) [0..<16 * k + 16])"
  using assms(4)
proof (induction k)
  case 0
  have "M = map (fips_W s0 s1 M) [0..<16]"
    using assms(3) by (intro nth_equalityI) (simp_all add: fips_W.simps)
  then show ?case by simp
next
  case (Suc k)
  then have k: "16 * k < N" "16 * k \<noteq> N - 16" by auto
  have n: "16 * Suc k = 16 * k + 16" by simp
  have l: "map ((*) 16) [0..<Suc k] = map ((*) 16) [0..<k] @ [16 * k]" by simp
  show ?case
    unfolding l foldl_append foldl_Cons foldl_Nil Suc.IH [OF k(1)] sha2_pass_eq pass_rounds [OF assms(1,2) refl]
      schedule_fips [OF refl] n using k(2) by simp
qed

text \<open>The outer loop over all passes computes the FIPS compression before the final addition.\<close>

lemma sha2_transform_fips:
  assumes "N \<in> {64, 80}" "length H = 8" "length M = 16"
  shows "map2 (+) H (fst (foldl (sha2_pass N S0 S1 s0 s1 K) (H, M) (map ((*) 16) [0..<N div 16])))
      = fips_compress N S0 S1 s0 s1 K H M"
proof -
  obtain k where k: "N div 16 = Suc k" "16 * k < N" "16 * k = N - 16" "16 * k + 16 = N"
    using assms(1) by (cases "N div 16") auto
  have l: "map ((*) 16) [0..<Suc k] = map ((*) 16) [0..<k] @ [16 * k]" by simp
  show ?thesis
    unfolding fips_compress_def k(1) l foldl_append foldl_Cons foldl_Nil
      passes_fips [OF assms k(2)] sha2_pass_eq k(4)
      pass_rounds [OF assms(1,2) refl, where k = k, unfolded k(4)] by simp
qed

end
