(* ===== verification/Sha512.thy ===== *)
theory Sha512
  imports Sha2
begin

unbundle bit_operations_syntax

text \<open>
  \<^verbatim>\<open>crypto_hash/sha512/cp/hash_sha512_cp.c\<close>: the SHA-512 context and its operations, with
  the 128-bit bit counter in two words (\<^verbatim>\<open>count[0]\<close> the high one). The length of an input
  chunk is an \<^verbatim>\<open>unsigned long long\<close>: the theorems assume chunks below \<open>2 ^ 64\<close> bytes.
\<close>

record crypto_hash_sha512_state =
  sha512_state :: "u64 list"
  sha512_count :: "u64 list"
  sha512_buf :: "byte list"

definition be64enc_vect :: "u64 list \<Rightarrow> nat \<Rightarrow> byte list" where
  "be64enc_vect src len = concat (map (\<lambda>i. store64_be (src ! i)) [0..<len div 8])"

definition be64dec_vect :: "byte list \<Rightarrow> nat \<Rightarrow> u64 list" where
  "be64dec_vect src len = map (\<lambda>i. load64_be (drop (i * 8) src)) [0..<len div 8]"

definition Krnd_512 :: "u64 list" where
  "Krnd_512 = [
    0x428a2f98d728ae22, 0x7137449123ef65cd, 0xb5c0fbcfec4d3b2f, 0xe9b5dba58189dbbc,
    0x3956c25bf348b538, 0x59f111f1b605d019, 0x923f82a4af194f9b, 0xab1c5ed5da6d8118,
    0xd807aa98a3030242, 0x12835b0145706fbe, 0x243185be4ee4b28c, 0x550c7dc3d5ffb4e2,
    0x72be5d74f27b896f, 0x80deb1fe3b1696b1, 0x9bdc06a725c71235, 0xc19bf174cf692694,
    0xe49b69c19ef14ad2, 0xefbe4786384f25e3, 0x0fc19dc68b8cd5b5, 0x240ca1cc77ac9c65,
    0x2de92c6f592b0275, 0x4a7484aa6ea6e483, 0x5cb0a9dcbd41fbd4, 0x76f988da831153b5,
    0x983e5152ee66dfab, 0xa831c66d2db43210, 0xb00327c898fb213f, 0xbf597fc7beef0ee4,
    0xc6e00bf33da88fc2, 0xd5a79147930aa725, 0x06ca6351e003826f, 0x142929670a0e6e70,
    0x27b70a8546d22ffc, 0x2e1b21385c26c926, 0x4d2c6dfc5ac42aed, 0x53380d139d95b3df,
    0x650a73548baf63de, 0x766a0abb3c77b2a8, 0x81c2c92e47edaee6, 0x92722c851482353b,
    0xa2bfe8a14cf10364, 0xa81a664bbc423001, 0xc24b8b70d0f89791, 0xc76c51a30654be30,
    0xd192e819d6ef5218, 0xd69906245565a910, 0xf40e35855771202a, 0x106aa07032bbd1b8,
    0x19a4c116b8d2d0c8, 0x1e376c085141ab53, 0x2748774cdf8eeb99, 0x34b0bcb5e19b48a8,
    0x391c0cb3c5c95a63, 0x4ed8aa4ae3418acb, 0x5b9cca4f7763e373, 0x682e6ff3d6b2b8a3,
    0x748f82ee5defb2fc, 0x78a5636f43172f60, 0x84c87814a1f0ab72, 0x8cc702081a6439ec,
    0x90befffa23631e28, 0xa4506cebde82bde9, 0xbef9a3f7b2c67915, 0xc67178f2e372532b,
    0xca273eceea26619c, 0xd186b8c721c0c207, 0xeada7dd6cde0eb1e, 0xf57d4f7fee6ed178,
    0x06f067aa72176fba, 0x0a637dc5a2c898a6, 0x113f9804bef90dae, 0x1b710b35131c471b,
    0x28db77f523047d84, 0x32caab7b40c72493, 0x3c9ebe0a15c9bebc, 0x431d67c49c100d4c,
    0x4cc5d4becb3e42b6, 0x597f299cfc657e2a, 0x5fcb6fab3ad6faec, 0x6c44198c4a475817]"

definition S0_512 :: "u64 \<Rightarrow> u64" where "S0_512 x = rotr64 x 28 XOR rotr64 x 34 XOR rotr64 x 39"
definition S1_512 :: "u64 \<Rightarrow> u64" where "S1_512 x = rotr64 x 14 XOR rotr64 x 18 XOR rotr64 x 41"
definition s0_512 :: "u64 \<Rightarrow> u64" where "s0_512 x = rotr64 x 1 XOR rotr64 x 8 XOR drop_bit 7 x"
definition s1_512 :: "u64 \<Rightarrow> u64" where "s1_512 x = rotr64 x 19 XOR rotr64 x 61 XOR drop_bit 6 x"

definition SHA512_Transform :: "u64 list \<Rightarrow> byte list \<Rightarrow> u64 list" where
  "SHA512_Transform state blk =
    (let W = be64dec_vect blk 128;
         (S, W') = foldl (sha2_pass 80 S0_512 S1_512 s0_512 s1_512 Krnd_512) (state, W) [0, 16, 32, 48, 64]
     in map2 (+) state S)"

definition PAD_512 :: "byte list" where
  "PAD_512 = 0x80 # replicate 127 0"

definition SHA512_Pad :: "crypto_hash_sha512_state \<Rightarrow> crypto_hash_sha512_state" where
  "SHA512_Pad st =
    (let r = unat (drop_bit 3 (sha512_count st ! 1) AND 0x7f);
         st1 = (if r < 112 then st\<lparr>sha512_buf := write_at (sha512_buf st) r (take (112 - r) PAD_512)\<rparr>
                else let buf = write_at (sha512_buf st) r (take (128 - r) PAD_512)
                     in st\<lparr>sha512_state := SHA512_Transform (sha512_state st) buf,
                           sha512_buf := write_at buf 0 (replicate 112 0)\<rparr>);
         buf2 = write_at (sha512_buf st1) 112 (be64enc_vect (sha512_count st1) 16)
     in st1\<lparr>sha512_buf := buf2, sha512_state := SHA512_Transform (sha512_state st1) buf2\<rparr>)"

definition crypto_hash_sha512_init :: "crypto_hash_sha512_state \<Rightarrow> crypto_hash_sha512_state" where
  "crypto_hash_sha512_init st = st\<lparr>sha512_count := [0, 0],
     sha512_state := [0x6a09e667f3bcc908, 0xbb67ae8584caa73b, 0x3c6ef372fe94f82b, 0xa54ff53a5f1d36f1,
     0x510e527fade682d1, 0x9b05688c2b3e6c1f, 0x1f83d9abfb41bd6b, 0x5be0cd19137e2179]\<rparr>"

text \<open>The \<^verbatim>\<open>while (inlen >= 128)\<close> loop: chaining value and remaining input.\<close>

function sha512_update_loop :: "u64 list \<Rightarrow> byte list \<Rightarrow> u64 list \<times> byte list" where
  "sha512_update_loop state inp =
     (if length inp \<ge> 128 then sha512_update_loop (SHA512_Transform state (take 128 inp)) (drop 128 inp)
      else (state, inp))"
  by pat_completeness auto
termination
  by (relation "measure (\<lambda>(s, i). length i)") auto

declare sha512_update_loop.simps [simp del]

text \<open>The two-word counter update, with the carry out of the low word.\<close>

definition sha512_add_count :: "u64 list \<Rightarrow> u64 \<Rightarrow> u64 list" where
  "sha512_add_count count inlen =
    (let bitlen1 = push_bit 3 inlen; bitlen0 = drop_bit 61 inlen;
         c1 = count ! 1 + bitlen1;
         c0 = (if c1 < bitlen1 then count ! 0 + 1 else count ! 0)
     in [c0 + bitlen0, c1])"

definition crypto_hash_sha512_update ::
  "crypto_hash_sha512_state \<Rightarrow> byte list \<Rightarrow> crypto_hash_sha512_state" where
  "crypto_hash_sha512_update st inp =
    (if length inp \<le> 0 then st
     else let r = unat (drop_bit 3 (sha512_count st ! 1) AND 0x7f);
              st1 = st\<lparr>sha512_count := sha512_add_count (sha512_count st) (of_nat (length inp))\<rparr>
          in if length inp < 128 - r then st1\<lparr>sha512_buf := write_at (sha512_buf st1) r inp\<rparr>
             else let buf = write_at (sha512_buf st1) r (take (128 - r) inp);
                      (state, rest) = sha512_update_loop (SHA512_Transform (sha512_state st1) buf) (drop (128 - r) inp)
                  in st1\<lparr>sha512_state := state,
                         sha512_buf := write_at buf 0 (take (length rest mod 128) rest)\<rparr>)"

definition crypto_hash_sha512_final ::
  "crypto_hash_sha512_state \<Rightarrow> crypto_hash_sha512_state \<times> byte list" where
  "crypto_hash_sha512_final st =
    (let st1 = SHA512_Pad st; out = be64enc_vect (sha512_state st1) 64
     in (\<lparr>sha512_state = replicate 8 0, sha512_count = [0, 0], sha512_buf = replicate 128 0\<rparr>, out))"

definition crypto_hash_sha512 :: "crypto_hash_sha512_state \<Rightarrow> byte list \<Rightarrow> byte list" where
  "crypto_hash_sha512 st inp =
     snd (crypto_hash_sha512_final (crypto_hash_sha512_update (crypto_hash_sha512_init st) inp))"

section \<open>Specification and correctness\<close>

definition sha512_compress :: "u64 list \<Rightarrow> byte list \<Rightarrow> u64 list" where
  "sha512_compress H blk =
     fips_compress 80 S0_512 S1_512 s0_512 s1_512 Krnd_512 H (map (\<lambda>t. load64_be (drop (8 * t) blk)) [0..<16])"

abbreviation sha512_iv :: "u64 list" where
  "sha512_iv \<equiv> [0x6a09e667f3bcc908, 0xbb67ae8584caa73b, 0x3c6ef372fe94f82b, 0xa54ff53a5f1d36f1,
     0x510e527fade682d1, 0x9b05688c2b3e6c1f, 0x1f83d9abfb41bd6b, 0x5be0cd19137e2179]"

text \<open>The 128-bit big-endian encoding of a bit length.\<close>

definition sha512_length_enc :: "nat \<Rightarrow> byte list" where
  "sha512_length_enc n = store64_be (of_nat (8 * n div 2 ^ 64)) @ store64_be (of_nat (8 * n))"

definition sha512_spec :: "byte list \<Rightarrow> byte list" where
  "sha512_spec m = concat (map store64_be
     (blocks_fold 128 sha512_compress sha512_iv (m @ md_pad 128 16 (length m) (sha512_length_enc (length m)))))"

lemma SHA512_Transform_fips:
  assumes "length state = 8"
  shows "SHA512_Transform state blk = sha512_compress state blk"
proof -
  have W: "be64dec_vect blk 128 = map (\<lambda>t. load64_be (drop (8 * t) blk)) [0..<16]"
    by (simp add: be64dec_vect_def mult.commute)
  have l: "[0, 16, 32, 48, 64] = map ((*) 16) [0..<80 div (16 :: nat)]"
    by (simp add: upt_rec)
  show ?thesis
    unfolding SHA512_Transform_def sha512_compress_def Let_def W l
    using sha2_transform_fips [of 80 state, OF _ assms] by (simp add: case_prod_beta del: upt.simps)
qed

lemma length_sha512_compress [simp]: "length (sha512_compress H blk) = length H"
  by (simp add: sha512_compress_def fips_compress_def)

lemma length_fold_sha512 [simp]: "length (blocks_fold 128 sha512_compress H m) = length H"
  by (induction "128 :: nat" sha512_compress H m rule: blocks_fold.induct) (simp add: blocks_fold.simps)

lemma sha512_update_loop_fold:
  "length state = 8 \<Longrightarrow> sha512_update_loop state inp = (blocks_fold 128 sha512_compress state inp, tail_bytes 128 inp)"
proof (induction state inp rule: sha512_update_loop.induct)
  case (1 state inp)
  show ?case
  proof (cases "length inp \<ge> 128")
    case True
    have t: "tail_bytes 128 inp = tail_bytes 128 (drop 128 inp)"
      using True tail_bytes_block [of "take 128 inp" 128 "drop 128 inp"] by simp
    show ?thesis
      using True 1 by (simp add: sha512_update_loop.simps [of state inp] blocks_fold.simps [of 128 _ state inp]
          SHA512_Transform_fips t)
  qed (simp add: sha512_update_loop.simps [of state inp])
qed

lemma sha512_add_count_nat:
  assumes "k < 2 ^ 64"
  shows "sha512_add_count [of_nat (8 * n div 2 ^ 64), of_nat (8 * n)] (of_nat k)
           = [of_nat (8 * (n + k) div 2 ^ 64), of_nat (8 * (n + k))]"
proof -
  let ?a = "8 * n mod 2 ^ 64" and ?b = "8 * k mod 2 ^ 64"
  have c1: "of_nat (8 * n) + push_bit 3 (of_nat k) = (of_nat (8 * (n + k)) :: u64)"
    by (simp add: push_bit3 algebra_simps)
  have lt: "(of_nat (8 * (n + k)) < (push_bit 3 (of_nat k) :: u64)) \<longleftrightarrow> 2 ^ 64 \<le> ?a + ?b"
  proof -
    have p: "push_bit 3 (of_nat k :: u64) = of_nat (8 * k)" by (simp add: push_bit3)
    have s: "8 * (n + k) mod 2 ^ 64 = (?a + ?b) mod 2 ^ 64" by (simp add: mod_add_eq algebra_simps)
    have "(of_nat (8 * (n + k)) < (push_bit 3 (of_nat k) :: u64)) \<longleftrightarrow> (?a + ?b) mod 2 ^ 64 < ?b"
      unfolding p s [symmetric] by (simp add: word_less_nat_alt unsigned_of_nat take_bit_eq_mod del: of_nat_mult of_nat_add)
    also have "\<dots> \<longleftrightarrow> 2 ^ 64 \<le> ?a + ?b"
    proof (cases "2 ^ 64 \<le> ?a + ?b")
      case True
      then have "(?a + ?b) mod 2 ^ 64 = ?a + ?b - 2 ^ 64"
        by (simp add: mod_if [of "?a + ?b"] le_mod_geq)
      moreover have "?a < 2 ^ 64" by simp
      ultimately show ?thesis using True by linarith
    qed simp
    finally show ?thesis .
  qed
  have d: "drop_bit 61 (of_nat k :: u64) = of_nat (8 * k div 2 ^ 64)"
  proof (rule unsigned_word_eqI)
    have "8 * k div 2 ^ 64 = k div 2 ^ 61" by (simp add: div_mult2_eq [of _ 8 "2 ^ 61", simplified])
    then show "unat (drop_bit 61 (of_nat k :: u64)) = unat (of_nat (8 * k div 2 ^ 64) :: u64)"
      using assms by (simp only: unat_drop_bit_eq unsigned_of_nat)
        (simp add: take_bit_eq_mod drop_bit_eq_div div_less_dividend less_mult_imp_div_less)
  qed
  have hi: "8 * (n + k) div 2 ^ 64 = 8 * n div 2 ^ 64 + 8 * k div 2 ^ 64 + (if 2 ^ 64 \<le> ?a + ?b then 1 else 0)"
  proof -
    have "(?a + ?b) div 2 ^ 64 = (if 2 ^ 64 \<le> ?a + ?b then 1 else 0)"
      by (auto intro!: div_nat_eqI)
    then show ?thesis using div_add1_eq [of "8 * n" "8 * k" "2 ^ 64"] by (simp only: add_mult_distrib2)
  qed
  show ?thesis
    unfolding sha512_add_count_def Let_def
    by (simp only: nth_Cons_0 One_nat_def nth_Cons_Suc c1 lt d hi) (simp add: add.commute add.left_commute)
qed


definition sha512_rep :: "crypto_hash_sha512_state \<Rightarrow> byte list \<Rightarrow> bool" where
  "sha512_rep st m \<longleftrightarrow> sha512_count st = [of_nat (8 * length m div 2 ^ 64), of_nat (8 * length m)] \<and>
     buffered 128 sha512_compress sha512_iv m (sha512_state st) (sha512_buf st)"

lemma sha512_pos: "sha512_rep st m \<Longrightarrow> unat (drop_bit 3 (sha512_count st ! 1) AND 0x7f) = length m mod 128"
  using unat_bits_to_bytes [of 7 "length m"] by (simp add: sha512_rep_def mask_eq_exp_minus_1)

lemma sha512_rep_state: "sha512_rep st m \<Longrightarrow> length (sha512_state st) = 8"
  by (simp add: sha512_rep_def buffered_def)

lemma sha512_rep_init: "length (sha512_buf st) = 128 \<Longrightarrow> sha512_rep (crypto_hash_sha512_init st) []"
  by (simp add: sha512_rep_def crypto_hash_sha512_init_def buffered_init)

lemma sha512_rep_update:
  assumes rep: "sha512_rep st m" and fits: "length c < 2 ^ 64"
  shows "sha512_rep (crypto_hash_sha512_update st c) (m @ c)"
proof (cases "c = []")
  case True
  with rep show ?thesis by (simp add: crypto_hash_sha512_update_def)
next
  case False
  obtain h' buf' where e: "eager_absorb 128 sha512_compress (length m mod 128) (sha512_state st) (sha512_buf st) c = (h', buf')"
    by fastforce
  have "take (length (tail_bytes 128 x) mod 128) (tail_bytes 128 x) = tail_bytes 128 x" for x
    by simp
  then have "crypto_hash_sha512_update st c = st\<lparr>
      sha512_count := sha512_add_count (sha512_count st) (of_nat (length c)), sha512_state := h', sha512_buf := buf'\<rparr>"
    using False e sha512_pos [OF rep] sha512_rep_state [OF rep]
    by (auto simp: crypto_hash_sha512_update_def eager_absorb_def Let_def sha512_update_loop_fold
        SHA512_Transform_fips split: if_splits)
  with buffered_absorb [OF _ e] sha512_add_count_nat [OF fits] rep show ?thesis
    by (simp add: sha512_rep_def)
qed

lemma sha512_rep_final:
  assumes "sha512_rep st m"
  shows "snd (crypto_hash_sha512_final st) = sha512_spec m"
proof -
  let ?enc = "sha512_length_enc (length m)"
  have "be64enc_vect v 16 = concat (map store64_be v)" if "length v = 2" for v
    using that by (simp add: be64enc_vect_def map_nth_upt del: upt_rec_numeral)
  then have enc: "be64enc_vect (sha512_count st) 16 = ?enc"
    using assms by (simp add: sha512_rep_def sha512_length_enc_def)
  have p: "sha512_state (SHA512_Pad st)
      = eager_pad 128 16 sha512_compress (length m mod 128) (sha512_state st) (sha512_buf st) ?enc"
    using sha512_pos [OF assms] sha512_rep_state [OF assms]
    by (auto simp: SHA512_Pad_def eager_pad_def PAD_512_def Let_def SHA512_Transform_fips enc)
  have "be64enc_vect v 64 = concat (map store64_be v)" if "length v = 8" for v
    using that by (simp add: be64enc_vect_def map_nth_upt del: upt_rec_numeral)
  then show ?thesis
    using assms eager_pad_correct [of 128 sha512_compress sha512_iv m "sha512_state st" "sha512_buf st" ?enc 16]
    by (simp add: crypto_hash_sha512_final_def Let_def p sha512_spec_def sha512_rep_def sha512_length_enc_def)
qed

lemma sha512_final_mem [simp]: "length (sha512_buf (fst (crypto_hash_sha512_final st))) = 128"
  by (simp add: crypto_hash_sha512_final_def Let_def)

interpretation sha512: total_streaming "\<lambda>st. length (sha512_buf st) = 128" crypto_hash_sha512_init
  crypto_hash_sha512_update crypto_hash_sha512_final sha512_rep "\<lambda>c. length c < 2 ^ 64" sha512_spec
  by unfold_locales (auto intro: sha512_rep_init sha512_rep_update sha512_rep_final)

lemma length_sha512_spec [simp]: "length (sha512_spec m) = 64"
  by (simp add: sha512_spec_def length_concat comp_def sum_list_triv)

lemma crypto_hash_sha512_spec:
  "length (sha512_buf st) = 128 \<Longrightarrow> length m < 2 ^ 64 \<Longrightarrow> crypto_hash_sha512 st m = sha512_spec m"
  unfolding crypto_hash_sha512_def by (rule sha512.digest_one) simp_all

section \<open>Properties\<close>

text \<open>C23: feeding a message in any chunks of less than \<open>2 ^ 64\<close> bytes each to a SHA-512 context of any
  initial content and finalising gives the FIPS 180-4 digest of the whole message,
  with the 128-bit length of the padding computed by the two-word counter and its carry.\<close>

theorem sha512_stream_digest:
  assumes "length (sha512_buf st) = 128" "list_all (\<lambda>c. length c < 2 ^ 64) cs"
  shows "snd (crypto_hash_sha512_final (foldl crypto_hash_sha512_update (crypto_hash_sha512_init st) cs))
           = sha512_spec (concat cs)"
  using assms by (rule sha512.digest_foldl)

theorem sha512_stream_digest_witness:
  "snd (crypto_hash_sha512_final (foldl crypto_hash_sha512_update
      (crypto_hash_sha512_init \<lparr>sha512_state = [], sha512_count = [], sha512_buf = replicate 128 9\<rparr>) [[1, 2], [], [3]]))
    = sha512_spec [1, 2, 3]"
  using sha512_stream_digest [of "\<lparr>sha512_state = [], sha512_count = [], sha512_buf = replicate 128 9\<rparr>" "[[1, 2], [], [3]]"]
  by simp

text \<open>The unrolled 80-round transform is the FIPS 180-4 SHA-512 compression function.\<close>

theorem SHA512_Transform_reference:
  assumes "length state = 8"
  shows "SHA512_Transform state blk = fips_compress 80 S0_512 S1_512 s0_512 s1_512 Krnd_512 state
           (map (\<lambda>t. load64_be (drop (8 * t) blk)) [0..<16])"
  using SHA512_Transform_fips [OF assms] by (simp only: sha512_compress_def)

theorem SHA512_Transform_reference_witness:
  "SHA512_Transform (replicate 8 1) (replicate 128 2) = fips_compress 80 S0_512 S1_512 s0_512 s1_512 Krnd_512
     (replicate 8 1) (map (\<lambda>t. load64_be (drop (8 * t) (replicate 128 2))) [0..<16])"
  by (rule SHA512_Transform_reference) simp

end
