(* ===== verification/Ed25519.thy ===== *)
theory Ed25519
  imports Scalarmult Basepoint_Table Sha512
begin

unbundle bit_operations_syntax

text \<open>
  Ed25519 keys and signatures (\<^verbatim>\<open>ed25519.c\<close>) over the hash functions of
  \<^verbatim>\<open>ed25519-hash-custom.h\<close> (SHA-512 of libsodium), and the multiplication of the base point of
  Curve25519. The argument \<open>ctx\<close> is the uninitialised hash context; keys and signatures are byte lists.
\<close>

section \<open>Model\<close>

definition ed25519_hash_init :: "crypto_hash_sha512_state \<Rightarrow> crypto_hash_sha512_state" where
  "ed25519_hash_init ctx = crypto_hash_sha512_init ctx"

definition ed25519_hash_update :: "crypto_hash_sha512_state \<Rightarrow> byte list \<Rightarrow> crypto_hash_sha512_state" where
  "ed25519_hash_update ctx inp = crypto_hash_sha512_update ctx inp"

definition ed25519_hash_final :: "crypto_hash_sha512_state \<Rightarrow> byte list" where
  "ed25519_hash_final ctx = snd (crypto_hash_sha512_final ctx)"

definition ed25519_hash :: "crypto_hash_sha512_state \<Rightarrow> byte list \<Rightarrow> byte list" where
  "ed25519_hash ctx inp = crypto_hash_sha512 ctx inp"

definition ed25519_extsk :: "crypto_hash_sha512_state \<Rightarrow> byte list \<Rightarrow> byte list" where
  "ed25519_extsk ctx sk =
    (let extsk = ed25519_hash ctx (take 32 sk);
         extsk = extsk[0 := extsk ! 0 AND 248];
         extsk = extsk[31 := extsk ! 31 AND 127];
         extsk = extsk[31 := extsk ! 31 OR 64]
     in extsk)"

definition ed25519_hram :: "crypto_hash_sha512_state \<Rightarrow> byte list \<Rightarrow> byte list \<Rightarrow> byte list \<Rightarrow> byte list" where
  "ed25519_hram ctx RS pk m =
    (let ctx = ed25519_hash_init ctx;
         ctx = ed25519_hash_update ctx (take 32 RS);
         ctx = ed25519_hash_update ctx (take 32 pk);
         ctx = ed25519_hash_update ctx m
     in ed25519_hash_final ctx)"

definition ed25519_publickey :: "crypto_hash_sha512_state \<Rightarrow> byte list \<Rightarrow> byte list" where
  "ed25519_publickey ctx sk =
    (let extsk = ed25519_extsk ctx sk;
         a = expand256_modm (take 32 extsk) 32;
         A = ge25519_scalarmult_base_niels ge25519_niels_base_multiples a
     in ge25519_pack A)"

definition ed25519_sign :: "crypto_hash_sha512_state \<Rightarrow> byte list \<Rightarrow> byte list \<Rightarrow> byte list \<Rightarrow> byte list" where
  "ed25519_sign ctx m sk pk =
    (let extsk = ed25519_extsk ctx sk;
         c = ed25519_hash_init ctx;
         c = ed25519_hash_update c (take 32 (drop 32 extsk));
         c = ed25519_hash_update c m;
         hashr = ed25519_hash_final c;
         r = expand256_modm hashr 64;
         R = ge25519_scalarmult_base_niels ge25519_niels_base_multiples r;
         RS = ge25519_pack R;
         hram = ed25519_hram ctx RS pk m;
         S = expand256_modm hram 64;
         a = expand256_modm (take 32 extsk) 32;
         S = mul256_modm S a;
         S = add256_modm S r
     in RS @ contract256_modm S)"

definition ed25519_sign_open :: "crypto_hash_sha512_state \<Rightarrow> byte list \<Rightarrow> byte list \<Rightarrow> byte list \<Rightarrow> int" where
  "ed25519_sign_open ctx m pk RS =
    (if RS ! 63 AND 224 \<noteq> 0 then - 1
     else case ge25519_unpack_negative_vartime pk of
       None \<Rightarrow> - 1
     | Some A \<Rightarrow>
         let hash = ed25519_hram ctx RS pk m;
             hram = expand256_modm hash 64;
             S = expand256_modm (take 32 (drop 32 RS)) 32;
             R = ge25519_double_scalarmult_vartime A hram S;
             checkR = ge25519_pack R
         in if ed25519_verify RS checkR 32 \<noteq> 0 then 0 else - 1)"

definition curved25519_scalarmult_basepoint :: "byte list \<Rightarrow> byte list" where
  "curved25519_scalarmult_basepoint e =
    (let ec = take 32 e;
         ec = ec[0 := ec ! 0 AND 248];
         ec = ec[31 := ec ! 31 AND 127];
         ec = ec[31 := ec ! 31 OR 64];
         s = expand_raw256_modm ec;
         p = ge25519_scalarmult_base_niels ge25519_niels_base_multiples s;
         yplusz = curve25519_add (ge_y p) (ge_z p);
         zminusy = curve25519_sub (ge_z p) (ge_y p);
         zminusy = curve25519_recip zminusy;
         yplusz = curve25519_mul yplusz zminusy
     in curve25519_contract yplusz)"


section \<open>Specification\<close>

text \<open>The secret scalar: the three low bits cleared, bit 254 set and bit 255 cleared.\<close>

definition clamp :: "byte list \<Rightarrow> nat" where
  "clamp h = 2 ^ 254 + 8 * (le_nat h mod 2 ^ 254 div 8)"

definition secret_scalar :: "byte list \<Rightarrow> nat" where
  "secret_scalar sk = clamp (take 32 (sha512_spec (take 32 sk)))"

definition secret_prefix :: "byte list \<Rightarrow> byte list" where
  "secret_prefix sk = drop 32 (sha512_spec (take 32 sk))"

text \<open>A hash read as a scalar.\<close>

definition hash_scalar :: "byte list \<Rightarrow> nat" where
  "hash_scalar m = le_nat (sha512_spec m) mod group_order"


section \<open>Lemmas\<close>

lemma unat_clear_low: "unat (b AND 248 :: byte) = 8 * (unat b div 8)"
proof -
  have k: "248 = NOT (mask 3 :: byte)" by (simp add: mask_numeral)
  have "b AND 248 = push_bit 3 (drop_bit 3 b)" unfolding k by (rule bit_word_eqI) (auto simp: bit_simps)
  also have "\<dots> = of_nat (8 * (unat b div 8))"
  proof -
    have "drop_bit 3 b = of_nat (unat b div 2 ^ 3)" by (simp only: unat_shr [symmetric] of_nat_unat ucast_id)
    then show ?thesis by (simp add: push_bit_eq_mult mult.commute)
  qed
  finally show ?thesis using byte_bounds(1) [of b] by (simp only: unsigned_of_nat) (simp add: take_bit_nat_eq_self)
qed

lemma unat_set_top: "unat ((b AND 127) OR 64 :: byte) = unat b mod 64 + 64"
proof -
  have k: "127 = (mask 7 :: byte)" "64 = (push_bit 6 1 :: byte)" by (simp_all add: mask_numeral)
  have t: "bit (push_bit 6 1 :: byte) n \<longleftrightarrow> n = 6" for n
    by (simp only: bit_push_bit_iff bit_1_iff possible_bit_word) auto
  have "(b AND 127) OR 64 = take_bit 6 b OR push_bit 6 1"
    unfolding k by (rule bit_word_eqI) (auto simp only: bit_or_iff bit_and_iff bit_mask_iff possible_bit_word bit_take_bit_iff t)
  also have "\<dots> = take_bit 6 b + push_bit 6 1"
    by (rule disjunctive_add_eq_or [symmetric], rule bit_word_eqI) (simp only: bit_and_iff bit_take_bit_iff t bit_0_eq, auto)
  finally have "(b AND 127) OR 64 = take_bit 6 b + 64" by simp
  moreover have "unat (take_bit 6 b) = unat b mod 64" by (simp only: unsigned_take_bit_eq) (simp add: take_bit_eq_mod)
  ultimately show ?thesis by (simp add: unat_sum_small)
qed

lemma clamp_bytes:
  assumes "length h = 32"
  shows "le_nat (h[0 := h ! 0 AND 248, 31 := (h ! 31 AND 127) OR 64]) = clamp h"
proof -
  obtain x h1 where h: "h = x # h1" and "length h1 = 31" using assms by (auto simp: numeral_eq_Suc length_Suc_conv)
  then obtain m y where h1: "h1 = m @ [y]" and m: "length m = 30"
    by (metis (no_types) append_butlast_last_id length_0_conv length_butlast numeral_eq_Suc diff_Suc_1 nat.distinct(1) pred_numeral_simps(3) eval_nat_numeral(3) BitM.simps(1))
  define M where "M = le_nat m"
  have M: "M < 256 ^ 30" using le_nat_less [of m] m by (simp add: M_def)
  have "le_nat h = unat x + 256 * (M + 256 ^ 30 * unat y)" by (simp add: h h1 le_nat_append m M_def)
  also have "\<dots> = (unat x + 256 * (M + 256 ^ 30 * (unat y mod 64))) + 2 ^ 254 * (unat y div 64)"
  proof -
    have "unat x + 256 * (M + 256 ^ 30 * n) = (unat x + 256 * (M + 256 ^ 30 * r)) + 2 ^ 254 * d" if "64 * d + r = n" for n r d
      unfolding that [symmetric] by simp
    then show ?thesis using mult_div_mod_eq by blast
  qed
  finally have "le_nat h mod 2 ^ 254 = (unat x + 256 * (M + 256 ^ 30 * (unat y mod 64))) mod 2 ^ 254" by simp
  moreover have "unat x + 256 * (M + 256 ^ 30 * (unat y mod 64)) < 2 ^ 254"
    using byte_bounds(1) [of x] M mod_le_pred [of 64 "unat y"] by simp
  ultimately have "le_nat h mod 2 ^ 254 = unat x + 8 * (32 * (M + 256 ^ 30 * (unat y mod 64)))" by simp
  then have "clamp h = 2 ^ 254 + 8 * ((unat x + 8 * (32 * (M + 256 ^ 30 * (unat y mod 64)))) div 8)" unfolding clamp_def by (rule arg_cong)
  then have c: "clamp h = 2 ^ 254 + (8 * (unat x div 8) + 256 * (M + 256 ^ 30 * (unat y mod 64)))"
    by (simp only: div_mult_self2 zero_neq_numeral [symmetric] not_False_eq_True) simp
  have "h[0 := h ! 0 AND 248, 31 := (h ! 31 AND 127) OR 64] = (x AND 248) # m @ [(y AND 127) OR 64]"
    unfolding h h1 using m by (simp add: nth_append list_update_append)
  then show ?thesis unfolding c by (simp add: le_nat_append m M_def [symmetric] unat_clear_low unat_set_top)
qed

lemma take_small: "min n 32 < (18446744073709551616 :: nat)"
  by simp

lemma ed25519_hash_eq: "length (sha512_buf ctx) = 128 \<Longrightarrow> length m < 2 ^ 64 \<Longrightarrow> ed25519_hash ctx m = sha512_spec m"
  by (simp add: ed25519_hash_def crypto_hash_sha512_spec)

lemma hash_stream:
  assumes "length (sha512_buf ctx) = 128" "list_all (\<lambda>c. length c < 2 ^ 64) cs"
  shows "ed25519_hash_final (foldl ed25519_hash_update (ed25519_hash_init ctx) cs) = sha512_spec (concat cs)"
proof -
  have "ed25519_hash_update = crypto_hash_sha512_update" by (simp add: fun_eq_iff ed25519_hash_update_def)
  then show ?thesis
    using sha512.digest_foldl [OF assms] by (simp add: ed25519_hash_final_def ed25519_hash_init_def)
qed

lemma hram_eq:
  assumes "length (sha512_buf ctx) = 128" "length m < 2 ^ 64"
  shows "ed25519_hram ctx RS pk m = sha512_spec (take 32 RS @ take 32 pk @ m)"
  using hash_stream [OF assms(1), of "[take 32 RS, take 32 pk, m]"] assms(2) by (simp add: ed25519_hram_def take_small)

lemma extsk_eq:
  assumes "length (sha512_buf ctx) = 128"
  shows "length (ed25519_extsk ctx sk) = 64" "le_nat (take 32 (ed25519_extsk ctx sk)) = secret_scalar sk"
    "drop 32 (ed25519_extsk ctx sk) = secret_prefix sk"
proof -
  define h where "h = sha512_spec (take 32 sk)"
  have h: "length h = 64" by (simp add: h_def)
  have e: "ed25519_extsk ctx sk = h[0 := h ! 0 AND 248, 31 := (h ! 31 AND 127) OR 64]"
    using ed25519_hash_eq [OF assms, of "take 32 sk"] h by (simp add: ed25519_extsk_def h_def Let_def take_small)
  show "length (ed25519_extsk ctx sk) = 64" by (simp add: e h)
  show "drop 32 (ed25519_extsk ctx sk) = secret_prefix sk" by (simp add: e secret_prefix_def h_def)
  have "take 32 (ed25519_extsk ctx sk) = (take 32 h)[0 := take 32 h ! 0 AND 248, 31 := (take 32 h ! 31 AND 127) OR 64]"
    by (simp add: e take_update_swap)
  then show "le_nat (take 32 (ed25519_extsk ctx sk)) = secret_scalar sk"
    using clamp_bytes [of "take 32 h"] h by (simp add: secret_scalar_def h_def)
qed

lemma pack_length: "partial_rep p P \<Longrightarrow> length (ge25519_pack p) = 32"
  by (cases P) (simp add: pack_correct)

text \<open>The rows of the table stand for points, whatever they hold.\<close>

lemma packed_form_exists:
  assumes "length row = 96" "c dvd 1"
  shows "\<exists>Q. packed_form c row Q"
proof -
  obtain h where h: "1 = 2 * (h :: fp)" using unit_two by (auto elim: dvdE)
  obtain e where e: "1 = c * e" using assms(2) by (auto elim: dvdE)
  define a b t where "a = enc_y (take 32 row)" and "b = enc_y (take 32 (drop 32 row))" and "t = enc_y (take 32 (drop 64 row))"
  have "a = h * (a + b) - h * (b - a)" "b = h * (a + b) + h * (b - a)"
    using arg_cong [OF h, of "(*) a"] arg_cong [OF h, of "(*) b"] by (simp_all add: algebra_simps)
  moreover have "2 * c * (h * e * t) = (2 * h) * (c * e) * t" by (simp add: mult_ac)
  then have "t = 2 * c * (h * e * t)" by (simp add: h [symmetric] e [symmetric])
  ultimately have "packed_form c row (h * (b - a), h * (a + b), 1, h * e * t)"
    using assms(1) by (simp add: packed_form_def a_def b_def t_def)
  then show ?thesis ..
qed

lemma base_points_exist: "\<exists>T. base_points ge25519_niels_base_multiples T"
proof -
  have "\<exists>Q. packed_form (if pos = 0 then 1 else ed_d) (ge25519_niels_base_multiples ! (8 * pos + k)) Q" if "pos < 32" "k < 8" for pos k
  proof (rule packed_form_exists)
    have "8 * pos + k < length ge25519_niels_base_multiples" using that by (simp add: base_multiples_rows)
    then show "length (ge25519_niels_base_multiples ! (8 * pos + k)) = 96" using base_multiples_rows(2) by (simp add: list_all_length)
  qed (simp add: unit_ed_d)
  then have "\<forall>pos k. \<exists>Q. pos < 32 \<longrightarrow> k < 8 \<longrightarrow> packed_form (if pos = 0 then 1 else ed_d) (ge25519_niels_base_multiples ! (8 * pos + k)) Q"
    by blast
  then show ?thesis unfolding base_points_def choice_iff by blast
qed

lemma base_mult_pack:
  assumes "carried (2 ^ 32 - 1) s" "mval s < 2 ^ 255"
  shows "length (ge25519_pack (ge25519_scalarmult_base_niels ge25519_niels_base_multiples s)) = 32"
  using base_points_exist base_mult_rep [OF _ assms] pack_length ge_rep_partial by blast

lemma modm_okD: "modm_ok s \<Longrightarrow> carried (2 ^ 32 - 1) s \<and> mval s < 2 ^ 255 \<and> mval s \<le> 2 ^ 253"
  by (simp add: modm_ok_def group_order_def)

lemma expand_hash: "modm_ok (expand256_modm (sha512_spec m) 64)" "mval (expand256_modm (sha512_spec m) 64) = hash_scalar m"
  using expand256_modm_correct(1,2) [of "sha512_spec m" 64] by (simp_all add: hash_scalar_def)

lemma expand_32: "length b = 32 \<Longrightarrow> modm_ok (expand256_modm b 32)" "length b = 32 \<Longrightarrow> mval (expand256_modm b 32) = le_nat b mod group_order"
  using expand256_modm_correct(1,2) [of b 32] by simp_all

lemma expand_secret:
  assumes "length (sha512_buf ctx) = 128"
  shows "modm_ok (expand256_modm (take 32 (ed25519_extsk ctx sk)) 32)"
    "mval (expand256_modm (take 32 (ed25519_extsk ctx sk)) 32) = secret_scalar sk mod group_order"
  using expand_32 [of "take 32 (ed25519_extsk ctx sk)"] extsk_eq [OF assms] by simp_all

text \<open>The first half of a signature.\<close>

definition sign_R :: "byte list \<Rightarrow> byte list \<Rightarrow> byte list" where
  "sign_R sk m = ge25519_pack (ge25519_scalarmult_base_niels ge25519_niels_base_multiples (expand256_modm (sha512_spec (secret_prefix sk @ m)) 64))"

definition sign_S :: "byte list \<Rightarrow> byte list \<Rightarrow> byte list \<Rightarrow> nat" where
  "sign_S sk pk m = (hash_scalar (secret_prefix sk @ m) + hash_scalar (sign_R sk m @ take 32 pk @ m) * secret_scalar sk) mod group_order"

lemma length_sign_R [simp]: "length (sign_R sk m) = 32"
  unfolding sign_R_def using expand_hash(1) modm_okD by (blast intro: base_mult_pack)

lemma sign_eq:
  assumes "length (sha512_buf ctx) = 128" "length m < 2 ^ 64"
  shows "ed25519_sign ctx m sk pk = sign_R sk m @ le_bytes 32 (sign_S sk pk m)"
proof -
  define r where "r = expand256_modm (sha512_spec (secret_prefix sk @ m)) 64"
  define k where "k = expand256_modm (sha512_spec (sign_R sk m @ take 32 pk @ m)) 64"
  define a where "a = expand256_modm (take 32 (ed25519_extsk ctx sk)) 32"
  have a: "modm_ok a" "mval a = secret_scalar sk mod group_order" using expand_secret [OF assms(1)] by (simp_all add: a_def)
  have "length (secret_prefix sk) = 32" by (simp add: secret_prefix_def)
  moreover from this have "take 32 (drop 32 (ed25519_extsk ctx sk)) = secret_prefix sk" using extsk_eq [OF assms(1), of sk] by simp
  ultimately have h: "ed25519_hash_final (ed25519_hash_update (ed25519_hash_update (ed25519_hash_init ctx) (take 32 (drop 32 (ed25519_extsk ctx sk)))) m)
      = sha512_spec (secret_prefix sk @ m)"
    using hash_stream [OF assms(1), of "[secret_prefix sk, m]"] assms(2) by simp
  have "ed25519_sign ctx m sk pk = sign_R sk m @ contract256_modm (add256_modm (mul256_modm k a) r)"
    unfolding ed25519_sign_def Let_def h r_def [symmetric] a_def [symmetric]
    by (simp only: hram_eq [OF assms] sign_R_def [symmetric] r_def) (simp add: k_def)
  moreover have ka: "modm_ok (mul256_modm k a)" "mval (mul256_modm k a) = mval k * mval a mod group_order"
    using mul256_modm_correct [of k a] modm_okD expand_hash(1) a(1) by (simp_all add: k_def)
  moreover have "modm_ok r" by (simp add: r_def expand_hash)
  ultimately have "ed25519_sign ctx m sk pk = sign_R sk m @ le_bytes 32 ((mval k * mval a mod group_order + mval r) mod group_order)"
    using add256_modm_reduced [OF ka(1)] contract256_modm_correct modm_okD by simp
  also have "(mval k * mval a mod group_order + mval r) mod group_order = sign_S sk pk m"
    unfolding sign_S_def a(2) by (simp add: k_def r_def expand_hash mod_simps add.commute)
  finally show ?thesis .
qed

lemma small_scalar_bits:
  assumes "n < group_order"
  shows "le_bytes 32 n ! 31 AND 224 = 0"
proof -
  define w where "w = n div 256 ^ 31"
  have "group_order < 2 ^ 253" by (simp add: group_order_def)
  then have "n < 32 * 256 ^ 31" using assms by simp
  then have "w < 2 ^ 5" by (simp add: w_def less_mult_imp_div_less)
  then have "take_bit 5 (of_nat w :: byte) = of_nat w" by (simp add: take_bit_of_nat take_bit_nat_eq_self)
  then have "(of_nat w :: byte) AND NOT (mask 5) = 0" by (metis take_bit_eq_mask and.assoc and.right_neutral bit.conj_cancel_right and_zero_eq)
  moreover have "224 = NOT (mask 5 :: byte)" by (simp add: mask_numeral)
  ultimately show ?thesis by (simp add: nth_le_bytes w_def)
qed

text \<open>The point that verification recomputes, by the digits of the hash and of the scalar of the signature.\<close>

definition verify_point :: "(nat \<Rightarrow> fp4) \<Rightarrow> byte list \<Rightarrow> byte list \<Rightarrow> byte list \<Rightarrow> fp4 \<Rightarrow> fp4" where
  "verify_point B m pk RS A = ed_double_scalarmult (ed_odd_multiple A) B
    (contract256_slidingwindow_modm (expand256_modm (sha512_spec (take 32 RS @ take 32 pk @ m)) 64) 5)
    (contract256_slidingwindow_modm (expand256_modm (take 32 (drop 32 RS)) 32) 7)"

fun point_bytes :: "fp4 \<Rightarrow> byte list" where
  "point_bytes (X, Y, Z, T) = le_bytes 32 (fp_nat (Y * Z ^ (p25519 - 2)) + 2 ^ 255 * odd_bit (X * Z ^ (p25519 - 2)))"

lemma pack_point_bytes: "partial_rep p P \<Longrightarrow> ge25519_pack p = point_bytes P"
  by (cases P) (simp add: pack_correct)

definition ge_point :: "ge25519 \<Rightarrow> fp4" where
  "ge_point p = (fval (ge_x p), fval (ge_y p), fval (ge_z p), fval (ge_t p))"

lemma sign_open_eq:
  assumes "length (sha512_buf ctx) = 128" "length m < 2 ^ 64" "length pk = 32" "length RS = 64" "sliding_points B"
  shows "ed25519_sign_open ctx m pk RS =
    (if RS ! 63 AND 224 = 0 \<and> (\<exists>A. ge25519_unpack_negative_vartime pk = Some A \<and> take 32 RS = point_bytes (verify_point B m pk RS (ge_point A)))
     then 0 else - 1)"
proof (cases "ge25519_unpack_negative_vartime pk")
  case (Some A)
  define R where "R = ge25519_double_scalarmult_vartime A (expand256_modm (sha512_spec (take 32 RS @ take 32 pk @ m)) 64)
      (expand256_modm (take 32 (drop 32 RS)) 32)"
  have "ge_rep A (ge_point A)" using unpack_sign(2) [OF assms(3) Some] by (auto simp: ge_rep_def ge_point_def)
  then have rep: "partial_rep R (verify_point B m pk RS (ge_point A))"
    unfolding R_def verify_point_def using assms(4,5) expand_hash(1) expand_32(1) by (intro double_scalarmult_rep) simp_all
  have "ed25519_sign_open ctx m pk RS = (if RS ! 63 AND 224 \<noteq> 0 then - 1 else if ed25519_verify RS (ge25519_pack R) 32 \<noteq> 0 then 0 else - 1)"
    using Some hram_eq [OF assms(1,2)] by (simp add: ed25519_sign_open_def R_def)
  moreover have "ed25519_verify RS (ge25519_pack R) 32 = (if take 32 RS = ge25519_pack R then 1 else 0)"
    using ed25519_verify_correct [of 32 RS "ge25519_pack R"] pack_length [OF rep] assms(4) by simp
  ultimately show ?thesis using Some pack_point_bytes [OF rep] by auto
qed (simp add: ed25519_sign_open_def)

text \<open>The multiple of the base point by the scalar that bytes encode.\<close>

definition base_point :: "(nat \<Rightarrow> nat \<Rightarrow> fp4) \<Rightarrow> bignum256modm \<Rightarrow> fp4" where
  "base_point T s = ed_base_mult T (contract256_window4_modm s)"

lemma base_point_log:
  assumes "carried (2 ^ 32 - 1) s" "mval s < 2 ^ 255" "discrete_log S l"
    "\<forall>pos < 32. \<forall>k < 8. T pos k \<in> S \<and> l (T pos k) = of_nat (k + 1) * (256 ^ pos * g)"
  shows "l (base_point T s) = of_nat (mval s) * g"
  using base_mult_log [OF assms(3) _ _ assms(4), of "contract256_window4_modm s"] contract256_window4_correct [OF assms(1,2)]
  by (simp add: base_point_def)

lemma base_point_pack:
  assumes "base_points ge25519_niels_base_multiples T" "carried (2 ^ 32 - 1) s" "mval s < 2 ^ 255"
  shows "ge25519_pack (ge25519_scalarmult_base_niels ge25519_niels_base_multiples s) = point_bytes (base_point T s)"
  unfolding base_point_def by (rule pack_point_bytes [OF ge_rep_partial [OF base_mult_rep [OF assms]]])

lemma verify_point_log:
  assumes "length RS = 64" "discrete_log S l" "P \<in> S" "\<forall>k < 32. B k \<in> S \<and> l (B k) = of_int (2 * int k + 1) * g"
  shows "l (verify_point B m pk RS P) = of_nat (hash_scalar (take 32 RS @ take 32 pk @ m)) * l P + of_nat (le_nat (drop 32 RS) mod group_order) * g"
proof -
  define k s where "k = expand256_modm (sha512_spec (take 32 RS @ take 32 pk @ m)) 64" and "s = expand256_modm (take 32 (drop 32 RS)) 32"
  have k: "modm_ok k" "mval k = hash_scalar (take 32 RS @ take 32 pk @ m)" by (simp_all add: k_def expand_hash)
  have s: "modm_ok s" "mval s = le_nat (drop 32 RS) mod group_order" using expand_32 [of "drop 32 RS"] assms(1) by (simp_all add: s_def)
  note d = contract256_slidingwindow_correct
  have "l (verify_point B m pk RS P) = of_int (int (mval k)) * l P + of_int (int (mval s)) * g"
    using double_scalarmult_log [OF assms(2,3), of "contract256_slidingwindow_modm k 5" "contract256_slidingwindow_modm s 7" B g]
      d [of k 5] d [of s 7] modm_okD [OF k(1)] modm_okD [OF s(1)] assms(4)
    by (simp add: verify_point_def k_def [symmetric] s_def [symmetric])
  then show ?thesis by (simp add: k(2) s(2))
qed


text \<open>Honest signatures satisfy the verification equation.\<close>

lemma verification_equation:
  fixes l :: "fp4 \<Rightarrow> 'a :: comm_ring_1"
  assumes "length (sha512_buf ctx) = 128" "length m < 2 ^ 64" "base_points ge25519_niels_base_multiples T"
    "discrete_log S l" "of_nat group_order * g = 0"
    "\<forall>pos < 32. \<forall>k < 8. T pos k \<in> S \<and> l (T pos k) = of_nat (k + 1) * (256 ^ pos * g)"
    "\<forall>k < 32. B k \<in> S \<and> l (B k) = of_int (2 * int k + 1) * g"
    "P \<in> S" "l P = - (of_nat (secret_scalar sk) * g)" "sliding_points B"
  shows "l (verify_point B m pk (ed25519_sign ctx m sk pk) P) = l (base_point T (expand256_modm (sha512_spec (secret_prefix sk @ m)) 64))
    \<and> take 32 (ed25519_sign ctx m sk pk) = point_bytes (base_point T (expand256_modm (sha512_spec (secret_prefix sk @ m)) 64))"
proof -
  define sig where "sig = ed25519_sign ctx m sk pk"
  define r where "r = expand256_modm (sha512_spec (secret_prefix sk @ m)) 64"
  define h k where "h = hash_scalar (secret_prefix sk @ m)" and "k = hash_scalar (sign_R sk m @ take 32 pk @ m)"
  have mod: "of_nat (n mod group_order) * g = of_nat n * g" for n
  proof -
    have "of_nat n * g = of_nat (n div group_order * group_order + n mod group_order) * g" by simp
    also have "\<dots> = of_nat (n div group_order) * (of_nat group_order * g) + of_nat (n mod group_order) * g"
      by (simp only: of_nat_add of_nat_mult distrib_right mult.assoc)
    finally show ?thesis by (simp add: assms(5))
  qed
  have sig: "sig = sign_R sk m @ le_bytes 32 (sign_S sk pk m)" unfolding sig_def by (rule sign_eq [OF assms(1,2)])
  have S: "sign_S sk pk m = (h + k * secret_scalar sk) mod group_order" by (simp add: sign_S_def h_def k_def)
  have "sign_S sk pk m < 256 ^ 32" using S by (simp add: group_order_def)
  then have "le_nat (drop 32 sig) mod group_order = sign_S sk pk m" using S by (simp add: sig le_nat_le_bytes)
  then have "l (verify_point B m pk sig P) = of_nat k * l P + of_nat (h + k * secret_scalar sk) * g"
    using verify_point_log [OF _ assms(4,8,7), of sig] mod [of "h + k * secret_scalar sk"] by (simp add: sig k_def S)
  also have "\<dots> = of_nat h * g" by (simp add: assms(9) algebra_simps)
  also have "\<dots> = l (base_point T r)"
    using base_point_log [OF _ _ assms(4,6), of r] expand_hash modm_okD [of r] by (simp add: r_def h_def)
  finally have "l (verify_point B m pk sig P) = l (base_point T r)" .
  moreover have "take 32 sig = sign_R sk m" by (simp add: sig)
  moreover have "sign_R sk m = point_bytes (base_point T r)"
    using base_point_pack [OF assms(3), of r] modm_okD [of r] expand_hash(1) by (simp add: sign_R_def r_def)
  ultimately show ?thesis by (simp add: sig_def r_def)
qed

lemma publickey_length:
  assumes "length (sha512_buf ctx) = 128"
  shows "length (ed25519_publickey ctx sk) = 32"
  using base_mult_pack modm_okD [OF expand_secret(1) [OF assms]] by (simp add: ed25519_publickey_def)


section \<open>Properties\<close>

text \<open>C8: signing. For every secret key and message, whatever the hash context held, the signature is the encoding of
  \<open>R = r B\<close> followed by the 32 bytes of \<open>(r + k a) mod L\<close>, where \<open>a\<close> is the clamped first half of the SHA-512 of the key,
  \<open>r\<close> the SHA-512 of its second half and the message and \<open>k\<close> the SHA-512 of \<open>R\<close>, the public key and the message, both read as scalars; it
  has 64 bytes and passes the range check of verification. \<open>B\<close> is the base point of the table: for every discrete logarithm
  for which the table holds multiples of one point, \<open>R\<close> and the public key have the logarithms \<open>r\<close> and \<open>a\<close> times its own.\<close>

theorem ed25519_sign_correct:
  fixes l :: "fp4 \<Rightarrow> 'a :: comm_ring_1" and sk :: "byte list"
  assumes "length (sha512_buf ctx) = 128" "length m < 2 ^ 64" "base_points ge25519_niels_base_multiples T"
  defines "r \<equiv> expand256_modm (sha512_spec (secret_prefix sk @ m)) 64"
  defines "R \<equiv> point_bytes (base_point T r)"
  defines "a \<equiv> expand256_modm (take 32 (ed25519_extsk ctx sk)) 32"
  shows "ed25519_sign ctx m sk pk
      = R @ le_bytes 32 ((hash_scalar (secret_prefix sk @ m) + hash_scalar (R @ take 32 pk @ m) * secret_scalar sk) mod group_order)
    \<and> length (ed25519_sign ctx m sk pk) = 64 \<and> ed25519_sign ctx m sk pk ! 63 AND 224 = 0
    \<and> ed25519_publickey ctx sk = point_bytes (base_point T a)
    \<and> (discrete_log S l \<and> (\<forall>pos < 32. \<forall>k < 8. T pos k \<in> S \<and> l (T pos k) = of_nat (k + 1) * (256 ^ pos * g)) \<longrightarrow>
         l (base_point T r) = of_nat (hash_scalar (secret_prefix sk @ m)) * g
         \<and> l (base_point T a) = of_nat (secret_scalar sk mod group_order) * g)"
proof -
  have r: "modm_ok r" "mval r = hash_scalar (secret_prefix sk @ m)" by (simp_all add: r_def expand_hash)
  have a: "modm_ok a" "mval a = secret_scalar sk mod group_order" by (simp_all add: a_def expand_secret [OF assms(1)])
  have R: "sign_R sk m = R" using base_point_pack [OF assms(3)] modm_okD [OF r(1)] by (simp add: R_def r_def sign_R_def)
  have sig: "ed25519_sign ctx m sk pk = R @ le_bytes 32 (sign_S sk pk m)" using sign_eq [OF assms(1,2)] R by simp
  have "length R = 32" using length_sign_R R by metis
  moreover have "sign_S sk pk m < group_order" by (simp add: sign_S_def group_order_def)
  ultimately have "length (ed25519_sign ctx m sk pk) = 64" "ed25519_sign ctx m sk pk ! 63 AND 224 = 0"
    unfolding sig using small_scalar_bits by (simp_all add: nth_append)
  moreover have "ed25519_publickey ctx sk = point_bytes (base_point T a)"
    using base_point_pack [OF assms(3)] modm_okD [OF a(1)] by (simp add: ed25519_publickey_def a_def)
  moreover have "l (base_point T r) = of_nat (mval r) * g" "l (base_point T a) = of_nat (mval a) * g"
    if "discrete_log S l" "\<forall>pos < 32. \<forall>k < 8. T pos k \<in> S \<and> l (T pos k) = of_nat (k + 1) * (256 ^ pos * g)"
    using base_point_log [OF _ _ that] modm_okD [OF r(1)] modm_okD [OF a(1)] by blast+
  ultimately show ?thesis using sig unfolding sign_S_def R r(2) a(2) by blast
qed

definition zero_ctx :: crypto_hash_sha512_state where
  "zero_ctx = \<lparr>sha512_state = [], sha512_count = [], sha512_buf = replicate 128 0\<rparr>"

lemma zero_ctx_ok: "length (sha512_buf zero_ctx) = 128"
  by (simp add: zero_ctx_def)

theorem ed25519_sign_correct_witness:
  "length (ed25519_sign zero_ctx [1, 2, 3] (replicate 64 7) (replicate 32 9)) = 64
    \<and> ed25519_sign zero_ctx [1, 2, 3] (replicate 64 7) (replicate 32 9) ! 63 AND 224 = 0"
proof -
  obtain T where T: "base_points ge25519_niels_base_multiples T" using base_points_exist ..
  have "length [1, 2, 3 :: byte] < 2 ^ 64" by simp
  from ed25519_sign_correct [OF zero_ctx_ok this T, where sk = "replicate 64 7" and pk = "replicate 32 9" and l = "\<lambda>_. 0 :: int"]
  show ?thesis by blast
qed

text \<open>C7: verification. For a 32-byte public key and a 64-byte signature the result is 0 exactly when the three top bits of the
  signature are zero, the key decodes to a point (negated as \<open>A\<close>) and the first half of the signature is the encoding of the point
  \<open>k A + s B\<close> recomputed from the hash and the second half, and -1 otherwise; for every discrete logarithm for which the
  table holds the odd multiples of one point, this point has the logarithm \<open>k log A + s log B\<close>.\<close>

theorem ed25519_sign_open_correct:
  fixes l :: "fp4 \<Rightarrow> 'a :: comm_ring_1"
  assumes "length (sha512_buf ctx) = 128" "length m < 2 ^ 64" "length pk = 32" "length RS = 64" "sliding_points B"
  shows "ed25519_sign_open ctx m pk RS =
    (if RS ! 63 AND 224 = 0 \<and> (\<exists>A. ge25519_unpack_negative_vartime pk = Some A \<and> take 32 RS = point_bytes (verify_point B m pk RS (ge_point A)))
     then 0 else - 1)
    \<and> (discrete_log S l \<and> P \<in> S \<and> (\<forall>k < 32. B k \<in> S \<and> l (B k) = of_int (2 * int k + 1) * g) \<longrightarrow>
       l (verify_point B m pk RS P) = of_nat (hash_scalar (take 32 RS @ take 32 pk @ m)) * l P + of_nat (le_nat (drop 32 RS) mod group_order) * g)"
  using sign_open_eq [OF assms] verify_point_log [OF assms(4)] by blast

theorem ed25519_sign_open_correct_witness:
  "ed25519_sign_open zero_ctx [] (replicate 32 0) (replicate 64 255) = - 1"
proof -
  obtain B where "sliding_points B" using sliding_points_exist ..
  then show ?thesis
    using ed25519_sign_open_correct [of zero_ctx "[]" "replicate 32 0" "replicate 64 255" B UNIV "\<lambda>_. 0 :: int" ed_neutral 0]
    by (simp add: zero_ctx_def)
qed

text \<open>\<^verbatim>\<open>curved25519_scalarmult_basepoint\<close> clamps the key and returns the 32 bytes of \<open>(Y + Z) (Z - Y) ^ (p - 2)\<close>, the
  coordinate on the Montgomery curve of the multiple of the base point by the clamped scalar.\<close>

theorem curved25519_scalarmult_basepoint_correct:
  fixes l :: "fp4 \<Rightarrow> 'a :: comm_ring_1"
  assumes "32 \<le> length e" "base_points ge25519_niels_base_multiples T"
  shows "\<exists>s X Y Z U. mval s = clamp (take 32 e) \<and> base_point T s = (X, Y, Z, U)
    \<and> curved25519_scalarmult_basepoint e = le_bytes 32 (fp_nat ((Y + Z) * (Z - Y) ^ (p25519 - 2)))
    \<and> (discrete_log S l \<and> (\<forall>pos < 32. \<forall>k < 8. T pos k \<in> S \<and> l (T pos k) = of_nat (k + 1) * (256 ^ pos * g)) \<longrightarrow>
         l (X, Y, Z, U) = of_nat (clamp (take 32 e)) * g)"
proof -
  define ec where "ec = (take 32 e)[0 := take 32 e ! 0 AND 248, 31 := (take 32 e ! 31 AND 127) OR 64]"
  define s where "s = expand_raw256_modm ec"
  define p where "p = ge25519_scalarmult_base_niels ge25519_niels_base_multiples s"
  have ec: "length ec = 32" "le_nat ec = clamp (take 32 e)" using assms(1) clamp_bytes [of "take 32 e"] by (simp_all add: ec_def)
  have s: "carried (2 ^ 32 - 1) s" "mval s = clamp (take 32 e)" using expand_raw256_modm_correct [OF ec(1)] ec(2) by (simp_all add: s_def)
  have "le_nat x mod 2 ^ 254 div 8 < 2 ^ 251" for x by (simp add: less_mult_imp_div_less)
  from this [of "take 32 e"] have lt: "mval s < 2 ^ 255" unfolding s(2) clamp_def by simp
  obtain X Y Z U where P: "base_point T s = (X, Y, Z, U)" by (cases "base_point T s")
  have rep: "ge_rep p (X, Y, Z, U)" using base_mult_rep [OF assms(2) s(1) lt] P by (simp add: p_def base_point_def)
  have "curved25519_scalarmult_basepoint e = curve25519_contract (curve25519_mul (curve25519_add (ge_y p) (ge_z p)) (curve25519_recip (curve25519_sub (ge_z p) (ge_y p))))"
    using assms(1) by (simp add: curved25519_scalarmult_basepoint_def Let_def ec_def p_def s_def)
  also have "\<dots> = le_bytes 32 (fp_nat ((Y + Z) * (Z - Y) ^ (p25519 - 2)))"
    using rep by (simp add: ge_rep_def limb_rules curve25519_contract_correct del: le_bytes.simps)
  finally show ?thesis using P s lt base_point_log [OF s(1) lt] by metis
qed

theorem curved25519_scalarmult_basepoint_correct_witness:
  "\<exists>n. curved25519_scalarmult_basepoint (replicate 32 1) = le_bytes 32 n"
proof -
  obtain T where T: "base_points ge25519_niels_base_multiples T" using base_points_exist ..
  show ?thesis using curved25519_scalarmult_basepoint_correct [OF _ T, of "replicate 32 1" UNIV "\<lambda>_. 0 :: int" 0] by auto
qed

end
