(* ===== verification/Batch.thy ===== *)
theory Batch
  imports Batch_Heap Ed25519
begin

unbundle bit_operations_syntax

text \<open>
  Batch verification (\<^verbatim>\<open>ed25519-donna-batchverify.h\<close>): the multi-scalar multiplication of Bos and Carter, which replaces
  \<open>a P + b Q\<close> by \<open>(a - b) P + b (P + Q)\<close> for the two largest scalars until one scalar is left, and the verification of
  up to 64 signatures at a time. \<open>None\<close> is a loop that does not end or an access outside an array; the theorems say when it
  cannot happen. The random bytes and the uninitialised batch are arguments.
\<close>

section \<open>Model\<close>

definition limb128bits :: nat where "limb128bits = (128 + 56 - 1) div 56"

definition topbit :: u64 where "topbit = push_bit (56 - 1) 1"

text \<open>\<^verbatim>\<open>while (!scalar[limb]) limb--;\<close>\<close>

primrec find_limb :: "bignum256modm \<Rightarrow> nat \<Rightarrow> nat option" where
  "find_limb scalar 0 = (if scalar ! 0 = 0 then None else Some 0)"
| "find_limb scalar (Suc limb) = (if scalar ! Suc limb = 0 then find_limb scalar limb else Some (Suc limb))"

text \<open>\<^verbatim>\<open>while ((scalar[limb] & flag) == 0) flag >>= 1;\<close>\<close>

partial_function (option) find_flag :: "u64 \<Rightarrow> u64 \<Rightarrow> u64 option" where
  [code]: "find_flag x flag = (if x AND flag = 0 then find_flag x (drop_bit 1 flag) else Some flag)"

lemma half_less: "drop_bit (Suc 0) w \<noteq> (0 :: u64) \<Longrightarrow> unat (drop_bit (Suc 0) w) < unat w"
  using unat_shr [of 1 w] by (cases "w = 0") (simp_all add: unat_gt_0)

function exponentiate :: "bignum256modm \<Rightarrow> ge25519 \<Rightarrow> ge25519 \<Rightarrow> nat \<Rightarrow> u64 \<Rightarrow> ge25519" where
  "exponentiate scalar point r limb flag =
    (let r = ge25519_double r;
         r = (if scalar ! limb AND flag \<noteq> 0 then ge25519_add r point else r);
         flag = drop_bit 1 flag
     in if flag = 0 then if limb = 0 then r else exponentiate scalar point r (limb - 1) topbit
        else exponentiate scalar point r limb flag)"
  by auto
termination
  by (relation "measures [\<lambda>(_, _, _, limb, _). limb, \<lambda>(_, _, _, _, flag). unat flag]")
    (auto simp: half_less)

declare exponentiate.simps [simp del]

definition ge25519_multi_scalarmult_vartime_final :: "ge25519 \<Rightarrow> bignum256modm \<Rightarrow> ge25519 option" where
  "ge25519_multi_scalarmult_vartime_final point scalar =
    (if isone256_modm_batch scalar \<noteq> 0 then Some point
     else if iszero256_modm_batch scalar \<noteq> 0
     then Some \<lparr>ge_x = [0, 0, 0, 0, 0], ge_y = [1, 0, 0, 0, 0], ge_z = [1, 0, 0, 0, 0], ge_t = [0, 0, 0, 0, 0]\<rparr>
     else do {
       limb \<leftarrow> find_limb scalar limb128bits;
       flag \<leftarrow> find_flag (scalar ! limb) topbit;
       Some (exponentiate scalar point point limb flag)
     })"

text \<open>The loop of \<^verbatim>\<open>ge25519_multi_scalarmult_vartime\<close>, on the heap, \<^verbatim>\<open>limbsize\<close> and \<^verbatim>\<open>extended\<close>; it returns the
  heap and \<^verbatim>\<open>max1\<close>. Reading a limb beyond the fifth is an access outside the array.\<close>

partial_function (option) multi_loop :: "nat \<Rightarrow> batch_heap \<Rightarrow> nat \<Rightarrow> bool \<Rightarrow> (batch_heap \<times> nat) option" where
  [code]: "multi_loop cnt heap limbsize extended =
    (let (max1, max2) = heap_get_top2 heap limbsize
     in if iszero256_modm_batch (bh_scalars heap ! max2) \<noteq> 0 then Some (heap, max1)
        else if limbsize > 4 then None
        else let limbsize = (if bh_scalars heap ! max1 ! limbsize = 0 then (limbsize + (2 ^ 64 - 1)) mod 2 ^ 64 else limbsize);
                 (heap, max1, max2, extended) =
                   (if \<not> extended \<and> isatmost128bits256_modm_batch (bh_scalars heap ! max1) \<noteq> 0
                    then let heap = heap_extend heap cnt; (max1, max2) = heap_get_top2 heap limbsize in (heap, max1, max2, True)
                    else (heap, max1, max2, extended));
                 scalars = bh_scalars heap; points = bh_points heap;
                 heap = heap\<lparr>bh_scalars := scalars[max1 := sub256_modm_batch (scalars ! max1) (scalars ! max1) (scalars ! max2) limbsize],
                             bh_points := points[max2 := ge25519_add (points ! max2) (points ! max1)]\<rparr>;
                 heap = heap_updated_root heap limbsize
             in multi_loop cnt heap limbsize extended)"

definition ge25519_multi_scalarmult_vartime :: "batch_heap \<Rightarrow> nat \<Rightarrow> (ge25519 \<times> batch_heap) option" where
  "ge25519_multi_scalarmult_vartime heap cnt = do {
     let heap = heap_build heap (((cnt + 1) div 2) OR 1);
     (heap, max1) \<leftarrow> multi_loop cnt heap (5 - 1) False;
     r \<leftarrow> ge25519_multi_scalarmult_vartime_final (bh_points heap ! max1) (bh_scalars heap ! max1);
     Some (r, heap)
   }"

definition ge25519_is_neutral_vartime :: "ge25519 \<Rightarrow> bool" where
  "ge25519_is_neutral_vartime p =
    (let b0 = curve25519_contract (ge_x p); b1 = curve25519_contract (ge_y p); b2 = curve25519_contract (ge_z p)
     in take 32 b0 = replicate 32 0 \<and> take 32 b1 = take 32 b2)"


text \<open>\<^verbatim>\<open>goto fallback\<close> and the last loop: every signature on its own. \<open>ret\<close> collects the bits of the result.\<close>

definition open_each :: "crypto_hash_sha512_state \<Rightarrow> byte list list \<Rightarrow> byte list list \<Rightarrow> byte list list \<Rightarrow> nat \<Rightarrow> int list \<Rightarrow> int \<Rightarrow> int list \<times> int" where
  "open_each ctx m pk RS n valid ret =
    foldl (\<lambda>(valid, ret) i.
      let valid = valid[i := (if ed25519_sign_open ctx (m ! i) (pk ! i) (RS ! i) \<noteq> 0 then 0 else 1)]
      in (valid, ret OR (valid ! i XOR 1))) (valid, ret) [0..<n]"

text \<open>The scalars of a batch, in the order of the source: the random \<open>r\<close>, then \<open>\<Sum> r s\<close> in the first place, then \<open>r H(R, A, m)\<close>.\<close>

definition batch_scalars :: "crypto_hash_sha512_state \<Rightarrow> byte list list \<Rightarrow> byte list list \<Rightarrow> byte list list \<Rightarrow> nat \<Rightarrow> byte list list
    \<Rightarrow> bignum256modm list \<Rightarrow> bignum256modm list" where
  "batch_scalars ctx m pk RS batchsize r scalars =
    (let scalars = foldl (\<lambda>s i. s[batchsize + 1 + i := expand256_modm (r ! i) 16]) scalars [0..<batchsize];
         scalars = foldl (\<lambda>s i. let s = s[i := expand256_modm (drop 32 (RS ! i)) 32]
           in s[i := mul256_modm (s ! i) (s ! (batchsize + 1 + i))]) scalars [0..<batchsize];
         scalars = foldl (\<lambda>s i. s[0 := add256_modm (s ! 0) (s ! i)]) scalars [1..<batchsize];
         scalars = foldl (\<lambda>s i. let s = s[i + 1 := expand256_modm (ed25519_hram ctx (RS ! i) (pk ! i) (m ! i)) 64]
           in s[i + 1 := mul256_modm (s ! (i + 1)) (s ! (batchsize + 1 + i))]) scalars [0..<batchsize]
     in scalars)"

text \<open>The loops that decode points stop at the first failure; what a failed decoding leaves behind is not read again.\<close>

fun unpack_points :: "nat \<Rightarrow> byte list list \<Rightarrow> ge25519 list \<Rightarrow> ge25519 list \<times> bool" where
  "unpack_points i [] points = (points, True)"
| "unpack_points i (b # bs) points = (case ge25519_unpack_negative_vartime b of
     None \<Rightarrow> (points, False)
   | Some p \<Rightarrow> unpack_points (i + 1) bs (points[i := p]))"

definition batch_points :: "byte list list \<Rightarrow> byte list list \<Rightarrow> nat \<Rightarrow> ge25519 list \<Rightarrow> ge25519 list \<times> bool" where
  "batch_points pk RS batchsize points =
    (let points = points[0 := ge25519_basepoint];
         (points, ok) = unpack_points 1 (take batchsize pk) points
     in if ok then unpack_points (batchsize + 1) (map (take 32) (take batchsize RS)) points else (points, False))"

text \<open>One iteration of the loop over batches.\<close>

definition batch_step :: "crypto_hash_sha512_state \<Rightarrow> byte list \<Rightarrow> byte list list \<Rightarrow> byte list list \<Rightarrow> byte list list \<Rightarrow> nat
    \<Rightarrow> batch_heap \<Rightarrow> int list \<Rightarrow> int \<Rightarrow> (batch_heap \<times> int list \<times> int) option" where
  "batch_step ctx rnd m pk RS batchsize batch valid ret =
    (let r = map (\<lambda>i. take 16 (drop (16 * i) rnd)) [0..<batchsize] @ drop batchsize (bh_r batch);
         batch = batch\<lparr>bh_r := r, bh_scalars := batch_scalars ctx m pk RS batchsize r (bh_scalars batch)\<rparr>;
         (points, ok) = batch_points pk RS batchsize (bh_points batch);
         batch = batch\<lparr>bh_points := points\<rparr>;
         fallback = open_each ctx m pk RS batchsize valid
     in if ok
        then do {
          (p, batch) \<leftarrow> ge25519_multi_scalarmult_vartime batch (batchsize * 2 + 1);
          Some (batch, if ge25519_is_neutral_vartime p then (valid, ret) else fallback (ret OR 2))
        }
        else Some (batch, fallback ret))"

text \<open>\<open>rnd k\<close> are the random bytes of the batch \<open>k\<close>.\<close>

function batch_loop :: "crypto_hash_sha512_state \<Rightarrow> (nat \<Rightarrow> byte list) \<Rightarrow> nat \<Rightarrow> byte list list \<Rightarrow> byte list list \<Rightarrow> byte list list \<Rightarrow> nat
    \<Rightarrow> batch_heap \<Rightarrow> int list \<Rightarrow> int \<Rightarrow> (int list \<times> int) option" where
  "batch_loop ctx rnd k m pk RS num batch valid ret =
    (if num > 3
     then let batchsize = (if num > max_batch_size then max_batch_size else num)
          in do {
            (batch, v, ret) \<leftarrow> batch_step ctx (rnd k) m pk RS batchsize batch (take batchsize valid) ret;
            (vs, ret) \<leftarrow> batch_loop ctx rnd (k + 1) (drop batchsize m) (drop batchsize pk) (drop batchsize RS) (num - batchsize)
                batch (drop batchsize valid) ret;
            Some (v @ vs, ret)
          }
     else Some (open_each ctx m pk RS num valid ret))"
  by auto
termination by (relation "measure (\<lambda>(_, _, _, _, _, _, num, _). num)") (auto simp: max_batch_size_def)

declare batch_loop.simps [simp del]

definition ed25519_sign_open_batch :: "crypto_hash_sha512_state \<Rightarrow> (nat \<Rightarrow> byte list) \<Rightarrow> batch_heap \<Rightarrow> byte list list \<Rightarrow> byte list list
    \<Rightarrow> byte list list \<Rightarrow> nat \<Rightarrow> (int list \<times> int) option" where
  "ed25519_sign_open_batch ctx rnd batch m pk RS num = batch_loop ctx rnd 0 m pk RS num batch (replicate num 1) 0"

section \<open>The last scalar\<close>

definition bits_of :: "nat \<Rightarrow> nat \<Rightarrow> bool" where
  "bits_of s n \<longleftrightarrow> 0 < n \<and> 2 ^ (n - 1) \<le> s \<and> s < 2 ^ n"

definition flag_at :: "nat \<Rightarrow> u64" where "flag_at b = push_bit b 1"

lemma bit_flag_at: "bit (flag_at b) n \<longleftrightarrow> n = b \<and> b < 64"
  by (auto simp: flag_at_def bit_simps)

lemma topbit_flag: "topbit = flag_at 55"
  by (simp only: topbit_def flag_at_def) simp

lemma flag_test: "x AND flag_at b \<noteq> 0 \<longleftrightarrow> bit x b"
proof
  assume "bit x b"
  then have "bit (x AND flag_at b) b" using bit_imp_le_length [of x b] by (simp add: bit_and_iff bit_flag_at)
  then show "x AND flag_at b \<noteq> 0" by auto
next
  assume "x AND flag_at b \<noteq> 0"
  then obtain n where "bit (x AND flag_at b) n" by (metis bit_0_eq bit_eq_iff bot_apply bot_bool_def)
  then show "bit x b" by (auto simp: bit_and_iff bit_flag_at)
qed

lemma flag_half: "b < 64 \<Longrightarrow> drop_bit (Suc 0) (flag_at b) = (if b = 0 then 0 else flag_at (b - 1))"
  by (rule bit_word_eqI) (auto simp: bit_drop_bit_eq bit_flag_at)

lemma flag_zero: "b < 64 \<Longrightarrow> flag_at b \<noteq> 0"
  using bit_flag_at [of b b] by auto

lemma odd_unat_div: "odd (unat (x :: u64) div 2 ^ b) \<longleftrightarrow> bit x b"
  by (metis bit_iff_odd bit_unsigned_iff possible_bit_nat)

lemma find_flag_correct:
  assumes "unat x < 2 ^ Suc b" "x \<noteq> 0" "b < 64"
  shows "\<exists>t \<le> b. find_flag x (flag_at b) = Some (flag_at t) \<and> bit x t \<and> unat x < 2 ^ Suc t"
  using assms(1,3)
proof (induction b)
  case 0
  then have "unat x = 1" using assms(2) by (simp add: less_2_cases_iff unsigned_eq_0_iff)
  then have "bit x 0" using odd_unat_div [of x 0] by simp
  then show ?case using 0 flag_test [of x 0] by (subst find_flag.simps) simp
next
  case (Suc b)
  show ?case
  proof (cases "bit x (Suc b)")
    case True
    then show ?thesis using Suc.prems flag_test [of x "Suc b"] by (subst find_flag.simps) (auto intro!: exI [of _ "Suc b"])
  next
    case False
    have "unat x < 2 ^ Suc b"
    proof (rule ccontr)
      assume "\<not> unat x < 2 ^ Suc b"
      then have "unat x div 2 ^ Suc b = 1" using Suc.prems by (intro div_nat_eqI) simp_all
      then show False using False odd_unat_div [of x "Suc b"] by simp
    qed
    then obtain t where "t \<le> b" "find_flag x (flag_at b) = Some (flag_at t)" "bit x t" "unat x < 2 ^ Suc t" using Suc by auto
    moreover have "find_flag x (flag_at (Suc b)) = find_flag x (flag_at b)"
      using False flag_test [of x "Suc b"] flag_half [of "Suc b"] Suc.prems by (subst find_flag.simps) simp
    ultimately show ?thesis by (intro exI [of _ t]) simp
  qed
qed

lemma find_limb_correct:
  assumes "\<exists>i \<le> n. x ! i \<noteq> 0"
  shows "\<exists>k \<le> n. find_limb x n = Some k \<and> x ! k \<noteq> 0 \<and> (\<forall>i. k < i \<and> i \<le> n \<longrightarrow> x ! i = 0)"
  using assms
proof (induction n)
  case (Suc n)
  show ?case
  proof (cases "x ! Suc n = 0")
    case True
    then have "\<exists>i \<le> n. x ! i \<noteq> 0" using Suc.prems by (auto simp: le_Suc_eq)
    then show ?thesis using Suc.IH True by (auto simp: le_Suc_eq)
  qed auto
qed simp

text \<open>The bits that the loop still has to read.\<close>

definition bits_left :: "bignum256modm \<Rightarrow> nat \<Rightarrow> nat \<Rightarrow> nat" where
  "bits_left x limb b = low limb x + 2 ^ (56 * limb) * (unat (x ! limb) mod 2 ^ Suc b)"

lemma bits_left_step:
  "bits_left x limb b = (if bit (x ! limb) b then 2 ^ (56 * limb + b) else 0) + (low limb x + 2 ^ (56 * limb) * (unat (x ! limb) mod 2 ^ b))"
proof -
  have "unat (x ! limb) mod 2 ^ Suc b = (if bit (x ! limb) b then 2 ^ b else 0) + unat (x ! limb) mod 2 ^ b"
    using odd_unat_div [of "x ! limb" b] by (simp only: power_Suc2 mod_mult2_eq) (auto simp: mod_2_eq_odd)
  then show ?thesis by (simp add: bits_left_def algebra_simps power_add)
qed

lemma bits_left_limb:
  assumes "carried (2 ^ 32 - 1) x" "Suc limb < 5"
  shows "low (Suc limb) x = bits_left x limb 55"
proof -
  have "unat (x ! limb) \<le> 2 ^ 56 - 1" using assms by (intro carried_limb) simp_all
  then show ?thesis by (simp add: bits_left_def low_Suc)
qed

text \<open>
  Logarithms as a relation: the points a computation produces are related to numbers, and additions and doublings of points to
  additions and doublings of numbers. A discrete logarithm is one; another one is freely generated by any points with any numbers,
  and then says that a point is computed as a combination of them.
\<close>

definition log_relation :: "(fp4 \<Rightarrow> 'a :: comm_ring_1 \<Rightarrow> bool) \<Rightarrow> bool" where
  "log_relation L \<longleftrightarrow> L ed_neutral 0 \<and> (\<forall>P x. L P x \<longrightarrow> L (ed_double P) (2 * x)) \<and> (\<forall>P x Q y. L P x \<and> L Q y \<longrightarrow> L (ed_add P Q) (x + y))"

lemma log_relationD:
  assumes "log_relation L"
  shows "L ed_neutral 0" "L P x \<Longrightarrow> L (ed_double P) (2 * x)" "L P x \<Longrightarrow> L Q y \<Longrightarrow> L (ed_add P Q) (x + y)"
  using assms unfolding log_relation_def by blast+

lemma discrete_log_relation: "discrete_log S l \<Longrightarrow> log_relation (\<lambda>P x. P \<in> S \<and> l P = x)"
  by (auto simp: log_relation_def discrete_log_def)

inductive combination :: "(fp4 \<times> 'a :: comm_ring_1) set \<Rightarrow> fp4 \<Rightarrow> 'a \<Rightarrow> bool" for G where
  comb_generator: "(P, x) \<in> G \<Longrightarrow> combination G P x"
| comb_neutral: "combination G ed_neutral 0"
| comb_double: "combination G P x \<Longrightarrow> combination G (ed_double P) (2 * x)"
| comb_add: "combination G P x \<Longrightarrow> combination G Q y \<Longrightarrow> combination G (ed_add P Q) (x + y)"

lemma combination_relation: "log_relation (combination G)"
  by (auto simp: log_relation_def intro: combination.intros)

lemma exponentiate_log:
  assumes "log_relation L" "carried (2 ^ 32 - 1) x" "ge_rep point P" "L P lP"
    "limb < 5" "b < 56" "ge_rep r R" "L R lR"
  shows "\<exists>Q. ge_rep (exponentiate x point r limb (flag_at b)) Q
    \<and> L Q (2 ^ (56 * limb + b + 1) * lR + of_nat (bits_left x limb b) * lP)"
  using assms(5-8)
proof (induction "56 * limb + b" arbitrary: limb b r R lR rule: less_induct)
  case less
  note D = log_relationD [OF assms(1)]
  define lR' where "lR' = 2 * lR + (if bit (x ! limb) b then lP else 0)"
  define r' where "r' = (if x ! limb AND flag_at b \<noteq> 0 then ge25519_add (ge25519_double r) point else ge25519_double r)"
  define R' where "R' = (if bit (x ! limb) b then ed_add (ed_double R) P else ed_double R)"
  have rep: "ge_rep r' R'" unfolding r'_def R'_def flag_test using assms(3) less.prems(3) by (simp add: add_rep double_rep ge_rep_partial)
  have R': "L R' lR'" using less.prems(4) assms(4) by (simp add: R'_def lR'_def D)
  have step: "exponentiate x point r limb (flag_at b) = (if b = 0 then if limb = 0 then r' else exponentiate x point r' (limb - 1) topbit
      else exponentiate x point r' limb (flag_at (b - 1)))"
    using less.prems(2) by (subst exponentiate.simps) (cases "b = 0"; simp add: Let_def r'_def flag_half flag_zero)
  show ?case
  proof (cases "b = 0")
    case b: True
    show ?thesis
    proof (cases limb)
      case 0
      then have "2 ^ (56 * limb + b + 1) * lR + of_nat (bits_left x limb b) * lP = lR'"
        using b by (auto simp: bits_left_step low_def lR'_def algebra_simps)
      then show ?thesis using step rep R' b 0 by (intro exI [of _ R']) simp
    next
      case (Suc k)
      then obtain Q where Q: "ge_rep (exponentiate x point r' k (flag_at 55)) Q" "L Q (2 ^ (56 * k + 55 + 1) * lR' + of_nat (bits_left x k 55) * lP)"
        using less.hyps [of k 55 r' R' lR'] less.prems rep R' by auto
      have "low (Suc k) x = bits_left x k 55" using bits_left_limb [OF assms(2), of k] less.prems Suc by simp
      then have "2 ^ (56 * k + 55 + 1) * lR' + of_nat (bits_left x k 55) * lP
          = 2 ^ (56 * limb + b + 1) * lR + of_nat (bits_left x limb b) * lP"
        using b Suc by (simp add: bits_left_step [of x "Suc k"] lR'_def algebra_simps power_add)
      then show ?thesis using step b Suc Q by (intro exI [of _ Q]) (simp add: topbit_flag)
    qed
  next
    case False
    then obtain c where c: "b = Suc c" by (cases b) auto
    then obtain Q where Q: "ge_rep (exponentiate x point r' limb (flag_at c)) Q" "L Q (2 ^ (56 * limb + c + 1) * lR' + of_nat (bits_left x limb c) * lP)"
      using less.hyps [of limb c r' R' lR'] less.prems rep R' by auto
    have "bits_left x limb (Suc c) = (if bit (x ! limb) (Suc c) then 2 ^ (56 * limb + Suc c) else 0) + bits_left x limb c"
      by (subst bits_left_step) (simp add: bits_left_def)
    then have "2 ^ (56 * limb + c + 1) * lR' + of_nat (bits_left x limb c) * lP
        = 2 ^ (56 * limb + b + 1) * lR + of_nat (bits_left x limb b) * lP"
      using c by (simp add: lR'_def algebra_simps power_add)
    then show ?thesis using step c Q by (intro exI [of _ Q]) simp
  qed
qed


text \<open>The last scalar multiplication starts from the point and reads the leading bit again: for scalars above one it
  computes the multiple by \<open>2 ^ n + s\<close> where \<open>s\<close> has \<open>n\<close> bits.\<close>

lemma final_correct:
  assumes "log_relation L" "carried (2 ^ 32 - 1) x" "mval x < 2 ^ 224" "ge_rep point P" "L P lP"
  shows "\<exists>r Q. ge25519_multi_scalarmult_vartime_final point x = Some r \<and> ge_rep r Q
    \<and> (if mval x \<le> 1 then L Q (of_nat (mval x) * lP) else \<exists>n. bits_of (mval x) n \<and> L Q (of_nat (2 ^ n + mval x) * lP))"
proof (cases "mval x \<le> 1")
  case True
  have "ge_rep \<lparr>ge_x = [0, 0, 0, 0, 0], ge_y = [1, 0, 0, 0, 0], ge_z = [1, 0, 0, 0, 0], ge_t = [0, 0, 0, 0, 0]\<rparr> ed_neutral"
    using set_neutral_rep by (simp add: ge25519_set_neutral_def)
  moreover have "L ed_neutral 0" using log_relationD(1) [OF assms(1)] .
  ultimately have neutral: "ge_rep \<lparr>ge_x = [0, 0, 0, 0, 0], ge_y = [1, 0, 0, 0, 0], ge_z = [1, 0, 0, 0, 0], ge_t = [0, 0, 0, 0, 0]\<rparr> ed_neutral
    \<and> L ed_neutral 0" by blast
  consider "mval x = 0" | "mval x = 1" using True by linarith
  then show ?thesis
  proof cases
    case 1
    then show ?thesis
      using neutral isone256_modm_batch_correct [OF assms(2)] iszero256_modm_batch_correct [OF assms(2)]
      by (intro exI [of _ ed_neutral] exI) (simp add: ge25519_multi_scalarmult_vartime_final_def)
  next
    case 2
    then show ?thesis
      using assms(4,5) isone256_modm_batch_correct [OF assms(2)]
      by (intro exI [of _ P] exI) (simp add: ge25519_multi_scalarmult_vartime_final_def)
  qed
next
  case False
  have fits: "fits 3 x" using assms(2,3) by (simp add: fits_def)
  then have zero: "x ! i = 0" if "3 < i" "i < 5" for i using fits_zero that by blast
  have "\<exists>i \<le> 3. x ! i \<noteq> 0"
  proof (rule ccontr)
    assume "\<not> (\<exists>i \<le> 3. x ! i \<noteq> 0)"
    then have "x ! i = 0" if "i < 5" for i using that zero [of i] by (cases "i \<le> 3") auto
    then have "mval x = 0" by (simp add: mval_def)
    then show False using False by simp
  qed
  from find_limb_correct [OF this] obtain k where k: "k \<le> 3" "find_limb x 3 = Some k" "x ! k \<noteq> 0" "\<And>i. k < i \<Longrightarrow> i \<le> 3 \<Longrightarrow> x ! i = 0" by blast
  have "unat (x ! k) \<le> 2 ^ 56 - 1" using k assms(2) by (intro carried_limb) simp_all
  then have "unat (x ! k) < 2 ^ Suc 55" by simp
  from find_flag_correct [OF this k(3)] obtain t where t: "t \<le> 55" "find_flag (x ! k) (flag_at 55) = Some (flag_at t)" "bit (x ! k) t" "unat (x ! k) < 2 ^ Suc t" by auto
  have "fits k x"
  proof -
    have "mval x = low 5 x" by (rule mval_low)
    also have "\<dots> = low (k + 1) x + (\<Sum>i = k + 1..<5. 2 ^ (56 * i) * unat (x ! i))"
      unfolding low_def lessThan_atLeast0 using k(1) by (intro sum.atLeastLessThan_concat [symmetric]) simp_all
    also have "(\<Sum>i = k + 1..<5. 2 ^ (56 * i) * unat (x ! i)) = 0"
    proof (intro sum.neutral ballI)
      fix i assume "i \<in> {k + 1..<5}"
      then show "2 ^ (56 * i) * unat (x ! i) = 0" using k(4) [of i] zero [of i] by (cases "i \<le> 3") simp_all
    qed
    finally show ?thesis using low_less [OF assms(2), of "k + 1"] k(1) assms(2) by (simp add: fits_def)
  qed
  then have v: "bits_left x k t = mval x" using t(4) by (simp add: bits_left_def fits_low low_Suc)
  have "low k x < 2 ^ (56 * k)" using low_less [OF assms(2)] k(1) by simp
  then have "bits_of (mval x) (56 * k + t + 1)" 
  proof -
    define a where "a = unat (x ! k)"
    have m: "mval x = low k x + 2 ^ (56 * k) * a" using \<open>fits k x\<close> by (simp add: fits_low low_Suc a_def)
    have "2 ^ t \<le> a" using t(3) odd_unat_div [of "x ! k" t] by (metis a_def div_less even_zero linorder_not_less)
    then have "2 ^ (56 * k + t) \<le> low k x + 2 ^ (56 * k) * a" unfolding power_add by (intro trans_le_add2 mult_le_mono2)
    moreover have "2 ^ (56 * k) * (a + 1) \<le> 2 ^ (56 * k) * 2 ^ Suc t" using t(4) by (intro mult_le_mono2) (simp add: a_def)
    ultimately show ?thesis using \<open>low k x < 2 ^ (56 * k)\<close> unfolding bits_of_def m by simp (simp add: power_add)
  qed
  moreover obtain Q where Q: "ge_rep (exponentiate x point point k (flag_at t)) Q"
      "L Q (2 ^ (56 * k + t + 1) * lP + of_nat (mval x) * lP)"
    using exponentiate_log [OF assms(1,2,4,5) _ _ assms(4,5), of k t] k(1) t(1) v by auto
  moreover have "ge25519_multi_scalarmult_vartime_final point x = Some (exponentiate x point point k (flag_at t))"
    using False k(2) t(2) isone256_modm_batch_correct [OF assms(2)] iszero256_modm_batch_correct [OF assms(2)]
    by (simp add: ge25519_multi_scalarmult_vartime_final_def limb128bits_def topbit_flag)
  moreover have "L Q (of_nat (2 ^ (56 * k + t + 1) + mval x) * lP)" using Q(2) by (simp only: of_nat_add of_nat_power of_nat_numeral distrib_right)
  ultimately show ?thesis unfolding if_not_P [OF False] by blast
qed

section \<open>The loop over the two largest scalars\<close>

abbreviation scal :: "batch_heap \<Rightarrow> nat \<Rightarrow> nat" where
  "scal h i \<equiv> mval (bh_scalars h ! i)"

text \<open>Until the heap is extended to the 128-bit scalars all limbs are in use, or it holds a scalar of at least 128 bits and there
  are three; so the limbs in use are enough for the scalars that come in.\<close>

definition multi_inv :: "nat \<Rightarrow> nat \<Rightarrow> bool \<Rightarrow> batch_heap \<Rightarrow> bool" where
  "multi_inv cnt n ext h \<longleftrightarrow> heap_inv n h \<and> odd (bh_size h) \<and> 3 \<le> bh_size h \<and> bh_size h \<le> cnt \<and> odd cnt
    \<and> cnt \<le> length (bh_heap h) \<and> cnt \<le> length (bh_scalars h) \<and> cnt \<le> length (bh_points h)
    \<and> (\<forall>i < cnt. fits 4 (bh_scalars h ! i)) \<and> (\<forall>i < cnt. bh_size h \<le> i \<longrightarrow> scal h i < 2 ^ 128)
    \<and> (if ext then bh_size h = cnt
       else n = 4 \<or> 2 \<le> n \<and> (\<exists>i < bh_size h. 2 ^ 127 \<le> scal h i))"

lemma fits_4: "fits n x \<Longrightarrow> fits 4 x"
proof -
  assume f: "fits n x"
  then have "(2 :: nat) ^ (56 * (n + 1)) \<le> 2 ^ (56 * (4 + 1))" unfolding fits_def by (intro power_increasing) simp_all
  then show "fits 4 x" using f unfolding fits_def by (meson le_refl less_le_trans)
qed

lemma fits_drop:
  assumes "fits n x" "x ! n = 0"
  shows "mval x < 2 ^ (56 * n)"
  using assms low_less [of x n] fits_low [OF assms(1)] by (simp add: low_Suc fits_def)

text \<open>One limb less.\<close>

lemma limbsize_step:
  assumes "heap_inv n h" "3 \<le> bh_size h" "heap_get_top2 h n = (a, b)" "0 < scal h a"
  defines "n' \<equiv> (if bh_scalars h ! a ! n = 0 then (n + (2 ^ 64 - 1)) mod 2 ^ 64 else n)"
  shows "heap_inv n' h" "n' \<le> n" "n \<le> Suc n'" "n' \<noteq> n \<Longrightarrow> scal h a < 2 ^ (56 * n)"
proof -
  note t = heap_get_top2_correct [OF assms(1,2,3)]
  have f: "fits n (bh_scalars h ! a)" using heap_invD(3) [OF assms(1)] t(1) by blast
  have "heap_inv n' h \<and> n' \<le> n \<and> n \<le> Suc n' \<and> (n' \<noteq> n \<longrightarrow> scal h a < 2 ^ (56 * n))"
  proof (cases "bh_scalars h ! a ! n = 0")
    case True
    have lt: "scal h a < 2 ^ (56 * n)" using fits_drop [OF f True] .
    have n0: "n \<noteq> 0" using lt assms(4) by (intro notI) simp
    have n4: "n \<le> 4" using f by (simp add: fits_def)
    have "n' = ((n - 1) + 2 ^ 64) mod 2 ^ 64" using True n0 by (simp add: n'_def add.commute)
    then have n': "n' = n - 1" using n4 by simp
    have "heap_inv (n - 1) h" using n4 n0 le_less_trans [OF t(5) lt] by (intro heap_inv_limbs [OF assms(1)]) simp_all
    then show ?thesis using n' lt by simp
  qed (simp add: n'_def assms(1))
  then show "heap_inv n' h" "n' \<le> n" "n \<le> Suc n'" "n' \<noteq> n \<Longrightarrow> scal h a < 2 ^ (56 * n)" by auto
qed

text \<open>The subtraction and the addition of points.\<close>

definition multi_reduce :: "batch_heap \<Rightarrow> nat \<Rightarrow> nat \<Rightarrow> nat \<Rightarrow> batch_heap" where
  "multi_reduce h n a b = heap_updated_root
     (h\<lparr>bh_scalars := (bh_scalars h)[a := sub256_modm_batch (bh_scalars h ! a) (bh_scalars h ! a) (bh_scalars h ! b) n],
        bh_points := (bh_points h)[b := ge25519_add (bh_points h ! b) (bh_points h ! a)]\<rparr>) n"

lemma multi_reduce_correct:
  assumes "heap_inv n h" "3 \<le> bh_size h" "odd (bh_size h)" "bh_size h \<le> length (bh_scalars h)" "heap_get_top2 h n = (a, b)"
  shows "heap_inv n (multi_reduce h n a b)" "bh_size (multi_reduce h n a b) = bh_size h"
    "length (bh_heap (multi_reduce h n a b)) = length (bh_heap h)"
    "length (bh_scalars (multi_reduce h n a b)) = length (bh_scalars h)"
    "bh_points (multi_reduce h n a b) = (bh_points h)[b := ge25519_add (bh_points h ! b) (bh_points h ! a)]"
    "\<And>i. i \<noteq> a \<Longrightarrow> bh_scalars (multi_reduce h n a b) ! i = bh_scalars h ! i"
    "fits n (bh_scalars (multi_reduce h n a b) ! a)" "scal (multi_reduce h n a b) a = scal h a - scal h b"
proof -
  note t = heap_get_top2_correct [OF assms(1,2,5)]
  have f: "fits n (bh_scalars h ! a)" "fits n (bh_scalars h ! b)" using heap_invD(3) [OF assms(1)] t by blast+
  note s = sub256_modm_batch_correct [OF f t(5) [OF t(2)]]
  note u = heap_updated_root_inv [OF assms(1,3,2) s(1) t(4) assms(4), of "(bh_points h)[b := ge25519_add (bh_points h ! b) (bh_points h ! a)]",
      folded multi_reduce_def]
  show "heap_inv n (multi_reduce h n a b)" "bh_size (multi_reduce h n a b) = bh_size h"
    "length (bh_heap (multi_reduce h n a b)) = length (bh_heap h)" "length (bh_scalars (multi_reduce h n a b)) = length (bh_scalars h)"
    "bh_points (multi_reduce h n a b) = (bh_points h)[b := ge25519_add (bh_points h ! b) (bh_points h ! a)]"
    "\<And>i. i \<noteq> a \<Longrightarrow> bh_scalars (multi_reduce h n a b) ! i = bh_scalars h ! i"
    using u by simp_all
  show "fits n (bh_scalars (multi_reduce h n a b) ! a)" "scal (multi_reduce h n a b) a = scal h a - scal h b"
    using u(4) s t(1) assms(4) by simp_all
qed

definition multi_next :: "nat \<Rightarrow> batch_heap \<Rightarrow> batch_heap \<Rightarrow> bool" where
  "multi_next cnt h h' \<longleftrightarrow> (\<exists>a < bh_size h'. \<exists>b < bh_size h'. a \<noteq> b \<and> 0 < scal h b \<and> scal h b \<le> scal h a
    \<and> (\<forall>i < cnt. scal h' i = (if i = a then scal h a - scal h b else scal h i))
    \<and> bh_points h' = (bh_points h)[b := ge25519_add (bh_points h ! b) (bh_points h ! a)])"

lemma multi_reduce_next:
  assumes "heap_inv n h" "3 \<le> bh_size h" "odd (bh_size h)" "cnt \<le> length (bh_scalars h)" "bh_size h \<le> cnt"
    "heap_get_top2 h n = (a, b)" "0 < scal h b"
  shows "multi_next cnt h (multi_reduce h n a b)"
proof -
  note t = heap_get_top2_correct [OF assms(1,2,6)]
  have "bh_size h \<le> length (bh_scalars h)" using assms(4,5) by simp
  note r = multi_reduce_correct [OF assms(1,2,3) this assms(6)]
  show ?thesis unfolding multi_next_def r(2)
    using t assms(7) r(5,6,8) by (intro exI [of _ a] exI [of _ b] conjI) auto
qed

lemma multi_reduce_inv:
  assumes "multi_inv cnt n ext h" "heap_inv m h" "heap_get_top2 h m = (a, b)" "\<not> ext \<Longrightarrow> 2 ^ 128 \<le> scal h a"
  shows "multi_inv cnt m ext (multi_reduce h m a b)" "\<not> ext \<Longrightarrow> \<exists>i < bh_size h. 2 ^ 127 \<le> scal (multi_reduce h m a b) i"
proof -
  have i: "odd (bh_size h)" "3 \<le> bh_size h" "bh_size h \<le> cnt" "cnt \<le> length (bh_scalars h)" "bh_size h \<le> length (bh_scalars h)"
    using assms(1) by (simp_all add: multi_inv_def)
  note t = heap_get_top2_correct [OF assms(2) i(2) assms(3)]
  note r = multi_reduce_correct [OF assms(2) i(2,1,5) assms(3)]
  have big: "2 \<le> m \<and> (\<exists>i < bh_size h. 2 ^ 127 \<le> scal (multi_reduce h m a b) i)" if "\<not> ext"
  proof
    have big: "2 ^ 128 \<le> scal h a" using assms(4) that .
    have "fits m (bh_scalars h ! a)" using heap_invD(3) [OF assms(2)] t(1) by blast
    then have "(2 :: nat) ^ 128 < 2 ^ (56 * (m + 1))" using big unfolding fits_def by linarith
    then have "128 < 56 * (m + 1)" by (simp only: power_strict_increasing_iff)
    then show "2 \<le> m" by simp
    show "\<exists>i < bh_size h. 2 ^ 127 \<le> scal (multi_reduce h m a b) i"
    proof (cases "2 ^ 127 \<le> scal h b")
      case True
      then show ?thesis using r(6) [of b] t(2,3) by auto
    next
      case False
      then have "2 ^ 127 \<le> scal h a - scal h b" using big by simp
      then show ?thesis using r(8) t(1) by auto
    qed
  qed
  have "fits 4 (bh_scalars (multi_reduce h m a b) ! i)" if "i < cnt" for i
    using assms(1) that r(6) [of i] fits_4 [OF r(7)] by (cases "i = a") (simp_all add: multi_inv_def)
  moreover have "scal (multi_reduce h m a b) i < 2 ^ 128" if "i < cnt" "bh_size h \<le> i" for i
    using assms(1) that t(1) r(6) [of i] by (simp add: multi_inv_def)
  ultimately show "multi_inv cnt m ext (multi_reduce h m a b)" using assms(1) r(1-5) big unfolding multi_inv_def by simp
  show "\<not> ext \<Longrightarrow> \<exists>i < bh_size h. 2 ^ 127 \<le> scal (multi_reduce h m a b) i" using big by blast
qed

lemma multi_stop:
  assumes "heap_get_top2 h n = (a, b)" "carried (2 ^ 32 - 1) (bh_scalars h ! b)" "scal h b = 0"
  shows "multi_loop cnt h n ext = Some (h, a)"
  using assms iszero256_modm_batch_correct [OF assms(2)] by (subst multi_loop.simps) simp

lemma top2_limbs:
  assumes "heap_inv n h" "heap_inv m h" "3 \<le> bh_size h"
  shows "heap_get_top2 h n = heap_get_top2 h m"
  using heap_invD(5) [OF assms(1)] heap_invD(5) [OF assms(2)] assms(3)
  by (simp add: heap_get_top2_def Let_def lt256_modm_batch_correct)

text \<open>The heap after the extension to the 128-bit scalars.\<close>

lemma multi_extend:
  assumes "multi_inv cnt n False h" "heap_inv m h" "2 \<le> m" "\<And>i. i < bh_size h \<Longrightarrow> scal h i < 2 ^ 128"
  defines "g \<equiv> heap_extend h cnt"
  shows "multi_inv cnt m True g" "bh_scalars g = bh_scalars h" "bh_points g = bh_points h" "heap_inv m g" "bh_size g = cnt"
proof -
  have i: "heap_inv n h" "odd (bh_size h)" "3 \<le> bh_size h" "bh_size h \<le> cnt" "cnt \<le> length (bh_scalars h)" "cnt \<le> length (bh_heap h)"
      "\<forall>i < cnt. fits 4 (bh_scalars h ! i)" "\<forall>i < cnt. bh_size h \<le> i \<longrightarrow> scal h i < 2 ^ 128" "odd cnt"
    using assms(1) by (simp_all add: multi_inv_def)
  have "heap_inv 4 h"
    using fits_4 heap_invD(3) [OF i(1)] by (intro heap_inv_limbs [OF i(1)]) (auto simp: fits_def)
  from heap_extend_inv [OF this i(4,6,7)]
  have g: "heap_inv 4 g" "bh_size g = cnt" "length (bh_heap g) = length (bh_heap h)" "bh_scalars g = bh_scalars h" "bh_points g = bh_points h"
    by (simp_all add: g_def)
  have m: "m \<le> 4" using heap_invD(3) [OF assms(2), of 0] i(3) by (simp add: fits_def)
  have "scal g i < 2 ^ (56 * (m + 1))" if "i < bh_size g" for i
  proof -
    have "scal h i < 2 ^ 128" using assms(4) [of i] i(8) that g(2) by (cases "i < bh_size h") simp_all
    also have "\<dots> \<le> 2 ^ (56 * (m + 1))" using assms(3) by (intro power_increasing) simp_all
    finally show ?thesis by (simp add: g(4))
  qed
  then show "heap_inv m g" using m by (intro heap_inv_limbs [OF g(1)])
  then show "multi_inv cnt m True g" using assms(1) g by (simp add: multi_inv_def)
  show "bh_scalars g = bh_scalars h" "bh_points g = bh_points h" "bh_size g = cnt" by (fact g)+
qed

lemma multi_step:
  assumes "multi_inv cnt n ext h" "heap_get_top2 h n = (a, b)" "scal h b \<noteq> 0"
  shows "\<exists>h' n' ext'. multi_loop cnt h n ext = multi_loop cnt h' n' ext' \<and> multi_inv cnt n' ext' h' \<and> multi_next cnt h h'
    \<and> (if ext' then ext \<or> bh_size h' = cnt else \<not> ext \<and> (\<exists>i < bh_size h'. 2 ^ 127 \<le> scal h' i)) \<and> (ext = ext' \<longrightarrow> bh_size h' = bh_size h)"
proof -
  have i: "heap_inv n h" "odd (bh_size h)" "3 \<le> bh_size h" "bh_size h \<le> cnt" "cnt \<le> length (bh_scalars h)" "odd cnt" "bh_size h \<le> length (bh_scalars h)"
    using assms(1) by (simp_all add: multi_inv_def)
  note t = heap_get_top2_correct [OF i(1,3) assms(2)]
  have pos: "0 < scal h b" "0 < scal h a" using assms(3) t(5) [OF t(2)] by simp_all
  have c: "carried (2 ^ 32 - 1) (bh_scalars h ! a)" "carried (2 ^ 32 - 1) (bh_scalars h ! b)" "n \<le> 4"
    using heap_invD(3) [OF i(1)] t(1,2) by (auto simp: fits_def)
  note tests = iszero256_modm_batch_correct [OF c(2)] isatmost128bits256_modm_batch_correct [OF c(1)]
  define m where "m = (if bh_scalars h ! a ! n = 0 then (n + (2 ^ 64 - 1)) mod 2 ^ 64 else n)"
  note m = limbsize_step [OF i(1,3) assms(2) pos(2), folded m_def]
  show ?thesis
  proof (cases "\<not> ext \<and> scal h a < 2 ^ 128")
    case False
    have top: "heap_get_top2 h m = (a, b)" using top2_limbs [OF i(1) m(1) i(3)] assms(2) by simp
    have "multi_inv cnt m ext (multi_reduce h m a b)" "multi_next cnt h (multi_reduce h m a b)"
        "\<not> ext \<Longrightarrow> \<exists>i < bh_size h. 2 ^ 127 \<le> scal (multi_reduce h m a b) i"
      using multi_reduce_inv [OF assms(1) m(1) top] multi_reduce_next [OF m(1) i(3,2,5,4) top] False pos by auto
    moreover have "multi_loop cnt h n ext = multi_loop cnt (multi_reduce h m a b) m ext"
      using c(3) assms(3) tests False by (subst multi_loop.simps) (auto simp: assms(2) Let_def m_def [symmetric] multi_reduce_def)
    moreover have "bh_size (multi_reduce h m a b) = bh_size h" using multi_reduce_correct(2) [OF m(1) i(3,2,7) top] .
    ultimately show ?thesis by (intro exI [of _ "multi_reduce h m a b"] exI [of _ m] exI [of _ ext]) (cases ext; simp)
  next
    case True
    define g where "g = heap_extend h cnt"
    have two: "2 \<le> m"
    proof (rule ccontr)
      assume "\<not> 2 \<le> m"
      then have "n \<le> 2" "n \<noteq> 4" using m(3) by simp_all
      then have n: "2 \<le> n" "\<exists>i < bh_size h. 2 ^ 127 \<le> scal h i" using assms(1) True by (auto simp: multi_inv_def)
      then have "2 ^ 127 \<le> scal h a" using t(5) order_trans by blast
      moreover have "n = 2" "m \<noteq> n" using n \<open>n \<le> 2\<close> \<open>\<not> 2 \<le> m\<close> by auto
      ultimately show False using m(4) by simp
    qed
    have small: "scal h i < 2 ^ 128" if "i < bh_size h" for i using t(5) [OF that] True by linarith
    have "multi_inv cnt n False h" using assms(1) True by simp
    note g = multi_extend [OF this m(1) two small, folded g_def]
    obtain a' b' where top: "heap_get_top2 g m = (a', b')" by fastforce
    have g3: "3 \<le> bh_size g" "odd (bh_size g)" "cnt \<le> length (bh_scalars g)" "bh_size g \<le> cnt" using g i by simp_all
    note t' = heap_get_top2_correct [OF g(4) g3(1) top]
    have "0 < scal g b'"
    proof (cases "a = a'")
      case True
      then show ?thesis using t'(6) [of b] t(2,3) pos(1) g i(4) by simp
    next
      case False
      then show ?thesis using t'(6) [of a] t(1) pos(2) g i(4) by simp
    qed
    then have "multi_inv cnt m True (multi_reduce g m a' b')" "multi_next cnt g (multi_reduce g m a' b')"
      using multi_reduce_inv [OF g(1,4) top] multi_reduce_next [OF g(4) g3 top] by auto
    moreover have "multi_next cnt h h' = multi_next cnt g h'" for h' by (simp add: multi_next_def g)
    moreover have "multi_loop cnt h n ext = multi_loop cnt (multi_reduce g m a' b') m True"
      using c(3) assms(3) tests True top
      by (subst multi_loop.simps) (auto simp: assms(2) Let_def m_def [symmetric] g_def [symmetric] multi_reduce_def)
    moreover have "bh_size (multi_reduce g m a' b') = cnt"
      using multi_reduce_correct(2) [OF g(4) g3(1,2) _ top] g3 g(5) by simp
    ultimately show ?thesis using True by (intro exI [of _ "multi_reduce g m a' b'"] exI [of _ m] exI [of _ True]) simp
  qed
qed

lemma Gcd_cong:
  fixes s t :: "nat \<Rightarrow> nat"
  assumes "\<And>d. (\<forall>i < n. d dvd s i) \<longleftrightarrow> (\<forall>i < n. d dvd t i)"
  shows "Gcd (s ` {..<n}) = Gcd (t ` {..<n})"
proof (rule dvd_antisym)
  have "\<forall>i < n. Gcd (s ` {..<n}) dvd s i" "\<forall>i < n. Gcd (t ` {..<n}) dvd t i" by auto
  then have "\<forall>i < n. Gcd (s ` {..<n}) dvd t i" "\<forall>i < n. Gcd (t ` {..<n}) dvd s i" using assms by blast+
  then show "Gcd (s ` {..<n}) dvd Gcd (t ` {..<n})" "Gcd (t ` {..<n}) dvd Gcd (s ` {..<n})" by (auto intro: Gcd_greatest)
qed

text \<open>What one iteration keeps: the common divisors, and the linear combination of the points.\<close>

lemma multi_next_dvd:
  assumes "multi_next cnt h h'" "bh_size h' \<le> k" "k \<le> cnt"
  shows "(\<forall>i < k. d dvd scal h' i) \<longleftrightarrow> (\<forall>i < k. d dvd scal h i)"
proof -
  obtain a b where ab: "a < bh_size h'" "b < bh_size h'" "a \<noteq> b" "scal h b \<le> scal h a"
      "\<forall>i < cnt. scal h' i = (if i = a then scal h a - scal h b else scal h i)"
    using assms(1) by (auto simp: multi_next_def)
  have k: "a < k" "b < k" "b < cnt" using ab assms by auto
  have "d dvd scal h a - scal h b \<longleftrightarrow> d dvd scal h a" if "d dvd scal h b" for d
    using that ab(4) by (meson dvd_diffD dvd_diff_nat)
  then show ?thesis using ab k assms(3) by (metis (no_types) order_less_le_trans)
qed

lemma multi_next_sum:
  fixes L :: "fp4 \<Rightarrow> 'a :: comm_ring_1 \<Rightarrow> bool"
  assumes "multi_next cnt h h'" "bh_size h' \<le> cnt" "log_relation L" "\<forall>i < cnt. ge_rep (bh_points h ! i) (P i) \<and> L (P i) (p i)"
    "cnt \<le> length (bh_points h)"
  shows "\<exists>Q q. (\<forall>i < cnt. ge_rep (bh_points h' ! i) (Q i) \<and> L (Q i) (q i))
    \<and> (\<Sum>i < cnt. of_nat (scal h' i) * q i) = (\<Sum>i < cnt. of_nat (scal h i) * p i)
    \<and> (\<Sum>i < cnt. scal h' i) < (\<Sum>i < cnt. scal h i)"
proof -
  obtain a b where ab: "a < cnt" "b < cnt" "a \<noteq> b" "scal h b \<le> scal h a" "0 < scal h b"
      "\<And>i. i < cnt \<Longrightarrow> scal h' i = (if i = a then scal h a - scal h b else scal h i)"
      "bh_points h' = (bh_points h)[b := ge25519_add (bh_points h ! b) (bh_points h ! a)]"
    using assms(1,2) unfolding multi_next_def by (meson less_le_trans)
  define Q where "Q = P(b := ed_add (P b) (P a))"
  define q where "q = p(b := p b + p a)"
  have Q: "ge_rep (bh_points h' ! i) (Q i) \<and> L (Q i) (q i)" if "i < cnt" for i
    using assms(4,5) that ab(1,2) by (auto simp: Q_def q_def ab(7) add_rep log_relationD(3) [OF assms(3)])
  have split: "(\<Sum>i < cnt. f i) = f a + (f b + (\<Sum>i \<in> {..<cnt} - {a} - {b}. f i))" for f :: "nat \<Rightarrow> 'b :: comm_monoid_add"
    using ab(1-3) by (subst sum.remove [of _ a], simp, simp, subst sum.remove [of _ b], auto)
  have "(\<Sum>i \<in> {..<cnt} - {a} - {b}. of_nat (scal h' i) * q i) = (\<Sum>i \<in> {..<cnt} - {a} - {b}. of_nat (scal h i) * p i)"
    by (rule sum.cong) (auto simp: ab(6) q_def)
  then have "(\<Sum>i < cnt. of_nat (scal h' i) * q i) = (\<Sum>i < cnt. of_nat (scal h i) * p i)"
    using ab(1-4) by (simp add: split ab(6) q_def of_nat_diff algebra_simps)
  moreover have "(\<Sum>i \<in> {..<cnt} - {a} - {b}. scal h' i) = (\<Sum>i \<in> {..<cnt} - {a} - {b}. scal h i)"
    by (rule sum.cong) (auto simp: ab(6))
  then have "(\<Sum>i < cnt. scal h' i) < (\<Sum>i < cnt. scal h i)" using ab(1-5) by (simp add: split ab(6))
  ultimately show ?thesis using Q by blast
qed

lemma heap_gcd:
  assumes "heap_inv n h" "3 \<le> bh_size h" "heap_get_top2 h n = (a, b)" "scal h b = 0"
  shows "Gcd (scal h ` {..<bh_size h}) = scal h a"
proof (rule dvd_antisym)
  note t = heap_get_top2_correct [OF assms(1-3)]
  show "Gcd (scal h ` {..<bh_size h}) dvd scal h a" using t(1) by (intro Gcd_dvd) auto
  have "scal h a dvd scal h i" if "i < bh_size h" for i using t(6) [OF that] assms(4) by (cases "i = a") simp_all
  then show "scal h a dvd Gcd (scal h ` {..<bh_size h})" by (intro Gcd_greatest) blast
qed

lemma multi_loop_correct:
  fixes L :: "fp4 \<Rightarrow> 'a :: comm_ring_1 \<Rightarrow> bool"
  assumes "log_relation L" "multi_inv cnt n ext h" "\<forall>i < cnt. ge_rep (bh_points h ! i) (P i) \<and> L (P i) (p i)"
    "\<not> ext \<Longrightarrow> Gcd (scal h ` {..<bh_size h}) < 2 ^ 127"
    "\<not> ext \<Longrightarrow> (\<exists>i < bh_size h. \<exists>j < bh_size h. i \<noteq> j \<and> scal h i \<noteq> 0 \<and> scal h j \<noteq> 0) \<or> (\<exists>i < bh_size h. 2 ^ 127 \<le> scal h i)"
  shows "\<exists>h' a Q q. multi_loop cnt h n ext = Some (h', a) \<and> a < cnt \<and> ge_rep (bh_points h' ! a) Q \<and> L Q q
    \<and> fits 4 (bh_scalars h' ! a) \<and> scal h' a = Gcd (scal h ` {..<cnt})
    \<and> of_nat (scal h' a) * q = (\<Sum>i < cnt. of_nat (scal h i) * p i)"
  using assms(2-5)
proof (induction "\<Sum>i < cnt. scal h i" arbitrary: h n ext P p rule: less_induct)
  case less
  have i: "heap_inv n h" "3 \<le> bh_size h" "bh_size h \<le> cnt" "cnt \<le> length (bh_points h)" using less.prems(1) by (simp_all add: multi_inv_def)
  obtain a b where top: "heap_get_top2 h n = (a, b)" by fastforce
  note t = heap_get_top2_correct [OF i(1,2) top]
  show ?case
  proof (cases "scal h b = 0")
    case True
    then have zero: "scal h i = 0" if "i < bh_size h" "i \<noteq> a" for i using t(6) that by fastforce
    note gcd = heap_gcd [OF i(1,2) top True]
    have ext
    proof (rule ccontr)
      assume e: "\<not> ext"
      consider i j where "i < bh_size h" "j < bh_size h" "i \<noteq> j" "scal h i \<noteq> 0" "scal h j \<noteq> 0" | i where "i < bh_size h" "2 ^ 127 \<le> scal h i"
        using less.prems(4) [OF e] by blast
      then show False
      proof cases
        case 1
        then show ?thesis using zero by metis
      next
        case 2
        then have "2 ^ 127 \<le> scal h a" using t(5) order_trans by blast
        then show ?thesis using less.prems(3) [OF e] gcd by simp
      qed
    qed
    then have sz: "bh_size h = cnt" using less.prems(1) by (simp add: multi_inv_def)
    have "(\<Sum>i < cnt. of_nat (scal h i) * p i) = of_nat (scal h a) * p a"
      using zero sz t(1) by (subst sum.remove [of _ a]) (auto intro: sum.neutral)
    moreover have "fits 4 (bh_scalars h ! a)" "carried (2 ^ 32 - 1) (bh_scalars h ! b)"
      using less.prems(1) t(1,2) sz by (auto simp: multi_inv_def fits_def)
    moreover have "a < cnt" "ge_rep (bh_points h ! a) (P a)" "L (P a) (p a)" using less.prems(2) t(1) sz by simp_all
    ultimately show ?thesis using multi_stop [OF top _ True] gcd sz by metis
  next
    case False
    from multi_step [OF less.prems(1) top False] obtain h' n' ext' where
      s: "multi_loop cnt h n ext = multi_loop cnt h' n' ext'" "multi_inv cnt n' ext' h'" "multi_next cnt h h'"
        "if ext' then ext \<or> bh_size h' = cnt else \<not> ext \<and> (\<exists>i < bh_size h'. 2 ^ 127 \<le> scal h' i)" "ext = ext' \<longrightarrow> bh_size h' = bh_size h"
      by blast
    have sz: "bh_size h' \<le> cnt" using s(2) by (simp add: multi_inv_def)
    obtain Q q where Q: "\<forall>i < cnt. ge_rep (bh_points h' ! i) (Q i) \<and> L (Q i) (q i)"
        "(\<Sum>i < cnt. of_nat (scal h' i) * q i) = (\<Sum>i < cnt. of_nat (scal h i) * p i)" "(\<Sum>i < cnt. scal h' i) < (\<Sum>i < cnt. scal h i)"
      using multi_next_sum [OF s(3) sz assms(1) less.prems(2) i(4)] by blast
    have "Gcd (scal h' ` {..<cnt}) = Gcd (scal h ` {..<cnt})" by (intro Gcd_cong multi_next_dvd [OF s(3) sz]) simp
    moreover have "Gcd (scal h' ` {..<bh_size h'}) < 2 ^ 127" if "\<not> ext'"
    proof -
      have "\<not> ext" "bh_size h' = bh_size h" using s(4,5) that by simp_all
      moreover have "Gcd (scal h' ` {..<bh_size h'}) = Gcd (scal h ` {..<bh_size h'})" by (intro Gcd_cong multi_next_dvd [OF s(3) order_refl sz])
      ultimately show ?thesis using less.prems(3) by simp
    qed
    moreover have "\<exists>i < bh_size h'. 2 ^ 127 \<le> scal h' i" if "\<not> ext'" using s(4) that by simp
    ultimately show ?thesis using less.hyps [OF Q(3) s(2) Q(1)] unfolding Q(2) s(1) by presburger
  qed
qed


text \<open>The loop always ends, at the latest when the sum of the scalars is used up.\<close>

lemma multi_next_less:
  assumes "multi_next cnt h h'" "bh_size h' \<le> cnt"
  shows "(\<Sum>i < cnt. scal h' i) < (\<Sum>i < cnt. scal h i)"
proof -
  obtain a b where ab: "a < cnt" "0 < scal h b" "scal h b \<le> scal h a" "\<And>i. i < cnt \<Longrightarrow> scal h' i = (if i = a then scal h a - scal h b else scal h i)"
    using assms unfolding multi_next_def by (meson less_le_trans)
  show ?thesis
  proof (rule sum_strict_mono_ex1)
    show "\<forall>i \<in> {..<cnt}. scal h' i \<le> scal h i" using ab(4) by simp
    show "\<exists>i \<in> {..<cnt}. scal h' i < scal h i" using ab by (intro bexI [of _ a]) simp_all
  qed simp
qed

lemma multi_loop_returns:
  assumes "multi_inv cnt n ext h"
  shows "\<exists>h' a. multi_loop cnt h n ext = Some (h', a) \<and> a < cnt \<and> fits 4 (bh_scalars h' ! a) \<and> scal h' a \<le> Gcd (scal h ` {..<bh_size h})"
  using assms
proof (induction "\<Sum>i < cnt. scal h i" arbitrary: h n ext rule: less_induct)
  case less
  have i: "heap_inv n h" "3 \<le> bh_size h" "bh_size h \<le> cnt" using less.prems(1) by (simp_all add: multi_inv_def)
  obtain a b where top: "heap_get_top2 h n = (a, b)" by fastforce
  note t = heap_get_top2_correct [OF i(1,2) top]
  have f: "fits 4 (bh_scalars h ! i)" if "i < bh_size h" for i using less.prems that i(3) by (simp add: multi_inv_def)
  show ?case
  proof (cases "scal h b = 0")
    case True
    have "carried (2 ^ 32 - 1) (bh_scalars h ! b)" using f [OF t(2)] by (simp add: fits_def)
    then show ?thesis using multi_stop [OF top _ True] heap_gcd [OF i(1,2) top True] f [OF t(1)] t(1) i(3) by auto
  next
    case False
    from multi_step [OF less.prems(1) top False] obtain h' n' ext' where
      s: "multi_loop cnt h n ext = multi_loop cnt h' n' ext'" "multi_inv cnt n' ext' h'" "multi_next cnt h h'" "bh_size h \<le> bh_size h'"
      using i(3) by (auto split: if_splits)
    have sz: "bh_size h' \<le> cnt" using s(2) by (simp add: multi_inv_def)
    have "Gcd (scal h' ` {..<bh_size h'}) = Gcd (scal h ` {..<bh_size h'})" by (intro Gcd_cong multi_next_dvd [OF s(3) order_refl sz])
    also have "\<dots> dvd Gcd (scal h ` {..<bh_size h})" using s(4) by (intro Gcd_greatest Gcd_dvd) auto
    finally have "Gcd (scal h' ` {..<bh_size h'}) dvd Gcd (scal h ` {..<bh_size h})" .
    moreover have "Gcd (scal h ` {..<bh_size h}) \<noteq> 0" using False t(2) by (auto simp: Gcd_0_iff)
    ultimately have "Gcd (scal h' ` {..<bh_size h'}) \<le> Gcd (scal h ` {..<bh_size h})" by (simp only: dvd_imp_le neq0_conv)
    then show ?thesis using less.hyps [OF multi_next_less [OF s(3) sz] s(2)] unfolding s(1) by (blast intro: order_trans)
  qed
qed

text \<open>The number of scalars in the first heap, and what the code expects of a batch.\<close>

definition first_heap :: "nat \<Rightarrow> nat" where
  "first_heap cnt = ((cnt + 1) div 2) OR 1"

definition batch_ok :: "nat \<Rightarrow> batch_heap \<Rightarrow> bool" where
  "batch_ok cnt h \<longleftrightarrow> odd cnt \<and> 5 \<le> cnt \<and> cnt \<le> length (bh_heap h) \<and> cnt \<le> length (bh_scalars h) \<and> cnt \<le> length (bh_points h)
    \<and> (\<forall>i < cnt. fits 4 (bh_scalars h ! i)) \<and> (\<forall>i < cnt. first_heap cnt \<le> i \<longrightarrow> scal h i < 2 ^ 128)"

lemma first_heap_bounds:
  assumes "odd cnt" "5 \<le> cnt"
  shows "odd (first_heap cnt)" "3 \<le> first_heap cnt" "first_heap cnt \<le> cnt"
proof -
  have e: "first_heap cnt = (cnt + 1) div 2 + of_bool (even ((cnt + 1) div 2))" by (simp only: first_heap_def or_one_eq)
  show "odd (first_heap cnt)" unfolding e by simp
  show "3 \<le> first_heap cnt" "first_heap cnt \<le> cnt" unfolding e using assms by auto
qed

lemma heap_build_multi:
  assumes "batch_ok cnt h"
  defines "g \<equiv> heap_build h (first_heap cnt)"
  shows "multi_inv cnt 4 False g" "bh_size g = first_heap cnt" "bh_scalars g = bh_scalars h" "bh_points g = bh_points h"
proof -
  have b: "odd cnt" "5 \<le> cnt" "cnt \<le> length (bh_heap h)" "\<forall>i < cnt. fits 4 (bh_scalars h ! i)" using assms by (simp_all add: batch_ok_def)
  note f = first_heap_bounds [OF b(1,2)]
  have g: "heap_inv 4 g \<and> bh_size g = first_heap cnt \<and> length (bh_heap g) = length (bh_heap h) \<and> bh_scalars g = bh_scalars h \<and> bh_points g = bh_points h"
    unfolding g_def using b f by (intro heap_build_inv) auto
  then show "multi_inv cnt 4 False g" using assms(1) f by (simp add: multi_inv_def batch_ok_def)
  show "bh_size g = first_heap cnt" "bh_scalars g = bh_scalars h" "bh_points g = bh_points h" using g by auto
qed

lemma multi_scalarmult_unfold:
  "ge25519_multi_scalarmult_vartime h cnt = do {
     (h', a) \<leftarrow> multi_loop cnt (heap_build h (first_heap cnt)) 4 False;
     r \<leftarrow> ge25519_multi_scalarmult_vartime_final (bh_points h' ! a) (bh_scalars h' ! a);
     Some (r, h') }"
  by (simp add: ge25519_multi_scalarmult_vartime_def first_heap_def Let_def)

lemma multi_scalarmult_log:
  fixes L :: "fp4 \<Rightarrow> 'a :: comm_ring_1 \<Rightarrow> bool"
  assumes "log_relation L" "batch_ok cnt h" "\<forall>i < cnt. ge_rep (bh_points h ! i) (P i) \<and> L (P i) (p i)"
    "Gcd (scal h ` {..<first_heap cnt}) < 2 ^ 127"
    "i < first_heap cnt" "j < first_heap cnt" "i \<noteq> j" "scal h i \<noteq> 0" "scal h j \<noteq> 0"
  shows "\<exists>r h' Q y. ge25519_multi_scalarmult_vartime h cnt = Some (r, h') \<and> ge_rep r Q
    \<and> of_nat (Gcd (scal h ` {..<cnt})) * y = (\<Sum>i < cnt. of_nat (scal h i) * p i)
    \<and> (if Gcd (scal h ` {..<cnt}) = 1 then L Q y
       else \<exists>n. bits_of (Gcd (scal h ` {..<cnt})) n \<and> L Q (of_nat (2 ^ n + Gcd (scal h ` {..<cnt})) * y))"
proof -
  define g where "g = heap_build h (first_heap cnt)"
  note b = heap_build_multi [OF assms(2), folded g_def]
  have "\<exists>h' a Q q. multi_loop cnt g 4 False = Some (h', a) \<and> a < cnt \<and> ge_rep (bh_points h' ! a) Q \<and> L Q q
    \<and> fits 4 (bh_scalars h' ! a) \<and> scal h' a = Gcd (scal g ` {..<cnt})
    \<and> of_nat (scal h' a) * q = (\<Sum>i < cnt. of_nat (scal g i) * p i)"
  proof (rule multi_loop_correct [OF assms(1) b(1)])
    show "\<forall>i < cnt. ge_rep (bh_points g ! i) (P i) \<and> L (P i) (p i)" "Gcd (scal g ` {..<bh_size g}) < 2 ^ 127" using assms(3,4) by (simp_all only: b)
    show "(\<exists>i < bh_size g. \<exists>j < bh_size g. i \<noteq> j \<and> scal g i \<noteq> 0 \<and> scal g j \<noteq> 0) \<or> (\<exists>i < bh_size g. 2 ^ 127 \<le> scal g i)"
      unfolding b using assms(5-9) by blast
  qed
  then obtain h' a Q q where L: "multi_loop cnt g 4 False = Some (h', a)" "ge_rep (bh_points h' ! a) Q" "L Q q" "fits 4 (bh_scalars h' ! a)"
      "scal h' a = Gcd (scal h ` {..<cnt})" "of_nat (Gcd (scal h ` {..<cnt})) * q = (\<Sum>i < cnt. of_nat (scal h i) * p i)"
    unfolding b(3) by metis
  define G where "G = Gcd (scal h ` {..<cnt})"
  have cnt: "first_heap cnt \<le> cnt" using assms(2) first_heap_bounds(3) by (simp add: batch_ok_def)
  have "G dvd scal h i" unfolding G_def using assms(5) cnt by (intro Gcd_dvd) auto
  then have "G \<noteq> 0" using assms(8) by (intro notI) simp
  have "G dvd Gcd (scal h ` {..<first_heap cnt})" unfolding G_def using cnt by (intro Gcd_greatest Gcd_dvd) auto
  moreover have "Gcd (scal h ` {..<first_heap cnt}) \<noteq> 0" using assms(5,8) by (auto simp: Gcd_0_iff)
  ultimately have "G \<le> Gcd (scal h ` {..<first_heap cnt})" by (simp only: dvd_imp_le neq0_conv)
  then have "scal h' a < 2 ^ 224" using assms(4) L(5) by (simp add: G_def)
  from final_correct [OF assms(1) _ this L(2,3)] L(4) obtain r R where
    R: "ge25519_multi_scalarmult_vartime_final (bh_points h' ! a) (bh_scalars h' ! a) = Some r" "ge_rep r R"
      "if scal h' a \<le> 1 then L R (of_nat (scal h' a) * q) else \<exists>n. bits_of (scal h' a) n \<and> L R (of_nat (2 ^ n + scal h' a) * q)"
    unfolding fits_def by blast
  have "ge25519_multi_scalarmult_vartime h cnt = Some (r, h')" using L(1) R(1) by (simp add: multi_scalarmult_unfold g_def)
  moreover have "if G = 1 then L R q else \<exists>n. bits_of G n \<and> L R (of_nat (2 ^ n + G) * q)"
    using R(3) \<open>G \<noteq> 0\<close> unfolding L(5) G_def [symmetric] by (cases "G = 1") auto
  ultimately show ?thesis using R(2) L(6) unfolding G_def by blast
qed

lemma multi_scalarmult_returns:
  assumes "batch_ok cnt h" "Gcd (scal h ` {..<first_heap cnt}) < 2 ^ 224"
  shows "ge25519_multi_scalarmult_vartime h cnt \<noteq> None"
proof -
  define g where "g = heap_build h (first_heap cnt)"
  note b = heap_build_multi [OF assms(1), folded g_def]
  from multi_loop_returns [OF b(1)] obtain h' a where
    L: "multi_loop cnt g 4 False = Some (h', a)" "fits 4 (bh_scalars h' ! a)" "scal h' a \<le> Gcd (scal h ` {..<first_heap cnt})"
    unfolding b(2,3) by blast
  define z where "z = bh_scalars h' ! a"
  have z: "carried (2 ^ 32 - 1) z" "mval z < 2 ^ 224" using L(2,3) assms(2) unfolding z_def fits_def by linarith+
  obtain r where "ge25519_multi_scalarmult_vartime_final ge25519_set_neutral z = Some r"
    using final_correct [OF combination_relation [of "{} :: (fp4 \<times> int) set"] z set_neutral_rep comb_neutral] by blast
  then have "ge25519_multi_scalarmult_vartime_final p z \<noteq> None" for p
    by (auto simp: ge25519_multi_scalarmult_vartime_final_def split: if_splits bind_split_asm bind_split)
  then obtain q where "ge25519_multi_scalarmult_vartime_final (bh_points h' ! a) z = Some q" by fast
  then show ?thesis using L(1) by (simp add: multi_scalarmult_unfold g_def [symmetric] z_def)
qed

section \<open>Batches of signatures\<close>

lemma neutral_test:
  assumes "ge_rep p (X, Y, Z, T)"
  shows "ge25519_is_neutral_vartime p \<longleftrightarrow> X = 0 \<and> Y = Z"
proof -
  have c: "curve25519_contract (ge_x p) = le_bytes 32 (fp_nat X)" "curve25519_contract (ge_y p) = le_bytes 32 (fp_nat Y)"
      "curve25519_contract (ge_z p) = le_bytes 32 (fp_nat Z)"
    using assms by (simp_all add: ge_rep_def curve25519_contract_correct tight_loose del: le_bytes.simps)
  have lt: "fp_nat x < 256 ^ 32" for x using fp_nat_less [of x] by (simp add: p25519_def)
  have inj: "le_bytes 32 (fp_nat x) = le_bytes 32 (fp_nat y) \<longleftrightarrow> x = y" for x y
    using lt by (metis fp_nat_inject le_nat_le_bytes mod_less)
  have "le_bytes 32 (fp_nat (0 :: fp)) = replicate 32 0"
    by (rule le_nat_inject) (simp_all add: le_nat_zeros le_nat_le_bytes fp_nat_of_nat [of 0, simplified] del: le_bytes.simps)
  then show ?thesis using inj [of X 0] inj [of Y Z] by (simp add: ge25519_is_neutral_vartime_def c del: le_bytes.simps)
qed

text \<open>A loop that writes consecutive cells and reads only others.\<close>

lemma foldl_writes:
  assumes "\<And>s i. i < n \<Longrightarrow> length s = length s0 \<Longrightarrow> (\<forall>j. j < off \<or> off + n \<le> j \<longrightarrow> s ! j = s0 ! j) \<Longrightarrow> F s i = s[off + i := v i]"
    "off + n \<le> length s0"
  shows "length (foldl F s0 [0..<n]) = length s0
    \<and> (\<forall>j. foldl F s0 [0..<n] ! j = (if off \<le> j \<and> j < off + n then v (j - off) else s0 ! j))"
proof -
  have "k \<le> n \<Longrightarrow> length (foldl F s0 [0..<k]) = length s0
    \<and> (\<forall>j. foldl F s0 [0..<k] ! j = (if off \<le> j \<and> j < off + k then v (j - off) else s0 ! j))" for k
  proof (induction k)
    case (Suc k)
    then have IH: "length (foldl F s0 [0..<k]) = length s0"
        "\<And>j. foldl F s0 [0..<k] ! j = (if off \<le> j \<and> j < off + k then v (j - off) else s0 ! j)" by simp_all
    have "F (foldl F s0 [0..<k]) k = (foldl F s0 [0..<k])[off + k := v k]" using Suc.prems by (intro assms(1)) (simp_all add: IH)
    then show ?case using IH Suc.prems assms(2) by (auto simp: nth_list_update less_Suc_eq)
  qed auto
  from this [of n] show ?thesis by simp
qed

lemma foldl_sum:
  assumes "\<forall>i < n. modm_ok (s ! i)" "0 < n" "n \<le> length s" "k \<le> n" "1 \<le> k"
  shows "foldl (\<lambda>s i. s[0 := add256_modm (s ! 0) (s ! i)]) s [1..<k] = s[0 := foldl (\<lambda>s i. s[0 := add256_modm (s ! 0) (s ! i)]) s [1..<k] ! 0]
    \<and> modm_ok (foldl (\<lambda>s i. s[0 := add256_modm (s ! 0) (s ! i)]) s [1..<k] ! 0)
    \<and> mval (foldl (\<lambda>s i. s[0 := add256_modm (s ! 0) (s ! i)]) s [1..<k] ! 0) = (\<Sum>i < k. mval (s ! i)) mod group_order"
  using assms(5,4)
proof (induction k rule: dec_induct)
  case base
  have "mval (s ! 0) < group_order" using assms(1,2) by (simp add: modm_ok_def)
  then show ?case using assms(1,2) by simp
next
  case (step k)
  define f where "f = foldl (\<lambda>s i. s[0 := add256_modm (s ! 0) (s ! i)]) s [1..<k]"
  have IH: "f = s[0 := f ! 0]" "modm_ok (f ! 0)" "mval (f ! 0) = (\<Sum>i < k. mval (s ! i)) mod group_order" using step by (simp_all add: f_def)
  have eq: "foldl (\<lambda>s i. s[0 := add256_modm (s ! 0) (s ! i)]) s [1..<Suc k] = f[0 := add256_modm (f ! 0) (f ! k)]"
    using step.hyps by (simp add: f_def)
  have fk: "f ! k = s ! k" using step.hyps by (subst IH(1)) simp
  have "modm_ok (s ! k)" using assms(1) step.prems by simp
  note a = add256_modm_reduced [OF IH(2) this]
  have "length f = length s" by (subst IH(1)) simp
  then have "0 < length f" using assms(2,3) by linarith
  then have "f[0 := x] ! 0 = x" for x by (simp only: nth_list_update_eq)
  moreover have "f[0 := x] = s[0 := x]" for x by (subst IH(1)) simp
  ultimately have n: "f[0 := x] = s[0 := x]" "s[0 := x] ! 0 = x" for x by metis+
  show ?case unfolding eq n fk using a IH(3) by (simp add: mod_add_right_eq add.commute)
qed

definition hram_scalar :: "byte list \<Rightarrow> byte list \<Rightarrow> byte list \<Rightarrow> nat" where
  "hram_scalar RS pk m = hash_scalar (take 32 RS @ take 32 pk @ m)"

lemma batch_scalars_correct:
  fixes r m pk RS :: "byte list list" and scalars :: "bignum256modm list" and b :: nat
  assumes "length (sha512_buf ctx) = 128" "0 < b" "2 * b + 1 \<le> length scalars"
    "\<And>i. i < b \<Longrightarrow> length (r ! i) = 16 \<and> length (RS ! i) = 64 \<and> length (m ! i) < 2 ^ 64"
  defines "res \<equiv> batch_scalars ctx m pk RS b r scalars"
  shows "length res = length scalars"
    "\<And>i. i < b \<Longrightarrow> carried (2 ^ 32 - 1) (res ! (b + 1 + i)) \<and> mval (res ! (b + 1 + i)) = le_nat (r ! i)"
    "modm_ok (res ! 0) \<and> mval (res ! 0) = (\<Sum>i < b. le_nat (drop 32 (RS ! i)) * le_nat (r ! i)) mod group_order"
    "\<And>i. i < b \<Longrightarrow> modm_ok (res ! (i + 1)) \<and> mval (res ! (i + 1)) = hram_scalar (RS ! i) (pk ! i) (m ! i) * le_nat (r ! i) mod group_order"
proof -
  define x where "x i = expand256_modm (r ! i) 16" for i
  have x: "carried (2 ^ 32 - 1) (x i)" "mval (x i) = le_nat (r ! i)" if "i < b" for i
    using expand256_modm_correct(3,4) [of "r ! i" 16] assms(4) [OF that] by (simp_all add: x_def)
  define s1 where "s1 = foldl (\<lambda>s i. s[b + 1 + i := expand256_modm (r ! i) 16]) scalars [0..<b]"
  have "length s1 = length scalars \<and> (\<forall>j. s1 ! j = (if b + 1 \<le> j \<and> j < b + 1 + b then x (j - (b + 1)) else scalars ! j))"
    unfolding s1_def by (rule foldl_writes; use assms(3) in \<open>simp add: x_def\<close>)
  then have s1: "length s1 = length scalars" "\<And>j. s1 ! j = (if b + 1 \<le> j \<and> j < b + 1 + b then x (j - (b + 1)) else scalars ! j)" by blast+
  define y where "y i = mul256_modm (expand256_modm (drop 32 (RS ! i)) 32) (x i)" for i
  have y: "modm_ok (y i)" "mval (y i) = le_nat (drop 32 (RS ! i)) * le_nat (r ! i) mod group_order" if "i < b" for i
  proof -
    have e: "modm_ok (expand256_modm (drop 32 (RS ! i)) 32)" "mval (expand256_modm (drop 32 (RS ! i)) 32) = le_nat (drop 32 (RS ! i)) mod group_order"
      using expand_32 [of "drop 32 (RS ! i)"] assms(4) [OF that] by simp_all
    have "carried (2 ^ 32 - 1) (expand256_modm (drop 32 (RS ! i)) 32)" using e(1) by (simp add: modm_ok_def)
    from mul256_modm_correct [OF this x(1) [OF that]]
    show "modm_ok (y i)" "mval (y i) = le_nat (drop 32 (RS ! i)) * le_nat (r ! i) mod group_order"
      by (simp_all add: y_def e(2) x(2) [OF that] mod_mult_left_eq)
  qed
  define s2 where "s2 = foldl (\<lambda>s i. let s = s[i := expand256_modm (drop 32 (RS ! i)) 32] in s[i := mul256_modm (s ! i) (s ! (b + 1 + i))]) s1 [0..<b]"
  have "length s2 = length s1 \<and> (\<forall>j. s2 ! j = (if 0 \<le> j \<and> j < 0 + b then y (j - 0) else s1 ! j))"
    unfolding s2_def by (rule foldl_writes; use assms(3) in \<open>simp add: Let_def s1 y_def\<close>)
  then have s2: "length s2 = length s1" "\<And>j. s2 ! j = (if 0 \<le> j \<and> j < 0 + b then y (j - 0) else s1 ! j)" by blast+
  define s3 where "s3 = foldl (\<lambda>s i. s[0 := add256_modm (s ! 0) (s ! i)]) s2 [1..<b]"
  have "\<forall>i < b. modm_ok (s2 ! i)" using s2(2) y(1) by simp
  from foldl_sum [OF this assms(2) _ order_refl, folded s3_def]
  have s3: "s3 = s2[0 := s3 ! 0]" "modm_ok (s3 ! 0)" "mval (s3 ! 0) = (\<Sum>i < b. mval (s2 ! i)) mod group_order"
    using assms(2,3) s1(1) s2(1) by auto
  have s3_nth: "s3 ! j = s2 ! j" if "0 < j" for j using that by (subst s3(1)) simp
  have s3_len: "length s3 = length s2" by (subst s3(1)) simp
  define z where "z i = mul256_modm (expand256_modm (ed25519_hram ctx (RS ! i) (pk ! i) (m ! i)) 64) (x i)" for i
  have z: "modm_ok (z i)" "mval (z i) = hram_scalar (RS ! i) (pk ! i) (m ! i) * le_nat (r ! i) mod group_order" if "i < b" for i
  proof -
    define h where "h = expand256_modm (sha512_spec (take 32 (RS ! i) @ take 32 (pk ! i) @ m ! i)) 64"
    have h: "carried (2 ^ 32 - 1) h" "mval h = hram_scalar (RS ! i) (pk ! i) (m ! i)"
      using expand_hash modm_okD by (simp_all add: h_def hram_scalar_def)
    show "modm_ok (z i)" "mval (z i) = hram_scalar (RS ! i) (pk ! i) (m ! i) * le_nat (r ! i) mod group_order"
      using mul256_modm_correct [OF h(1) x(1) [OF that]] hram_eq [OF assms(1), of "m ! i"] assms(4) [OF that] by (simp_all add: z_def h_def [symmetric] h(2) x(2) [OF that])
  qed
  have res: "res = foldl (\<lambda>s i. let s = s[i + 1 := expand256_modm (ed25519_hram ctx (RS ! i) (pk ! i) (m ! i)) 64]
           in s[i + 1 := mul256_modm (s ! (i + 1)) (s ! (b + 1 + i))]) s3 [0..<b]"
    unfolding res_def batch_scalars_def Let_def s1_def [symmetric] s2_def [unfolded Let_def, symmetric] s3_def [symmetric] ..
  have "length res = length s3 \<and> (\<forall>j. res ! j = (if 1 \<le> j \<and> j < 1 + b then z (j - 1) else s3 ! j))"
    unfolding res by (rule foldl_writes; use assms(3) in \<open>simp add: Let_def s3_nth s3_len s2 s1 z_def\<close>)
  then have s4: "length res = length s3" "\<And>j. res ! j = (if 1 \<le> j \<and> j < 1 + b then z (j - 1) else s3 ! j)" by blast+
  show "length res = length scalars" by (simp only: s4 s3_len s2 s1)
  show "carried (2 ^ 32 - 1) (res ! (b + 1 + i)) \<and> mval (res ! (b + 1 + i)) = le_nat (r ! i)" if "i < b" for i
    using that x by (simp add: s4 s3_nth s2 s1)
  show "modm_ok (res ! (i + 1)) \<and> mval (res ! (i + 1)) = hram_scalar (RS ! i) (pk ! i) (m ! i) * le_nat (r ! i) mod group_order" if "i < b" for i
    using that z by (simp add: s4)
  have "(\<Sum>i < b. mval (s2 ! i)) mod group_order = (\<Sum>i < b. (le_nat (drop 32 (RS ! i)) * le_nat (r ! i)) mod group_order) mod group_order"
    using y(2) by (simp add: s2)
  then show "modm_ok (res ! 0) \<and> mval (res ! 0) = (\<Sum>i < b. le_nat (drop 32 (RS ! i)) * le_nat (r ! i)) mod group_order"
    using s3 by (simp add: s4 mod_sum_eq)
qed


lemma unpack_points_correct:
  "(snd (unpack_points off bs points) \<longleftrightarrow> (\<forall>i < length bs. ge25519_unpack_negative_vartime (bs ! i) \<noteq> None))
    \<and> length (fst (unpack_points off bs points)) = length points
    \<and> (snd (unpack_points off bs points) \<and> off + length bs \<le> length points \<longrightarrow>
        (\<forall>j. fst (unpack_points off bs points) ! j
          = (if off \<le> j \<and> j < off + length bs then the (ge25519_unpack_negative_vartime (bs ! (j - off))) else points ! j)))"
proof (induction bs arbitrary: off points)
  case (Cons c bs)
  show ?case
  proof (cases "ge25519_unpack_negative_vartime c")
    case (Some p)
    note IH = Cons.IH [of "off + 1" "points[off := p]"]
    have "(\<forall>i < length (c # bs). ge25519_unpack_negative_vartime ((c # bs) ! i) \<noteq> None)
        \<longleftrightarrow> (\<forall>i < length bs. ge25519_unpack_negative_vartime (bs ! i) \<noteq> None)"
      using Some by (auto simp: less_Suc_eq_0_disj)
    moreover have "j - off = Suc (j - Suc off)" if "Suc off \<le> j" for j using that by simp
    ultimately show ?thesis using IH Some by (auto simp: nth_list_update)
  qed auto
qed auto

text \<open>What the code relies on: buffers of the right sizes and arrays as large as declared.\<close>

definition batch_input :: "crypto_hash_sha512_state \<Rightarrow> byte list \<Rightarrow> byte list list \<Rightarrow> byte list list \<Rightarrow> byte list list \<Rightarrow> nat \<Rightarrow> batch_heap \<Rightarrow> bool" where
  "batch_input ctx rnd m pk RS b batch \<longleftrightarrow> length (sha512_buf ctx) = 128 \<and> 4 \<le> b \<and> b \<le> max_batch_size
    \<and> b \<le> length m \<and> b \<le> length pk \<and> b \<le> length RS \<and> length rnd = 16 * b
    \<and> (\<forall>i < b. length (m ! i) < 2 ^ 64 \<and> length (pk ! i) = 32 \<and> length (RS ! i) = 64)
    \<and> length (bh_points batch) = heap_batch_size \<and> length (bh_scalars batch) = heap_batch_size \<and> length (bh_heap batch) = heap_batch_size"

text \<open>The random numbers, the scalars and the points of a batch.\<close>

definition batch_rand :: "byte list \<Rightarrow> nat \<Rightarrow> nat" where
  "batch_rand rnd i = le_nat (take 16 (drop (16 * i) rnd))"

definition batch_weight :: "byte list \<Rightarrow> byte list list \<Rightarrow> byte list list \<Rightarrow> byte list list \<Rightarrow> nat \<Rightarrow> nat \<Rightarrow> nat" where
  "batch_weight rnd m pk RS b i =
    (if i = 0 then (\<Sum>i < b. le_nat (drop 32 (RS ! i)) * batch_rand rnd i) mod group_order
     else if i \<le> b then hram_scalar (RS ! (i - 1)) (pk ! (i - 1)) (m ! (i - 1)) * batch_rand rnd (i - 1) mod group_order
     else batch_rand rnd (i - b - 1))"

definition batch_point :: "(nat \<Rightarrow> ge25519) \<Rightarrow> (nat \<Rightarrow> ge25519) \<Rightarrow> nat \<Rightarrow> nat \<Rightarrow> fp4" where
  "batch_point A R b i = ge_point (if i = 0 then ge25519_basepoint else if i \<le> b then A (i - 1) else R (i - b - 1))"

lemma basepoint_rep: "ge_rep ge25519_basepoint (ge_point ge25519_basepoint)"
  unfolding ge_rep_def ge_point_def ge25519_basepoint_def by (simp add: tight_numerals one_limbs)

lemma unpacked_rep: "length e = 32 \<Longrightarrow> ge25519_unpack_negative_vartime e = Some p \<Longrightarrow> ge_rep p (ge_point p)"
  using unpack_sign(2) by (auto simp: ge_rep_def ge_point_def)

text \<open>The batch when the multiplication starts.\<close>

lemma batch_prepared:
  assumes "batch_input ctx rnd m pk RS b batch"
    "\<And>i. i < b \<Longrightarrow> ge25519_unpack_negative_vartime (pk ! i) = Some (A i) \<and> ge25519_unpack_negative_vartime (take 32 (RS ! i)) = Some (R i)"
  defines "r \<equiv> map (\<lambda>i. take 16 (drop (16 * i) rnd)) [0..<b] @ drop b (bh_r batch)"
  defines "g \<equiv> batch\<lparr>bh_r := r, bh_scalars := batch_scalars ctx m pk RS b r (bh_scalars batch), bh_points := fst (batch_points pk RS b (bh_points batch))\<rparr>"
  shows "snd (batch_points pk RS b (bh_points batch))" "batch_ok (b * 2 + 1) g"
    "\<And>i. i < b * 2 + 1 \<Longrightarrow> scal g i = batch_weight rnd m pk RS b i"
    "\<And>i. i < b * 2 + 1 \<Longrightarrow> ge_rep (bh_points g ! i) (batch_point A R b i)"
proof -
  have I: "length (sha512_buf ctx) = 128" "4 \<le> b" "b \<le> 64" "b \<le> length m" "b \<le> length pk" "b \<le> length RS" "length rnd = 16 * b"
      "length (bh_points batch) = 129" "length (bh_scalars batch) = 129" "length (bh_heap batch) = 129"
    using assms(1) by (simp_all add: batch_input_def max_batch_size_def heap_batch_size_def)
  have J: "length (m ! i) < 2 ^ 64" "length (pk ! i) = 32" "length (RS ! i) = 64" if "i < b" for i using assms(1) that by (auto simp: batch_input_def)
  have r: "r ! i = take 16 (drop (16 * i) rnd)" "length (r ! i) = 16" if "i < b" for i using that I(7) by (simp_all add: r_def nth_append)
  have lr: "le_nat (r ! i) = batch_rand rnd i" if "i < b" for i using r(1) [OF that] by (simp add: batch_rand_def)
  have S0: "0 < b" "2 * b + 1 \<le> length (bh_scalars batch)" "\<And>i. i < b \<Longrightarrow> length (r ! i) = 16 \<and> length (RS ! i) = 64 \<and> length (m ! i) < 2 ^ 64"
    using I J r by auto
  note S = batch_scalars_correct [where pk = pk, OF I(1) this]
  have cases: "i = 0 \<or> (\<exists>k < b. i = k + 1) \<or> (\<exists>k < b. i = b + 1 + k)" if "i < b * 2 + 1" for i
  proof (cases "i = 0 \<or> b < i")
    case True
    then have "i = 0 \<or> i = b + 1 + (i - (b + 1)) \<and> i - (b + 1) < b" using that by linarith
    then show ?thesis by blast
  next
    case False
    then have "i = (i - 1) + 1 \<and> i - 1 < b" by linarith
    then show ?thesis by blast
  qed
  have weight: "batch_weight rnd m pk RS b 0 = (\<Sum>i < b. le_nat (drop 32 (RS ! i)) * le_nat (r ! i)) mod group_order"
    by (simp add: batch_weight_def lr)
  show sc: "scal g i = batch_weight rnd m pk RS b i" if "i < b * 2 + 1" for i
    using cases [OF that] S(2-4) lr weight by (auto simp: g_def batch_weight_def)
  have ok: "carried (2 ^ 32 - 1) (bh_scalars g ! i) \<and> (b < i \<longrightarrow> scal g i < 2 ^ 128)" if "i < b * 2 + 1" for i
  proof -
    have "le_nat (r ! k) < 2 ^ 128" if "k < b" for k using le_nat_less [of "r ! k"] r(2) [OF that] by simp
    then show ?thesis using cases [OF that] S(2-4) by (auto simp: g_def modm_ok_def)
  qed
  have "fits 4 (bh_scalars g ! i)" if "i < b * 2 + 1" for i
  proof -
    have "carried (2 ^ 32 - 1) (bh_scalars g ! i)" using ok [OF that] ..
    then have "mval (bh_scalars g ! i) < 2 ^ 256" by (rule carriedE) simp
    then show ?thesis using ok [OF that] by (simp add: fits_def)
  qed
  moreover have "b + 1 \<le> first_heap (b * 2 + 1)" by (simp add: first_heap_def or_one_eq [of "b + 1", simplified])
  moreover define p0 where "p0 = (bh_points batch)[0 := ge25519_basepoint]"
  have t: "length (take b pk) = b" "length (map (take 32) (take b RS)) = b" "length p0 = 129" "p0 ! 0 = ge25519_basepoint" using I by (simp_all add: p0_def)
  have b1: "take b pk ! i = pk ! i" "map (take 32) (take b RS) ! i = take 32 (RS ! i)" if "i < b" for i using that I by simp_all
  obtain p1 ok1 where u1: "unpack_points 1 (take b pk) p0 = (p1, ok1)" by fastforce
  have p1: "ok1" "length p1 = 129" "\<And>j. p1 ! j = (if 1 \<le> j \<and> j < 1 + b then A (j - 1) else p0 ! j)"
    using unpack_points_correct [of 1 "take b pk" p0] u1 b1(1) assms(2) t I(3) by auto
  obtain p2 ok2 where u2: "unpack_points (b + 1) (map (take 32) (take b RS)) p1 = (p2, ok2)" by fastforce
  have p2: "ok2" "length p2 = 129" "\<And>j. p2 ! j = (if b + 1 \<le> j \<and> j < b + 1 + b then R (j - (b + 1)) else p1 ! j)"
    using unpack_points_correct [of "b + 1" "map (take 32) (take b RS)" p1] u2 b1(2) assms(2) t p1(2) I(3) by auto
  have bp: "batch_points pk RS b (bh_points batch) = (p2, True)" using u1 u2 p1(1) p2(1) by (simp add: batch_points_def p0_def)
  ultimately show "batch_ok (b * 2 + 1) g" using I ok S(1) p2(2) by (auto simp: batch_ok_def g_def)
  show "snd (batch_points pk RS b (bh_points batch))" by (simp add: bp)
  have "ge_rep (A i) (ge_point (A i))" "ge_rep (R i) (ge_point (R i))" if "i < b" for i
    using unpacked_rep [of "pk ! i"] unpacked_rep [of "take 32 (RS ! i)"] assms(2) [OF that] J [OF that] by simp_all
  then show "ge_rep (bh_points g ! i) (batch_point A R b i)" if "i < b * 2 + 1" for i
    using cases [OF that] basepoint_rep t(4) by (auto simp: g_def bp p1(3) p2(3) batch_point_def)
qed

abbreviation open_ok :: "crypto_hash_sha512_state \<Rightarrow> byte list list \<Rightarrow> byte list list \<Rightarrow> byte list list \<Rightarrow> nat \<Rightarrow> bool" where
  "open_ok ctx m pk RS i \<equiv> ed25519_sign_open ctx (m ! i) (pk ! i) (RS ! i) = 0"

lemma open_each_eq:
  assumes "n \<le> length valid"
  shows "open_each ctx m pk RS n valid ret =
    (map (\<lambda>i. if open_ok ctx m pk RS i then 1 else 0) [0..<n] @ drop n valid, ret OR (if \<forall>i < n. open_ok ctx m pk RS i then 0 else 1))"
  using assms
proof (induction n)
  case (Suc n)
  define v :: int where "v = (if open_ok ctx m pk RS n then 1 else 0)"
  have "open_each ctx m pk RS (Suc n) valid ret =
      (let (w, q) = open_each ctx m pk RS n valid ret; w = w[n := v] in (w, q OR (w ! n XOR 1)))"
    by (simp add: open_each_def v_def split_def Let_def)
  moreover define w :: "int list" where "w = map (\<lambda>i. if open_ok ctx m pk RS i then 1 else 0) [0..<n]"
  moreover define q where "q = ret OR (if \<forall>i < n. open_ok ctx m pk RS i then 0 else 1)"
  moreover have "drop n valid = valid ! n # drop (Suc n) valid" using Suc.prems by (simp add: Cons_nth_drop_Suc)
  moreover have "(w @ y # ys)[n := v] = w @ v # ys" "(w @ v # ys) ! n = v" for y ys
    by (simp_all add: w_def list_update_append nth_append)
  ultimately have "open_each ctx m pk RS (Suc n) valid ret = (w @ v # drop (Suc n) valid, q OR (v XOR 1))" using Suc by simp
  moreover have "q OR (v XOR 1) = ret OR (if \<forall>i < Suc n. open_ok ctx m pk RS i then 0 else 1)"
    by (auto simp: q_def v_def less_Suc_eq or.assoc)
  ultimately show ?case by (simp add: w_def v_def)
qed (simp add: open_each_def)

lemma batch_step_valid:
  assumes "batch_step ctx rnd m pk RS b batch (replicate b 1) ret = Some (batch', v, ret')"
  shows "v = replicate b 1 \<and> ret' = ret
    \<or> v = map (\<lambda>i. if open_ok ctx m pk RS i then 1 else 0) [0..<b]
      \<and> (\<exists>t \<in> {0, 2}. ret' = (ret OR t) OR (if \<forall>i < b. open_ok ctx m pk RS i then 0 else 1))"
  using assms by (auto simp: batch_step_def Let_def split_def open_each_eq split: if_splits bind_splits)

text \<open>What the entries and the bits of the result mean.\<close>

definition batch_result :: "(nat \<Rightarrow> bool) \<Rightarrow> nat \<Rightarrow> int list \<Rightarrow> int \<Rightarrow> int \<Rightarrow> bool" where
  "batch_result ok n v ret ret' \<longleftrightarrow> length v = n \<and> (\<forall>i < n. v ! i = 1 \<or> v ! i = 0 \<and> \<not> ok i)
    \<and> (odd ret' \<longleftrightarrow> odd ret \<or> (\<exists>i < n. v ! i = 0)) \<and> (ret' = 0 \<longrightarrow> ret = 0)"

lemma batch_result_each:
  assumes "t \<in> {0, 2}"
  shows "batch_result ok n (map (\<lambda>i. if ok i then 1 else 0) [0..<n]) ret ((ret OR t) OR (if \<forall>i < n. ok i then 0 else 1))"
  using assms by (auto simp: batch_result_def even_or_iff or_eq_0_iff)

lemma batch_step_result:
  assumes "batch_step ctx rnd m pk RS b batch (replicate b 1) ret = Some (batch', v, ret')"
  shows "batch_result (open_ok ctx m pk RS) b v ret ret'"
proof -
  have "batch_result ok b (replicate b 1) ret ret" for ok by (auto simp: batch_result_def)
  then show ?thesis using batch_step_valid [OF assms] batch_result_each by blast
qed

lemma batch_result_append:
  assumes "batch_result ok b v ret q" "batch_result (\<lambda>i. ok (b + i)) k w q ret'"
  shows "batch_result ok (b + k) (v @ w) ret ret'"
proof -
  have split: "(\<forall>i < b + k. P i) \<longleftrightarrow> (\<forall>i < b. P i) \<and> (\<forall>i < k. P (b + i))" for P
    by (metis add.commute add_less_cancel_left le_add_diff_inverse linorder_not_le trans_less_add1)
  have "(\<exists>i < b + k. P i) \<longleftrightarrow> (\<exists>i < b. P i) \<or> (\<exists>i < k. P (b + i))" for P using split [of "\<lambda>i. \<not> P i"] by blast
  then show ?thesis using assms unfolding batch_result_def split by (auto simp: nth_append)
qed

lemma batch_loop_result:
  assumes "batch_loop ctx rnd k m pk RS num batch (replicate num 1) ret = Some (v, ret')" "num \<le> length m" "num \<le> length pk" "num \<le> length RS"
  shows "batch_result (open_ok ctx m pk RS) num v ret ret'"
  using assms
proof (induction num arbitrary: k m pk RS batch ret v rule: less_induct)
  case (less num)
  show ?case
  proof (cases "num > 3")
    case True
    define b where "b = (if num > max_batch_size then max_batch_size else num)"
    have b: "0 < b" "b \<le> num" using True by (auto simp: b_def max_batch_size_def)
    have r: "take b (replicate num 1) = replicate b (1 :: int)" "drop b (replicate num 1) = replicate (num - b) (1 :: int)" using b by simp_all
    obtain batch' u q w where s: "batch_step ctx (rnd k) m pk RS b batch (replicate b 1) ret = Some (batch', u, q)"
        "batch_loop ctx rnd (k + 1) (drop b m) (drop b pk) (drop b RS) (num - b) batch' (replicate (num - b) 1) q = Some (w, ret')" "v = u @ w"
      using less.prems(1) True r by (subst (asm) batch_loop.simps) (auto simp: b_def [symmetric] Let_def split: bind_splits)
    have "batch_result (open_ok ctx (drop b m) (drop b pk) (drop b RS)) (num - b) w q ret'"
      using less.IH [OF _ s(2)] less.prems b by simp
    moreover have "open_ok ctx (drop b m) (drop b pk) (drop b RS) = (\<lambda>i. open_ok ctx m pk RS (b + i))"
      using less.prems b by (simp add: fun_eq_iff)
    ultimately show ?thesis using batch_result_append [OF batch_step_result [OF s(1)]] s(3) b(2) by fastforce
  next
    case False
    then show ?thesis using less.prems(1) batch_result_each [of 0] by (subst (asm) batch_loop.simps) (auto simp: open_each_eq)
  qed
qed

lemma sign_open_batch_few:
  assumes "num \<le> 3"
  shows "ed25519_sign_open_batch ctx rnd batch m pk RS num
        = Some (map (\<lambda>i. if open_ok ctx m pk RS i then 1 else 0) [0..<num], if \<forall>i < num. open_ok ctx m pk RS i then 0 else 1)"
  using assms by (simp add: ed25519_sign_open_batch_def batch_loop.simps [of ctx rnd 0] open_each_eq)

lemma sign_open_batch_loop:
  assumes "ed25519_sign_open_batch ctx rnd batch m pk RS num = Some (valid, ret)" "num \<le> length m" "num \<le> length pk" "num \<le> length RS"
  shows "batch_result (open_ok ctx m pk RS) num valid 0 ret"
  using assms unfolding ed25519_sign_open_batch_def by (rule batch_loop_result)

lemma sign_open_batch_all:
  assumes "ed25519_sign_open_batch ctx rnd batch m pk RS num = Some (valid, 0)" "num \<le> length m" "num \<le> length pk" "num \<le> length RS"
  shows "valid = replicate num 1"
  using sign_open_batch_loop [OF assms] by (auto simp: batch_result_def intro: nth_equalityI)

section \<open>Properties\<close>

text \<open>C10: the multi-scalar multiplication returns. For every batch as the code prepares them (an odd number of at least five scalars of
  which the last are below \<open>2 ^ 128\<close>) the loop over the two largest scalars ends, and the last multiplication finds the leading
  bit within its array, provided that the greatest common divisor of the scalars of the first heap is below \<open>2 ^ 224\<close>.\<close>

theorem multi_scalarmult_terminates:
  assumes "batch_ok cnt h" "Gcd ((\<lambda>i. mval (bh_scalars h ! i)) ` {..<first_heap cnt}) < 2 ^ 224"
  shows "\<exists>r h'. ge25519_multi_scalarmult_vartime h cnt = Some (r, h')"
  using multi_scalarmult_returns [OF assms] by fast

definition ones_batch :: batch_heap where
  "ones_batch = \<lparr>bh_r = [], bh_points = replicate 5 ge25519_set_neutral, bh_scalars = replicate 5 [1, 0, 0, 0, 0], bh_heap = replicate 5 0, bh_size = 0\<rparr>"

lemma ones_batch_ok: "batch_ok 5 ones_batch" "first_heap 5 = 3" "i < 5 \<Longrightarrow> mval (bh_scalars ones_batch ! i) = 1"
  "n \<le> 5 \<Longrightarrow> 0 < n \<Longrightarrow> Gcd ((\<lambda>i. mval (bh_scalars ones_batch ! i)) ` {..<n}) = 1"
proof -
  show v: "i < 5 \<Longrightarrow> mval (bh_scalars ones_batch ! i) = 1" for i by (simp add: ones_batch_def)
  show f: "first_heap 5 = 3" by (simp add: first_heap_def)
  have "carried (2 ^ 32 - 1) [1, 0, 0, 0, 0]" by (simp add: carried_def all_less_4)
  then show "batch_ok 5 ones_batch" by (simp add: batch_ok_def f ones_batch_def fits_def)
  show "n \<le> 5 \<Longrightarrow> 0 < n \<Longrightarrow> Gcd ((\<lambda>i. mval (bh_scalars ones_batch ! i)) ` {..<n}) = 1"
    using v by (intro Gcd_eq_1_I) (auto intro!: image_eqI [of _ _ 0])
qed

theorem multi_scalarmult_terminates_witness: "\<exists>r h'. ge25519_multi_scalarmult_vartime ones_batch 5 = Some (r, h')"
  using multi_scalarmult_terminates [OF ones_batch_ok(1)] ones_batch_ok(2,4) by simp

text \<open>C11: its value. When at least two scalars of the first heap are not zero and their greatest common divisor is below \<open>2 ^ 127\<close>, and the
  greatest common divisor of all scalars is one, the point returned has the logarithm \<open>\<Sum> s\<^sub>i log P\<^sub>i\<close>. Otherwise, with \<open>d\<close> this divisor
  and \<open>\<Sum> s\<^sub>i log P\<^sub>i = d y\<close>, it has the logarithm \<open>(2 ^ n + d) y\<close> where \<open>n\<close> is the number of bits of \<open>d\<close>: the last
  multiplication counts the leading bit twice.\<close>

theorem multi_scalarmult_correct:
  fixes l :: "fp4 \<Rightarrow> 'a :: comm_ring_1" and h :: batch_heap
  assumes "discrete_log S l" "batch_ok cnt h" "\<forall>i < cnt. ge_rep (bh_points h ! i) (P i) \<and> P i \<in> S"
  defines "s \<equiv> \<lambda>i. mval (bh_scalars h ! i)"
  assumes "Gcd (s ` {..<first_heap cnt}) < 2 ^ 127" "i < first_heap cnt" "j < first_heap cnt" "i \<noteq> j" "s i \<noteq> 0" "s j \<noteq> 0"
  shows "\<exists>r h' Q y. ge25519_multi_scalarmult_vartime h cnt = Some (r, h') \<and> ge_rep r Q
    \<and> of_nat (Gcd (s ` {..<cnt})) * y = (\<Sum>i < cnt. of_nat (s i) * l (P i))
    \<and> (if Gcd (s ` {..<cnt}) = 1 then l Q = (\<Sum>i < cnt. of_nat (s i) * l (P i))
       else \<exists>n. 2 ^ (n - 1) \<le> Gcd (s ` {..<cnt}) \<and> Gcd (s ` {..<cnt}) < 2 ^ n \<and> l Q = of_nat (2 ^ n + Gcd (s ` {..<cnt})) * y)"
proof -
  have p: "\<forall>i < cnt. ge_rep (bh_points h ! i) (P i) \<and> (P i \<in> S \<and> l (P i) = l (P i))" using assms(3) by simp
  obtain r h' Q y where "ge25519_multi_scalarmult_vartime h cnt = Some (r, h')" "ge_rep r Q"
      "of_nat (Gcd (s ` {..<cnt})) * y = (\<Sum>i < cnt. of_nat (s i) * l (P i))"
      "if Gcd (s ` {..<cnt}) = 1 then Q \<in> S \<and> l Q = y
       else \<exists>n. bits_of (Gcd (s ` {..<cnt})) n \<and> Q \<in> S \<and> l Q = of_nat (2 ^ n + Gcd (s ` {..<cnt})) * y"
    using multi_scalarmult_log [OF discrete_log_relation [OF assms(1)] assms(2) p assms(5-10) [unfolded s_def]] unfolding s_def by blast
  then show ?thesis unfolding bits_of_def by (intro exI [of _ r] exI [of _ h'] exI [of _ Q] exI [of _ y]) (auto split: if_splits)
qed

theorem multi_scalarmult_correct_witness:
  "\<exists>r h' Q. ge25519_multi_scalarmult_vartime ones_batch 5 = Some (r, h') \<and> ge_rep r Q \<and> quarter_log Q = 0"
proof -
  have "ge_rep (bh_points ones_batch ! i) ed_neutral \<and> ed_neutral \<in> quarters" if "i < 5" for i
    using that quarter_discrete_log by (simp add: ones_batch_def set_neutral_rep discrete_log_def)
  then show ?thesis
    using multi_scalarmult_correct [OF quarter_discrete_log ones_batch_ok(1), of "\<lambda>_. ed_neutral" 0 1] ones_batch_ok(2-4)
      quarter_discrete_log by (auto simp: discrete_log_def)
qed

text \<open>The multiplication can stop too early. When the first heap holds a single scalar that is not zero and this scalar is one, the
  loop ends before the 128-bit scalars are added to the heap, and the result is the one point, whatever the other points and their
  scalars are.\<close>

theorem multi_scalarmult_stops_early:
  assumes "batch_ok cnt h" "a < first_heap cnt" "mval (bh_scalars h ! a) = 1" "\<forall>i < first_heap cnt. i \<noteq> a \<longrightarrow> mval (bh_scalars h ! i) = 0"
  shows "\<exists>h'. ge25519_multi_scalarmult_vartime h cnt = Some (bh_points h ! a, h')"
proof -
  define g where "g = heap_build h (first_heap cnt)"
  note b = heap_build_multi [OF assms(1), folded g_def]
  have i: "heap_inv 4 g" "3 \<le> bh_size g" using b(1) by (simp_all add: multi_inv_def)
  obtain x y where top: "heap_get_top2 g 4 = (x, y)" by fastforce
  note t = heap_get_top2_correct [OF i top]
  have "x = a" using t(5) [of a] t(1) assms(2-4) b(2,3) by force
  moreover have y: "mval (bh_scalars g ! y) = 0" using t(2,3) assms(4) b(2,3) \<open>x = a\<close> by auto
  have "fits 4 (bh_scalars g ! k)" if "k < bh_size g" for k using heap_invD(3) [OF i(1) that] .
  then have c: "carried (2 ^ 32 - 1) (bh_scalars g ! y)" "carried (2 ^ 32 - 1) (bh_scalars g ! x)" using t(1,2) by (simp_all add: fits_def)
  ultimately have "multi_loop cnt g 4 False = Some (g, a)" using multi_stop [OF top c(1) y] by simp
  moreover have "ge25519_multi_scalarmult_vartime_final p (bh_scalars g ! a) = Some p" for p
    using isone256_modm_batch_correct [OF c(2)] assms(3) b(3) \<open>x = a\<close> by (simp add: ge25519_multi_scalarmult_vartime_final_def)
  ultimately show ?thesis by (simp add: multi_scalarmult_unfold g_def [symmetric] b(4))
qed

theorem multi_scalarmult_stops_early_witness:
  "\<exists>h'. ge25519_multi_scalarmult_vartime
      (ones_batch\<lparr>bh_scalars := [[1, 0, 0, 0, 0], [0, 0, 0, 0, 0], [0, 0, 0, 0, 0], [7, 0, 0, 0, 0], [9, 0, 0, 0, 0]]\<rparr>) 5
    = Some (ge25519_set_neutral, h')"
proof -
  define h where "h = ones_batch\<lparr>bh_scalars := [[1, 0, 0, 0, 0], [0, 0, 0, 0, 0], [0, 0, 0, 0, 0], [7, 0, 0, 0, 0], [9, 0, 0, 0, 0]]\<rparr>"
  have five: "i < 5 \<longleftrightarrow> i = 0 \<or> i = 1 \<or> i = 2 \<or> i = 3 \<or> i = 4" and three: "i < 3 \<longleftrightarrow> i = 0 \<or> i = 1 \<or> i = 2" for i :: nat by auto
  have "batch_ok 5 h"
    unfolding batch_ok_def ones_batch_ok(2) five by (auto simp: h_def ones_batch_def fits_def carried_def all_less_4)
  from multi_scalarmult_stops_early [OF this, of 0] show ?thesis
    unfolding ones_batch_ok(2) three by (simp add: h_def [symmetric]) (auto simp: h_def ones_batch_def)
qed

definition batch_log :: "'a \<Rightarrow> (nat \<Rightarrow> 'a) \<Rightarrow> (nat \<Rightarrow> 'a) \<Rightarrow> nat \<Rightarrow> nat \<Rightarrow> 'a" where
  "batch_log g a t b i = (if i = 0 then g else if i \<le> b then a (i - 1) else t (i - b - 1))"

text \<open>The combination of the logarithms with the weights of a batch is the random combination of the verification equations.\<close>

lemma batch_weight_sum:
  fixes g :: "'a :: comm_ring_1"
  assumes "of_nat group_order * g = 0" "\<And>i. i < b \<Longrightarrow> of_nat group_order * a i = 0"
  shows "(\<Sum>i < b * 2 + 1. of_nat (batch_weight rnd m pk RS b i) * batch_log g a t b i) = (\<Sum>i < b. of_nat (batch_rand rnd i)
        * (of_nat (le_nat (drop 32 (RS ! i))) * g + of_nat (hram_scalar (RS ! i) (pk ! i) (m ! i)) * a i + t i))"
proof -
  define w where "w = batch_weight rnd m pk RS b"
  have mod: "of_nat (n mod group_order) * x = of_nat n * x" if "of_nat group_order * x = 0" for n and x :: 'a
  proof -
    have "of_nat n * x = of_nat (n div group_order * group_order + n mod group_order) * x" by simp
    also have "\<dots> = of_nat (n div group_order) * (of_nat group_order * x) + of_nat (n mod group_order) * x"
      by (simp only: of_nat_add of_nat_mult distrib_right mult.assoc)
    finally show ?thesis using that by simp
  qed
  have s: "(\<Sum>i < b * 2 + 1. f i) = f 0 + (\<Sum>i < b. f (i + 1)) + (\<Sum>i < b. f (b + 1 + i))" for f :: "nat \<Rightarrow> 'a"
  proof -
    have "(\<Sum>i < b + k. h i) = (\<Sum>i < b. h i) + (\<Sum>i < k. h (b + i))" for k and h :: "nat \<Rightarrow> 'a" by (induction k) (simp_all add: add.assoc)
    from this [of "\<lambda>i. f (Suc i)" b] show ?thesis
      using sum.lessThan_Suc_shift [of f "b + b"] by (simp add: mult_2_right add.assoc del: sum.lessThan_Suc)
  qed
  have "of_nat (w 0) * g = of_nat (\<Sum>i < b. le_nat (drop 32 (RS ! i)) * batch_rand rnd i) * g"
    unfolding w_def batch_weight_def by (simp only: refl if_True mod [OF assms(1)])
  also have "\<dots> = (\<Sum>i < b. of_nat (batch_rand rnd i) * (of_nat (le_nat (drop 32 (RS ! i))) * g))"
    by (simp add: sum_distrib_left mult_ac)
  finally have "of_nat (w 0) * g = (\<Sum>i < b. of_nat (batch_rand rnd i) * (of_nat (le_nat (drop 32 (RS ! i))) * g))" .
  moreover have "of_nat (w (i + 1)) * a i = of_nat (batch_rand rnd i) * (of_nat (hram_scalar (RS ! i) (pk ! i) (m ! i)) * a i)" if "i < b" for i
  proof -
    have "w (i + 1) = hram_scalar (RS ! i) (pk ! i) (m ! i) * batch_rand rnd i mod group_order" using that by (simp add: w_def batch_weight_def)
    then have "of_nat (w (i + 1)) * a i = of_nat (hram_scalar (RS ! i) (pk ! i) (m ! i) * batch_rand rnd i) * a i"
      by (simp only: mod [OF assms(2) [OF that]])
    then show ?thesis by (simp only: of_nat_mult mult_ac)
  qed
  moreover have "w (b + 1 + i) = batch_rand rnd i" for i by (simp add: w_def batch_weight_def)
  ultimately show ?thesis unfolding s w_def [symmetric] by (simp add: batch_log_def sum.distrib distrib_left)
qed

text \<open>The integers modulo the group order.\<close>

type_synonym order_ring = 7237005577332262213973186563042994240857116359379907606001950938285454250989

lemma order_ring_zero: "of_nat group_order = (0 :: order_ring)"
  by (simp add: group_order_def)

text \<open>C9: the batch equation. For a batch of 4 to 64 signatures whose keys and points \<open>R\<close> decode (to the negated points), the code tests
  whether a point is neutral, accepts all signatures if it is and verifies them one by one if not. The tested point is a random
  combination of the verification equations, under three conditions on the scalars of the multiplication: their greatest common
  divisor is 1, that of the scalars in the first heap is below \<open>2 ^ 127\<close>, and two scalars of the first heap are not zero. For every
  relation between points and numbers that respects doubling and addition, and relates the decoded keys to \<open>a\<^sub>i\<close>, the decoded points to \<open>t\<^sub>i\<close> and the base point to \<open>g\<close>,
  where the group order times \<open>a\<^sub>i\<close> and \<open>g\<close> is zero, it relates the tested point to \<open>\<Sum> r\<^sub>i (s\<^sub>i g + k\<^sub>i a\<^sub>i + t\<^sub>i)\<close> with the random
  numbers \<open>r\<^sub>i\<close>, the scalars \<open>s\<^sub>i\<close> of the signatures and the hashes \<open>k\<^sub>i\<close>. The witness takes the relation generated by
  the points themselves in the integers modulo the group order.\<close>

theorem ed25519_batch_equation:
  fixes L :: "fp4 \<Rightarrow> 'a :: comm_ring_1 \<Rightarrow> bool" and rnd :: "byte list"
  assumes "log_relation L" "batch_input ctx rnd m pk RS b batch"
    "\<forall>i < b. ge25519_unpack_negative_vartime (pk ! i) = Some (A i) \<and> ge25519_unpack_negative_vartime (take 32 (RS ! i)) = Some (R i)"
    "\<forall>i < b. L (ge_point (A i)) (a i) \<and> L (ge_point (R i)) (t i) \<and> of_nat group_order * a i = 0"
    "L (ge_point ge25519_basepoint) g" "of_nat group_order * g = 0"
    "Gcd (batch_weight rnd m pk RS b ` {..<b * 2 + 1}) = 1" "Gcd (batch_weight rnd m pk RS b ` {..<first_heap (b * 2 + 1)}) < 2 ^ 127"
    "i < first_heap (b * 2 + 1)" "j < first_heap (b * 2 + 1)" "i \<noteq> j" "batch_weight rnd m pk RS b i \<noteq> 0" "batch_weight rnd m pk RS b j \<noteq> 0"
  shows "\<exists>batch' X Y Z T. batch_step ctx rnd m pk RS b batch valid ret
      = Some (batch', if X = 0 \<and> Y = Z then (valid, ret) else open_each ctx m pk RS b valid (ret OR 2))
    \<and> L (X, Y, Z, T) (\<Sum>i < b. of_nat (batch_rand rnd i)
        * (of_nat (le_nat (drop 32 (RS ! i))) * g + of_nat (hram_scalar (RS ! i) (pk ! i) (m ! i)) * a i + t i))"
proof -
  define r where "r = map (\<lambda>i. take 16 (drop (16 * i) rnd)) [0..<b] @ drop b (bh_r batch)"
  define G where "G = batch\<lparr>bh_r := r, bh_scalars := batch_scalars ctx m pk RS b r (bh_scalars batch), bh_points := fst (batch_points pk RS b (bh_points batch))\<rparr>"
  have dec: "\<And>i. i < b \<Longrightarrow> ge25519_unpack_negative_vartime (pk ! i) = Some (A i) \<and> ge25519_unpack_negative_vartime (take 32 (RS ! i)) = Some (R i)"
    using assms(3) by blast
  note p = batch_prepared [of ctx rnd m pk RS b batch A R, OF assms(2) dec, folded r_def, folded G_def]
  define w where "w = batch_weight rnd m pk RS b"
  have "3 \<le> b * 2 + 1" "odd (b * 2 + 1)" "5 \<le> b * 2 + 1" using assms(2) by (auto simp: batch_input_def)
  note fh = first_heap_bounds [OF this(2,3)]
  have im: "scal G ` {..<n} = w ` {..<n}" if "n \<le> b * 2 + 1" for n using p(3) that unfolding w_def by (intro image_cong) auto
  define x where "x = batch_log g a t b"
  have Lx: "L (batch_point A R b i) (x i)" if "i < b * 2 + 1" for i using assms(4,5) that by (auto simp: batch_point_def x_def batch_log_def)
  have "\<exists>r h' Q y. ge25519_multi_scalarmult_vartime G (b * 2 + 1) = Some (r, h') \<and> ge_rep r Q
    \<and> of_nat (Gcd (scal G ` {..<b * 2 + 1})) * y = (\<Sum>i < b * 2 + 1. of_nat (scal G i) * x i)
    \<and> (if Gcd (scal G ` {..<b * 2 + 1}) = 1 then L Q y
       else \<exists>n. bits_of (Gcd (scal G ` {..<b * 2 + 1})) n \<and> L Q (of_nat (2 ^ n + Gcd (scal G ` {..<b * 2 + 1})) * y))"
    using p(3,4) Lx assms(8-13) fh(3) im [OF fh(3)] unfolding w_def
    by (intro multi_scalarmult_log [OF assms(1) p(2), where i = i and j = j]) auto
  then obtain q h' Q where L: "ge25519_multi_scalarmult_vartime G (b * 2 + 1) = Some (q, h')" "ge_rep q Q"
      "L Q (\<Sum>i < b * 2 + 1. of_nat (scal G i) * x i)"
    using assms(7) unfolding im [OF order_refl] w_def by auto
  obtain X Y Z T where Q: "Q = (X, Y, Z, T)" by (cases Q)
  have neutral: "ge25519_is_neutral_vartime q \<longleftrightarrow> X = 0 \<and> Y = Z" using neutral_test L(2) Q by blast
  have step: "batch_step ctx rnd m pk RS b batch valid ret = Some (h', if X = 0 \<and> Y = Z then (valid, ret) else open_each ctx m pk RS b valid (ret OR 2))"
    using L(1) p(1) by (simp add: batch_step_def Let_def split_def r_def [symmetric] G_def neutral)
  have "(\<Sum>i < b * 2 + 1. of_nat (scal G i) * x i) = (\<Sum>i < b * 2 + 1. of_nat (batch_weight rnd m pk RS b i) * x i)" using p(3) by simp
  also have "\<dots> = (\<Sum>i < b. of_nat (batch_rand rnd i)
        * (of_nat (le_nat (drop 32 (RS ! i))) * g + of_nat (hram_scalar (RS ! i) (pk ! i) (m ! i)) * a i + t i))"
    unfolding x_def using assms(4,6) by (intro batch_weight_sum) blast+
  finally have "(\<Sum>i < b * 2 + 1. of_nat (scal G i) * x i) = (\<Sum>i < b. of_nat (batch_rand rnd i)
        * (of_nat (le_nat (drop 32 (RS ! i))) * g + of_nat (hram_scalar (RS ! i) (pk ! i) (m ! i)) * a i + t i))" .
  note L(3) [unfolded this Q]
  then show ?thesis using step by blast
qed

theorem ed25519_batch_equation_witness:
  "\<exists>p batch' (X :: fp) (Y :: fp) Z T. ge25519_unpack_negative_vartime (replicate 32 0) = Some p
    \<and> batch_step zero_ctx (1 # replicate 79 0) (replicate 5 []) (replicate 5 (replicate 32 0)) (replicate 5 (replicate 32 0 @ 1 # replicate 31 0)) 5
      \<lparr>bh_r = replicate 129 [], bh_points = replicate 129 ge25519_set_neutral, bh_scalars = replicate 129 [], bh_heap = replicate 129 0, bh_size = 0\<rparr> (replicate 5 1) 0
    = Some (batch', if X = 0 \<and> Y = Z then (replicate 5 1, 0)
        else open_each zero_ctx (replicate 5 []) (replicate 5 (replicate 32 0)) (replicate 5 (replicate 32 0 @ 1 # replicate 31 0)) 5 (replicate 5 1) (0 OR 2))
    \<and> combination {(ge_point ge25519_basepoint, 1 :: order_ring), (ge_point p, 7)} (X, Y, Z, T)
        (1 + of_nat (hram_scalar (replicate 32 0 @ 1 # replicate 31 0) (replicate 32 0) []) * 7 + 7)"
proof -
  define m :: "byte list list" where "m = replicate 5 []"
  define pk :: "byte list list" where "pk = replicate 5 (replicate 32 0)"
  define RS :: "byte list list" where "RS = replicate 5 (replicate 32 0 @ 1 # replicate 31 0)"
  define rnd :: "byte list" where "rnd = 1 # replicate 79 0"
  define batch where "batch = \<lparr>bh_r = replicate 129 [], bh_points = replicate 129 ge25519_set_neutral, bh_scalars = replicate 129 [], bh_heap = replicate 129 0, bh_size = 0\<rparr>"
  have "enc_y (replicate 32 0) = 0" by (simp add: enc_y_def)
  then obtain p where p: "ge25519_unpack_negative_vartime (replicate 32 0) = Some p"
    using unpack_correct [of "replicate 32 0"] encoded_root_zero by (auto split: option.splits)
  have n: "pk ! i = replicate 32 0" "RS ! i = replicate 32 0 @ 1 # replicate 31 0" "m ! i = []" if "i < 5" for i
    using that by (simp_all add: pk_def RS_def m_def)
  have s: "le_nat (drop 32 (RS ! i)) = 1" if "i < 5" for i using n(2) [OF that] by (simp add: le_nat_zeros)
  have inp: "batch_input zero_ctx rnd m pk RS 5 batch"
    by (simp add: batch_input_def zero_ctx_ok max_batch_size_def heap_batch_size_def rnd_def m_def pk_def RS_def batch_def)
  have r: "batch_rand rnd i = (if i = 0 then 1 else 0)" if "i < 5" for i
  proof (cases i)
    case (Suc k)
    have "drop (16 * i) rnd = replicate (79 - (15 + 16 * k)) 0" unfolding Suc by (simp add: rnd_def drop_Cons')
    then show ?thesis using Suc by (simp add: batch_rand_def le_nat_zeros)
  qed (simp add: batch_rand_def rnd_def le_nat_zeros)
  have five: "{..<5 :: nat} = {0, 1, 2, 3, 4}" by auto
  have w: "batch_weight rnd m pk RS 5 0 = 1" "batch_weight rnd m pk RS 5 6 = 1"
    using r s by (simp_all add: batch_weight_def five group_order_def)
  have fh: "first_heap (5 * 2 + 1) = 7" by (simp add: first_heap_def)
  have gcd: "Gcd (batch_weight rnd m pk RS 5 ` {..<k}) = 1" if "0 < k" for k
    using w(1) that by (intro Gcd_eq_1_I) (auto intro!: image_eqI [of _ _ 0])
  let ?G = "{(ge_point ge25519_basepoint, 1 :: order_ring), (ge_point p, 7)}"
  have dec: "\<forall>i < 5. ge25519_unpack_negative_vartime (pk ! i) = Some p \<and> ge25519_unpack_negative_vartime (take 32 (RS ! i)) = Some p"
    using p n by simp
  have logs: "\<forall>i < (5 :: nat). combination ?G (ge_point p) 7 \<and> combination ?G (ge_point p) 7 \<and> of_nat group_order * (7 :: order_ring) = 0"
      "combination ?G (ge_point ge25519_basepoint) 1" "of_nat group_order * (1 :: order_ring) = 0"
    by (auto simp: order_ring_zero intro: comb_generator)
  have sum: "(\<Sum>i < 5. of_nat (batch_rand rnd i) * (of_nat (le_nat (drop 32 (RS ! i))) * 1 + of_nat (hram_scalar (RS ! i) (pk ! i) (m ! i)) * 7 + 7))
      = 1 + of_nat (hram_scalar (replicate 32 0 @ 1 # replicate 31 0) (replicate 32 0) []) * (7 :: order_ring) + 7"
    using r s n by (simp add: five)
  have "Gcd (batch_weight rnd m pk RS 5 ` {..<5 * 2 + 1}) = 1" "Gcd (batch_weight rnd m pk RS 5 ` {..<first_heap (5 * 2 + 1)}) < 2 ^ 127"
      "0 < first_heap (5 * 2 + 1)" "6 < first_heap (5 * 2 + 1)" "(0 :: nat) \<noteq> 6" "batch_weight rnd m pk RS 5 0 \<noteq> 0" "batch_weight rnd m pk RS 5 6 \<noteq> 0"
    using gcd w unfolding fh by simp_all
  from ed25519_batch_equation [OF combination_relation inp dec logs this, of "replicate 5 1" 0, unfolded sum] show ?thesis
    using p unfolding m_def pk_def RS_def rnd_def batch_def by blast
qed

text \<open>C12: the result of batch verification. Whatever the number of signatures and the random numbers, when the function returns, the
  array has an entry 0 or 1 for each signature, a signature that \<^verbatim>\<open>ed25519_sign_open\<close> accepts is never marked invalid,
  the lowest bit of the result says whether some entry is 0, and the result 0 means that all are 1; up to three signatures are
  verified one by one, and the function returns.\<close>

theorem ed25519_sign_open_batch_result:
  assumes "num \<le> length m" "num \<le> length pk" "num \<le> length RS"
  shows "(ed25519_sign_open_batch ctx rnd batch m pk RS num = Some (valid, ret) \<longrightarrow>
      length valid = num \<and> (\<forall>i < num. valid ! i = 1 \<or> valid ! i = 0 \<and> ed25519_sign_open ctx (m ! i) (pk ! i) (RS ! i) \<noteq> 0)
      \<and> (odd ret \<longleftrightarrow> (\<exists>i < num. valid ! i = 0)) \<and> (ret = 0 \<longrightarrow> (\<forall>i < num. valid ! i = 1)))
    \<and> (num \<le> 3 \<longrightarrow> ed25519_sign_open_batch ctx rnd batch m pk RS num
        = Some (map (\<lambda>i. if ed25519_sign_open ctx (m ! i) (pk ! i) (RS ! i) = 0 then 1 else 0) [0..<num],
                if \<forall>i < num. ed25519_sign_open ctx (m ! i) (pk ! i) (RS ! i) = 0 then 0 else 1))"
proof (intro conjI impI)
  assume "ed25519_sign_open_batch ctx rnd batch m pk RS num = Some (valid, ret)"
  then have r: "batch_result (open_ok ctx m pk RS) num valid 0 ret" using sign_open_batch_loop assms by blast
  show "length valid = num" "\<forall>i < num. valid ! i = 1 \<or> valid ! i = 0 \<and> ed25519_sign_open ctx (m ! i) (pk ! i) (RS ! i) \<noteq> 0"
      "odd ret \<longleftrightarrow> (\<exists>i < num. valid ! i = 0)" using r by (simp_all add: batch_result_def)
  show "\<forall>i < num. valid ! i = 1" if "ret = 0" using r that by (auto simp: batch_result_def)
next
  assume "num \<le> 3"
  then show "ed25519_sign_open_batch ctx rnd batch m pk RS num
        = Some (map (\<lambda>i. if open_ok ctx m pk RS i then 1 else 0) [0..<num], if \<forall>i < num. open_ok ctx m pk RS i then 0 else 1)"
    by (rule sign_open_batch_few)
qed

theorem ed25519_sign_open_batch_result_witness:
  "\<exists>v ret. ed25519_sign_open_batch zero_ctx (\<lambda>_. []) ones_batch [[]] [replicate 32 0] [replicate 64 255] 1 = Some ([v], ret) \<and> (odd ret \<longleftrightarrow> v = 0)"
proof -
  note * = ed25519_sign_open_batch_result [of 1 "[[]]" "[replicate 32 0]" "[replicate 64 255]" zero_ctx "\<lambda>_. []" ones_batch]
  show ?thesis using * by auto
qed

end
