(* ===== verification/Native.thy ===== *)
theory Native
  imports Generichash Ripemd160 Batch
begin

text \<open>
  \<^verbatim>\<open>com_smartx_crypto_Native.cpp\<close>: the five functions the Java node calls through JNI. A Java
  reference is an \<open>option\<close> (\<open>None\<close> is null), a \<^verbatim>\<open>byte[]\<close> its bytes. A call either
  returns a value or leaves a pending \<^verbatim>\<open>CryptoException\<close> with its message. The uninitialised hash context \<open>ctx\<close>, the
  uninitialised batch and the random bytes of batch verification are arguments.
  \<^verbatim>\<open>verifyBatch\<close> also counts its live heap blocks, to state when it frees them; \<open>None\<close> is a batch verification that does not
  return.
\<close>

unbundle bit_operations_syntax

datatype 'a jni = Returned 'a | Thrown string

text \<open>\<^verbatim>\<open>malloc(0)\<close> may return null: \<open>null0\<close> says whether it does.\<close>

definition msg_pointer :: "bool \<Rightarrow> byte list \<Rightarrow> byte list option" where
  "msg_pointer null0 m = (if m = [] \<and> null0 then None else Some m)"

text \<open>\<open>S\<close>, \<open>hash0\<close> and \<open>digest0\<close> are the uninitialised locals.\<close>

definition h256 :: "blake2b_state \<Rightarrow> bool \<Rightarrow> byte list \<Rightarrow> byte list option \<Rightarrow> byte list jni option" where
  "h256 S null0 hash0 msg =
    (case msg of None \<Rightarrow> Some (Thrown ''Input can't be null'')
     | Some m \<Rightarrow> do {
         (r, out) \<leftarrow> crypto_generichash_blake2b S False 32 (msg_pointer null0 m) (length m) None 0;
         Some (Returned (write_at hash0 0 out))
       })"

definition h160 :: "blake2b_state \<Rightarrow> bool \<Rightarrow> byte list \<Rightarrow> byte list option \<Rightarrow> byte list jni option" where
  "h160 S null0 hash0 msg =
    (case msg of None \<Rightarrow> Some (Thrown ''Input can't be null'')
     | Some m \<Rightarrow> do {
         (r, out) \<leftarrow> crypto_generichash_blake2b S False 32 (msg_pointer null0 m) (length m) None 0;
         digest \<leftarrow> ripemd160 (Some (write_at hash0 0 out));
         Some (Returned digest)
       })"

definition sign :: "crypto_hash_sha512_state \<Rightarrow> byte list option \<Rightarrow> byte list option \<Rightarrow> byte list jni" where
  "sign ctx msg sk =
    (case (msg, sk) of
       (Some m, Some k) \<Rightarrow>
         if length k \<noteq> 64 then Thrown ''Input can't be null''
         else let pk = ed25519_publickey ctx k in Returned (ed25519_sign ctx m k pk)
     | _ \<Rightarrow> Thrown ''Input can't be null'')"

definition verify :: "crypto_hash_sha512_state \<Rightarrow> byte list option \<Rightarrow> byte list option \<Rightarrow> byte list option \<Rightarrow> bool" where
  "verify ctx msg sig pk =
    (case (msg, sig, pk) of
       (Some m, Some s, Some p) \<Rightarrow>
         if length s \<noteq> 64 \<or> length p \<noteq> 32 then False else ed25519_sign_open ctx m p s = 0
     | _ \<Rightarrow> False)"

text \<open>One element of the batch is usable.\<close>

fun batch_element :: "byte list option \<times> byte list option \<times> byte list option \<Rightarrow> (byte list \<times> byte list \<times> byte list) option" where
  "batch_element (Some m, Some s, Some p) = (if length s \<noteq> 64 \<or> length p \<noteq> 32 then None else Some (m, s, p))"
| "batch_element _ = None"

text \<open>The loop that copies the elements: the buffers and the number of live blocks, or the early
  \<^verbatim>\<open>return false\<close> with the blocks that are live at that point.\<close>

fun batch_read :: "int \<Rightarrow> (byte list option \<times> byte list option \<times> byte list option) list
    \<Rightarrow> int + int \<times> (byte list \<times> byte list \<times> byte list) list" where
  "batch_read live [] = Inr (live, [])"
| "batch_read live (e # es) =
    (case batch_element e of
       None \<Rightarrow> Inl live
     | Some b \<Rightarrow> (case batch_read (live + 3) es of Inl l \<Rightarrow> Inl l | Inr (l, bs) \<Rightarrow> Inr (l, b # bs)))"

text \<open>Result of \<^verbatim>\<open>verifyBatch\<close> with the number of its allocations less the number of its deallocations, an integer: a block
  freed twice would make it negative. The array \<^verbatim>\<open>valid\<close> is filled and not read.\<close>

definition verifyBatch :: "crypto_hash_sha512_state \<Rightarrow> (nat \<Rightarrow> byte list) \<Rightarrow> batch_heap
    \<Rightarrow> byte list option list option \<Rightarrow> byte list option list option \<Rightarrow> byte list option list option \<Rightarrow> (bool jni \<times> int) option" where
  "verifyBatch ctx rnd batch msgs sigs pks =
    (case (msgs, sigs, pks) of
       (Some ms, Some ss, Some ps) \<Rightarrow>
         if length ms \<noteq> length ss \<or> length ss \<noteq> length ps
         then Some (Thrown ''Input arrays must have an identical length'', 0)
         else (case batch_read 4 (zip ms (zip ss ps)) of
             Inl live \<Rightarrow> Some (Returned False, live)
           | Inr (live, bs) \<Rightarrow> do {
               let live = live + 1;
               (valid, ret) \<leftarrow> ed25519_sign_open_batch ctx rnd batch (map fst bs) (map (\<lambda>b. snd (snd b)) bs) (map (\<lambda>b. fst (snd b)) bs) (length ms);
               Some (Returned (ret = 0), live - 3 * int (length ms) - 5)
             })
     | _ \<Rightarrow> Some (Returned False, 0))"

section \<open>Lemmas\<close>

lemma native_hash:
  assumes "length m < 2 ^ 64" "length hash0 = 32"
  shows "crypto_generichash_blake2b S False 32 (msg_pointer null0 m) (length m) None 0
    = Some (0, blake2b_spec (plain_param 32 0) 32 m)"
  using assms by (subst generichash_blake2b_eq) (auto simp: msg_pointer_def blake2b_mac_def input_bytes_def split: if_splits)

lemma length_native_hash [simp]: "length (blake2b_spec (plain_param 32 0) 32 m) = 32"
  by (simp add: length_blake2b_spec)

lemma batch_read_ok:
  "list_all (\<lambda>e. batch_element e \<noteq> None) es \<Longrightarrow> batch_read live es = Inr (live + 3 * int (length es), map (the \<circ> batch_element) es)"
  by (induction es arbitrary: live) auto


lemma batch_element_Some: "batch_element (x, y, z) = Some b \<longleftrightarrow>
  (\<exists>m s p. x = Some m \<and> y = Some s \<and> z = Some p \<and> length s = 64 \<and> length p = 32 \<and> b = (m, s, p))"
  by (cases "(x, y, z)" rule: batch_element.cases) auto

lemma verifyBatch_well_formed:
  assumes "length ss = length ms" "length ps = length ms" "\<forall>s \<in> set ss. length s = 64" "\<forall>p \<in> set ps. length p = 32"
  shows "verifyBatch ctx rnd batch (Some (map Some ms)) (Some (map Some ss)) (Some (map Some ps))
      = map_option (\<lambda>(valid, ret). (Returned (ret = 0), 0)) (ed25519_sign_open_batch ctx rnd batch ms ps ss (length ms))"
proof -
  let ?es = "zip (map Some ms) (zip (map Some ss) (map Some ps))"
  have es: "?es = map (\<lambda>(m, s, p). (Some m, Some s, Some p)) (zip ms (zip ss ps))"
    by (simp add: zip_map1 zip_map2 map_prod_def case_prod_unfold comp_def)
  have ok: "length s = 64 \<and> length p = 32" if "(m, s, p) \<in> set (zip ms (zip ss ps))" for m s p
  proof -
    have "(s, p) \<in> set (zip ss ps)" using that by (rule set_zip_rightD)
    then have "s \<in> set ss" "p \<in> set ps" by (rule set_zip_leftD, rule set_zip_rightD)
    then show ?thesis using assms(3,4) by simp
  qed
  have "map (the \<circ> batch_element) ?es = zip ms (zip ss ps)"
    unfolding es map_map by (rule map_idI) (auto simp: ok split: prod.splits)
  moreover have "list_all (\<lambda>e. batch_element e \<noteq> None) ?es"
    unfolding es list.pred_map list_all_iff comp_def by (auto simp: ok split: prod.splits)
  ultimately have read: "batch_read 4 ?es = Inr (4 + 3 * int (length ms), zip ms (zip ss ps))"
    using batch_read_ok [of ?es 4] assms(1,2) by simp
  have "map (\<lambda>b. fst (snd b)) (zip ms (zip ss ps)) = ss" "map (\<lambda>b. snd (snd b)) (zip ms (zip ss ps)) = ps"
    using assms(1,2) map_map [of fst snd "zip ms (zip ss ps)"] map_map [of snd snd "zip ms (zip ss ps)"] by (simp_all add: comp_def)
  then show ?thesis
    using assms(1,2) by (cases "ed25519_sign_open_batch ctx rnd batch ms ps ss (length ms)") (auto simp: verifyBatch_def read Let_def)
qed

lemma all_Suc_less_two: "(\<forall>i < Suc (Suc 0). P i) \<longleftrightarrow> P 0 \<and> P (Suc 0)"
  by (auto simp: less_Suc_eq)

section \<open>Properties\<close>

text \<open>C1: \<^verbatim>\<open>Native.h256\<close> of a byte array is its 32-byte unkeyed BLAKE2b digest and
  \<^verbatim>\<open>Native.h160\<close> is the 20-byte RIPEMD-160 digest of that digest, whatever the
  uninitialised locals hold and whatever malloc(0) returns; a null argument raises the exception.\<close>

theorem native_hashes_correct:
  assumes "length m < 2 ^ 31" "length hash0 = 32"
  shows "h256 S null0 hash0 (Some m) = Some (Returned (blake2b_spec (plain_param 32 0) 32 m))
    \<and> h160 S null0 hash0 (Some m) = Some (Returned (rmd160_spec (blake2b_spec (plain_param 32 0) 32 m)))
    \<and> length (blake2b_spec (plain_param 32 0) 32 m) = 32
    \<and> length (rmd160_spec (blake2b_spec (plain_param 32 0) 32 m)) = 20
    \<and> h256 S null0 hash0 None = Some (Thrown ''Input can't be null'')
    \<and> h160 S null0 hash0 None = Some (Thrown ''Input can't be null'')"
  using assms native_hash [OF _ assms(2), of m S null0]
  by (simp add: h256_def h160_def ripemd160_eq rmd160_spec_length)


theorem native_hashes_correct_witness:
  "h256 \<lparr>b2_h = [], b2_t = [], b2_f = [], b2_buf = [], b2_buflen = 0, b2_last_node = 0\<rparr> True (replicate 32 1) (Some [])
    = Some (Returned (blake2b_spec (plain_param 32 0) 32 []))"
  using native_hashes_correct [of "[]" "replicate 32 1"
      "\<lparr>b2_h = [], b2_t = [], b2_f = [], b2_buf = [], b2_buflen = 0, b2_last_node = 0\<rparr>" True] by simp

text \<open>C2: \<^verbatim>\<open>Native.sign\<close> returns, for a message and a 64-byte secret key, the 64 bytes \<open>R, S\<close> of the Ed25519 signature under the public key computed
  from it (\<open>S = (r + k a) mod L\<close>), and throws exactly when an argument is null or the key has another length.
  \<^verbatim>\<open>Native.verify\<close> never throws and is true exactly when all arguments are present, the signature has 64 and the key 32 bytes, the three top
  bits of the signature are zero, the key decodes and \<open>R\<close> is the encoding of the recomputed point. For every discrete logarithm of a group of the order of
  Ed25519 and the negated public key \<open>P\<close>, the point recomputed for a signature made by \<open>sign\<close> has the logarithm of its \<open>R\<close>.\<close>

theorem native_sign_verify:
  fixes l :: "fp4 \<Rightarrow> 'a :: comm_ring_1" and k :: "byte list"
  assumes "length (sha512_buf ctx) = 128" "length m < 2 ^ 31" "length k = 64" "sliding_points B"
  defines "pk \<equiv> ed25519_publickey ctx k"
  defines "sig \<equiv> sign_R k m @ le_bytes 32 ((hash_scalar (secret_prefix k @ m) + hash_scalar (sign_R k m @ pk @ m) * secret_scalar k) mod group_order)"
  shows "sign ctx (Some m) (Some k) = Returned sig \<and> length sig = 64
    \<and> (sign ctx msg sk = Thrown ''Input can't be null'' \<longleftrightarrow> msg = None \<or> sk = None \<or> length (the sk) \<noteq> 64)
    \<and> (verify ctx (Some m) (Some s) (Some p) \<longleftrightarrow> length s = 64 \<and> length p = 32 \<and> s ! 63 AND 224 = 0
        \<and> (\<exists>A. ge25519_unpack_negative_vartime p = Some A \<and> take 32 s = point_bytes (verify_point B m p s (ge_point A))))
    \<and> (verify ctx msg' sig' pk' \<longrightarrow> msg' \<noteq> None \<and> sig' \<noteq> None \<and> pk' \<noteq> None)
    \<and> (base_points ge25519_niels_base_multiples T \<and> discrete_log S l \<and> of_nat group_order * g = 0
        \<and> (\<forall>pos < 32. \<forall>i < 8. T pos i \<in> S \<and> l (T pos i) = of_nat (i + 1) * (256 ^ pos * g))
        \<and> (\<forall>i < 32. B i \<in> S \<and> l (B i) = of_int (2 * int i + 1) * g) \<and> P \<in> S \<and> l P = - (of_nat (secret_scalar k) * g) \<longrightarrow>
          l (verify_point B m pk sig P) = l (base_point T (expand256_modm (sha512_spec (secret_prefix k @ m)) 64)))"
proof -
  have m: "length m < 2 ^ 64" using assms(2) by simp
  have pk: "take 32 pk = pk" using publickey_length [OF assms(1)] by (simp add: pk_def)
  have sig: "ed25519_sign ctx m k pk = sig" unfolding sign_eq [OF assms(1) m] sig_def sign_S_def pk ..
  have "length sig = 64" by (simp add: sig_def)
  moreover have "sign ctx (Some m) (Some k) = Returned sig" using assms(3) sig by (simp add: sign_def pk_def)
  moreover have "sign ctx msg sk = Thrown ''Input can't be null'' \<longleftrightarrow> msg = None \<or> sk = None \<or> length (the sk) \<noteq> 64"
    by (auto simp: sign_def Let_def split: option.splits)
  moreover have "verify ctx msg' sig' pk' \<longrightarrow> msg' \<noteq> None \<and> sig' \<noteq> None \<and> pk' \<noteq> None" by (auto simp: verify_def split: option.splits)
  moreover have "verify ctx (Some m) (Some s) (Some p) \<longleftrightarrow> length s = 64 \<and> length p = 32 \<and> s ! 63 AND 224 = 0
        \<and> (\<exists>A. ge25519_unpack_negative_vartime p = Some A \<and> take 32 s = point_bytes (verify_point B m p s (ge_point A)))"
    using sign_open_eq [OF assms(1) m _ _ assms(4), of p s] by (auto simp: verify_def split: if_splits)
  moreover have "l (verify_point B m pk sig P) = l (base_point T (expand256_modm (sha512_spec (secret_prefix k @ m)) 64))"
    if "base_points ge25519_niels_base_multiples T \<and> discrete_log S l \<and> of_nat group_order * g = 0
        \<and> (\<forall>pos < 32. \<forall>i < 8. T pos i \<in> S \<and> l (T pos i) = of_nat (i + 1) * (256 ^ pos * g))
        \<and> (\<forall>i < 32. B i \<in> S \<and> l (B i) = of_int (2 * int i + 1) * g) \<and> P \<in> S \<and> l P = - (of_nat (secret_scalar k) * g)"
    using verification_equation [OF assms(1) m, of T S l g B P k pk] that assms(4) unfolding sig by blast
  ultimately show ?thesis by blast
qed

theorem native_sign_verify_witness:
  "\<exists>sig. sign zero_ctx (Some [1, 2]) (Some (replicate 64 3)) = Returned sig \<and> length sig = 64"
proof -
  obtain B where "sliding_points B" using sliding_points_exist ..
  then show ?thesis
    using native_sign_verify [of zero_ctx "[1, 2]" "replicate 64 3" B None None "[]" "[]" None None None "\<lambda>_ _. ed_neutral" UNIV "\<lambda>_. 0 :: int" 0 ed_neutral]
      zero_ctx_ok by auto
qed

text \<open>C3: \<^verbatim>\<open>Native.verifyBatch\<close> on arrays of one length whose elements are all well formed returns whether batch verification of the
  copied elements in their order gives 0, and frees every block it allocated; true means that no element was found invalid, and
  for up to three elements that each of them verifies. Arrays of different lengths throw.\<close>

theorem verifyBatch_correct:
  assumes "length ss = length ms" "length ps = length ms" "\<forall>s \<in> set ss. length s = 64" "\<forall>p \<in> set ps. length p = 32"
  shows "verifyBatch ctx rnd batch (Some (map Some ms)) (Some (map Some ss)) (Some (map Some ps))
      = map_option (\<lambda>(valid, ret). (Returned (ret = 0), 0)) (ed25519_sign_open_batch ctx rnd batch ms ps ss (length ms))
    \<and> (ed25519_sign_open_batch ctx rnd batch ms ps ss (length ms) = Some (valid, 0) \<longrightarrow> valid = replicate (length ms) 1)
    \<and> (length ms \<le> 3 \<longrightarrow> verifyBatch ctx rnd batch (Some (map Some ms)) (Some (map Some ss)) (Some (map Some ps))
        = Some (Returned (\<forall>i < length ms. verify ctx (Some (ms ! i)) (Some (ss ! i)) (Some (ps ! i))), 0))
    \<and> (length ss' \<noteq> length ms' \<or> length ps' \<noteq> length ss' \<longrightarrow> verifyBatch ctx rnd batch (Some ms') (Some ss') (Some ps')
      = Some (Thrown ''Input arrays must have an identical length'', 0))"
proof -
  have V: "verifyBatch ctx rnd batch (Some (map Some ms)) (Some (map Some ss)) (Some (map Some ps))
      = map_option (\<lambda>(valid, ret). (Returned (ret = 0), 0)) (ed25519_sign_open_batch ctx rnd batch ms ps ss (length ms))"
    by (rule verifyBatch_well_formed [OF assms])
  moreover have "valid = replicate (length ms) 1" if "ed25519_sign_open_batch ctx rnd batch ms ps ss (length ms) = Some (valid, 0)"
    using sign_open_batch_all [OF that] assms(1,2) by simp
  moreover have "verifyBatch ctx rnd batch (Some (map Some ms)) (Some (map Some ss)) (Some (map Some ps))
      = Some (Returned (\<forall>i < length ms. verify ctx (Some (ms ! i)) (Some (ss ! i)) (Some (ps ! i))), 0)" if "length ms \<le> 3"
    unfolding V sign_open_batch_few [OF that] using assms by (auto simp: verify_def)
  moreover have "length ss' \<noteq> length ms' \<or> length ps' \<noteq> length ss' \<longrightarrow> verifyBatch ctx rnd batch (Some ms') (Some ss') (Some ps')
      = Some (Thrown ''Input arrays must have an identical length'', 0)" by (auto simp: verifyBatch_def)
  ultimately show ?thesis by blast
qed

theorem verifyBatch_correct_witness:
  "verifyBatch zero_ctx (\<lambda>_. []) ones_batch (Some [Some [1], Some [2]]) (Some [Some (replicate 64 255), Some (replicate 64 1)])
     (Some [Some (replicate 32 0), Some (replicate 32 1)]) = Some (Returned False, 0)"
proof -
  let ?ms = "[[1], [2]] :: byte list list" and ?ss = "[replicate 64 255, replicate 64 1]" and ?ps = "[replicate 32 0, replicate 32 1]"
  have "\<not> verify zero_ctx (Some [1]) (Some (replicate 64 255)) (Some (replicate 32 0))"
    by (simp add: verify_def ed25519_sign_open_def)
  moreover have "verifyBatch zero_ctx (\<lambda>_. []) ones_batch (Some (map Some ?ms)) (Some (map Some ?ss)) (Some (map Some ?ps))
      = Some (Returned (\<forall>i < length ?ms. verify zero_ctx (Some (?ms ! i)) (Some (?ss ! i)) (Some (?ps ! i))), 0)"
    using verifyBatch_correct [of ?ss ?ms ?ps zero_ctx "\<lambda>_. []" ones_batch "[]" "[]" "[]" "[]", THEN conjunct2, THEN conjunct2, THEN conjunct1] by simp
  ultimately show ?thesis by (simp add: all_Suc_less_two)
qed



end
