(* ===== verification/Sha256.thy ===== *)
theory Sha256
  imports Sha2
begin

unbundle bit_operations_syntax

text \<open>
  \<^verbatim>\<open>crypto_hash/sha256/cp/hash_sha256_cp.c\<close>: the SHA-256 context and its operations. An
  uninitialised local context is an explicit argument (its buffer has 64 bytes of unknown
  content), and the theorems show that the digest does not depend on it.
\<close>

record crypto_hash_sha256_state =
  sha256_state :: "u32 list"
  sha256_count :: u64
  sha256_buf :: "byte list"

definition be32enc_vect :: "u32 list \<Rightarrow> nat \<Rightarrow> byte list" where
  "be32enc_vect src len = concat (map (\<lambda>i. store32_be (src ! i)) [0..<len div 4])"

definition be32dec_vect :: "byte list \<Rightarrow> nat \<Rightarrow> u32 list" where
  "be32dec_vect src len = map (\<lambda>i. load32_be (drop (i * 4) src)) [0..<len div 4]"

definition Krnd_256 :: "u32 list" where
  "Krnd_256 = [
    0x428a2f98, 0x71374491, 0xb5c0fbcf, 0xe9b5dba5, 0x3956c25b, 0x59f111f1,
    0x923f82a4, 0xab1c5ed5, 0xd807aa98, 0x12835b01, 0x243185be, 0x550c7dc3,
    0x72be5d74, 0x80deb1fe, 0x9bdc06a7, 0xc19bf174, 0xe49b69c1, 0xefbe4786,
    0x0fc19dc6, 0x240ca1cc, 0x2de92c6f, 0x4a7484aa, 0x5cb0a9dc, 0x76f988da,
    0x983e5152, 0xa831c66d, 0xb00327c8, 0xbf597fc7, 0xc6e00bf3, 0xd5a79147,
    0x06ca6351, 0x14292967, 0x27b70a85, 0x2e1b2138, 0x4d2c6dfc, 0x53380d13,
    0x650a7354, 0x766a0abb, 0x81c2c92e, 0x92722c85, 0xa2bfe8a1, 0xa81a664b,
    0xc24b8b70, 0xc76c51a3, 0xd192e819, 0xd6990624, 0xf40e3585, 0x106aa070,
    0x19a4c116, 0x1e376c08, 0x2748774c, 0x34b0bcb5, 0x391c0cb3, 0x4ed8aa4a,
    0x5b9cca4f, 0x682e6ff3, 0x748f82ee, 0x78a5636f, 0x84c87814, 0x8cc70208,
    0x90befffa, 0xa4506ceb, 0xbef9a3f7, 0xc67178f2]"

definition S0_256 :: "u32 \<Rightarrow> u32" where "S0_256 x = rotr32 x 2 XOR rotr32 x 13 XOR rotr32 x 22"
definition S1_256 :: "u32 \<Rightarrow> u32" where "S1_256 x = rotr32 x 6 XOR rotr32 x 11 XOR rotr32 x 25"
definition s0_256 :: "u32 \<Rightarrow> u32" where "s0_256 x = rotr32 x 7 XOR rotr32 x 18 XOR drop_bit 3 x"
definition s1_256 :: "u32 \<Rightarrow> u32" where "s1_256 x = rotr32 x 17 XOR rotr32 x 19 XOR drop_bit 10 x"

definition SHA256_Transform :: "u32 list \<Rightarrow> byte list \<Rightarrow> u32 list" where
  "SHA256_Transform state blk =
    (let W = be32dec_vect blk 64;
         (S, W') = foldl (sha2_pass 64 S0_256 S1_256 s0_256 s1_256 Krnd_256) (state, W) [0, 16, 32, 48]
     in map2 (+) state S)"

definition PAD_256 :: "byte list" where
  "PAD_256 = 0x80 # replicate 63 0"

definition SHA256_Pad :: "crypto_hash_sha256_state \<Rightarrow> crypto_hash_sha256_state" where
  "SHA256_Pad st =
    (let r = unat (drop_bit 3 (sha256_count st) AND 0x3f);
         st1 = (if r < 56 then st\<lparr>sha256_buf := write_at (sha256_buf st) r (take (56 - r) PAD_256)\<rparr>
                else let buf = write_at (sha256_buf st) r (take (64 - r) PAD_256)
                     in st\<lparr>sha256_state := SHA256_Transform (sha256_state st) buf,
                           sha256_buf := write_at buf 0 (replicate 56 0)\<rparr>);
         buf2 = write_at (sha256_buf st1) 56 (store64_be (sha256_count st1))
     in st1\<lparr>sha256_buf := buf2, sha256_state := SHA256_Transform (sha256_state st1) buf2\<rparr>)"

definition crypto_hash_sha256_init :: "crypto_hash_sha256_state \<Rightarrow> crypto_hash_sha256_state" where
  "crypto_hash_sha256_init st = st\<lparr>sha256_count := 0,
     sha256_state := [0x6a09e667, 0xbb67ae85, 0x3c6ef372, 0xa54ff53a,
                      0x510e527f, 0x9b05688c, 0x1f83d9ab, 0x5be0cd19]\<rparr>"

text \<open>The \<^verbatim>\<open>while (inlen >= 64)\<close> loop: chaining value and remaining input.\<close>

function sha256_update_loop :: "u32 list \<Rightarrow> byte list \<Rightarrow> u32 list \<times> byte list" where
  "sha256_update_loop state inp =
     (if length inp \<ge> 64 then sha256_update_loop (SHA256_Transform state (take 64 inp)) (drop 64 inp)
      else (state, inp))"
  by pat_completeness auto
termination
  by (relation "measure (\<lambda>(s, i). length i)") auto

declare sha256_update_loop.simps [simp del]

definition crypto_hash_sha256_update ::
  "crypto_hash_sha256_state \<Rightarrow> byte list \<Rightarrow> crypto_hash_sha256_state" where
  "crypto_hash_sha256_update st inp =
    (if length inp \<le> 0 then st
     else let r = unat (drop_bit 3 (sha256_count st) AND 0x3f);
              st1 = st\<lparr>sha256_count := sha256_count st + push_bit 3 (of_nat (length inp))\<rparr>
          in if length inp < 64 - r then st1\<lparr>sha256_buf := write_at (sha256_buf st1) r inp\<rparr>
             else let buf = write_at (sha256_buf st1) r (take (64 - r) inp);
                      (state, rest) = sha256_update_loop (SHA256_Transform (sha256_state st1) buf) (drop (64 - r) inp)
                  in st1\<lparr>sha256_state := state,
                         sha256_buf := write_at buf 0 (take (length rest mod 64) rest)\<rparr>)"

definition crypto_hash_sha256_final ::
  "crypto_hash_sha256_state \<Rightarrow> crypto_hash_sha256_state \<times> byte list" where
  "crypto_hash_sha256_final st =
    (let st1 = SHA256_Pad st; out = be32enc_vect (sha256_state st1) 32
     in (\<lparr>sha256_state = replicate 8 0, sha256_count = 0, sha256_buf = replicate 64 0\<rparr>, out))"

definition crypto_hash_sha256 :: "crypto_hash_sha256_state \<Rightarrow> byte list \<Rightarrow> byte list" where
  "crypto_hash_sha256 st inp =
     snd (crypto_hash_sha256_final (crypto_hash_sha256_update (crypto_hash_sha256_init st) inp))"


section \<open>Specification and correctness\<close>

definition sha256_compress :: "u32 list \<Rightarrow> byte list \<Rightarrow> u32 list" where
  "sha256_compress H blk =
     fips_compress 64 S0_256 S1_256 s0_256 s1_256 Krnd_256 H (map (\<lambda>t. load32_be (drop (4 * t) blk)) [0..<16])"

abbreviation sha256_iv :: "u32 list" where
  "sha256_iv \<equiv> [0x6a09e667, 0xbb67ae85, 0x3c6ef372, 0xa54ff53a, 0x510e527f, 0x9b05688c, 0x1f83d9ab, 0x5be0cd19]"

definition sha256_spec :: "byte list \<Rightarrow> byte list" where
  "sha256_spec m = concat (map store32_be
     (blocks_fold 64 sha256_compress sha256_iv (m @ md_pad 64 8 (length m) (store64_be (of_nat (8 * length m))))))"

lemma SHA256_Transform_fips:
  assumes "length state = 8"
  shows "SHA256_Transform state blk = sha256_compress state blk"
proof -
  have W: "be32dec_vect blk 64 = map (\<lambda>t. load32_be (drop (4 * t) blk)) [0..<16]"
    by (simp add: be32dec_vect_def mult.commute)
  have l: "[0, 16, 32, 48] = map ((*) 16) [0..<64 div (16 :: nat)]"
    by (simp add: upt_rec)
  show ?thesis
    unfolding SHA256_Transform_def sha256_compress_def Let_def W l
    using sha2_transform_fips [of 64 state, OF _ assms] by (simp add: case_prod_beta del: upt.simps)
qed

lemma length_sha256_compress [simp]: "length (sha256_compress H blk) = length H"
  by (simp add: sha256_compress_def fips_compress_def)

lemma length_fold_sha256 [simp]: "length (blocks_fold 64 sha256_compress H m) = length H"
  by (induction "64 :: nat" sha256_compress H m rule: blocks_fold.induct) (simp add: blocks_fold.simps)

lemma sha256_update_loop_fold:
  "length state = 8 \<Longrightarrow> sha256_update_loop state inp = (blocks_fold 64 sha256_compress state inp, tail_bytes 64 inp)"
proof (induction state inp rule: sha256_update_loop.induct)
  case (1 state inp)
  show ?case
  proof (cases "length inp \<ge> 64")
    case True
    have "inp = take 64 inp @ drop 64 inp" by simp
    then have t: "tail_bytes 64 inp = tail_bytes 64 (drop 64 inp)"
      using True tail_bytes_block [of "take 64 inp" 64 "drop 64 inp"] by simp
    show ?thesis
      using True 1 by (simp add: sha256_update_loop.simps [of state inp] blocks_fold.simps [of 64 _ state inp]
          SHA256_Transform_fips t)
  qed (simp add: sha256_update_loop.simps [of state inp])
qed

definition sha256_rep :: "crypto_hash_sha256_state \<Rightarrow> byte list \<Rightarrow> bool" where
  "sha256_rep st m \<longleftrightarrow> sha256_count st = of_nat (8 * length m) \<and>
     buffered 64 sha256_compress sha256_iv m (sha256_state st) (sha256_buf st)"

lemma sha256_pos: "sha256_rep st m \<Longrightarrow> unat (drop_bit 3 (sha256_count st) AND 0x3f) = length m mod 64"
  using unat_bits_to_bytes [of 6 "length m"] by (simp add: sha256_rep_def mask_eq_exp_minus_1)

lemma sha256_rep_state: "sha256_rep st m \<Longrightarrow> length (sha256_state st) = 8"
  by (simp add: sha256_rep_def buffered_def)

lemma sha256_rep_init: "length (sha256_buf st) = 64 \<Longrightarrow> sha256_rep (crypto_hash_sha256_init st) []"
  by (simp add: sha256_rep_def crypto_hash_sha256_init_def buffered_init)

lemma sha256_rep_update:
  assumes "sha256_rep st m"
  shows "sha256_rep (crypto_hash_sha256_update st c) (m @ c)"
proof (cases "c = []")
  case True
  with assms show ?thesis by (simp add: crypto_hash_sha256_update_def)
next
  case False
  obtain h' buf' where e: "eager_absorb 64 sha256_compress (length m mod 64) (sha256_state st) (sha256_buf st) c = (h', buf')"
    by fastforce
  have "take (length (tail_bytes 64 x) mod 64) (tail_bytes 64 x) = tail_bytes 64 x" for x
    by simp
  then have "crypto_hash_sha256_update st c = st\<lparr>sha256_count := of_nat (8 * length (m @ c)),
      sha256_state := h', sha256_buf := buf'\<rparr>"
    using False assms e sha256_pos [OF assms] sha256_rep_state [OF assms]
    by (auto simp: crypto_hash_sha256_update_def eager_absorb_def Let_def sha256_update_loop_fold
        SHA256_Transform_fips sha256_rep_def push_bit3 algebra_simps split: if_splits)
  with buffered_absorb [OF _ e] assms show ?thesis
    by (simp add: sha256_rep_def)
qed

lemma sha256_rep_final:
  assumes "sha256_rep st m"
  shows "snd (crypto_hash_sha256_final st) = sha256_spec m"
proof -
  let ?enc = "store64_be (of_nat (8 * length m))"
  have p: "sha256_state (SHA256_Pad st)
      = eager_pad 64 8 sha256_compress (length m mod 64) (sha256_state st) (sha256_buf st) ?enc"
    using assms sha256_pos [OF assms] sha256_rep_state [OF assms]
    by (auto simp: SHA256_Pad_def eager_pad_def PAD_256_def Let_def SHA256_Transform_fips sha256_rep_def)
  have "be32enc_vect v 32 = concat (map store32_be v)" if "length v = 8" for v
    using that by (simp add: be32enc_vect_def map_nth_upt del: upt_rec_numeral)
  then show ?thesis
    using assms eager_pad_correct [of 64 sha256_compress sha256_iv m "sha256_state st" "sha256_buf st" ?enc 8]
    by (simp add: crypto_hash_sha256_final_def Let_def p sha256_spec_def sha256_rep_def)
qed

lemma sha256_final_mem [simp]: "length (sha256_buf (fst (crypto_hash_sha256_final st))) = 64"
  by (simp add: crypto_hash_sha256_final_def Let_def)

interpretation sha256: total_streaming "\<lambda>st. length (sha256_buf st) = 64" crypto_hash_sha256_init
  crypto_hash_sha256_update crypto_hash_sha256_final sha256_rep "\<lambda>_. True" sha256_spec
  by unfold_locales (auto intro: sha256_rep_init sha256_rep_update sha256_rep_final)


section \<open>Properties\<close>

text \<open>C22: Starting from a context of any content, feeding a message in any chunks and
  finalising gives the FIPS 180-4 digest of the whole message: the reference compression
  iterated over the message with its padding and 64-bit length.\<close>

theorem sha256_stream_digest:
  assumes "length (sha256_buf st) = 64"
  shows "snd (crypto_hash_sha256_final (foldl crypto_hash_sha256_update (crypto_hash_sha256_init st) cs))
           = sha256_spec (concat cs)"
  using assms by (rule sha256.digest_foldl) (simp add: list_all_iff)

theorem sha256_stream_digest_witness:
  "snd (crypto_hash_sha256_final (foldl crypto_hash_sha256_update
      (crypto_hash_sha256_init \<lparr>sha256_state = [], sha256_count = 7, sha256_buf = replicate 64 9\<rparr>) [[1, 2], [], [3]]))
    = sha256_spec [1, 2, 3]"
  using sha256_stream_digest [of "\<lparr>sha256_state = [], sha256_count = 7, sha256_buf = replicate 64 9\<rparr>" "[[1, 2], [], [3]]"]
  by simp

text \<open>The unrolled transform on a rotating register array is the FIPS 180-4 compression
  function with its message schedule.\<close>

theorem SHA256_Transform_reference:
  assumes "length state = 8"
  shows "SHA256_Transform state blk = fips_compress 64 S0_256 S1_256 s0_256 s1_256 Krnd_256 state
           (map (\<lambda>t. load32_be (drop (4 * t) blk)) [0..<16])"
  using SHA256_Transform_fips [OF assms] by (simp only: sha256_compress_def)

theorem SHA256_Transform_reference_witness:
  "SHA256_Transform (replicate 8 1) (replicate 64 2) = fips_compress 64 S0_256 S1_256 s0_256 s1_256 Krnd_256
     (replicate 8 1) (map (\<lambda>t. load32_be (drop (4 * t) (replicate 64 2))) [0..<16])"
  by (rule SHA256_Transform_reference) simp

lemma crypto_hash_sha256_spec:
  "length (sha256_buf st) = 64 \<Longrightarrow> crypto_hash_sha256 st m = sha256_spec m"
  unfolding crypto_hash_sha256_def by (rule sha256.digest_one) simp_all

lemma length_sha256_spec [simp]: "length (sha256_spec m) = 32"
  by (simp add: sha256_spec_def length_concat comp_def sum_list_triv)

end
