(* ===== verification/Hmac.thy ===== *)
theory Hmac
  imports Sha256 Sha512 Utils
begin

unbundle bit_operations_syntax

text \<open>
  \<^verbatim>\<open>crypto_auth/hmacsha256\<close>, \<^verbatim>\<open>hmacsha512\<close>, \<^verbatim>\<open>hmacsha512256\<close> and \<^verbatim>\<open>crypto_auth.c\<close>. The
  two HMAC files have the same text up to the hash they call and its sizes; the text is
  modelled once, over the operations of the hash, and instantiated for each file. The locale
  \<open>hmac_hash\<close> is the contract the code needs of the hash; in it the HMAC context is shown
  to represent FIPS 198-1's HMAC of the bytes fed, so that each instance is again a
  \<open>total_streaming\<close> provider.
\<close>

record 's hmac_state =
  ictx :: 's
  octx :: 's

section \<open>The code\<close>

text \<open>\<^verbatim>\<open>memset(pad, c, B); for (i = 0; i < keylen; i++) pad[i] ^= key[i];\<close>\<close>

definition hmac_pad :: "byte \<Rightarrow> nat \<Rightarrow> byte list \<Rightarrow> byte list" where
  "hmac_pad c B key = foldl (\<lambda>pad i. pad[i := pad ! i XOR key ! i]) (replicate B c) [0..<length key]"

definition hmac_init :: "('s \<Rightarrow> 's) \<Rightarrow> ('s \<Rightarrow> byte list \<Rightarrow> 's) \<Rightarrow> ('s \<Rightarrow> 's \<times> byte list) \<Rightarrow> nat
    \<Rightarrow> 's hmac_state \<Rightarrow> byte list \<Rightarrow> 's hmac_state" where
  "hmac_init init upd fin B state key =
    (let (i, key') = (if length key > B then fin (upd (init (ictx state)) key) else (ictx state, key))
     in \<lparr>ictx = upd (init i) (hmac_pad 0x36 B key'), octx = upd (init (octx state)) (hmac_pad 0x5c B key')\<rparr>)"

definition hmac_update :: "('s \<Rightarrow> byte list \<Rightarrow> 's) \<Rightarrow> 's hmac_state \<Rightarrow> byte list \<Rightarrow> 's hmac_state" where
  "hmac_update upd state m = state\<lparr>ictx := upd (ictx state) m\<rparr>"

definition hmac_final :: "('s \<Rightarrow> byte list \<Rightarrow> 's) \<Rightarrow> ('s \<Rightarrow> 's \<times> byte list)
    \<Rightarrow> 's hmac_state \<Rightarrow> 's hmac_state \<times> byte list" where
  "hmac_final upd fin state =
    (let (i, ihash) = fin (ictx state); (o', out) = fin (upd (octx state) ihash)
     in (\<lparr>ictx = i, octx = o'\<rparr>, out))"

subsection \<open>HMAC-SHA-256\<close>

type_synonym crypto_auth_hmacsha256_state = "crypto_hash_sha256_state hmac_state"

definition crypto_auth_hmacsha256_init ::
  "crypto_auth_hmacsha256_state \<Rightarrow> byte list \<Rightarrow> crypto_auth_hmacsha256_state" where
  "crypto_auth_hmacsha256_init =
     hmac_init crypto_hash_sha256_init crypto_hash_sha256_update crypto_hash_sha256_final 64"

definition crypto_auth_hmacsha256_update ::
  "crypto_auth_hmacsha256_state \<Rightarrow> byte list \<Rightarrow> crypto_auth_hmacsha256_state" where
  "crypto_auth_hmacsha256_update = hmac_update crypto_hash_sha256_update"

definition crypto_auth_hmacsha256_final ::
  "crypto_auth_hmacsha256_state \<Rightarrow> crypto_auth_hmacsha256_state \<times> byte list" where
  "crypto_auth_hmacsha256_final = hmac_final crypto_hash_sha256_update crypto_hash_sha256_final"

definition crypto_auth_hmacsha256 :: "crypto_auth_hmacsha256_state \<Rightarrow> byte list \<Rightarrow> byte list \<Rightarrow> byte list" where
  "crypto_auth_hmacsha256 state m k = snd (crypto_auth_hmacsha256_final
     (crypto_auth_hmacsha256_update (crypto_auth_hmacsha256_init state (take 32 k)) m))"

text \<open>The tag computed by the \<^verbatim>\<open>_verify\<close> functions is in a local array, so the address
  comparison \<^verbatim>\<open>h == correct\<close> is false and contributes 0.\<close>

definition crypto_auth_hmacsha256_verify ::
  "crypto_auth_hmacsha256_state \<Rightarrow> byte list \<Rightarrow> byte list \<Rightarrow> byte list \<Rightarrow> int" where
  "crypto_auth_hmacsha256_verify state h m k =
    (let correct = crypto_auth_hmacsha256 state m k
     in crypto_verify_32 h correct OR (- 0) OR sodium_memcmp correct h 32)"

subsection \<open>HMAC-SHA-512\<close>

type_synonym crypto_auth_hmacsha512_state = "crypto_hash_sha512_state hmac_state"

definition crypto_auth_hmacsha512_init ::
  "crypto_auth_hmacsha512_state \<Rightarrow> byte list \<Rightarrow> crypto_auth_hmacsha512_state" where
  "crypto_auth_hmacsha512_init =
     hmac_init crypto_hash_sha512_init crypto_hash_sha512_update crypto_hash_sha512_final 128"

definition crypto_auth_hmacsha512_update ::
  "crypto_auth_hmacsha512_state \<Rightarrow> byte list \<Rightarrow> crypto_auth_hmacsha512_state" where
  "crypto_auth_hmacsha512_update = hmac_update crypto_hash_sha512_update"

definition crypto_auth_hmacsha512_final ::
  "crypto_auth_hmacsha512_state \<Rightarrow> crypto_auth_hmacsha512_state \<times> byte list" where
  "crypto_auth_hmacsha512_final = hmac_final crypto_hash_sha512_update crypto_hash_sha512_final"

definition crypto_auth_hmacsha512 :: "crypto_auth_hmacsha512_state \<Rightarrow> byte list \<Rightarrow> byte list \<Rightarrow> byte list" where
  "crypto_auth_hmacsha512 state m k = snd (crypto_auth_hmacsha512_final
     (crypto_auth_hmacsha512_update (crypto_auth_hmacsha512_init state (take 32 k)) m))"

definition crypto_auth_hmacsha512_verify ::
  "crypto_auth_hmacsha512_state \<Rightarrow> byte list \<Rightarrow> byte list \<Rightarrow> byte list \<Rightarrow> int" where
  "crypto_auth_hmacsha512_verify state h m k =
    (let correct = crypto_auth_hmacsha512 state m k
     in crypto_verify_64 h correct OR (- 0) OR sodium_memcmp correct h 64)"

subsection \<open>HMAC-SHA-512-256 and crypto_auth\<close>

definition crypto_auth_hmacsha512256_init ::
  "crypto_auth_hmacsha512_state \<Rightarrow> byte list \<Rightarrow> crypto_auth_hmacsha512_state" where
  "crypto_auth_hmacsha512256_init state key = crypto_auth_hmacsha512_init state key"

definition crypto_auth_hmacsha512256_update ::
  "crypto_auth_hmacsha512_state \<Rightarrow> byte list \<Rightarrow> crypto_auth_hmacsha512_state" where
  "crypto_auth_hmacsha512256_update state m = crypto_auth_hmacsha512_update state m"

definition crypto_auth_hmacsha512256_final ::
  "crypto_auth_hmacsha512_state \<Rightarrow> crypto_auth_hmacsha512_state \<times> byte list" where
  "crypto_auth_hmacsha512256_final state =
    (let (state', out0) = crypto_auth_hmacsha512_final state in (state', take 32 out0))"

definition crypto_auth_hmacsha512256 :: "crypto_auth_hmacsha512_state \<Rightarrow> byte list \<Rightarrow> byte list \<Rightarrow> byte list" where
  "crypto_auth_hmacsha512256 state m k = snd (crypto_auth_hmacsha512256_final
     (crypto_auth_hmacsha512256_update (crypto_auth_hmacsha512256_init state (take 32 k)) m))"

definition crypto_auth_hmacsha512256_verify ::
  "crypto_auth_hmacsha512_state \<Rightarrow> byte list \<Rightarrow> byte list \<Rightarrow> byte list \<Rightarrow> int" where
  "crypto_auth_hmacsha512256_verify state h m k =
    (let correct = crypto_auth_hmacsha512256 state m k
     in crypto_verify_32 h correct OR (- 0) OR sodium_memcmp correct h 32)"

definition crypto_auth :: "crypto_auth_hmacsha512_state \<Rightarrow> byte list \<Rightarrow> byte list \<Rightarrow> byte list" where
  "crypto_auth state m k = crypto_auth_hmacsha512256 state m k"

definition crypto_auth_verify :: "crypto_auth_hmacsha512_state \<Rightarrow> byte list \<Rightarrow> byte list \<Rightarrow> byte list \<Rightarrow> int" where
  "crypto_auth_verify state h m k = crypto_auth_hmacsha512256_verify state h m k"

section \<open>FIPS 198-1\<close>

definition hmac_key :: "(byte list \<Rightarrow> byte list) \<Rightarrow> nat \<Rightarrow> byte list \<Rightarrow> byte list" where
  "hmac_key H B key = (let k = (if length key > B then H key else key) in k @ replicate (B - length k) 0)"

definition hmac_spec :: "(byte list \<Rightarrow> byte list) \<Rightarrow> nat \<Rightarrow> byte list \<Rightarrow> byte list \<Rightarrow> byte list" where
  "hmac_spec H B key m =
    (let K0 = hmac_key H B key
     in H (map ((XOR) 0x5c) K0 @ H (map ((XOR) 0x36) K0 @ m)))"

lemma hmac_pad_fold:
  "n \<le> length key \<Longrightarrow> n \<le> B \<Longrightarrow> foldl (\<lambda>pad i. pad[i := pad ! i XOR key ! i]) (replicate B c) [0..<n]
     = map ((XOR) c) (take n key) @ replicate (B - n) c"
proof (induction n)
  case (Suc n)
  have "replicate (B - n) c = c # replicate (B - Suc n) c"
    using Suc.prems by (metis Suc_diff_Suc Suc_le_lessD replicate_Suc)
  with Suc show ?case
    by (simp add: nth_append list_update_append take_Suc_conv_app_nth)
qed simp

lemma hmac_pad_eq:
  "length key \<le> B \<Longrightarrow> hmac_pad c B key = map ((XOR) c) (key @ replicate (B - length key) 0)"
  by (simp add: hmac_pad_def hmac_pad_fold)

section \<open>HMAC over any streaming hash\<close>

locale hmac_hash = total_streaming mem_ok init upd fin rep fits digest
  for mem_ok :: "'s \<Rightarrow> bool" and init :: "'s \<Rightarrow> 's" and upd :: "'s \<Rightarrow> byte list \<Rightarrow> 's"
    and fin :: "'s \<Rightarrow> 's \<times> byte list" and rep :: "'s \<Rightarrow> byte list \<Rightarrow> bool"
    and fits :: "byte list \<Rightarrow> bool" and digest :: "byte list \<Rightarrow> byte list" +
  fixes B :: nat
  assumes digest_short: "length (digest m) \<le> B"
    and fits_short: "length m \<le> B \<Longrightarrow> fits m"
begin

definition hmac_rep :: "byte list \<Rightarrow> 's hmac_state \<Rightarrow> byte list \<Rightarrow> bool" where
  "hmac_rep key st m \<longleftrightarrow> rep (ictx st) (map ((XOR) 0x36) (hmac_key digest B key) @ m)
     \<and> rep (octx st) (map ((XOR) 0x5c) (hmac_key digest B key))"

lemma length_hmac_key: "length (hmac_key digest B key) = B"
  using digest_short [of key] by (simp add: hmac_key_def Let_def)

lemma hmac_rep_init:
  assumes "mem_ok (ictx st)" "mem_ok (octx st)" "fits key"
  shows "hmac_rep key (hmac_init init upd fin B st key) []"
proof -
  define p where "p = (if length key > B then fin (upd (init (ictx st)) key) else (ictx st, key))"
  let ?k = "if length key > B then digest key else key"
  have r: "rep (upd (init (ictx st)) key) key"
    using t_upd [OF t_init [OF assms(1)] assms(3)] by simp
  have k: "snd p = ?k" "mem_ok (fst p)"
    using t_fin [OF r] t_mem [OF r] assms(1) by (auto simp: p_def)
  have pad: "hmac_pad c B (snd p) = map ((XOR) c) (hmac_key digest B key)" for c
    using digest_short [of key] by (simp add: k(1) hmac_pad_eq hmac_key_def Let_def)
  have f: "fits (map ((XOR) c) (hmac_key digest B key))" for c
    by (rule fits_short) (simp add: length_hmac_key)
  have "hmac_init init upd fin B st key =
    \<lparr>ictx = upd (init (fst p)) (hmac_pad 0x36 B (snd p)), octx = upd (init (octx st)) (hmac_pad 0x5c B (snd p))\<rparr>"
    by (simp add: hmac_init_def p_def case_prod_unfold Let_def)
  then show ?thesis
    using t_upd [OF t_init [OF k(2)] f] t_upd [OF t_init [OF assms(2)] f]
    by (simp add: hmac_rep_def pad)
qed

lemma hmac_rep_update: "hmac_rep key st m \<Longrightarrow> fits c \<Longrightarrow> hmac_rep key (hmac_update upd st c) (m @ c)"
  using t_upd [of "ictx st" "map ((XOR) 0x36) (hmac_key digest B key) @ m" c]
  by (simp add: hmac_rep_def hmac_update_def)

lemma hmac_rep_final:
  assumes "hmac_rep key st m"
  shows "snd (hmac_final upd fin st) = hmac_spec digest B key m"
    and "mem_ok (ictx (fst (hmac_final upd fin st)))" "mem_ok (octx (fst (hmac_final upd fin st)))"
proof -
  let ?K = "hmac_key digest B key"
  let ?ih = "digest (map ((XOR) 0x36) ?K @ m)"
  have i: "rep (ictx st) (map ((XOR) 0x36) ?K @ m)" and o: "rep (octx st) (map ((XOR) 0x5c) ?K)"
    using assms by (simp_all add: hmac_rep_def)
  have o': "rep (upd (octx st) ?ih) (map ((XOR) 0x5c) ?K @ ?ih)"
    using t_upd [OF o fits_short [OF digest_short]] .
  have "hmac_final upd fin st = (\<lparr>ictx = fst (fin (ictx st)), octx = fst (fin (upd (octx st) ?ih))\<rparr>,
      digest (map ((XOR) 0x5c) ?K @ ?ih))"
    using t_fin [OF i] t_fin [OF o'] by (simp add: hmac_final_def case_prod_unfold Let_def)
  then show "snd (hmac_final upd fin st) = hmac_spec digest B key m"
    and "mem_ok (ictx (fst (hmac_final upd fin st)))" "mem_ok (octx (fst (hmac_final upd fin st)))"
    using t_mem [OF i] t_mem [OF o'] by (simp_all add: hmac_spec_def Let_def)
qed

lemma hmac_total_streaming:
  assumes "fits key"
  shows "total_streaming (\<lambda>st. mem_ok (ictx st) \<and> mem_ok (octx st)) (\<lambda>st. hmac_init init upd fin B st key)
    (hmac_update upd) (hmac_final upd fin) (hmac_rep key) fits (hmac_spec digest B key)"
  using assms by unfold_locales (auto intro: hmac_rep_init hmac_rep_update hmac_rep_final)

end

section \<open>The three authenticators\<close>

interpretation hmac256: hmac_hash "\<lambda>st. length (sha256_buf st) = 64" crypto_hash_sha256_init
  crypto_hash_sha256_update crypto_hash_sha256_final sha256_rep "\<lambda>_. True" sha256_spec 64
  by unfold_locales simp_all

interpretation hmac512: hmac_hash "\<lambda>st. length (sha512_buf st) = 128" crypto_hash_sha512_init
  crypto_hash_sha512_update crypto_hash_sha512_final sha512_rep "\<lambda>m. length m < 2 ^ 64" sha512_spec 128
  by unfold_locales simp_all

lemmas hmacsha256_defs = crypto_auth_hmacsha256_init_def crypto_auth_hmacsha256_update_def
  crypto_auth_hmacsha256_final_def

lemmas hmacsha512_defs = crypto_auth_hmacsha512_init_def crypto_auth_hmacsha512_update_def
  crypto_auth_hmacsha512_final_def

definition hmac256_mem :: "crypto_auth_hmacsha256_state \<Rightarrow> bool" where
  "hmac256_mem st \<longleftrightarrow> length (sha256_buf (ictx st)) = 64 \<and> length (sha256_buf (octx st)) = 64"

definition hmac512_mem :: "crypto_auth_hmacsha512_state \<Rightarrow> bool" where
  "hmac512_mem st \<longleftrightarrow> length (sha512_buf (ictx st)) = 128 \<and> length (sha512_buf (octx st)) = 128"

interpretation hmacsha256: total_streaming hmac256_mem "\<lambda>st. crypto_auth_hmacsha256_init st key"
  crypto_auth_hmacsha256_update crypto_auth_hmacsha256_final "hmac256.hmac_rep key" "\<lambda>_. True"
  "hmac_spec sha256_spec 64 key" for key
  unfolding hmacsha256_defs hmac256_mem_def by (rule hmac256.hmac_total_streaming) simp

text \<open>The streaming laws for HMAC-SHA-512 need a key of less than \<open>2 ^ 64\<close> bytes; its context is
  usable as a provider under that bound.\<close>

interpretation hmacsha512: total_streaming "\<lambda>st. hmac512_mem st \<and> length key < 2 ^ 64"
  "\<lambda>st. crypto_auth_hmacsha512_init st key" crypto_auth_hmacsha512_update crypto_auth_hmacsha512_final
  "\<lambda>st m. hmac512.hmac_rep key st m \<and> length key < 2 ^ 64" "\<lambda>m. length m < 2 ^ 64"
  "hmac_spec sha512_spec 128 key" for key
proof (cases "length key < 2 ^ 64")
  case True
  then show "total_streaming (\<lambda>st. hmac512_mem st \<and> length key < 2 ^ 64)
      (\<lambda>st. crypto_auth_hmacsha512_init st key) crypto_auth_hmacsha512_update crypto_auth_hmacsha512_final
      (\<lambda>st m. hmac512.hmac_rep key st m \<and> length key < 2 ^ 64) (\<lambda>m. length m < 2 ^ 64)
      (hmac_spec sha512_spec 128 key)"
    using hmac512.hmac_total_streaming [OF True] by (simp add: hmacsha512_defs hmac512_mem_def)
qed (unfold_locales, simp_all)

lemma length_hmac_spec [simp]:
  "length (hmac_spec sha256_spec 64 key m) = 32" "length (hmac_spec sha512_spec 128 key m) = 64"
  by (simp_all add: hmac_spec_def Let_def)

lemma crypto_auth_hmacsha256_spec:
  "hmac256_mem st \<Longrightarrow> crypto_auth_hmacsha256 st m k = hmac_spec sha256_spec 64 (take 32 k) m"
  unfolding crypto_auth_hmacsha256_def by (rule hmacsha256.digest_one) simp_all

lemma crypto_auth_hmacsha512_spec:
  "hmac512_mem st \<Longrightarrow> length m < 2 ^ 64 \<Longrightarrow>
   crypto_auth_hmacsha512 st m k = hmac_spec sha512_spec 128 (take 32 k) m"
  unfolding crypto_auth_hmacsha512_def by (rule hmacsha512.digest_one) simp_all

lemma crypto_auth_spec:
  "hmac512_mem st \<Longrightarrow> length m < 2 ^ 64 \<Longrightarrow>
   crypto_auth st m k = take 32 (hmac_spec sha512_spec 128 (take 32 k) m)"
  using crypto_auth_hmacsha512_spec [of st m k]
  by (simp add: crypto_auth_def crypto_auth_hmacsha512256_def crypto_auth_hmacsha512_def
      crypto_auth_hmacsha512256_init_def crypto_auth_hmacsha512256_update_def
      crypto_auth_hmacsha512256_final_def case_prod_unfold Let_def)

text \<open>The comparison that ends every \<^verbatim>\<open>_verify\<close> function.\<close>

lemma verify_or:
  fixes h correct :: "byte list"
  shows "length h = n \<Longrightarrow> length correct = n \<Longrightarrow>
    (if take n h = take n correct then 0 else -1 :: int) OR - 0 OR sodium_memcmp correct h n
      = (if h = correct then 0 else -1)"
  by (simp add: sodium_memcmp_eq)

section \<open>Properties\<close>

text \<open>C31: an HMAC-SHA-256 context keyed with a key of any length and fed a message in any chunks
  produces the FIPS 198-1 HMAC of the whole message under that key.\<close>

theorem hmacsha256_stream_correct:
  assumes "hmac256_mem st"
  shows "snd (crypto_auth_hmacsha256_final
      (foldl crypto_auth_hmacsha256_update (crypto_auth_hmacsha256_init st key) cs))
    = hmac_spec sha256_spec 64 key (concat cs)"
  using hmacsha256.digest_foldl [OF assms] by (simp add: list_all_iff)

theorem hmacsha256_stream_correct_witness:
  "snd (crypto_auth_hmacsha256_final (foldl crypto_auth_hmacsha256_update (crypto_auth_hmacsha256_init
       \<lparr>ictx = \<lparr>sha256_state = [], sha256_count = 0, sha256_buf = replicate 64 5\<rparr>,
        octx = \<lparr>sha256_state = [], sha256_count = 0, sha256_buf = replicate 64 6\<rparr>\<rparr> (replicate 100 3)) [[1], [2, 3]]))
   = hmac_spec sha256_spec 64 (replicate 100 3) [1, 2, 3]"
  using hmacsha256_stream_correct [of "\<lparr>ictx = \<lparr>sha256_state = [], sha256_count = 0, sha256_buf = replicate 64 5\<rparr>,
        octx = \<lparr>sha256_state = [], sha256_count = 0, sha256_buf = replicate 64 6\<rparr>\<rparr>" "replicate 100 3" "[[1], [2, 3]]"]
  by (simp add: hmac256_mem_def)

text \<open>An HMAC-SHA-512 context keyed with a key and fed chunks of less than 2^64 bytes each
  produces the FIPS 198-1 HMAC of the whole message; the 512-256 variant truncates it to 32
  bytes.\<close>

theorem hmacsha512_stream_correct:
  assumes "hmac512_mem st" "length key < 2 ^ 64" "\<forall>c \<in> set cs. length c < 2 ^ 64"
  shows "snd (crypto_auth_hmacsha512_final
      (foldl crypto_auth_hmacsha512_update (crypto_auth_hmacsha512_init st key) cs))
    = hmac_spec sha512_spec 128 key (concat cs)
   \<and> snd (crypto_auth_hmacsha512256_final
      (foldl crypto_auth_hmacsha512256_update (crypto_auth_hmacsha512256_init st key) cs))
    = take 32 (hmac_spec sha512_spec 128 key (concat cs))"
proof -
  have u: "crypto_auth_hmacsha512256_update = crypto_auth_hmacsha512_update"
    by (intro ext) (rule crypto_auth_hmacsha512256_update_def)
  show ?thesis
    using hmacsha512.digest_foldl [of st key cs] assms
    by (simp add: list_all_iff u crypto_auth_hmacsha512256_init_def crypto_auth_hmacsha512256_final_def
        case_prod_unfold Let_def)
qed

theorem hmacsha512_stream_correct_witness:
  "snd (crypto_auth_hmacsha512_final (foldl crypto_auth_hmacsha512_update (crypto_auth_hmacsha512_init
       \<lparr>ictx = \<lparr>sha512_state = [], sha512_count = [], sha512_buf = replicate 128 5\<rparr>,
        octx = \<lparr>sha512_state = [], sha512_count = [], sha512_buf = replicate 128 6\<rparr>\<rparr> [3]) [[1], [2, 3]]))
   = hmac_spec sha512_spec 128 [3] [1, 2, 3]"
  using hmacsha512_stream_correct [of "\<lparr>ictx = \<lparr>sha512_state = [], sha512_count = [], sha512_buf = replicate 128 5\<rparr>,
        octx = \<lparr>sha512_state = [], sha512_count = [], sha512_buf = replicate 128 6\<rparr>\<rparr>" "[3]" "[[1], [2, 3]]"]
  by (simp add: hmac512_mem_def)

text \<open>The one-shot authenticators accept exactly the right tag: for a tag of the right size,
  every \<^verbatim>\<open>_verify\<close> function returns 0 if it equals the tag the code itself produces for
  the message and key, which is the HMAC, and -1 otherwise.\<close>

theorem crypto_auth_verify_correct:
  assumes "hmac256_mem st" "hmac512_mem st'" "length m < 2 ^ 64" "length h = 32" "length h' = 64"
  shows "crypto_auth_hmacsha256 st m k = hmac_spec sha256_spec 64 (take 32 k) m
     \<and> crypto_auth_hmacsha256_verify st h m k = (if h = crypto_auth_hmacsha256 st m k then 0 else -1)
     \<and> crypto_auth_hmacsha512 st' m k = hmac_spec sha512_spec 128 (take 32 k) m
     \<and> crypto_auth_hmacsha512_verify st' h' m k = (if h' = crypto_auth_hmacsha512 st' m k then 0 else -1)
     \<and> crypto_auth st' m k = take 32 (hmac_spec sha512_spec 128 (take 32 k) m)
     \<and> crypto_auth_verify st' h m k = (if h = crypto_auth st' m k then 0 else -1)"
proof (intro conjI)
  note s = crypto_auth_hmacsha256_spec [OF assms(1), of m k] crypto_auth_hmacsha512_spec [OF assms(2,3), of k]
    crypto_auth_spec [OF assms(2,3), of k]
  show "crypto_auth_hmacsha256 st m k = hmac_spec sha256_spec 64 (take 32 k) m"
    "crypto_auth_hmacsha512 st' m k = hmac_spec sha512_spec 128 (take 32 k) m"
    "crypto_auth st' m k = take 32 (hmac_spec sha512_spec 128 (take 32 k) m)"
    by (fact s)+
  show "crypto_auth_hmacsha256_verify st h m k = (if h = crypto_auth_hmacsha256 st m k then 0 else -1)"
    unfolding crypto_auth_hmacsha256_verify_def Let_def crypto_verify_32_def
    using verify_or assms(4) s by (simp add: crypto_verify_n_eq)
  show "crypto_auth_hmacsha512_verify st' h' m k = (if h' = crypto_auth_hmacsha512 st' m k then 0 else -1)"
    unfolding crypto_auth_hmacsha512_verify_def Let_def crypto_verify_64_def
    using verify_or assms(5) s by (simp add: crypto_verify_n_eq)
  show "crypto_auth_verify st' h m k = (if h = crypto_auth st' m k then 0 else -1)"
    unfolding crypto_auth_verify_def crypto_auth_hmacsha512256_verify_def Let_def crypto_verify_32_def
      crypto_auth_def [symmetric]
    using verify_or assms(4) s by (simp add: crypto_verify_n_eq)
qed

theorem crypto_auth_verify_correct_witness:
  "crypto_auth_hmacsha256 \<lparr>ictx = \<lparr>sha256_state = [], sha256_count = 0, sha256_buf = replicate 64 5\<rparr>,
      octx = \<lparr>sha256_state = [], sha256_count = 0, sha256_buf = replicate 64 6\<rparr>\<rparr> [1, 2] (replicate 32 9)
    = hmac_spec sha256_spec 64 (replicate 32 9) [1, 2]"
  using crypto_auth_verify_correct [of "\<lparr>ictx = \<lparr>sha256_state = [], sha256_count = 0, sha256_buf = replicate 64 5\<rparr>,
        octx = \<lparr>sha256_state = [], sha256_count = 0, sha256_buf = replicate 64 6\<rparr>\<rparr>"
      "\<lparr>ictx = \<lparr>sha512_state = [], sha512_count = [], sha512_buf = replicate 128 5\<rparr>,
        octx = \<lparr>sha512_state = [], sha512_count = [], sha512_buf = replicate 128 6\<rparr>\<rparr>"
      "[1, 2]" "replicate 32 0" "replicate 64 0" "replicate 32 9"]
  by (simp add: hmac256_mem_def hmac512_mem_def)

end
