(* ===== verification/Keystream.thy ===== *)
theory Keystream
  imports Prelude
begin

text \<open>
  Stream ciphers in counter mode: the key stream as the concatenation of 64-byte blocks, and
  the interface \<open>stream_cipher\<close> that the authenticated encryption built on them relies on.
  \<open>fits ic len\<close> is the range of initial counters and lengths a cipher accepts without
  calling \<^verbatim>\<open>sodium_misuse\<close>, \<open>valid k n\<close> the sizes of its key and nonce.
\<close>

function keystream :: "(nat \<Rightarrow> byte list) \<Rightarrow> nat \<Rightarrow> nat \<Rightarrow> byte list" where
  "keystream b c len = (if len \<le> 64 then take len (b c) else b c @ keystream b (Suc c) (len - 64))"
  by pat_completeness auto
termination by (relation "measure (\<lambda>(b, c, len). len)") auto

declare keystream.simps [simp del]

lemma keystream_short: "len \<le> 64 \<Longrightarrow> keystream b c len = take len (b c)"
  by (simp add: keystream.simps)

lemma keystream_0 [simp]: "keystream b c 0 = []"
  by (simp add: keystream_short)

lemma keystream_block:
  assumes "length (b c) = 64"
  shows "keystream b c (64 + len) = b c @ keystream b (Suc c) len"
  using assms by (cases "len = 0") (simp_all add: keystream_short keystream.simps [of b c "64 + len"])

lemma length_keystream [simp]: "(\<And>c. length (b c) = 64) \<Longrightarrow> length (keystream b c len) = len"
  by (induction b c len rule: keystream.induct) (simp add: keystream.simps)

lemma keystream_seek:
  assumes "\<And>c. length (b c) = 64"
  shows "keystream b c (64 * j + r) = keystream b c (64 * j) @ keystream b (c + j) r"
proof (induction j arbitrary: c)
  case (Suc j)
  have "64 * Suc j + r = 64 + (64 * j + r)" "64 * Suc j = 64 + 64 * j" by simp_all
  then show ?case
    using Suc [of "Suc c"] by (simp only: keystream_block [OF assms]) simp
qed simp

text \<open>Only the blocks that are reached matter.\<close>

lemma keystream_cong:
  "(\<And>i. 64 * i < len \<Longrightarrow> b (c + i) = b' (c' + i)) \<Longrightarrow> keystream b c len = keystream b' c' len"
proof (induction b c len arbitrary: c' rule: keystream.induct)
  case (1 b c len)
  show ?case
  proof (cases "len \<le> 64")
    case True
    then show ?thesis using "1.prems" [of 0] by (cases "len = 0") (simp_all add: keystream_short)
  next
    case False
    have "keystream b (Suc c) (len - 64) = keystream b' (Suc c') (len - 64)"
    proof (rule "1.IH" [OF False])
      fix i assume "64 * i < len - 64"
      then show "b (Suc c + i) = b' (Suc c' + i)" using "1.prems" [of "Suc i"] by simp
    qed
    moreover have "b c = b' c'" using False "1.prems" [of 0] by simp
    ultimately show ?thesis using False by (simp add: keystream.simps [of _ _ len])
  qed
qed

lemma xor_list_append:
  "length a = length c \<Longrightarrow> xor_list (a @ b) (c @ d) = xor_list a c @ xor_list b d"
  by (simp add: xor_list_def)

lemma xor_list_zeros: "length ks = n \<Longrightarrow> xor_list (replicate n 0) ks = ks"
  by (rule nth_equalityI) (auto simp: xor_list_def)

lemma xor_list_take: "xor_list m (take (length m) ks) = xor_list m ks"
  by (rule nth_equalityI) (auto simp: xor_list_def)

locale stream_cipher =
  fixes block :: "byte list \<Rightarrow> byte list \<Rightarrow> nat \<Rightarrow> byte list"
    and valid :: "byte list \<Rightarrow> byte list \<Rightarrow> bool"
    and fits :: "nat \<Rightarrow> nat \<Rightarrow> bool"
    and stream :: "nat \<Rightarrow> byte list \<Rightarrow> byte list \<Rightarrow> byte list option"
    and xor_ic :: "byte list \<Rightarrow> byte list \<Rightarrow> nat \<Rightarrow> byte list \<Rightarrow> byte list option"
  assumes length_block: "length (block k n c) = 64"
    and stream_law: "valid k n \<Longrightarrow> fits 0 len \<Longrightarrow> stream len n k = Some (keystream (block k n) 0 len)"
    and xor_law: "valid k n \<Longrightarrow> fits ic (length m) \<Longrightarrow>
      xor_ic m n ic k = Some (xor_list m (keystream (block k n) ic (length m)))"
    and fits_split: "fits ic (64 * j + r) \<Longrightarrow> fits ic (64 * j) \<and> fits (ic + j) r"
begin

lemma length_ks: "length (keystream (block k n) c len) = len"
  by (rule length_keystream) (rule length_block)

lemma xor_length: "valid k n \<Longrightarrow> fits ic (length m) \<Longrightarrow> xor_ic m n ic k = Some c \<Longrightarrow> length c = length m"
  by (auto simp: xor_law length_ks)

lemma xor_roundtrip:
  assumes "valid k n" "fits ic (length m)"
  shows "Option.bind (xor_ic m n ic k) (\<lambda>c. xor_ic c n ic k) = Some m"
  using assms by (simp add: xor_law length_ks xor_list_invol)

lemma xor_zeros: "valid k n \<Longrightarrow> fits 0 len \<Longrightarrow> xor_ic (replicate len 0) n 0 k = stream len n k"
  by (simp add: xor_law stream_law length_ks xor_list_zeros)

lemma xor_seek:
  assumes "valid k n" "fits ic (length (a @ b))" "length a = 64 * j"
  shows "xor_ic (a @ b) n ic k =
    Option.bind (xor_ic a n ic k) (\<lambda>x. Option.bind (xor_ic b n (ic + j) k) (\<lambda>y. Some (x @ y)))"
proof -
  have f: "fits ic (length a)" "fits (ic + j) (length b)"
    using fits_split [of ic j "length b"] assms(2,3) by simp_all
  have "keystream (block k n) ic (length (a @ b)) = keystream (block k n) ic (length a) @ keystream (block k n) (ic + j) (length b)"
    using keystream_seek [of "block k n" ic j "length b"] length_block assms(3) by simp
  then show ?thesis
    using assms(1,2) f by (simp add: xor_law xor_list_append length_ks)
qed

end

end
