(* ===== verification/ChaCha20.thy ===== *)
theory ChaCha20
  imports Keystream
begin

unbundle bit_operations_syntax

text \<open>
  ChaCha20 and XChaCha20: \<^verbatim>\<open>crypto_stream/chacha20/ref/chacha20_ref.c\<close>,
  \<^verbatim>\<open>stream_chacha20.c\<close> (with the reference implementation selected),
  \<^verbatim>\<open>crypto_core/hchacha20\<close> and \<^verbatim>\<open>crypto_stream/xchacha20\<close>. A message and its length are
  one list. The output and input buffers are either distinct or the same: each block is
  read before it is written.
\<close>

section \<open>The reference implementation\<close>

record chacha_ctx =
  input :: "u32 list"

definition chacha_QUARTERROUND :: "nat \<Rightarrow> nat \<Rightarrow> nat \<Rightarrow> nat \<Rightarrow> u32 list \<Rightarrow> u32 list" where
  "chacha_QUARTERROUND a b c d x =
    (let x = x[a := x ! a + x ! b]; x = x[d := rotl32 (x ! d XOR x ! a) 16];
         x = x[c := x ! c + x ! d]; x = x[b := rotl32 (x ! b XOR x ! c) 12];
         x = x[a := x ! a + x ! b]; x = x[d := rotl32 (x ! d XOR x ! a) 8];
         x = x[c := x ! c + x ! d]
     in x[b := rotl32 (x ! b XOR x ! c) 7])"

text \<open>The body of the loop that runs two rounds.\<close>

definition chacha_double_round :: "u32 list \<Rightarrow> u32 list" where
  "chacha_double_round x =
    (let x = chacha_QUARTERROUND 0 4 8 12 x; x = chacha_QUARTERROUND 1 5 9 13 x;
         x = chacha_QUARTERROUND 2 6 10 14 x; x = chacha_QUARTERROUND 3 7 11 15 x;
         x = chacha_QUARTERROUND 0 5 10 15 x; x = chacha_QUARTERROUND 1 6 11 12 x;
         x = chacha_QUARTERROUND 2 7 8 13 x
     in chacha_QUARTERROUND 3 4 9 14 x)"

definition chacha_keysetup :: "chacha_ctx \<Rightarrow> byte list \<Rightarrow> chacha_ctx" where
  "chacha_keysetup ctx k = ctx\<lparr>input := write_at (input ctx) 0
     [0x61707865, 0x3320646e, 0x79622d32, 0x6b206574,
      load32_le (drop 0 k), load32_le (drop 4 k), load32_le (drop 8 k), load32_le (drop 12 k),
      load32_le (drop 16 k), load32_le (drop 20 k), load32_le (drop 24 k), load32_le (drop 28 k)]\<rparr>"

definition chacha_ivsetup :: "chacha_ctx \<Rightarrow> byte list \<Rightarrow> byte list option \<Rightarrow> chacha_ctx" where
  "chacha_ivsetup ctx iv counter = ctx\<lparr>input := write_at (input ctx) 12
     [case counter of None \<Rightarrow> 0 | Some c \<Rightarrow> load32_le (drop 0 c),
      case counter of None \<Rightarrow> 0 | Some c \<Rightarrow> load32_le (drop 4 c),
      load32_le (drop 0 iv), load32_le (drop 4 iv)]\<rparr>"

definition chacha_ietf_ivsetup :: "chacha_ctx \<Rightarrow> byte list \<Rightarrow> byte list option \<Rightarrow> chacha_ctx" where
  "chacha_ietf_ivsetup ctx iv counter = ctx\<lparr>input := write_at (input ctx) 12
     [case counter of None \<Rightarrow> 0 | Some c \<Rightarrow> load32_le c,
      load32_le (drop 0 iv), load32_le (drop 4 iv), load32_le (drop 8 iv)]\<rparr>"

text \<open>The loop of \<^verbatim>\<open>chacha20_encrypt_bytes\<close>: \<open>j\<close> is the state, \<open>m\<close> what is left of the input; a
  short last block goes through the zeroed buffer \<^verbatim>\<open>tmp\<close>.\<close>

function chacha20_loop :: "u32 list \<Rightarrow> byte list \<Rightarrow> byte list \<times> u32 list" where
  "chacha20_loop j m =
    (let bytes = length m;
         src = (if bytes < 64 then write_at (replicate 64 0) 0 m else m);
         x = (chacha_double_round ^^ 10) j;
         x = map (\<lambda>i. x ! i + j ! i) [0..<16];
         x = map (\<lambda>i. x ! i XOR load32_le (drop (4 * i) src)) [0..<16];
         j12 = j ! 12 + 1;
         j13 = (if j12 = 0 then j ! 13 + 1 else j ! 13);
         j' = j[12 := j12, 13 := j13];
         c = concat (map store32_le x)
     in if bytes \<le> 64 then (take bytes c, j')
        else let (c', j'') = chacha20_loop j' (drop 64 m) in (c @ c', j''))"
  by pat_completeness auto
termination by (relation "measure (\<lambda>(j, m). length m)") auto

declare chacha20_loop.simps [simp del]

definition chacha20_encrypt_bytes :: "chacha_ctx \<Rightarrow> byte list \<Rightarrow> byte list \<times> chacha_ctx" where
  "chacha20_encrypt_bytes ctx m =
    (if m = [] then ([], ctx)
     else let (c, j) = chacha20_loop (input ctx) m
          in (c, ctx\<lparr>input := (input ctx)[12 := j ! 12, 13 := j ! 13]\<rparr>))"

text \<open>\<open>ctx\<close> is the uninitialised local context.\<close>

definition stream_ref :: "chacha_ctx \<Rightarrow> nat \<Rightarrow> byte list \<Rightarrow> byte list \<Rightarrow> byte list" where
  "stream_ref ctx clen n k =
    (if clen = 0 then []
     else fst (chacha20_encrypt_bytes (chacha_ivsetup (chacha_keysetup ctx k) n None) (replicate clen 0)))"

definition stream_ietf_ext_ref :: "chacha_ctx \<Rightarrow> nat \<Rightarrow> byte list \<Rightarrow> byte list \<Rightarrow> byte list" where
  "stream_ietf_ext_ref ctx clen n k =
    (if clen = 0 then []
     else fst (chacha20_encrypt_bytes (chacha_ietf_ivsetup (chacha_keysetup ctx k) n None) (replicate clen 0)))"

definition stream_ref_xor_ic :: "chacha_ctx \<Rightarrow> byte list \<Rightarrow> byte list \<Rightarrow> u64 \<Rightarrow> byte list \<Rightarrow> byte list" where
  "stream_ref_xor_ic ctx m n ic k =
    (if m = [] then []
     else let ic_high = (ucast (drop_bit 32 ic) :: u32); ic_low = (ucast ic :: u32);
              ic_bytes = store32_le ic_low @ store32_le ic_high
          in fst (chacha20_encrypt_bytes (chacha_ivsetup (chacha_keysetup ctx k) n (Some ic_bytes)) m))"

definition stream_ietf_ext_ref_xor_ic :: "chacha_ctx \<Rightarrow> byte list \<Rightarrow> byte list \<Rightarrow> u32 \<Rightarrow> byte list \<Rightarrow> byte list" where
  "stream_ietf_ext_ref_xor_ic ctx m n ic k =
    (if m = [] then []
     else let ic_bytes = store32_le ic
          in fst (chacha20_encrypt_bytes (chacha_ietf_ivsetup (chacha_keysetup ctx k) n (Some ic_bytes)) m))"

section \<open>The public functions\<close>

abbreviation chacha20_MESSAGEBYTES_MAX :: int where "chacha20_MESSAGEBYTES_MAX \<equiv> 18446744073709551615"

abbreviation chacha20_ietf_MESSAGEBYTES_MAX :: int where "chacha20_ietf_MESSAGEBYTES_MAX \<equiv> 64 * 2 ^ 32"

definition crypto_stream_chacha20 :: "chacha_ctx \<Rightarrow> nat \<Rightarrow> byte list \<Rightarrow> byte list \<Rightarrow> byte list option" where
  "crypto_stream_chacha20 ctx clen n k =
    (if int clen > chacha20_MESSAGEBYTES_MAX then None else Some (stream_ref ctx clen n k))"

definition crypto_stream_chacha20_xor_ic ::
  "chacha_ctx \<Rightarrow> byte list \<Rightarrow> byte list \<Rightarrow> u64 \<Rightarrow> byte list \<Rightarrow> byte list option" where
  "crypto_stream_chacha20_xor_ic ctx m n ic k =
    (if int (length m) > chacha20_MESSAGEBYTES_MAX then None else Some (stream_ref_xor_ic ctx m n ic k))"

definition crypto_stream_chacha20_xor :: "chacha_ctx \<Rightarrow> byte list \<Rightarrow> byte list \<Rightarrow> byte list \<Rightarrow> byte list option" where
  "crypto_stream_chacha20_xor ctx m n k =
    (if int (length m) > chacha20_MESSAGEBYTES_MAX then None else Some (stream_ref_xor_ic ctx m n 0 k))"

definition crypto_stream_chacha20_ietf_ext :: "chacha_ctx \<Rightarrow> nat \<Rightarrow> byte list \<Rightarrow> byte list \<Rightarrow> byte list option" where
  "crypto_stream_chacha20_ietf_ext ctx clen n k =
    (if int clen > chacha20_MESSAGEBYTES_MAX then None else Some (stream_ietf_ext_ref ctx clen n k))"

definition crypto_stream_chacha20_ietf_ext_xor_ic ::
  "chacha_ctx \<Rightarrow> byte list \<Rightarrow> byte list \<Rightarrow> u32 \<Rightarrow> byte list \<Rightarrow> byte list option" where
  "crypto_stream_chacha20_ietf_ext_xor_ic ctx m n ic k =
    (if int (length m) > chacha20_MESSAGEBYTES_MAX then None else Some (stream_ietf_ext_ref_xor_ic ctx m n ic k))"

definition crypto_stream_chacha20_ietf_ext_xor ::
  "chacha_ctx \<Rightarrow> byte list \<Rightarrow> byte list \<Rightarrow> byte list \<Rightarrow> byte list option" where
  "crypto_stream_chacha20_ietf_ext_xor ctx m n k =
    (if int (length m) > chacha20_MESSAGEBYTES_MAX then None else Some (stream_ietf_ext_ref_xor_ic ctx m n 0 k))"

definition crypto_stream_chacha20_ietf :: "chacha_ctx \<Rightarrow> nat \<Rightarrow> byte list \<Rightarrow> byte list \<Rightarrow> byte list option" where
  "crypto_stream_chacha20_ietf ctx clen n k =
    (if int clen > chacha20_ietf_MESSAGEBYTES_MAX then None else crypto_stream_chacha20_ietf_ext ctx clen n k)"

text \<open>The counter check of \<^verbatim>\<open>crypto_stream_chacha20_ietf_xor_ic\<close>, in 64-bit arithmetic.\<close>

definition ietf_counter_overflow :: "u64 \<Rightarrow> u32 \<Rightarrow> bool" where
  "ietf_counter_overflow mlen ic \<longleftrightarrow>
     (ucast ic :: u64) > (64 * push_bit 32 1) div 64 - (mlen + 63) div 64"

definition crypto_stream_chacha20_ietf_xor_ic ::
  "chacha_ctx \<Rightarrow> byte list \<Rightarrow> byte list \<Rightarrow> u32 \<Rightarrow> byte list \<Rightarrow> byte list option" where
  "crypto_stream_chacha20_ietf_xor_ic ctx m n ic k =
    (if ietf_counter_overflow (of_nat (length m)) ic then None
     else crypto_stream_chacha20_ietf_ext_xor_ic ctx m n ic k)"

definition crypto_stream_chacha20_ietf_xor :: "chacha_ctx \<Rightarrow> byte list \<Rightarrow> byte list \<Rightarrow> byte list \<Rightarrow> byte list option" where
  "crypto_stream_chacha20_ietf_xor ctx m n k =
    (if int (length m) > chacha20_ietf_MESSAGEBYTES_MAX then None else crypto_stream_chacha20_ietf_ext_xor ctx m n k)"

definition crypto_core_hchacha20 :: "byte list \<Rightarrow> byte list \<Rightarrow> byte list option \<Rightarrow> byte list" where
  "crypto_core_hchacha20 inp k c =
    (let x = (case c of None \<Rightarrow> [0x61707865, 0x3320646e, 0x79622d32, 0x6b206574]
                | Some c \<Rightarrow> [load32_le (drop 0 c), load32_le (drop 4 c), load32_le (drop 8 c), load32_le (drop 12 c)])
             @ [load32_le (drop 0 k), load32_le (drop 4 k), load32_le (drop 8 k), load32_le (drop 12 k),
                load32_le (drop 16 k), load32_le (drop 20 k), load32_le (drop 24 k), load32_le (drop 28 k),
                load32_le (drop 0 inp), load32_le (drop 4 inp), load32_le (drop 8 inp), load32_le (drop 12 inp)];
         x = (chacha_double_round ^^ 10) x
     in concat (map (\<lambda>i. store32_le (x ! i)) [0, 1, 2, 3, 12, 13, 14, 15]))"

definition crypto_stream_xchacha20 :: "chacha_ctx \<Rightarrow> nat \<Rightarrow> byte list \<Rightarrow> byte list \<Rightarrow> byte list option" where
  "crypto_stream_xchacha20 ctx clen n k =
    (let k2 = crypto_core_hchacha20 n k None in crypto_stream_chacha20 ctx clen (drop 16 n) k2)"

definition crypto_stream_xchacha20_xor_ic ::
  "chacha_ctx \<Rightarrow> byte list \<Rightarrow> byte list \<Rightarrow> u64 \<Rightarrow> byte list \<Rightarrow> byte list option" where
  "crypto_stream_xchacha20_xor_ic ctx m n ic k =
    (let k2 = crypto_core_hchacha20 n k None in crypto_stream_chacha20_xor_ic ctx m (drop 16 n) ic k2)"

definition crypto_stream_xchacha20_xor :: "chacha_ctx \<Rightarrow> byte list \<Rightarrow> byte list \<Rightarrow> byte list \<Rightarrow> byte list option" where
  "crypto_stream_xchacha20_xor ctx m n k = crypto_stream_xchacha20_xor_ic ctx m n 0 k"

section \<open>Blocks and counters\<close>

definition chacha_block :: "u32 list \<Rightarrow> byte list" where
  "chacha_block j = concat (map store32_le (map2 (+) ((chacha_double_round ^^ 10) j) j))"

definition chacha_next :: "u32 list \<Rightarrow> u32 list" where
  "chacha_next j = j[12 := j ! 12 + 1, 13 := (if j ! 12 + 1 = 0 then j ! 13 + 1 else j ! 13)]"

lemma length_QUARTERROUND [simp]: "length (chacha_QUARTERROUND a b c d x) = length x"
  by (simp add: chacha_QUARTERROUND_def Let_def)

lemma length_double_round [simp]: "length (chacha_double_round x) = length x"
  by (simp add: chacha_double_round_def Let_def)

lemma length_rounds [simp]: "length ((chacha_double_round ^^ n) x) = length x"
  by (induction n) simp_all

lemma length_chacha_next [simp]: "length (chacha_next j) = length j"
  by (simp add: chacha_next_def)

lemma length_concat_store [simp]: "length (concat (map store32_le xs)) = 4 * length xs"
  by (induction xs) simp_all

lemma length_chacha_block [simp]: "length j = 16 \<Longrightarrow> length (chacha_block j) = 64"
  unfolding chacha_block_def length_concat_store by simp

lemma store32_xor: "4 \<le> length bs \<Longrightarrow> store32_le (a XOR load32_le bs) = xor_list (take 4 bs) (store32_le a)"
  by (intro nth_equalityI bit_word_eqI) (auto simp: nth_store32_le xor_list_def bit_simps bit_load32_le)

lemma store32_xor_words:
  assumes "4 * n \<le> length src"
  shows "concat (map (\<lambda>i. store32_le (f i XOR load32_le (drop (4 * i) src))) [0..<n])
    = xor_list (take (4 * n) src) (concat (map (\<lambda>i. store32_le (f i)) [0..<n]))"
  using assms
proof (induction n)
  case (Suc n)
  have "take (4 * Suc n) src = take (4 * n) src @ take 4 (drop (4 * n) src)"
    using take_add [of "4 * n" 4 src] by (simp add: add.commute)
  moreover have "length (take (4 * n) src) = length (concat (map (\<lambda>i. store32_le (f i)) [0..<n]))"
    using Suc.prems by (simp add: length_concat comp_def sum_list_triv)
  ultimately show ?case
    using Suc by (simp add: xor_list_append store32_xor del: upt.simps add: upt_Suc_append)
qed (simp add: xor_list_def)

lemma chacha_block_nth:
  "length j = 16 \<Longrightarrow> chacha_block j = concat (map (\<lambda>i. store32_le ((chacha_double_round ^^ 10) j ! i + j ! i)) [0..<16])"
proof -
  assume "length j = 16"
  then have "map2 (+) ((chacha_double_round ^^ 10) j) j = map (\<lambda>i. (chacha_double_round ^^ 10) j ! i + j ! i) [0..<16]"
    by (intro nth_equalityI) auto
  then show ?thesis by (simp only: chacha_block_def map_map comp_def)
qed

lemma take_xor_list: "take n (xor_list a b) = xor_list (take n a) (take n b)"
  by (simp add: xor_list_def take_map take_zip)

lemma chacha20_loop_step:
  assumes "length j = 16"
  shows "chacha20_loop j m =
    (if length m \<le> 64 then (xor_list m (take (length m) (chacha_block j)), chacha_next j)
     else let (c', j') = chacha20_loop (chacha_next j) (drop 64 m)
          in (xor_list (take 64 m) (chacha_block j) @ c', j'))"
proof -
  define src where "src = (if length m < 64 then write_at (replicate 64 0) 0 m else m)"
  have src: "64 \<le> length src" "length m \<le> 64 \<Longrightarrow> take (length m) src = m" "length m > 64 \<Longrightarrow> src = m"
    by (auto simp: src_def take_write_at_0)
  let ?x = "(chacha_double_round ^^ 10) j"
  have c: "concat (map store32_le (map (\<lambda>i. map (\<lambda>i. ?x ! i + j ! i) [0..<16] ! i XOR load32_le (drop (4 * i) src)) [0..<16]))
      = xor_list (take 64 src) (chacha_block j)"
  proof -
    have "map store32_le (map (\<lambda>i. map (\<lambda>i. ?x ! i + j ! i) [0..<16] ! i XOR load32_le (drop (4 * i) src)) [0..<16])
        = map (\<lambda>i. store32_le ((?x ! i + j ! i) XOR load32_le (drop (4 * i) src))) [0..<16]"
      unfolding map_map by (rule map_cong) auto
    moreover have "concat (map (\<lambda>i. store32_le ((?x ! i + j ! i) XOR load32_le (drop (4 * i) src))) [0..<16])
        = xor_list (take 64 src) (chacha_block j)"
      using store32_xor_words [of 16 src "\<lambda>i. ?x ! i + j ! i"] src(1) chacha_block_nth [OF assms] by simp
    ultimately show ?thesis by (simp only:)
  qed
  have s: "take (length m) (xor_list (take 64 src) (chacha_block j)) = xor_list m (take (length m) (chacha_block j))"
    if "length m \<le> 64"
    using that src(2) by (simp add: take_xor_list min_def)
  show ?thesis
    unfolding chacha20_loop.simps [of j m] Let_def src_def [symmetric] c chacha_next_def [symmetric]
    using s src(3) by simp
qed

text \<open>The loop XORs the input with the blocks of consecutive states.\<close>

lemma chacha20_loop_keystream:
  "length j = 16 \<Longrightarrow> fst (chacha20_loop j m) = xor_list m (keystream (\<lambda>i. chacha_block ((chacha_next ^^ i) j)) 0 (length m))"
proof (induction m arbitrary: j rule: length_induct)
  case (1 m)
  let ?b = "\<lambda>j i. chacha_block ((chacha_next ^^ i) j)"
  have len: "length ((chacha_next ^^ i) j) = 16" for i
    using "1.prems" by (induction i) simp_all
  show ?case
  proof (cases "length m \<le> 64")
    case True
    then show ?thesis by (simp add: chacha20_loop_step [OF "1.prems"] keystream_short)
  next
    case False
    have "keystream (?b (chacha_next j)) 0 (length m - 64) = keystream (?b j) 1 (length m - 64)"
      by (rule keystream_cong) (simp add: funpow_swap1)
    with "1.IH" "1.prems" False
    have IH: "fst (chacha20_loop (chacha_next j) (drop 64 m)) = xor_list (drop 64 m) (keystream (?b j) 1 (length m - 64))"
      by simp
    have "keystream (?b j) 0 (length m) = chacha_block j @ keystream (?b j) 1 (length m - 64)"
      using False keystream_block [of "?b j" 0 "length m - 64"] len [of 0] by simp
    moreover have "xor_list (take 64 m @ drop 64 m) (chacha_block j @ keystream (?b j) 1 (length m - 64))
        = xor_list (take 64 m) (chacha_block j) @ xor_list (drop 64 m) (keystream (?b j) 1 (length m - 64))"
      using False "1.prems" by (intro xor_list_append) simp
    ultimately show ?thesis
      using False IH by (simp add: chacha20_loop_step [OF "1.prems"] case_prod_unfold Let_def)
  qed
qed

subsection \<open>The states of a message\<close>

definition chacha_key_words :: "byte list \<Rightarrow> u32 list" where
  "chacha_key_words k = [0x61707865, 0x3320646e, 0x79622d32, 0x6b206574,
      load32_le (drop 0 k), load32_le (drop 4 k), load32_le (drop 8 k), load32_le (drop 12 k),
      load32_le (drop 16 k), load32_le (drop 20 k), load32_le (drop 24 k), load32_le (drop 28 k)]"

definition chacha20_state :: "byte list \<Rightarrow> byte list \<Rightarrow> nat \<Rightarrow> u32 list" where
  "chacha20_state k n c = chacha_key_words k @ [of_nat c, of_nat (c div 2 ^ 32), load32_le (drop 0 n), load32_le (drop 4 n)]"

definition chacha20_ietf_state :: "byte list \<Rightarrow> byte list \<Rightarrow> nat \<Rightarrow> u32 list" where
  "chacha20_ietf_state k n c = chacha_key_words k @
     [of_nat c, load32_le (drop 0 n), load32_le (drop 4 n), load32_le (drop 8 n)]"

lemma length_chacha_states [simp]:
  "length (chacha_key_words k) = 12" "length (chacha20_state k n c) = 16" "length (chacha20_ietf_state k n c) = 16"
  by (simp_all add: chacha_key_words_def chacha20_state_def chacha20_ietf_state_def)

lemma of_nat_Suc_zero: "(of_nat (Suc c) :: u32) = 0 \<longleftrightarrow> 2 ^ 32 dvd Suc c"
  by (simp only: word_of_nat_eq_0_iff) simp

lemma chacha20_state_next: "chacha_next (chacha20_state k n c) = chacha20_state k n (Suc c)"
proof -
  have d: "Suc c div 2 ^ 32 = (if (of_nat (Suc c) :: u32) = 0 then Suc (c div 2 ^ 32) else c div 2 ^ 32)"
    unfolding of_nat_Suc_zero using div_Suc [of c "2 ^ 32"] by (simp add: dvd_eq_mod_eq_0)
  show ?thesis
    unfolding chacha20_state_def chacha_next_def d
    by (simp add: nth_append list_update_append add.commute)
qed

lemma chacha20_state_funpow: "(chacha_next ^^ i) (chacha20_state k n c) = chacha20_state k n (c + i)"
  by (induction i) (simp_all add: chacha20_state_next)

lemma chacha20_ietf_state_funpow:
  "c + i < 2 ^ 32 \<Longrightarrow> (chacha_next ^^ i) (chacha20_ietf_state k n c) = chacha20_ietf_state k n (c + i)"
proof (induction i)
  case (Suc i)
  have "(of_nat (Suc (c + i)) :: u32) \<noteq> 0"
    using Suc.prems nat_dvd_not_less [of "Suc (c + i)" "2 ^ 32"] unfolding of_nat_Suc_zero by simp
  with Suc show ?case
    by (simp add: chacha20_ietf_state_def chacha_next_def nth_append list_update_append add.commute)
qed simp


lemma chacha_setup:
  assumes "length (input ctx) = 16"
  shows "input (chacha_ivsetup (chacha_keysetup ctx k) n None) = chacha20_state k n 0"
    and "input (chacha_ivsetup (chacha_keysetup ctx k) n
           (Some (store32_le (ucast ic) @ store32_le (ucast (drop_bit 32 ic))))) = chacha20_state k n (unat (ic :: u64))"
    and "input (chacha_ietf_ivsetup (chacha_keysetup ctx k) n None) = chacha20_ietf_state k n 0"
    and "input (chacha_ietf_ivsetup (chacha_keysetup ctx k) n (Some (store32_le ic'))) = chacha20_ietf_state k n (unat ic')"
proof -
  have hi: "(ucast (drop_bit 32 ic) :: u32) = of_nat (unat ic div 2 ^ 32)"
  proof -
    have "unat (drop_bit 32 ic) = unat ic div 2 ^ 32"
      by (simp only: unat_drop_bit_eq) (simp add: drop_bit_eq_div)
    then show ?thesis by (metis of_nat_unat)
  qed
  have ld: "load32_le (store32_le a @ b) = a" for a b
    using load32_le_take [of "store32_le a @ b"] by simp
  show "input (chacha_ivsetup (chacha_keysetup ctx k) n None) = chacha20_state k n 0"
    "input (chacha_ivsetup (chacha_keysetup ctx k) n
       (Some (store32_le (ucast ic) @ store32_le (ucast (drop_bit 32 ic))))) = chacha20_state k n (unat ic)"
    "input (chacha_ietf_ivsetup (chacha_keysetup ctx k) n None) = chacha20_ietf_state k n 0"
    "input (chacha_ietf_ivsetup (chacha_keysetup ctx k) n (Some (store32_le ic'))) = chacha20_ietf_state k n (unat ic')"
    using assms unfolding chacha_ivsetup_def chacha_ietf_ivsetup_def chacha_keysetup_def chacha20_state_def
      chacha20_ietf_state_def chacha_key_words_def
    by (simp_all add: write_at_def ld hi)
qed

lemma chacha20_encrypt_bytes_eq:
  assumes "length (input ctx) = 16"
  shows "fst (chacha20_encrypt_bytes ctx m) =
    xor_list m (keystream (\<lambda>i. chacha_block ((chacha_next ^^ i) (input ctx))) 0 (length m))"
  using chacha20_loop_keystream [OF assms, of m] unfolding chacha20_encrypt_bytes_def
  by (simp add: case_prod_unfold Let_def xor_list_def)

definition chacha20_block :: "byte list \<Rightarrow> byte list \<Rightarrow> nat \<Rightarrow> byte list" where
  "chacha20_block k n c = chacha_block (chacha20_state k n c)"

definition chacha20_ietf_block :: "byte list \<Rightarrow> byte list \<Rightarrow> nat \<Rightarrow> byte list" where
  "chacha20_ietf_block k n c = chacha_block (chacha20_ietf_state k n c)"

lemma chacha20_keystream:
  "input ctx = chacha20_state k n c \<Longrightarrow>
   fst (chacha20_encrypt_bytes ctx m) = xor_list m (keystream (chacha20_block k n) c (length m))"
  using chacha20_encrypt_bytes_eq [of ctx m]
    keystream_cong [of "length m" "\<lambda>i. chacha_block ((chacha_next ^^ i) (chacha20_state k n c))" 0 "chacha20_block k n" c]
  by (simp add: chacha20_state_funpow chacha20_block_def)

definition ietf_fits :: "nat \<Rightarrow> nat \<Rightarrow> bool" where
  "ietf_fits ic len \<longleftrightarrow> ic + (len + 63) div 64 \<le> 2 ^ 32"

lemma chacha20_ietf_keystream:
  assumes "input ctx = chacha20_ietf_state k n c" "ietf_fits c (length m)"
  shows "fst (chacha20_encrypt_bytes ctx m) = xor_list m (keystream (chacha20_ietf_block k n) c (length m))"
proof -
  have "keystream (\<lambda>i. chacha_block ((chacha_next ^^ i) (chacha20_ietf_state k n c))) 0 (length m)
      = keystream (chacha20_ietf_block k n) c (length m)"
  proof (rule keystream_cong)
    fix i
    assume i: "64 * i < length m"
    then have "i < (length m + 63) div 64" by linarith
    then have "c + i < 2 ^ 32" using assms(2) by (simp add: ietf_fits_def)
    then show "chacha_block ((chacha_next ^^ (0 + i)) (chacha20_ietf_state k n c)) = chacha20_ietf_block k n (c + i)"
      by (simp add: chacha20_ietf_state_funpow chacha20_ietf_block_def)
  qed
  then show ?thesis using chacha20_encrypt_bytes_eq [of ctx m] assms(1) by simp
qed

lemma length_chacha20_blocks [simp]:
  "length (chacha20_block k n c) = 64" "length (chacha20_ietf_block k n c) = 64"
  by (simp_all add: chacha20_block_def chacha20_ietf_block_def)

lemma counter_words_mod:
  assumes "a mod 2 ^ 64 = b mod (2 ^ 64 :: nat)"
  shows "(of_nat a :: u32) = of_nat b" "(of_nat (a div 2 ^ 32) :: u32) = of_nat (b div 2 ^ 32)"
proof -
  have split: "x mod 2 ^ 64 = 2 ^ 32 * (x div 2 ^ 32 mod 2 ^ 32) + x mod 2 ^ 32" for x :: nat
    using mod_mult2_eq [of x "2 ^ 32" "2 ^ 32"] by simp
  have "x div 2 ^ 32 mod 2 ^ 32 = (x mod 2 ^ 64) div 2 ^ 32" "x mod 2 ^ 32 = (x mod 2 ^ 64) mod 2 ^ 32" for x :: nat
    unfolding split by simp_all
  then have "a div 2 ^ 32 mod 2 ^ 32 = b div 2 ^ 32 mod 2 ^ 32" "a mod 2 ^ 32 = b mod 2 ^ 32"
    using assms by metis+
  then show "(of_nat a :: u32) = of_nat b" "(of_nat (a div 2 ^ 32) :: u32) = of_nat (b div 2 ^ 32)"
    by (simp_all only: word_of_nat_eq_iff take_bit_eq_mod) simp_all
qed

lemma chacha20_block_wrap: "keystream (chacha20_block k n) (unat (of_nat c :: u64)) len = keystream (chacha20_block k n) c len"
proof (rule keystream_cong)
  fix i
  have "(unat (of_nat c :: u64) + i) mod 2 ^ 64 = (c + i) mod 2 ^ 64"
    by (simp add: unsigned_of_nat take_bit_eq_mod mod_add_left_eq)
  from counter_words_mod [OF this]
  show "chacha20_block k n (unat (of_nat c :: u64) + i) = chacha20_block k n (c + i)"
    unfolding chacha20_block_def chacha20_state_def by (simp only:)
qed

section \<open>The ciphers as stream ciphers\<close>

definition ctx_ok :: "chacha_ctx \<Rightarrow> bool" where
  "ctx_ok ctx \<longleftrightarrow> length (input ctx) = 16"

lemma xor_list_Nil [simp]: "xor_list [] ks = []"
  by (simp add: xor_list_def)

lemma stream_ref_eq: "ctx_ok ctx \<Longrightarrow> stream_ref ctx clen n k = keystream (chacha20_block k n) 0 clen"
  using chacha20_keystream [of "chacha_ivsetup (chacha_keysetup ctx k) n None" k n 0 "replicate clen 0"]
  by (simp add: stream_ref_def ctx_ok_def chacha_setup xor_list_zeros)

lemma stream_ref_xor_ic_eq:
  "ctx_ok ctx \<Longrightarrow> stream_ref_xor_ic ctx m n ic k = xor_list m (keystream (chacha20_block k n) (unat ic) (length m))"
  by (simp add: stream_ref_xor_ic_def ctx_ok_def Let_def chacha_setup chacha20_keystream)

lemma stream_ietf_ext_ref_eq:
  "ctx_ok ctx \<Longrightarrow> ietf_fits 0 clen \<Longrightarrow> stream_ietf_ext_ref ctx clen n k = keystream (chacha20_ietf_block k n) 0 clen"
  using chacha20_ietf_keystream [of "chacha_ietf_ivsetup (chacha_keysetup ctx k) n None" k n 0 "replicate clen 0"]
  by (simp add: stream_ietf_ext_ref_def ctx_ok_def chacha_setup xor_list_zeros)

lemma stream_ietf_ext_ref_xor_ic_eq:
  "ctx_ok ctx \<Longrightarrow> ietf_fits (unat ic) (length m) \<Longrightarrow>
   stream_ietf_ext_ref_xor_ic ctx m n ic k = xor_list m (keystream (chacha20_ietf_block k n) (unat ic) (length m))"
  by (simp add: stream_ietf_ext_ref_xor_ic_def ctx_ok_def Let_def chacha_setup chacha20_ietf_keystream)

interpretation chacha20: stream_cipher chacha20_block "\<lambda>k n. ctx_ok ctx" "\<lambda>ic len. len < 2 ^ 64"
  "crypto_stream_chacha20 ctx" "\<lambda>m n ic k. crypto_stream_chacha20_xor_ic ctx m n (of_nat ic) k" for ctx
  by unfold_locales
    (auto simp: crypto_stream_chacha20_def crypto_stream_chacha20_xor_ic_def stream_ref_eq stream_ref_xor_ic_eq
      chacha20_block_wrap)

definition xchacha20_block :: "byte list \<Rightarrow> byte list \<Rightarrow> nat \<Rightarrow> byte list" where
  "xchacha20_block k n = chacha20_block (crypto_core_hchacha20 n k None) (drop 16 n)"

interpretation xchacha20: stream_cipher xchacha20_block "\<lambda>k n. ctx_ok ctx" "\<lambda>ic len. len < 2 ^ 64"
  "crypto_stream_xchacha20 ctx" "\<lambda>m n ic k. crypto_stream_xchacha20_xor_ic ctx m n (of_nat ic) k" for ctx
  by unfold_locales
    (simp_all add: crypto_stream_xchacha20_def crypto_stream_xchacha20_xor_ic_def xchacha20_block_def Let_def
      chacha20.stream_law chacha20.xor_law)

text \<open>The counter check is exact as long as the message has at most \<open>2 ^ 38\<close> bytes.\<close>

lemma ietf_counter_overflow_eq:
  assumes "len \<le> 2 ^ 38"
  shows "ietf_counter_overflow (of_nat len) ic \<longleftrightarrow> \<not> ietf_fits (unat ic) len"
proof -
  let ?q = "(len + 63) div 64"
  have "?q \<le> (2 ^ 38 + 63) div 64" using assms by (intro div_le_mono) simp
  then have q: "?q \<le> 2 ^ 32" by simp
  have "unat ((of_nat len :: u64) + 63) = len + 63"
    using assms by (simp add: unat_word_ariths unsigned_of_nat take_bit_nat_eq_self)
  then have "unat (((of_nat len :: u64) + 63) div 64) = ?q"
    by (simp add: unat_div)
  moreover have "unat ((64 * push_bit 32 1) div 64 :: u64) = 2 ^ 32" by simp
  ultimately have "unat ((64 * push_bit 32 1) div 64 - ((of_nat len :: u64) + 63) div 64) = 2 ^ 32 - ?q"
    using q by (subst unat_sub) (simp_all add: word_le_nat_alt)
  moreover have "unat (ucast ic :: u64) = unat ic"
    using unsigned_less [of ic, where 'a = nat] by (simp add: unsigned_ucast_eq take_bit_nat_eq_self)
  ultimately have "ietf_counter_overflow (of_nat len) ic \<longleftrightarrow> 2 ^ 32 - ?q < unat ic"
    by (simp only: ietf_counter_overflow_def word_less_nat_alt)
  then show ?thesis using q by (simp only: ietf_fits_def) linarith
qed


lemma ietf_fits_length: "ietf_fits ic len \<Longrightarrow> len \<le> 2 ^ 38"
  by (simp add: ietf_fits_def)

lemma ietf_fits_split: "ietf_fits ic (64 * j + r) \<Longrightarrow> ietf_fits ic (64 * j) \<and> ietf_fits (ic + j) r"
  by (simp add: ietf_fits_def) linarith

lemma ietf_xor_ic_eq:
  assumes "ctx_ok ctx" "ietf_fits ic (length m)"
  shows "crypto_stream_chacha20_ietf_xor_ic ctx m n (of_nat ic) k
    = Some (xor_list m (keystream (chacha20_ietf_block k n) ic (length m)))"
proof (cases "m = []")
  case True
  then show ?thesis
    using ietf_counter_overflow_eq [of 0 "of_nat ic"] unsigned_less [of "of_nat ic :: u32", where 'a = nat]
    by (simp add: crypto_stream_chacha20_ietf_xor_ic_def crypto_stream_chacha20_ietf_ext_xor_ic_def
        stream_ietf_ext_ref_xor_ic_def ietf_fits_def)
next
  case False
  then have "0 < length m" by simp
  then have "ic < 2 ^ 32" using assms(2) unfolding ietf_fits_def by linarith
  then have ic: "unat (of_nat ic :: u32) = ic" by (simp add: unsigned_of_nat take_bit_nat_eq_self)
  have "\<not> ietf_counter_overflow (of_nat (length m)) (of_nat ic)"
    using ietf_counter_overflow_eq [OF ietf_fits_length [OF assms(2)]] ic assms(2) by simp
  moreover have "int (length m) \<le> 18446744073709551615" using ietf_fits_length [OF assms(2)] by simp
  ultimately show ?thesis
    using stream_ietf_ext_ref_xor_ic_eq [OF assms(1), of "of_nat ic" m n k] assms(2) ic
    by (simp add: crypto_stream_chacha20_ietf_xor_ic_def crypto_stream_chacha20_ietf_ext_xor_ic_def)
qed

interpretation chacha20_ietf: stream_cipher chacha20_ietf_block "\<lambda>k n. ctx_ok ctx" ietf_fits
  "crypto_stream_chacha20_ietf ctx" "\<lambda>m n ic k. crypto_stream_chacha20_ietf_xor_ic ctx m n (of_nat ic) k" for ctx
proof unfold_locales
  fix len n k
  assume "ctx_ok ctx" "ietf_fits 0 len"
  then show "crypto_stream_chacha20_ietf ctx len n k = Some (keystream (chacha20_ietf_block k n) 0 len)"
    using ietf_fits_length [of 0 len]
    by (simp add: crypto_stream_chacha20_ietf_def crypto_stream_chacha20_ietf_ext_def stream_ietf_ext_ref_eq)
qed (simp_all add: ietf_xor_ic_eq ietf_fits_split)

text \<open>The same laws without the counter check.\<close>

lemma ietf_ext_xor_ic_eq:
  assumes "ctx_ok ctx" "ietf_fits ic (length m)"
  shows "crypto_stream_chacha20_ietf_ext_xor_ic ctx m n (of_nat ic) k
    = Some (xor_list m (keystream (chacha20_ietf_block k n) ic (length m)))"
  using ietf_xor_ic_eq [OF assms, of n k] by (simp add: crypto_stream_chacha20_ietf_xor_ic_def split: if_splits)

interpretation chacha20_ietf_ext: stream_cipher chacha20_ietf_block "\<lambda>k n. ctx_ok ctx" ietf_fits
  "crypto_stream_chacha20_ietf_ext ctx" "\<lambda>m n ic k. crypto_stream_chacha20_ietf_ext_xor_ic ctx m n (of_nat ic) k" for ctx
proof unfold_locales
  fix len n k
  assume "ctx_ok ctx" "ietf_fits 0 len"
  then show "crypto_stream_chacha20_ietf_ext ctx len n k = Some (keystream (chacha20_ietf_block k n) 0 len)"
    using ietf_fits_length [of 0 len]
    by (simp add: crypto_stream_chacha20_ietf_ext_def stream_ietf_ext_ref_eq)
qed (simp_all add: ietf_ext_xor_ic_eq ietf_fits_split chacha20_ietf.length_block)

section \<open>Properties\<close>

text \<open>C39: for every key, nonce, initial counter and message below \<open>2 ^ 64\<close> bytes, ChaCha20 and XChaCha20
  XOR the message with the blocks of consecutive 64-bit counters, wrapping at \<open>2 ^ 64\<close>, with the
  carry between the two counter words; the plain stream is the key stream itself. XChaCha20
  is ChaCha20 under the HChaCha20 subkey.\<close>

theorem chacha20_correct:
  assumes "length (input ctx) = 16" "length m < 2 ^ 64"
  shows "crypto_stream_chacha20_xor_ic ctx m n ic k
      = Some (xor_list m (keystream (chacha20_block k n) (unat ic) (length m)))
    \<and> crypto_stream_chacha20_xor ctx m n k = Some (xor_list m (keystream (chacha20_block k n) 0 (length m)))
    \<and> crypto_stream_chacha20 ctx (length m) n k = Some (keystream (chacha20_block k n) 0 (length m))
    \<and> crypto_stream_xchacha20_xor_ic ctx m n ic k
      = Some (xor_list m (keystream (chacha20_block (crypto_core_hchacha20 n k None) (drop 16 n)) (unat ic) (length m)))
    \<and> crypto_stream_xchacha20 ctx (length m) n k
      = Some (keystream (chacha20_block (crypto_core_hchacha20 n k None) (drop 16 n)) 0 (length m))"
  using assms chacha20.stream_law [of ctx] xchacha20.stream_law [of ctx "length m" n k]
  by (simp add: ctx_ok_def crypto_stream_chacha20_xor_ic_def crypto_stream_chacha20_xor_def
      crypto_stream_xchacha20_xor_ic_def Let_def stream_ref_xor_ic_eq [unfolded ctx_ok_def] xchacha20_block_def)

theorem chacha20_correct_witness:
  "crypto_stream_chacha20_xor_ic \<lparr>input = replicate 16 0\<rparr> [1, 2, 3] (replicate 8 4) (-1) (replicate 32 5)
    = Some (xor_list [1, 2, 3] (keystream (chacha20_block (replicate 32 5) (replicate 8 4)) (unat (-1 :: u64)) 3))"
  using chacha20_correct [of "\<lparr>input = replicate 16 0\<rparr>" "[1, 2, 3]" "replicate 8 4" "-1" "replicate 32 5"]
  by (simp add: numeral_3_eq_3)

text \<open>The IETF variant follows RFC 8439: for messages of at most \<open>2 ^ 38\<close> bytes,
  \<^verbatim>\<open>crypto_stream_chacha20_ietf_xor_ic\<close> calls \<^verbatim>\<open>sodium_misuse\<close> exactly when the 32-bit block
  counter would pass \<open>2 ^ 32\<close>, and otherwise XORs the message with the blocks of consecutive
  counters under the unchanged 96-bit nonce, although the block function carries into the
  first nonce word.\<close>

theorem chacha20_ietf_correct:
  assumes "length (input ctx) = 16" "length m \<le> 2 ^ 38"
  shows "crypto_stream_chacha20_ietf_xor_ic ctx m n ic k =
      (if unat ic + (length m + 63) div 64 \<le> 2 ^ 32
       then Some (xor_list m (keystream (chacha20_ietf_block k n) (unat ic) (length m))) else None)
    \<and> crypto_stream_chacha20_ietf ctx (length m) n k = Some (keystream (chacha20_ietf_block k n) 0 (length m))
    \<and> crypto_stream_chacha20_ietf_xor ctx m n k = crypto_stream_chacha20_ietf_xor_ic ctx m n 0 k"
proof -
  have ok: "ctx_ok ctx" using assms(1) by (simp add: ctx_ok_def)
  have f0: "ietf_fits 0 (length m)" using assms(2) by (simp add: ietf_fits_def)
  have "crypto_stream_chacha20_ietf_xor_ic ctx m n ic k =
      (if ietf_fits (unat ic) (length m)
       then Some (xor_list m (keystream (chacha20_ietf_block k n) (unat ic) (length m))) else None)"
    using ietf_counter_overflow_eq [OF assms(2), of ic] ietf_xor_ic_eq [OF ok, of "unat ic" m n k]
    by (auto simp: crypto_stream_chacha20_ietf_xor_ic_def)
  moreover have "crypto_stream_chacha20_ietf_xor ctx m n k = crypto_stream_chacha20_ietf_xor_ic ctx m n 0 k"
    using assms(2) ietf_counter_overflow_eq [OF assms(2), of 0] f0
    by (simp add: crypto_stream_chacha20_ietf_xor_def crypto_stream_chacha20_ietf_ext_xor_def
        crypto_stream_chacha20_ietf_xor_ic_def crypto_stream_chacha20_ietf_ext_xor_ic_def)
  ultimately show ?thesis
    using chacha20_ietf.stream_law [OF ok f0, of n k] by (simp add: ietf_fits_def)
qed

theorem chacha20_ietf_correct_witness:
  "crypto_stream_chacha20_ietf_xor_ic \<lparr>input = replicate 16 0\<rparr> (replicate 65 1) (replicate 12 2) (-1) (replicate 32 3) = None"
  using chacha20_ietf_correct [of "\<lparr>input = replicate 16 0\<rparr>" "replicate 65 1" "replicate 12 2" "-1" "replicate 32 3"]
  by (simp add: unsigned_minus_1_eq_mask mask_eq_exp_minus_1)

text \<open>Decryption inverts encryption and the stream is seekable, for each of the three ciphers and every
  accepted initial counter: applying the XOR twice gives the message back, and a message
  cut at a multiple of 64 bytes can be processed in two calls.\<close>

theorem chacha20_roundtrip_seek:
  assumes "length (input ctx) = 16" "length (a @ b) < 2 ^ 64" "length a = 64 * j"
  shows "Option.bind (crypto_stream_chacha20_xor_ic ctx (a @ b) n (of_nat ic) k)
        (\<lambda>c. crypto_stream_chacha20_xor_ic ctx c n (of_nat ic) k) = Some (a @ b)
    \<and> Option.bind (crypto_stream_xchacha20_xor_ic ctx (a @ b) n (of_nat ic) k)
        (\<lambda>c. crypto_stream_xchacha20_xor_ic ctx c n (of_nat ic) k) = Some (a @ b)
    \<and> (ic + (length (a @ b) + 63) div 64 \<le> 2 ^ 32 \<longrightarrow>
        Option.bind (crypto_stream_chacha20_ietf_xor_ic ctx (a @ b) n (of_nat ic) k)
          (\<lambda>c. crypto_stream_chacha20_ietf_xor_ic ctx c n (of_nat ic) k) = Some (a @ b))
    \<and> crypto_stream_chacha20_xor_ic ctx (a @ b) n (of_nat ic) k =
        Option.bind (crypto_stream_chacha20_xor_ic ctx a n (of_nat ic) k)
          (\<lambda>x. Option.bind (crypto_stream_chacha20_xor_ic ctx b n (of_nat (ic + j)) k) (\<lambda>y. Some (x @ y)))"
  using assms chacha20.xor_roundtrip [where ctx = ctx and m = "a @ b" and k = k and n = n and ic = ic]
    xchacha20.xor_roundtrip [where ctx = ctx and m = "a @ b" and k = k and n = n and ic = ic]
    chacha20_ietf.xor_roundtrip [where ctx = ctx and m = "a @ b" and k = k and n = n and ic = ic]
    chacha20.xor_seek [where ctx = ctx and a = a and b = b and j = j and k = k and n = n and ic = ic]
  by (simp add: ctx_ok_def ietf_fits_def)

theorem chacha20_roundtrip_seek_witness:
  "Option.bind (crypto_stream_chacha20_xor_ic \<lparr>input = replicate 16 0\<rparr> (replicate 64 1 @ [2]) (replicate 8 0) (of_nat 7) (replicate 32 3))
     (\<lambda>c. crypto_stream_chacha20_xor_ic \<lparr>input = replicate 16 0\<rparr> c (replicate 8 0) (of_nat 7) (replicate 32 3))
   = Some (replicate 64 1 @ [2])"
  by (rule chacha20_roundtrip_seek [of "\<lparr>input = replicate 16 0\<rparr>" "replicate 64 1" "[2]" 1 "replicate 8 0" 7 "replicate 32 3",
      THEN conjunct1]) simp_all

text \<open>The counter check of \<^verbatim>\<open>crypto_stream_chacha20_ietf_xor_ic\<close> is void for messages longer than
  \<open>2 ^ 38\<close> bytes: the subtraction wraps around and no initial counter is rejected, although
  such a message needs more than \<open>2 ^ 32\<close> blocks.\<close>

theorem ietf_counter_check_wraps:
  assumes "2 ^ 38 < len" "len < 2 ^ 63"
  shows "\<not> ietf_counter_overflow (of_nat len) ic"
proof -
  let ?q = "(len + 63) div 64"
  have q: "2 ^ 32 < ?q" "?q \<le> 2 ^ 58" using assms by simp_all
  have "unat ((of_nat len :: u64) + 63) = len + 63"
    using assms by (simp add: unat_word_ariths unsigned_of_nat take_bit_nat_eq_self)
  then have "((of_nat len :: u64) + 63) div 64 = of_nat ?q"
    using q by (simp only: word_unat_eq_iff unat_div unsigned_of_nat) (simp add: take_bit_nat_eq_self)
  moreover have "(64 * push_bit 32 1) div 64 - (of_nat ?q :: u64) = of_nat (2 ^ 64 + 2 ^ 32 - ?q)"
    using q by (simp add: of_nat_diff)
  ultimately have "unat ((64 * push_bit 32 1) div 64 - ((of_nat len :: u64) + 63) div 64) = 2 ^ 64 + 2 ^ 32 - ?q"
    using q by (simp only: unsigned_of_nat) (simp add: take_bit_nat_eq_self)
  moreover have "unat (ucast ic :: u64) < 2 ^ 32"
    using unsigned_less [of ic, where 'a = nat] by (simp add: unsigned_ucast_eq take_bit_nat_eq_self)
  moreover have "2 ^ 32 \<le> 2 ^ 64 + 2 ^ 32 - ?q" using q by simp
  ultimately show ?thesis
    unfolding ietf_counter_overflow_def word_less_nat_alt by linarith
qed

theorem ietf_counter_check_wraps_witness: "\<not> ietf_counter_overflow (of_nat (2 ^ 38 + 1)) (-1)"
  by (rule ietf_counter_check_wraps) simp_all

end
