(* ===== verification/Salsa20.thy ===== *)
theory Salsa20
  imports Keystream Utils
begin

unbundle bit_operations_syntax

text \<open>
  The Salsa20 family: \<^verbatim>\<open>crypto_core/salsa/ref\<close>, \<^verbatim>\<open>crypto_core/hsalsa20/ref2\<close>,
  \<^verbatim>\<open>crypto_stream/salsa20/ref\<close> with its public functions, the reduced-round streams
  \<^verbatim>\<open>salsa2012\<close> and \<^verbatim>\<open>salsa208\<close>, \<^verbatim>\<open>xsalsa20\<close> and \<^verbatim>\<open>crypto_stream.c\<close>. The three
  \<^verbatim>\<open>_ref\<close> stream files have the same loops up to the core they call; the loops are modelled
  once over the core.
\<close>

section \<open>Core functions\<close>

text \<open>\<^verbatim>\<open>x[d] ^= ROTL32(x[a] + x[b], r)\<close>\<close>

definition salsa_step :: "nat \<Rightarrow> nat \<Rightarrow> nat \<Rightarrow> nat \<Rightarrow> u32 list \<Rightarrow> u32 list" where
  "salsa_step d a b r x = x[d := x ! d XOR rotl32 (x ! a + x ! b) r]"

definition salsa_double_round :: "u32 list \<Rightarrow> u32 list" where
  "salsa_double_round x =
    (let x = salsa_step 4 0 12 7 x; x = salsa_step 8 4 0 9 x;
         x = salsa_step 12 8 4 13 x; x = salsa_step 0 12 8 18 x;
         x = salsa_step 9 5 1 7 x; x = salsa_step 13 9 5 9 x;
         x = salsa_step 1 13 9 13 x; x = salsa_step 5 1 13 18 x;
         x = salsa_step 14 10 6 7 x; x = salsa_step 2 14 10 9 x;
         x = salsa_step 6 2 14 13 x; x = salsa_step 10 6 2 18 x;
         x = salsa_step 3 15 11 7 x; x = salsa_step 7 3 15 9 x;
         x = salsa_step 11 7 3 13 x; x = salsa_step 15 11 7 18 x;
         x = salsa_step 1 0 3 7 x; x = salsa_step 2 1 0 9 x;
         x = salsa_step 3 2 1 13 x; x = salsa_step 0 3 2 18 x;
         x = salsa_step 6 5 4 7 x; x = salsa_step 7 6 5 9 x;
         x = salsa_step 4 7 6 13 x; x = salsa_step 5 4 7 18 x;
         x = salsa_step 11 10 9 7 x; x = salsa_step 8 11 10 9 x;
         x = salsa_step 9 8 11 13 x; x = salsa_step 10 9 8 18 x;
         x = salsa_step 12 15 14 7 x; x = salsa_step 13 12 15 9 x;
         x = salsa_step 14 13 12 13 x
     in salsa_step 15 14 13 18 x)"

text \<open>The words \<^verbatim>\<open>x0\<close> to \<^verbatim>\<open>x15\<close> before the rounds.\<close>

definition salsa_words :: "byte list \<Rightarrow> byte list \<Rightarrow> byte list option \<Rightarrow> u32 list" where
  "salsa_words inp k c =
    (let cst = (case c of None \<Rightarrow> [0x61707865, 0x3320646e, 0x79622d32, 0x6b206574]
                | Some c \<Rightarrow> [load32_le (drop 0 c), load32_le (drop 4 c), load32_le (drop 8 c), load32_le (drop 12 c)])
     in [cst ! 0, load32_le (drop 0 k), load32_le (drop 4 k), load32_le (drop 8 k), load32_le (drop 12 k),
         cst ! 1, load32_le (drop 0 inp), load32_le (drop 4 inp), load32_le (drop 8 inp), load32_le (drop 12 inp),
         cst ! 2, load32_le (drop 16 k), load32_le (drop 20 k), load32_le (drop 24 k), load32_le (drop 28 k), cst ! 3])"

text \<open>The loop \<^verbatim>\<open>for (i = 0; i < rounds; i += 2)\<close> runs \<open>(rounds + 1) div 2\<close> times.\<close>

definition crypto_core_salsa :: "byte list \<Rightarrow> byte list \<Rightarrow> byte list option \<Rightarrow> nat \<Rightarrow> byte list" where
  "crypto_core_salsa inp k c rounds =
    (let j = salsa_words inp k c; x = (salsa_double_round ^^ ((rounds + 1) div 2)) j
     in concat (map (\<lambda>i. store32_le (x ! i + j ! i)) [0..<16]))"

definition crypto_core_salsa20 :: "byte list \<Rightarrow> byte list \<Rightarrow> byte list option \<Rightarrow> byte list" where
  "crypto_core_salsa20 inp k c = crypto_core_salsa inp k c 20"

definition crypto_core_salsa2012 :: "byte list \<Rightarrow> byte list \<Rightarrow> byte list option \<Rightarrow> byte list" where
  "crypto_core_salsa2012 inp k c = crypto_core_salsa inp k c 12"

definition crypto_core_salsa208 :: "byte list \<Rightarrow> byte list \<Rightarrow> byte list option \<Rightarrow> byte list" where
  "crypto_core_salsa208 inp k c = crypto_core_salsa inp k c 8"

definition crypto_core_hsalsa20 :: "byte list \<Rightarrow> byte list \<Rightarrow> byte list option \<Rightarrow> byte list" where
  "crypto_core_hsalsa20 inp k c =
    (let x = (salsa_double_round ^^ 10) (salsa_words inp k c)
     in concat (map (\<lambda>i. store32_le (x ! i)) [0, 5, 10, 15, 6, 7, 8, 9]))"

section \<open>Streams\<close>

text \<open>The increment of the block counter in \<^verbatim>\<open>in[8]\<close> to \<^verbatim>\<open>in[15]\<close>, with an \<^verbatim>\<open>unsigned int\<close> carry.\<close>

definition salsa_increment :: "byte list \<Rightarrow> byte list" where
  "salsa_increment inp = take 8 inp @ increment_loop (1 :: u32) (drop 8 inp)"

function salsa_stream_loop :: "(byte list \<Rightarrow> byte list \<Rightarrow> byte list) \<Rightarrow> byte list \<Rightarrow> nat \<Rightarrow> byte list \<Rightarrow> byte list" where
  "salsa_stream_loop core inp clen k =
    (if clen \<ge> 64 then core inp k @ salsa_stream_loop core (salsa_increment inp) (clen - 64) k
     else if clen \<noteq> 0 then take clen (core inp k) else [])"
  by pat_completeness auto
termination by (relation "measure (\<lambda>(core, inp, clen, k). clen)") auto

function salsa_xor_loop :: "(byte list \<Rightarrow> byte list \<Rightarrow> byte list) \<Rightarrow> byte list \<Rightarrow> byte list \<Rightarrow> byte list \<Rightarrow> byte list" where
  "salsa_xor_loop core inp m k =
    (if length m \<ge> 64
     then xor_list (take 64 m) (core inp k) @ salsa_xor_loop core (salsa_increment inp) (drop 64 m) k
     else if length m \<noteq> 0 then xor_list m (core inp k) else [])"
  by pat_completeness auto
termination by (relation "measure (\<lambda>(core, inp, m, k). length m)") auto

declare salsa_stream_loop.simps [simp del] salsa_xor_loop.simps [simp del]

definition salsa_stream :: "(byte list \<Rightarrow> byte list \<Rightarrow> byte list) \<Rightarrow> nat \<Rightarrow> byte list \<Rightarrow> byte list \<Rightarrow> byte list" where
  "salsa_stream core clen n k =
    (if clen = 0 then [] else salsa_stream_loop core (take 8 n @ replicate 8 0) clen (take 32 k))"

text \<open>\<^verbatim>\<open>in[i] = (unsigned char) (ic & 0xff); ic >>= 8;\<close> for the eight counter bytes.\<close>

primrec salsa_ic_bytes :: "nat \<Rightarrow> u64 \<Rightarrow> byte list" where
  "salsa_ic_bytes 0 ic = []"
| "salsa_ic_bytes (Suc i) ic = ucast (ic AND 0xff) # salsa_ic_bytes i (drop_bit 8 ic)"

definition salsa20_stream_ref :: "nat \<Rightarrow> byte list \<Rightarrow> byte list \<Rightarrow> byte list" where
  "salsa20_stream_ref clen n k = salsa_stream (\<lambda>inp k. crypto_core_salsa20 inp k None) clen n k"

definition salsa20_stream_ref_xor_ic :: "byte list \<Rightarrow> byte list \<Rightarrow> u64 \<Rightarrow> byte list \<Rightarrow> byte list" where
  "salsa20_stream_ref_xor_ic m n ic k =
    (if m = [] then []
     else salsa_xor_loop (\<lambda>inp k. crypto_core_salsa20 inp k None) (take 8 n @ salsa_ic_bytes 8 ic) m (take 32 k))"

definition crypto_stream_salsa20 :: "nat \<Rightarrow> byte list \<Rightarrow> byte list \<Rightarrow> byte list" where
  "crypto_stream_salsa20 clen n k = salsa20_stream_ref clen n k"

definition crypto_stream_salsa20_xor_ic :: "byte list \<Rightarrow> byte list \<Rightarrow> u64 \<Rightarrow> byte list \<Rightarrow> byte list" where
  "crypto_stream_salsa20_xor_ic m n ic k = salsa20_stream_ref_xor_ic m n ic k"

definition crypto_stream_salsa20_xor :: "byte list \<Rightarrow> byte list \<Rightarrow> byte list \<Rightarrow> byte list" where
  "crypto_stream_salsa20_xor m n k = salsa20_stream_ref_xor_ic m n 0 k"

definition crypto_stream_salsa208 :: "nat \<Rightarrow> byte list \<Rightarrow> byte list \<Rightarrow> byte list" where
  "crypto_stream_salsa208 clen n k = salsa_stream (\<lambda>inp k. crypto_core_salsa208 inp k None) clen n k"

definition crypto_stream_salsa208_xor :: "byte list \<Rightarrow> byte list \<Rightarrow> byte list \<Rightarrow> byte list" where
  "crypto_stream_salsa208_xor m n k =
    (if m = [] then []
     else salsa_xor_loop (\<lambda>inp k. crypto_core_salsa208 inp k None) (take 8 n @ replicate 8 0) m (take 32 k))"

definition crypto_stream_salsa2012 :: "nat \<Rightarrow> byte list \<Rightarrow> byte list \<Rightarrow> byte list" where
  "crypto_stream_salsa2012 clen n k = salsa_stream (\<lambda>inp k. crypto_core_salsa2012 inp k None) clen n k"

definition crypto_stream_salsa2012_xor :: "byte list \<Rightarrow> byte list \<Rightarrow> byte list \<Rightarrow> byte list" where
  "crypto_stream_salsa2012_xor m n k =
    (if m = [] then []
     else salsa_xor_loop (\<lambda>inp k. crypto_core_salsa2012 inp k None) (take 8 n @ replicate 8 0) m (take 32 k))"

definition crypto_stream_xsalsa20 :: "nat \<Rightarrow> byte list \<Rightarrow> byte list \<Rightarrow> byte list" where
  "crypto_stream_xsalsa20 clen n k =
    (let subkey = crypto_core_hsalsa20 n k None in crypto_stream_salsa20 clen (drop 16 n) subkey)"

definition crypto_stream_xsalsa20_xor_ic :: "byte list \<Rightarrow> byte list \<Rightarrow> u64 \<Rightarrow> byte list \<Rightarrow> byte list" where
  "crypto_stream_xsalsa20_xor_ic m n ic k =
    (let subkey = crypto_core_hsalsa20 n k None in crypto_stream_salsa20_xor_ic m (drop 16 n) ic subkey)"

definition crypto_stream_xsalsa20_xor :: "byte list \<Rightarrow> byte list \<Rightarrow> byte list \<Rightarrow> byte list" where
  "crypto_stream_xsalsa20_xor m n k = crypto_stream_xsalsa20_xor_ic m n 0 k"

definition crypto_stream :: "nat \<Rightarrow> byte list \<Rightarrow> byte list \<Rightarrow> byte list" where
  "crypto_stream clen n k = crypto_stream_xsalsa20 clen n k"

definition crypto_stream_xor :: "byte list \<Rightarrow> byte list \<Rightarrow> byte list \<Rightarrow> byte list" where
  "crypto_stream_xor m n k = crypto_stream_xsalsa20_xor m n k"

section \<open>The counter\<close>

lemma salsa_ic_bytes_eq: "salsa_ic_bytes n ic = le_bytes n (unat ic)"
proof (induction n arbitrary: ic)
  case (Suc n)
  have "(ucast (ic AND 0xff) :: byte) = ucast ic"
  proof -
    have "ic AND 0xff = take_bit 8 ic" by (simp add: take_bit_eq_mask mask_eq_exp_minus_1)
    then show ?thesis by (simp only:) (intro bit_word_eqI, simp add: bit_simps)
  qed
  moreover have "(ucast ic :: byte) = of_nat (unat ic)" by simp
  ultimately show ?case
    unfolding salsa_ic_bytes.simps le_bytes.simps Suc unat_carry_div by (simp only:)
qed simp

lemma salsa_increment_bytes:
  assumes "length n = 8"
  shows "salsa_increment (n @ le_bytes 8 c) = n @ le_bytes 8 (Suc c)"
proof -
  have "increment_loop (1 :: u32) (le_bytes 8 c) = le_bytes 8 (Suc c)"
    using increment_loop_nat [where c = "1 :: u32" and n = "le_bytes 8 c"]
    by (intro le_nat_inject) (simp_all add: le_nat_le_bytes mod_Suc_eq)
  then show ?thesis using assms by (simp add: salsa_increment_def)
qed

definition salsa_block :: "(byte list \<Rightarrow> byte list \<Rightarrow> byte list) \<Rightarrow> byte list \<Rightarrow> byte list \<Rightarrow> nat \<Rightarrow> byte list" where
  "salsa_block core k n c = core (take 8 n @ le_bytes 8 c) (take 32 k)"

lemma salsa_stream_loop_keystream:
  assumes "\<And>inp k. length (core inp k) = 64" "length n = 8"
  shows "salsa_stream_loop core (n @ le_bytes 8 c) clen k = keystream (\<lambda>c. core (n @ le_bytes 8 c) k) c clen"
proof (induction clen arbitrary: c rule: less_induct)
  case (less clen)
  show ?case
  proof (cases "clen \<ge> 64")
    case True
    then show ?thesis
      using less.IH [of "clen - 64" "Suc c"] assms
        keystream_block [of "\<lambda>c. core (n @ le_bytes 8 c) k" c "clen - 64"]
      by (simp add: salsa_stream_loop.simps [of core _ clen] salsa_increment_bytes)
  qed (simp add: salsa_stream_loop.simps [of core _ clen] keystream_short)
qed

lemma salsa_xor_loop_keystream:
  assumes "\<And>inp k. length (core inp k) = 64" "length n = 8"
  shows "salsa_xor_loop core (n @ le_bytes 8 c) m k = xor_list m (keystream (\<lambda>c. core (n @ le_bytes 8 c) k) c (length m))"
proof (induction m arbitrary: c rule: length_induct)
  case (1 m)
  show ?case
  proof (cases "length m \<ge> 64")
    case True
    let ?ks = "keystream (\<lambda>c. core (n @ le_bytes 8 c) k)"
    have "salsa_xor_loop core (n @ le_bytes 8 (Suc c)) (drop 64 m) k = xor_list (drop 64 m) (?ks (Suc c) (length m - 64))"
      using "1.IH" True by simp
    moreover have "?ks c (length m) = core (n @ le_bytes 8 c) k @ ?ks (Suc c) (length m - 64)"
      using keystream_block [of "\<lambda>c. core (n @ le_bytes 8 c) k" c "length m - 64"] assms(1) True by simp
    moreover have "xor_list (take 64 m @ drop 64 m) (core (n @ le_bytes 8 c) k @ ?ks (Suc c) (length m - 64)) =
       xor_list (take 64 m) (core (n @ le_bytes 8 c) k) @ xor_list (drop 64 m) (?ks (Suc c) (length m - 64))"
      using assms(1) True by (intro xor_list_append) simp
    ultimately show ?thesis
      using True assms(2) by (simp add: salsa_xor_loop.simps [of core _ m] salsa_increment_bytes)
  next
    case False
    then show ?thesis
      by (subst salsa_xor_loop.simps) (auto simp: keystream_short xor_list_take, simp add: xor_list_def)
  qed
qed

section \<open>The streams as stream ciphers\<close>

lemma length_crypto_core_salsa [simp]: "length (crypto_core_salsa inp k c r) = 64"
  by (simp add: crypto_core_salsa_def Let_def length_concat comp_def sum_list_triv)

lemma length_salsa_cores [simp]:
  "length (crypto_core_salsa20 inp k c) = 64" "length (crypto_core_salsa2012 inp k c) = 64"
  "length (crypto_core_salsa208 inp k c) = 64"
  by (simp_all add: crypto_core_salsa20_def crypto_core_salsa2012_def crypto_core_salsa208_def)

lemma le_bytes_zero: "le_bytes n 0 = replicate n 0"
  by (induction n) simp_all

lemma salsa_stream_eq:
  assumes "\<And>inp k. length (core inp k) = 64" "length n = 8"
  shows "salsa_stream core clen n k = keystream (salsa_block core k n) 0 clen"
  using salsa_stream_loop_keystream [of core n 0 clen "take 32 k"] assms
  unfolding salsa_stream_def salsa_block_def by (simp add: le_bytes_zero)

lemma salsa_xor_eq:
  assumes "\<And>inp k. length (core inp k) = 64" "length n = 8"
  shows "salsa_xor_loop core (n @ le_bytes 8 c) m (take 32 k) = xor_list m (keystream (salsa_block core k n) c (length m))"
  using salsa_xor_loop_keystream [of core n c m "take 32 k"] assms unfolding salsa_block_def by simp

lemma salsa_block_wrap: "keystream (salsa_block core k n) (c mod 2 ^ 64) len = keystream (salsa_block core k n) c len"
proof (rule keystream_cong)
  fix i
  have "(c mod 2 ^ 64 + i) mod 256 ^ 8 = (c + i) mod 256 ^ 8" by (simp add: mod_add_left_eq)
  then have "le_bytes 8 (c mod 2 ^ 64 + i) = le_bytes 8 (c + i)" by (metis le_bytes_mod)
  then show "salsa_block core k n (c mod 2 ^ 64 + i) = salsa_block core k n (c + i)" by (simp add: salsa_block_def)
qed

abbreviation salsa20_block :: "byte list \<Rightarrow> byte list \<Rightarrow> nat \<Rightarrow> byte list" where
  "salsa20_block \<equiv> salsa_block (\<lambda>inp k. crypto_core_salsa20 inp k None)"

definition xsalsa20_block :: "byte list \<Rightarrow> byte list \<Rightarrow> nat \<Rightarrow> byte list" where
  "xsalsa20_block k n = salsa20_block (crypto_core_hsalsa20 n k None) (drop 16 n)"

lemma salsa20_xor_ic_eq:
  "length n = 8 \<Longrightarrow> crypto_stream_salsa20_xor_ic m n ic k = xor_list m (keystream (salsa20_block k n) (unat ic) (length m))"
  by (cases "m = []")
    (simp_all add: crypto_stream_salsa20_xor_ic_def salsa20_stream_ref_xor_ic_def salsa_ic_bytes_eq salsa_xor_eq xor_list_def [of "[]"])

interpretation salsa20: stream_cipher salsa20_block "\<lambda>k n. length n = 8" "\<lambda>ic len. True"
  "\<lambda>len n k. Some (crypto_stream_salsa20 len n k)" "\<lambda>m n ic k. Some (crypto_stream_salsa20_xor_ic m n (of_nat ic) k)"
proof unfold_locales
  fix k n :: "byte list" and ic m
  assume "length n = 8"
  then show "Some (crypto_stream_salsa20_xor_ic m n (of_nat ic) k) = Some (xor_list m (keystream (salsa20_block k n) ic (length m)))"
    using salsa_block_wrap [of _ k n ic] by (simp add: salsa20_xor_ic_eq unsigned_of_nat take_bit_eq_mod)
next
  fix k n :: "byte list" and len
  assume "length n = 8"
  then show "Some (crypto_stream_salsa20 len n k) = Some (keystream (salsa20_block k n) 0 len)"
    by (simp add: crypto_stream_salsa20_def salsa20_stream_ref_def salsa_stream_eq)
qed (simp_all add: salsa_block_def)

interpretation xsalsa20: stream_cipher xsalsa20_block "\<lambda>k n. length n = 24" "\<lambda>ic len. True"
  "\<lambda>len n k. Some (crypto_stream_xsalsa20 len n k)" "\<lambda>m n ic k. Some (crypto_stream_xsalsa20_xor_ic m n (of_nat ic) k)"
proof unfold_locales
  fix k n :: "byte list" and c ic len m
  show "length (xsalsa20_block k n c) = 64"
    unfolding xsalsa20_block_def by (rule salsa20.length_block)
  assume "length n = 24"
  then have n: "length (drop 16 n) = 8" by simp
  show "Some (crypto_stream_xsalsa20 len n k) = Some (keystream (xsalsa20_block k n) 0 len)"
    unfolding crypto_stream_xsalsa20_def Let_def xsalsa20_block_def using n by (rule salsa20.stream_law) simp
  show "Some (crypto_stream_xsalsa20_xor_ic m n (of_nat ic) k) = Some (xor_list m (keystream (xsalsa20_block k n) ic (length m)))"
    unfolding crypto_stream_xsalsa20_xor_ic_def Let_def xsalsa20_block_def using n by (rule salsa20.xor_law) simp
qed simp

section \<open>Properties\<close>

text \<open>For every key, nonce, counter and message, Salsa20, XSalsa20 and the reduced-round variants XOR the message
  with the core applied to the nonce and consecutive 64-bit little-endian counters, wrapping at
  \<open>2 ^ 64\<close>; the plain streams are the key stream itself.\<close>

theorem salsa20_correct:
  assumes "length n = 8" "length n' = 24"
  shows "crypto_stream_salsa20_xor_ic m n ic k = xor_list m (keystream
        (\<lambda>c. crypto_core_salsa20 (n @ le_bytes 8 c) (take 32 k) None) (unat ic) (length m))
    \<and> crypto_stream_salsa20 len n k = keystream (\<lambda>c. crypto_core_salsa20 (n @ le_bytes 8 c) (take 32 k) None) 0 len
    \<and> crypto_stream_salsa208_xor m n k = xor_list m (keystream
        (\<lambda>c. crypto_core_salsa208 (n @ le_bytes 8 c) (take 32 k) None) 0 (length m))
    \<and> crypto_stream_salsa208 len n k = keystream (\<lambda>c. crypto_core_salsa208 (n @ le_bytes 8 c) (take 32 k) None) 0 len
    \<and> crypto_stream_salsa2012_xor m n k = xor_list m (keystream
        (\<lambda>c. crypto_core_salsa2012 (n @ le_bytes 8 c) (take 32 k) None) 0 (length m))
    \<and> crypto_stream_salsa2012 len n k = keystream (\<lambda>c. crypto_core_salsa2012 (n @ le_bytes 8 c) (take 32 k) None) 0 len
    \<and> crypto_stream_xor m n' k = xor_list m (keystream (xsalsa20_block k n') 0 (length m))
    \<and> crypto_stream len n' k = keystream (xsalsa20_block k n') 0 len"
proof -
  have b: "salsa_block core k n = (\<lambda>c. core (n @ le_bytes 8 c) (take 32 k))" for core :: "byte list \<Rightarrow> byte list \<Rightarrow> byte list"
    using assms(1) by (simp add: salsa_block_def fun_eq_iff)
  have x: "salsa_xor_loop core (n @ replicate 8 0) m (take 32 k) = xor_list m (keystream (salsa_block core k n) 0 (length m))"
    if "\<And>inp k. length (core inp k) = 64" for core
    using salsa_xor_eq [OF that assms(1), where c = 0 and m = m and k = k] assms(1) by (simp add: le_bytes_zero)
  have e: "xor_list [] ks = []" for ks by (simp add: xor_list_def)
  show ?thesis
    using salsa20_xor_ic_eq [OF assms(1), of m ic k] assms salsa20.stream_law [OF assms(1), where len = len and k = k]
      xsalsa20.stream_law [OF assms(2), where len = len and k = k] xsalsa20.xor_law [OF assms(2), where ic = 0 and m = m and k = k]
    by (cases "m = []") (simp_all add: crypto_stream_salsa208_xor_def crypto_stream_salsa208_def crypto_stream_salsa2012_xor_def
      crypto_stream_salsa2012_def x salsa_stream_eq b e crypto_stream_def crypto_stream_xor_def crypto_stream_xsalsa20_xor_def)
qed

theorem salsa20_correct_witness:
  "crypto_stream 5 (replicate 24 1) (replicate 32 2) = keystream (xsalsa20_block (replicate 32 2) (replicate 24 1)) 0 5"
  using salsa20_correct [of "replicate 8 0" "replicate 24 1" "[]" 0 "replicate 32 2" 5] by simp

text \<open>For Salsa20 and XSalsa20 decryption inverts encryption at every initial counter, the stream is
  the encryption of zeros, and a message cut at a multiple of 64 bytes can be
  processed in two calls with the counter advanced.\<close>

theorem salsa20_roundtrip_seek:
  assumes "length n = 8" "length n' = 24" "length a = 64 * j"
  shows "crypto_stream_salsa20_xor_ic (crypto_stream_salsa20_xor_ic m n (of_nat ic) k) n (of_nat ic) k = m
    \<and> crypto_stream_xsalsa20_xor_ic (crypto_stream_xsalsa20_xor_ic m n' (of_nat ic) k) n' (of_nat ic) k = m
    \<and> crypto_stream_xsalsa20_xor (replicate len 0) n' k = crypto_stream_xsalsa20 len n' k
    \<and> crypto_stream_xsalsa20_xor_ic (a @ b) n' (of_nat ic) k =
        crypto_stream_xsalsa20_xor_ic a n' (of_nat ic) k @ crypto_stream_xsalsa20_xor_ic b n' (of_nat (ic + j)) k"
  using salsa20.xor_roundtrip [OF assms(1), where ic = ic and m = m and k = k]
    xsalsa20.xor_roundtrip [OF assms(2), where ic = ic and m = m and k = k]
    xsalsa20.xor_zeros [OF assms(2), where len = len and k = k]
    xsalsa20.xor_seek [OF assms(2) _ assms(3), where ic = ic and b = b and k = k]
  by (simp add: crypto_stream_xsalsa20_xor_def)

theorem salsa20_roundtrip_seek_witness:
  "crypto_stream_xsalsa20_xor_ic (crypto_stream_xsalsa20_xor_ic [1, 2, 3] (replicate 24 0) (of_nat 5) (replicate 32 1))
     (replicate 24 0) (of_nat 5) (replicate 32 1) = [1, 2, 3]"
  using salsa20_roundtrip_seek [of "replicate 8 0" "replicate 24 0" "[]" 0 "[1, 2, 3]" 5 "replicate 32 1" 0 "[]"] by simp

end
