(* ===== verification/Poly1305.thy ===== *)
theory Poly1305
  imports Streaming Utils Limbs
begin

unbundle bit_operations_syntax

text \<open>
  Poly1305: \<^verbatim>\<open>crypto_onetimeauth/poly1305/donna/poly1305_donna.c\<close> with the 64-bit limbs of
  \<^verbatim>\<open>poly1305_donna64.h\<close> (44, 44 and 42 bits, 128-bit products) and the public functions over
  it. The accumulator is shown to be the evaluation of the message polynomial modulo
  \<open>2 ^ 130 - 5\<close>, and the tag its sum with the pad modulo \<open>2 ^ 128\<close>.
\<close>

section \<open>The code\<close>

record poly1305_state_internal_t =
  p_r :: "u64 list"
  p_h :: "u64 list"
  p_pad :: "u64 list"
  p_leftover :: nat
  p_buffer :: "byte list"
  p_final :: byte

text \<open>The clamped multiplier, in limbs.\<close>

definition poly1305_clamp :: "byte list \<Rightarrow> u64 list" where
  "poly1305_clamp key =
    (let t0 = load64_le (drop 0 key); t1 = load64_le (drop 8 key)
     in [t0 AND 0xffc0fffffff,
         (drop_bit 44 t0 OR push_bit 20 t1) AND 0xfffffc0ffff,
         drop_bit 24 t1 AND 0x00ffffffc0f])"

definition poly1305_init :: "poly1305_state_internal_t \<Rightarrow> byte list \<Rightarrow> poly1305_state_internal_t" where
  "poly1305_init st key =
    st\<lparr>p_r := poly1305_clamp key, p_h := [0, 0, 0],
       p_pad := [load64_le (drop 16 key), load64_le (drop 24 key)],
       p_leftover := 0, p_final := 0\<rparr>"

definition MUL :: "u64 \<Rightarrow> u64 \<Rightarrow> u128" where
  "MUL x y = ucast x * ucast y"

text \<open>The partial reduction at the end of an iteration of the loop of \<^verbatim>\<open>poly1305_blocks\<close>.\<close>

definition poly1305_partial_reduce :: "u128 \<Rightarrow> u128 \<Rightarrow> u128 \<Rightarrow> u64 list" where
  "poly1305_partial_reduce d0 d1 d2 =
    (let c = (ucast (drop_bit 44 d0) :: u64); h0 = (ucast d0 :: u64) AND 0xfffffffffff;
         d1 = d1 + ucast c;
         c = (ucast (drop_bit 44 d1) :: u64); h1 = (ucast d1 :: u64) AND 0xfffffffffff;
         d2 = d2 + ucast c;
         c = (ucast (drop_bit 42 d2) :: u64); h2 = (ucast d2 :: u64) AND 0x3ffffffffff;
         h0 = h0 + c * 5; c = drop_bit 44 h0; h0 = h0 AND 0xfffffffffff;
         h1 = h1 + c
     in [h0, h1, h2])"

text \<open>One iteration of the loop of \<^verbatim>\<open>poly1305_blocks\<close>.\<close>

definition poly1305_block :: "u64 \<Rightarrow> u64 list \<Rightarrow> u64 list \<Rightarrow> byte list \<Rightarrow> u64 list" where
  "poly1305_block hibit r h m =
    (let r0 = r ! 0; r1 = r ! 1; r2 = r ! 2;
         s1 = r1 * push_bit 2 5; s2 = r2 * push_bit 2 5;
         t0 = load64_le (drop 0 m); t1 = load64_le (drop 8 m);
         h0 = h ! 0 + (t0 AND 0xfffffffffff);
         h1 = h ! 1 + ((drop_bit 44 t0 OR push_bit 20 t1) AND 0xfffffffffff);
         h2 = h ! 2 + ((drop_bit 24 t1 AND 0x3ffffffffff) OR hibit);
         d0 = MUL h0 r0 + MUL h1 s2 + MUL h2 s1;
         d1 = MUL h0 r1 + MUL h1 r0 + MUL h2 s2;
         d2 = MUL h0 r2 + MUL h1 r1 + MUL h2 r0
     in poly1305_partial_reduce d0 d1 d2)"

text \<open>\<^verbatim>\<open>poly1305_blocks\<close> on the full blocks of \<open>m\<close>.\<close>

definition poly1305_blocks :: "poly1305_state_internal_t \<Rightarrow> byte list \<Rightarrow> poly1305_state_internal_t" where
  "poly1305_blocks st m =
    (let hibit = (if p_final st \<noteq> 0 then 0 else push_bit 40 1)
     in st\<lparr>p_h := blocks_fold 16 (poly1305_block hibit (p_r st)) (p_h st) m\<rparr>)"

text \<open>\<^verbatim>\<open>poly1305_update\<close>: the buffer is completed first, then whole blocks are processed and the
  remainder is stored.\<close>

definition poly1305_update_rest :: "poly1305_state_internal_t \<Rightarrow> byte list \<Rightarrow> poly1305_state_internal_t" where
  "poly1305_update_rest st m =
    (let (st, m) =
       (if length m \<ge> 16
        then let want = length m - length m mod 16 in (poly1305_blocks st (take want m), drop want m)
        else (st, m))
     in if m \<noteq> []
        then st\<lparr>p_buffer := write_at (p_buffer st) (p_leftover st) m, p_leftover := p_leftover st + length m\<rparr>
        else st)"

definition poly1305_update :: "poly1305_state_internal_t \<Rightarrow> byte list \<Rightarrow> poly1305_state_internal_t" where
  "poly1305_update st m =
    (if p_leftover st \<noteq> 0
     then let want = min (16 - p_leftover st) (length m);
              st = st\<lparr>p_buffer := write_at (p_buffer st) (p_leftover st) (take want m),
                      p_leftover := p_leftover st + want\<rparr>;
              m = drop want m
          in if p_leftover st < 16 then st
             else poly1305_update_rest ((poly1305_blocks st (p_buffer st))\<lparr>p_leftover := 0\<rparr>) m
     else poly1305_update_rest st m)"

text \<open>The carry chains of \<^verbatim>\<open>poly1305_finish\<close> on the three limbs.\<close>

definition poly1305_carry :: "u64 list \<Rightarrow> u64 list" where
  "poly1305_carry h =
    (let h0 = h ! 0; h1 = h ! 1; h2 = h ! 2;
         c = drop_bit 44 h1; h1 = h1 AND 0xfffffffffff; h2 = h2 + c;
         c = drop_bit 42 h2; h2 = h2 AND 0x3ffffffffff; h0 = h0 + c * 5;
         c = drop_bit 44 h0; h0 = h0 AND 0xfffffffffff; h1 = h1 + c;
         c = drop_bit 44 h1; h1 = h1 AND 0xfffffffffff; h2 = h2 + c;
         c = drop_bit 42 h2; h2 = h2 AND 0x3ffffffffff; h0 = h0 + c * 5;
         c = drop_bit 44 h0; h0 = h0 AND 0xfffffffffff; h1 = h1 + c
     in [h0, h1, h2])"

text \<open>The conditional subtraction of the prime.\<close>

definition poly1305_reduce :: "u64 list \<Rightarrow> u64 list" where
  "poly1305_reduce h =
    (let h0 = h ! 0; h1 = h ! 1; h2 = h ! 2;
         g0 = h0 + 5; c = drop_bit 44 g0; g0 = g0 AND 0xfffffffffff;
         g1 = h1 + c; c = drop_bit 44 g1; g1 = g1 AND 0xfffffffffff;
         g2 = h2 + c - push_bit 42 1;
         mask = drop_bit (8 * 8 - 1) g2 - 1;
         g0 = g0 AND mask; g1 = g1 AND mask; g2 = g2 AND mask;
         mask = NOT mask
     in [(h0 AND mask) OR g0, (h1 AND mask) OR g1, (h2 AND mask) OR g2])"

text \<open>The addition of the pad and the serialisation.\<close>

definition poly1305_tag :: "u64 list \<Rightarrow> u64 list \<Rightarrow> byte list" where
  "poly1305_tag h pad =
    (let h0 = h ! 0; h1 = h ! 1; h2 = h ! 2; t0 = pad ! 0; t1 = pad ! 1;
         h0 = h0 + (t0 AND 0xfffffffffff); c = drop_bit 44 h0; h0 = h0 AND 0xfffffffffff;
         h1 = h1 + (((drop_bit 44 t0 OR push_bit 20 t1) AND 0xfffffffffff) + c);
         c = drop_bit 44 h1; h1 = h1 AND 0xfffffffffff;
         h2 = h2 + ((drop_bit 24 t1 AND 0x3ffffffffff) + c); h2 = h2 AND 0x3ffffffffff;
         o0 = h0 OR push_bit 44 h1; o1 = drop_bit 20 h1 OR push_bit 24 h2
     in store64_le o0 @ store64_le o1)"

definition poly1305_finish :: "poly1305_state_internal_t \<Rightarrow> poly1305_state_internal_t \<times> byte list" where
  "poly1305_finish st =
    (let st = (if p_leftover st \<noteq> 0
               then let buf = write_at (p_buffer st) (p_leftover st) (1 # replicate (16 - (p_leftover st + 1)) 0)
                    in poly1305_blocks (st\<lparr>p_buffer := buf, p_final := 1\<rparr>) buf
               else st);
         mac = poly1305_tag (poly1305_reduce (poly1305_carry (p_h st))) (p_pad st)
     in (\<lparr>p_r = [0, 0, 0], p_h = [0, 0, 0], p_pad = [0, 0], p_leftover = 0,
          p_buffer = replicate 16 0, p_final = 0\<rparr>, mac))"

definition crypto_onetimeauth_poly1305_donna :: "poly1305_state_internal_t \<Rightarrow> byte list \<Rightarrow> byte list \<Rightarrow> byte list" where
  "crypto_onetimeauth_poly1305_donna st m key = snd (poly1305_finish (poly1305_update (poly1305_init st key) m))"

definition crypto_onetimeauth_poly1305_donna_verify ::
  "poly1305_state_internal_t \<Rightarrow> byte list \<Rightarrow> byte list \<Rightarrow> byte list \<Rightarrow> int" where
  "crypto_onetimeauth_poly1305_donna_verify st h m k =
     crypto_verify_16 h (crypto_onetimeauth_poly1305_donna st m k)"

definition crypto_onetimeauth_poly1305_donna_init ::
  "poly1305_state_internal_t \<Rightarrow> byte list \<Rightarrow> poly1305_state_internal_t" where
  "crypto_onetimeauth_poly1305_donna_init state key = poly1305_init state key"

definition crypto_onetimeauth_poly1305_donna_update ::
  "poly1305_state_internal_t \<Rightarrow> byte list \<Rightarrow> poly1305_state_internal_t" where
  "crypto_onetimeauth_poly1305_donna_update state m = poly1305_update state m"

definition crypto_onetimeauth_poly1305_donna_final ::
  "poly1305_state_internal_t \<Rightarrow> poly1305_state_internal_t \<times> byte list" where
  "crypto_onetimeauth_poly1305_donna_final state = poly1305_finish state"

text \<open>The public functions over the portable implementation. Each also returns 0, except the
  verification, whose result is modelled.\<close>

definition crypto_onetimeauth_poly1305 :: "poly1305_state_internal_t \<Rightarrow> byte list \<Rightarrow> byte list \<Rightarrow> byte list" where
  "crypto_onetimeauth_poly1305 st m k = crypto_onetimeauth_poly1305_donna st m k"

definition crypto_onetimeauth_poly1305_verify ::
  "poly1305_state_internal_t \<Rightarrow> byte list \<Rightarrow> byte list \<Rightarrow> byte list \<Rightarrow> int" where
  "crypto_onetimeauth_poly1305_verify st h m k = crypto_onetimeauth_poly1305_donna_verify st h m k"

definition crypto_onetimeauth_poly1305_init :: "poly1305_state_internal_t \<Rightarrow> byte list \<Rightarrow> poly1305_state_internal_t" where
  "crypto_onetimeauth_poly1305_init st key = crypto_onetimeauth_poly1305_donna_init st key"

definition crypto_onetimeauth_poly1305_update :: "poly1305_state_internal_t \<Rightarrow> byte list \<Rightarrow> poly1305_state_internal_t" where
  "crypto_onetimeauth_poly1305_update st m = crypto_onetimeauth_poly1305_donna_update st m"

definition crypto_onetimeauth_poly1305_final :: "poly1305_state_internal_t \<Rightarrow> poly1305_state_internal_t \<times> byte list" where
  "crypto_onetimeauth_poly1305_final st = crypto_onetimeauth_poly1305_donna_final st"

definition crypto_onetimeauth :: "poly1305_state_internal_t \<Rightarrow> byte list \<Rightarrow> byte list \<Rightarrow> byte list" where
  "crypto_onetimeauth st m k = crypto_onetimeauth_poly1305 st m k"

definition crypto_onetimeauth_verify :: "poly1305_state_internal_t \<Rightarrow> byte list \<Rightarrow> byte list \<Rightarrow> byte list \<Rightarrow> int" where
  "crypto_onetimeauth_verify st h m k = crypto_onetimeauth_poly1305_verify st h m k"

definition crypto_onetimeauth_init :: "poly1305_state_internal_t \<Rightarrow> byte list \<Rightarrow> poly1305_state_internal_t" where
  "crypto_onetimeauth_init st key = crypto_onetimeauth_poly1305_init st key"

definition crypto_onetimeauth_update :: "poly1305_state_internal_t \<Rightarrow> byte list \<Rightarrow> poly1305_state_internal_t" where
  "crypto_onetimeauth_update st m = crypto_onetimeauth_poly1305_update st m"

definition crypto_onetimeauth_final :: "poly1305_state_internal_t \<Rightarrow> poly1305_state_internal_t \<times> byte list" where
  "crypto_onetimeauth_final st = crypto_onetimeauth_poly1305_final st"

lemmas onetimeauth_defs = crypto_onetimeauth_poly1305_donna_init_def crypto_onetimeauth_poly1305_donna_update_def
  crypto_onetimeauth_poly1305_donna_final_def crypto_onetimeauth_poly1305_init_def crypto_onetimeauth_poly1305_update_def
  crypto_onetimeauth_poly1305_final_def crypto_onetimeauth_init_def crypto_onetimeauth_update_def crypto_onetimeauth_final_def

section \<open>Limbs\<close>

text \<open>Word operations on limbs as operations on numbers.\<close>

lemma unat_and_44 [limb_nat]: "unat ((w :: u64) AND 0xfffffffffff) = unat w mod 2 ^ 44"
proof -
  have "w AND 0xfffffffffff = take_bit 44 w" by (simp add: take_bit_eq_mask mask_eq_exp_minus_1)
  then show ?thesis by (simp only: unsigned_take_bit_eq) (simp only: take_bit_eq_mod)
qed

lemma unat_MUL [limb_nat]: "unat (MUL x y) = unat x * unat y"
  unfolding MUL_def by (rule unat_wide_mult)

lemma unat_and_42 [limb_nat]: "unat ((w :: u64) AND 0x3ffffffffff) = unat w mod 2 ^ 42"
proof -
  have "w AND 0x3ffffffffff = take_bit 42 w" by (simp add: take_bit_eq_mask mask_eq_exp_minus_1)
  then show ?thesis by (simp only: unsigned_take_bit_eq) (simp only: take_bit_eq_mod)
qed

lemma unat_limb_1 [limb_nat]:
  "unat ((drop_bit 44 t0 OR push_bit 20 t1) AND 0xfffffffffff) = unat (t0 :: u64) div 2 ^ 44 + 2 ^ 20 * (unat t1 mod 2 ^ 24)"
proof -
  have "drop_bit 44 t0 AND push_bit 20 t1 = 0"
    by (rule bit_word_eqI) (auto simp: bit_simps dest: bit_imp_le_length)
  then have "drop_bit 44 t0 OR push_bit 20 t1 = drop_bit 44 t0 + push_bit 20 t1"
    by (rule disjunctive_add_eq_or [symmetric])
  moreover have "unat (push_bit 20 t1) = 2 ^ 20 * (unat t1 mod 2 ^ 44)"
    using mult_mod_right [of "2 ^ 20" "unat t1" "2 ^ 44"]
    by (simp add: push_bit_eq_mult unat_word_ariths(2) mult.commute [of _ "1048576"])
  moreover have a: "unat t0 div 2 ^ 44 < 2 ^ 20" using u64_bound [of t0] by (simp add: less_mult_imp_div_less)
  ultimately have "unat (drop_bit 44 t0 OR push_bit 20 t1) = unat t0 div 2 ^ 44 + 2 ^ 20 * (unat t1 mod 2 ^ 44)"
    by (simp add: unat_sum_small unat_shr)
  then have "unat ((drop_bit 44 t0 OR push_bit 20 t1) AND 0xfffffffffff)
      = (unat t0 div 2 ^ 44 + 2 ^ 20 * (unat t1 mod 2 ^ 44)) mod (2 ^ 20 * 2 ^ 24)"
    by (simp add: unat_and_44)
  also have "\<dots> = unat t0 div 2 ^ 44 + 2 ^ 20 * (unat t1 mod 2 ^ 44 mod 2 ^ 24)"
    using a by (simp only: mod_mult2_eq) simp
  also have "unat t1 mod 2 ^ 44 mod 2 ^ 24 = unat t1 mod 2 ^ 24" by (simp add: mod_mod_cancel)
  finally show ?thesis .
qed

lemma unat_limb_2:
  assumes "hibit = 0 \<or> hibit = push_bit 40 1"
  shows "unat ((drop_bit 24 (t1 :: u64) AND 0x3ffffffffff) OR hibit) = unat t1 div 2 ^ 24 + unat hibit"
proof -
  have lt: "unat t1 div 2 ^ 24 < 2 ^ 40" using u64_bound [of t1] by (simp add: less_mult_imp_div_less)
  then have u: "unat (drop_bit 24 t1 AND 0x3ffffffffff) = unat t1 div 2 ^ 24" by (simp add: unat_and_42 unat_shr)
  have "(drop_bit 24 t1 AND 0x3ffffffffff) AND hibit = 0"
  proof (rule bit_word_eqI)
    fix n
    assume "n < LENGTH(64)"
    have "\<not> bit t1 64" by (auto dest: bit_imp_le_length)
    moreover have "n = 40" if "bit hibit n"
      using assms that by (elim disjE; simp only: bit_push_bit_iff bit_1_iff bit_0) auto
    ultimately show "bit ((drop_bit 24 t1 AND 0x3ffffffffff) AND hibit) n = bit 0 n"
      unfolding bit_and_iff bit_drop_bit_eq comp_def by auto
  qed
  then have "(drop_bit 24 t1 AND 0x3ffffffffff) OR hibit = (drop_bit 24 t1 AND 0x3ffffffffff) + hibit"
    by (rule disjunctive_add_eq_or [symmetric])
  moreover have "unat hibit \<le> 2 ^ 40" using assms by auto
  ultimately show ?thesis using u lt by (simp add: unat_sum_small)
qed

text \<open>The 130-bit prime, and the number three limbs denote.\<close>

abbreviation poly_p :: nat where "poly_p \<equiv> 2 ^ 130 - 5"

definition limbs :: "u64 list \<Rightarrow> nat" where
  "limbs h = unat (h ! 0) + 2 ^ 44 * unat (h ! 1) + 2 ^ 88 * unat (h ! 2)"

definition h_ok :: "u64 list \<Rightarrow> bool" where
  "h_ok h \<longleftrightarrow> length h = 3 \<and> unat (h ! 0) < 2 ^ 44 \<and> unat (h ! 1) < 2 ^ 44 + 2 ^ 10 \<and> unat (h ! 2) < 2 ^ 42"

definition r_ok :: "u64 list \<Rightarrow> bool" where
  "r_ok r \<longleftrightarrow> length r = 3 \<and> unat (r ! 0) < 2 ^ 44 \<and> unat (r ! 1) < 2 ^ 44 \<and> unat (r ! 2) < 2 ^ 42"

text \<open>Multiplication with the folding of \<open>2 ^ 132\<close> into 20, on numbers.\<close>

lemma limb_product:
  fixes a0 a1 a2 r0 r1 r2 :: nat
  shows "(a0 + 2 ^ 44 * a1 + 2 ^ 88 * a2) * (r0 + 2 ^ 44 * r1 + 2 ^ 88 * r2)
    = (a0 * r0 + a1 * (20 * r2) + a2 * (20 * r1)) + 2 ^ 44 * (a0 * r1 + a1 * r0 + a2 * (20 * r2))
      + 2 ^ 88 * (a0 * r2 + a1 * r1 + a2 * r0)
      + poly_p * (4 * (a1 * r2 + a2 * r1) + 2 ^ 44 * (4 * (a2 * r2)))"
  by (simp add: algebra_simps)

text \<open>The carry propagation after the products, on numbers.\<close>

lemma limb_carries:
  fixes d0 d1 d2 :: nat
  defines "e1 \<equiv> d1 + d0 div 2 ^ 44" 
  defines "e2 \<equiv> d2 + e1 div 2 ^ 44"
  defines "f0 \<equiv> d0 mod 2 ^ 44 + e2 div 2 ^ 42 * 5"
  shows "d0 + 2 ^ 44 * d1 + 2 ^ 88 * d2 =
    f0 mod 2 ^ 44 + 2 ^ 44 * (e1 mod 2 ^ 44 + f0 div 2 ^ 44) + 2 ^ 88 * (e2 mod 2 ^ 42) + poly_p * (e2 div 2 ^ 42)"
proof -
  have lin: "d0 + 17592186044416 * d1 + 309485009821345068724781056 * d2 =
      m3 + 17592186044416 * (m1 + q3) + 309485009821345068724781056 * m2 + 1361129467683753853853498429727072845819 * q2"
    if "d0 = 17592186044416 * q0 + m0" "e1 = d1 + q0" "e1 = 17592186044416 * q1 + m1" "e2 = d2 + q1"
      "e2 = 4398046511104 * q2 + m2" "f0 = m0 + q2 * 5" "f0 = 17592186044416 * q3 + m3"
    for q0 q1 q2 q3 m0 m1 m2 m3 :: nat
  proof -
    have "d0 + 17592186044416 * d1 = m0 + 17592186044416 * e1" using that(1,2) by simp
    also have "\<dots> = m0 + 17592186044416 * m1 + 309485009821345068724781056 * q1" using that(3) by simp
    finally have "d0 + 17592186044416 * d1 + 309485009821345068724781056 * d2
        = m0 + 17592186044416 * m1 + 309485009821345068724781056 * e2" using that(4) by simp
    also have "\<dots> = f0 + 17592186044416 * m1 + 309485009821345068724781056 * m2 + 1361129467683753853853498429727072845819 * q2"
      using that(5,6) by simp
    finally show ?thesis using that(7) by simp
  qed
  have e: "e1 = d1 + d0 div 17592186044416" "e2 = d2 + e1 div 17592186044416"
    "f0 = d0 mod 17592186044416 + e2 div 4398046511104 * 5"
    by (simp_all add: e1_def e2_def f0_def)
  note dm = mult_div_mod_eq [symmetric]
  from lin [OF dm e(1) dm e(2) dm e(3) dm] show ?thesis
    by simp
qed


subsection \<open>One block\<close>

lemma block_limbs:
  assumes "length m = 16"
  shows "unat (load64_le m) + 2 ^ 64 * unat (load64_le (drop 8 m)) = le_nat m"
proof -
  have "store64_le (load64_le m) = take 8 m" "store64_le (load64_le (drop 8 m)) = drop 8 m"
    using assms store64_le_load [of "take 8 m"] by (simp_all add: load64_le_take)
  then have "le_nat (take 8 m) = unat (load64_le m)" "le_nat (drop 8 m) = unat (load64_le (drop 8 m))"
    by (metis le_nat_store(1))+
  then show ?thesis
    using le_nat_append [of "take 8 m" "drop 8 m"] assms by simp
qed

lemma limbs_of_words: "t0 mod 2 ^ 44 + 2 ^ 44 * (t0 div 2 ^ 44 + 2 ^ 20 * (t1 mod 2 ^ 24)) + 2 ^ 88 * (t1 div 2 ^ 24)
   = t0 + 2 ^ 64 * (t1 :: nat)"
proof -
  have "m0 + 2 ^ 44 * (q0 + 2 ^ 20 * m1) + 2 ^ 88 * q1 = (2 ^ 44 * q0 + m0) + 2 ^ 64 * (2 ^ 24 * q1 + m1)"
    for m0 q0 m1 q1 :: nat
    by (simp add: algebra_simps)
  then show ?thesis using mult_div_mod_eq by metis
qed

text \<open>The low bits of a double-width product, and its carry.\<close>

lemma unat_low_44 [limb_nat]: "unat ((ucast (d :: u128) :: u64) AND 0xfffffffffff) = unat d mod 2 ^ 44"
  by (simp add: unat_and_44 unat_u64_of_u128 mod_mod_cancel)

lemma unat_low_42 [limb_nat]: "unat ((ucast (d :: u128) :: u64) AND 0x3ffffffffff) = unat d mod 2 ^ 42"
  by (simp add: unat_and_42 unat_u64_of_u128 mod_mod_cancel)

lemma carry_bounds:
  fixes d0 d1 d2 :: nat
  assumes d: "d0 < 2 ^ 95" "d1 < 2 ^ 95" "d2 < 2 ^ 92"
  defines "e1 \<equiv> d1 + d0 div 2 ^ 44" 
  defines "e2 \<equiv> d2 + e1 div 2 ^ 44"
  defines "f0 \<equiv> d0 mod 2 ^ 44 + e2 div 2 ^ 42 * 5"
  shows "d0 div 2 ^ 44 < 2 ^ 51" "e1 div 2 ^ 44 < 2 ^ 52" "e2 div 2 ^ 42 < 2 ^ 51" "e1 < 2 ^ 96" "e2 < 2 ^ 93"
    "f0 < 2 ^ 54" "f0 div 2 ^ 44 < 2 ^ 10"
proof -
  show q0: "d0 div 2 ^ 44 < 2 ^ 51" using d(1) by (simp add: less_mult_imp_div_less)
  show e1: "e1 < 2 ^ 96" using d(2) q0 by (simp add: e1_def)
  then show q1: "e1 div 2 ^ 44 < 2 ^ 52" by (simp add: less_mult_imp_div_less)
  then show e2: "e2 < 2 ^ 93" using d(3) by (simp add: e2_def)
  then show q2: "e2 div 2 ^ 42 < 2 ^ 51" by (simp add: less_mult_imp_div_less)
  have "d0 mod 2 ^ 44 \<le> 2 ^ 44 - 1" by (rule mod_le_pred) simp
  then show "f0 < 2 ^ 54" using q2 by (simp add: f0_def)
  then show "f0 div 2 ^ 44 < 2 ^ 10" by (simp add: less_mult_imp_div_less)
qed

lemma poly1305_partial_reduce_correct:
  assumes d: "unat d0 < 2 ^ 95" "unat d1 < 2 ^ 95" "unat d2 < 2 ^ 92"
  shows "h_ok (poly1305_partial_reduce d0 d1 d2)"
    and "limbs (poly1305_partial_reduce d0 d1 d2) mod poly_p = (unat d0 + 2 ^ 44 * unat d1 + 2 ^ 88 * unat d2) mod poly_p"
proof -
  define e1 where "e1 = unat d1 + unat d0 div 2 ^ 44"
  define e2 where "e2 = unat d2 + e1 div 2 ^ 44"
  define f0 where "f0 = unat d0 mod 2 ^ 44 + e2 div 2 ^ 42 * 5"
  note q = carry_bounds [OF d, folded e1_def, folded e2_def, folded f0_def]
  define E1 where "E1 = d1 + ucast (ucast (drop_bit 44 d0) :: u64)"
  define E2 where "E2 = d2 + ucast (ucast (drop_bit 44 E1) :: u64)"
  define F0 where "F0 = ((ucast d0 :: u64) AND 0xfffffffffff) + ucast (drop_bit 42 E2) * 5"
  have E1: "unat E1 = e1"
    using q unfolding E1_def e1_def by (subst unat_sum_small) (simp_all add: unat_carry_out unat_u128_of_u64)
  have E2: "unat E2 = e2"
    using q unfolding E2_def e2_def by (subst unat_sum_small) (simp_all add: unat_carry_out unat_u128_of_u64 E1)
  have C2: "unat (ucast (drop_bit 42 E2) * 5 :: u64) = e2 div 2 ^ 42 * 5"
    using q(3) by (simp add: unat_word_ariths(2) unat_carry_out E2)
  have F0: "unat F0 = f0"
    using q(6) unfolding F0_def f0_def by (subst unat_sum_small) (simp_all add: unat_low_44 C2)
  have H1: "unat (((ucast E1 :: u64) AND 0xfffffffffff) + drop_bit 44 F0) = e1 mod 2 ^ 44 + f0 div 2 ^ 44"
    using q(7) mod_le_pred [of "2 ^ 44" e1] by (subst unat_sum_small) (simp_all add: unat_low_44 E1 F0 unat_shr)
  have eq: "poly1305_partial_reduce d0 d1 d2
      = [F0 AND 0xfffffffffff, ((ucast E1 :: u64) AND 0xfffffffffff) + drop_bit 44 F0, ucast E2 AND 0x3ffffffffff]"
    by (simp add: poly1305_partial_reduce_def Let_def E1_def E2_def F0_def)
  show "h_ok (poly1305_partial_reduce d0 d1 d2)"
    using q(7) mod_le_pred [of "2 ^ 44" e1] unfolding eq h_ok_def by (simp add: H1 unat_and_44 unat_low_42)
  show "limbs (poly1305_partial_reduce d0 d1 d2) mod poly_p = (unat d0 + 2 ^ 44 * unat d1 + 2 ^ 88 * unat d2) mod poly_p"
    unfolding limb_carries [of "unat d0" "unat d1" "unat d2", folded e1_def, folded e2_def, folded f0_def] eq limbs_def
    by (simp add: H1 unat_and_44 unat_low_42 E2 F0)
qed

lemma product_bounds:
  fixes a0 a1 a2 r0 r1 r2 :: nat
  assumes a: "a0 < 2 ^ 45" "a1 < 2 ^ 46" "a2 < 2 ^ 43" and r: "r0 < 2 ^ 44" "r1 < 2 ^ 44" "r2 < 2 ^ 42"
  shows "a0 * r0 + a1 * (20 * r2) + a2 * (20 * r1) < 2 ^ 95" "a0 * r1 + a1 * r0 + a2 * (20 * r2) < 2 ^ 95"
    "a0 * r2 + a1 * r1 + a2 * r0 < 2 ^ 92"
proof -
  have s: "20 * r1 < 2 ^ 49" "20 * r2 < 2 ^ 47" using r by simp_all
  show "a0 * r0 + a1 * (20 * r2) + a2 * (20 * r1) < 2 ^ 95" "a0 * r1 + a1 * r0 + a2 * (20 * r2) < 2 ^ 95"
    "a0 * r2 + a1 * r1 + a2 * r0 < 2 ^ 92"
    using limb_mult_mono [OF a(1) r(1)] limb_mult_mono [OF a(2) s(2)] limb_mult_mono [OF a(3) s(1)]
      limb_mult_mono [OF a(1) r(2)] limb_mult_mono [OF a(2) r(1)] limb_mult_mono [OF a(3) s(2)]
      limb_mult_mono [OF a(1) r(3)] limb_mult_mono [OF a(2) r(2)] limb_mult_mono [OF a(3) r(1)]
    by simp_all
qed

lemma unat_MUL3: "unat a * unat b + unat c * unat d + unat e * unat f < 2 ^ 128 \<Longrightarrow>
  unat (MUL a b + MUL c d + MUL e f) = unat a * unat b + unat c * unat d + unat e * unat f"
  by (simp add: unat_sum_small unat_MUL)

lemma message_limb_bounds:
  fixes t0 t1 :: u64
  assumes hibit: "hibit = 0 \<or> hibit = push_bit 40 (1 :: u64)"
  shows "unat t0 mod 2 ^ 44 \<le> 2 ^ 44 - 1" "unat t0 div 2 ^ 44 + 2 ^ 20 * (unat t1 mod 2 ^ 24) < 2 ^ 44"
    "unat t1 div 2 ^ 24 + unat hibit \<le> 2 ^ 41"
proof -
  show "unat t0 mod 2 ^ 44 \<le> 2 ^ 44 - 1" by (rule mod_le_pred) simp
  have "unat t0 div 2 ^ 44 < 2 ^ 20" "unat t1 div 2 ^ 24 < 2 ^ 40"
    using u64_bound [of t0] u64_bound [of t1] by (simp_all add: less_mult_imp_div_less)
  moreover have "unat t1 mod 2 ^ 24 \<le> 2 ^ 24 - 1" by (rule mod_le_pred) simp
  moreover have "unat hibit \<le> 2 ^ 40" using hibit by auto
  ultimately show "unat t0 div 2 ^ 44 + 2 ^ 20 * (unat t1 mod 2 ^ 24) < 2 ^ 44" "unat t1 div 2 ^ 24 + unat hibit \<le> 2 ^ 41"
    by simp_all
qed

text \<open>One iteration adds the block with its high bit and multiplies by the key.\<close>

lemma poly1305_block_step:
  assumes h: "h_ok h" and r: "r_ok r" and hibit: "hibit = 0 \<or> hibit = push_bit 40 1" and m: "length m = 16"
  shows "h_ok (poly1305_block hibit r h m)"
    and "limbs (poly1305_block hibit r h m) mod poly_p
      = ((limbs h + le_nat m + 2 ^ 88 * unat hibit) * limbs r) mod poly_p"
proof -
  define t0 t1 where "t0 = load64_le m" and "t1 = load64_le (drop 8 m)"
  define h0 h1 h2 where "h0 = h ! 0 + (t0 AND 0xfffffffffff)"
    and "h1 = h ! 1 + ((drop_bit 44 t0 OR push_bit 20 t1) AND 0xfffffffffff)"
    and "h2 = h ! 2 + ((drop_bit 24 t1 AND 0x3ffffffffff) OR hibit)"
  define s1 s2 where "s1 = r ! 1 * push_bit 2 5" and "s2 = r ! 2 * push_bit 2 5"
  define D0 D1 D2 where "D0 = MUL h0 (r ! 0) + MUL h1 s2 + MUL h2 s1"
    and "D1 = MUL h0 (r ! 1) + MUL h1 (r ! 0) + MUL h2 s2"
    and "D2 = MUL h0 (r ! 2) + MUL h1 (r ! 1) + MUL h2 (r ! 0)"
  note x = message_limb_bounds(1) [OF hibit, of t0] message_limb_bounds(2) [OF hibit, of t0 t1]
    message_limb_bounds(3) [OF hibit, of t1]
  have hn: "unat h0 = unat (h ! 0) + unat t0 mod 2 ^ 44"
    "unat h1 = unat (h ! 1) + (unat t0 div 2 ^ 44 + 2 ^ 20 * (unat t1 mod 2 ^ 24))"
    "unat h2 = unat (h ! 2) + (unat t1 div 2 ^ 24 + unat hibit)"
    using h x unfolding h0_def h1_def h2_def h_ok_def
    by ((subst unat_sum_small; simp add: unat_and_44), (subst unat_sum_small; simp add: unat_limb_1),
      (subst unat_sum_small; simp add: unat_limb_2 [OF hibit]))
  have hb: "unat h0 < 2 ^ 45" "unat h1 < 2 ^ 46" "unat h2 < 2 ^ 43"
    using h x unfolding hn h_ok_def by simp_all
  have rb: "unat (r ! 0) < 2 ^ 44" "unat (r ! 1) < 2 ^ 44" "unat (r ! 2) < 2 ^ 42" using r by (simp_all add: r_ok_def)
  have sn: "unat s1 = 20 * unat (r ! 1)" "unat s2 = 20 * unat (r ! 2)"
    using rb unfolding s1_def s2_def by (simp_all add: unat_word_ariths)
  note b = product_bounds [OF hb rb, folded sn]
  have dn: "unat D0 = unat h0 * unat (r ! 0) + unat h1 * unat s2 + unat h2 * unat s1"
    "unat D1 = unat h0 * unat (r ! 1) + unat h1 * unat (r ! 0) + unat h2 * unat s2"
    "unat D2 = unat h0 * unat (r ! 2) + unat h1 * unat (r ! 1) + unat h2 * unat (r ! 0)"
    unfolding D0_def D1_def D2_def using b by (simp_all add: unat_MUL3)
  have eq: "poly1305_block hibit r h m = poly1305_partial_reduce D0 D1 D2"
    by (simp add: poly1305_block_def Let_def D0_def D1_def D2_def s1_def s2_def h0_def h1_def h2_def t0_def t1_def)
  show "h_ok (poly1305_block hibit r h m)"
    unfolding eq using b unfolding dn [symmetric] by (rule poly1305_partial_reduce_correct)
  have "limbs h + le_nat m + 2 ^ 88 * unat hibit = unat h0 + 2 ^ 44 * unat h1 + 2 ^ 88 * unat h2"
    using limbs_of_words [of "unat t0" "unat t1"] block_limbs [OF m]
    unfolding hn limbs_def t0_def t1_def by (simp add: algebra_simps)
  then have "((limbs h + le_nat m + 2 ^ 88 * unat hibit) * limbs r) mod poly_p
      = (unat D0 + 2 ^ 44 * unat D1 + 2 ^ 88 * unat D2) mod poly_p"
    unfolding dn sn limbs_def [of r] by (simp only: limb_product mod_mult_self2)
  then show "limbs (poly1305_block hibit r h m) mod poly_p
      = ((limbs h + le_nat m + 2 ^ 88 * unat hibit) * limbs r) mod poly_p"
    unfolding eq using poly1305_partial_reduce_correct(2) [of D0 D1 D2] b unfolding dn [symmetric] by simp
qed

subsection \<open>The key\<close>

text \<open>Masking numbers limb by limb.\<close>

lemma and_split:
  fixes a b c d :: nat
  assumes "a < 2 ^ k" "c < 2 ^ k"
  shows "(a + 2 ^ k * b) AND (c + 2 ^ k * d) = (a AND c) + 2 ^ k * (b AND d)"
proof -
  let ?X = "(a + 2 ^ k * b) AND (c + 2 ^ k * d)"
  have "?X mod 2 ^ k = a AND c" "?X div 2 ^ k = b AND d"
    using assms unfolding take_bit_eq_mod [symmetric] drop_bit_eq_div [symmetric] take_bit_and drop_bit_and
    by (simp_all add: take_bit_eq_mod drop_bit_eq_div)
  then show ?thesis using mod_mult_div_eq [of ?X "2 ^ k"] by simp
qed

lemma and_low: "c < 2 ^ k \<Longrightarrow> a mod 2 ^ k AND c = a AND (c :: nat)"
  by (metis take_bit_and take_bit_eq_mod take_bit_nat_eq_self and.commute and.left_commute take_bit_eq_mask and.idem)

definition poly_r :: "byte list \<Rightarrow> nat" where
  "poly_r key = le_nat (take 16 key) AND 0x0ffffffc0ffffffc0ffffffc0fffffff"

definition poly_s :: "byte list \<Rightarrow> nat" where
  "poly_s key = le_nat (take 16 (drop 16 key))"

lemma poly_r_limbs: "0x0ffffffc0ffffffc0ffffffc0fffffff
  = (0xffc0fffffff + 2 ^ 44 * (0xfffffc0ffff + 2 ^ 44 * 0x00ffffffc0f) :: nat)"
  by simp

lemma poly1305_clamp_correct:
  assumes "32 \<le> length key"
  shows "r_ok (poly1305_clamp key)" "limbs (poly1305_clamp key) = poly_r key"
proof -
  define t0 t1 where "t0 = load64_le key" and "t1 = load64_le (drop 8 key)"
  define r0 r1 r2 where "r0 = t0 AND 0xffc0fffffff" and "r1 = (drop_bit 44 t0 OR push_bit 20 t1) AND 0xfffffc0ffff"
    and "r2 = drop_bit 24 t1 AND 0x00ffffffc0f"
  define x1 where "x1 = unat t0 div 2 ^ 44 + 2 ^ 20 * (unat t1 mod 2 ^ 24)"
  have r: "poly1305_clamp key = [r0, r1, r2]"
    by (simp add: poly1305_clamp_def Let_def r0_def r1_def r2_def t0_def t1_def)
  have x1: "x1 < 2 ^ 44" using message_limb_bounds(2) [of 0 t0 t1] by (simp add: x1_def)
  have u0: "unat r0 = unat t0 mod 2 ^ 44 AND 0xffc0fffffff"
    using and_low [of "0xffc0fffffff" 44 "unat t0"] by (simp add: r0_def unsigned_and_eq)
  have "unat r1 = unat (drop_bit 44 t0 OR push_bit 20 t1) mod 2 ^ 44 AND 0xfffffc0ffff"
    using and_low [of "0xfffffc0ffff" 44 "unat (drop_bit 44 t0 OR push_bit 20 t1)"] by (simp add: r1_def unsigned_and_eq)
  then have u1: "unat r1 = x1 AND 0xfffffc0ffff" unfolding x1_def unat_limb_1 [symmetric] unat_and_44 .
  have u2: "unat r2 = unat t1 div 2 ^ 24 AND 0x00ffffffc0f"
    by (simp add: r2_def unsigned_and_eq unat_shr)
  show "limbs (poly1305_clamp key) = poly_r key"
  proof -
    have "le_nat (take 16 key) = unat t0 + 2 ^ 64 * unat t1"
      using block_limbs [of "take 16 key"] assms load64_le_take [of "drop 8 (take 16 key)"] load64_le_take [of "take 16 key"]
      by (simp add: t0_def t1_def load64_le_take drop_take)
    also have "\<dots> = unat t0 mod 2 ^ 44 + 2 ^ 44 * (x1 + 2 ^ 44 * (unat t1 div 2 ^ 24))"
      unfolding limbs_of_words [symmetric] x1_def by simp
    finally have "poly_r key = (unat t0 mod 2 ^ 44 + 2 ^ 44 * (x1 + 2 ^ 44 * (unat t1 div 2 ^ 24)))
        AND (0xffc0fffffff + 2 ^ 44 * (0xfffffc0ffff + 2 ^ 44 * 0x00ffffffc0f))"
      by (simp only: poly_r_def poly_r_limbs)
    also have "\<dots> = unat r0 + 2 ^ 44 * (unat r1 + 2 ^ 44 * unat r2)"
      unfolding u0 u1 u2 by (subst and_split, simp, simp, subst and_split [OF x1], simp, rule refl)
    finally show ?thesis by (simp add: r limbs_def)
  qed
  show "r_ok (poly1305_clamp key)"
    using word_and_le1 [of t0 "0xffc0fffffff"] word_and_le1 [of "drop_bit 44 t0 OR push_bit 20 t1" "0xfffffc0ffff"]
      word_and_le1 [of "drop_bit 24 t1" "0x00ffffffc0f"]
    unfolding r r_ok_def r0_def r1_def r2_def word_le_nat_alt by simp
qed

subsection \<open>The accumulator\<close>

text \<open>The specification: each 16-byte block, and the last shorter one, is extended by a one
  byte, added to the accumulator and multiplied by \<open>r\<close> modulo \<open>2 ^ 130 - 5\<close>.\<close>

function poly_acc :: "nat \<Rightarrow> nat \<Rightarrow> byte list \<Rightarrow> nat" where
  "poly_acc r a m = (if m = [] then a else poly_acc r ((a + le_nat (take 16 m @ [1])) * r mod poly_p) (drop 16 m))"
  by pat_completeness auto
termination
  by (relation "measure (\<lambda>(r, a, m). length m)") auto

declare poly_acc.simps [simp del]

definition poly1305_spec :: "byte list \<Rightarrow> byte list \<Rightarrow> byte list" where
  "poly1305_spec key m = le_bytes 16 (poly_acc (poly_r key) 0 m + poly_s key)"

lemma poly_acc_Nil [simp]: "poly_acc r a [] = a"
  by (simp add: poly_acc.simps)

abbreviation full_block :: "u64 list \<Rightarrow> u64 list \<Rightarrow> byte list \<Rightarrow> u64 list" where
  "full_block \<equiv> poly1305_block (push_bit 40 1)"

lemma mod_add_mult_left: "((a mod p + x) * y) mod p = ((a + x) * y) mod (p :: nat)"
  by (metis mod_add_left_eq mod_mult_left_eq)

lemma full_block_step:
  assumes "h_ok h" "r_ok r" "length m = 16"
  shows "h_ok (full_block r h m)"
    and "limbs (full_block r h m) mod poly_p = (limbs h mod poly_p + le_nat (m @ [1])) * limbs r mod poly_p"
  using poly1305_block_step [OF assms(1,2) disjI2 [OF refl] assms(3)] assms(3)
  by (simp_all only: mod_add_mult_left le_nat_append) (simp_all add: add.assoc)

lemma blocks_fold_poly:
  assumes "r_ok r"
  shows "h_ok h \<Longrightarrow> h_ok (blocks_fold 16 (full_block r) h m)
    \<and> poly_acc (limbs r) (limbs (blocks_fold 16 (full_block r) h m) mod poly_p) (tail_bytes 16 m)
      = poly_acc (limbs r) (limbs h mod poly_p) m"
proof (induction m arbitrary: h rule: length_induct)
  case (1 m)
  show ?case
  proof (cases "length m < 16")
    case True
    then show ?thesis using "1.prems" by simp
  next
    case False
    let ?b = "take 16 m" and ?m = "drop 16 m"
    have m: "m = ?b @ ?m" and b: "length ?b = 16" using False by auto
    note s = full_block_step [OF "1.prems" assms b]
    have "blocks_fold 16 (full_block r) h m = blocks_fold 16 (full_block r) (full_block r h ?b) ?m"
      "tail_bytes 16 m = tail_bytes 16 ?m"
      using blocks_fold_block [OF b] tail_bytes_block [OF b] m by (metis zero_less_numeral)+
    moreover have "poly_acc (limbs r) (limbs h mod poly_p) m = poly_acc (limbs r) (limbs (full_block r h ?b) mod poly_p) ?m"
      using False unfolding s(2) by (subst poly_acc.simps) auto
    ultimately show ?thesis using "1.IH" s(1) False by simp
  qed
qed

text \<open>The last, incomplete block.\<close>

lemma last_block_step:
  assumes "h_ok h" "r_ok r" "m \<noteq> []" "length m < 16"
  shows "h_ok (poly1305_block 0 r h (m @ 1 # replicate (15 - length m) 0))"
    and "limbs (poly1305_block 0 r h (m @ 1 # replicate (15 - length m) 0)) mod poly_p
      = poly_acc (limbs r) (limbs h mod poly_p) m"
proof -
  let ?b = "m @ 1 # replicate (15 - length m) 0"
  have b: "length ?b = 16" using assms by simp
  have "le_nat ?b = le_nat (m @ [1])" by (simp add: le_nat_append)
  moreover have "poly_acc (limbs r) (limbs h mod poly_p) m = (limbs h + le_nat (m @ [1])) * limbs r mod poly_p"
    using assms(3,4) by (subst poly_acc.simps) (simp add: mod_add_mult_left)
  ultimately show "limbs (poly1305_block 0 r h ?b) mod poly_p = poly_acc (limbs r) (limbs h mod poly_p) m"
    using poly1305_block_step(2) [OF assms(1,2) disjI1 [OF refl] b] by simp
  show "h_ok (poly1305_block 0 r h ?b)" by (rule poly1305_block_step(1) [OF assms(1,2) disjI1 [OF refl] b])
qed

subsection \<open>Final reduction and tag\<close>

text \<open>The carry chain is the same pass twice.\<close>

definition carry_pass :: "u64 list \<Rightarrow> u64 list" where
  "carry_pass h =
    (let h2 = h ! 2 + drop_bit 44 (h ! 1); h0 = h ! 0 + drop_bit 42 h2 * 5
     in [h0 AND 0xfffffffffff, (h ! 1 AND 0xfffffffffff) + drop_bit 44 h0, h2 AND 0x3ffffffffff])"

lemma poly1305_carry_passes: "poly1305_carry h = carry_pass (carry_pass h)"
  by (simp add: poly1305_carry_def carry_pass_def Let_def)

lemma carry_pass_step:
  assumes "length h = 3" "unat (h ! 0) < 2 ^ 44" "unat (h ! 1) < 2 ^ 45" "unat (h ! 2) < 2 ^ 42"
  defines "e2 \<equiv> unat (h ! 2) + unat (h ! 1) div 2 ^ 44"
  defines "f0 \<equiv> unat (h ! 0) + e2 div 2 ^ 42 * 5"
  shows "unat (carry_pass h ! 0) = f0 mod 2 ^ 44" "unat (carry_pass h ! 1) = unat (h ! 1) mod 2 ^ 44 + f0 div 2 ^ 44"
    "unat (carry_pass h ! 2) = e2 mod 2 ^ 42" "length (carry_pass h) = 3"
    "limbs (carry_pass h) mod poly_p = limbs h mod poly_p"
proof -
  define H2 where "H2 = h ! 2 + drop_bit 44 (h ! 1)"
  define H0 where "H0 = h ! 0 + drop_bit 42 H2 * 5"
  have c: "unat (h ! 1) div 2 ^ 44 < 2" using assms(3) by (simp add: less_mult_imp_div_less)
  have H2: "unat H2 = e2" using assms c unfolding H2_def e2_def by (subst unat_sum_small) (simp_all add: unat_shr)
  have e2: "e2 div 2 ^ 42 < 2" using assms(4) c unfolding e2_def by (simp add: less_mult_imp_div_less)
  then have "unat (drop_bit 42 H2 * 5) = e2 div 2 ^ 42 * 5" by (simp add: unat_word_ariths(2) unat_shr H2)
  then have H0: "unat H0 = f0" using assms(2) e2 unfolding H0_def f0_def by (subst unat_sum_small) simp_all
  have f0: "f0 div 2 ^ 44 < 2" using assms(2) e2 unfolding f0_def by (simp add: less_mult_imp_div_less)
  have eq: "carry_pass h = [H0 AND 0xfffffffffff, (h ! 1 AND 0xfffffffffff) + drop_bit 44 H0, H2 AND 0x3ffffffffff]"
    by (simp add: carry_pass_def Let_def H0_def H2_def)
  show u0: "unat (carry_pass h ! 0) = f0 mod 2 ^ 44" by (simp add: eq unat_and_44 H0)
  show u1: "unat (carry_pass h ! 1) = unat (h ! 1) mod 2 ^ 44 + f0 div 2 ^ 44"
    using f0 mod_le_pred [of "2 ^ 44" "unat (h ! 1)"] unfolding eq nth_Cons_Suc One_nat_def nth_Cons_0
    by (subst unat_sum_small) (simp_all add: unat_and_44 unat_shr H0)
  show u2: "unat (carry_pass h ! 2) = e2 mod 2 ^ 42" by (simp add: eq unat_and_42 H2)
  show "length (carry_pass h) = 3" by (simp add: eq)
  show "limbs (carry_pass h) mod poly_p = limbs h mod poly_p"
    unfolding limbs_def u0 u1 u2
    using limb_carries [of "unat (h ! 0)" "unat (h ! 1)" "unat (h ! 2)"]
    unfolding div_less [OF assms(2)] mod_less [OF assms(2)] add_0_right e2_def [symmetric] f0_def [symmetric]
    by (simp only: mod_mult_self2)
qed

text \<open>The limbs below their radices: the number is below \<open>2 ^ 130\<close>.\<close>

definition h_tight :: "u64 list \<Rightarrow> bool" where
  "h_tight h \<longleftrightarrow> length h = 3 \<and> unat (h ! 0) < 2 ^ 44 \<and> unat (h ! 1) < 2 ^ 44 \<and> unat (h ! 2) < 2 ^ 42"

lemma carry_twice_nat:
  fixes h0 h1 h2 :: nat
  assumes "h0 < 2 ^ 44" "h1 \<le> 2 ^ 44" "h2 < 2 ^ 42"
  defines "e2 \<equiv> h2 + h1 div 2 ^ 44"
  defines "f0 \<equiv> h0 + e2 div 2 ^ 42 * 5"
  shows "h1 mod 2 ^ 44 + f0 div 2 ^ 44 < 2 ^ 44"
proof (cases "h1 = 2 ^ 44")
  case True
  then have "e2 div 2 ^ 42 < 2" using assms(3) by (simp add: e2_def less_mult_imp_div_less)
  then have "f0 div 2 ^ 44 < 2" using assms(1) by (simp add: f0_def less_mult_imp_div_less)
  then show ?thesis using True by simp
next
  case False
  then have "h1 < 2 ^ 44" using assms(2) by simp
  then show ?thesis using assms(1,3) by (simp add: e2_def f0_def)
qed

lemma poly1305_carry_correct:
  assumes "h_ok h"
  shows "h_tight (poly1305_carry h)" "limbs (poly1305_carry h) mod poly_p = limbs h mod poly_p"
proof -
  let ?g = "carry_pass h"
  have h: "length h = 3" "unat (h ! 0) < 2 ^ 44" "unat (h ! 1) < 2 ^ 45" "unat (h ! 2) < 2 ^ 42"
    using assms by (simp_all add: h_ok_def)
  note s = carry_pass_step [OF h]
  have "(unat (h ! 0) + (unat (h ! 2) + unat (h ! 1) div 2 ^ 44) div 2 ^ 42 * 5) div 2 ^ 44 \<le> 1"
  proof -
    have "unat (h ! 1) div 2 ^ 44 < 2" using h(3) by (simp add: less_mult_imp_div_less)
    then have "(unat (h ! 2) + unat (h ! 1) div 2 ^ 44) div 2 ^ 42 < 2" using h(4) by (simp add: less_mult_imp_div_less)
    then have "(unat (h ! 0) + (unat (h ! 2) + unat (h ! 1) div 2 ^ 44) div 2 ^ 42 * 5) div 2 ^ 44 < 2"
      using h(2) by (simp add: less_mult_imp_div_less)
    then show ?thesis by simp
  qed
  then have g: "unat (?g ! 0) < 2 ^ 44" "unat (?g ! 1) \<le> 2 ^ 44" "unat (?g ! 2) < 2 ^ 42"
    using mod_le_pred [of "2 ^ 44" "unat (h ! 1)"] unfolding s by simp_all
  then have g1: "unat (?g ! 1) < 2 ^ 45" by simp
  note s' = carry_pass_step [OF s(4) g(1) g1 g(3)]
  show "h_tight (poly1305_carry h)"
    unfolding h_tight_def poly1305_carry_passes s' using carry_twice_nat [OF g] by simp
  show "limbs (poly1305_carry h) mod poly_p = limbs h mod poly_p"
    unfolding poly1305_carry_passes s' s ..
qed

lemma limbs_tight: "h_tight h \<Longrightarrow> limbs h < 2 ^ 130"
  by (simp add: h_tight_def limbs_def)

text \<open>The conditional subtraction.\<close>

lemma add_five_nat:
  fixes h0 h1 h2 :: nat
  defines "g1 \<equiv> h1 + (h0 + 5) div 2 ^ 44"
  shows "h0 + 2 ^ 44 * h1 + 2 ^ 88 * h2 + 5 = (h0 + 5) mod 2 ^ 44 + 2 ^ 44 * (g1 mod 2 ^ 44) + 2 ^ 88 * (h2 + g1 div 2 ^ 44)"
proof -
  have lin: "x = m0 + 2 ^ 44 * m1 + 2 ^ 88 * (h2 + q1)"
    if "h0 + 5 = m0 + 2 ^ 44 * q0" "h1 + q0 = m1 + 2 ^ 44 * q1" "x = h0 + 2 ^ 44 * h1 + 2 ^ 88 * h2 + 5"
    for m0 q0 m1 q1 x :: nat
  proof -
    have "x = m0 + 2 ^ 44 * (h1 + q0) + 2 ^ 88 * h2" using that(1,3) by simp
    then show ?thesis unfolding that(2) by simp
  qed
  show ?thesis unfolding g1_def by (rule lin [OF mod_mult_div_eq [symmetric] mod_mult_div_eq [symmetric] refl])
qed

lemma borrow_bit:
  assumes "unat (G :: u64) < 2 ^ 42"
  shows "drop_bit 63 (G - push_bit 42 1) = 1"
proof -
  have "unat (G - push_bit 42 1) = unat G + 2 ^ 64 - 2 ^ 42"
    using assms by (simp add: unat_sub_if_size word_size)
  then have "unat (drop_bit 63 (G - push_bit 42 1)) = 1"
    using assms unfolding unat_shr by (intro div_nat_eqI) simp_all
  then show ?thesis by (simp only: word_unat_eq_iff unsigned_1)
qed

lemma poly1305_reduce_correct:
  assumes "h_tight h"
  shows "h_tight (poly1305_reduce h)" "limbs (poly1305_reduce h) = limbs h mod poly_p"
proof -
  define G0 where "G0 = h ! 0 + 5"
  define G1 where "G1 = h ! 1 + drop_bit 44 G0"
  define G where "G = h ! 2 + drop_bit 44 G1"
  have h: "length h = 3" "unat (h ! 0) < 2 ^ 44" "unat (h ! 1) < 2 ^ 44" "unat (h ! 2) < 2 ^ 42"
    using assms by (simp_all add: h_tight_def)
  have G0: "unat G0 = unat (h ! 0) + 5" using h unfolding G0_def by (subst unat_sum_small) simp_all
  have c0: "unat G0 div 2 ^ 44 < 2" using h G0 by (simp add: less_mult_imp_div_less)
  have G1: "unat G1 = unat (h ! 1) + unat G0 div 2 ^ 44"
    using h c0 unfolding G1_def by (subst unat_sum_small) (simp_all add: unat_shr)
  have c1: "unat G1 div 2 ^ 44 < 2" using h c0 G1 by (simp add: less_mult_imp_div_less)
  have G: "unat G = unat (h ! 2) + unat G1 div 2 ^ 44"
    using h c1 unfolding G_def by (subst unat_sum_small) (simp_all add: unat_shr)
  have sum: "limbs h + 5 = unat G0 mod 2 ^ 44 + 2 ^ 44 * (unat G1 mod 2 ^ 44) + 2 ^ 88 * unat G"
    unfolding G G1 [symmetric] using add_five_nat [of "unat (h ! 0)" "unat (h ! 1)" "unat (h ! 2)"]
    unfolding G0 [symmetric] G1 [symmetric] by (simp add: limbs_def)
  define mask where "mask = drop_bit 63 (G - push_bit 42 1) - 1"
  have eq: "poly1305_reduce h = [(h ! 0 AND NOT mask) OR ((G0 AND 0xfffffffffff) AND mask),
      (h ! 1 AND NOT mask) OR ((G1 AND 0xfffffffffff) AND mask), (h ! 2 AND NOT mask) OR ((G - push_bit 42 1) AND mask)]"
    by (simp add: poly1305_reduce_def Let_def G0_def G1_def G_def mask_def add.assoc)
  have b: "unat G0 mod 2 ^ 44 \<le> 2 ^ 44 - 1" "unat G1 mod 2 ^ 44 \<le> 2 ^ 44 - 1" by (rule mod_le_pred, simp)+
  have "h_tight (poly1305_reduce h) \<and> limbs (poly1305_reduce h) = limbs h mod poly_p"
  proof (cases "unat G < 2 ^ 42")
    case True
    then have "mask = 0" unfolding mask_def using borrow_bit by simp
    moreover have "limbs h < poly_p" using sum b True by simp
    ultimately show ?thesis using assms unfolding eq by (simp add: h_tight_def limbs_def)
  next
    case False
    then have "unat G = 2 ^ 42" using G h c1 by simp
    then have G42: "G = push_bit 42 1" by (simp add: word_unat_eq_iff)
    then have "mask = -1" by (simp add: mask_def)
    then have r: "poly1305_reduce h = [G0 AND 0xfffffffffff, G1 AND 0xfffffffffff, 0]" by (simp add: eq G42)
    have "limbs h = limbs (poly1305_reduce h) + poly_p" "limbs (poly1305_reduce h) < poly_p"
      using sum b \<open>unat G = 2 ^ 42\<close> unfolding r limbs_def by (simp_all add: unat_and_44)
    then show ?thesis unfolding r h_tight_def by (simp add: unat_and_44)
  qed
  then show "h_tight (poly1305_reduce h)" "limbs (poly1305_reduce h) = limbs h mod poly_p" by simp_all
qed

text \<open>The two output words from the limbs.\<close>

lemma limbs_to_words:
  fixes h0 h1 h2 :: nat
  assumes "h0 < 2 ^ 44"
  shows "(h0 + 2 ^ 44 * h1 + 2 ^ 88 * h2) mod 2 ^ 128
    = h0 + 2 ^ 44 * (h1 mod 2 ^ 20) + 2 ^ 64 * ((h1 div 2 ^ 20 + 2 ^ 24 * h2) mod 2 ^ 64)"
proof -
  have lin: "h0 + 2 ^ 44 * h1 + 2 ^ 88 * h2 = (h0 + 2 ^ 44 * m) + 2 ^ 64 * (q + 2 ^ 24 * h2)"
    if "h1 = m + 2 ^ 20 * q" for m q :: nat unfolding that by simp
  have "h0 + 2 ^ 44 * h1 + 2 ^ 88 * h2 = (h0 + 2 ^ 44 * (h1 mod 2 ^ 20)) + 2 ^ 64 * (h1 div 2 ^ 20 + 2 ^ 24 * h2)"
    by (rule lin) (simp only: mod_mult_div_eq)
  moreover have "h0 + 2 ^ 44 * (h1 mod 2 ^ 20) < 2 ^ 64" using assms mod_le_pred [of "2 ^ 20" h1] by simp
  ultimately have "(h0 + 2 ^ 44 * h1 + 2 ^ 88 * h2) mod (2 ^ 64 * 2 ^ 64)
      = (h0 + 2 ^ 44 * (h1 mod 2 ^ 20)) + 2 ^ 64 * ((h1 div 2 ^ 20 + 2 ^ 24 * h2) mod 2 ^ 64)"
    by (simp only: mod_split_low)
  then show ?thesis by (simp only: flip: power_add) simp
qed

lemma poly1305_tag_words:
  fixes h0 h1 h2 :: u64
  assumes "unat h0 < 2 ^ 44" "unat h1 < 2 ^ 44"
  shows "store64_le (h0 OR push_bit 44 h1) @ store64_le (drop_bit 20 h1 OR push_bit 24 h2)
    = le_bytes 16 (unat h0 + 2 ^ 44 * unat h1 + 2 ^ 88 * unat h2)"
proof (rule le_nat_inject)
  have d: "unat (drop_bit 20 h1) < 2 ^ 24" using assms(2) unfolding unat_shr by (simp add: less_mult_imp_div_less)
  have "unat (drop_bit 20 h1 OR push_bit 24 h2) = (unat h1 div 2 ^ 20 + 2 ^ 24 * unat h2) mod (2 ^ 24 * 2 ^ 40)"
    using unat_or_disjoint [OF d, of h2] mod_split_low [OF d, of "unat h2" "2 ^ 40"] unfolding unat_shr by simp
  moreover have "unat (h0 OR push_bit 44 h1) = unat h0 + 2 ^ 44 * (unat h1 mod 2 ^ 20)"
    using unat_or_disjoint [OF assms(1), of h1] by simp
  ultimately show "le_nat (store64_le (h0 OR push_bit 44 h1) @ store64_le (drop_bit 20 h1 OR push_bit 24 h2))
      = le_nat (le_bytes 16 (unat h0 + 2 ^ 44 * unat h1 + 2 ^ 88 * unat h2))"
    using limbs_to_words [OF assms(1), of "unat h1" "unat h2"] by (simp add: le_nat_append le_nat_le_bytes)
qed simp

lemma le_bytes_16_cong: "x mod 2 ^ 128 = y mod 2 ^ 128 \<Longrightarrow> le_bytes 16 x = le_bytes 16 y"
  using le_bytes_mod [of 16 x] le_bytes_mod [of 16 y] by simp

lemma add_limbs_nat:
  fixes a0 a1 a2 b0 b1 b2 :: nat
  defines "g0 \<equiv> a0 + b0"
  defines "g1 \<equiv> a1 + (b1 + g0 div 2 ^ 44)"
  defines "g2 \<equiv> a2 + (b2 + g1 div 2 ^ 44)"
  shows "(g0 mod 2 ^ 44 + 2 ^ 44 * (g1 mod 2 ^ 44) + 2 ^ 88 * (g2 mod 2 ^ 42)) mod 2 ^ 128
    = (a0 + 2 ^ 44 * a1 + 2 ^ 88 * a2 + (b0 + 2 ^ 44 * b1 + 2 ^ 88 * b2)) mod 2 ^ 128"
proof -
  have lin: "a0 + 2 ^ 44 * a1 + 2 ^ 88 * a2 + (b0 + 2 ^ 44 * b1 + 2 ^ 88 * b2)
      = m0 + 2 ^ 44 * m1 + 2 ^ 88 * m2 + 2 ^ 128 * (4 * q2)"
    if "g0 = m0 + 2 ^ 44 * q0" "a1 + (b1 + q0) = m1 + 2 ^ 44 * q1" "a2 + (b2 + q1) = m2 + 2 ^ 42 * q2"
    for m0 q0 m1 q1 m2 q2 :: nat
  proof -
    have "a0 + 2 ^ 44 * a1 + 2 ^ 88 * a2 + (b0 + 2 ^ 44 * b1 + 2 ^ 88 * b2)
        = g0 + 2 ^ 44 * (a1 + b1) + 2 ^ 88 * (a2 + b2)" by (simp add: g0_def)
    also have "\<dots> = m0 + 2 ^ 44 * (a1 + (b1 + q0)) + 2 ^ 88 * (a2 + b2)" unfolding that(1) by simp
    also have "\<dots> = m0 + 2 ^ 44 * m1 + 2 ^ 88 * (a2 + (b2 + q1))" unfolding that(2) by simp
    finally show ?thesis unfolding that(3) by simp
  qed
  note dm = mod_mult_div_eq [symmetric]
  show ?thesis
    unfolding lin [OF dm dm dm, folded g1_def, folded g2_def] mod_mult_self2 ..
qed

lemma poly1305_tag_correct:
  assumes "h_tight h"
  shows "poly1305_tag h [t0, t1] = le_bytes 16 (limbs h + (unat t0 + 2 ^ 64 * unat t1))"
proof -
  define x1 x2 where "x1 = unat t0 div 2 ^ 44 + 2 ^ 20 * (unat t1 mod 2 ^ 24)" and "x2 = unat t1 div 2 ^ 24"
  define G0 where "G0 = h ! 0 + (t0 AND 0xfffffffffff)"
  define G1 where "G1 = h ! 1 + (((drop_bit 44 t0 OR push_bit 20 t1) AND 0xfffffffffff) + drop_bit 44 G0)"
  define G2 where "G2 = h ! 2 + ((drop_bit 24 t1 AND 0x3ffffffffff) + drop_bit 44 G1)"
  note h = assms [unfolded h_tight_def]
  note x = message_limb_bounds(1) [of 0 t0] message_limb_bounds(2) [of 0 t0 t1] message_limb_bounds(3) [of 0 t1]
  have x1: "x1 < 2 ^ 44" and x2: "x2 \<le> 2 ^ 41" using x by (simp_all add: x1_def x2_def)
  have G0: "unat G0 = unat (h ! 0) + unat t0 mod 2 ^ 44"
    using h x(1) unfolding G0_def by (subst unat_sum_small) (simp_all add: unat_and_44)
  have c0: "unat G0 div 2 ^ 44 < 2" using h x(1) unfolding G0 by (simp add: less_mult_imp_div_less)
  have "unat (((drop_bit 44 t0 OR push_bit 20 t1) AND 0xfffffffffff) + drop_bit 44 G0) = x1 + unat G0 div 2 ^ 44"
    using c0 x1 unfolding x1_def by (subst unat_sum_small; simp only: unat_limb_1 unat_shr; simp)
  then have G1: "unat G1 = unat (h ! 1) + (x1 + unat G0 div 2 ^ 44)"
    using c0 x1 h unfolding G1_def by (subst unat_sum_small) simp_all
  have c1: "unat G1 div 2 ^ 44 < 3" using h x1 c0 unfolding G1 by (simp add: less_mult_imp_div_less)
  have "unat ((drop_bit 24 t1 AND 0x3ffffffffff) + drop_bit 44 G1) = x2 + unat G1 div 2 ^ 44"
    using c1 x2 unfolding x2_def by (subst unat_sum_small) (simp_all add: unat_and_42 unat_shr)
  then have G2: "unat G2 = unat (h ! 2) + (x2 + unat G1 div 2 ^ 44)"
    using c1 x2 h unfolding G2_def by (subst unat_sum_small) simp_all
  have "poly1305_tag h [t0, t1] = le_bytes 16 (unat G0 mod 2 ^ 44 + 2 ^ 44 * (unat G1 mod 2 ^ 44) + 2 ^ 88 * (unat G2 mod 2 ^ 42))"
    using poly1305_tag_words [of "G0 AND 0xfffffffffff" "G1 AND 0xfffffffffff" "G2 AND 0x3ffffffffff"]
    unfolding poly1305_tag_def Let_def G2_def G1_def G0_def by (simp add: unat_and_44 unat_and_42)
  also have "\<dots> = le_bytes 16 (limbs h + (unat t0 mod 2 ^ 44 + 2 ^ 44 * x1 + 2 ^ 88 * x2))"
    unfolding limbs_def G2 G1 G0 by (rule le_bytes_16_cong) (rule add_limbs_nat)
  finally show ?thesis unfolding x1_def x2_def limbs_of_words .
qed

section \<open>Contexts\<close>

text \<open>What a context stands for: the key and the bytes it has absorbed.\<close>

definition poly_rep :: "byte list \<Rightarrow> poly1305_state_internal_t \<Rightarrow> byte list \<Rightarrow> bool" where
  "poly_rep key st m \<longleftrightarrow> 32 \<le> length key \<and> p_r st = poly1305_clamp key
     \<and> p_pad st = [load64_le (drop 16 key), load64_le (drop 24 key)]
     \<and> p_final st = 0 \<and> p_leftover st = length m mod 16
     \<and> buffered 16 (full_block (p_r st)) [0, 0, 0] m (p_h st) (p_buffer st)"

lemma poly_rep_init: "32 \<le> length key \<Longrightarrow> length (p_buffer st) = 16 \<Longrightarrow> poly_rep key (poly1305_init st key) []"
  by (simp add: poly_rep_def poly1305_init_def buffered_init)

lemma poly_rep_cong:
  assumes "poly_rep key st m" "p_r st' = p_r st" "p_pad st' = p_pad st" "p_final st' = p_final st"
    "p_leftover st' = length m' mod 16" "buffered 16 (full_block (p_r st)) [0, 0, 0] m' (p_h st') (p_buffer st')"
  shows "poly_rep key st' m'"
  using assms by (simp add: poly_rep_def)

lemma poly1305_blocks_full: "p_final st = 0 \<Longrightarrow>
  poly1305_blocks st m = st\<lparr>p_h := blocks_fold 16 (full_block (p_r st)) (p_h st) m\<rparr>"
  by (simp add: poly1305_blocks_def)

lemma p_pad_blocks: "p_pad (poly1305_blocks st m) = p_pad st"
  by (simp add: poly1305_blocks_def)

lemma drop_whole: "drop (length m - length m mod B) m = tail_bytes B m"
  by (simp add: tail_bytes_def minus_mod_eq_div_mult)

lemma blocks_fold_whole: "0 < B \<Longrightarrow> blocks_fold B f h (take (length m - length m mod B) m) = blocks_fold B f h m"
  using blocks_fold_aligned [of B "take (length m - length m mod B) m" f h "tail_bytes B m"]
    drop_whole [of m B] append_take_drop_id [of "length m - length m mod B" m]
  by (simp add: minus_mod_eq_mult_div)

text \<open>Absorbing into an empty buffer.\<close>

lemma buffered_aligned:
  assumes "buffered B f iv m h buf" "length m mod B = 0"
  shows "buffered B f iv (m @ c) (blocks_fold B f h c) (write_at buf 0 (tail_bytes B c))"
proof -
  have B: "0 < B" "length buf = B" "h = blocks_fold B f iv m" using assms by (simp_all add: buffered_def)
  have "tail_bytes B (m @ c) = tail_bytes B c"
    using tail_bytes_append [OF B(1), of m c] assms(2) by simp
  moreover have "(length m + length c) mod B = length c mod B" using assms(2) by (metis add_0 mod_add_left_eq)
  moreover have "length c mod B < B" using B by simp
  ultimately show ?thesis
    using B blocks_fold_aligned [OF B(1) assms(2), of f iv c] by (simp add: buffered_def take_write_at_0)
qed

definition poly_absorb :: "poly1305_state_internal_t \<Rightarrow> byte list \<Rightarrow> poly1305_state_internal_t" where
  "poly_absorb st m = st\<lparr>p_h := blocks_fold 16 (full_block (p_r st)) (p_h st) m,
     p_buffer := write_at (p_buffer st) 0 (tail_bytes 16 m), p_leftover := length m mod 16\<rparr>"

lemma poly_rep_absorb:
  "poly_rep key st m \<Longrightarrow> length m mod 16 = 0 \<Longrightarrow> poly_rep key (poly_absorb st c) (m @ c)"
  by (rule poly_rep_cong [of key st m])
    (auto simp: poly_absorb_def poly_rep_def buffered_aligned mod_add_left_eq [symmetric] simp del: mod_add_left_eq)

lemma tail_bytes_Nil: "tail_bytes B m = [] \<Longrightarrow> length m mod B = 0"
  by (metis length_tail_bytes list.size(3))

lemma poly1305_update_empty:
  assumes "p_leftover st = 0" "p_final st = 0"
  shows "poly1305_update_rest st m = poly_absorb st m" "poly1305_update st m = poly_absorb st m"
proof -
  show "poly1305_update_rest st m = poly_absorb st m"
    using assms by (cases "tail_bytes 16 m = []"; cases "length m < 16")
      (auto simp: poly1305_update_rest_def poly_absorb_def Let_def poly1305_blocks_full blocks_fold_whole drop_whole tail_bytes_Nil)
  then show "poly1305_update st m = poly_absorb st m" using assms(1) by (simp add: poly1305_update_def)
qed

text \<open>A partial buffer is filled first.\<close>

lemma poly1305_update_partial:
  assumes "p_leftover st \<noteq> 0" "p_leftover st + length c < 16"
  shows "poly1305_update st c = st\<lparr>p_buffer := write_at (p_buffer st) (p_leftover st) c, p_leftover := p_leftover st + length c\<rparr>"
  using assms by (simp add: poly1305_update_def Let_def)

definition poly_fill :: "poly1305_state_internal_t \<Rightarrow> byte list \<Rightarrow> poly1305_state_internal_t" where
  "poly_fill st c = (let buf = write_at (p_buffer st) (p_leftover st) c
     in st\<lparr>p_buffer := buf, p_h := full_block (p_r st) (p_h st) buf, p_leftover := 0\<rparr>)"

lemma poly1305_update_fill:
  assumes "p_leftover st \<noteq> 0" "p_leftover st < 16" "16 \<le> p_leftover st + length c" "p_final st = 0" "length (p_buffer st) = 16"
  shows "poly1305_update st c
    = poly1305_update_rest (poly_fill st (take (16 - p_leftover st) c)) (drop (16 - p_leftover st) c)"
proof -
  let ?w = "16 - p_leftover st"
  have w: "min ?w (length c) = ?w" using assms by simp
  have "blocks_fold 16 (full_block (p_r st)) (p_h st) (write_at (p_buffer st) (p_leftover st) (take ?w c))
      = full_block (p_r st) (p_h st) (write_at (p_buffer st) (p_leftover st) (take ?w c))"
    using assms by (intro blocks_fold_one) simp_all
  then show ?thesis
    using assms w by (simp add: poly1305_update_def poly_fill_def poly1305_blocks_full Let_def)
qed

lemma poly_rep_fill:
  assumes rep: "poly_rep key st m" and c: "length m mod 16 + length c = 16"
  shows "poly_rep key (poly_fill st c) (m @ c)"
proof -
  have b: "buffered 16 (full_block (p_r st)) [0, 0, 0] m (p_h st) (p_buffer st)" and l: "p_leftover st = length m mod 16"
    using rep unfolding poly_rep_def by blast+
  note f = blocks_fold_fill(1) [OF _ c, of "full_block (p_r st)" "[0, 0, 0]"] blocks_fold_fill(2) [OF _ c]
  have "write_at (p_buffer st) (p_leftover st) c = tail_bytes 16 m @ c" unfolding l by (rule buffered_fill [OF b c])
  then have "buffered 16 (full_block (p_r st)) [0, 0, 0] (m @ c) (p_h (poly_fill st c)) (p_buffer (poly_fill st c))"
    using b c f by (simp add: buffered_def poly_fill_def Let_def)
  then show ?thesis
    using f(2) by (intro poly_rep_cong [OF rep]) (simp_all add: poly_fill_def Let_def)
qed

lemma poly_rep_update:
  assumes rep: "poly_rep key st m"
  shows "poly_rep key (poly1305_update st c) (m @ c)"
proof -
  have r: "p_leftover st = length m mod 16" "p_final st = 0" "length (p_buffer st) = 16"
    and b: "buffered 16 (full_block (p_r st)) [0, 0, 0] m (p_h st) (p_buffer st)"
    using rep unfolding poly_rep_def buffered_def by blast+
  consider (empty) "length m mod 16 = 0" | (part) "length m mod 16 \<noteq> 0" "length m mod 16 + length c < 16"
    | (fill) "length m mod 16 \<noteq> 0" "16 \<le> length m mod 16 + length c" by linarith
  then show ?thesis
  proof cases
    case empty
    then show ?thesis using r poly_rep_absorb [OF rep] by (simp add: poly1305_update_empty)
  next
    case part
    note p = blocks_fold_partial(1) [OF _ part(2), of "full_block (p_r st)" "[0, 0, 0]"] blocks_fold_partial(2,3) [OF _ part(2)]
    show ?thesis
      using part r b p unfolding poly1305_update_partial [of st c, unfolded r(1), OF part]
      by (intro poly_rep_cong [OF rep]) (simp_all add: buffered_def take_write_at)
  next
    case fill
    let ?w = "16 - length m mod 16"
    have "length m mod 16 + length (take ?w c) = 16" using fill by simp
    note f = poly_rep_fill [OF rep this]
    have "length (m @ take ?w c) mod 16 = 0"
      using f by (simp add: poly_rep_def poly_fill_def Let_def)
    note a = poly_rep_absorb [OF f this, of "drop ?w c"]
    have "poly1305_update st c = poly_absorb (poly_fill st (take ?w c)) (drop ?w c)"
      using fill r by (subst poly1305_update_fill) (simp_all add: poly1305_update_empty poly_fill_def Let_def)
    then show ?thesis using a by simp
  qed
qed

lemma poly1305_finish_tag:
  assumes rep: "poly_rep key st m"
  shows "snd (poly1305_finish st) = poly1305_spec key m"
proof -
  let ?r = "poly1305_clamp key" and ?t = "tail_bytes 16 m"
  define h where "h = p_h (if p_leftover st \<noteq> 0
               then let buf = write_at (p_buffer st) (p_leftover st) (1 # replicate (16 - (p_leftover st + 1)) 0)
                    in poly1305_blocks (st\<lparr>p_buffer := buf, p_final := 1\<rparr>) buf
               else st)"
  have k: "32 \<le> length key" and l: "p_leftover st = length m mod 16" and r: "p_r st = ?r"
    and pad: "p_pad st = [load64_le (drop 16 key), load64_le (drop 24 key)]"
    and buf: "length (p_buffer st) = 16" "take (length m mod 16) (p_buffer st) = ?t"
    and b: "p_h st = blocks_fold 16 (full_block ?r) [0, 0, 0] m"
    using rep by (simp_all add: poly_rep_def buffered_def)
  note rk = poly1305_clamp_correct [OF k]
  have "h_ok [0, 0, 0]" by (simp add: h_ok_def)
  note bf = blocks_fold_poly [OF rk(1) this, of m, folded b]
  have h: "h_ok h \<and> limbs h mod poly_p = poly_acc (limbs ?r) 0 m"
  proof (cases "?t = []")
    case True
    then have "h = p_h st" using tail_bytes_Nil [OF True] by (simp add: h_def l)
    then show ?thesis using bf True by (simp add: limbs_def)
  next
    case False
    have lt: "length ?t < 16" "length ?t = length m mod 16" by simp_all
    have nz: "length m mod 16 \<noteq> 0" using False lt(2) by (metis length_0_conv)
    have "write_at (p_buffer st) (p_leftover st) (1 # replicate (16 - (p_leftover st + 1)) 0) = ?t @ 1 # replicate (15 - length ?t) 0"
      using buf lt by (simp add: l write_at_def)
    then have "h = poly1305_block 0 ?r (p_h st) (?t @ 1 # replicate (15 - length ?t) 0)"
      using nz lt by (simp add: h_def l r poly1305_blocks_def Let_def blocks_fold_one)
    then show ?thesis using last_block_step [OF conjunct1 [OF bf] rk(1) False lt(1)] bf by (simp add: limbs_def)
  qed
  note c = poly1305_carry_correct [OF conjunct1 [OF h]]
  note d = poly1305_reduce_correct [OF c(1)]
  have s: "unat (load64_le (drop 16 key)) + 2 ^ 64 * unat (load64_le (drop 24 key)) = poly_s key"
    using block_limbs [of "take 16 (drop 16 key)"] k load64_le_take [of "drop 16 key"] load64_le_take [of "drop 24 key"]
      load64_le_take [of "take 16 (drop 16 key)"]
    by (simp add: poly_s_def drop_take)
  have "snd (poly1305_finish st) = poly1305_tag (poly1305_reduce (poly1305_carry h)) (p_pad st)"
    by (simp add: poly1305_finish_def Let_def h_def p_pad_blocks)
  then show ?thesis
    unfolding pad poly1305_tag_correct [OF d(1)] d(2) c(2) s poly1305_spec_def
    using h by (simp add: rk(2))
qed

lemma onetimeauth_eqs: "crypto_onetimeauth_poly1305_init = poly1305_init" "crypto_onetimeauth_poly1305_update = poly1305_update"
  "crypto_onetimeauth_poly1305_final = poly1305_finish" "crypto_onetimeauth_init = poly1305_init"
  "crypto_onetimeauth_update = poly1305_update" "crypto_onetimeauth_final = poly1305_finish"
  by (simp_all add: fun_eq_iff onetimeauth_defs)

lemma poly1305_mem_ok: "length (p_buffer (fst (poly1305_finish st))) = 16"
  by (simp add: poly1305_finish_def Let_def)

interpretation poly1305: total_streaming "\<lambda>st. 32 \<le> length key \<and> length (p_buffer st) = 16"
  "\<lambda>st. crypto_onetimeauth_poly1305_init st key" crypto_onetimeauth_poly1305_update crypto_onetimeauth_poly1305_final
  "poly_rep key" "\<lambda>_. True" "poly1305_spec key" for key
  by unfold_locales (auto simp: onetimeauth_eqs poly1305_mem_ok intro: poly_rep_init poly_rep_update poly1305_finish_tag,
    simp add: poly_rep_def)

lemma length_poly1305_spec [simp]: "length (poly1305_spec key m) = 16"
  by (simp add: poly1305_spec_def)

lemma onetimeauth_donna_spec: "32 \<le> length key \<Longrightarrow> length (p_buffer st) = 16 \<Longrightarrow>
  crypto_onetimeauth_poly1305_donna st m key = poly1305_spec key m"
  using poly1305.digest_one [of key st m] by (simp add: crypto_onetimeauth_poly1305_donna_def onetimeauth_eqs)

lemma poly_rep_limbs: "poly_rep key st m \<Longrightarrow> h_ok (p_h st) \<and> r_ok (p_r st)"
  using blocks_fold_poly [of "poly1305_clamp key" "[0, 0, 0]" m] poly1305_clamp_correct [of key]
  by (auto simp: poly_rep_def buffered_def h_ok_def)

section \<open>Properties\<close>

text \<open>C29: for every 32-byte key, whatever a context holds before, initialising it, feeding a message in any
  chunks and finalising gives the Poly1305 tag of the whole message: the polynomial of its blocks, each with
  its final one byte, evaluated at the clamped half of the key modulo \<open>2 ^ 130 - 5\<close>, plus the other half
  modulo \<open>2 ^ 128\<close>.\<close>

theorem poly1305_stream_correct:
  assumes "32 \<le> length key" "length (p_buffer st) = 16"
  shows "snd (crypto_onetimeauth_final (foldl crypto_onetimeauth_update (crypto_onetimeauth_init st key) cs))
    = poly1305_spec key (concat cs)"
  using poly1305.digest_foldl [of key st cs] assms by (simp add: onetimeauth_eqs list_all_iff)

theorem poly1305_stream_correct_witness:
  "snd (crypto_onetimeauth_final (foldl crypto_onetimeauth_update (crypto_onetimeauth_init
      \<lparr>p_r = [], p_h = [], p_pad = [], p_leftover = 3, p_buffer = replicate 16 7, p_final = 1\<rparr> (replicate 32 5)) [[1, 2], [], [3]]))
    = poly1305_spec (replicate 32 5) [1, 2, 3]"
  using poly1305_stream_correct [of "replicate 32 5"
      "\<lparr>p_r = [], p_h = [], p_pad = [], p_leftover = 3, p_buffer = replicate 16 7, p_final = 1\<rparr>" "[[1, 2], [], [3]]"]
  by simp

text \<open>The one-shot authenticator computes the Poly1305 tag, and the verification accepts a 16-byte
  tag exactly when it is the tag of the message.\<close>

theorem poly1305_verify_correct:
  assumes "32 \<le> length key" "length (p_buffer st) = 16" "length tag = 16"
  shows "crypto_onetimeauth st m key = poly1305_spec key m
    \<and> crypto_onetimeauth_verify st tag m key = (if tag = poly1305_spec key m then 0 else -1)"
  using assms
  by (simp_all add: crypto_onetimeauth_def crypto_onetimeauth_poly1305_def crypto_onetimeauth_verify_def
      crypto_onetimeauth_poly1305_verify_def crypto_onetimeauth_poly1305_donna_verify_def onetimeauth_donna_spec
      crypto_verify_16_def crypto_verify_n_eq)

theorem poly1305_verify_correct_witness:
  "crypto_onetimeauth_verify \<lparr>p_r = [], p_h = [], p_pad = [], p_leftover = 0, p_buffer = replicate 16 0, p_final = 0\<rparr>
     (poly1305_spec (replicate 32 5) [1, 2, 3]) [1, 2, 3] (replicate 32 5) = 0"
  using poly1305_verify_correct [of "replicate 32 5"
      "\<lparr>p_r = [], p_h = [], p_pad = [], p_leftover = 0, p_buffer = replicate 16 0, p_final = 0\<rparr>"
      "poly1305_spec (replicate 32 5) [1, 2, 3]" "[1, 2, 3]"]
  by simp

text \<open>In every context reached from an initialised one by updates, the three limbs of the accumulator
  stay below \<open>2 ^ 44\<close>, \<open>2 ^ 44 + 2 ^ 10\<close> and \<open>2 ^ 42\<close>, so that none of the 64-bit and 128-bit sums and
  products of the next block wraps around: the words of the next block are the exact sums and products.\<close>

theorem poly1305_limbs_invariant:
  fixes cs :: "byte list list"
  assumes "32 \<le> length key" "length (p_buffer st) = 16" "length b = 16"
  defines "s \<equiv> foldl crypto_onetimeauth_update (crypto_onetimeauth_init st key) cs"
  shows "unat (p_h s ! 0) < 2 ^ 44 \<and> unat (p_h s ! 1) < 2 ^ 44 + 2 ^ 10 \<and> unat (p_h s ! 2) < 2 ^ 42
    \<and> limbs (poly1305_block (push_bit 40 1) (p_r s) (p_h s) b) mod poly_p
      = (limbs (p_h s) + le_nat b + 2 ^ 128) * limbs (p_r s) mod poly_p"
proof -
  have "poly_rep key s (concat cs)"
    using poly1305.rep_foldl [OF poly1305.t_init, of key st cs] assms by (simp add: onetimeauth_eqs list_all_iff)
  then have ok: "h_ok (p_h s)" "r_ok (p_r s)" using poly_rep_limbs by blast+
  then have "limbs (poly1305_block (push_bit 40 1) (p_r s) (p_h s) b) mod poly_p
      = (limbs (p_h s) + le_nat b + 2 ^ 128) * limbs (p_r s) mod poly_p"
    using poly1305_block_step(2) [OF ok disjI2 [OF refl] assms(3)] by (simp add: add.assoc)
  then show ?thesis using ok by (simp add: h_ok_def)
qed

theorem poly1305_limbs_invariant_witness:
  "unat (p_h (foldl crypto_onetimeauth_update (crypto_onetimeauth_init
      \<lparr>p_r = [], p_h = [], p_pad = [], p_leftover = 3, p_buffer = replicate 16 7, p_final = 1\<rparr> (replicate 32 255))
      [replicate 40 255]) ! 1) < 2 ^ 44 + 2 ^ 10"
  using poly1305_limbs_invariant [of "replicate 32 255"
      "\<lparr>p_r = [], p_h = [], p_pad = [], p_leftover = 3, p_buffer = replicate 16 7, p_final = 1\<rparr>" "replicate 16 0" "[replicate 40 255]"]
  by (simp del: foldl.simps)

end
