(* ===== verification/Aead.thy ===== *)
theory Aead
  imports ChaCha20 Poly1305
begin

unbundle bit_operations_syntax

text \<open>
  Authenticated encryption: \<^verbatim>\<open>crypto_aead/chacha20poly1305\<close> (original and IETF construction) and
  \<^verbatim>\<open>crypto_aead/xchacha20poly1305\<close>. The first block of the key stream keys Poly1305, the
  message is encrypted from the second block on. \<open>ctx\<close> and \<open>st\<close> are the uninitialised local
  contexts of the stream cipher and of the authenticator; \<open>None\<close> is a call of
  \<^verbatim>\<open>sodium_misuse\<close>. The decryption functions return their code and what they wrote to the
  output buffer, nothing when it is the null pointer (\<open>m_null\<close>).
\<close>

section \<open>The code\<close>

text \<open>The bytes of \<^verbatim>\<open>_pad0\<close> that complete \<open>len\<close> bytes to a block.\<close>

definition pad0 :: "nat \<Rightarrow> byte list" where
  "pad0 len = take (unat ((0x10 - of_nat len :: u64) AND 0xf)) (replicate 16 0)"

abbreviation aead_MESSAGEBYTES_MAX :: int where "aead_MESSAGEBYTES_MAX \<equiv> 18446744073709551615 - 16"

abbreviation aead_ietf_MESSAGEBYTES_MAX :: int where
  "aead_ietf_MESSAGEBYTES_MAX \<equiv> min (18446744073709551615 - 16) (64 * (2 ^ 32 - 1))"

subsection \<open>ChaCha20-Poly1305\<close>

definition crypto_aead_chacha20poly1305_encrypt_detached ::
  "chacha_ctx \<Rightarrow> poly1305_state_internal_t \<Rightarrow> byte list \<Rightarrow> byte list \<Rightarrow> byte list \<Rightarrow> byte list
    \<Rightarrow> (byte list \<times> byte list \<times> nat) option" where
  "crypto_aead_chacha20poly1305_encrypt_detached ctx st m ad npub k = do {
     block0 \<leftarrow> crypto_stream_chacha20 ctx 64 npub k;
     let state = crypto_onetimeauth_poly1305_init st block0;
     let state = crypto_onetimeauth_poly1305_update state ad;
     let state = crypto_onetimeauth_poly1305_update state (store64_le (of_nat (length ad)));
     c \<leftarrow> crypto_stream_chacha20_xor_ic ctx m npub 1 k;
     let state = crypto_onetimeauth_poly1305_update state c;
     let state = crypto_onetimeauth_poly1305_update state (store64_le (of_nat (length m)));
     Some (c, snd (crypto_onetimeauth_poly1305_final state), 16)
   }"

definition crypto_aead_chacha20poly1305_encrypt ::
  "chacha_ctx \<Rightarrow> poly1305_state_internal_t \<Rightarrow> byte list \<Rightarrow> byte list \<Rightarrow> byte list \<Rightarrow> byte list
    \<Rightarrow> (byte list \<times> nat) option" where
  "crypto_aead_chacha20poly1305_encrypt ctx st m ad npub k =
    (if int (length m) > aead_MESSAGEBYTES_MAX then None
     else do {
       (c, mac, _) \<leftarrow> crypto_aead_chacha20poly1305_encrypt_detached ctx st m ad npub k;
       Some (c @ mac, length m + 16)
     })"

definition crypto_aead_chacha20poly1305_decrypt_detached ::
  "chacha_ctx \<Rightarrow> poly1305_state_internal_t \<Rightarrow> bool \<Rightarrow> byte list \<Rightarrow> byte list \<Rightarrow> byte list \<Rightarrow> byte list \<Rightarrow> byte list
    \<Rightarrow> (int \<times> byte list option) option" where
  "crypto_aead_chacha20poly1305_decrypt_detached ctx st m_null c mac ad npub k = do {
     block0 \<leftarrow> crypto_stream_chacha20 ctx 64 npub k;
     let state = crypto_onetimeauth_poly1305_init st block0;
     let state = crypto_onetimeauth_poly1305_update state ad;
     let state = crypto_onetimeauth_poly1305_update state (store64_le (of_nat (length ad)));
     let mlen = length c;
     let state = crypto_onetimeauth_poly1305_update state c;
     let state = crypto_onetimeauth_poly1305_update state (store64_le (of_nat mlen));
     let computed_mac = snd (crypto_onetimeauth_poly1305_final state);
     let ret = crypto_verify_16 computed_mac mac;
     if m_null then Some (ret, None)
     else if ret \<noteq> 0 then Some (-1, Some (replicate mlen 0))
     else do { m \<leftarrow> crypto_stream_chacha20_xor_ic ctx c npub 1 k; Some (0, Some m) }
   }"

definition crypto_aead_chacha20poly1305_decrypt ::
  "chacha_ctx \<Rightarrow> poly1305_state_internal_t \<Rightarrow> bool \<Rightarrow> byte list \<Rightarrow> byte list \<Rightarrow> byte list \<Rightarrow> byte list
    \<Rightarrow> (int \<times> byte list option \<times> nat) option" where
  "crypto_aead_chacha20poly1305_decrypt ctx st m_null c ad npub k = do {
     (ret, m) \<leftarrow>
       (if length c \<ge> 16
        then crypto_aead_chacha20poly1305_decrypt_detached ctx st m_null
          (take (length c - 16) c) (drop (length c - 16) c) ad npub k
        else Some (-1, None));
     Some (ret, m, if ret = 0 then length c - 16 else 0)
   }"

subsection \<open>IETF ChaCha20-Poly1305\<close>

definition crypto_aead_chacha20poly1305_ietf_encrypt_detached ::
  "chacha_ctx \<Rightarrow> poly1305_state_internal_t \<Rightarrow> byte list \<Rightarrow> byte list \<Rightarrow> byte list \<Rightarrow> byte list
    \<Rightarrow> (byte list \<times> byte list \<times> nat) option" where
  "crypto_aead_chacha20poly1305_ietf_encrypt_detached ctx st m ad npub k = do {
     block0 \<leftarrow> crypto_stream_chacha20_ietf ctx 64 npub k;
     let state = crypto_onetimeauth_poly1305_init st block0;
     let state = crypto_onetimeauth_poly1305_update state ad;
     let state = crypto_onetimeauth_poly1305_update state (pad0 (length ad));
     c \<leftarrow> crypto_stream_chacha20_ietf_xor_ic ctx m npub 1 k;
     let state = crypto_onetimeauth_poly1305_update state c;
     let state = crypto_onetimeauth_poly1305_update state (pad0 (length m));
     let state = crypto_onetimeauth_poly1305_update state (store64_le (of_nat (length ad)));
     let state = crypto_onetimeauth_poly1305_update state (store64_le (of_nat (length m)));
     Some (c, snd (crypto_onetimeauth_poly1305_final state), 16)
   }"

definition crypto_aead_chacha20poly1305_ietf_encrypt ::
  "chacha_ctx \<Rightarrow> poly1305_state_internal_t \<Rightarrow> byte list \<Rightarrow> byte list \<Rightarrow> byte list \<Rightarrow> byte list
    \<Rightarrow> (byte list \<times> nat) option" where
  "crypto_aead_chacha20poly1305_ietf_encrypt ctx st m ad npub k =
    (if int (length m) > aead_ietf_MESSAGEBYTES_MAX then None
     else do {
       (c, mac, _) \<leftarrow> crypto_aead_chacha20poly1305_ietf_encrypt_detached ctx st m ad npub k;
       Some (c @ mac, length m + 16)
     })"

definition crypto_aead_chacha20poly1305_ietf_decrypt_detached ::
  "chacha_ctx \<Rightarrow> poly1305_state_internal_t \<Rightarrow> bool \<Rightarrow> byte list \<Rightarrow> byte list \<Rightarrow> byte list \<Rightarrow> byte list \<Rightarrow> byte list
    \<Rightarrow> (int \<times> byte list option) option" where
  "crypto_aead_chacha20poly1305_ietf_decrypt_detached ctx st m_null c mac ad npub k = do {
     block0 \<leftarrow> crypto_stream_chacha20_ietf ctx 64 npub k;
     let state = crypto_onetimeauth_poly1305_init st block0;
     let state = crypto_onetimeauth_poly1305_update state ad;
     let state = crypto_onetimeauth_poly1305_update state (pad0 (length ad));
     let mlen = length c;
     let state = crypto_onetimeauth_poly1305_update state c;
     let state = crypto_onetimeauth_poly1305_update state (pad0 mlen);
     let state = crypto_onetimeauth_poly1305_update state (store64_le (of_nat (length ad)));
     let state = crypto_onetimeauth_poly1305_update state (store64_le (of_nat mlen));
     let computed_mac = snd (crypto_onetimeauth_poly1305_final state);
     let ret = crypto_verify_16 computed_mac mac;
     if m_null then Some (ret, None)
     else if ret \<noteq> 0 then Some (-1, Some (replicate mlen 0))
     else do { m \<leftarrow> crypto_stream_chacha20_ietf_xor_ic ctx c npub 1 k; Some (0, Some m) }
   }"

definition crypto_aead_chacha20poly1305_ietf_decrypt ::
  "chacha_ctx \<Rightarrow> poly1305_state_internal_t \<Rightarrow> bool \<Rightarrow> byte list \<Rightarrow> byte list \<Rightarrow> byte list \<Rightarrow> byte list
    \<Rightarrow> (int \<times> byte list option \<times> nat) option" where
  "crypto_aead_chacha20poly1305_ietf_decrypt ctx st m_null c ad npub k = do {
     (ret, m) \<leftarrow>
       (if length c \<ge> 16
        then crypto_aead_chacha20poly1305_ietf_decrypt_detached ctx st m_null
          (take (length c - 16) c) (drop (length c - 16) c) ad npub k
        else Some (-1, None));
     Some (ret, m, if ret = 0 then length c - 16 else 0)
   }"

subsection \<open>XChaCha20-Poly1305\<close>

definition x_encrypt_detached ::
  "chacha_ctx \<Rightarrow> poly1305_state_internal_t \<Rightarrow> byte list \<Rightarrow> byte list \<Rightarrow> byte list \<Rightarrow> byte list
    \<Rightarrow> (byte list \<times> byte list \<times> nat) option" where
  "x_encrypt_detached ctx st m ad npub k = do {
     block0 \<leftarrow> crypto_stream_chacha20_ietf_ext ctx 64 npub k;
     let state = crypto_onetimeauth_poly1305_init st block0;
     let state = crypto_onetimeauth_poly1305_update state ad;
     let state = crypto_onetimeauth_poly1305_update state (pad0 (length ad));
     c \<leftarrow> crypto_stream_chacha20_ietf_ext_xor_ic ctx m npub 1 k;
     let state = crypto_onetimeauth_poly1305_update state c;
     let state = crypto_onetimeauth_poly1305_update state (pad0 (length m));
     let state = crypto_onetimeauth_poly1305_update state (store64_le (of_nat (length ad)));
     let state = crypto_onetimeauth_poly1305_update state (store64_le (of_nat (length m)));
     Some (c, snd (crypto_onetimeauth_poly1305_final state), 16)
   }"

definition x_decrypt_detached ::
  "chacha_ctx \<Rightarrow> poly1305_state_internal_t \<Rightarrow> bool \<Rightarrow> byte list \<Rightarrow> byte list \<Rightarrow> byte list \<Rightarrow> byte list \<Rightarrow> byte list
    \<Rightarrow> (int \<times> byte list option) option" where
  "x_decrypt_detached ctx st m_null c mac ad npub k = do {
     block0 \<leftarrow> crypto_stream_chacha20_ietf_ext ctx 64 npub k;
     let state = crypto_onetimeauth_poly1305_init st block0;
     let state = crypto_onetimeauth_poly1305_update state ad;
     let state = crypto_onetimeauth_poly1305_update state (pad0 (length ad));
     let mlen = length c;
     let state = crypto_onetimeauth_poly1305_update state c;
     let state = crypto_onetimeauth_poly1305_update state (pad0 mlen);
     let state = crypto_onetimeauth_poly1305_update state (store64_le (of_nat (length ad)));
     let state = crypto_onetimeauth_poly1305_update state (store64_le (of_nat mlen));
     let computed_mac = snd (crypto_onetimeauth_poly1305_final state);
     let ret = crypto_verify_16 computed_mac mac;
     if m_null then Some (ret, None)
     else if ret \<noteq> 0 then Some (-1, Some (replicate mlen 0))
     else do { m \<leftarrow> crypto_stream_chacha20_ietf_ext_xor_ic ctx c npub 1 k; Some (0, Some m) }
   }"

definition crypto_aead_xchacha20poly1305_ietf_encrypt_detached ::
  "chacha_ctx \<Rightarrow> poly1305_state_internal_t \<Rightarrow> byte list \<Rightarrow> byte list \<Rightarrow> byte list \<Rightarrow> byte list
    \<Rightarrow> (byte list \<times> byte list \<times> nat) option" where
  "crypto_aead_xchacha20poly1305_ietf_encrypt_detached ctx st m ad npub k =
    (let k2 = crypto_core_hchacha20 npub k None;
         npub2 = write_at (replicate 12 0) 4 (take 8 (drop 16 npub))
     in x_encrypt_detached ctx st m ad npub2 k2)"

definition crypto_aead_xchacha20poly1305_ietf_encrypt ::
  "chacha_ctx \<Rightarrow> poly1305_state_internal_t \<Rightarrow> byte list \<Rightarrow> byte list \<Rightarrow> byte list \<Rightarrow> byte list
    \<Rightarrow> (byte list \<times> nat) option" where
  "crypto_aead_xchacha20poly1305_ietf_encrypt ctx st m ad npub k =
    (if int (length m) > aead_MESSAGEBYTES_MAX then None
     else do {
       (c, mac, _) \<leftarrow> crypto_aead_xchacha20poly1305_ietf_encrypt_detached ctx st m ad npub k;
       Some (c @ mac, length m + 16)
     })"

definition crypto_aead_xchacha20poly1305_ietf_decrypt_detached ::
  "chacha_ctx \<Rightarrow> poly1305_state_internal_t \<Rightarrow> bool \<Rightarrow> byte list \<Rightarrow> byte list \<Rightarrow> byte list \<Rightarrow> byte list \<Rightarrow> byte list
    \<Rightarrow> (int \<times> byte list option) option" where
  "crypto_aead_xchacha20poly1305_ietf_decrypt_detached ctx st m_null c mac ad npub k =
    (let k2 = crypto_core_hchacha20 npub k None;
         npub2 = write_at (replicate 12 0) 4 (take 8 (drop 16 npub))
     in x_decrypt_detached ctx st m_null c mac ad npub2 k2)"

definition crypto_aead_xchacha20poly1305_ietf_decrypt ::
  "chacha_ctx \<Rightarrow> poly1305_state_internal_t \<Rightarrow> bool \<Rightarrow> byte list \<Rightarrow> byte list \<Rightarrow> byte list \<Rightarrow> byte list
    \<Rightarrow> (int \<times> byte list option \<times> nat) option" where
  "crypto_aead_xchacha20poly1305_ietf_decrypt ctx st m_null c ad npub k = do {
     (ret, m) \<leftarrow>
       (if length c \<ge> 16
        then crypto_aead_xchacha20poly1305_ietf_decrypt_detached ctx st m_null
          (take (length c - 16) c) (drop (length c - 16) c) ad npub k
        else Some (-1, None));
     Some (ret, m, if ret = 0 then length c - 16 else 0)
   }"

section \<open>Specification\<close>

text \<open>Encryption from the second block of a key stream, and the authenticated bytes of the two
  constructions.\<close>

definition aead_cipher :: "(nat \<Rightarrow> byte list) \<Rightarrow> byte list \<Rightarrow> byte list" where
  "aead_cipher b m = xor_list m (keystream b 1 (length m))"

definition block_pad :: "nat \<Rightarrow> byte list" where
  "block_pad n = replicate ((16 - n mod 16) mod 16) 0"

definition aead_data :: "byte list \<Rightarrow> byte list \<Rightarrow> byte list" where
  "aead_data ad c = ad @ le_bytes 8 (length ad) @ c @ le_bytes 8 (length c)"

definition aead_ietf_data :: "byte list \<Rightarrow> byte list \<Rightarrow> byte list" where
  "aead_ietf_data ad c = ad @ block_pad (length ad) @ c @ block_pad (length c) @ le_bytes 8 (length ad) @ le_bytes 8 (length c)"

text \<open>What an authenticated encryption promises.\<close>

locale aead =
  fixes block :: "byte list \<Rightarrow> byte list \<Rightarrow> nat \<Rightarrow> byte list"
    and data :: "byte list \<Rightarrow> byte list \<Rightarrow> byte list"
    and valid :: "byte list \<Rightarrow> bool"
    and fits :: "nat \<Rightarrow> bool"
    and enc :: "byte list \<Rightarrow> byte list \<Rightarrow> byte list \<Rightarrow> byte list \<Rightarrow> (byte list \<times> byte list \<times> nat) option"
    and dec :: "bool \<Rightarrow> byte list \<Rightarrow> byte list \<Rightarrow> byte list \<Rightarrow> byte list \<Rightarrow> byte list \<Rightarrow> (int \<times> byte list option) option"
  assumes length_block: "length (block k n i) = 64"
    and enc_law: "valid n \<Longrightarrow> fits (length m) \<Longrightarrow> enc m ad n k
      = Some (aead_cipher (block k n) m, poly1305_spec (block k n 0) (data ad (aead_cipher (block k n) m)), 16)"
    and dec_law: "valid n \<Longrightarrow> fits (length c) \<Longrightarrow> length mac = 16 \<Longrightarrow> dec null c mac ad n k
      = Some (if mac = poly1305_spec (block k n 0) (data ad c)
          then (0, if null then None else Some (aead_cipher (block k n) c))
          else (-1, if null then None else Some (replicate (length c) 0)))"
begin

lemma length_cipher: "length (aead_cipher (block k n) m) = length m"
  by (simp add: aead_cipher_def length_keystream length_block)

lemma cipher_invol: "aead_cipher (block k n) (aead_cipher (block k n) m) = m"
  by (simp add: aead_cipher_def length_keystream length_block xor_list_invol)

lemma roundtrip:
  assumes "valid n" "fits (length m)"
  obtains c mac where "enc m ad n k = Some (c, mac, 16)" "length c = length m" "length mac = 16"
    "dec False c mac ad n k = Some (0, Some m)"
  using assms enc_law [of n m ad k] by (simp add: dec_law length_cipher cipher_invol)

text \<open>Decryption succeeds only on what encryption produces for the returned message.\<close>

lemma authentic:
  assumes "valid n" "fits (length c)" "length mac = 16"
  shows "dec False c mac ad n k = Some (0, Some m) \<longleftrightarrow> enc m ad n k = Some (c, mac, 16) \<and> fits (length m)"
  using assms
  by (auto simp: dec_law enc_law length_cipher cipher_invol split: if_splits)

lemma reject:
  assumes "valid n" "fits (length c)" "length mac = 16" "\<And>m. fits (length m) \<Longrightarrow> enc m ad n k \<noteq> Some (c, mac, 16)"
  shows "dec False c mac ad n k = Some (-1, Some (replicate (length c) 0))"
  using assms(4) authentic [OF assms(1-3), of ad k] dec_law [OF assms(1-3), of False ad k]
  by (auto split: if_splits)

end

section \<open>The three constructions\<close>

lemma mod_complement:
  assumes "(x + n) mod 16 = (0 :: nat)"
  shows "x mod 16 = (16 - n mod 16) mod 16"
proof -
  have "(x mod 16 + n mod 16) mod 16 = 0" using assms by (simp only: mod_add_eq)
  moreover have "x mod 16 < 16" "n mod 16 < 16" by simp_all
  ultimately have "x mod 16 + n mod 16 = 0 \<or> x mod 16 + n mod 16 = 16" by (auto elim!: dvdE)
  then show ?thesis using \<open>x mod 16 < 16\<close> by auto
qed

lemma pad0_eq: "pad0 n = block_pad n"
proof -
  define w where "w = (0x10 - of_nat n :: u64)"
  have s: "w + of_nat n = 16" unfolding w_def by (rule diff_add_cancel)
  have "unat (16 :: u64) = 16" by simp
  then have "unat (w + of_nat n) = 16" unfolding s .
  then have "(unat w + n) mod 2 ^ LENGTH(64) = 16" by (simp only: unat_word_ariths(1) unat_of_nat mod_add_right_eq)
  moreover have "(unat w + n) mod 2 ^ LENGTH(64) mod 16 = (unat w + n) mod 16" by (rule mod_mod_cancel) simp
  ultimately have "(unat w + n) mod 16 = 0" by (simp only: mod_self)
  then have w16: "unat w mod 16 = (16 - n mod 16) mod 16" by (rule mod_complement)
  have "w AND 0xf = take_bit 4 w" by (simp add: take_bit_eq_mask mask_eq_exp_minus_1)
  then have "unat (w AND 0xf) = (16 - n mod 16) mod 16"
    by (simp only: unsigned_take_bit_eq) (simp add: take_bit_eq_mod w16)
  then show ?thesis unfolding pad0_def block_pad_def w_def [symmetric] by (simp add: min_def)
qed

lemma store64_le_length: "store64_le (of_nat n) = le_bytes 8 n"
  using le_bytes_mod [of 8 n] by (simp add: store64_le_bytes unsigned_of_nat take_bit_eq_mod)

abbreviation poly_mem :: "poly1305_state_internal_t \<Rightarrow> bool" where
  "poly_mem st \<equiv> length (p_buffer st) = 16"

lemma poly1305_mac4:
  assumes "length key = 64" "poly_mem st"
  shows "snd (crypto_onetimeauth_poly1305_final (crypto_onetimeauth_poly1305_update (crypto_onetimeauth_poly1305_update
     (crypto_onetimeauth_poly1305_update (crypto_onetimeauth_poly1305_update (crypto_onetimeauth_poly1305_init st key) x0) x1) x2) x3))
    = poly1305_spec key (x0 @ x1 @ x2 @ x3)"
  using poly1305.digest_foldl [of key st "[x0, x1, x2, x3]"] assms by simp

lemma poly1305_mac6:
  assumes "length key = 64" "poly_mem st"
  shows "snd (crypto_onetimeauth_poly1305_final (crypto_onetimeauth_poly1305_update (crypto_onetimeauth_poly1305_update
     (crypto_onetimeauth_poly1305_update (crypto_onetimeauth_poly1305_update (crypto_onetimeauth_poly1305_update
     (crypto_onetimeauth_poly1305_update (crypto_onetimeauth_poly1305_init st key) x0) x1) x2) x3) x4) x5))
    = poly1305_spec key (x0 @ x1 @ x2 @ x3 @ x4 @ x5)"
  using poly1305.digest_foldl [of key st "[x0, x1, x2, x3, x4, x5]"] assms by simp

lemma verify_tag: "length mac = 16 \<Longrightarrow> crypto_verify_16 (poly1305_spec key x) mac = (if mac = poly1305_spec key x then 0 else -1)"
  by (auto simp: crypto_verify_16_def crypto_verify_n_eq)

lemma keystream_64: "length (b c) = 64 \<Longrightarrow> keystream b c 64 = b c"
  by (simp add: keystream_short)

lemmas aead_eqs = Let_def poly1305_mac4 poly1305_mac6 verify_tag keystream_64 pad0_eq store64_le_length aead_cipher_def

interpretation chacha20poly1305: aead chacha20_block aead_data "\<lambda>_. ctx_ok ctx \<and> poly_mem st" "\<lambda>len. len + 16 < 2 ^ 64"
  "crypto_aead_chacha20poly1305_encrypt_detached ctx st" "crypto_aead_chacha20poly1305_decrypt_detached ctx st" for ctx st
  using chacha20.stream_law [where ctx = ctx and len = 64] chacha20.xor_law [where ctx = ctx and ic = 1]
  by unfold_locales
    (simp_all add: chacha20.length_block crypto_aead_chacha20poly1305_encrypt_detached_def
      crypto_aead_chacha20poly1305_decrypt_detached_def aead_eqs aead_data_def chacha20.length_ks)

abbreviation aead_ietf_fits :: "nat \<Rightarrow> bool" where "aead_ietf_fits len \<equiv> ietf_fits 1 len"

lemma ietf_fits_64: "ietf_fits 0 64"
  by (simp add: ietf_fits_def)

interpretation chacha20poly1305_ietf: aead chacha20_ietf_block aead_ietf_data "\<lambda>_. ctx_ok ctx \<and> poly_mem st" aead_ietf_fits
  "crypto_aead_chacha20poly1305_ietf_encrypt_detached ctx st" "crypto_aead_chacha20poly1305_ietf_decrypt_detached ctx st" for ctx st
  using chacha20_ietf.stream_law [where ctx = ctx and len = 64] chacha20_ietf.xor_law [where ctx = ctx and ic = 1] ietf_fits_64
  by unfold_locales
    (simp_all add: chacha20_ietf.length_block crypto_aead_chacha20poly1305_ietf_encrypt_detached_def
      crypto_aead_chacha20poly1305_ietf_decrypt_detached_def aead_eqs aead_ietf_data_def chacha20_ietf.length_ks)

definition xchacha20_ietf_block :: "byte list \<Rightarrow> byte list \<Rightarrow> nat \<Rightarrow> byte list" where
  "xchacha20_ietf_block k n = chacha20_ietf_block (crypto_core_hchacha20 n k None) (replicate 4 0 @ drop 16 n)"

lemma x_detached_law:
  assumes "ctx_ok ctx" "poly_mem st"
  shows "aead_ietf_fits (length m) \<Longrightarrow> x_encrypt_detached ctx st m ad n k
      = Some (aead_cipher (chacha20_ietf_block k n) m,
          poly1305_spec (chacha20_ietf_block k n 0) (aead_ietf_data ad (aead_cipher (chacha20_ietf_block k n) m)), 16)"
    and "aead_ietf_fits (length m) \<Longrightarrow> length mac = 16 \<Longrightarrow> x_decrypt_detached ctx st null m mac ad n k
      = Some (if mac = poly1305_spec (chacha20_ietf_block k n 0) (aead_ietf_data ad m)
          then (0, if null then None else Some (aead_cipher (chacha20_ietf_block k n) m))
          else (-1, if null then None else Some (replicate (length m) 0)))"
  using assms chacha20_ietf_ext.stream_law [where ctx = ctx and len = 64] chacha20_ietf_ext.xor_law [where ctx = ctx and ic = 1]
    ietf_fits_64
  by (simp_all add: x_encrypt_detached_def x_decrypt_detached_def aead_eqs aead_ietf_data_def
      chacha20_ietf_ext.length_ks chacha20_ietf_ext.length_block)

lemma xchacha_nonce: "length n = 24 \<Longrightarrow> write_at (replicate 12 0) 4 (drop 16 n) = replicate 4 0 @ drop 16 n"
  by (simp add: write_at_def)

interpretation xchacha20poly1305: aead xchacha20_ietf_block aead_ietf_data
  "\<lambda>n. ctx_ok ctx \<and> poly_mem st \<and> length n = 24" aead_ietf_fits
  "crypto_aead_xchacha20poly1305_ietf_encrypt_detached ctx st" "crypto_aead_xchacha20poly1305_ietf_decrypt_detached ctx st" for ctx st
  by unfold_locales
    (simp_all add: xchacha20_ietf_block_def chacha20_ietf_ext.length_block crypto_aead_xchacha20poly1305_ietf_encrypt_detached_def
      crypto_aead_xchacha20poly1305_ietf_decrypt_detached_def Let_def x_detached_law xchacha_nonce)

section \<open>The combined functions\<close>

text \<open>A message and its tag in one buffer, over any detached construction.\<close>

definition aead_seal :: "(byte list \<Rightarrow> byte list \<Rightarrow> byte list \<Rightarrow> byte list \<Rightarrow> (byte list \<times> byte list \<times> nat) option)
    \<Rightarrow> byte list \<Rightarrow> byte list \<Rightarrow> byte list \<Rightarrow> byte list \<Rightarrow> (byte list \<times> nat) option" where
  "aead_seal enc m ad n k = Option.bind (enc m ad n k) (\<lambda>(c, mac, _). Some (c @ mac, length m + 16))"

definition aead_unseal :: "(bool \<Rightarrow> byte list \<Rightarrow> byte list \<Rightarrow> byte list \<Rightarrow> byte list \<Rightarrow> byte list \<Rightarrow> (int \<times> byte list option) option)
    \<Rightarrow> bool \<Rightarrow> byte list \<Rightarrow> byte list \<Rightarrow> byte list \<Rightarrow> byte list \<Rightarrow> (int \<times> byte list option \<times> nat) option" where
  "aead_unseal dec null c ad n k = Option.bind
     (if length c \<ge> 16 then dec null (take (length c - 16) c) (drop (length c - 16) c) ad n k else Some (-1, None))
     (\<lambda>(ret, m). Some (ret, m, if ret = 0 then length c - 16 else 0))"

context aead
begin

lemma unseal_seal:
  assumes "valid n" "fits (length m)"
  shows "Option.bind (aead_seal enc m ad n k) (\<lambda>(c, clen). aead_unseal dec False c ad n k) = Some (0, Some m, length m)"
  using assms by (rule roundtrip [of n m ad k]) (simp add: aead_seal_def aead_unseal_def)

lemma length_sealed:
  "valid n \<Longrightarrow> fits (length m) \<Longrightarrow> aead_seal enc m ad n k = Some (c, l) \<Longrightarrow> length c = length m + 16"
  by (auto simp: aead_seal_def enc_law length_cipher)

lemma unseal_accepts:
  assumes "valid n" "fits (length c - 16)"
  shows "aead_unseal dec False c ad n k = Some (0, Some m, l) \<longleftrightarrow>
    16 \<le> length c \<and> l = length m \<and> fits (length m) \<and> aead_seal enc m ad n k = Some (c, length m + 16)"
proof (cases "16 \<le> length c")
  case True
  let ?c = "take (length c - 16) c" and ?mac = "drop (length c - 16) c"
  have l: "fits (length ?c)" "length ?mac = 16" using assms True by simp_all
  have "enc m ad n k = Some (?c, ?mac, 16) \<Longrightarrow> fits (length m) \<Longrightarrow> length m = length c - 16"
    using enc_law [OF assms(1), of m ad k] length_cipher [of k n m] True by auto
  moreover have "fits (length m) \<Longrightarrow> aead_seal enc m ad n k = Some (c, length m + 16) \<longleftrightarrow> enc m ad n k = Some (?c, ?mac, 16)"
  proof -
    assume f: "fits (length m)"
    obtain c' mac' where e: "enc m ad n k = Some (c', mac', 16)" "length mac' = 16" using roundtrip [OF assms(1) f] by metis
    then show ?thesis by (auto simp: aead_seal_def)
  qed
  ultimately show ?thesis
    using True authentic [OF assms(1) l, of ad k m] dec_law [OF assms(1) l, of False ad k]
    by (auto simp: aead_unseal_def split: if_splits)
next
  case False
  then show ?thesis by (auto simp: aead_unseal_def)
qed

text \<open>For a combined encryption \<open>f\<close> that agrees with the construction on the messages it accepts, a
  ciphertext is either the encryption of the message that decryption returns, or it is refused.\<close>

lemma unseal_cases:
  assumes n: "valid n" and c: "fits (length c - 16)"
    and f: "\<And>m. fits (length m) \<Longrightarrow> f m = aead_seal enc m ad n k" "\<And>m x l. f m = Some (x, l) \<Longrightarrow> l = length m + 16"
  shows "(\<exists>m. f m = Some (c, length c) \<and> aead_unseal dec False c ad n k = Some (0, Some m, length c - 16))
    \<or> (\<forall>m. f m \<noteq> Some (c, length c))
      \<and> aead_unseal dec False c ad n k = Some (-1, if 16 \<le> length c then Some (replicate (length c - 16) 0) else None, 0)"
proof (cases "\<exists>m. f m = Some (c, length c)")
  case True
  then obtain m where m: "f m = Some (c, length c)" by blast
  then have l: "length c = length m + 16" by (rule f(2))
  then have "aead_unseal dec False c ad n k = Some (0, Some m, length c - 16)"
    using unseal_accepts [OF n c, of ad k m "length c - 16"] m f(1) [of m] c by simp
  then show ?thesis using m by blast
next
  case False
  have r: "aead_unseal dec False c ad n k \<noteq> Some (0, Some m, l)" for m l
    using False unseal_accepts [OF n c, of ad k m l] f(1) [of m] length_sealed [OF n, of m ad k c] by auto
  have "aead_unseal dec False c ad n k = Some (-1, if 16 \<le> length c then Some (replicate (length c - 16) 0) else None, 0)"
  proof (cases "16 \<le> length c")
    case True
    have l: "fits (length (take (length c - 16) c))" "length (drop (length c - 16) c) = 16" using c True by simp_all
    show ?thesis using True dec_law [OF n l, of False ad k] r by (auto simp: aead_unseal_def split: if_splits)
  qed (simp add: aead_unseal_def)
  then show ?thesis using False by blast
qed

end

lemmas aead_combined_defs = aead_seal_def aead_unseal_def crypto_aead_chacha20poly1305_encrypt_def
  crypto_aead_chacha20poly1305_decrypt_def crypto_aead_chacha20poly1305_ietf_encrypt_def
  crypto_aead_chacha20poly1305_ietf_decrypt_def crypto_aead_xchacha20poly1305_ietf_encrypt_def
  crypto_aead_xchacha20poly1305_ietf_decrypt_def

lemma aead_ietf_fits_length: "aead_ietf_fits len \<longleftrightarrow> len \<le> 64 * (2 ^ 32 - 1)"
  by (auto simp: ietf_fits_def)

lemma chacha20poly1305_combined:
  "length m + 16 < 2 ^ 64 \<Longrightarrow> crypto_aead_chacha20poly1305_encrypt ctx st m ad n k
    = aead_seal (crypto_aead_chacha20poly1305_encrypt_detached ctx st) m ad n k"
  "crypto_aead_chacha20poly1305_decrypt ctx st null c ad n k
    = aead_unseal (crypto_aead_chacha20poly1305_decrypt_detached ctx st) null c ad n k"
  by (simp_all add: aead_combined_defs)

lemma chacha20poly1305_ietf_combined:
  "aead_ietf_fits (length m) \<Longrightarrow> crypto_aead_chacha20poly1305_ietf_encrypt ctx st m ad n k
    = aead_seal (crypto_aead_chacha20poly1305_ietf_encrypt_detached ctx st) m ad n k"
  "crypto_aead_chacha20poly1305_ietf_decrypt ctx st null c ad n k
    = aead_unseal (crypto_aead_chacha20poly1305_ietf_decrypt_detached ctx st) null c ad n k"
  using aead_ietf_fits_length [of "length m"] by (auto simp: aead_combined_defs)

lemma xchacha20poly1305_combined:
  "aead_ietf_fits (length m) \<Longrightarrow> crypto_aead_xchacha20poly1305_ietf_encrypt ctx st m ad n k
    = aead_seal (crypto_aead_xchacha20poly1305_ietf_encrypt_detached ctx st) m ad n k"
  "crypto_aead_xchacha20poly1305_ietf_decrypt ctx st null c ad n k
    = aead_unseal (crypto_aead_xchacha20poly1305_ietf_decrypt_detached ctx st) null c ad n k"
  using aead_ietf_fits_length [of "length m"] by (auto simp: aead_combined_defs)

lemma aead_clen:
  "crypto_aead_chacha20poly1305_encrypt ctx st m ad n k = Some (c, l) \<Longrightarrow> l = length m + 16"
  "crypto_aead_chacha20poly1305_ietf_encrypt ctx st m ad n k = Some (c, l) \<Longrightarrow> l = length m + 16"
  "crypto_aead_xchacha20poly1305_ietf_encrypt ctx st m ad n k = Some (c, l) \<Longrightarrow> l = length m + 16"
  by (auto simp: aead_combined_defs split: if_splits option.splits simp: bind_eq_Some_conv)

text \<open>The result of an encryption does not depend on what the local contexts held.\<close>

lemma aead_encrypt_independent:
  assumes "ctx_ok ctx" "poly_mem st" "ctx_ok ctx'" "poly_mem st'"
  shows "length m + 16 < 2 ^ 64 \<Longrightarrow>
      crypto_aead_chacha20poly1305_encrypt ctx st m ad n k = crypto_aead_chacha20poly1305_encrypt ctx' st' m ad n k"
    and "aead_ietf_fits (length m) \<Longrightarrow>
      crypto_aead_chacha20poly1305_ietf_encrypt ctx st m ad n k = crypto_aead_chacha20poly1305_ietf_encrypt ctx' st' m ad n k"
    and "aead_ietf_fits (length m) \<Longrightarrow> length n = 24 \<Longrightarrow>
      crypto_aead_xchacha20poly1305_ietf_encrypt ctx st m ad n k = crypto_aead_xchacha20poly1305_ietf_encrypt ctx' st' m ad n k"
  using assms
  by (simp_all add: chacha20poly1305_combined chacha20poly1305_ietf_combined xchacha20poly1305_combined aead_seal_def
      chacha20poly1305.enc_law chacha20poly1305_ietf.enc_law xchacha20poly1305.enc_law)

section \<open>Properties\<close>

text \<open>C27: for ChaCha20-Poly1305, its IETF variant and XChaCha20-Poly1305, whatever the local contexts of the two
  calls hold before, decrypting an encrypted message with the same associated data, nonce and key succeeds and
  returns the message and its length, for every message the construction can encrypt without reusing a
  block of key stream.\<close>

theorem aead_roundtrip:
  assumes "length (input ctx) = 16" "length (input ctx') = 16" "length (p_buffer st) = 16" "length (p_buffer st') = 16"
    "length m + 16 < 2 ^ 64" "length n = 24"
  shows "Option.bind (crypto_aead_chacha20poly1305_encrypt ctx st m ad n k)
        (\<lambda>(c, clen). crypto_aead_chacha20poly1305_decrypt ctx' st' False c ad n k) = Some (0, Some m, length m)
    \<and> (length m \<le> 64 * (2 ^ 32 - 1) \<longrightarrow>
      Option.bind (crypto_aead_chacha20poly1305_ietf_encrypt ctx st m ad n k)
        (\<lambda>(c, clen). crypto_aead_chacha20poly1305_ietf_decrypt ctx' st' False c ad n k) = Some (0, Some m, length m)
      \<and> Option.bind (crypto_aead_xchacha20poly1305_ietf_encrypt ctx st m ad n k)
        (\<lambda>(c, clen). crypto_aead_xchacha20poly1305_ietf_decrypt ctx' st' False c ad n k) = Some (0, Some m, length m))"
proof -
  have ok: "ctx_ok ctx" "poly_mem st" "ctx_ok ctx'" "poly_mem st'" using assms by (simp_all add: ctx_ok_def)
  note ind = aead_encrypt_independent [OF ok]
  have fits: "length m \<le> 64 * (2 ^ 32 - 1) \<Longrightarrow> aead_ietf_fits (length m)" by (simp add: ietf_fits_def)
  show ?thesis
    using ok assms(5,6) fits ind chacha20poly1305.unseal_seal [where ctx = ctx' and st = st' and m = m and ad = ad and k = k]
      chacha20poly1305_ietf.unseal_seal [where ctx = ctx' and st = st' and m = m and ad = ad and k = k]
      xchacha20poly1305.unseal_seal [where ctx = ctx' and st = st' and m = m and ad = ad and k = k]
    by (auto simp: chacha20poly1305_combined chacha20poly1305_ietf_combined xchacha20poly1305_combined)
qed

theorem aead_roundtrip_witness:
  "Option.bind (crypto_aead_xchacha20poly1305_ietf_encrypt \<lparr>input = replicate 16 0\<rparr>
        \<lparr>p_r = [], p_h = [], p_pad = [], p_leftover = 0, p_buffer = replicate 16 0, p_final = 0\<rparr> [1, 2, 3] [4] (replicate 24 5) (replicate 32 6))
     (\<lambda>(c, clen). crypto_aead_xchacha20poly1305_ietf_decrypt \<lparr>input = replicate 16 9\<rparr>
        \<lparr>p_r = [], p_h = [], p_pad = [], p_leftover = 7, p_buffer = replicate 16 8, p_final = 1\<rparr> False c [4] (replicate 24 5) (replicate 32 6))
   = Some (0, Some [1, 2, 3], 3)"
  using aead_roundtrip [of "\<lparr>input = replicate 16 0\<rparr>" "\<lparr>input = replicate 16 9\<rparr>"
      "\<lparr>p_r = [], p_h = [], p_pad = [], p_leftover = 0, p_buffer = replicate 16 0, p_final = 0\<rparr>"
      "\<lparr>p_r = [], p_h = [], p_pad = [], p_leftover = 7, p_buffer = replicate 16 8, p_final = 1\<rparr>"
      "[1, 2, 3]" "replicate 24 5" "[4]" "replicate 32 6"]
  by simp

text \<open>C28: decryption is authentic, for ciphertexts shorter than \<open>2 ^ 64\<close> bytes with ChaCha20-Poly1305, and for ciphertexts whose
  text without the tag has at most \<open>64 (2 ^ 32 - 1)\<close> bytes with the IETF variant and XChaCha20-Poly1305 (beyond that their check of
  the block counter does not hold): it returns 0 with a message only for the very ciphertext that encryption
  produces for that message, associated data, nonce and key; every other such ciphertext gives -1, a
  length of 0 and an output buffer full of zeros, and one shorter than a tag leaves the buffer untouched.\<close>

theorem aead_authentic:
  assumes "length (input ctx) = 16" "length (p_buffer st) = 16" "length n = 24" "length c < 2 ^ 64"
  defines "refused \<equiv> Some (-1, if 16 \<le> length c then Some (replicate (length c - 16) 0) else None, 0)"
  shows "((\<exists>m. crypto_aead_chacha20poly1305_encrypt ctx st m ad n k = Some (c, length c)
          \<and> crypto_aead_chacha20poly1305_decrypt ctx st False c ad n k = Some (0, Some m, length c - 16))
        \<or> (\<forall>m. crypto_aead_chacha20poly1305_encrypt ctx st m ad n k \<noteq> Some (c, length c))
          \<and> crypto_aead_chacha20poly1305_decrypt ctx st False c ad n k = refused)
    \<and> (length c - 16 \<le> 64 * (2 ^ 32 - 1) \<longrightarrow>
       ((\<exists>m. crypto_aead_chacha20poly1305_ietf_encrypt ctx st m ad n k = Some (c, length c)
          \<and> crypto_aead_chacha20poly1305_ietf_decrypt ctx st False c ad n k = Some (0, Some m, length c - 16))
        \<or> (\<forall>m. crypto_aead_chacha20poly1305_ietf_encrypt ctx st m ad n k \<noteq> Some (c, length c))
          \<and> crypto_aead_chacha20poly1305_ietf_decrypt ctx st False c ad n k = refused)
     \<and> ((\<exists>m. crypto_aead_xchacha20poly1305_ietf_encrypt ctx st m ad n k = Some (c, length c)
          \<and> crypto_aead_xchacha20poly1305_ietf_decrypt ctx st False c ad n k = Some (0, Some m, length c - 16))
        \<or> (\<forall>m. crypto_aead_xchacha20poly1305_ietf_encrypt ctx st m ad n k \<noteq> Some (c, length c))
          \<and> crypto_aead_xchacha20poly1305_ietf_decrypt ctx st False c ad n k = refused))"
proof (intro conjI impI)
  have ok: "ctx_ok ctx" "poly_mem st" using assms by (simp_all add: ctx_ok_def)
  have fits: "length c - 16 + 16 < 2 ^ 64" using assms(4) by simp
  show "(\<exists>m. crypto_aead_chacha20poly1305_encrypt ctx st m ad n k = Some (c, length c)
          \<and> crypto_aead_chacha20poly1305_decrypt ctx st False c ad n k = Some (0, Some m, length c - 16))
        \<or> (\<forall>m. crypto_aead_chacha20poly1305_encrypt ctx st m ad n k \<noteq> Some (c, length c))
          \<and> crypto_aead_chacha20poly1305_decrypt ctx st False c ad n k = refused"
    unfolding chacha20poly1305_combined(2) refused_def
    using ok fits by (intro chacha20poly1305.unseal_cases) (auto simp: chacha20poly1305_combined dest: aead_clen)
  assume "length c - 16 \<le> 64 * (2 ^ 32 - 1)"
  then have ietf: "aead_ietf_fits (length c - 16)" unfolding aead_ietf_fits_length .
  show "(\<exists>m. crypto_aead_chacha20poly1305_ietf_encrypt ctx st m ad n k = Some (c, length c)
          \<and> crypto_aead_chacha20poly1305_ietf_decrypt ctx st False c ad n k = Some (0, Some m, length c - 16))
        \<or> (\<forall>m. crypto_aead_chacha20poly1305_ietf_encrypt ctx st m ad n k \<noteq> Some (c, length c))
          \<and> crypto_aead_chacha20poly1305_ietf_decrypt ctx st False c ad n k = refused"
    unfolding chacha20poly1305_ietf_combined(2) refused_def
    using ok ietf by (intro chacha20poly1305_ietf.unseal_cases) (auto simp: chacha20poly1305_ietf_combined dest: aead_clen)
  show "(\<exists>m. crypto_aead_xchacha20poly1305_ietf_encrypt ctx st m ad n k = Some (c, length c)
          \<and> crypto_aead_xchacha20poly1305_ietf_decrypt ctx st False c ad n k = Some (0, Some m, length c - 16))
        \<or> (\<forall>m. crypto_aead_xchacha20poly1305_ietf_encrypt ctx st m ad n k \<noteq> Some (c, length c))
          \<and> crypto_aead_xchacha20poly1305_ietf_decrypt ctx st False c ad n k = refused"
    unfolding xchacha20poly1305_combined(2) refused_def
    using ok ietf assms(3) by (intro xchacha20poly1305.unseal_cases) (auto simp: xchacha20poly1305_combined dest: aead_clen)
qed

theorem aead_authentic_witness:
  "\<exists>c m. crypto_aead_chacha20poly1305_ietf_encrypt \<lparr>input = replicate 16 0\<rparr>
      \<lparr>p_r = [], p_h = [], p_pad = [], p_leftover = 0, p_buffer = replicate 16 0, p_final = 0\<rparr> [1, 2, 3] [4] (replicate 24 5) (replicate 32 6) = Some (c, 19)
    \<and> length c = 19
    \<and> crypto_aead_chacha20poly1305_ietf_encrypt \<lparr>input = replicate 16 0\<rparr>
      \<lparr>p_r = [], p_h = [], p_pad = [], p_leftover = 0, p_buffer = replicate 16 0, p_final = 0\<rparr> m [4] (replicate 24 5) (replicate 32 6) = Some (c, 19)
    \<and> crypto_aead_chacha20poly1305_ietf_decrypt \<lparr>input = replicate 16 0\<rparr>
      \<lparr>p_r = [], p_h = [], p_pad = [], p_leftover = 0, p_buffer = replicate 16 0, p_final = 0\<rparr> False c [4] (replicate 24 5) (replicate 32 6) = Some (0, Some m, 3)"
proof -
  define ctx where "ctx = \<lparr>input = replicate 16 (0 :: u32)\<rparr>"
  define st where "st = \<lparr>p_r = [], p_h = [], p_pad = [], p_leftover = 0, p_buffer = replicate 16 0, p_final = 0\<rparr>"
  have ok: "ctx_ok ctx" "poly_mem st" "length (input ctx) = 16" by (simp_all add: ctx_ok_def ctx_def st_def)
  have f: "aead_ietf_fits (length [1, 2, 3 :: byte])" by (simp add: ietf_fits_def)
  obtain c mac where "crypto_aead_chacha20poly1305_ietf_encrypt_detached ctx st [1, 2, 3] [4] (replicate 24 5) (replicate 32 6) = Some (c, mac, 16)"
      "length c = length [1, 2, 3 :: byte]" "length mac = 16"
    using chacha20poly1305_ietf.roundtrip [where ctx = ctx and st = st and m = "[1, 2, 3]" and ad = "[4]" and n = "replicate 24 5" and k = "replicate 32 6"] ok f
    by blast
  then have e: "crypto_aead_chacha20poly1305_ietf_encrypt ctx st [1, 2, 3] [4] (replicate 24 5) (replicate 32 6) = Some (c @ mac, 19)" "length (c @ mac) = 19"
    using chacha20poly1305_ietf_combined(1) [OF f] by (simp_all add: aead_seal_def)
  have "\<exists>m. crypto_aead_chacha20poly1305_ietf_encrypt ctx st m [4] (replicate 24 5) (replicate 32 6) = Some (c @ mac, 19)
      \<and> crypto_aead_chacha20poly1305_ietf_decrypt ctx st False (c @ mac) [4] (replicate 24 5) (replicate 32 6) = Some (0, Some m, 19 - 16)"
    using aead_authentic [of ctx st "replicate 24 5" "c @ mac" "[4]" "replicate 32 6"] ok e unfolding e(2) by auto
  then show ?thesis using e unfolding ctx_def st_def by auto
qed

end
