(* ===== verification/Secretbox.thy ===== *)
theory Secretbox
  imports Aead Salsa20
begin

unbundle bit_operations_syntax

text \<open>
  Secret-key boxes: \<^verbatim>\<open>crypto_secretbox/crypto_secretbox_easy.c\<close> (XSalsa20-Poly1305),
  \<^verbatim>\<open>crypto_secretbox/xchacha20poly1305\<close> and the NaCl interface on zero-padded buffers in
  \<^verbatim>\<open>crypto_secretbox/xsalsa20poly1305\<close>. The easy functions compute the first block of the
  stream in a local buffer; the \<^verbatim>\<open>memmove\<close> of overlapping buffers makes the result that of distinct
  ones, which is what lists model. \<open>st\<close> and \<open>ctx\<close> are uninitialised locals, \<open>None\<close> is
  \<^verbatim>\<open>sodium_misuse\<close>, and the opening functions return their code and what they wrote.
\<close>

section \<open>The code\<close>

definition crypto_secretbox_detached ::
  "poly1305_state_internal_t \<Rightarrow> byte list \<Rightarrow> byte list \<Rightarrow> byte list \<Rightarrow> byte list \<times> byte list" where
  "crypto_secretbox_detached st m n k =
    (let subkey = crypto_core_hsalsa20 n k None;
         mlen0 = (if length m > 64 - 32 then 64 - 32 else length m);
         block0 = crypto_stream_salsa20_xor (replicate 32 0 @ take mlen0 m) (drop 16 n) subkey;
         state = crypto_onetimeauth_poly1305_init st block0;
         c = drop 32 block0 @
           (if length m > mlen0 then crypto_stream_salsa20_xor_ic (drop mlen0 m) (drop 16 n) 1 subkey else []);
         state = crypto_onetimeauth_poly1305_update state c
     in (c, snd (crypto_onetimeauth_poly1305_final state)))"

definition crypto_secretbox_easy ::
  "poly1305_state_internal_t \<Rightarrow> byte list \<Rightarrow> byte list \<Rightarrow> byte list \<Rightarrow> byte list option" where
  "crypto_secretbox_easy st m n k =
    (if int (length m) > 18446744073709551615 - 16 then None
     else let (c, mac) = crypto_secretbox_detached st m n k in Some (mac @ c))"

definition crypto_secretbox_open_detached ::
  "poly1305_state_internal_t \<Rightarrow> bool \<Rightarrow> byte list \<Rightarrow> byte list \<Rightarrow> byte list \<Rightarrow> byte list \<Rightarrow> int \<times> byte list option" where
  "crypto_secretbox_open_detached st m_null c mac n k =
    (let subkey = crypto_core_hsalsa20 n k None;
         block0 = crypto_stream_salsa20 32 (drop 16 n) subkey
     in if crypto_onetimeauth_poly1305_verify st mac c block0 \<noteq> 0 then (-1, None)
        else if m_null then (0, None)
        else let mlen0 = (if length c > 64 - 32 then 64 - 32 else length c);
                 block0 = crypto_stream_salsa20_xor (block0 @ take mlen0 c) (drop 16 n) subkey
             in (0, Some (drop 32 block0 @
               (if length c > mlen0 then crypto_stream_salsa20_xor_ic (drop mlen0 c) (drop 16 n) 1 subkey else []))))"

definition crypto_secretbox_open_easy ::
  "poly1305_state_internal_t \<Rightarrow> bool \<Rightarrow> byte list \<Rightarrow> byte list \<Rightarrow> byte list \<Rightarrow> int \<times> byte list option" where
  "crypto_secretbox_open_easy st m_null c n k =
    (if length c < 16 then (-1, None)
     else crypto_secretbox_open_detached st m_null (drop 16 c) (take 16 c) n k)"

text \<open>The NaCl interface: 32 zero bytes in front of the message, 16 in front of the box.\<close>

definition crypto_secretbox_xsalsa20poly1305 ::
  "poly1305_state_internal_t \<Rightarrow> byte list \<Rightarrow> byte list \<Rightarrow> byte list \<Rightarrow> int \<times> byte list option" where
  "crypto_secretbox_xsalsa20poly1305 st m n k =
    (if length m < 32 then (-1, None)
     else let c = crypto_stream_xsalsa20_xor m n k;
              c = write_at c 16 (crypto_onetimeauth_poly1305 st (drop 32 c) c)
          in (0, Some (write_at c 0 (replicate 16 0))))"

definition crypto_secretbox_xsalsa20poly1305_open ::
  "poly1305_state_internal_t \<Rightarrow> byte list \<Rightarrow> byte list \<Rightarrow> byte list \<Rightarrow> int \<times> byte list option" where
  "crypto_secretbox_xsalsa20poly1305_open st c n k =
    (if length c < 32 then (-1, None)
     else let subkey = crypto_stream_xsalsa20 32 n k
          in if crypto_onetimeauth_poly1305_verify st (take 16 (drop 16 c)) (drop 32 c) subkey \<noteq> 0 then (-1, None)
             else (0, Some (write_at (crypto_stream_xsalsa20_xor c n k) 0 (replicate 32 0))))"

definition crypto_secretbox ::
  "poly1305_state_internal_t \<Rightarrow> byte list \<Rightarrow> byte list \<Rightarrow> byte list \<Rightarrow> int \<times> byte list option" where
  "crypto_secretbox st m n k = crypto_secretbox_xsalsa20poly1305 st m n k"

definition crypto_secretbox_open ::
  "poly1305_state_internal_t \<Rightarrow> byte list \<Rightarrow> byte list \<Rightarrow> byte list \<Rightarrow> int \<times> byte list option" where
  "crypto_secretbox_open st c n k = crypto_secretbox_xsalsa20poly1305_open st c n k"

subsection \<open>XChaCha20-Poly1305\<close>

definition crypto_secretbox_xchacha20poly1305_detached ::
  "chacha_ctx \<Rightarrow> poly1305_state_internal_t \<Rightarrow> byte list \<Rightarrow> byte list \<Rightarrow> byte list \<Rightarrow> (byte list \<times> byte list) option" where
  "crypto_secretbox_xchacha20poly1305_detached ctx st m n k = do {
     let subkey = crypto_core_hchacha20 n k None;
     let mlen0 = (if length m > 64 - 32 then 64 - 32 else length m);
     block0 \<leftarrow> crypto_stream_chacha20_xor ctx (replicate 32 0 @ take mlen0 m) (drop 16 n) subkey;
     let state = crypto_onetimeauth_poly1305_init st block0;
     rest \<leftarrow> (if length m > mlen0
              then crypto_stream_chacha20_xor_ic ctx (drop mlen0 m) (drop 16 n) 1 subkey else Some []);
     let c = drop 32 block0 @ rest;
     let state = crypto_onetimeauth_poly1305_update state c;
     Some (c, snd (crypto_onetimeauth_poly1305_final state))
   }"

definition crypto_secretbox_xchacha20poly1305_easy ::
  "chacha_ctx \<Rightarrow> poly1305_state_internal_t \<Rightarrow> byte list \<Rightarrow> byte list \<Rightarrow> byte list \<Rightarrow> byte list option" where
  "crypto_secretbox_xchacha20poly1305_easy ctx st m n k =
    (if int (length m) > 18446744073709551615 - 16 then None
     else do { (c, mac) \<leftarrow> crypto_secretbox_xchacha20poly1305_detached ctx st m n k; Some (mac @ c) })"

definition crypto_secretbox_xchacha20poly1305_open_detached ::
  "chacha_ctx \<Rightarrow> poly1305_state_internal_t \<Rightarrow> bool \<Rightarrow> byte list \<Rightarrow> byte list \<Rightarrow> byte list \<Rightarrow> byte list
    \<Rightarrow> (int \<times> byte list option) option" where
  "crypto_secretbox_xchacha20poly1305_open_detached ctx st m_null c mac n k = do {
     let subkey = crypto_core_hchacha20 n k None;
     block0 \<leftarrow> crypto_stream_chacha20 ctx 32 (drop 16 n) subkey;
     if crypto_onetimeauth_poly1305_verify st mac c block0 \<noteq> 0 then Some (-1, None)
     else if m_null then Some (0, None)
     else do {
       let mlen0 = (if length c > 64 - 32 then 64 - 32 else length c);
       block0 \<leftarrow> crypto_stream_chacha20_xor ctx (block0 @ take mlen0 c) (drop 16 n) subkey;
       rest \<leftarrow> (if length c > mlen0
                then crypto_stream_chacha20_xor_ic ctx (drop mlen0 c) (drop 16 n) 1 subkey else Some []);
       Some (0, Some (drop 32 block0 @ rest))
     }
   }"

definition crypto_secretbox_xchacha20poly1305_open_easy ::
  "chacha_ctx \<Rightarrow> poly1305_state_internal_t \<Rightarrow> bool \<Rightarrow> byte list \<Rightarrow> byte list \<Rightarrow> byte list
    \<Rightarrow> (int \<times> byte list option) option" where
  "crypto_secretbox_xchacha20poly1305_open_easy ctx st m_null c n k =
    (if length c < 16 then Some (-1, None)
     else crypto_secretbox_xchacha20poly1305_open_detached ctx st m_null (drop 16 c) (take 16 c) n k)"

section \<open>Specification\<close>

text \<open>The stream from byte 32 on, and the first 32 bytes as the one-time key.\<close>

definition box_cipher :: "(nat \<Rightarrow> byte list) \<Rightarrow> byte list \<Rightarrow> byte list" where
  "box_cipher b m = xor_list m (drop 32 (keystream b 0 (32 + length m)))"

definition box_tag :: "(nat \<Rightarrow> byte list) \<Rightarrow> byte list \<Rightarrow> byte list" where
  "box_tag b c = poly1305_spec (take 32 (b 0)) c"

text \<open>The two parts in which the code computes it: behind any 32 bytes in the first block, and from the
  second block on.\<close>

lemma box_cipher_split:
  assumes b: "\<And>i. length (b i) = 64"
  shows "box_cipher b m = xor_list (take 32 m) (drop 32 (b 0)) @ xor_list (drop 32 m) (keystream b 1 (length m - 32))"
proof (cases "length m \<le> 32")
  case True
  then show ?thesis
    using xor_list_take [of m "drop 32 (b 0)"] by (simp add: box_cipher_def keystream_short b drop_take)
next
  case False
  have l: "32 + length m = 64 + (length m - 32)" using False by simp
  have "keystream b 0 (32 + length m) = b 0 @ keystream b 1 (length m - 32)"
    unfolding l using keystream_block [of b 0] b by simp
  moreover have "m = take 32 m @ drop 32 m" by simp
  ultimately show ?thesis
    using False b xor_list_append [of "take 32 m" "drop 32 (b 0)" "drop 32 m" "keystream b 1 (length m - 32)"]
    by (simp add: box_cipher_def)
qed

context stream_cipher
begin

lemma length_box_cipher: "length (box_cipher (block k n) m) = length m"
  by (simp add: box_cipher_def length_ks)

lemma box_cipher_invol: "box_cipher (block k n) (box_cipher (block k n) m) = m"
  using length_box_cipher [of k n m] by (simp add: box_cipher_def length_ks xor_list_invol)

lemma box_first:
  assumes "valid k n" "fits 0 (32 + length m)" "length pre = 32"
  shows "xor_ic (pre @ take 32 m) n 0 k = Some (xor_list pre (take 32 (block k n 0)) @ take 32 (box_cipher (block k n) m))"
proof -
  let ?b = "block k n"
  have f: "fits 0 (length (pre @ take 32 m))"
  proof (cases "length m \<le> 32")
    case False
    then have "32 + length m = 64 * 1 + (length m - 32)" by simp
    then have "fits 0 (64 * 1)" using assms(2) fits_split by metis
    then show ?thesis using False assms(3) by simp
  qed (use assms in simp)
  have "keystream ?b 0 (length (pre @ take 32 m)) = take 32 (?b 0) @ take (length (take 32 m)) (drop 32 (?b 0))"
    using assms(3) take_add [of 32 "length (take 32 m)" "?b 0"] by (simp add: keystream_short length_block)
  then have "xor_ic (pre @ take 32 m) n 0 k
      = Some (xor_list pre (take 32 (?b 0)) @ xor_list (take 32 m) (drop 32 (?b 0)))"
    using assms(3) xor_list_take [of "take 32 m" "drop 32 (?b 0)"]
    by (simp add: xor_law [OF assms(1) f] xor_list_append length_block)
  moreover have "length (xor_list (take 32 m) (drop 32 (?b 0))) = min 32 (length m)"
    by (simp add: length_block)
  ultimately show ?thesis
    by (cases "length m \<le> 32") (simp_all add: box_cipher_split [OF length_block] xor_list_def [of "[]"])
qed

lemma box_rest:
  assumes "valid k n" "fits 0 (32 + length m)" "32 < length m"
  shows "xor_ic (drop 32 m) n 1 k = Some (drop 32 (box_cipher (block k n) m))"
proof -
  have "32 + length m = 64 * 1 + (length m - 32)" using assms(3) by simp
  then have "fits (0 + 1) (length m - 32)" using assms(2) fits_split by metis
  then show ?thesis
    using assms(1,3) xor_law [of k n 1 "drop 32 m"]
    by (simp add: box_cipher_split [OF length_block] length_block)
qed

end

lemma box_stream_parts:
  "take (if length m > 64 - 32 then 64 - 32 else length m) m = take 32 m"
  "length m > (if length m > 64 - 32 then 64 - 32 else length m) \<longleftrightarrow> 32 < length m"
  "32 < length m \<Longrightarrow> drop (if length m > 64 - 32 then 64 - 32 else length m) m = drop 32 m"
  by auto

lemma poly1305_spec_take: "32 \<le> length key \<Longrightarrow> poly1305_spec (take 32 key @ x) m = poly1305_spec (take 32 key) m"
  by (simp add: poly1305_spec_def poly_r_def poly_s_def min_def)

lemma poly1305_mac1:
  assumes "32 \<le> length key" "poly_mem st"
  shows "snd (crypto_onetimeauth_poly1305_final (crypto_onetimeauth_poly1305_update (crypto_onetimeauth_poly1305_init st key) m))
    = poly1305_spec key m"
  using poly1305.digest_one [of key st m] assms by simp

lemma poly1305_verify_tag:
  "32 \<le> length key \<Longrightarrow> poly_mem st \<Longrightarrow> length mac = 16 \<Longrightarrow>
    crypto_onetimeauth_poly1305_verify st mac m key = (if mac = poly1305_spec key m then 0 else -1)"
  by (simp add: crypto_onetimeauth_poly1305_verify_def crypto_onetimeauth_poly1305_donna_verify_def onetimeauth_donna_spec
      crypto_verify_16_def crypto_verify_n_eq)

section \<open>Boxes\<close>

locale secret_box =
  fixes block :: "byte list \<Rightarrow> byte list \<Rightarrow> nat \<Rightarrow> byte list"
    and valid :: "byte list \<Rightarrow> bool"
    and fits :: "nat \<Rightarrow> bool"
    and enc :: "byte list \<Rightarrow> byte list \<Rightarrow> byte list \<Rightarrow> (byte list \<times> byte list) option"
    and dec :: "bool \<Rightarrow> byte list \<Rightarrow> byte list \<Rightarrow> byte list \<Rightarrow> byte list \<Rightarrow> (int \<times> byte list option) option"
  assumes length_block: "length (block k n i) = 64"
    and enc_law: "valid n \<Longrightarrow> fits (length m) \<Longrightarrow> enc m n k
      = Some (box_cipher (block k n) m, box_tag (block k n) (box_cipher (block k n) m))"
    and dec_law: "valid n \<Longrightarrow> fits (length c) \<Longrightarrow> length mac = 16 \<Longrightarrow> dec null c mac n k
      = Some (if mac = box_tag (block k n) c then (0, if null then None else Some (box_cipher (block k n) c)) else (-1, None))"

text \<open>The buffers of the code are the parts of the specified stream.\<close>

lemma box_cipher_take:
  assumes "\<And>i. length (b i) = 64"
  shows "box_cipher b (take 32 m) = take 32 (box_cipher b m)"
  using assms by (cases "32 < length m") (simp_all add: box_cipher_split xor_list_def [of "[]"])

lemma box_parts: "length (box_cipher b m) = length m \<Longrightarrow> \<not> 32 < length m \<Longrightarrow> take 32 (box_cipher b m) = box_cipher b m"
  by simp

lemma xor_zeros_32: "length b = 64 \<Longrightarrow> xor_list (replicate 32 0) (take 32 b) = take 32 b"
  by (rule xor_list_zeros) simp

lemma salsa_box_parts:
  fixes k :: "byte list"
  assumes "length n = 24"
  defines "sk \<equiv> crypto_core_hsalsa20 n k None"
  shows "length pre = 32 \<Longrightarrow> crypto_stream_salsa20_xor (pre @ take 32 m) (drop 16 n) sk
      = xor_list pre (take 32 (xsalsa20_block k n 0)) @ take 32 (box_cipher (xsalsa20_block k n) m)"
    and "32 < length m \<Longrightarrow> crypto_stream_salsa20_xor_ic (drop 32 m) (drop 16 n) 1 sk = drop 32 (box_cipher (xsalsa20_block k n) m)"
    and "crypto_stream_salsa20 32 (drop 16 n) sk = take 32 (xsalsa20_block k n 0)"
proof -
  have n: "length (drop 16 n) = 8" using assms(1) by simp
  show "length pre = 32 \<Longrightarrow> crypto_stream_salsa20_xor (pre @ take 32 m) (drop 16 n) sk
      = xor_list pre (take 32 (xsalsa20_block k n 0)) @ take 32 (box_cipher (xsalsa20_block k n) m)"
    using salsa20.box_first [where k = sk and n = "drop 16 n" and m = m and pre = pre] n
    by (simp add: xsalsa20_block_def sk_def crypto_stream_salsa20_xor_def crypto_stream_salsa20_xor_ic_def)
  show "32 < length m \<Longrightarrow> crypto_stream_salsa20_xor_ic (drop 32 m) (drop 16 n) 1 sk = drop 32 (box_cipher (xsalsa20_block k n) m)"
    using salsa20.box_rest [where k = sk and n = "drop 16 n" and m = m] n by (simp add: xsalsa20_block_def sk_def)
  show "crypto_stream_salsa20 32 (drop 16 n) sk = take 32 (xsalsa20_block k n 0)"
    using salsa20.stream_law [where k = sk and n = "drop 16 n" and len = 32] n
    by (simp add: xsalsa20_block_def sk_def keystream_short)
qed

lemma chacha_box_parts:
  fixes k n :: "byte list"
  assumes "ctx_ok ctx" "length m + 32 < 2 ^ 64"
  defines "sk \<equiv> crypto_core_hchacha20 n k None"
  shows "length pre = 32 \<Longrightarrow> crypto_stream_chacha20_xor ctx (pre @ take 32 m) (drop 16 n) sk
      = Some (xor_list pre (take 32 (xchacha20_block k n 0)) @ take 32 (box_cipher (xchacha20_block k n) m))"
    and "32 < length m \<Longrightarrow>
      crypto_stream_chacha20_xor_ic ctx (drop 32 m) (drop 16 n) 1 sk = Some (drop 32 (box_cipher (xchacha20_block k n) m))"
    and "crypto_stream_chacha20 ctx 32 (drop 16 n) sk = Some (take 32 (xchacha20_block k n 0))"
proof -
  show "length pre = 32 \<Longrightarrow> crypto_stream_chacha20_xor ctx (pre @ take 32 m) (drop 16 n) sk
      = Some (xor_list pre (take 32 (xchacha20_block k n 0)) @ take 32 (box_cipher (xchacha20_block k n) m))"
    using chacha20.box_first [where ctx = ctx and k = sk and n = "drop 16 n" and m = m and pre = pre] assms(1,2)
    by (simp add: xchacha20_block_def sk_def crypto_stream_chacha20_xor_def crypto_stream_chacha20_xor_ic_def)
  show "32 < length m \<Longrightarrow>
      crypto_stream_chacha20_xor_ic ctx (drop 32 m) (drop 16 n) 1 sk = Some (drop 32 (box_cipher (xchacha20_block k n) m))"
    using chacha20.box_rest [where ctx = ctx and k = sk and n = "drop 16 n" and m = m] assms(1,2)
    by (simp add: xchacha20_block_def sk_def)
  show "crypto_stream_chacha20 ctx 32 (drop 16 n) sk = Some (take 32 (xchacha20_block k n 0))"
    using chacha20.stream_law [where ctx = ctx and k = sk and n = "drop 16 n" and len = 32] assms(1)
    by (simp add: xchacha20_block_def sk_def keystream_short)
qed

lemma box_parts_short:
  "length n = 24 \<Longrightarrow> \<not> 32 < length m \<Longrightarrow> length pre = 32 \<Longrightarrow>
    crypto_stream_salsa20_xor (pre @ m) (drop 16 n) (crypto_core_hsalsa20 n k None)
      = xor_list pre (take 32 (xsalsa20_block k n 0)) @ box_cipher (xsalsa20_block k n) m"
  "ctx_ok ctx \<Longrightarrow> \<not> 32 < length m \<Longrightarrow> length pre = 32 \<Longrightarrow>
    crypto_stream_chacha20_xor ctx (pre @ m) (drop 16 n) (crypto_core_hchacha20 n k None)
      = Some (xor_list pre (take 32 (xchacha20_block k n 0)) @ box_cipher (xchacha20_block k n) m)"
  using salsa_box_parts(1) [of n pre m k] chacha_box_parts(1) [of ctx m pre n k]
    xsalsa20.length_box_cipher [of k n m] xchacha20.length_box_cipher [of k n m]
  by simp_all

lemmas box_eqs = Let_def box_stream_parts box_parts xor_zeros_32 poly1305_mac1 poly1305_verify_tag poly1305_spec_take box_tag_def

interpretation secretbox: secret_box xsalsa20_block "\<lambda>n. poly_mem st \<and> length n = 24" "\<lambda>_. True"
  "\<lambda>m n k. Some (crypto_secretbox_detached st m n k)" "\<lambda>null c mac n k. Some (crypto_secretbox_open_detached st null c mac n k)" for st
  by unfold_locales
    (auto simp: crypto_secretbox_detached_def crypto_secretbox_open_detached_def box_eqs salsa_box_parts(2,3) box_parts_short
      box_cipher_take xsalsa20.length_block xsalsa20.length_box_cipher)

interpretation secretbox_xchacha: secret_box xchacha20_block "\<lambda>_. ctx_ok ctx \<and> poly_mem st" "\<lambda>len. len + 32 < 2 ^ 64"
  "crypto_secretbox_xchacha20poly1305_detached ctx st" "crypto_secretbox_xchacha20poly1305_open_detached ctx st" for ctx st
  by unfold_locales
    (auto simp: crypto_secretbox_xchacha20poly1305_detached_def crypto_secretbox_xchacha20poly1305_open_detached_def box_eqs
      chacha_box_parts(2,3) box_parts_short box_cipher_take xchacha20.length_block xchacha20.length_box_cipher)

text \<open>The combined functions put the tag first. What a box promises, over the laws of the detached
  functions: \<open>f\<close> is a combined encryption that agrees with the construction on the messages it accepts.\<close>

definition box_opened :: "(bool \<Rightarrow> byte list \<Rightarrow> byte list \<Rightarrow> byte list \<Rightarrow> byte list \<Rightarrow> (int \<times> byte list option) option)
    \<Rightarrow> byte list \<Rightarrow> byte list \<Rightarrow> byte list \<Rightarrow> (int \<times> byte list option) option" where
  "box_opened dec c n k = (if length c < 16 then Some (-1, None) else dec False (drop 16 c) (take 16 c) n k)"


context secret_box
begin

lemma box_cipher_facts: "length (box_cipher (block k n) m) = length m" "box_cipher (block k n) (box_cipher (block k n) m) = m"
  by (simp_all add: box_cipher_def length_keystream length_block xor_list_invol)

lemma length_box_tag: "length (box_tag (block k n) c) = 16"
  by (simp add: box_tag_def)

lemma open_cases:
  assumes n: "valid n" and c: "fits (length c - 16)" and m: "\<And>m. length m = length c - 16 \<Longrightarrow> f m = map_option (\<lambda>(c, mac). mac @ c) (enc m n k)"
    and l: "\<And>m x. f m = Some x \<Longrightarrow> length x = length m + 16"
  shows "(\<exists>m. f m = Some c \<and> box_opened dec c n k = Some (0, Some m)) \<or> (\<forall>m. f m \<noteq> Some c) \<and> box_opened dec c n k = Some (-1, None)"
proof (cases "16 \<le> length c \<and> take 16 c = box_tag (block k n) (drop 16 c)")
  case True
  let ?m = "box_cipher (block k n) (drop 16 c)"
  have "f ?m = Some (take 16 c @ drop 16 c)"
    using True c by (simp add: m box_cipher_facts enc_law [OF n] del: append_take_drop_id)
  then have "f ?m = Some c" by simp
  moreover have "box_opened dec c n k = Some (0, Some ?m)" using True c dec_law [OF n, of "drop 16 c" "take 16 c" False k]
    by (simp add: box_opened_def length_box_tag)
  ultimately show ?thesis by blast
next
  case False
  have "f x \<noteq> Some c" for x
  proof
    assume x: "f x = Some c"
    then have "length c = length x + 16" by (rule l)
    then show False using False x c m [of x] by (auto simp: enc_law [OF n] length_box_tag)
  qed
  moreover have "box_opened dec c n k = Some (-1, None)" using False c by (auto simp: box_opened_def dec_law [OF n])
  ultimately show ?thesis by blast
qed

lemma open_sealed:
  assumes "valid n" "fits (length m)"
  shows "Option.bind (map_option (\<lambda>(c, mac). mac @ c) (enc m n k)) (\<lambda>c. box_opened dec c n k) = Some (0, Some m)"
  using assms by (simp add: enc_law dec_law box_opened_def length_box_tag box_cipher_facts)

end

lemma secretbox_combined:
  "length m + 16 < 2 ^ 64 \<Longrightarrow>
    crypto_secretbox_easy st m n k = map_option (\<lambda>(c, mac). mac @ c) (Some (crypto_secretbox_detached st m n k))"
  "Some (crypto_secretbox_open_easy st False c n k)
    = box_opened (\<lambda>null c mac n k. Some (crypto_secretbox_open_detached st null c mac n k)) c n k"
  by (auto simp: crypto_secretbox_easy_def crypto_secretbox_open_easy_def box_opened_def split: prod.splits)

lemma secretbox_xchacha_combined:
  "length m + 16 < 2 ^ 64 \<Longrightarrow> crypto_secretbox_xchacha20poly1305_easy ctx st m n k
    = map_option (\<lambda>(c, mac). mac @ c) (crypto_secretbox_xchacha20poly1305_detached ctx st m n k)"
  "crypto_secretbox_xchacha20poly1305_open_easy ctx st False c n k
    = box_opened (crypto_secretbox_xchacha20poly1305_open_detached ctx st) c n k"
  by (auto simp: crypto_secretbox_xchacha20poly1305_easy_def crypto_secretbox_xchacha20poly1305_open_easy_def box_opened_def
      map_option_bind map_conv_bind_option comp_def intro!: bind_option_cong)

lemma length_secretbox_easy:
  assumes "poly_mem st" "length n = 24" "crypto_secretbox_easy st m n k = Some x"
  shows "length x = length m + 16"
  using assms secretbox.enc_law [where st = st and n = n and m = m and k = k]
  by (auto simp: crypto_secretbox_easy_def secretbox.box_cipher_facts secretbox.length_box_tag split: if_splits)

text \<open>Opening does not depend on what the local contexts held.\<close>

lemma secretbox_open_ctx:
  assumes "poly_mem st'" "poly_mem st" "length n = 24"
  shows "crypto_secretbox_open_easy st' False c n k = crypto_secretbox_open_easy st False c n k"
proof -
  have "Some (crypto_secretbox_open_easy st' False c n k) = Some (crypto_secretbox_open_easy st False c n k)"
    unfolding secretbox_combined(2) box_opened_def using assms
      secretbox.dec_law [where st = st and n = n and c = "drop 16 c" and mac = "take 16 c" and null = False and k = k]
      secretbox.dec_law [where st = st' and n = n and c = "drop 16 c" and mac = "take 16 c" and null = False and k = k] by simp
  then show ?thesis by simp
qed

lemma secretbox_xchacha_open_ctx:
  assumes "ctx_ok ctx'" "poly_mem st'" "ctx_ok ctx" "poly_mem st" "length c + 16 < 2 ^ 64"
  shows "crypto_secretbox_xchacha20poly1305_open_easy ctx' st' False c n k = crypto_secretbox_xchacha20poly1305_open_easy ctx st False c n k"
  unfolding secretbox_xchacha_combined(2) box_opened_def using assms
    secretbox_xchacha.dec_law [where ctx = ctx and st = st and n = n and c = "drop 16 c" and mac = "take 16 c" and null = False and k = k]
    secretbox_xchacha.dec_law [where ctx = ctx' and st = st' and n = n and c = "drop 16 c" and mac = "take 16 c" and null = False and k = k]
  by simp

lemma chacha_xor_length:
  "ctx_ok ctx \<Longrightarrow> crypto_stream_chacha20_xor ctx m n k = Some c \<Longrightarrow> length c = length m"
  "ctx_ok ctx \<Longrightarrow> crypto_stream_chacha20_xor_ic ctx m n ic k = Some c \<Longrightarrow> length c = length m"
  by (auto simp: crypto_stream_chacha20_xor_def crypto_stream_chacha20_xor_ic_def stream_ref_xor_ic_eq chacha20.length_ks
      split: if_splits)

lemma secretbox_xchacha_detached_unfold:
  "crypto_secretbox_xchacha20poly1305_detached ctx st m n k = do {
     b \<leftarrow> crypto_stream_chacha20_xor ctx (replicate 32 0 @ take 32 m) (drop 16 n) (crypto_core_hchacha20 n k None);
     r \<leftarrow> (if 32 < length m then crypto_stream_chacha20_xor_ic ctx (drop 32 m) (drop 16 n) 1 (crypto_core_hchacha20 n k None)
          else Some []);
     Some (drop 32 b @ r, snd (crypto_onetimeauth_poly1305_final
       (crypto_onetimeauth_poly1305_update (crypto_onetimeauth_poly1305_init st b) (drop 32 b @ r)))) }"
  by (cases "32 < length m") (simp_all add: crypto_secretbox_xchacha20poly1305_detached_def Let_def)

lemma length_secretbox_xchacha_detached:
  assumes ok: "ctx_ok ctx" "poly_mem st" and d: "crypto_secretbox_xchacha20poly1305_detached ctx st m n k = Some (c, mac)"
  shows "length c = length m" "length mac = 16"
proof -
  let ?k = "crypto_core_hchacha20 n k None"
  obtain b where b: "crypto_stream_chacha20_xor ctx (replicate 32 0 @ take 32 m) (drop 16 n) ?k = Some b"
    using d by (cases "crypto_stream_chacha20_xor ctx (replicate 32 0 @ take 32 m) (drop 16 n) ?k")
      (simp_all add: secretbox_xchacha_detached_unfold)
  then have lb: "length b = 32 + length (take 32 m)" using chacha_xor_length(1) [OF ok(1) b] by simp
  define r where "r = (if 32 < length m then crypto_stream_chacha20_xor_ic ctx (drop 32 m) (drop 16 n) 1 ?k else Some [])"
  have e: "crypto_secretbox_xchacha20poly1305_detached ctx st m n k
      = Option.bind r (\<lambda>r. Some (drop 32 b @ r, poly1305_spec b (drop 32 b @ r)))"
    using b lb ok(2) by (simp add: secretbox_xchacha_detached_unfold r_def poly1305_mac1)
  then obtain r' where r': "r = Some r'" and c: "c = drop 32 b @ r'" "mac = poly1305_spec b c" using d by (cases r) auto
  have "length r' = length m - 32"
    using r' chacha_xor_length(2) [OF ok(1), of "drop 32 m" "drop 16 n" 1 ?k r'] by (auto simp: r_def split: if_splits)
  then show "length c = length m" using lb by (simp add: c(1))
  show "length mac = 16" by (simp add: c(2))
qed

lemma length_secretbox_xchacha_easy:
  assumes "ctx_ok ctx" "poly_mem st" "crypto_secretbox_xchacha20poly1305_easy ctx st m n k = Some x"
  shows "length x = length m + 16"
  using assms length_secretbox_xchacha_detached [OF assms(1,2), of m n k]
  by (auto simp: crypto_secretbox_xchacha20poly1305_easy_def bind_eq_Some_conv split: if_splits)

section \<open>The NaCl interface\<close>

lemma xsalsa20_xor_padded:
  assumes "length n = 24" "length pre = 32"
  shows "crypto_stream_xsalsa20_xor (pre @ m) n k = xor_list pre (take 32 (xsalsa20_block k n 0)) @ box_cipher (xsalsa20_block k n) m"
proof -
  let ?b = "xsalsa20_block k n"
  have "crypto_stream_xsalsa20_xor (pre @ m) n k = xor_list (pre @ m) (keystream ?b 0 (32 + length m))"
    using xsalsa20.xor_law [where n = n and k = k and ic = 0 and m = "pre @ m"] assms
    by (simp add: crypto_stream_xsalsa20_xor_def)
  also have "keystream ?b 0 (32 + length m) = take 32 (?b 0) @ drop 32 (keystream ?b 0 (32 + length m))"
  proof -
    have "take 32 (keystream ?b 0 (32 + length m)) = take 32 (?b 0)"
      by (cases "length m \<le> 32") (simp_all add: keystream.simps [of ?b] xsalsa20.length_block)
    then show ?thesis by (metis append_take_drop_id)
  qed
  finally show ?thesis
    using assms(2) by (simp add: xor_list_append box_cipher_def xsalsa20.length_block)
qed

lemma secretbox_nacl_seal:
  assumes "poly_mem st" "length n = 24"
  shows "crypto_secretbox st (replicate 32 0 @ m) n k
    = (0, Some (replicate 16 0 @ (case crypto_secretbox_detached st m n k of (c, mac) \<Rightarrow> mac @ c)))"
proof -
  let ?b = "xsalsa20_block k n"
  have "crypto_secretbox_detached st m n k = (box_cipher ?b m, box_tag ?b (box_cipher ?b m))"
    using secretbox.enc_law [where st = st and n = n and m = m and k = k] assms by simp
  moreover have "crypto_stream_xsalsa20_xor (replicate 32 0 @ m) n k = take 32 (?b 0) @ box_cipher ?b m"
    using xsalsa20_xor_padded [OF assms(2), of "replicate 32 0"] by (simp add: xor_zeros_32 xsalsa20.length_block)
  ultimately show ?thesis
    using assms(1) by (simp add: crypto_secretbox_def crypto_secretbox_xsalsa20poly1305_def crypto_onetimeauth_poly1305_def
        onetimeauth_donna_spec xsalsa20.length_block poly1305_spec_take box_tag_def write_at_def)
qed

lemma secretbox_nacl_open:
  assumes "poly_mem st" "length n = 24" "16 \<le> length c"
  shows "crypto_secretbox_open st (replicate 16 0 @ c) n k
    = map_prod id (map_option ((@) (replicate 32 0))) (crypto_secretbox_open_easy st False c n k)"
proof -
  let ?b = "xsalsa20_block k n"
  have "crypto_secretbox_open_easy st False c n k
      = (if take 16 c = box_tag ?b (drop 16 c) then (0, Some (box_cipher ?b (drop 16 c))) else (-1, None))"
    using secretbox.dec_law [where st = st and n = n and c = "drop 16 c" and mac = "take 16 c" and null = False and k = k] assms
    by (simp add: crypto_secretbox_open_easy_def)
  moreover have "crypto_stream_xsalsa20 32 n k = take 32 (?b 0)"
    using xsalsa20.stream_law [where n = n and k = k and len = 32] assms(2) by (simp add: keystream_short)
  moreover have "crypto_stream_xsalsa20_xor (replicate 16 0 @ c) n k
      = xor_list (replicate 16 0 @ take 16 c) (take 32 (?b 0)) @ box_cipher ?b (drop 16 c)"
    using xsalsa20_xor_padded [OF assms(2), of "replicate 16 0 @ take 16 c" "drop 16 c"] assms(3) by simp
  ultimately show ?thesis
    using assms by (simp add: crypto_secretbox_open_def crypto_secretbox_xsalsa20poly1305_open_def poly1305_verify_tag
        xsalsa20.length_block box_tag_def write_at_def)
qed

section \<open>Properties\<close>

text \<open>C30: both secret boxes are authenticated encryption, whatever the local contexts of the sealing and of the opening call hold (for
  a nonce of 24 bytes and lengths whose sums with 32 fit 64 bits): opening a box gives the message back; a buffer that opens is the box of
  exactly the message that is returned, and every other buffer, shorter ones included, is refused with -1 and the output
  untouched.\<close>

theorem secretbox_authenticated:
  assumes "length (input ctx) = 16" "length (p_buffer st) = 16" "length (input ctx') = 16" "length (p_buffer st') = 16"
    "length n = 24" "length m + 32 < 2 ^ 64" "length c + 16 < 2 ^ 64"
  shows "map_option (\<lambda>c. crypto_secretbox_open_easy st' False c n k) (crypto_secretbox_easy st m n k) = Some (0, Some m)
    \<and> Option.bind (crypto_secretbox_xchacha20poly1305_easy ctx st m n k)
        (\<lambda>c. crypto_secretbox_xchacha20poly1305_open_easy ctx' st' False c n k) = Some (0, Some m)
    \<and> ((\<exists>m. crypto_secretbox_easy st m n k = Some c \<and> crypto_secretbox_open_easy st' False c n k = (0, Some m))
       \<or> (\<forall>m. crypto_secretbox_easy st m n k \<noteq> Some c) \<and> crypto_secretbox_open_easy st' False c n k = (-1, None))
    \<and> ((\<exists>m. crypto_secretbox_xchacha20poly1305_easy ctx st m n k = Some c
           \<and> crypto_secretbox_xchacha20poly1305_open_easy ctx' st' False c n k = Some (0, Some m))
       \<or> (\<forall>m. crypto_secretbox_xchacha20poly1305_easy ctx st m n k \<noteq> Some c)
           \<and> crypto_secretbox_xchacha20poly1305_open_easy ctx' st' False c n k = Some (-1, None))"
proof (intro conjI)
  have ok: "ctx_ok ctx" "poly_mem st" "length n = 24" "ctx_ok ctx'" "poly_mem st'" using assms by (simp_all add: ctx_ok_def)
  note open_ctx = secretbox_open_ctx [OF ok(5,2,3)] secretbox_xchacha_open_ctx [OF ok(4,5,1,2)]
  show "map_option (\<lambda>c. crypto_secretbox_open_easy st' False c n k) (crypto_secretbox_easy st m n k) = Some (0, Some m)"
    unfolding open_ctx(1) using secretbox.open_sealed [where st = st and m = m and n = n and k = k] ok assms(6)
    by (simp add: secretbox_combined(1) flip: secretbox_combined(2))
  have "Option.bind (crypto_secretbox_xchacha20poly1305_easy ctx st m n k)
        (\<lambda>c. crypto_secretbox_xchacha20poly1305_open_easy ctx st False c n k) = Some (0, Some m)"
    using secretbox_xchacha.open_sealed [where ctx = ctx and st = st and m = m and n = n and k = k] ok assms(6)
    by (simp add: secretbox_xchacha_combined)
  moreover have "crypto_secretbox_xchacha20poly1305_open_easy ctx' st' False c n k = crypto_secretbox_xchacha20poly1305_open_easy ctx st False c n k"
    if "crypto_secretbox_xchacha20poly1305_easy ctx st m n k = Some c" for c
    using length_secretbox_xchacha_easy [OF ok(1,2) that] assms(6) by (intro open_ctx(2)) simp
  ultimately show "Option.bind (crypto_secretbox_xchacha20poly1305_easy ctx st m n k)
        (\<lambda>c. crypto_secretbox_xchacha20poly1305_open_easy ctx' st' False c n k) = Some (0, Some m)"
    by (cases "crypto_secretbox_xchacha20poly1305_easy ctx st m n k") simp_all
  have "(\<exists>m. crypto_secretbox_easy st m n k = Some c \<and> Some (crypto_secretbox_open_easy st False c n k) = Some (0, Some m))
       \<or> (\<forall>m. crypto_secretbox_easy st m n k \<noteq> Some c) \<and> Some (crypto_secretbox_open_easy st False c n k) = Some (-1, None)"
    unfolding secretbox_combined(2) using ok assms(7)
    by (intro secretbox.open_cases) (auto simp: secretbox_combined(1) dest: length_secretbox_easy)
  then show "(\<exists>m. crypto_secretbox_easy st m n k = Some c \<and> crypto_secretbox_open_easy st' False c n k = (0, Some m))
       \<or> (\<forall>m. crypto_secretbox_easy st m n k \<noteq> Some c) \<and> crypto_secretbox_open_easy st' False c n k = (-1, None)"
    unfolding open_ctx(1) by simp
  show "(\<exists>m. crypto_secretbox_xchacha20poly1305_easy ctx st m n k = Some c
           \<and> crypto_secretbox_xchacha20poly1305_open_easy ctx' st' False c n k = Some (0, Some m))
       \<or> (\<forall>m. crypto_secretbox_xchacha20poly1305_easy ctx st m n k \<noteq> Some c)
           \<and> crypto_secretbox_xchacha20poly1305_open_easy ctx' st' False c n k = Some (-1, None)"
    unfolding open_ctx(2) [OF assms(7)] unfolding secretbox_xchacha_combined(2) using ok assms(7)
    by (intro secretbox_xchacha.open_cases) (auto simp: secretbox_xchacha_combined(1) dest: length_secretbox_xchacha_easy)
qed

theorem secretbox_authenticated_witness:
  "map_option (\<lambda>c. crypto_secretbox_open_easy \<lparr>p_r = [], p_h = [], p_pad = [], p_leftover = 9, p_buffer = replicate 16 8, p_final = 1\<rparr>
       False c (replicate 24 1) (replicate 32 2))
     (crypto_secretbox_easy \<lparr>p_r = [], p_h = [], p_pad = [], p_leftover = 0, p_buffer = replicate 16 0, p_final = 0\<rparr>
       [3, 4] (replicate 24 1) (replicate 32 2)) = Some (0, Some [3, 4])
   \<and> Option.bind (crypto_secretbox_xchacha20poly1305_easy \<lparr>input = replicate 16 0\<rparr>
         \<lparr>p_r = [], p_h = [], p_pad = [], p_leftover = 0, p_buffer = replicate 16 0, p_final = 0\<rparr> [3, 4] (replicate 24 1) (replicate 32 2))
       (\<lambda>c. crypto_secretbox_xchacha20poly1305_open_easy \<lparr>input = replicate 16 7\<rparr>
         \<lparr>p_r = [], p_h = [], p_pad = [], p_leftover = 9, p_buffer = replicate 16 8, p_final = 1\<rparr> False c (replicate 24 1) (replicate 32 2))
     = Some (0, Some [3, 4])"
proof -
  note * = secretbox_authenticated [of "\<lparr>input = replicate 16 0\<rparr>"
      "\<lparr>p_r = [], p_h = [], p_pad = [], p_leftover = 0, p_buffer = replicate 16 0, p_final = 0\<rparr>" "\<lparr>input = replicate 16 7\<rparr>"
      "\<lparr>p_r = [], p_h = [], p_pad = [], p_leftover = 9, p_buffer = replicate 16 8, p_final = 1\<rparr>" "replicate 24 1" "[3, 4]" "[]" "replicate 32 2"]
  show ?thesis by (intro conjI, rule * [THEN conjunct1], simp_all, rule * [THEN conjunct2, THEN conjunct1], simp_all)
qed

text \<open>The easy functions, which process the first block in a local buffer, agree with the NaCl functions on
  zero-padded buffers: sealing 32 zero bytes and the message gives 16 zero bytes and the easy box, and
  opening those gives the same code and the same message behind 32 zero bytes.\<close>

theorem secretbox_easy_nacl:
  assumes "length (p_buffer st) = 16" "length n = 24" "length m + 16 < 2 ^ 64" "16 \<le> length c"
  shows "Some (crypto_secretbox st (replicate 32 0 @ m) n k)
      = map_option (\<lambda>x. (0, Some (replicate 16 0 @ x))) (crypto_secretbox_easy st m n k)
    \<and> crypto_secretbox_open st (replicate 16 0 @ c) n k
      = map_prod id (map_option ((@) (replicate 32 0))) (crypto_secretbox_open_easy st False c n k)"
  using secretbox_nacl_seal [OF assms(1,2), of m k] secretbox_nacl_open [OF assms(1,2,4), of k]
    secretbox_combined(1) [OF assms(3), of st n k]
  by simp

theorem secretbox_easy_nacl_witness:
  "Some (crypto_secretbox \<lparr>p_r = [], p_h = [], p_pad = [], p_leftover = 0, p_buffer = replicate 16 0, p_final = 0\<rparr>
      (replicate 32 0 @ [3, 4]) (replicate 24 1) (replicate 32 2))
    = map_option (\<lambda>x. (0, Some (replicate 16 0 @ x)))
      (crypto_secretbox_easy \<lparr>p_r = [], p_h = [], p_pad = [], p_leftover = 0, p_buffer = replicate 16 0, p_final = 0\<rparr>
        [3, 4] (replicate 24 1) (replicate 32 2))"
  by (rule secretbox_easy_nacl [of "\<lparr>p_r = [], p_h = [], p_pad = [], p_leftover = 0, p_buffer = replicate 16 0, p_final = 0\<rparr>"
      "replicate 24 1" "[3, 4]" "replicate 16 0" "replicate 32 2", THEN conjunct1]) simp_all

end
