(* ===== verification/Secretstream.thy ===== *)
theory Secretstream
  imports Aead
begin

unbundle bit_operations_syntax

text \<open>
  \<^verbatim>\<open>crypto_secretstream/xchacha20poly1305\<close>: a stream of authenticated messages under one key. The state
  is the current key and the nonce, a 4-byte message counter and an 8-byte part that every tag is
  mixed into. \<open>ctx\<close> and \<open>pst\<close> are the uninitialised local contexts, \<open>None\<close> is
  \<^verbatim>\<open>sodium_misuse\<close>. The header of a stream is drawn with \<^verbatim>\<open>randombytes_buf\<close> and is an argument.
\<close>

section \<open>The code\<close>

record crypto_secretstream_xchacha20poly1305_state =
  ss_k :: "byte list"
  ss_nonce :: "byte list"
  ss_pad :: "byte list"

type_synonym ss_state = crypto_secretstream_xchacha20poly1305_state

definition counter_reset :: "ss_state \<Rightarrow> ss_state" where
  "counter_reset state = state\<lparr>ss_nonce := (write_at (ss_nonce state) 0 (replicate 4 0))[0 := 1]\<rparr>"

definition secretstream_init_push :: "ss_state \<Rightarrow> byte list \<Rightarrow> byte list \<Rightarrow> ss_state \<times> byte list" where
  "secretstream_init_push state out k =
    (let state = state\<lparr>ss_k := crypto_core_hchacha20 out k None\<rparr>;
         state = counter_reset state;
         state = state\<lparr>ss_nonce := write_at (ss_nonce state) 4 (take 8 (drop 16 out))\<rparr>
     in (state\<lparr>ss_pad := replicate 8 0\<rparr>, out))"

definition secretstream_init_pull :: "ss_state \<Rightarrow> byte list \<Rightarrow> byte list \<Rightarrow> ss_state" where
  "secretstream_init_pull state inp k =
    (let state = state\<lparr>ss_k := crypto_core_hchacha20 inp k None\<rparr>;
         state = counter_reset state;
         state = state\<lparr>ss_nonce := write_at (ss_nonce state) 4 (take 8 (drop 16 inp))\<rparr>
     in state\<lparr>ss_pad := replicate 8 0\<rparr>)"

definition secretstream_rekey :: "chacha_ctx \<Rightarrow> ss_state \<Rightarrow> ss_state option" where
  "secretstream_rekey ctx state = do {
     let new_key_and_inonce = take 32 (ss_k state) @ take 8 (drop 4 (ss_nonce state));
     new_key_and_inonce \<leftarrow> crypto_stream_chacha20_ietf_xor ctx new_key_and_inonce (ss_nonce state) (ss_k state);
     let state = state\<lparr>ss_k := write_at (ss_k state) 0 (take 32 new_key_and_inonce)\<rparr>;
     let state = state\<lparr>ss_nonce := write_at (ss_nonce state) 4 (drop 32 new_key_and_inonce)\<rparr>;
     Some (counter_reset state)
   }"

text \<open>The end of \<^verbatim>\<open>push\<close> and \<^verbatim>\<open>pull\<close>: the tag of the message goes into the nonce, the counter advances,
  and the key is changed on request and when the counter wraps.\<close>

definition secretstream_advance :: "chacha_ctx \<Rightarrow> ss_state \<Rightarrow> byte list \<Rightarrow> byte \<Rightarrow> ss_state option" where
  "secretstream_advance ctx state mac tag =
    (let state = state\<lparr>ss_nonce := take 4 (ss_nonce state) @ xor_buf (drop 4 (ss_nonce state)) mac 8\<rparr>;
         state = state\<lparr>ss_nonce := write_at (ss_nonce state) 0 (sodium_increment (take 4 (ss_nonce state)))\<rparr>
     in if tag AND 2 \<noteq> 0 \<or> sodium_is_zero (ss_nonce state) 4 \<noteq> 0 then secretstream_rekey ctx state else Some state)"

definition secretstream_pad0 :: "nat \<Rightarrow> byte list" where
  "secretstream_pad0 mlen = take (unat ((0x10 - 64 + of_nat mlen :: u64) AND 0xf)) (replicate 16 0)"

abbreviation secretstream_MESSAGEBYTES_MAX :: int where
  "secretstream_MESSAGEBYTES_MAX \<equiv> min (18446744073709551615 - 17) (64 * (2 ^ 32 - 2))"

definition secretstream_push ::
  "chacha_ctx \<Rightarrow> poly1305_state_internal_t \<Rightarrow> ss_state \<Rightarrow> byte list \<Rightarrow> byte list \<Rightarrow> byte
    \<Rightarrow> (ss_state \<times> byte list \<times> nat) option" where
  "secretstream_push ctx pst state m ad tag =
    (if int (length m) > secretstream_MESSAGEBYTES_MAX then None
     else do {
       block \<leftarrow> crypto_stream_chacha20_ietf ctx 64 (ss_nonce state) (ss_k state);
       let pst = crypto_onetimeauth_poly1305_init pst block;
       let pst = crypto_onetimeauth_poly1305_update pst ad;
       let pst = crypto_onetimeauth_poly1305_update pst (pad0 (length ad));
       let block = (replicate 64 0)[0 := tag];
       block \<leftarrow> crypto_stream_chacha20_ietf_xor_ic ctx block (ss_nonce state) 1 (ss_k state);
       let pst = crypto_onetimeauth_poly1305_update pst block;
       c \<leftarrow> crypto_stream_chacha20_ietf_xor_ic ctx m (ss_nonce state) 2 (ss_k state);
       let pst = crypto_onetimeauth_poly1305_update pst c;
       let pst = crypto_onetimeauth_poly1305_update pst (secretstream_pad0 (length m));
       let pst = crypto_onetimeauth_poly1305_update pst (store64_le (of_nat (length ad)));
       let pst = crypto_onetimeauth_poly1305_update pst (store64_le (64 + of_nat (length m)));
       let mac = snd (crypto_onetimeauth_poly1305_final pst);
       state \<leftarrow> secretstream_advance ctx state mac tag;
       Some (state, hd block # c @ mac, 17 + length m)
     })"

text \<open>\<^verbatim>\<open>pull\<close> returns the new state, its code, what it wrote to the message buffer, the message length and
  the tag byte.\<close>

definition secretstream_pull ::
  "chacha_ctx \<Rightarrow> poly1305_state_internal_t \<Rightarrow> ss_state \<Rightarrow> byte list \<Rightarrow> byte list
    \<Rightarrow> (ss_state \<times> int \<times> byte list option \<times> nat \<times> byte) option" where
  "secretstream_pull ctx pst state inp ad =
    (if length inp < 17 then Some (state, -1, None, 0, 0xff)
     else let mlen = length inp - 17 in
     if int mlen > secretstream_MESSAGEBYTES_MAX then None
     else do {
       block \<leftarrow> crypto_stream_chacha20_ietf ctx 64 (ss_nonce state) (ss_k state);
       let pst = crypto_onetimeauth_poly1305_init pst block;
       let pst = crypto_onetimeauth_poly1305_update pst ad;
       let pst = crypto_onetimeauth_poly1305_update pst (pad0 (length ad));
       let block = (replicate 64 0)[0 := inp ! 0];
       block \<leftarrow> crypto_stream_chacha20_ietf_xor_ic ctx block (ss_nonce state) 1 (ss_k state);
       let tag = block ! 0;
       let block = block[0 := inp ! 0];
       let pst = crypto_onetimeauth_poly1305_update pst block;
       let c = take mlen (drop 1 inp);
       let pst = crypto_onetimeauth_poly1305_update pst c;
       let pst = crypto_onetimeauth_poly1305_update pst (secretstream_pad0 mlen);
       let pst = crypto_onetimeauth_poly1305_update pst (store64_le (of_nat (length ad)));
       let pst = crypto_onetimeauth_poly1305_update pst (store64_le (64 + of_nat mlen));
       let mac = snd (crypto_onetimeauth_poly1305_final pst);
       let stored_mac = drop (1 + mlen) inp;
       if sodium_memcmp mac stored_mac 16 \<noteq> 0 then Some (state, -1, None, 0, 0xff)
       else do {
         m \<leftarrow> crypto_stream_chacha20_ietf_xor_ic ctx c (ss_nonce state) 2 (ss_k state);
         state \<leftarrow> secretstream_advance ctx state mac tag;
         Some (state, 0, Some m, mlen, tag)
       }
     })"

section \<open>States\<close>

definition ss_ok :: "ss_state \<Rightarrow> bool" where
  "ss_ok s \<longleftrightarrow> length (ss_k s) = 32 \<and> length (ss_nonce s) = 12"

definition ss_counter :: "ss_state \<Rightarrow> nat" where
  "ss_counter s = le_nat (take 4 (ss_nonce s))"

lemma ss_counter_zero: "ss_ok s \<Longrightarrow> sodium_is_zero (ss_nonce s) 4 \<noteq> 0 \<longleftrightarrow> ss_counter s = 0"
proof -
  assume "ss_ok s"
  then have "length (take 4 (ss_nonce s)) = 4" and l: "4 \<le> length (ss_nonce s)" by (simp_all add: ss_ok_def)
  have "le_nat xs = 0 \<longleftrightarrow> xs = replicate (length xs) 0" for xs
    by (induction xs) (auto simp: unsigned_eq_0_iff)
  from this [of "take 4 (ss_nonce s)"] show ?thesis
    using sodium_is_zero_eq [OF l] \<open>length (take 4 (ss_nonce s)) = 4\<close> by (simp add: ss_counter_def)
qed

lemma counter_reset_ok: "ss_ok s \<Longrightarrow> ss_ok (counter_reset s) \<and> ss_counter (counter_reset s) = 1"
  by (simp add: ss_ok_def ss_counter_def counter_reset_def write_at_def take_update_swap numeral_eq_Suc)

lemma length_hchacha20 [simp]: "length (crypto_core_hchacha20 inp k c) = 32"
  by (simp add: crypto_core_hchacha20_def Let_def)

lemma secretstream_init_ok:
  assumes "length (ss_nonce s) = 12" "length h = 24"
  shows "ss_ok (secretstream_init_pull s h k)" "ss_counter (secretstream_init_pull s h k) = 1"
    "secretstream_init_push s h k = (secretstream_init_pull s h k, h)"
  using assms by (simp_all add: secretstream_init_pull_def secretstream_init_push_def Let_def ss_ok_def ss_counter_def
      counter_reset_def write_at_def take_update_swap numeral_eq_Suc)

lemma ietf_xor_eq:
  assumes "ctx_ok ctx" "length m \<le> 2 ^ 38"
  shows "crypto_stream_chacha20_ietf_xor ctx m n k = Some (xor_list m (keystream (chacha20_ietf_block k n) 0 (length m)))"
  using ietf_ext_xor_ic_eq [OF assms(1), of 0 m n k] assms(2)
  by (simp add: crypto_stream_chacha20_ietf_xor_def crypto_stream_chacha20_ietf_ext_xor_def
      crypto_stream_chacha20_ietf_ext_xor_ic_def ietf_fits_def)

text \<open>The key change and the step to the next message, which never abort and do not depend on the local
  context.\<close>

definition ss_rekeyed :: "ss_state \<Rightarrow> ss_state" where
  "ss_rekeyed s = (let x = xor_list (ss_k s @ drop 4 (ss_nonce s)) (keystream (chacha20_ietf_block (ss_k s) (ss_nonce s)) 0 40)
     in s\<lparr>ss_k := take 32 x, ss_nonce := [1, 0, 0, 0] @ drop 32 x\<rparr>)"

lemma secretstream_rekey_eq:
  assumes "ctx_ok ctx" "ss_ok s"
  shows "secretstream_rekey ctx s = Some (ss_rekeyed s)"
proof -
  let ?x = "xor_list (ss_k s @ drop 4 (ss_nonce s)) (keystream (chacha20_ietf_block (ss_k s) (ss_nonce s)) 0 40)"
  have l: "length (ss_k s) = 32" "length (ss_nonce s) = 12" using assms(2) by (simp_all add: ss_ok_def)
  have x: "length ?x = 40" using l by (simp add: chacha20_ietf.length_ks)
  have w: "(write_at (write_at (ss_nonce s) 4 (drop 32 ?x)) 0 (replicate 4 0))[0 := 1] = [1, 0, 0, 0] @ drop 32 ?x"
    using l(2) x by (simp add: write_at_def numeral_eq_Suc)
  show ?thesis
    unfolding secretstream_rekey_def ss_rekeyed_def
    using l x ietf_xor_eq [OF assms(1), of "ss_k s @ drop 4 (ss_nonce s)"]
    by (simp add: Let_def counter_reset_def w)
qed

lemma ss_rekeyed_ok: "ss_ok s \<Longrightarrow> ss_ok (ss_rekeyed s) \<and> ss_counter (ss_rekeyed s) = 1"
  by (simp add: ss_rekeyed_def ss_ok_def ss_counter_def Let_def chacha20_ietf.length_ks)

definition ss_mixed :: "ss_state \<Rightarrow> byte list \<Rightarrow> ss_state" where
  "ss_mixed s mac = s\<lparr>ss_nonce := sodium_increment (take 4 (ss_nonce s)) @ xor_list (drop 4 (ss_nonce s)) (take 8 mac)\<rparr>"

definition ss_next :: "ss_state \<Rightarrow> byte list \<Rightarrow> byte \<Rightarrow> ss_state" where
  "ss_next s mac tag = (let s = ss_mixed s mac in if tag AND 2 \<noteq> 0 \<or> ss_counter s = 0 then ss_rekeyed s else s)"

lemma length_sodium_increment [simp]: "length (sodium_increment n) = length n"
  by (simp add: sodium_increment_def)

lemma ss_mixed_ok: "ss_ok s \<Longrightarrow> length mac = 16 \<Longrightarrow> ss_ok (ss_mixed s mac)"
  by (simp add: ss_ok_def ss_mixed_def)

lemma secretstream_advance_eq:
  assumes "ctx_ok ctx" "ss_ok s" "length mac = 16"
  shows "secretstream_advance ctx s mac tag = Some (ss_next s mac tag)"
proof -
  have l: "length (ss_nonce s) = 12" using assms(2) by (simp add: ss_ok_def)
  have "write_at (take 4 (ss_nonce s) @ xor_buf (drop 4 (ss_nonce s)) mac 8) 0 (sodium_increment (take 4 (ss_nonce s)))
      = sodium_increment (take 4 (ss_nonce s)) @ xor_list (drop 4 (ss_nonce s)) (take 8 mac)"
    using l by (simp add: write_at_def xor_buf_def)
  then have "secretstream_advance ctx s mac tag
      = (if tag AND 2 \<noteq> 0 \<or> sodium_is_zero (ss_nonce (ss_mixed s mac)) 4 \<noteq> 0
         then secretstream_rekey ctx (ss_mixed s mac) else Some (ss_mixed s mac))"
    using l by (simp add: secretstream_advance_def ss_mixed_def Let_def)
  then show ?thesis
    using ss_counter_zero [OF ss_mixed_ok [OF assms(2,3)]] secretstream_rekey_eq [OF assms(1) ss_mixed_ok [OF assms(2,3)]]
    by (simp add: ss_next_def Let_def)
qed

lemma ss_next_ok: "ss_ok s \<Longrightarrow> length mac = 16 \<Longrightarrow> ss_ok (ss_next s mac tag) \<and> ss_counter (ss_next s mac tag) \<noteq> 0"
  using ss_mixed_ok [of s mac] ss_rekeyed_ok [of "ss_mixed s mac"] by (auto simp: ss_next_def Let_def)

section \<open>Messages\<close>

text \<open>The tag of a message from the encrypted tag byte \<open>x\<close> and the ciphertext \<open>c\<close>.\<close>

definition ss_stream :: "ss_state \<Rightarrow> nat \<Rightarrow> byte list" where
  "ss_stream s = chacha20_ietf_block (ss_k s) (ss_nonce s)"

definition ss_mac :: "ss_state \<Rightarrow> byte list \<Rightarrow> byte \<Rightarrow> byte list \<Rightarrow> byte list" where
  "ss_mac s ad x c = poly1305_spec (ss_stream s 0)
     (ad @ block_pad (length ad) @ (x # tl (ss_stream s 1)) @ c @ replicate (length c mod 16) 0
       @ le_bytes 8 (length ad) @ le_bytes 8 (64 + length c))"

definition ss_text :: "ss_state \<Rightarrow> byte list \<Rightarrow> byte list" where
  "ss_text s m = xor_list m (keystream (ss_stream s) 2 (length m))"

definition ss_tag_byte :: "ss_state \<Rightarrow> byte \<Rightarrow> byte" where
  "ss_tag_byte s tag = tag XOR hd (ss_stream s 1)"

lemma length_ss_stream [simp]: "length (ss_stream s i) = 64"
  by (simp add: ss_stream_def chacha20_ietf.length_block)

lemma ss_text_facts: "length (ss_text s m) = length m" "ss_text s (ss_text s m) = m"
  by (simp_all add: ss_text_def length_keystream xor_list_invol)

lemma ss_tag_byte_invol: "ss_tag_byte s (ss_tag_byte s tag) = tag"
  by (simp add: ss_tag_byte_def xor.assoc)

lemma length_ss_mac [simp]: "length (ss_mac s ad x c) = 16"
  by (simp add: ss_mac_def)

lemma secretstream_pad0_eq: "secretstream_pad0 n = replicate (n mod 16) 0"
proof -
  define w where "w = (0x10 - 64 + of_nat n :: u64)"
  have "unat w = (unat (0x10 - 64 :: u64) + n) mod 2 ^ LENGTH(64)"
    unfolding w_def by (simp only: unat_word_ariths(1) unat_of_nat mod_add_right_eq)
  moreover have "(unat (0x10 - 64 :: u64) + n) mod 2 ^ LENGTH(64) mod 16 = (unat (0x10 - 64 :: u64) + n) mod 16"
    by (rule mod_mod_cancel) simp
  moreover have "unat (0x10 - 64 :: u64) = 16 * 1152921504606846973" by simp
  ultimately have m: "unat w mod 16 = n mod 16" by (simp only: mod_mult_self4)
  have "w AND 0xf = take_bit 4 w" by (simp add: take_bit_eq_mask mask_eq_exp_minus_1)
  then have "unat (w AND 0xf) = n mod 16" by (simp only: unsigned_take_bit_eq) (simp add: take_bit_eq_mod m)
  then show ?thesis unfolding secretstream_pad0_def w_def [symmetric] by (simp add: min_def)
qed

lemma poly1305_mac7:
  assumes "length key = 64" "poly_mem st"
  shows "snd (crypto_onetimeauth_poly1305_final (crypto_onetimeauth_poly1305_update (crypto_onetimeauth_poly1305_update
     (crypto_onetimeauth_poly1305_update (crypto_onetimeauth_poly1305_update (crypto_onetimeauth_poly1305_update
     (crypto_onetimeauth_poly1305_update (crypto_onetimeauth_poly1305_update
     (crypto_onetimeauth_poly1305_init st key) x0) x1) x2) x3) x4) x5) x6))
    = poly1305_spec key (x0 @ x1 @ x2 @ x3 @ x4 @ x5 @ x6)"
  using poly1305.digest_foldl [of key st "[x0, x1, x2, x3, x4, x5, x6]"] assms by simp

text \<open>The three uses of the stream cipher.\<close>

lemma ss_stream_laws:
  assumes "ctx_ok ctx"
  shows "crypto_stream_chacha20_ietf ctx 64 (ss_nonce s) (ss_k s) = Some (ss_stream s 0)"
    and "crypto_stream_chacha20_ietf_xor_ic ctx ((replicate 64 0)[0 := t]) (ss_nonce s) 1 (ss_k s)
      = Some (ss_tag_byte s t # tl (ss_stream s 1))"
    and "length m \<le> 64 * (2 ^ 32 - 2) \<Longrightarrow>
      crypto_stream_chacha20_ietf_xor_ic ctx m (ss_nonce s) 2 (ss_k s) = Some (ss_text s m)"
proof -
  have f: "ietf_fits 0 64" "ietf_fits 1 64" "length m \<le> 64 * (2 ^ 32 - 2) \<Longrightarrow> ietf_fits 2 (length m)"
    by (auto simp: ietf_fits_def)
  show "crypto_stream_chacha20_ietf ctx 64 (ss_nonce s) (ss_k s) = Some (ss_stream s 0)"
    using chacha20_ietf.stream_law [OF assms f(1)] by (simp add: keystream_64 ss_stream_def chacha20_ietf.length_block)
  have z: "(replicate 64 0)[0 := t] = t # replicate 63 0" by (simp add: numeral_eq_Suc)
  have "xor_list (t # replicate 63 0) (ss_stream s 1) = ss_tag_byte s t # tl (ss_stream s 1)"
  proof -
    have "ss_stream s 1 = hd (ss_stream s 1) # tl (ss_stream s 1)"
      using length_ss_stream [of s 1] by (metis list.size(3) list.collapse zero_neq_numeral)
    moreover have "xor_list (replicate 63 0) (tl (ss_stream s 1)) = tl (ss_stream s 1)" by (rule xor_list_zeros) simp
    ultimately show ?thesis by (metis (no_types, lifting) xor_list_def list.simps(9) zip_Cons_Cons split_conv ss_tag_byte_def)
  qed
  then show "crypto_stream_chacha20_ietf_xor_ic ctx ((replicate 64 0)[0 := t]) (ss_nonce s) 1 (ss_k s)
      = Some (ss_tag_byte s t # tl (ss_stream s 1))"
    using chacha20_ietf.xor_law [where ctx = ctx and ic = 1 and m = "t # replicate 63 0" and n = "ss_nonce s" and k = "ss_k s"] assms f(2)
    unfolding z by (simp add: keystream_64 ss_stream_def chacha20_ietf.length_block)
  show "length m \<le> 64 * (2 ^ 32 - 2) \<Longrightarrow>
      crypto_stream_chacha20_ietf_xor_ic ctx m (ss_nonce s) 2 (ss_k s) = Some (ss_text s m)"
    using chacha20_ietf.xor_law [where ctx = ctx and ic = 2 and m = m and n = "ss_nonce s" and k = "ss_k s"] assms f(3)
    by (simp add: ss_text_def ss_stream_def)
qed

lemma store64_le_length_64: "store64_le (64 + of_nat n) = le_bytes 8 (64 + n)"
  using store64_le_length [of "64 + n"] by simp

lemma secretstream_push_eq:
  fixes ad :: "byte list" and tag :: byte
  assumes ok: "ctx_ok ctx" "poly_mem pst" "ss_ok s" and m: "length m \<le> 64 * (2 ^ 32 - 2)"
  defines "x \<equiv> ss_tag_byte s tag"
  defines "mac \<equiv> ss_mac s ad x (ss_text s m)"
  shows "secretstream_push ctx pst s m ad tag = Some (ss_next s mac tag, x # ss_text s m @ mac, 17 + length m)"
proof -
  have "\<not> int (length m) > secretstream_MESSAGEBYTES_MAX" using m by simp
  then show ?thesis
    unfolding secretstream_push_def
    using ok m
    by (simp only: if_False ss_stream_laws [OF ok(1)] Let_def Option.bind.bind_lunit)
      (simp add: poly1305_mac7 pad0_eq secretstream_pad0_eq store64_le_length store64_le_length_64 mac_def x_def ss_mac_def
        ss_text_facts secretstream_advance_eq)
qed

lemma memcmp_tag: "length a = 16 \<Longrightarrow> length b = 16 \<Longrightarrow> sodium_memcmp a b 16 \<noteq> 0 \<longleftrightarrow> a \<noteq> b"
  by (simp add: sodium_memcmp_eq)

lemma secretstream_pull_eq:
  assumes ok: "ctx_ok ctx" "poly_mem pst" "ss_ok s" and l: "length mac = 16" "length c \<le> 64 * (2 ^ 32 - 2)"
  shows "secretstream_pull ctx pst s (x # c @ mac) ad =
    Some (if mac = ss_mac s ad x c then (ss_next s mac (ss_tag_byte s x), 0, Some (ss_text s c), length c, ss_tag_byte s x)
          else (s, -1, None, 0, 0xff))"
proof -
  have "\<not> length (x # c @ mac) < 17" "length (x # c @ mac) - 17 = length c" using l by simp_all
  moreover have "\<not> int (length c) > secretstream_MESSAGEBYTES_MAX" using l by simp
  moreover have "drop (1 + length c) (x # c @ mac) = mac" "take (length c) (drop 1 (x # c @ mac)) = c" by simp_all
  ultimately show ?thesis
    unfolding secretstream_pull_def
    using ok l
    by (simp only: if_False ss_stream_laws [OF ok(1)] Let_def Option.bind.bind_lunit nth_Cons_0)
      (auto simp: poly1305_mac7 pad0_eq secretstream_pad0_eq store64_le_length store64_le_length_64 ss_mac_def
        memcmp_tag ss_text_facts secretstream_advance_eq)
qed

lemma secretstream_pull_short: "length inp < 17 \<Longrightarrow> secretstream_pull ctx pst s inp ad = Some (s, -1, None, 0, 0xff)"
  by (simp add: secretstream_pull_def)

lemma split_message:
  assumes "17 \<le> length inp"
  obtains x c mac where "inp = x # c @ mac" "length mac = 16" "length c = length inp - 17"
proof -
  obtain x r where inp: "inp = x # r" using assms by (cases inp) auto
  let ?c = "take (length inp - 17) r" and ?mac = "drop (length inp - 17) r"
  have "inp = x # ?c @ ?mac" "length ?mac = 16" "length ?c = length inp - 17" using inp assms by simp_all
  then show ?thesis by (rule that)
qed

section \<open>Sequences of messages\<close>

text \<open>A sender and a receiver that process messages with their associated data and tags in order.\<close>

fun push_all :: "chacha_ctx \<Rightarrow> poly1305_state_internal_t \<Rightarrow> ss_state \<Rightarrow> (byte list \<times> byte list \<times> byte) list
    \<Rightarrow> (ss_state \<times> (byte list \<times> byte list) list) option" where
  "push_all ctx pst s [] = Some (s, [])"
| "push_all ctx pst s ((m, ad, tag) # ms) = do {
     (s, out, _) \<leftarrow> secretstream_push ctx pst s m ad tag;
     (s, outs) \<leftarrow> push_all ctx pst s ms;
     Some (s, (out, ad) # outs)
   }"

fun pull_all :: "chacha_ctx \<Rightarrow> poly1305_state_internal_t \<Rightarrow> ss_state \<Rightarrow> (byte list \<times> byte list) list
    \<Rightarrow> (ss_state \<times> (int \<times> byte list option \<times> byte) list) option" where
  "pull_all ctx pst s [] = Some (s, [])"
| "pull_all ctx pst s ((c, ad) # cs) = do {
     (s, r, m, _, tag) \<leftarrow> secretstream_pull ctx pst s c ad;
     (s, rs) \<leftarrow> pull_all ctx pst s cs;
     Some (s, (r, m, tag) # rs)
   }"

lemma push_pull_all:
  assumes ok: "ctx_ok ctx" "poly_mem pst" "ctx_ok ctx'" "poly_mem pst'"
  shows "ss_ok s \<Longrightarrow> \<forall>(m, ad, tag) \<in> set ms. length m \<le> 64 * (2 ^ 32 - 2) \<Longrightarrow>
    \<exists>s' outs. push_all ctx pst s ms = Some (s', outs)
      \<and> pull_all ctx' pst' s outs = Some (s', map (\<lambda>(m, ad, tag). (0, Some m, tag)) ms)"
proof (induction ms arbitrary: s)
  case Nil
  then show ?case by simp
next
  case (Cons x ms)
  obtain m ad tag where x: "x = (m, ad, tag)" by (cases x)
  let ?b = "ss_tag_byte s tag" and ?mac = "ss_mac s ad (ss_tag_byte s tag) (ss_text s m)"
  have m: "length m \<le> 64 * (2 ^ 32 - 2)" using Cons.prems(2) x by simp
  have n: "ss_ok (ss_next s ?mac tag)" using ss_next_ok [OF Cons.prems(1)] by simp
  obtain s' outs where ih: "push_all ctx pst (ss_next s ?mac tag) ms = Some (s', outs)"
    "pull_all ctx' pst' (ss_next s ?mac tag) outs = Some (s', map (\<lambda>(m, ad, tag). (0, Some m, tag)) ms)"
    using Cons.IH [OF n] Cons.prems(2) by auto
  have "push_all ctx pst s (x # ms) = Some (s', (?b # ss_text s m @ ?mac, ad) # outs)"
    using ih by (simp add: x secretstream_push_eq [OF ok(1,2) Cons.prems(1) m])
  moreover have "pull_all ctx' pst' s ((?b # ss_text s m @ ?mac, ad) # outs)
      = Some (s', (0, Some m, tag) # map (\<lambda>(m, ad, tag). (0, Some m, tag)) ms)"
    using ih m by (simp add: secretstream_pull_eq [OF ok(3,4) Cons.prems(1)] ss_text_facts ss_tag_byte_invol)
  ultimately show ?case by (auto simp: x)
qed

section \<open>Reachable states\<close>

inductive ss_step :: "ss_state \<Rightarrow> ss_state \<Rightarrow> bool" where
  step_push: "ctx_ok ctx \<Longrightarrow> poly_mem pst \<Longrightarrow> secretstream_push ctx pst s m ad tag = Some (s', out, l) \<Longrightarrow> ss_step s s'"
| step_pull: "ctx_ok ctx \<Longrightarrow> poly_mem pst \<Longrightarrow> secretstream_pull ctx pst s inp ad = Some (s', r, m, l, tag) \<Longrightarrow> ss_step s s'"
| step_rekey: "ctx_ok ctx \<Longrightarrow> secretstream_rekey ctx s = Some s' \<Longrightarrow> ss_step s s'"

definition ss_inv :: "ss_state \<Rightarrow> bool" where
  "ss_inv s \<longleftrightarrow> ss_ok s \<and> ss_counter s \<noteq> 0"

text \<open>Longer messages abort.\<close>

lemma secretstream_push_length: "secretstream_push ctx pst s m ad tag = Some r \<Longrightarrow> length m \<le> 64 * (2 ^ 32 - 2)"
  by (rule ccontr) (simp add: secretstream_push_def)

lemma secretstream_pull_length: "secretstream_pull ctx pst s inp ad = Some r \<Longrightarrow> length inp - 17 \<le> 64 * (2 ^ 32 - 2)"
proof (rule ccontr)
  assume r: "secretstream_pull ctx pst s inp ad = Some r" and "\<not> length inp - 17 \<le> 64 * (2 ^ 32 - 2)"
  then have "\<not> length inp < 17" "secretstream_MESSAGEBYTES_MAX < int (length inp - 17)" by simp_all
  then have "secretstream_pull ctx pst s inp ad = None" by (simp only: secretstream_pull_def if_False if_True Let_def)
  then show False using r by simp
qed

lemma ss_step_inv: "ss_step s s' \<Longrightarrow> ss_inv s \<Longrightarrow> ss_inv s'"
proof (induction rule: ss_step.induct)
  case (step_push ctx pst s m ad tag s' out l)
  have "length m \<le> 64 * (2 ^ 32 - 2)"
    using step_push(3) by (rule secretstream_push_length)
  from secretstream_push_eq [OF step_push(1,2) _ this, of s ad tag] step_push(3,4)
  have "s' = ss_next s (ss_mac s ad (ss_tag_byte s tag) (ss_text s m)) tag" by (simp add: ss_inv_def)
  then show ?case using step_push(4) ss_next_ok [of s _ tag] by (simp add: ss_inv_def)
next
  case (step_pull ctx pst s inp ad s' r m l tag)
  show ?case
  proof (cases "length inp < 17")
    case True
    then show ?thesis using step_pull by (simp add: secretstream_pull_short)
  next
    case False
    then obtain x c mac where i: "inp = x # c @ mac" "length mac = 16" "length c = length inp - 17"
      using split_message [of inp] by (metis not_less)
    then have "length c \<le> 64 * (2 ^ 32 - 2)"
      using secretstream_pull_length [OF step_pull(3)] by simp
    from secretstream_pull_eq [OF step_pull(1,2) _ i(2) this, of s x ad] step_pull(3,4)
    have "s' = s \<or> s' = ss_next s mac (ss_tag_byte s x)"
      unfolding i(1) ss_inv_def by (simp split: if_splits)
    then show ?thesis
      using step_pull(4) ss_next_ok [of s mac] i(2) unfolding ss_inv_def by blast
  qed
next
  case (step_rekey ctx s s')
  then show ?case using ss_rekeyed_ok [of s] by (auto simp: ss_inv_def secretstream_rekey_eq)
qed

lemma secretstream_init_eq:
  assumes "length (ss_nonce s) = 12" "length h = 24"
  shows "secretstream_init_pull s h k
    = \<lparr>ss_k = crypto_core_hchacha20 h k None, ss_nonce = [1, 0, 0, 0] @ drop 16 h, ss_pad = replicate 8 0\<rparr>"
proof -
  have "write_at ((write_at (ss_nonce s) 0 (replicate 4 0))[0 := 1]) 4 (take 8 (drop 16 h)) = [1, 0, 0, 0] @ drop 16 h"
    using assms by (simp add: write_at_def numeral_eq_Suc)
  then show ?thesis by (simp add: secretstream_init_pull_def Let_def counter_reset_def)
qed

text \<open>The state after a message, from the buffer that was sent or received.\<close>

lemma message_state:
  assumes ok: "ctx_ok ctx" "poly_mem pst" "ss_ok t"
  shows "secretstream_push ctx pst t m ad tag = Some (t', buf, l) \<Longrightarrow>
      t' = ss_next t (drop (length buf - 16) buf) tag \<and> 17 \<le> length buf"
    and "secretstream_pull ctx pst t buf ad = Some (t', 0, m', l', tag) \<Longrightarrow>
      t' = ss_next t (drop (length buf - 16) buf) tag \<and> 17 \<le> length buf"
proof -
  assume p: "secretstream_push ctx pst t m ad tag = Some (t', buf, l)"
  then show "t' = ss_next t (drop (length buf - 16) buf) tag \<and> 17 \<le> length buf"
    using secretstream_push_eq [OF ok secretstream_push_length [OF p], of ad tag] by auto
next
  assume p: "secretstream_pull ctx pst t buf ad = Some (t', 0, m', l', tag)"
  then have "\<not> length buf < 17" by (auto simp: secretstream_pull_short)
  then obtain x c mac where i: "buf = x # c @ mac" "length mac = 16" "length c = length buf - 17"
    using split_message [of buf] by (metis not_less)
  then have "length c \<le> 64 * (2 ^ 32 - 2)" using secretstream_pull_length [OF p] by simp
  from secretstream_pull_eq [OF ok i(2) this, of x ad] p show "t' = ss_next t (drop (length buf - 16) buf) tag \<and> 17 \<le> length buf"
    unfolding i(1) using i(2) by (auto split: if_splits)
qed

lemma ss_next_cases:
  assumes "ss_ok t" "length mac = 16"
  defines "inonce \<equiv> xor_list (drop 4 (ss_nonce t)) (take 8 mac)"
  shows "if tag AND 2 \<noteq> 0 \<or> ss_counter t = 2 ^ 32 - 1
    then ss_k (ss_next t mac tag) @ drop 4 (ss_nonce (ss_next t mac tag)) = xor_list (ss_k t @ inonce)
              (keystream (chacha20_ietf_block (ss_k t) (le_bytes 4 (ss_counter t + 1) @ inonce)) 0 40)
            \<and> length (ss_k (ss_next t mac tag)) = 32 \<and> ss_counter (ss_next t mac tag) = 1
    else ss_k (ss_next t mac tag) = ss_k t \<and> drop 4 (ss_nonce (ss_next t mac tag)) = inonce \<and> ss_counter (ss_next t mac tag) = ss_counter t + 1"
proof -
  have l: "length (take 4 (ss_nonce t)) = 4" "length inonce = 8" "length (ss_k t) = 32" using assms by (simp_all add: ss_ok_def)
  have lt: "ss_counter t < 2 ^ 32" using le_nat_less [of "take 4 (ss_nonce t)"] l(1) by (simp add: ss_counter_def)
  have inc: "le_nat (sodium_increment (take 4 (ss_nonce t))) = (ss_counter t + 1) mod 2 ^ 32"
    using increment_loop_nat [where c = "1 :: u64" and n = "take 4 (ss_nonce t)"] l(1) by (simp add: sodium_increment_def ss_counter_def)
  have bytes: "sodium_increment (take 4 (ss_nonce t)) = le_bytes 4 (ss_counter t + 1)"
    using inc l(1) by (intro le_nat_inject) (simp_all add: le_nat_le_bytes)
  have n: "ss_nonce (ss_mixed t mac) = le_bytes 4 (ss_counter t + 1) @ inonce" "ss_k (ss_mixed t mac) = ss_k t"
    by (simp_all add: ss_mixed_def bytes inonce_def)
  have c: "ss_counter (ss_mixed t mac) = (ss_counter t + 1) mod 2 ^ 32" by (simp add: ss_counter_def [of "ss_mixed t mac"] n(1) le_nat_le_bytes)
  then have z: "ss_counter (ss_mixed t mac) = 0 \<longleftrightarrow> ss_counter t = 2 ^ 32 - 1" using lt by (auto simp: mod_Suc)
  have r: "ss_k (ss_rekeyed (ss_mixed t mac)) @ drop 4 (ss_nonce (ss_rekeyed (ss_mixed t mac))) = xor_list (ss_k t @ inonce)
      (keystream (chacha20_ietf_block (ss_k t) (le_bytes 4 (ss_counter t + 1) @ inonce)) 0 40)"
    by (simp add: ss_rekeyed_def Let_def n)
  have ok: "ss_ok (ss_mixed t mac)" using ss_mixed_ok assms by blast
  show ?thesis
  proof (cases "tag AND 2 \<noteq> 0 \<or> ss_counter t = 2 ^ 32 - 1")
    case True
    then have "ss_next t mac tag = ss_rekeyed (ss_mixed t mac)" by (simp add: ss_next_def Let_def z)
    then show ?thesis using True r ss_rekeyed_ok [OF ok] by (simp add: ss_ok_def)
  next
    case False
    then have "ss_next t mac tag = ss_mixed t mac" "ss_counter t + 1 < 2 ^ 32" using lt by (auto simp: ss_next_def Let_def z)
    then show ?thesis using False c n by simp
  qed
qed

section \<open>Properties\<close>

text \<open>C24: sender and receiver stay synchronised: for every key, header and sequence of messages with associated data
  and tags, of lengths the code accepts, pushing the sequence succeeds, pulling the produced ciphertexts in order returns 0
  and exactly the messages and tags, through all key changes, and both ends reach the same state.\<close>

theorem secretstream_synchronised:
  assumes "length (input ctx) = 16" "length (p_buffer pst) = 16" "length (input ctx') = 16" "length (p_buffer pst') = 16"
    "length (ss_nonce s) = 12" "length (ss_nonce s') = 12" "length header = 24"
    "\<forall>(m, ad, tag) \<in> set ms. length m \<le> 64 * (2 ^ 32 - 2)"
  shows "\<exists>e outs. push_all ctx pst (fst (secretstream_init_push s header k)) ms = Some (e, outs)
    \<and> pull_all ctx' pst' (secretstream_init_pull s' header k) outs = Some (e, map (\<lambda>(m, ad, tag). (0, Some m, tag)) ms)"
proof -
  have ok: "ctx_ok ctx" "poly_mem pst" "ctx_ok ctx'" "poly_mem pst'" using assms by (simp_all add: ctx_ok_def)
  have eq: "fst (secretstream_init_push s header k) = secretstream_init_pull s' header k"
    by (simp only: secretstream_init_ok(3) [OF assms(5,7)] fst_conv secretstream_init_eq [OF assms(5,7)]
        secretstream_init_eq [OF assms(6,7)])
  show ?thesis unfolding eq using secretstream_init_ok(1) [OF assms(6,7)] assms(8) by (rule push_pull_all [OF ok])
qed

theorem secretstream_synchronised_witness:
  "\<exists>e outs. push_all \<lparr>input = replicate 16 0\<rparr> \<lparr>p_r = [], p_h = [], p_pad = [], p_leftover = 0, p_buffer = replicate 16 0, p_final = 0\<rparr>
      (fst (secretstream_init_push \<lparr>ss_k = [], ss_nonce = replicate 12 0, ss_pad = []\<rparr> (replicate 24 1) (replicate 32 2)))
      [([3], [], 0), ([], [4], 2), ([5, 6], [], 3)] = Some (e, outs)
    \<and> pull_all \<lparr>input = replicate 16 7\<rparr> \<lparr>p_r = [], p_h = [], p_pad = [], p_leftover = 9, p_buffer = replicate 16 8, p_final = 0\<rparr>
      (secretstream_init_pull \<lparr>ss_k = [], ss_nonce = replicate 12 9, ss_pad = []\<rparr> (replicate 24 1) (replicate 32 2)) outs
      = Some (e, [(0, Some [3], 0), (0, Some [], 2), (0, Some [5, 6], 3)])"
  using secretstream_synchronised [of "\<lparr>input = replicate 16 0\<rparr>"
      "\<lparr>p_r = [], p_h = [], p_pad = [], p_leftover = 0, p_buffer = replicate 16 0, p_final = 0\<rparr>" "\<lparr>input = replicate 16 7\<rparr>"
      "\<lparr>p_r = [], p_h = [], p_pad = [], p_leftover = 9, p_buffer = replicate 16 8, p_final = 0\<rparr>"
      "\<lparr>ss_k = [], ss_nonce = replicate 12 0, ss_pad = []\<rparr>" "\<lparr>ss_k = [], ss_nonce = replicate 12 9, ss_pad = []\<rparr>"
      "replicate 24 1" "[([3], [], 0), ([], [4], 2), ([5, 6], [], 3)]" "replicate 32 2"]
  by (simp del: push_all.simps pull_all.simps)

text \<open>C26: in every state reached from an initialised one by pushes, pulls (successful or not) and explicit key changes, the
  key has 32 bytes, the nonce 12, and the message counter is never 0. A message pushed or pulled successfully in any state \<open>t\<close> mixes the
  message's authenticator into the nonce and advances the counter; when the tag asks for it or the counter would wrap to 0, the key
  and the rest of the nonce are then encrypted with themselves and the counter restarts at 1; otherwise the key stays.\<close>

theorem secretstream_invariant:
  fixes t :: ss_state and buf :: "byte list"
  assumes "ss_step\<^sup>*\<^sup>* (secretstream_init_pull s0 header k) s" "length (ss_nonce s0) = 12" "length header = 24"
    "length (input ctx) = 16" "length (p_buffer pst) = 16" "length (ss_k t) = 32" "length (ss_nonce t) = 12"
    "secretstream_push ctx pst t m ad tag = Some (t', buf, l) \<or> secretstream_pull ctx pst t buf ad = Some (t', 0, m', l', tag)"
  defines "count \<equiv> \<lambda>u :: ss_state. le_nat (take 4 (ss_nonce u))"
  defines "inonce \<equiv> xor_list (drop 4 (ss_nonce t)) (take 8 (drop (length buf - 16) buf))"
  shows "length (ss_k s) = 32 \<and> length (ss_nonce s) = 12 \<and> count s \<noteq> 0
    \<and> (if tag AND 2 \<noteq> 0 \<or> count t = 2 ^ 32 - 1
       then ss_k t' @ drop 4 (ss_nonce t') = xor_list (ss_k t @ inonce)
              (keystream (chacha20_ietf_block (ss_k t) (le_bytes 4 (count t + 1) @ inonce)) 0 40)
            \<and> length (ss_k t') = 32 \<and> count t' = 1
       else ss_k t' = ss_k t \<and> drop 4 (ss_nonce t') = inonce \<and> count t' = count t + 1)"
proof -
  have "ss_inv s" using assms(1)
  proof (induction rule: rtranclp_induct)
    case base
    then show ?case using secretstream_init_ok [OF assms(2,3)] by (simp add: ss_inv_def)
  next
    case (step y z)
    then show ?case using ss_step_inv by blast
  qed
  have ok: "ctx_ok ctx" "poly_mem pst" "ss_ok t" using assms(4-7) by (simp_all add: ctx_ok_def ss_ok_def)
  then have "t' = ss_next t (drop (length buf - 16) buf) tag \<and> 17 \<le> length buf" using assms(8) message_state by blast
  then have t': "t' = ss_next t (drop (length buf - 16) buf) tag" "length (drop (length buf - 16) buf) = 16" by simp_all
  have count: "count = ss_counter" by (simp add: count_def ss_counter_def fun_eq_iff)
  note cases = ss_next_cases [OF ok(3) t'(2), of tag, folded t'(1)]
  show ?thesis unfolding count inonce_def using \<open>ss_inv s\<close> cases unfolding ss_inv_def ss_ok_def by blast
qed

theorem secretstream_invariant_witness:
  "\<exists>t' out. secretstream_push \<lparr>input = replicate 16 0\<rparr> \<lparr>p_r = [], p_h = [], p_pad = [], p_leftover = 0, p_buffer = replicate 16 0, p_final = 0\<rparr>
      \<lparr>ss_k = replicate 32 2, ss_nonce = replicate 4 255 @ replicate 8 1, ss_pad = []\<rparr> [7] [] 0 = Some (t', out, 18)
    \<and> ss_k t' @ drop 4 (ss_nonce t') = xor_list (replicate 32 2 @ xor_list (replicate 8 1) (take 8 (drop (length out - 16) out)))
        (keystream (chacha20_ietf_block (replicate 32 2) (replicate 4 0 @ xor_list (replicate 8 1) (take 8 (drop (length out - 16) out)))) 0 40)
    \<and> le_nat (take 4 (ss_nonce t')) = 1"
proof -
  define ctx where "ctx = \<lparr>input = replicate 16 (0 :: u32)\<rparr>"
  define pst where "pst = \<lparr>p_r = [], p_h = [], p_pad = [], p_leftover = 0, p_buffer = replicate 16 0, p_final = 0\<rparr>"
  define t :: ss_state where "t = \<lparr>ss_k = replicate 32 2, ss_nonce = replicate 4 255 @ replicate 8 1, ss_pad = []\<rparr>"
  define s0 :: ss_state where "s0 = \<lparr>ss_k = [], ss_nonce = replicate 12 9, ss_pad = []\<rparr>"
  have ok: "ctx_ok ctx" "poly_mem pst" "ss_ok t" "length (input ctx) = 16" by (simp_all add: ctx_ok_def ss_ok_def ctx_def pst_def t_def)
  obtain t' out where p: "secretstream_push ctx pst t [7] [] 0 = Some (t', out, 18)"
    using secretstream_push_eq [OF ok(1-3), of "[7]" "[]" 0] by simp
  have four: "replicate 4 b = [b, b, b, b]" for b :: byte by (simp add: numeral_eq_Suc)
  have c: "le_nat (take 4 (ss_nonce t)) = 2 ^ 32 - 1" "drop 4 (ss_nonce t) = replicate 8 1" "ss_k t = replicate 32 2"
    by (simp_all add: t_def) (simp add: four)
  have "le_nat (replicate 4 0) = 0" by (simp add: four)
  then have "le_bytes 4 (2 ^ 32) = replicate 4 (0 :: byte)" by (intro le_nat_inject) (simp_all add: le_nat_le_bytes)
  then have b: "le_bytes 4 (2 ^ 32 - 1 + 1) = replicate 4 (0 :: byte)" by simp
  have "length (ss_nonce s0) = 12" "length (replicate 24 (1 :: byte)) = 24" "length (ss_k t) = 32" "length (ss_nonce t) = 12" by (simp_all add: s0_def t_def)
  note secretstream_invariant [OF rtranclp.rtrancl_refl this(1,2) ok(4,2) this(3,4) disjI1 [OF p], unfolded c b]
  then have "ss_k t' @ drop 4 (ss_nonce t') = xor_list (replicate 32 2 @ xor_list (replicate 8 1) (take 8 (drop (length out - 16) out)))
        (keystream (chacha20_ietf_block (replicate 32 2) (replicate 4 0 @ xor_list (replicate 8 1) (take 8 (drop (length out - 16) out)))) 0 40)"
    "le_nat (take 4 (ss_nonce t')) = 1" by (simp_all only: refl simp_thms if_True)
  then show ?thesis using p unfolding ctx_def pst_def t_def by blast
qed

text \<open>C25: a message is accepted exactly when it is what a sender in the receiver's state produces for the returned message
  and tag; both then move to the same next state. Any other input of an acceptable length is refused with -1, a zero length
  and the tag 255, writes nothing and leaves the state unchanged, so that the stream can go on.\<close>

theorem secretstream_pull_authentic:
  assumes "length (input ctx) = 16" "length (p_buffer pst) = 16" "length (ss_k s) = 32" "length (ss_nonce s) = 12"
    "length inp - 17 \<le> 64 * (2 ^ 32 - 2)"
  shows "(\<exists>m tag s'. secretstream_push ctx pst s m ad tag = Some (s', inp, length inp)
        \<and> secretstream_pull ctx pst s inp ad = Some (s', 0, Some m, length m, tag))
    \<or> (\<forall>m tag s'. secretstream_push ctx pst s m ad tag \<noteq> Some (s', inp, length inp))
        \<and> secretstream_pull ctx pst s inp ad = Some (s, -1, None, 0, 0xff)"
proof -
  have ok: "ctx_ok ctx" "poly_mem pst" "ss_ok s" using assms by (simp_all add: ctx_ok_def ss_ok_def)
  have no: "secretstream_push ctx pst s m ad tag \<noteq> Some (s', inp, length inp)"
    if bad: "\<And>x c. inp \<noteq> x # c @ ss_mac s ad x c" for m tag s'
  proof
    assume p: "secretstream_push ctx pst s m ad tag = Some (s', inp, length inp)"
    then have "length m \<le> 64 * (2 ^ 32 - 2)" by (rule secretstream_push_length)
    then show False using p bad secretstream_push_eq [OF ok, of m ad tag] by auto
  qed
  show ?thesis
  proof (cases "length inp < 17")
    case True
    moreover have "inp \<noteq> x # c @ ss_mac s ad x c" for x c
    proof
      assume "inp = x # c @ ss_mac s ad x c"
      then have "length inp = 17 + length c" by simp
      then show False using True by simp
    qed
    ultimately show ?thesis using no by (simp add: secretstream_pull_short)
  next
    case False
    then obtain x c mac where i: "inp = x # c @ mac" "length mac = 16" "length c = length inp - 17"
      using split_message [of inp] by (metis not_less)
    have l: "length c \<le> 64 * (2 ^ 32 - 2)" using i(3) assms(5) by simp
    have li: "length inp = 17 + length c" using i(3) False by simp
    note pull = secretstream_pull_eq [OF ok i(2) l, of x ad, folded i(1)]
    show ?thesis
    proof (cases "mac = ss_mac s ad x c")
      case True
      have "length (ss_text s c) \<le> 64 * (2 ^ 32 - 2)" using l by (simp add: ss_text_facts)
      from secretstream_push_eq [OF ok this, of ad "ss_tag_byte s x"]
      have "secretstream_push ctx pst s (ss_text s c) ad (ss_tag_byte s x) = Some (ss_next s mac (ss_tag_byte s x), inp, length inp)"
        unfolding ss_text_facts ss_tag_byte_invol True [symmetric] i(1) [symmetric] li .
      then show ?thesis using pull True by (auto simp: ss_text_facts)
    next
      case False
      have "inp \<noteq> y # d @ ss_mac s ad y d" for y d using False i by auto
      then show ?thesis using pull False no by simp
    qed
  qed
qed

theorem secretstream_pull_authentic_witness:
  "secretstream_pull \<lparr>input = replicate 16 0\<rparr> \<lparr>p_r = [], p_h = [], p_pad = [], p_leftover = 0, p_buffer = replicate 16 0, p_final = 0\<rparr>
     \<lparr>ss_k = replicate 32 1, ss_nonce = replicate 12 1, ss_pad = []\<rparr> [1, 2, 3] []
   = Some (\<lparr>ss_k = replicate 32 1, ss_nonce = replicate 12 1, ss_pad = []\<rparr>, -1, None, 0, 0xff)"
  using secretstream_pull_authentic [of "\<lparr>input = replicate 16 0\<rparr>"
      "\<lparr>p_r = [], p_h = [], p_pad = [], p_leftover = 0, p_buffer = replicate 16 0, p_final = 0\<rparr>"
      "\<lparr>ss_k = replicate 32 1, ss_nonce = replicate 12 1, ss_pad = []\<rparr>" "[1, 2, 3]" "[]"]
  by (auto simp: secretstream_pull_short)

text \<open>The padding after the ciphertext does not align it: it has \<open>mlen mod 16\<close> bytes instead of the
  \<open>- mlen mod 16\<close> bytes that the other constructions use.\<close>

theorem secretstream_padding_misaligned:
  "length (secretstream_pad0 mlen) = mlen mod 16 \<and> (16 dvd 64 + mlen + length (secretstream_pad0 mlen) \<longleftrightarrow> 8 dvd mlen)"
proof -
  have "64 + m + r = 16 * (4 + q) + 2 * r" if "16 * q + r = m" for m q r :: nat using that by simp
  from this [OF mult_div_mod_eq] have "64 + mlen + mlen mod 16 = 16 * (4 + mlen div 16) + 2 * (mlen mod 16)" .
  then have "16 dvd 64 + mlen + mlen mod 16 \<longleftrightarrow> 16 dvd 2 * (mlen mod 16)"
    by (simp only: dvd_add_right_iff dvd_triv_left)
  also have "\<dots> \<longleftrightarrow> 2 * 8 dvd 2 * (mlen mod 16)" by simp
  also have "\<dots> \<longleftrightarrow> 8 dvd mlen mod 16" by (rule nat_mult_dvd_cancel1) simp
  also have "\<dots> \<longleftrightarrow> 8 dvd mlen" by (rule dvd_mod_iff) simp
  finally show ?thesis by (simp add: secretstream_pad0_eq)
qed

end
