(* ===== verification/Hex.thy ===== *)
theory Hex
  imports Prelude
begin

unbundle bit_operations_syntax

text \<open>
  Hexadecimal strings (\<^verbatim>\<open>sodium/codecs.c\<close>). Characters are bytes. \<^verbatim>\<open>ignore\<close> is \<open>None\<close> when it is the null pointer and
  otherwise a string. A result holds the return code, the number stored in \<^verbatim>\<open>bin_len\<close>, the bytes written, the position of the
  end pointer and the last error number; \<open>None\<close> is \<^verbatim>\<open>sodium_misuse\<close>. The masks of the decoder are shown to be the
  usual digit values (\<open>hex_value\<close>), and the loop to parse pairs of digits (\<open>hex_parse\<close>).
\<close>

section \<open>Model\<close>

datatype errno = ERANGE | EINVAL

record decoded =
  d_ret :: int
  d_len :: nat
  d_bin :: "byte list"
  d_pos :: nat
  d_errno :: "errno option"

text \<open>\<^verbatim>\<open>strchr\<close> also finds the terminator.\<close>

definition strchr_found :: "byte list \<Rightarrow> byte \<Rightarrow> bool" where
  "strchr_found s c \<longleftrightarrow> c = 0 \<or> c \<in> set (takeWhile (\<lambda>x. x \<noteq> 0) s)"

definition ignored :: "byte list option \<Rightarrow> byte \<Rightarrow> bool" where
  "ignored ignore c = (case ignore of None \<Rightarrow> False | Some s \<Rightarrow> strchr_found s c)"

subsection \<open>Hexadecimal\<close>

definition hex_digit :: "u32 \<Rightarrow> byte" where
  "hex_digit c = ucast (87 + c + (drop_bit 8 (c - 10) AND NOT 38))"

definition bin2hex_byte :: "byte \<Rightarrow> byte list" where
  "bin2hex_byte v =
    (let c = ucast v AND 0xf; b = drop_bit 4 (ucast v);
         x = push_bit 8 (ucast (hex_digit c)) OR ucast (hex_digit b) :: u32
     in [ucast x, ucast (drop_bit 8 x)])"

definition sodium_bin2hex :: "byte list \<Rightarrow> nat \<Rightarrow> byte list \<Rightarrow> byte list option" where
  "sodium_bin2hex hex hex_maxlen bin =
    (if length bin \<ge> (2 ^ 64 - 1) div 2 \<or> hex_maxlen \<le> length bin * 2 then None
     else Some (write_at hex 0 (concat (map bin2hex_byte bin) @ [0])))"

text \<open>The four masks computed from a character: \<^verbatim>\<open>c_num\<close>, \<^verbatim>\<open>c_num0\<close>, \<^verbatim>\<open>c_alpha\<close>, \<^verbatim>\<open>c_alpha0\<close>.\<close>

definition hex_masks :: "byte \<Rightarrow> byte \<times> byte \<times> byte \<times> byte" where
  "hex_masks c =
    (let c_num = c XOR 48;
         c_num0 = ucast (drop_bit 8 (ucast c_num - 10 :: u32));
         c_alpha = ucast ((ucast c AND NOT 32) - 55 :: u32);
         c_alpha0 = ucast (drop_bit 8 ((ucast c_alpha - 10 :: u32) XOR (ucast c_alpha - 16)))
     in (c_num, c_num0, c_alpha, c_alpha0))"

text \<open>The loop returns the bytes written, the position, \<^verbatim>\<open>state\<close>, \<^verbatim>\<open>ret\<close> and the error number.\<close>

function hex2bin_loop :: "nat \<Rightarrow> byte list \<Rightarrow> byte list option \<Rightarrow> nat \<Rightarrow> byte list \<Rightarrow> byte \<Rightarrow> byte \<Rightarrow> byte list \<times> nat \<times> byte \<times> int \<times> errno option" where
  "hex2bin_loop bin_maxlen hex ignore hex_pos bin c_acc state =
    (if hex_pos < length hex then
       let c = hex ! hex_pos;
           (c_num, c_num0, c_alpha, c_alpha0) = hex_masks c
       in if c_num0 OR c_alpha0 = 0 then
            if ignore \<noteq> None \<and> state = 0 \<and> ignored ignore c
            then hex2bin_loop bin_maxlen hex ignore (hex_pos + 1) bin c_acc state
            else (bin, hex_pos, state, 0, None)
          else let c_val = (c_num0 AND c_num) OR (c_alpha0 AND c_alpha)
          in if length bin \<ge> bin_maxlen then (bin, hex_pos, state, - 1, Some ERANGE)
             else if state = 0 then hex2bin_loop bin_maxlen hex ignore (hex_pos + 1) bin (c_val * 16) (NOT state)
             else hex2bin_loop bin_maxlen hex ignore (hex_pos + 1) (bin @ [c_acc OR c_val]) c_acc (NOT state)
     else (bin, hex_pos, state, 0, None))"
  by auto
termination by (relation "measure (\<lambda>(_, hex, _, pos, _). length hex - pos)") auto

declare hex2bin_loop.simps [simp del]

definition sodium_hex2bin :: "nat \<Rightarrow> byte list \<Rightarrow> byte list option \<Rightarrow> bool \<Rightarrow> decoded" where
  "sodium_hex2bin bin_maxlen hex ignore has_end =
    (let (bin, hex_pos, state, ret, err) = hex2bin_loop bin_maxlen hex ignore 0 [] 0 0;
         (hex_pos, err, ret) = (if state \<noteq> 0 then (hex_pos - 1, Some EINVAL, - 1) else (hex_pos, err, ret));
         bin_pos = (if ret \<noteq> 0 then 0 else length bin);
         (err, ret) = (if \<not> has_end \<and> hex_pos \<noteq> length hex then (Some EINVAL, - 1) else (err, ret))
     in \<lparr>d_ret = ret, d_len = bin_pos, d_bin = bin, d_pos = hex_pos, d_errno = err\<rparr>)"

section \<open>Masks\<close>

text \<open>The second byte of a small difference: all zeros, or all ones when it is negative.\<close>

lemma u32_mod: "unat (a :: u32) mod 4294967296 = unat a"
  using unsigned_less [of a] by (intro mod_less) simp

lemma byte2: "drop_bit 8 (w :: u32) AND 0xFF = of_nat (unat w div 256 mod 256)"
proof -
  have "0xFF = (mask 8 :: u32)" by (simp add: mask_numeral)
  then have "unat (drop_bit 8 w AND 0xFF) = unat w div 256 mod 256"
    by (simp only: take_bit_eq_mask [symmetric] unsigned_take_bit_eq unsigned_drop_bit_eq) (simp add: take_bit_eq_mod drop_bit_eq_div u32_mod)
  then show ?thesis by (metis of_nat_unat ucast_id)
qed

lemma byte2_cases:
  "unat (w :: u32) < 256 \<Longrightarrow> drop_bit 8 w AND 0xFF = 0" "2 ^ 32 - 256 \<le> unat (w :: u32) \<Longrightarrow> drop_bit 8 w AND 0xFF = 0xFF"
proof -
  show "unat w < 256 \<Longrightarrow> drop_bit 8 w AND 0xFF = 0" by (simp add: byte2)
  assume "2 ^ 32 - 256 \<le> unat w"
  then have "unat w div 256 = 2 ^ 24 - 1" using unsigned_less [of w] by (intro div_nat_eqI) simp_all
  then show "drop_bit 8 w AND 0xFF = 0xFF" by (simp add: byte2)
qed

lemma byte2_diff:
  fixes x y :: u32
  assumes "unat x < 256" "unat y < 256"
  shows "drop_bit 8 (y - x) AND 0xFF = (if unat y < unat x then 0xFF else 0)"
proof (cases "unat y < unat x")
  case True
  then have "unat (y - x) = 2 ^ 32 + unat y - unat x" using assms by (simp add: unat_sub_if')
  then show ?thesis using True assms by (simp add: byte2_cases(2))
next
  case False
  then have "unat (y - x) < 256" using assms by (simp add: unat_sub_if')
  then show ?thesis using False by (simp add: byte2_cases(1))
qed

lemma and_255: "unat w < 256 \<Longrightarrow> 0xFF AND w = (w :: u32)" "unat w < 256 \<Longrightarrow> w AND 0xFF = w"
proof -
  have "0xFF = (mask 8 :: u32)" by (simp add: mask_numeral)
  moreover assume "unat w < 256"
  then have "take_bit 8 w = w" by (simp add: word_unat_eq_iff unsigned_take_bit_eq take_bit_nat_eq_self)
  ultimately show "0xFF AND w = w" "w AND 0xFF = w" by (simp_all only: take_bit_eq_mask [symmetric] and.commute)
qed

lemma xor_less:
  fixes x y :: u32
  assumes "unat x < 2 ^ k" "unat y < 2 ^ k"
  shows "unat (x XOR y) < 2 ^ k"
proof -
  have "take_bit k x = x" "take_bit k y = y" using assms by (simp_all add: word_unat_eq_iff unsigned_take_bit_eq take_bit_nat_eq_self)
  then have "take_bit k (x XOR y) = x XOR y" by (simp add: take_bit_xor)
  moreover have "unat (take_bit k (x XOR y)) < 2 ^ k" by (simp only: unsigned_take_bit_eq take_bit_nat_less_exp)
  ultimately show ?thesis by simp
qed

lemma u32_xor_zero: "a XOR b = 0 \<longleftrightarrow> a = (b :: u32)"
  by (metis xor.assoc xor.left_neutral xor.right_neutral xor_self_eq)

text \<open>The value of a hexadecimal digit, and of a string of them.\<close>

definition hex_value :: "byte \<Rightarrow> nat option" where
  "hex_value c = (if 48 \<le> c \<and> c \<le> 57 then Some (unat c - 48) else if 65 \<le> c \<and> c \<le> 70 then Some (unat c - 55)
    else if 97 \<le> c \<and> c \<le> 102 then Some (unat c - 87) else None)"

lemma ucast_low_byte: "(ucast (w :: u32) :: byte) = ucast (w AND 0xFF)"
proof -
  have "0xFF = (mask 8 :: u32)" by (simp add: mask_numeral)
  then show ?thesis by (simp only: take_bit_eq_mask [symmetric]) (rule bit_word_eqI, auto simp: bit_simps)
qed

lemma xor_48: "unat k < 10 \<Longrightarrow> k XOR 48 = k + (48 :: byte)"
proof -
  assume "unat k < 10"
  then have "unat k \<in> {0, 1, 2, 3, 4, 5, 6, 7, 8, 9}" by auto
  then have "k \<in> {0, 1, 2, 3, 4, 5, 6, 7, 8, 9}" by (auto simp: word_unat_eq_iff)
  then show ?thesis by auto
qed

lemma digit_xor: "unat (c XOR 48) < 10 \<longleftrightarrow> 48 \<le> c \<and> c \<le> 57" "48 \<le> c \<and> c \<le> 57 \<Longrightarrow> c XOR 48 = c - (48 :: byte)"
proof -
  have x: "(k XOR 48) XOR 48 = k" for k :: byte by (simp add: xor.assoc)
  have "unat (c - 48) < 10" if "48 \<le> c \<and> c \<le> 57" using that by (auto simp: unat_sub_if_size word_le_nat_alt)
  then have inv: "c XOR 48 = c - 48 \<and> unat (c XOR 48) < 10" if "48 \<le> c \<and> c \<le> 57"
    using that xor_48 [of "c - 48"] x [of "c - 48"] by simp
  moreover have "48 \<le> c \<and> c \<le> 57" if "unat (c XOR 48) < 10"
  proof -
    have "c = (c XOR 48) + 48" using xor_48 [OF that] x [of c] by simp
    then show ?thesis using that unat_word_ariths(1) [of "c XOR 48" 48] by (simp add: word_le_nat_alt)
  qed
  ultimately show "unat (c XOR 48) < 10 \<longleftrightarrow> 48 \<le> c \<and> c \<le> 57" by blast
  show "48 \<le> c \<and> c \<le> 57 \<Longrightarrow> c XOR 48 = c - 48" using inv by blast
qed

lemma byte_u32: "unat (ucast (k :: byte) :: u32) = unat k"
  using byte_bounds(1) [of k] by (simp add: unsigned_ucast_eq take_bit_nat_eq_self)

lemma below_mask: "unat b < 256 \<Longrightarrow> (ucast (drop_bit 8 (ucast (k :: byte) - b :: u32)) :: byte) = (if unat k < unat b then 0xFF else 0)"
  using byte2_diff [of b "ucast k"] byte_bounds(1) [of k] by (subst ucast_low_byte) (simp add: byte_u32)

lemma byte_range: "a \<le> c \<Longrightarrow> c \<le> a + 5 \<Longrightarrow> unat a < 200 \<Longrightarrow> c \<in> {a, a + 1, a + 2, a + 3, a + 4, a + (5 :: byte)}"
proof -
  assume a: "a \<le> c" "c \<le> a + 5" "unat a < 200"
  then have "unat (c - a) \<le> 5" by (simp add: unat_sub_if_size word_le_nat_alt unat_word_ariths)
  then have "unat (c - a) \<in> {0, 1, 2, 3, 4, 5}" by auto
  then have "c - a \<in> {0, 1, 2, 3, 4, 5}" by (auto simp: word_unat_eq_iff)
  then show ?thesis by (auto simp: algebra_simps)
qed

lemma letter_case: "c AND NOT 32 \<in> {65, 66, 67, 68, 69, 70} \<longleftrightarrow> c \<in> {65, 66, 67, 68, 69, 70} \<or> c \<in> {97, 98, 99, 100, 101, (102 :: byte)}"
proof
  have "c = (c AND NOT 32) OR (c AND 32)" by (rule bit_word_eqI) (simp only: bit_or_iff bit_and_iff bit_not_iff possible_bit_word, blast)
  moreover have "c AND 2 ^ 5 = 2 ^ 5" if "bit c 5"
    by (rule bit_word_eqI, simp only: bit_and_iff bit_exp_iff) (use that in blast)
  moreover have "c AND 2 ^ 5 = 0" if "\<not> bit c 5"
    using that by (simp only: and_exp_eq_0_iff_not_bit not_False_eq_True)
  moreover assume "c AND NOT 32 \<in> {65, 66, 67, 68, 69, 70}"
  ultimately show "c \<in> {65, 66, 67, 68, 69, 70} \<or> c \<in> {97, 98, 99, 100, 101, 102}" by (cases "bit c 5") auto
qed auto

lemma hex_letter: "unat ((c AND NOT 32) - 55) \<in> {10..<16} \<longleftrightarrow> 65 \<le> c \<and> c \<le> 70 \<or> 97 \<le> c \<and> c \<le> (102 :: byte)"
    "65 \<le> c \<and> c \<le> 70 \<Longrightarrow> (c AND NOT 32) - 55 = c - 55" "97 \<le> c \<and> c \<le> 102 \<Longrightarrow> (c AND NOT 32) - 55 = c - 87"
proof -
  have r: "65 \<le> c \<and> c \<le> 70 \<longleftrightarrow> c \<in> {65, 66, 67, 68, 69, 70}" "97 \<le> c \<and> c \<le> 102 \<longleftrightarrow> c \<in> {97, 98, 99, 100, 101, 102}"
    using byte_range [of 65 c] byte_range [of 97 c] by auto
  have s: "unat (v - 55) \<in> {10..<16} \<longleftrightarrow> v \<in> {65, 66, 67, 68, 69, (70 :: byte)}" for v
  proof
    assume "unat (v - 55) \<in> {10..<16}"
    then have "unat (v - 55) \<in> {10, 11, 12, 13, 14, 15}" by auto
    then have "v - 55 \<in> {10, 11, 12, 13, 14, 15}" by (auto simp: word_unat_eq_iff)
    then show "v \<in> {65, 66, 67, 68, 69, 70}" by (auto simp: diff_eq_eq)
  qed auto
  show "unat ((c AND NOT 32) - 55) \<in> {10..<16} \<longleftrightarrow> 65 \<le> c \<and> c \<le> 70 \<or> 97 \<le> c \<and> c \<le> (102 :: byte)"
    unfolding r s by (rule letter_case)
  show "65 \<le> c \<and> c \<le> 70 \<Longrightarrow> (c AND NOT 32) - 55 = c - 55" "97 \<le> c \<and> c \<le> 102 \<Longrightarrow> (c AND NOT 32) - 55 = c - 87"
    unfolding r by auto
qed

lemma alpha_masks:
  "(ucast ((ucast c AND NOT 32) - 55 :: u32) :: byte) = (c AND NOT 32) - 55"
  "(ucast (drop_bit 8 ((ucast k - 10 :: u32) XOR (ucast k - 16))) :: byte) = (if unat (k :: byte) \<in> {10..<16} then 0xFF else 0)"
proof -
  have "(ucast (w - 55) :: byte) = ucast w - 55" for w :: u32
    using ucast_down_wi [of "uint w - 55", where 'a = 32 and 'b = 8] by (simp add: is_down)
  then have "(ucast ((ucast c AND NOT 32) - 55 :: u32) :: byte) = ucast (ucast c AND NOT 32 :: u32) - 55" .
  also have "(ucast (ucast c AND NOT 32 :: u32) :: byte) = c AND NOT 32" by (rule bit_word_eqI) (auto simp: bit_simps)
  finally show "(ucast ((ucast c AND NOT 32) - 55 :: u32) :: byte) = (c AND NOT 32) - 55" .
  have "(ucast (a XOR b :: u32) :: byte) = ucast a XOR ucast b" for a b by (rule bit_word_eqI) (auto simp: bit_simps)
  then show "(ucast (drop_bit 8 ((ucast k - 10 :: u32) XOR (ucast k - 16))) :: byte) = (if unat (k :: byte) \<in> {10..<16} then 0xFF else 0)"
    by (simp add: drop_bit_xor below_mask)
qed

lemma hex_masks_eq:
  obtains n n0 a a0 where "hex_masks c = (n, n0, a, a0)" "n0 OR a0 = 0 \<longleftrightarrow> hex_value c = None"
    "\<And>d. hex_value c = Some d \<Longrightarrow> (n0 AND n) OR (a0 AND a) = of_nat d"
proof -
  let ?a = "(c AND NOT 32) - 55"
  have m: "hex_masks c = (c XOR 48, if 48 \<le> c \<and> c \<le> 57 then 0xFF else 0, ?a, if 65 \<le> c \<and> c \<le> 70 \<or> 97 \<le> c \<and> c \<le> 102 then 0xFF else 0)"
    unfolding hex_masks_def Let_def alpha_masks hex_letter(1) using below_mask [of 10 "c XOR 48"] by (simp add: digit_xor(1))
  have "(0xFF :: byte) = - 1" by simp
  then have f: "(0xFF :: byte) AND w = w" for w by (simp only: and.left_neutral)
  show thesis
  proof (rule that [OF m])
    show "(if 48 \<le> c \<and> c \<le> 57 then 0xFF else 0) OR (if 65 \<le> c \<and> c \<le> 70 \<or> 97 \<le> c \<and> c \<le> 102 then 0xFF else 0) = (0 :: byte) \<longleftrightarrow> hex_value c = None"
      by (auto simp: hex_value_def)
    fix d assume d: "hex_value c = Some d"
    consider "48 \<le> c \<and> c \<le> 57" | "65 \<le> c \<and> c \<le> 70" | "97 \<le> c \<and> c \<le> 102" using d by (auto simp: hex_value_def split: if_splits)
    then show "((if 48 \<le> c \<and> c \<le> 57 then 0xFF else 0) AND (c XOR 48)) OR ((if 65 \<le> c \<and> c \<le> 70 \<or> 97 \<le> c \<and> c \<le> 102 then 0xFF else 0) AND ?a) = of_nat d"
    proof cases
      case 1
      then have "\<not> 65 \<le> c" "\<not> 97 \<le> c" "of_nat d = c - 48" using d by (auto simp: hex_value_def word_le_nat_alt of_nat_diff)
      then show ?thesis using 1 by (simp add: f digit_xor(2))
    next
      case 2
      then have "\<not> c \<le> 57" "of_nat d = c - 55" using d by (auto simp: hex_value_def word_le_nat_alt of_nat_diff)
      then show ?thesis using 2 hex_letter(2) [OF 2] by (simp add: f)
    next
      case 3
      then have "\<not> c \<le> 57" "\<not> c \<le> 70" "of_nat d = c - 87" using d by (auto simp: hex_value_def word_le_nat_alt of_nat_diff)
      then show ?thesis using 3 hex_letter(3) [OF 3] by (simp add: f)
    qed
  qed
qed

fun hex_parse :: "byte list \<Rightarrow> byte list option" where
  "hex_parse [] = Some []"
| "hex_parse [_] = None"
| "hex_parse (x # y # r) = (case (hex_value x, hex_value y, hex_parse r) of
    (Some a, Some b, Some bs) \<Rightarrow> Some (of_nat (16 * a + b) # bs) | _ \<Rightarrow> None)"

lemma hex_value_less: "hex_value c = Some d \<Longrightarrow> d < 16"
  by (auto simp: hex_value_def word_le_nat_alt split: if_splits)

lemma hex_pair: "a < 16 \<Longrightarrow> b < 16 \<Longrightarrow> of_nat a * 16 OR of_nat b = (of_nat (16 * a + b) :: byte)"
proof -
  assume ab: "a < 16" "b < 16"
  have "push_bit 4 (of_nat a) AND take_bit 4 (of_nat b) = (0 :: byte)" by (rule bit_word_eqI) (auto simp: bit_simps)
  moreover have "take_bit 4 (of_nat b) = (of_nat b :: byte)" using ab(2) by (simp add: word_unat_eq_iff unsigned_take_bit_eq unsigned_of_nat take_bit_nat_eq_self)
  ultimately have "push_bit 4 (of_nat a) OR of_nat b = push_bit 4 (of_nat a) + (of_nat b :: byte)" by (simp only: disjunctive_add_eq_or)
  then show ?thesis by (simp add: push_bit_eq_mult mult.commute)
qed

lemma hex_loop_step:
  assumes "drop pos hex = x # r"
  shows "hex2bin_loop N hex None pos bin acc st = (case hex_value x of None \<Rightarrow> (bin, pos, st, 0, None)
    | Some d \<Rightarrow> if length bin \<ge> N then (bin, pos, st, - 1, Some ERANGE)
        else if st = 0 then hex2bin_loop N hex None (pos + 1) bin (of_nat d * 16) (NOT st)
        else hex2bin_loop N hex None (pos + 1) (bin @ [acc OR of_nat d]) acc (NOT st))"
proof -
  have p: "pos < length hex" using assms by (metis drop_eq_Nil linorder_not_less list.distinct(1))
  then have x: "hex ! pos = x" using assms by (simp flip: Cons_nth_drop_Suc)
  obtain n n0 a a0 where "hex_masks x = (n, n0, a, a0)" "n0 OR a0 = 0 \<longleftrightarrow> hex_value x = None"
    "\<And>d. hex_value x = Some d \<Longrightarrow> (n0 AND n) OR (a0 AND a) = of_nat d" using hex_masks_eq by blast
  then show ?thesis using p x by (subst hex2bin_loop.simps) (auto simp: Let_def split: option.splits)
qed

lemma hex_loop_pair:
  assumes "drop pos hex = x # y # r" "hex_value x = Some a" "hex_value y = Some b" "length bin < N"
  shows "hex2bin_loop N hex None pos bin acc 0 = hex2bin_loop N hex None (pos + 2) (bin @ [of_nat (16 * a + b)]) (of_nat a * 16) 0"
    "drop (pos + 2) hex = r"
proof -
  have d: "drop (pos + 1) hex = y # r" using assms(1) by (metis add.commute drop_drop drop0 drop_Suc_Cons One_nat_def)
  show "drop (pos + 2) hex = r" using assms(1) by (metis add.commute drop_drop drop0 drop_Suc_Cons numeral_2_eq_2)
  show "hex2bin_loop N hex None pos bin acc 0 = hex2bin_loop N hex None (pos + 2) (bin @ [of_nat (16 * a + b)]) (of_nat a * 16) 0"
    using assms(2-4) hex_pair [OF hex_value_less [OF assms(2)] hex_value_less [OF assms(3)]]
    by (subst hex_loop_step [OF assms(1)]) (simp add: hex_loop_step [OF d, simplified])
qed

text \<open>The loop started on a pair boundary: it ends on success at the end of the text with \<^verbatim>\<open>state\<close> zero, and otherwise stops
  early, on an odd digit or with an error.\<close>

lemma hex_loop_parse:
  assumes "drop pos hex = l" "pos \<le> length hex"
  shows "case hex2bin_loop N hex None pos bin acc 0 of (b, p, st, ret, e) \<Rightarrow>
    (if \<exists>bs. hex_parse l = Some bs \<and> (bs = [] \<or> length bin + length bs \<le> N)
     then b = bin @ the (hex_parse l) \<and> p = length hex \<and> st = 0 \<and> ret = 0 \<and> e = None
     else (st \<noteq> 0 \<or> ret \<noteq> 0 \<or> p \<noteq> length hex) \<and> (ret = 0 \<or> ret = - 1))"
  using assms
proof (induction l arbitrary: pos bin acc rule: hex_parse.induct)
  case 1
  then show ?case by (subst hex2bin_loop.simps) simp
next
  case (2 x)
  have "drop (pos + 1) hex = []" using 2 by (metis add.commute drop_drop drop0 drop_Suc_Cons One_nat_def)
  then have "hex2bin_loop N hex None (pos + 1) b c s = (b, pos + 1, s, 0, None)" for b c s by (subst hex2bin_loop.simps) simp
  moreover have "pos < length hex" using 2 by (metis drop_eq_Nil linorder_not_less list.distinct(1))
  ultimately show ?case by (subst hex_loop_step [OF 2(1)]) (auto split: option.splits)
next
  case (3 x y r)
  have d: "drop (pos + 1) hex = y # r" using 3(2) by (metis add.commute drop_drop drop0 drop_Suc_Cons One_nat_def)
  have p: "pos + 1 < length hex" using d by (metis drop_eq_Nil linorder_not_less list.distinct(1))
  show ?case
  proof (cases "hex_value x = None \<or> hex_value y = None \<or> N \<le> length bin")
    case True
    then show ?thesis using p by (subst hex_loop_step [OF 3(2)]) (auto simp: hex_loop_step [OF d, simplified] split: option.splits)
  next
    case False
    then obtain a b where ab: "hex_value x = Some a" "hex_value y = Some b" "length bin < N" by auto
    note pair = hex_loop_pair [OF 3(2) ab]
    show ?thesis unfolding pair(1) using 3(1) [of "pos + 2" "bin @ [of_nat (16 * a + b)]" "of_nat a * 16"] pair(2) p ab by (auto split: option.splits prod.splits if_splits)
  qed
qed

text \<open>A text that goes on after the pairs with another character.\<close>

lemma hex_loop_prefix:
  assumes "drop pos hex = s @ c # r" "hex_parse s = Some bs" "hex_value c = None" "length bin + length bs \<le> N"
  shows "hex2bin_loop N hex None pos bin acc 0 = (bin @ bs, pos + length s, 0, 0, None)"
  using assms(1,2,4)
proof (induction s arbitrary: pos bin acc bs rule: hex_parse.induct)
  case 1
  then show ?case using assms(3) by (subst hex_loop_step [of pos hex c r]) simp_all
next
  case (3 x y s)
  obtain a b bs' where p: "hex_value x = Some a" "hex_value y = Some b" "hex_parse s = Some bs'" "bs = of_nat (16 * a + b) # bs'"
    using 3(3) by (auto split: option.splits)
  have "drop pos hex = x # y # s @ c # r" "length bin < N" using 3(2,4) p(4) by simp_all
  note pair = hex_loop_pair [OF this(1) p(1,2) this(2)]
  show ?case unfolding pair(1) using 3(1) [OF pair(2) p(3), of "bin @ [of_nat (16 * a + b)]"] 3(4) p(4) by simp
qed simp

lemma hex_parse_length: "hex_parse hex = Some bs \<Longrightarrow> length hex = 2 * length bs"
  by (induction hex arbitrary: bs rule: hex_parse.induct) (auto split: option.splits)

lemma hex2bin_prefix:
  assumes "hex_parse s = Some bs" "hex_value c = None" "length bs \<le> N"
  shows "sodium_hex2bin N (s @ c # r) None True = \<lparr>d_ret = 0, d_len = length bs, d_bin = bs, d_pos = length s, d_errno = None\<rparr>"
  using hex_loop_prefix [of 0 "s @ c # r", OF _ assms(1,2), of r "[]" N 0] assms(3) by (simp add: sodium_hex2bin_def)

text \<open>The encoder writes the two digits of each byte.\<close>

lemma hex_digit_char: "hex_digit (ucast (k :: byte)) = (if unat k < 10 then k + 48 else k + 87)"
proof -
  have add: "(ucast (a + b) :: byte) = ucast a + ucast b" for a b :: u32
    using ucast_down_wi [of "uint a + uint b", where 'a = 32 and 'b = 8] by (simp add: is_down)
  have "(ucast (a AND b :: u32) :: byte) = ucast a AND ucast b" for a b by (rule bit_word_eqI) (auto simp: bit_simps)
  then have "(ucast (drop_bit 8 (ucast k - 10 :: u32) AND NOT 38) :: byte) = (if unat k < 10 then 0xFF else 0) AND ucast (NOT 38 :: u32)"
    by (simp only: below_mask [of 10 k, simplified])
  moreover have "(0xFF :: byte) AND ucast (NOT 38 :: u32) = 217" by simp
  moreover have "(ucast (ucast k :: u32) :: byte) = k" by (simp add: ucast_down_ucast_id is_down)
  ultimately show ?thesis unfolding hex_digit_def add by simp
qed

lemma hex_digit_value: "d < 16 \<Longrightarrow> hex_value (hex_digit (of_nat d)) = Some d"
proof -
  assume d: "d < 16"
  have u: "unat (of_nat d :: byte) = d" using d by (simp add: unsigned_of_nat take_bit_nat_eq_self)
  have "(of_nat d :: u32) = ucast (of_nat d :: byte)" using d u by (simp add: word_unat_eq_iff byte_u32 unsigned_of_nat take_bit_nat_eq_self)
  moreover have "unat (of_nat d + 48 :: byte) = d + 48" "unat (of_nat d + 87 :: byte) = d + 87" using d u by (simp_all add: unat_word_ariths)
  ultimately show ?thesis using d u by (auto simp: hex_digit_char hex_value_def word_le_nat_alt)
qed

lemma bin2hex_byte_eq: "bin2hex_byte v = [hex_digit (of_nat (unat v div 16)), hex_digit (of_nat (unat v mod 16))]"
proof -
  have "(0xf :: u32) = mask 4" by (simp add: mask_numeral)
  then have "(ucast v AND 0xf :: u32) = take_bit 4 (ucast v)" by (simp only: take_bit_eq_mask)
  also have "\<dots> = of_nat (unat v mod 16)"
    using byte_bounds(1) [of v] by (simp only: word_unat_eq_iff unsigned_take_bit_eq byte_u32) (simp add: take_bit_eq_mod unsigned_of_nat)
  finally have "(ucast v AND 0xf :: u32) = of_nat (unat v mod 16)" .
  moreover have "(drop_bit 4 (ucast v) :: u32) = of_nat (unat v div 16)"
    using byte_bounds(1) [of v] by (simp only: word_unat_eq_iff unsigned_drop_bit_eq byte_u32) (simp add: drop_bit_eq_div take_bit_eq_mod unsigned_of_nat)
  moreover have "ucast (push_bit 8 (ucast a) OR ucast b :: u32) = b" "ucast (drop_bit 8 (push_bit 8 (ucast a) OR ucast b :: u32)) = a" for a b :: byte
    by (rule bit_word_eqI; auto simp: bit_simps)+
  ultimately show ?thesis by (simp only: bin2hex_byte_def Let_def)
qed

lemma bin2hex_parse: "hex_parse (concat (map bin2hex_byte bs)) = Some bs"
proof (induction bs)
  case (Cons v bs)
  have "unat v div 16 < 16" "unat v mod 16 < 16" using byte_bounds(1) [of v] by simp_all
  moreover have "of_nat (16 * (unat v div 16) + unat v mod 16) = v" by (simp only: mult_div_mod_eq of_nat_unat ucast_id)
  ultimately show ?case using Cons.IH by (simp add: bin2hex_byte_eq hex_digit_value del: of_nat_add of_nat_mult)
qed simp

lemma hex2bin_strict:
  "d_ret (sodium_hex2bin N hex None False) = (if \<exists>bs. hex_parse hex = Some bs \<and> length bs \<le> N then 0 else - 1)"
  "hex_parse hex = Some bs \<Longrightarrow> length bs \<le> N \<Longrightarrow> sodium_hex2bin N hex None he = \<lparr>d_ret = 0, d_len = length bs, d_bin = bs, d_pos = length hex, d_errno = None\<rparr>"
proof -
  obtain b p st ret e where l: "hex2bin_loop N hex None 0 [] 0 0 = (b, p, st, ret, e)" by (cases "hex2bin_loop N hex None 0 [] 0 0") auto
  have ok: "if \<exists>bs. hex_parse hex = Some bs \<and> length bs \<le> N then b = the (hex_parse hex) \<and> p = length hex \<and> st = 0 \<and> ret = 0 \<and> e = None
     else (st \<noteq> 0 \<or> ret \<noteq> 0 \<or> p \<noteq> length hex) \<and> (ret = 0 \<or> ret = - 1)" using hex_loop_parse [of 0 hex hex "[]" N 0] l by (auto split: if_splits)
  show "hex_parse hex = Some bs \<Longrightarrow> length bs \<le> N \<Longrightarrow> sodium_hex2bin N hex None he = \<lparr>d_ret = 0, d_len = length bs, d_bin = bs, d_pos = length hex, d_errno = None\<rparr>"
    using ok by (simp add: sodium_hex2bin_def l)
  show "d_ret (sodium_hex2bin N hex None False) = (if \<exists>bs. hex_parse hex = Some bs \<and> length bs \<le> N then 0 else - 1)"
    using ok by (auto simp: sodium_hex2bin_def l split: if_splits)
qed

section \<open>Properties\<close>

text \<open>C33: \<^verbatim>\<open>sodium_bin2hex\<close> writes two digits per byte and a terminator, and \<^verbatim>\<open>sodium_hex2bin\<close> reads them back. Without
  characters to ignore and without an end pointer, \<^verbatim>\<open>sodium_hex2bin\<close> accepts exactly the strings of pairs of hexadecimal digits of either case that
  fit the output buffer, and returns \<open>- 1\<close> for every other string. With an end pointer it returns 0 also for pairs of digits that fit and are followed by
  a character that is not a digit, and the end pointer is that character.\<close>

theorem sodium_hex_codec:
  assumes "length bin < 2 ^ 63 - 1" "2 * length bin < hex_maxlen" "hex_maxlen \<le> length hex" "length bin \<le> bin_maxlen"
  shows "(\<exists>s. sodium_bin2hex hex hex_maxlen bin = Some (s @ 0 # drop (2 * length bin + 1) hex) \<and> length s = 2 * length bin \<and> 0 \<notin> set s
      \<and> sodium_hex2bin bin_maxlen s None has_end = \<lparr>d_ret = 0, d_len = length bin, d_bin = bin, d_pos = length s, d_errno = None\<rparr>)
    \<and> (\<forall>s n. case hex_parse s of
          None \<Rightarrow> d_ret (sodium_hex2bin n s None False) = - 1
        | Some bs \<Rightarrow> if length bs \<le> n
            then sodium_hex2bin n s None False = \<lparr>d_ret = 0, d_len = length bs, d_bin = bs, d_pos = length s, d_errno = None\<rparr>
            else d_ret (sodium_hex2bin n s None False) = - 1)
    \<and> (\<forall>s bs c r n. hex_parse s = Some bs \<and> hex_value c = None \<and> length bs \<le> n \<longrightarrow>
        sodium_hex2bin n (s @ c # r) None True = \<lparr>d_ret = 0, d_len = length bs, d_bin = bs, d_pos = length s, d_errno = None\<rparr>)"
proof (intro conjI allI exI impI)
  let ?s = "concat (map bin2hex_byte bin)"
  show l: "length ?s = 2 * length bin" using hex_parse_length [OF bin2hex_parse] .
  have "length bin < (2 ^ 64 - 1) div 2" using assms(1) by simp
  then show "sodium_bin2hex hex hex_maxlen bin = Some (?s @ 0 # drop (2 * length bin + 1) hex)"
    using assms(2,3) l by (simp add: sodium_bin2hex_def write_at_def)
  have "hex_digit (of_nat d) \<noteq> 0" if "d < 16" for d using hex_digit_value [OF that] by (auto simp: hex_value_def split: if_splits)
  moreover have "unat v div 16 < 16" for v :: byte using byte_bounds(1) [of v] by simp
  ultimately have "0 \<notin> set (bin2hex_byte v)" for v unfolding bin2hex_byte_eq by (auto dest: sym)
  then show "0 \<notin> set ?s" by simp
  show "sodium_hex2bin bin_maxlen ?s None has_end = \<lparr>d_ret = 0, d_len = length bin, d_bin = bin, d_pos = length ?s, d_errno = None\<rparr>"
    using hex2bin_strict(2) [OF bin2hex_parse assms(4)] .
  fix s n
  show "case hex_parse s of
          None \<Rightarrow> d_ret (sodium_hex2bin n s None False) = - 1
        | Some bs \<Rightarrow> if length bs \<le> n
            then sodium_hex2bin n s None False = \<lparr>d_ret = 0, d_len = length bs, d_bin = bs, d_pos = length s, d_errno = None\<rparr>
            else d_ret (sodium_hex2bin n s None False) = - 1"
    by (simp add: hex2bin_strict split: option.splits)
next
  fix s bs c r n assume "hex_parse s = Some bs \<and> hex_value c = None \<and> length bs \<le> n"
  then show "sodium_hex2bin n (s @ c # r) None True = \<lparr>d_ret = 0, d_len = length bs, d_bin = bs, d_pos = length s, d_errno = None\<rparr>"
    using hex2bin_prefix by blast
qed

theorem sodium_hex_codec_witness:
  "(\<exists>s. sodium_bin2hex (replicate 5 7) 5 [0xAB, 0x10] = Some (s @ [0 :: byte]) \<and> length s = 4
    \<and> sodium_hex2bin 2 s None True = \<lparr>d_ret = 0, d_len = 2, d_bin = [0xAB, 0x10], d_pos = 4, d_errno = None\<rparr>)
   \<and> d_ret (sodium_hex2bin 2 [0x41, 0x62, 0x3A] None False) = - 1
   \<and> sodium_hex2bin 2 ([0x41, 0x62] @ 0x3A # []) None True = \<lparr>d_ret = 0, d_len = 1, d_bin = [0xAB], d_pos = 2, d_errno = None\<rparr>"
proof -
  note * = sodium_hex_codec [of "[0xAB, 0x10]" 5 "replicate 5 7" 2 True]
  have h: "hex_parse [0x41, 0x62] = Some [0xAB]" "hex_parse [0x41, 0x62, 0x3A] = None" "hex_value 0x3A = None" by (simp_all add: hex_value_def)
  show ?thesis
  proof (intro conjI)
    show "\<exists>s. sodium_bin2hex (replicate 5 7) 5 [0xAB, 0x10] = Some (s @ [0 :: byte]) \<and> length s = 4
      \<and> sodium_hex2bin 2 s None True = \<lparr>d_ret = 0, d_len = 2, d_bin = [0xAB, 0x10], d_pos = 4, d_errno = None\<rparr>" using * by auto
    show "d_ret (sodium_hex2bin 2 [0x41, 0x62, 0x3A] None False) = - 1"
      using * [THEN conjunct2, THEN conjunct1, rule_format, of 2 "[0x41, 0x62, 0x3A]"] h(2) by simp
    show "sodium_hex2bin 2 ([0x41, 0x62] @ 0x3A # []) None True = \<lparr>d_ret = 0, d_len = 1, d_bin = [0xAB], d_pos = 2, d_errno = None\<rparr>"
      using * [THEN conjunct2, THEN conjunct2, rule_format, of "[0x41, 0x62]" "[0xAB]" "0x3A" 2 "[]"] h(1,3) by simp
  qed
qed

end
