(* ===== verification/Base64.thy ===== *)
theory Base64
  imports Hex
begin

unbundle bit_operations_syntax

text \<open>
  Base64 (\<^verbatim>\<open>sodium/codecs.c\<close>). \<^verbatim>\<open>char\<close> is signed, so that a character is extended to an \<^verbatim>\<open>int\<close> with its sign.
  \<open>None\<close> is \<^verbatim>\<open>sodium_misuse\<close> or a failed assertion. The locale \<open>base64_alphabet\<close> is what the encoder and the decoder need of
  an alphabet; it is interpreted on the standard and on the URL-safe one.
\<close>

section \<open>Model\<close>

definition b64_EQ :: "u32 \<Rightarrow> u32 \<Rightarrow> u32" where
  "b64_EQ x y = (drop_bit 8 (0 - (x XOR y)) AND 0xFF) XOR 0xFF"

definition b64_GT :: "u32 \<Rightarrow> u32 \<Rightarrow> u32" where
  "b64_GT x y = drop_bit 8 (y - x) AND 0xFF"

definition b64_GE :: "u32 \<Rightarrow> u32 \<Rightarrow> u32" where
  "b64_GE x y = b64_GT y x XOR 0xFF"

definition b64_LT :: "u32 \<Rightarrow> u32 \<Rightarrow> u32" where
  "b64_LT x y = b64_GT y x"

definition b64_LE :: "u32 \<Rightarrow> u32 \<Rightarrow> u32" where
  "b64_LE x y = b64_GE y x"

definition b64_byte_to_char :: "u32 \<Rightarrow> u32" where
  "b64_byte_to_char x =
    ((((b64_LT x 26 AND (x + 65)) OR
    ((b64_GE x 26 AND b64_LT x 52) AND (x + (97 - 26)))) OR
    ((b64_GE x 52 AND b64_LT x 62) AND (x + (48 - 52)))) OR (b64_EQ x 62 AND 43)) OR
    (b64_EQ x 63 AND 47)"

definition b64_char_to_byte :: "u32 \<Rightarrow> u32" where
  "b64_char_to_byte c =
    (let x = ((((b64_GE c 65 AND b64_LE c 90) AND (c - 65)) OR
              ((b64_GE c 97 AND b64_LE c 122) AND (c - (97 - 26)))) OR
              ((b64_GE c 48 AND b64_LE c 57) AND (c - (48 - 52)))) OR (b64_EQ c 43 AND 62) OR
              (b64_EQ c 47 AND 63)
     in x OR (b64_EQ x 0 AND (b64_EQ c 65 XOR 0xFF)))"

definition b64_byte_to_urlsafe_char :: "u32 \<Rightarrow> u32" where
  "b64_byte_to_urlsafe_char x =
    ((((b64_LT x 26 AND (x + 65)) OR
    ((b64_GE x 26 AND b64_LT x 52) AND (x + (97 - 26)))) OR
    ((b64_GE x 52 AND b64_LT x 62) AND (x + (48 - 52)))) OR (b64_EQ x 62 AND 45)) OR
    (b64_EQ x 63 AND 95)"

definition b64_urlsafe_char_to_byte :: "u32 \<Rightarrow> u32" where
  "b64_urlsafe_char_to_byte c =
    (let x = ((((b64_GE c 65 AND b64_LE c 90) AND (c - 65)) OR
              ((b64_GE c 97 AND b64_LE c 122) AND (c - (97 - 26)))) OR
              ((b64_GE c 48 AND b64_LE c 57) AND (c - (48 - 52)))) OR (b64_EQ c 45 AND 62) OR
              (b64_EQ c 95 AND 63)
     in x OR (b64_EQ x 0 AND (b64_EQ c 65 XOR 0xFF)))"

definition base64_variant_ok :: "int \<Rightarrow> bool" where
  "base64_variant_ok variant \<longleftrightarrow> (word_of_int variant :: u32) AND NOT 6 = 1"

definition no_padding :: "int \<Rightarrow> bool" where
  "no_padding variant \<longleftrightarrow> (word_of_int variant :: u32) AND 2 \<noteq> 0"

definition urlsafe :: "int \<Rightarrow> bool" where
  "urlsafe variant \<longleftrightarrow> (word_of_int variant :: u32) AND 4 \<noteq> 0"

definition sodium_base64_encoded_len :: "u64 \<Rightarrow> int \<Rightarrow> u64 option" where
  "sodium_base64_encoded_len bin_len variant =
    (if \<not> base64_variant_ok variant then None
     else let r = bin_len - (bin_len div 3) * 3;
              v = word_of_int variant :: u32
          in Some ((bin_len div 3) * 4
               + ((r OR drop_bit 1 r) AND 1)
                 * (4 - (ucast (NOT (drop_bit 1 (v AND 2) - 1)) AND (3 - r))) + 1))"

text \<open>The inner loop: the characters it writes and the new \<^verbatim>\<open>acc_len\<close>.\<close>

function b64_emit :: "(u32 \<Rightarrow> u32) \<Rightarrow> u32 \<Rightarrow> nat \<Rightarrow> byte list \<times> nat" where
  "b64_emit f acc acc_len =
    (if acc_len \<ge> 6 then
       let acc_len = acc_len - 6;
           (cs, n) = b64_emit f acc acc_len
       in (ucast (f (drop_bit acc_len acc AND 0x3F)) # cs, n)
     else ([], acc_len))"
  by auto
termination by (relation "measure (\<lambda>(_, _, n). n)") auto

declare b64_emit.simps [simp del]

fun b64_encode :: "(u32 \<Rightarrow> u32) \<Rightarrow> byte list \<Rightarrow> u32 \<Rightarrow> nat \<Rightarrow> byte list" where
  "b64_encode f [] acc acc_len =
    (if acc_len > 0 then [ucast (f (push_bit (6 - acc_len) acc AND 0x3F))] else [])"
| "b64_encode f (x # xs) acc acc_len =
    (let acc = push_bit 8 acc + ucast x;
         (cs, acc_len) = b64_emit f acc (acc_len + 8)
     in cs @ b64_encode f xs acc acc_len)"

definition sodium_bin2base64 :: "nat \<Rightarrow> byte list \<Rightarrow> int \<Rightarrow> byte list option" where
  "sodium_bin2base64 b64_maxlen bin variant =
    (if \<not> base64_variant_ok variant then None
     else let nibbles = length bin div 3;
              remainder = length bin - 3 * nibbles;
              b64_len = nibbles * 4;
              b64_len = (if remainder \<noteq> 0
                         then if \<not> no_padding variant then b64_len + 4 else b64_len + (2 + drop_bit 1 remainder)
                         else b64_len) mod 2 ^ 64
          in if b64_maxlen \<le> b64_len then None
             else let b64 = b64_encode (if urlsafe variant then b64_byte_to_urlsafe_char else b64_byte_to_char) bin 0 0
             in if \<not> length b64 \<le> b64_len then None
                else Some (b64 @ replicate (b64_len - length b64) 61 @ replicate (b64_maxlen - b64_len) 0))"

text \<open>\<^verbatim>\<open>_sodium_base642bin_skip_padding\<close>: the code, the position and the error number.\<close>

function base642bin_skip_padding :: "byte list \<Rightarrow> nat \<Rightarrow> byte list option \<Rightarrow> nat \<Rightarrow> int \<times> nat \<times> errno option" where
  "base642bin_skip_padding b64 b64_pos ignore padding_len =
    (if padding_len > 0 then
       if b64_pos \<ge> length b64 then (- 1, b64_pos, Some ERANGE)
       else let c = b64 ! b64_pos
            in if c = 61 then base642bin_skip_padding b64 (b64_pos + 1) ignore (padding_len - 1)
               else if ignore = None \<or> \<not> ignored ignore c then (- 1, b64_pos, Some EINVAL)
               else base642bin_skip_padding b64 (b64_pos + 1) ignore padding_len
     else (0, b64_pos, None))"
  by auto
termination by (relation "measure (\<lambda>(b64, pos, _). length b64 - pos)") auto

declare base642bin_skip_padding.simps [simp del]

text \<open>The loop over the characters: the bytes written, the position, \<^verbatim>\<open>acc\<close>, \<^verbatim>\<open>acc_len\<close>, \<^verbatim>\<open>ret\<close> and the error number.\<close>

function b64_decode :: "(u32 \<Rightarrow> u32) \<Rightarrow> nat \<Rightarrow> byte list \<Rightarrow> byte list option \<Rightarrow> nat \<Rightarrow> byte list \<Rightarrow> u32 \<Rightarrow> nat
    \<Rightarrow> byte list \<times> nat \<times> u32 \<times> nat \<times> int \<times> errno option" where
  "b64_decode g bin_maxlen b64 ignore b64_pos bin acc acc_len =
    (if b64_pos < length b64 then
       let c = b64 ! b64_pos; d = g (scast c)
       in if d = 0xFF then
            if ignore \<noteq> None \<and> ignored ignore c then b64_decode g bin_maxlen b64 ignore (b64_pos + 1) bin acc acc_len
            else (bin, b64_pos, acc, acc_len, 0, None)
          else let acc = push_bit 6 acc + d; acc_len = acc_len + 6
          in if acc_len \<ge> 8 then
               let acc_len = acc_len - 8
               in if length bin \<ge> bin_maxlen then (bin, b64_pos, acc, acc_len, - 1, Some ERANGE)
                  else b64_decode g bin_maxlen b64 ignore (b64_pos + 1) (bin @ [ucast (drop_bit acc_len acc AND 0xFF)]) acc acc_len
             else b64_decode g bin_maxlen b64 ignore (b64_pos + 1) bin acc acc_len
     else (bin, b64_pos, acc, acc_len, 0, None))"
  by auto
termination by (relation "measure (\<lambda>(_, _, b64, _, pos, _). length b64 - pos)") auto

declare b64_decode.simps [simp del]

function skip_ignored :: "byte list \<Rightarrow> byte list \<Rightarrow> nat \<Rightarrow> nat" where
  "skip_ignored b64 s b64_pos =
    (if b64_pos < length b64 \<and> strchr_found s (b64 ! b64_pos) then skip_ignored b64 s (b64_pos + 1) else b64_pos)"
  by auto
termination by (relation "measure (\<lambda>(b64, _, pos). length b64 - pos)") auto

declare skip_ignored.simps [simp del]

definition sodium_base642bin :: "nat \<Rightarrow> byte list \<Rightarrow> byte list option \<Rightarrow> bool \<Rightarrow> int \<Rightarrow> decoded option" where
  "sodium_base642bin bin_maxlen b64 ignore has_end variant =
    (if \<not> base64_variant_ok variant then None
     else let (bin, b64_pos, acc, acc_len, ret, err) =
                b64_decode (if urlsafe variant then b64_urlsafe_char_to_byte else b64_char_to_byte) bin_maxlen b64 ignore 0 [] 0 0;
              (ret, b64_pos, err) =
                (if acc_len > 4 \<or> acc AND (push_bit acc_len 1 - 1) \<noteq> 0 then (- 1, b64_pos, err)
                 else if ret = 0 \<and> \<not> no_padding variant
                 then let (r, p, e) = base642bin_skip_padding b64 b64_pos ignore (acc_len div 2) in (r, p, if e = None then err else e)
                 else (ret, b64_pos, err));
              (bin_pos, b64_pos) =
                (if ret \<noteq> 0 then (0, b64_pos)
                 else (length bin, case ignore of None \<Rightarrow> b64_pos | Some s \<Rightarrow> skip_ignored b64 s b64_pos));
              (err, ret) = (if \<not> has_end \<and> b64_pos \<noteq> length b64 then (Some EINVAL, - 1) else (err, ret))
          in Some \<lparr>d_ret = ret, d_len = bin_pos, d_bin = bin, d_pos = b64_pos, d_errno = err\<rparr>)"

section \<open>Alphabets\<close>

text \<open>The comparisons on values below 256.\<close>

lemma b64_comparisons:
  assumes "unat x < 256" "unat y < 256"
  shows "b64_LT x y = (if x < y then 0xFF else 0)" "b64_GE x y = (if x < y then 0 else 0xFF)"
    "b64_LE x y = (if y < x then 0 else 0xFF)" "b64_EQ x y = (if x = y then 0xFF else 0)"
proof -
  show "b64_LT x y = (if x < y then 0xFF else 0)" "b64_GE x y = (if x < y then 0 else 0xFF)" "b64_LE x y = (if y < x then 0 else 0xFF)"
    using assms by (simp_all add: b64_LT_def b64_LE_def b64_GE_def b64_GT_def byte2_diff word_less_nat_alt)
  have z: "unat (x XOR y) < 256" using xor_less [of x 8 y] assms by simp
  show "b64_EQ x y = (if x = y then 0xFF else 0)"
    using byte2_diff [of "x XOR y" 0] z by (simp add: b64_EQ_def unat_gt_0 u32_xor_zero)
qed

lemma b64_char_of:
  assumes "x < 64"
  shows "b64_byte_to_char x = (if x < 26 then x + 65 else if x < 52 then x + 71 else if x < 62 then x - 4 else if x = 62 then 43 else 47)"
    "b64_byte_to_urlsafe_char x = (if x < 26 then x + 65 else if x < 52 then x + 71 else if x < 62 then x - 4 else if x = 62 then 45 else 95)"
proof -
  have u: "unat x < 64" using assms by (simp add: word_less_nat_alt)
  then have v: "unat (x + 65) < 256" "unat (x + 71) < 256" by (simp_all add: unat_word_ariths)
  have w: "\<not> x < 52 \<Longrightarrow> unat (x - 4) < 256" using u by (simp add: unat_sub_if_size word_less_nat_alt)
  have n: "97 - 26 = (71 :: u32)" "48 - 52 = (- 4 :: u32)" by simp_all
  show "b64_byte_to_char x = (if x < 26 then x + 65 else if x < 52 then x + 71 else if x < 62 then x - 4 else if x = 62 then 43 else 47)"
    "b64_byte_to_urlsafe_char x = (if x < 26 then x + 65 else if x < 52 then x + 71 else if x < 62 then x - 4 else if x = 62 then 45 else 95)"
    using u v w assms unfolding b64_byte_to_char_def b64_byte_to_urlsafe_char_def n
    by (auto simp: b64_comparisons and_255 word_less_nat_alt word_unat_eq_iff)
qed

lemma b64_range:
  assumes "unat c < 256" "unat l < 256" "unat h < 256"
  shows "b64_GE c l AND b64_LE c h = (if l \<le> c \<and> c \<le> h then 0xFF else 0)"
  using b64_comparisons(2) [OF assms(1,2)] b64_comparisons(3) [OF assms(1,3)] by auto

lemma b64_value_of:
  assumes "unat c < 256"
  shows "b64_char_to_byte c = (if 65 \<le> c \<and> c \<le> 90 then c - 65 else if 97 \<le> c \<and> c \<le> 122 then c - 71 else if 48 \<le> c \<and> c \<le> 57 then c + 4
      else if c = 43 then 62 else if c = 47 then 63 else 0xFF)"
    "b64_urlsafe_char_to_byte c = (if 65 \<le> c \<and> c \<le> 90 then c - 65 else if 97 \<le> c \<and> c \<le> 122 then c - 71 else if 48 \<le> c \<and> c \<le> 57 then c + 4
      else if c = 45 then 62 else if c = 95 then 63 else 0xFF)"
proof -
  have n: "97 - 26 = (71 :: u32)" "48 - 52 = (- 4 :: u32)" by simp_all
  have v: "65 \<le> c \<and> c \<le> 90 \<Longrightarrow> unat (c - 65) = unat c - 65" "97 \<le> c \<and> c \<le> 122 \<Longrightarrow> unat (c - 71) = unat c - 71"
      "48 \<le> c \<and> c \<le> 57 \<Longrightarrow> unat (c + 4) = unat c + 4"
    by (auto simp: unat_sub_if_size unat_word_ariths word_le_nat_alt)
  note rules = b64_comparisons and_255 word_less_nat_alt word_le_nat_alt word_unat_eq_iff
  consider "65 \<le> c \<and> c \<le> 90" | "97 \<le> c \<and> c \<le> 122" | "48 \<le> c \<and> c \<le> 57"
    | "\<not> (65 \<le> c \<and> c \<le> 90)" "\<not> (97 \<le> c \<and> c \<le> 122)" "\<not> (48 \<le> c \<and> c \<le> 57)" by blast
  then have "b64_char_to_byte c = (if 65 \<le> c \<and> c \<le> 90 then c - 65 else if 97 \<le> c \<and> c \<le> 122 then c - 71 else if 48 \<le> c \<and> c \<le> 57 then c + 4
      else if c = 43 then 62 else if c = 47 then 63 else 0xFF) \<and>
    b64_urlsafe_char_to_byte c = (if 65 \<le> c \<and> c \<le> 90 then c - 65 else if 97 \<le> c \<and> c \<le> 122 then c - 71 else if 48 \<le> c \<and> c \<le> 57 then c + 4
      else if c = 45 then 62 else if c = 95 then 63 else 0xFF)"
  proof cases
    case 1
    then show ?thesis using v(1) unfolding b64_char_to_byte_def b64_urlsafe_char_to_byte_def Let_def by (auto simp: rules)
  next
    case 2
    then show ?thesis using v(2) unfolding b64_char_to_byte_def b64_urlsafe_char_to_byte_def n Let_def by (auto simp: rules)
  next
    case 3
    then show ?thesis using v(3) unfolding b64_char_to_byte_def b64_urlsafe_char_to_byte_def n Let_def by (simp add: rules)
  next
    case 4
    have "\<not> 65 \<le> c \<or> \<not> c \<le> 90" "\<not> 97 \<le> c \<or> \<not> c \<le> 122" "\<not> 48 \<le> c \<or> \<not> c \<le> 57" "c \<noteq> 65" using 4 by auto
    then show ?thesis using assms 4 unfolding b64_char_to_byte_def b64_urlsafe_char_to_byte_def Let_def
      by (simp add: b64_range b64_comparisons(4) if_not_P)
  qed
  then show "b64_char_to_byte c = (if 65 \<le> c \<and> c \<le> 90 then c - 65 else if 97 \<le> c \<and> c \<le> 122 then c - 71 else if 48 \<le> c \<and> c \<le> 57 then c + 4
      else if c = 43 then 62 else if c = 47 then 63 else 0xFF)"
    "b64_urlsafe_char_to_byte c = (if 65 \<le> c \<and> c \<le> 90 then c - 65 else if 97 \<le> c \<and> c \<le> 122 then c - 71 else if 48 \<le> c \<and> c \<le> 57 then c + 4
      else if c = 45 then 62 else if c = 95 then 63 else 0xFF)" by blast+
qed

section \<open>Encoding and decoding\<close>

lemma shift_in:
  fixes a d :: u32
  assumes "unat d < 2 ^ s" "k + s \<le> 32"
  shows "unat (push_bit s a + d) mod 2 ^ (k + s) = (unat a mod 2 ^ k) * 2 ^ s + unat d"
proof -
  have "unat (push_bit s a + d) = (unat a * 2 ^ s + unat d) mod 2 ^ 32"
    by (simp only: unat_word_ariths unsigned_push_bit_eq take_bit_eq_mod) (simp add: push_bit_eq_mult mod_add_left_eq)
  moreover have "(2 :: nat) ^ (k + s) dvd 2 ^ 32" using assms(2) by (rule le_imp_power_dvd)
  ultimately have "unat (push_bit s a + d) mod 2 ^ (k + s) = (unat a * 2 ^ s + unat d) mod 2 ^ (k + s)"
    by (simp add: mod_mod_cancel)
  also have "\<dots> = (unat a * 2 ^ s + unat d) mod (2 ^ s * 2 ^ k)" by (simp add: power_add mult.commute)
  also have "\<dots> = 2 ^ s * ((unat a * 2 ^ s + unat d) div 2 ^ s mod 2 ^ k) + (unat a * 2 ^ s + unat d) mod 2 ^ s" by (rule mod_mult2_eq)
  also have "\<dots> = (unat a mod 2 ^ k) * 2 ^ s + unat d" using assms(1) by simp
  finally show ?thesis .
qed

lemma field_of: "(a :: nat) div 2 ^ l mod 2 ^ w = a mod 2 ^ (l + w) div 2 ^ l"
  by (simp add: power_add mod_mult2_eq)

lemma digit_word: "drop_bit l (a :: u32) AND 0x3F = of_nat (unat a mod 2 ^ (l + 6) div 2 ^ l)"
proof -
  have "0x3F = (mask 6 :: u32)" by (simp add: mask_numeral)
  then have "unat (drop_bit l a AND 0x3F) = unat a div 2 ^ l mod 2 ^ 6"
    by (simp only: take_bit_eq_mask [symmetric] unsigned_take_bit_eq unsigned_drop_bit_eq) (simp add: take_bit_eq_mod drop_bit_eq_div u32_mod)
  then show ?thesis unfolding field_of by (metis of_nat_unat ucast_id)
qed

lemma byte_word: "ucast (drop_bit l (a :: u32) AND 0xFF) = (of_nat (unat a mod 2 ^ (l + 8) div 2 ^ l) :: byte)"
proof -
  have "0xFF = (mask 8 :: u32)" by (simp add: mask_numeral)
  then have "unat (drop_bit l a AND 0xFF) = unat a div 2 ^ l mod 2 ^ 8"
    by (simp only: take_bit_eq_mask [symmetric] unsigned_take_bit_eq unsigned_drop_bit_eq) (simp add: take_bit_eq_mod drop_bit_eq_div u32_mod)
  then show ?thesis unfolding field_of by (metis of_nat_unat)
qed

text \<open>An alphabet: the characters of the 64 digits decode to them, and the padding character and the terminator to none.\<close>

locale base64_alphabet =
  fixes f :: "u32 \<Rightarrow> u32" and g :: "u32 \<Rightarrow> u32"
  assumes decode_digit: "d < 64 \<Longrightarrow> g (scast (ucast (f (of_nat d)) :: byte)) = of_nat d"
    and decode_pad: "g 61 = 0xFF" and decode_end: "g 0 = 0xFF"
begin

lemma decode_step:
  assumes "pos < length s" "s ! pos = ucast (f (of_nat d))" "d < 64" "k \<in> {0, 2, 4, 6}" "k \<noteq> 0 \<Longrightarrow> length bin < n"
  shows "\<exists>acc'. b64_decode g n s ign pos bin acc k =
      (if k = 0 then b64_decode g n s ign (pos + 1) bin acc' 6
       else b64_decode g n s ign (pos + 1) (bin @ [of_nat ((unat acc mod 2 ^ k * 64 + d) div 2 ^ (k - 2))]) acc' (k - 2))
    \<and> unat acc' mod 2 ^ (if k = 0 then 6 else k - 2) = (unat acc mod 2 ^ k * 64 + d) mod 2 ^ (if k = 0 then 6 else k - 2)"
proof -
  define acc' where "acc' = push_bit 6 acc + of_nat d"
  have d: "g (scast (s ! pos)) = of_nat d" using decode_digit assms(2,3) by simp
  have ud: "unat (of_nat d :: u32) = d" using assms(3) by (simp add: unsigned_of_nat take_bit_nat_eq_self)
  have ne: "of_nat d \<noteq> (0xFF :: u32)" using ud assms(3) by auto
  have m: "unat acc' mod 2 ^ (k + 6) = unat acc mod 2 ^ k * 64 + d"
    using shift_in [of "of_nat d" 6 k acc] assms(3,4) ud by (auto simp: acc'_def)
  have low: "unat acc' mod 2 ^ j = (unat acc mod 2 ^ k * 64 + d) mod 2 ^ j" if "j \<le> k + 6" for j
    unfolding m [symmetric] using that by (simp add: mod_mod_cancel le_imp_power_dvd)
  show ?thesis
  proof (cases "k = 0")
    case True
    then show ?thesis using assms(1) d ne low [of 6]
      by (intro exI [of _ acc'] conjI) (subst b64_decode.simps, simp_all add: Let_def acc'_def)
  next
    case False
    have b: "ucast (drop_bit (k - 2) acc' AND 0xFF) = (of_nat ((unat acc mod 2 ^ k * 64 + d) div 2 ^ (k - 2)) :: byte)"
      using m assms(4) False unfolding byte_word by auto
    show ?thesis using assms(1,4,5) d ne low [of "k - 2"] b False
      by (intro exI [of _ acc'] conjI) (subst b64_decode.simps, auto simp add: Let_def acc'_def)
  qed
qed

definition ch :: "nat \<Rightarrow> byte" where "ch d = ucast (f (of_nat d))"

lemma encode_end:
  assumes "n \<in> {0, 2, 4}"
  shows "b64_encode f [] acc n = (if n = 0 then [] else [ch (unat acc mod 2 ^ n * 2 ^ (6 - n))])"
proof (cases "n = 0")
  case False
  have "push_bit (6 - n) acc AND 0x3F = of_nat (unat (push_bit (6 - n) acc) mod 2 ^ 6)"
    using digit_word [of 0 "push_bit (6 - n) acc"] by simp
  also have "unat (push_bit (6 - n) acc) mod 2 ^ 6 = unat acc mod 2 ^ n * 2 ^ (6 - n)"
    using shift_in [of 0 "6 - n" n acc] assms False by auto
  finally show ?thesis using False by (simp add: ch_def)
qed simp

lemma encode_step:
  fixes acc :: u32 and x :: byte
  assumes "n \<in> {0, 2, 4}"
  defines "V \<equiv> unat acc mod 2 ^ n * 256 + unat x"
  shows "\<exists>acc'. b64_encode f (x # xs) acc n
      = (if n = 0 then [ch (V div 4)] else if n = 2 then [ch (V div 16)] else [ch (V div 64), ch (V mod 64)]) @ b64_encode f xs acc' ((n + 2) mod 6)
    \<and> unat acc' mod 2 ^ ((n + 2) mod 6) = V mod 2 ^ ((n + 2) mod 6)"
proof -
  define a where "a = push_bit 8 acc + ucast x"
  have x: "unat x < 256" using byte_bounds(1) [of x] by simp
  have ux: "unat (ucast x :: u32) = unat x" using x by (simp add: unsigned_ucast_eq take_bit_nat_eq_self)
  have m: "unat a mod 2 ^ (n + 8) = V"
    using shift_in [of "ucast x" 8 n acc] assms(1) x by (auto simp: a_def V_def ux)
  have low: "unat a mod 2 ^ j = V mod 2 ^ j" if "j \<le> n + 8" for j unfolding m [symmetric] using that by (simp add: mod_mod_cancel le_imp_power_dvd)
  have dig: "ucast (f (drop_bit l a AND 0x3F)) = ch (V mod 2 ^ (l + 6) div 2 ^ l)" if "l \<le> n + 2" for l
    using that by (simp only: ch_def digit_word low [of "l + 6"])
  have V: "V < 2 ^ (n + 8)" unfolding m [symmetric] by simp
  consider "n = 0" | "n = 2" | "n = 4" using assms(1) by blast
  then show ?thesis
  proof cases
    case 1
    then show ?thesis using dig [of 2] low [of 2] V
      by (intro exI [of _ a]) (simp add: a_def [symmetric] Let_def b64_emit.simps flip: numeral_2_eq_2)
  next
    case 2
    then show ?thesis using dig [of 4] low [of 4] V
      by (intro exI [of _ a]) (simp add: a_def [symmetric] Let_def b64_emit.simps)
  next
    case 3
    then show ?thesis using dig [of 6] dig [of 0] V
      by (intro exI [of _ a]) (simp add: a_def [symmetric] Let_def b64_emit.simps)
  qed
qed

lemma decode_stop:
  assumes "drop pos s = rest" "pos \<le> length s" "rest = [] \<or> g (scast (hd rest)) = 0xFF \<and> \<not> ignored ign (hd rest)"
  shows "b64_decode g N s ign pos bin acc k = (bin, pos, acc, k, 0, None)"
proof (cases "rest = []")
  case False
  then have "pos < length s" "s ! pos = hd rest" using assms(1) by (auto simp: hd_drop_conv_nth)
  then show ?thesis using assms(3) False by (subst b64_decode.simps) (simp add: Let_def)
next
  case True
  then show ?thesis using assms(1) by (subst b64_decode.simps) simp
qed

lemma decode_next:
  assumes "drop pos s = ch d # r" "d < 64" "k \<in> {0, 2, 4, 6}" "k \<noteq> 0 \<Longrightarrow> length bin < n"
  shows "\<exists>acc'. b64_decode g n s ign pos bin acc k =
      (if k = 0 then b64_decode g n s ign (pos + 1) bin acc' 6
       else b64_decode g n s ign (pos + 1) (bin @ [of_nat ((unat acc mod 2 ^ k * 64 + d) div 2 ^ (k - 2))]) acc' (k - 2))
    \<and> unat acc' mod 2 ^ (if k = 0 then 6 else k - 2) = (unat acc mod 2 ^ k * 64 + d) mod 2 ^ (if k = 0 then 6 else k - 2)
    \<and> drop (pos + 1) s = r \<and> pos + 1 \<le> length s"
proof -
  have "pos < length s" "s ! pos = ch d" using assms(1) by (metis drop_eq_Nil linorder_not_less list.distinct(1), metis hd_drop_conv_nth drop_eq_Nil linorder_not_less list.distinct(1) list.sel(1))
  moreover have "drop (pos + 1) s = r" using assms(1) by (metis add.commute drop_drop drop0 drop_Suc_Cons One_nat_def)
  ultimately show ?thesis using decode_step [of pos s d k bin n ign acc] assms(2-4) by (auto simp: ch_def)
qed

lemma decode_next_first:
  assumes "drop pos s = ch d # r" "d < 64"
  obtains acc' where "b64_decode g n s ign pos bin acc 0 = b64_decode g n s ign (pos + 1) bin acc' 6" "unat acc' mod 2 ^ 6 = d"
    "drop (pos + 1) s = r" "pos + 1 \<le> length s"
  using decode_next [OF assms, of 0 bin n ign acc] assms(2) by auto

lemma decode_next_byte:
  assumes "drop pos s = ch d # r" "d < 64" "length bin < n" "k \<in> {2, 4, 6}" "e = (unat acc mod 2 ^ k * 64 + d)"
  obtains acc' where "b64_decode g n s ign pos bin acc k = b64_decode g n s ign (pos + 1) (bin @ [of_nat (e div 2 ^ (k - 2))]) acc' (k - 2)"
    "unat acc' mod 2 ^ (k - 2) = e mod 2 ^ (k - 2)" "drop (pos + 1) s = r" "pos + 1 \<le> length s"
proof -
  have "k \<noteq> 0" "k \<in> {0, 2, 4, 6}" using assms(4) by auto
  then show ?thesis using decode_next [OF assms(1,2), of k bin n ign acc] assms(3) that unfolding assms(5) by (simp only: if_False) blast
qed

text \<open>One byte of input, in the three positions it can have in a group: the digits written for it are read back, and the halves of it
  that are still pending are in the accumulators.\<close>

lemma decode_first:
  assumes "drop pos s = b64_encode f (x # xs) acc 0 @ rest"
  obtains a b where "b64_decode g N s ign pos bin acc2 0 = b64_decode g N s ign (pos + 1) bin b 6" "drop (pos + 1) s = b64_encode f xs a 2 @ rest"
    "pos + 1 \<le> length s" "[x] = [of_nat (unat b mod 2 ^ 6 * 2 ^ 2 + unat a mod 2 ^ 2)]" "length (b64_encode f (x # xs) acc 0) = 1 + length (b64_encode f xs a 2)"
proof -
  note [simp del] = b64_encode.simps
  have n2: "(0 + 2) mod 6 = (2 :: nat)" by simp
  obtain a where a: "b64_encode f (x # xs) acc 0 = [ch (unat x div 4)] @ b64_encode f xs a 2" "unat a mod 2 ^ 2 = unat x mod 2 ^ 2"
    using encode_step [of 0 x xs acc, unfolded n2] by auto
  have "drop pos s = ch (unat x div 4) # b64_encode f xs a 2 @ rest" "unat x div 4 < 64" using assms a(1) byte_bounds(1) [of x] by simp_all
  from decode_next_first [OF this] obtain b where
    b: "b64_decode g N s ign pos bin acc2 0 = b64_decode g N s ign (pos + 1) bin b 6" "unat b mod 2 ^ 6 = unat x div 4"
      "drop (pos + 1) s = b64_encode f xs a 2 @ rest" "pos + 1 \<le> length s" by blast
  have "unat b mod 2 ^ 6 * 2 ^ 2 + unat a mod 2 ^ 2 = unat x div 4 * 4 + unat x mod 4" using b(2) a(2) by simp
  then have "[x] = [of_nat (unat b mod 2 ^ 6 * 2 ^ 2 + unat a mod 2 ^ 2)]" by (simp only: div_mult_mod_eq of_nat_unat ucast_id)
  then show ?thesis using that b(1,3,4) a(1) by simp
qed

lemma decode_second:
  assumes "drop pos s = b64_encode f (x # xs) acc 2 @ rest" "length bin < N" "y = [of_nat (unat acc2 mod 2 ^ 6 * 4 + unat acc mod 2 ^ 2)]"
  obtains a b where "b64_decode g N s ign pos bin acc2 6 = b64_decode g N s ign (pos + 1) (bin @ y) b 4" "drop (pos + 1) s = b64_encode f xs a 4 @ rest"
    "pos + 1 \<le> length s" "[x] = [of_nat (unat b mod 2 ^ 4 * 2 ^ 4 + unat a mod 2 ^ 4)]" "length (b64_encode f (x # xs) acc 2) = 1 + length (b64_encode f xs a 4)"
proof -
  note [simp del] = b64_encode.simps
  define v w where "v = unat acc mod 2 ^ 2" and "w = unat acc2 mod 2 ^ 6"
  define V where "V = v * 256 + unat x"
  have vw: "v < 2 ^ 2" "w < 2 ^ 6" "unat x < 256" using byte_bounds(1) [of x] by (simp_all add: v_def w_def)
  obtain a where a: "b64_encode f (x # xs) acc 2 = [ch (V div 16)] @ b64_encode f xs a 4" "unat a mod 2 ^ 4 = V mod 2 ^ 4"
    using encode_step [of 2 x xs acc, folded v_def, folded V_def] by auto
  have "drop pos s = ch (V div 16) # b64_encode f xs a 4 @ rest" "V div 16 < 64" using assms(1) a(1) vw by (simp_all add: V_def)
  from decode_next_byte [OF this assms(2), of 6 "w * 64 + V div 16" acc2 ign] obtain b where
    b: "b64_decode g N s ign pos bin acc2 6 = b64_decode g N s ign (pos + 1) (bin @ [of_nat ((w * 64 + V div 16) div 2 ^ 4)]) b 4"
      "unat b mod 2 ^ 4 = (w * 64 + V div 16) mod 2 ^ 4"
      "drop (pos + 1) s = b64_encode f xs a 4 @ rest" "pos + 1 \<le> length s"
    by (auto simp: w_def)
  have q: "w * 64 + V div 16 = 16 * (w * 4 + v) + unat x div 16" "unat x div 16 < 16" using vw by (simp_all add: V_def)
  have dm: "(16 * A + B) div 2 ^ 4 = A" "(16 * A + B) mod 2 ^ 4 = B" if "B < 16" for A B :: nat using that by simp_all
  note e = dm [OF q(2), of "w * 4 + v", folded q(1)]
  have "V = unat x + v * 16 * 16" by (simp add: V_def)
  then have "V mod 16 = unat x mod 16" by (simp only: mod_mult_self1)
  then have "unat b mod 2 ^ 4 * 2 ^ 4 + unat a mod 2 ^ 4 = unat x div 16 * 16 + unat x mod 16" using b(2) e(2) a(2) by simp
  then have "[x] = [of_nat (unat b mod 2 ^ 4 * 2 ^ 4 + unat a mod 2 ^ 4)]" by (simp only: div_mult_mod_eq of_nat_unat ucast_id)
  moreover have "b64_decode g N s ign pos bin acc2 6 = b64_decode g N s ign (pos + 1) (bin @ y) b 4"
    using b(1) unfolding e(1) unfolding assms(3) w_def v_def .
  moreover have "length (b64_encode f (x # xs) acc 2) = 1 + length (b64_encode f xs a 4)" unfolding a(1) by simp
  ultimately show ?thesis using that b(3,4) by blast
qed

lemma decode_third:
  assumes "drop pos s = b64_encode f (x # xs) acc 4 @ rest" "length bin + 1 < N" "y = [of_nat (unat acc2 mod 2 ^ 4 * 16 + unat acc mod 2 ^ 4)]"
  obtains a b where "b64_decode g N s ign pos bin acc2 4 = b64_decode g N s ign (pos + 2) (bin @ y @ [x]) b 0" "drop (pos + 2) s = b64_encode f xs a 0 @ rest"
    "pos + 2 \<le> length s" "length (b64_encode f (x # xs) acc 4) = 2 + length (b64_encode f xs a 0)"
proof -
  note [simp del] = b64_encode.simps
  define v w where "v = unat acc mod 2 ^ 4" and "w = unat acc2 mod 2 ^ 4"
  define V where "V = v * 256 + unat x"
  have vw: "v < 2 ^ 4" "w < 2 ^ 4" "unat x < 256" using byte_bounds(1) [of x] by (simp_all add: v_def w_def)
  obtain a where a: "b64_encode f (x # xs) acc 4 = [ch (V div 64), ch (V mod 64)] @ b64_encode f xs a 0"
    using encode_step [of 4 x xs acc, folded v_def, folded V_def] by auto
  have d: "drop pos s = ch (V div 64) # ch (V mod 64) # b64_encode f xs a 0 @ rest" "V div 64 < 64" "V mod 64 < 64"
    using assms(1) a vw by (simp_all add: V_def)
  have l: "length bin < N" "length (bin @ y) < N" using assms(2,3) by simp_all
  obtain b where
    b: "b64_decode g N s ign pos bin acc2 4 = b64_decode g N s ign (pos + 1) (bin @ [of_nat ((w * 64 + V div 64) div 2 ^ 2)]) b 2"
      "unat b mod 2 ^ 2 = (w * 64 + V div 64) mod 2 ^ 2"
      "drop (pos + 1) s = ch (V mod 64) # b64_encode f xs a 0 @ rest" "pos + 1 \<le> length s"
    using decode_next_byte [OF d(1,2) l(1), of 4 "w * 64 + V div 64" acc2 ign] by (auto simp: w_def)
  have q: "w * 64 + V div 64 = 4 * (w * 16 + v) + unat x div 64" "unat x div 64 < 4" using vw by (simp_all add: V_def)
  have dm: "(4 * A + B) div 2 ^ 2 = A" "(4 * A + B) mod 2 ^ 2 = B" if "B < 4" for A B :: nat using that by simp_all
  have "V = unat x + v * 4 * 64" by (simp add: V_def)
  then have "V mod 64 = unat x mod 64" by (simp only: mod_mult_self1)
  note e = dm [OF q(2), of "w * 16 + v", folded q(1)] this
  have y: "[of_nat (w * 16 + v)] = y" using assms(3) by (simp add: w_def v_def)
  obtain c where
    c: "b64_decode g N s ign (pos + 1) (bin @ y) b 2 = b64_decode g N s ign (pos + 2) (bin @ y @ [of_nat (unat x div 64 * 64 + unat x mod 64)]) c 0"
      "drop (pos + 2) s = b64_encode f xs a 0 @ rest" "pos + 2 \<le> length s"
    using decode_next_byte [OF b(3) d(3) l(2), of 2 "unat x div 64 * 64 + unat x mod 64" b ign] e b(2) by auto
  have "of_nat (unat x div 64 * 64 + unat x mod 64) = x" by (simp only: div_mult_mod_eq of_nat_unat ucast_id)
  then show ?thesis using that [of c a] b(1) c a unfolding e(1) y by simp
qed

text \<open>The pending bits of the encoder and of the decoder are the halves of the last byte.\<close>

lemma decode_encode:
  assumes "n \<in> {0, 2, 4}" "k = (if n = 0 then 0 else 8 - n)" "drop pos s = b64_encode f xs acc n @ rest" "pos \<le> length s"
    "rest = [] \<or> g (scast (hd rest)) = 0xFF \<and> \<not> ignored ign (hd rest)"
    "length bin + (if n = 0 then 0 else 1) + length xs \<le> N"
    "y = (if n = 0 then [] else [of_nat (unat acc2 mod 2 ^ k * 2 ^ n + unat acc mod 2 ^ n)])"
  shows "\<exists>acc' k'. b64_decode g N s ign pos bin acc2 k = (bin @ y @ xs, pos + length (b64_encode f xs acc n), acc', k', 0, None)
    \<and> unat acc' mod 2 ^ k' = 0 \<and> k' = (6 - (n + 2 * length xs) mod 6) mod 6"
  using assms
proof (induction xs arbitrary: n k pos acc bin y acc2)
  case Nil
  define v where "v = unat acc mod 2 ^ n"
  show ?case
  proof (cases "n = 0")
    case True
    then show ?thesis using Nil decode_stop [of pos s rest] by (simp add: encode_end)
  next
    case False
    then have k: "k = 8 - n" "n = 2 \<or> n = 4" using Nil.prems(1,2) by auto
    have v: "v < 2 ^ n" by (simp add: v_def)
    have lt: "v * 2 ^ (6 - n) < 64" using k(2) v by auto
    have dr: "drop pos s = ch (v * 2 ^ (6 - n)) # rest" using Nil.prems(1,3) False encode_end [of n acc] by (simp add: v_def)
    have "length bin < N" "k \<in> {2, 4, 6}" using k Nil.prems(6) False by auto
    from decode_next_byte [OF dr lt this refl] obtain acc' where
      a: "b64_decode g N s ign pos bin acc2 k
          = b64_decode g N s ign (pos + 1) (bin @ [of_nat ((unat acc2 mod 2 ^ k * 64 + v * 2 ^ (6 - n)) div 2 ^ (k - 2))]) acc' (k - 2)"
        "unat acc' mod 2 ^ (k - 2) = (unat acc2 mod 2 ^ k * 64 + v * 2 ^ (6 - n)) mod 2 ^ (k - 2)" "drop (pos + 1) s = rest" "pos + 1 \<le> length s"
      by blast
    have "(unat acc2 mod 2 ^ k * 64 + v * 2 ^ (6 - n)) div 2 ^ (k - 2) = unat acc2 mod 2 ^ k * 2 ^ n + v" using k by auto
    moreover have "(unat acc2 mod 2 ^ k * 64 + v * 2 ^ (6 - n)) mod 2 ^ (k - 2) = 0" using k by auto
    ultimately show ?thesis
      using a(1,2) decode_stop [OF a(3,4) Nil.prems(5)] Nil.prems(1,7) False k encode_end [of n acc] by (auto simp: v_def)
  qed
next
  case (Cons x xs)
  note [simp del] = b64_encode.simps
  consider "n = 0" "k = 0" | "n = 2" "k = 6" | "n = 4" "k = 4" using Cons.prems(1,2) by auto
  then show ?case
  proof cases
    case 1
    obtain a b where s: "b64_decode g N s ign pos bin acc2 0 = b64_decode g N s ign (pos + 1) bin b 6" "drop (pos + 1) s = b64_encode f xs a 2 @ rest"
        "pos + 1 \<le> length s" "[x] = [of_nat (unat b mod 2 ^ 6 * 2 ^ 2 + unat a mod 2 ^ 2)]" "length (b64_encode f (x # xs) acc 0) = 1 + length (b64_encode f xs a 2)"
      using decode_first Cons.prems(3) 1 by blast
    have "length bin + (if (2 :: nat) = 0 then 0 else 1) + length xs \<le> N" using Cons.prems(6) by simp
    note IH = Cons.IH [of 2 6 "pos + 1" a bin "[x]" b, OF _ _ s(2,3) Cons.prems(5) this]
    show ?thesis using IH s(1,4,5) Cons.prems(7) 1 by (simp flip: numeral_2_eq_2)
  next
    case 2
    then have y: "y = [of_nat (unat acc2 mod 2 ^ 6 * 4 + unat acc mod 2 ^ 2)]" "length bin < N" using Cons.prems(6,7) by simp_all
    obtain a b where s: "b64_decode g N s ign pos bin acc2 6 = b64_decode g N s ign (pos + 1) (bin @ y) b 4" "drop (pos + 1) s = b64_encode f xs a 4 @ rest"
        "pos + 1 \<le> length s" "[x] = [of_nat (unat b mod 2 ^ 4 * 2 ^ 4 + unat a mod 2 ^ 4)]" "length (b64_encode f (x # xs) acc 2) = 1 + length (b64_encode f xs a 4)"
      using decode_second [OF _ y(2,1)] Cons.prems(3) 2 by blast
    have "length (bin @ y) + (if (4 :: nat) = 0 then 0 else 1) + length xs \<le> N" using Cons.prems(6) y 2 by simp
    note IH = Cons.IH [of 4 4 "pos + 1" a "bin @ y" "[x]" b, OF _ _ s(2,3) Cons.prems(5) this]
    show ?thesis using IH s(1,4,5) 2 by simp
  next
    case 3
    then have y: "y = [of_nat (unat acc2 mod 2 ^ 4 * 16 + unat acc mod 2 ^ 4)]" "length bin + 1 < N" using Cons.prems(6,7) by simp_all
    obtain a b where s: "b64_decode g N s ign pos bin acc2 4 = b64_decode g N s ign (pos + 2) (bin @ y @ [x]) b 0" "drop (pos + 2) s = b64_encode f xs a 0 @ rest"
        "pos + 2 \<le> length s" "length (b64_encode f (x # xs) acc 4) = 2 + length (b64_encode f xs a 0)"
      using decode_third [OF _ y(2,1)] Cons.prems(3) 3 by blast
    have "length (bin @ y @ [x]) + (if (0 :: nat) = 0 then 0 else 1) + length xs \<le> N" using Cons.prems(6) y 3 by simp
    note IH = Cons.IH [of 0 0 "pos + 2" a "bin @ y @ [x]" "[]" b, OF _ _ s(2,3) Cons.prems(5) this]
    show ?thesis using IH s(1,4) 3 by simp
  qed
qed

end

lemma char_sign:
  "unat (c :: byte) < 128 \<Longrightarrow> sint c = int (unat c)" "128 \<le> unat c \<Longrightarrow> sint c = int (unat c) - 256"
proof -
  have s: "sint c = (int (unat c) + 128) mod 256 - 128"
    by (simp only: sint_uint uint_nat) (simp add: signed_take_bit_eq_take_bit_shift take_bit_eq_mod)
  have b: "unat c < 256" using byte_bounds(1) [of c] by simp
  have "(int n + 128) mod 256 - 128 = int n" if "n < 128" for n using that by simp
  then show "unat c < 128 \<Longrightarrow> sint c = int (unat c)" unfolding s by blast
  have "(int n + 128) mod 256 - 128 = int n - 256" if "128 \<le> n" "n < 256" for n
    using that by (subst minus_mod_self2 [symmetric]) simp
  then show "128 \<le> unat c \<Longrightarrow> sint c = int (unat c) - 256" unfolding s using b by blast
qed

lemma ascii_char: "unat (w :: u32) < 128 \<Longrightarrow> scast (ucast w :: byte) = w"
proof -
  assume a: "unat w < 128"
  then have u: "unat (ucast w :: byte) = unat w" by (simp add: unsigned_ucast_eq take_bit_nat_eq_self)
  have "sint (ucast w :: byte) = int (unat w)" using char_sign(1) [of "ucast w"] a unfolding u by blast
  then show ?thesis by (simp only: scast_eq of_int_of_nat_eq of_nat_unat ucast_id) simp
qed

lemma b64_digit_values:
  assumes "x < (64 :: u32)"
  shows "unat (b64_byte_to_char x) < 128" "unat (b64_byte_to_urlsafe_char x) < 128"
    "b64_char_to_byte (b64_byte_to_char x) = x" "b64_urlsafe_char_to_byte (b64_byte_to_urlsafe_char x) = x"
proof -
  have u: "unat x < 64" using assms by (simp add: word_less_nat_alt)
  then have v: "unat (x + 65) = unat x + 65" "unat (x + 71) = unat x + 71" "\<not> x < 52 \<Longrightarrow> unat (x - 4) = unat x - 4"
    by (simp_all add: unat_word_ariths unat_sub_if_size word_less_nat_alt)
  show l: "unat (b64_byte_to_char x) < 128" "unat (b64_byte_to_urlsafe_char x) < 128"
    using u v by (auto simp: b64_char_of [OF assms] word_less_nat_alt)
  have w: "unat (b64_byte_to_char x) < 256" "unat (b64_byte_to_urlsafe_char x) < 256" using l by simp_all
  show "b64_char_to_byte (b64_byte_to_char x) = x" "b64_urlsafe_char_to_byte (b64_byte_to_urlsafe_char x) = x"
    unfolding b64_char_of [OF assms]
    using u v by (auto simp: b64_value_of word_less_nat_alt word_le_nat_alt word_unat_eq_iff)
qed

interpretation standard: base64_alphabet b64_byte_to_char b64_char_to_byte
proof unfold_locales
  fix d :: nat assume "d < 64"
  then have "of_nat d < (64 :: u32)" by (simp add: word_less_nat_alt unsigned_of_nat take_bit_nat_eq_self)
  then show "b64_char_to_byte (scast (ucast (b64_byte_to_char (of_nat d)) :: byte)) = of_nat d"
    by (simp add: b64_digit_values ascii_char)
qed (simp_all add: b64_value_of)

interpretation url: base64_alphabet b64_byte_to_urlsafe_char b64_urlsafe_char_to_byte
proof unfold_locales
  fix d :: nat assume "d < 64"
  then have "of_nat d < (64 :: u32)" by (simp add: word_less_nat_alt unsigned_of_nat take_bit_nat_eq_self)
  then show "b64_urlsafe_char_to_byte (scast (ucast (b64_byte_to_urlsafe_char (of_nat d)) :: byte)) = of_nat d"
    by (simp add: b64_digit_values ascii_char)
qed (simp_all add: b64_value_of)

text \<open>Characters above 127 as integers.\<close>

lemma non_ascii_word:
  assumes "128 \<le> unat (c :: byte)"
  shows "unat (scast c :: u32) = 2 ^ 32 - 256 + unat c"
proof -
  have b: "unat c < 256" using byte_bounds(1) [of c] by simp
  have "uint (scast c :: u32) = (int (unat c) - 256) mod 2 ^ 32"
    using char_sign(2) [OF assms] by (simp only: scast_eq unsigned_of_int) (simp add: take_bit_eq_mod)
  moreover have "(int n - 256) mod 2 ^ 32 = int (2 ^ 32 - 256 + n)" if "n < 256" for n
    using that by (subst mod_add_self1 [symmetric], subst mod_pos_pos_trivial) simp_all
  ultimately have "int (unat (scast c :: u32)) = int (2 ^ 32 - 256 + unat c)" using b by (simp only: uint_nat)
  then show ?thesis by (simp only: of_nat_eq_iff)
qed

lemma b64_negative:
  fixes w y :: u32
  assumes "2 ^ 32 - 128 \<le> unat w" "unat y < 128"
  shows "b64_GE w y = 0" "b64_EQ w y = 0xFF"
proof -
  have "unat (w - y) = unat w - unat y" using assms by (simp add: unat_sub_if_size)
  then have "2 ^ 32 - 256 \<le> unat (w - y)" using assms by simp
  then show "b64_GE w y = 0" by (simp add: b64_GE_def b64_GT_def byte2_cases(2))
  have "unat (NOT w) = 2 ^ 32 - 1 - unat w" using unat_sub [of w "- 1"]
    by (simp add: not_eq_complement unsigned_minus_1_eq_mask mask_eq_exp_minus_1 diff_right_commute [of "- w"] minus_diff_commute)
  then have n: "unat (NOT w) < 2 ^ 7" using assms(1) by simp
  have "0 - (w XOR y) = (NOT w XOR y) + 1" by (simp add: minus_eq_not_plus_1)
  moreover have "unat (NOT w XOR y) < 2 ^ 7" using xor_less [OF n] assms(2) by simp
  ultimately have "unat (0 - (w XOR y)) < 256" by (simp add: unat_word_ariths)
  then show "b64_EQ w y = 0xFF" by (simp add: b64_EQ_def byte2_cases(1))
qed

lemma b64_non_ascii:
  assumes "128 \<le> unat (c :: byte)"
  shows "b64_char_to_byte (scast c) = 63" "b64_urlsafe_char_to_byte (scast c) = 63"
proof -
  have w: "2 ^ 32 - 128 \<le> unat (scast c :: u32)" using non_ascii_word [OF assms] assms by simp
  have e: "b64_EQ 63 0 = 0" by (simp add: b64_comparisons)
  show "b64_char_to_byte (scast c) = 63" "b64_urlsafe_char_to_byte (scast c) = 63"
    unfolding b64_char_to_byte_def b64_urlsafe_char_to_byte_def Let_def by (simp_all add: b64_negative [OF w] e)
qed

lemma skip_padding_all:
  assumes "drop pos s = replicate k 61 @ rest" "pos \<le> length s"
  shows "base642bin_skip_padding s pos ign k = (0, pos + k, None)"
  using assms
proof (induction k arbitrary: pos)
  case 0
  then show ?case by (subst base642bin_skip_padding.simps) simp
next
  case (Suc k)
  have p: "pos < length s" using Suc.prems(1) by (metis drop_eq_Nil linorder_not_less list.distinct(1) replicate_Suc append_Cons)
  moreover have "s ! pos = 61" using Suc.prems(1) p by (simp flip: Cons_nth_drop_Suc)
  moreover have "drop (pos + 1) s = replicate k 61 @ rest" using Suc.prems(1) p by (simp flip: Cons_nth_drop_Suc)
  ultimately show ?case using Suc.IH [of "pos + 1"] by (subst base642bin_skip_padding.simps) (simp add: Let_def)
qed

context base64_alphabet begin

lemma encode_length:
  "n \<in> {0, 2, 4} \<Longrightarrow> length (b64_encode f xs acc n) = (n + 8 * length xs + 5) div 6"
proof (induction xs arbitrary: acc n)
  case Nil
  then show ?case by auto
next
  case (Cons x xs)
  obtain a where a: "length (b64_encode f (x # xs) acc n) = (if n = 4 then 2 else 1) + length (b64_encode f xs a ((n + 2) mod 6))"
    using encode_step [OF Cons.prems, of x xs acc] Cons.prems by (auto split: if_splits)
  have "(n + 2) mod 6 \<in> {0, 2, 4}" using Cons.prems by auto
  note IH = Cons.IH [OF this, of a]
  show ?case unfolding a IH using Cons.prems by auto
qed

lemma encode_chars:
  "n \<in> {0, 2, 4} \<Longrightarrow> 0 \<notin> set (b64_encode f xs acc n)"
proof (induction xs arbitrary: acc n)
  have z: "ch d \<noteq> 0" if "d < 64" for d
  proof
    assume "ch d = 0"
    then have "of_nat d = (0xFF :: u32)" using decode_digit [OF that] decode_end by (simp add: ch_def)
    then have "unat (of_nat d :: u32) = unat (0xFF :: u32)" by simp
    then show False using that by (simp add: unsigned_of_nat take_bit_nat_eq_self)
  qed
  {
    case Nil
    have "unat acc mod 2 ^ n * 2 ^ (6 - n) < 64"
    proof -
      have "unat acc mod 2 ^ n < 2 ^ n" by simp
      then show ?thesis using Nil by auto
    qed
    then show ?case using encode_end [OF Nil] z by (auto dest: sym)
  next
    case (Cons x xs)
    define V where "V = unat acc mod 2 ^ n * 256 + unat x"
    obtain a where a: "b64_encode f (x # xs) acc n
      = (if n = 0 then [ch (V div 4)] else if n = 2 then [ch (V div 16)] else [ch (V div 64), ch (V mod 64)]) @ b64_encode f xs a ((n + 2) mod 6)"
      using encode_step [OF Cons.prems] unfolding V_def by blast
    have "unat acc mod 2 ^ n < 2 ^ n" "unat x < 256" using byte_bounds(1) [of x] by simp_all
    then have "n = 0 \<Longrightarrow> V div 4 < 64" "n = 2 \<Longrightarrow> V div 16 < 64" "n = 4 \<Longrightarrow> V div 64 < 64" by (auto simp: V_def)
    moreover have "(n + 2) mod 6 \<in> {0, 2, 4}" using Cons.prems by auto
    ultimately show ?case unfolding a using Cons.IH Cons.prems z by (auto dest: sym)
  }
qed

end

text \<open>The length of an encoding without its terminator.\<close>

definition base64_len :: "nat \<Rightarrow> bool \<Rightarrow> nat" where
  "base64_len l np = l div 3 * 4 + (if l mod 3 = 0 then 0 else if np then l mod 3 + 1 else 4)"

lemma variant_bit: "drop_bit 1 ((v :: u32) AND 2) = (if v AND 2 \<noteq> 0 then 1 else 0)"
proof -
  have "v AND 2 = (if bit v 1 then 2 else 0)" by (rule bit_word_eqI) (auto simp: bit_simps)
  then show ?thesis by simp
qed

lemma encoded_len:
  assumes "base64_variant_ok variant" "l < 2 ^ 62"
  shows "sodium_base64_encoded_len (of_nat l) variant = Some (of_nat (base64_len l (no_padding variant) + 1))"
proof -
  have q: "(of_nat l :: u64) div 3 = of_nat (l div 3)"
    using assms(2) by (simp add: word_unat_eq_iff unat_div unsigned_of_nat take_bit_nat_eq_self)
  have "(of_nat l :: u64) = of_nat (l mod 3) + of_nat (l div 3) * 3"
    by (metis mod_div_mult_eq of_nat_add of_nat_mult of_nat_numeral)
  then have r: "(of_nat l :: u64) - of_nat (l div 3) * 3 = of_nat (l mod 3)" by simp
  have m: "ucast (- 1 :: u32) = (0xFFFFFFFF :: u64)" by (simp add: unsigned_minus_1_eq_mask mask_numeral)
  have "l mod 3 < 3" by simp
  then consider "l mod 3 = 0" | "l mod 3 = 1" | "l mod 3 = 2" by linarith
  then show ?thesis using assms(1) unfolding sodium_base64_encoded_len_def Let_def variant_bit q r base64_len_def no_padding_def
    by cases (simp_all add: m)
qed

lemma low_bits_clear:
  "unat (acc :: u32) mod 2 ^ k = 0 \<Longrightarrow> acc AND (push_bit k 1 - 1) = 0"
proof -
  have "push_bit k 1 - 1 = (mask k :: u32)" by (simp add: mask_eq_exp_minus_1 push_bit_eq_mult)
  then have "acc AND (push_bit k 1 - 1) = take_bit k acc" by (simp only: take_bit_eq_mask)
  moreover assume "unat acc mod 2 ^ k = 0"
  ultimately show ?thesis by (simp only: word_unat_eq_iff unsigned_take_bit_eq) (simp add: take_bit_eq_mod)
qed

lemma mod_3_cases: "(l :: nat) mod 3 = 0 \<or> l mod 3 = 1 \<or> l mod 3 = 2"
proof -
  have "l mod 3 < 3" by simp
  then show ?thesis by linarith
qed

lemma pending_bits: "(6 - 2 * l mod 6) mod 6 = 2 * ((3 - l mod 3) mod 3)" for l :: nat
  using mod_3_cases [of l] mult_mod_right [of 2 l 3] by auto

context base64_alphabet begin

lemma decode_text:
  assumes "length xs \<le> N" "p = 0 \<or> \<not> ignored ign 61"
  obtains acc k where "b64_decode g N (b64_encode f xs 0 0 @ replicate p 61) ign 0 [] 0 0 = (xs, length (b64_encode f xs 0 0), acc, k, 0, None)"
    "acc AND (push_bit k 1 - 1) = 0" "k = (6 - (2 * length xs) mod 6) mod 6"
proof -
  define e where "e = b64_encode f xs 0 0"
  have "drop 0 (e @ replicate p 61) = b64_encode f xs 0 0 @ replicate p 61" by (simp add: e_def)
  moreover have "g (scast (61 :: byte)) = 0xFF" using decode_pad by simp
  then have "replicate p 61 = [] \<or> g (scast (hd (replicate p 61 :: byte list))) = 0xFF \<and> \<not> ignored ign (hd (replicate p 61))"
    using assms(2) by (cases p) simp_all
  ultimately obtain acc k where "b64_decode g N (e @ replicate p 61) ign 0 [] 0 0 = ([] @ [] @ xs, 0 + length e, acc, k, 0, None)"
      "unat acc mod 2 ^ k = 0" "k = (6 - (0 + 2 * length xs) mod 6) mod 6"
    using decode_encode [of 0 0 0 "e @ replicate p 61" xs 0 "replicate p 61" ign "[]" N "[]" 0] assms(1) unfolding e_def by auto
  then show ?thesis using that [of acc k] low_bits_clear [of acc k] by (simp add: e_def)
qed

lemma encoded_text_length:
  "length (b64_encode f xs 0 0) + (if np then 0 else (6 - (2 * length xs) mod 6) mod 6 div 2) = base64_len (length xs) np"
proof -
  define q r where "q = length xs div 3" and "r = length xs mod 3"
  have l: "length xs = 3 * q + r" by (simp add: q_def r_def)
  have "length (b64_encode f xs 0 0) = (8 * length xs + 5) div 6" by (simp add: encode_length)
  then show ?thesis using mod_3_cases [of "length xs"] unfolding base64_len_def pending_bits q_def [symmetric] r_def [symmetric] unfolding l by auto
qed

lemma text_roundtrip:
  fixes xs np
  defines "p \<equiv> if np then 0 else (6 - (2 * length xs) mod 6) mod 6 div 2"
  defines "s \<equiv> b64_encode f xs 0 0 @ replicate p 61"
  assumes "length xs \<le> N" "\<not> ignored ign 61"
  obtains acc k where "b64_decode g N s ign 0 [] 0 0 = (xs, length (b64_encode f xs 0 0), acc, k, 0, None)"
    "acc AND (push_bit k 1 - 1) = 0" "k \<le> 4" "base642bin_skip_padding s (length (b64_encode f xs 0 0)) ign (k div 2) = (0, length (b64_encode f xs 0 0) + k div 2, None)
      \<or> np" "\<not> np \<Longrightarrow> length s = length (b64_encode f xs 0 0) + k div 2"
proof -
  obtain acc k where a: "b64_decode g N s ign 0 [] 0 0 = (xs, length (b64_encode f xs 0 0), acc, k, 0, None)"
    "acc AND (push_bit k 1 - 1) = 0" "k = (6 - (2 * length xs) mod 6) mod 6"
    using decode_text [OF assms(3), of p ign] assms(4) unfolding s_def by blast
  have "k \<le> 4" using mod_3_cases [of "length xs"] unfolding a(3) pending_bits by auto
  moreover have "base642bin_skip_padding s (length (b64_encode f xs 0 0)) ign (k div 2) = (0, length (b64_encode f xs 0 0) + k div 2, None)" if "\<not> np"
    using that by (intro skip_padding_all [of _ _ _ "[]"]) (simp_all add: s_def p_def a(3))
  moreover have "\<not> np \<Longrightarrow> length s = length (b64_encode f xs 0 0) + k div 2" by (simp add: s_def p_def a(3))
  ultimately show ?thesis using that a(1,2) by blast
qed

end

lemma skip_ignored_end: "skip_ignored s t (length s) = length s"
  by (subst skip_ignored.simps) simp



text \<open>Decoding what was encoded, from what the two alphabets share.\<close>

lemma base642bin_text:
  assumes "base64_alphabet f g" "f = (if urlsafe variant then b64_byte_to_urlsafe_char else b64_byte_to_char)"
    "g = (if urlsafe variant then b64_urlsafe_char_to_byte else b64_char_to_byte)"
    "base64_variant_ok variant" "length bin < 2 ^ 62" "base64_len (length bin) (no_padding variant) < maxlen" "\<not> ignored ign 61" "length bin \<le> N"
  shows "\<exists>s. sodium_bin2base64 maxlen bin variant = Some (s @ replicate (maxlen - length s) 0) \<and> length s = base64_len (length bin) (no_padding variant)
    \<and> 0 \<notin> set s
    \<and> sodium_base642bin N s ign has_end variant = Some \<lparr>d_ret = 0, d_len = length bin, d_bin = bin, d_pos = length s, d_errno = None\<rparr>"
proof -
  note rules = base64_alphabet.text_roundtrip [OF assms(1) assms(8,7)] base64_alphabet.encoded_text_length [OF assms(1)] base64_alphabet.encode_chars [OF assms(1)]
  define np where "np = no_padding variant"
  define e where "e = b64_encode f bin 0 0"
  define p where "p = (if np then 0 else (6 - (2 * length bin) mod 6) mod 6 div 2)"
  define s where "s = e @ replicate p 61"
  have l: "length s = base64_len (length bin) np" using rules(2) by (simp add: s_def e_def p_def)
  obtain acc k where d: "b64_decode g N s ign 0 [] 0 0 = (bin, length e, acc, k, 0, None)" "acc AND (push_bit k 1 - 1) = 0" "k \<le> 4"
      "base642bin_skip_padding s (length e) ign (k div 2) = (0, length e + k div 2, None) \<or> np" "\<not> np \<Longrightarrow> length s = length e + k div 2"
    using rules(1) [of np] unfolding s_def e_def p_def by blast
  have "base64_len (length bin) np < 2 ^ 64" "(if length bin - 3 * (length bin div 3) \<noteq> 0 then if \<not> np then length bin div 3 * 4 + 4
       else length bin div 3 * 4 + (2 + drop_bit 1 (length bin - 3 * (length bin div 3))) else length bin div 3 * 4) = base64_len (length bin) np"
    using assms(5) mod_3_cases [of "length bin"] div_le_dividend [of "length bin" 3]
    by (auto simp: base64_len_def minus_mult_div_eq_mod drop_bit_eq_div)
  note len = this(2) [folded l, unfolded np_def] mod_less [OF this(1) [folded l]]
  have "length e \<le> length s" by (simp add: s_def)
  then have "sodium_bin2base64 maxlen bin variant = Some (s @ replicate (maxlen - length s) 0)"
    using assms(4,6) l unfolding sodium_bin2base64_def Let_def len assms(2) [symmetric] e_def [symmetric] np_def by (simp add: s_def)
  moreover have "sodium_base642bin N s ign has_end variant = Some \<lparr>d_ret = 0, d_len = length bin, d_bin = bin, d_pos = length s, d_errno = None\<rparr>"
    using d assms(4) skip_ignored_end [of s] unfolding sodium_base642bin_def Let_def assms(3) [symmetric] by (cases np) (auto simp: np_def s_def p_def split: option.splits)
  moreover have "0 \<notin> set s" using rules(3) by (auto simp: s_def e_def)
  ultimately show ?thesis using l unfolding np_def by blast
qed

section \<open>Properties\<close>

text \<open>C32: in each of the four variants \<^verbatim>\<open>sodium_bin2base64\<close> writes a text of the length
  \<^verbatim>\<open>sodium_base64_encoded_len\<close> announces, followed by zeros, and \<^verbatim>\<open>sodium_base642bin\<close> turns the text back into the bytes, whatever
  characters it ignores (the padding character apart).\<close>

theorem sodium_base64_roundtrip:
  assumes "length bin < 2 ^ 62" "sodium_base64_encoded_len (of_nat (length bin)) variant = Some n" "unat n \<le> b64_maxlen"
    "\<not> ignored ignore 61" "length bin \<le> bin_maxlen"
  shows "\<exists>s. sodium_bin2base64 b64_maxlen bin variant = Some (s @ replicate (b64_maxlen - length s) 0) \<and> length s + 1 = unat n \<and> 0 \<notin> set s
    \<and> sodium_base642bin bin_maxlen s ignore has_end variant = Some \<lparr>d_ret = 0, d_len = length bin, d_bin = bin, d_pos = length s, d_errno = None\<rparr>"
proof -
  have v: "base64_variant_ok variant" using assms(2) by (auto simp: sodium_base64_encoded_len_def split: if_splits)
  let ?l = "base64_len (length bin) (no_padding variant)"
  have "length bin div 3 * 3 \<le> length bin" "length bin mod 3 < 3" by simp_all
  then have "?l + 1 < 2 ^ 64" using assms(1) by (auto simp: base64_len_def)
  then have "unat (of_nat (?l + 1) :: u64) = ?l + 1" by (simp only: unsigned_of_nat) (simp add: take_bit_nat_eq_self)
  then have n: "unat n = ?l + 1" using encoded_len [OF v assms(1)] assms(2) by (simp only: option.inject)
  have "base64_alphabet (if urlsafe variant then b64_byte_to_urlsafe_char else b64_byte_to_char)
      (if urlsafe variant then b64_urlsafe_char_to_byte else b64_char_to_byte)"
    using standard.base64_alphabet_axioms url.base64_alphabet_axioms by simp
  from base642bin_text [OF this refl refl v assms(1) _ assms(4,5), of b64_maxlen has_end] show ?thesis using n assms(3) by simp
qed

theorem sodium_base64_roundtrip_witness:
  "\<exists>s. sodium_bin2base64 12 [1, 2, 3, 0xFF] 5 = Some (s @ replicate (12 - length s) 0) \<and> length s = 8
    \<and> sodium_base642bin 4 s (Some [32, 10]) False 5 = Some \<lparr>d_ret = 0, d_len = 4, d_bin = [1, 2, 3, 0xFF], d_pos = length s, d_errno = None\<rparr>"
proof -
  have "sodium_base64_encoded_len (of_nat (length [1, 2, 3, 0xFF :: byte])) 5 = Some 9"
    by (simp add: sodium_base64_encoded_len_def base64_variant_ok_def Let_def)
  moreover have "\<not> ignored (Some [32, 10]) 61" by (simp add: ignored_def strchr_found_def)
  ultimately obtain s where "sodium_bin2base64 12 [1, 2, 3, 0xFF] 5 = Some (s @ replicate (12 - length s) 0)" "length s + 1 = 9"
      "sodium_base642bin 4 s (Some [32, 10]) False 5
        = Some \<lparr>d_ret = 0, d_len = length [1, 2, 3, 0xFF :: byte], d_bin = [1, 2, 3, 0xFF], d_pos = length s, d_errno = None\<rparr>"
    using sodium_base64_roundtrip [of "[1, 2, 3, 0xFF]" 5 9 12 "Some [32, 10]" 4 False] by auto
  then show ?thesis by (intro exI [of _ s]) simp
qed

text \<open>C40: a character above 127 is read as a negative integer, for which the comparisons of the decoder do not
  hold: it decodes as the digit 63 and \<^verbatim>\<open>sodium_base642bin\<close> accepts a text of such characters.\<close>

theorem base642bin_non_ascii:
  fixes c0 c1 c2 c3 :: byte
  assumes "128 \<le> unat c0" "128 \<le> unat c1" "128 \<le> unat c2" "128 \<le> unat c3"
  shows "b64_char_to_byte (scast c0) = 63 \<and> b64_urlsafe_char_to_byte (scast c0) = 63
    \<and> sodium_base642bin 3 [c0, c1, c2, c3] None False 1 = Some \<lparr>d_ret = 0, d_len = 3, d_bin = [255, 255, 255], d_pos = 4, d_errno = None\<rparr>"
  using assms
  by (simp add: b64_non_ascii sodium_base642bin_def base64_variant_ok_def urlsafe_def no_padding_def b64_decode.simps [of b64_char_to_byte 3 "[c0, c1, c2, c3]"]
      base642bin_skip_padding.simps [of _ _ _ 0])

theorem base642bin_non_ascii_witness:
  "sodium_base642bin 3 [0x80, 0xC3, 0xA9, 0xFF] None False 1 = Some \<lparr>d_ret = 0, d_len = 3, d_bin = [255, 255, 255], d_pos = 4, d_errno = None\<rparr>"
  using base642bin_non_ascii [of "0x80" "0xC3" "0xA9" "0xFF"] by simp

end
