(* ===== verification/Spec2Isabelle.thy ===== *)
theory Spec2Isabelle
  imports Native Ripemd160 Sha256 Sha512 Utils Hmac ChaCha20 Salsa20 Poly1305 Aead Secretbox Secretstream
    Curve25519 Modm Recode Edwards Scalarmult Ed25519 Modm_Batch Batch_Heap Batch Hex Base64
begin

text \<open>
  Verification of the native cryptographic library of the SmartX node
  (\<^verbatim>\<open>src/src/main/native/crypto\<close>).

  \<^bold>\<open>The program.\<close> The node is written in Java and calls five native methods
  (\<^verbatim>\<open>com_smartx_crypto_Native.cpp\<close>): \<^verbatim>\<open>h256\<close> and \<^verbatim>\<open>h160\<close> hash a message with BLAKE2b and
  RIPEMD-160, \<^verbatim>\<open>sign\<close>, \<^verbatim>\<open>verify\<close> and \<^verbatim>\<open>verifyBatch\<close> are Ed25519 signatures. They rest on
  \<^verbatim>\<open>ripemd160.c\<close>, on ed25519-donna and on libsodium, of which the library builds all of the symmetric
  cryptography as well.

  \<^bold>\<open>Theories and sources.\<close> (\<^verbatim>\<open>S\<close> is \<^verbatim>\<open>libsodium/src/libsodium\<close>, \<^verbatim>\<open>D\<close> is \<^verbatim>\<open>ed25519-donna\<close>.)
  \<^item> \<open>Prelude\<close>: machine types, memory copies and \<^verbatim>\<open>S/include/sodium/private/common.h\<close>. \<open>Streaming\<close>: the interface of
    the incremental functions (init, update, final); \<open>Keystream\<close>: the interface of the stream ciphers.
  \<^item> \<open>Native\<close>: the five JNI methods with their null, length and exception paths and the heap blocks of
    \<^verbatim>\<open>verifyBatch\<close> (allocations less deallocations), over the models of the functions they call.
  \<^item> Hashes: \<open>Ripemd160\<close> (\<^verbatim>\<open>ripemd160.c\<close>), \<open>Sha2\<close>, \<open>Sha256\<close>, \<open>Sha512\<close> (\<^verbatim>\<open>S/crypto_hash\<close>), \<open>Blake2b\<close> and
    \<open>Generichash\<close> (\<^verbatim>\<open>S/crypto_generichash\<close>, \<^verbatim>\<open>S/crypto_kdf\<close>), \<open>Hmac\<close> (\<^verbatim>\<open>S/crypto_auth\<close>). A context is a record; every
    one of them is shown to represent the bytes it was fed, so that the digest is the standard's function of the
    concatenated message, however it was cut.
  \<^item> Ciphers: \<open>ChaCha20\<close>, \<open>Salsa20\<close> (\<^verbatim>\<open>S/crypto_stream\<close>, \<^verbatim>\<open>S/crypto_core\<close>), \<open>Poly1305\<close> (\<^verbatim>\<open>S/crypto_onetimeauth\<close>),
    \<open>Aead\<close> (\<^verbatim>\<open>S/crypto_aead\<close>), \<open>Secretbox\<close> (\<^verbatim>\<open>S/crypto_secretbox\<close>), \<open>Secretstream\<close> (\<^verbatim>\<open>S/crypto_secretstream\<close>). The streams are
    counter mode, the tag is the polynomial modulo \<open>2 ^ 130 - 5\<close>, what is opened was sealed under the same tag, and the two
    ends of a secret stream stay in step.
  \<^item> \<open>Utils\<close>: the constant-time comparisons, arithmetic and padding of \<^verbatim>\<open>S/sodium/utils.c\<close>. \<open>Hex\<close>, \<open>Base64\<close>: \<^verbatim>\<open>S/sodium/codecs.c\<close>, encoders and decoders that
    are inverse to each other, with what the decoders reject.
  \<^item> Ed25519: \<open>Limbs\<close>, \<open>Fp25519\<close>, \<open>Curve25519\<close> (the field, \<^verbatim>\<open>D/curve25519-donna-64bit.h\<close> and \<^verbatim>\<open>-helpers.h\<close>), \<open>Modm\<close>, \<open>Recode\<close> and
    \<open>Modm_Batch\<close> (scalars, \<^verbatim>\<open>D/modm-donna-64bit.h\<close>), \<open>Edwards\<close>, \<open>Scalarmult\<close> and \<open>Basepoint_Table\<close> (points,
    \<^verbatim>\<open>D/ed25519-donna-impl-base.h\<close> and the tables), \<open>Ed25519\<close> (\<^verbatim>\<open>D/ed25519.c\<close>), \<open>Batch_Heap\<close> and \<open>Batch\<close>
    (\<^verbatim>\<open>D/ed25519-donna-batchverify.h\<close>). The limb code never overflows and computes in the field \<open>fp\<close>; the point
    formulas are the addition law of the curve; the scalar multiplications compute the combinations their names say,
    stated with discrete logarithms to an arbitrary base; signing and verification compute the equations of the scheme, batch verification their random combination (stated for
    every relation between points and numbers that respects addition).

  \<^bold>\<open>Conventions.\<close> A buffer and its length are one byte list. \<open>None\<close> is the end of the process (\<^verbatim>\<open>sodium_misuse\<close> or a
  failed assertion); where a null pointer can be passed, the argument is an option and \<open>None\<close> the null pointer. An uninitialised local or a random value is an argument. Machine integers are words wherever a wrap could
  show, natural numbers where an invariant bounds them. The builds modelled are little-endian and 64-bit with the
  portable implementations. There is no fuel: loops are structural recursions, functions with a measure, or option-valued
  partial functions whose termination is proved.

  \<^bold>\<open>Not modelled.\<close> The SIMD and assembly variants (they have no portable meaning in the sources), the 32-bit variants
  selected on other machines, random number generation, locked memory, processor detection and library initialisation (operating
  system), libsodium's own Curve25519 and Ed25519 with the boxes and key exchange on top of them, AEGIS and AES-GCM
  (processor intrinsics), password hashing and SipHash (not reached from the native methods), the test programs, and the Java node.
\<close>

end
